(* ===== verification/Giosk_Prelude.thy ===== *)
theory Giosk_Prelude
  imports Complex_Main "HOL-Library.Word" "HOL-Library.Log_Nat" "HOL-Library.Signed_Division"
begin

text \<open>
  Shared vocabulary of the development: Go's numeric conversions (truncating division,
  \<open>float64\<close> rounding, \<open>int(...)\<close> of a float), times and durations in nanoseconds, decimal
  formatting (\<open>%d\<close>), tables as row lists with SQL's \<open>UPDATE ... WHERE\<close>, \<open>INSERT IGNORE\<close> and
  single-row \<open>SELECT\<close>, and the fact collections the component theories extend.
\<close>

section \<open>Fact collections\<close>

named_theorems rows \<comment> \<open>what the table operations do to lookups\<close>
named_theorems frame \<comment> \<open>fields and tables an operation leaves alone\<close>

section \<open>Times\<close>

text \<open>A \<open>time.Time\<close> is its instant in nanoseconds, a \<open>time.Duration\<close> is a count of
  nanoseconds; \<open>nil\<close> pointers to times are \<open>None\<close>.\<close>

type_synonym time = int
type_synonym duration = int

abbreviation second :: duration where "second \<equiv> 1000000000"
abbreviation minute :: duration where "minute \<equiv> 60 * 1000000000"
abbreviation hour :: duration where "hour \<equiv> 3600 * 1000000000"
abbreviation day :: duration where "day \<equiv> 24 * (3600 * 1000000000)"

section \<open>Go's float64\<close>

text \<open>
  Values of type \<open>float64\<close> are rationals, and every arithmetic operation is followed by
  \<open>f64\<close>: rounding to a 53-bit significand, ties to even (IEEE 754 binary64 without the
  exponent range: every quantity of the program lies far inside it).
\<close>

definition ilog2 :: "rat \<Rightarrow> int" where
  "ilog2 x =
     (let q = quotient_of x; d = bitlen (fst q) - bitlen (snd q)
      in if 2 powi d \<le> x then d else d - 1)"

definition round_even :: "rat \<Rightarrow> int" where
  "round_even y =
     (let f = \<lfloor>y\<rfloor>; r = y - of_int f
      in if r < 1 / 2 then f
         else if 1 / 2 < r then f + 1
         else if even f then f else f + 1)"

definition f64_pos :: "rat \<Rightarrow> rat" where
  "f64_pos x = (let u = 2 powi (ilog2 x - 52) in of_int (round_even (x / u)) * u)"

definition f64 :: "rat \<Rightarrow> rat" where
  "f64 x = (if x = 0 then 0 else if 0 < x then f64_pos x else - f64_pos (- x))"

text \<open>Conversion of a float to an integer truncates towards zero.\<close>

definition trunc :: "rat \<Rightarrow> int" where
  "trunc x = (if 0 \<le> x then \<lfloor>x\<rfloor> else - \<lfloor>- x\<rfloor>)"

text \<open>\<open>float64(n)\<close> of an integer, and the float operations.\<close>

definition fl :: "int \<Rightarrow> rat" where "fl n = f64 (of_int n)"
definition fadd :: "rat \<Rightarrow> rat \<Rightarrow> rat" where "fadd x y = f64 (x + y)"
definition fsub :: "rat \<Rightarrow> rat \<Rightarrow> rat" where "fsub x y = f64 (x - y)"
definition fmul :: "rat \<Rightarrow> rat \<Rightarrow> rat" where "fmul x y = f64 (x * y)"
definition fdiv :: "rat \<Rightarrow> rat \<Rightarrow> rat" where "fdiv x y = f64 (x / y)"

text \<open>\<open>Duration.Seconds\<close> and \<open>Duration.Hours\<close> of Go's \<open>time\<close> package: whole units and
  the remainder are converted separately and added.\<close>

definition dur_seconds :: "duration \<Rightarrow> rat" where
  "dur_seconds d = fadd (fl (d sdiv second)) (fdiv (fl (d smod second)) (fl second))"

definition dur_hours :: "duration \<Rightarrow> rat" where
  "dur_hours d = fadd (fl (d sdiv hour)) (fdiv (fl (d smod hour)) (fl hour))"

subsection \<open>Facts about the rounding\<close>

lemma powi_nat_diff: "(2::rat) powi (int m - int n) = 2 ^ m / 2 ^ n"
  by (simp add: power_int_diff)

lemma pow2_le_rat: "(2::int) ^ k \<le> a \<Longrightarrow> (2::rat) ^ k \<le> of_int a"
  by (metis of_int_le_iff of_int_numeral of_int_power)

lemma pow2_less_rat: "a < (2::int) ^ k \<Longrightarrow> of_int a < (2::rat) ^ k"
  by (metis of_int_less_iff of_int_numeral of_int_power)

lemma pred_nat_conv: "nat (int m - 1) = m - 1"
  by simp

lemma ilog2_bounds:
  assumes "0 < x"
  shows "2 powi (ilog2 x) \<le> x" "x < 2 powi (ilog2 x + 1)"
proof -
  obtain a b where q: "quotient_of x = (a, b)" by (cases "quotient_of x")
  have b: "0 < b" and x: "x = of_int a / of_int b"
    using q quotient_of_denom_pos quotient_of_div by blast+
  with assms have a: "0 < a" by (simp add: zero_less_divide_iff)
  define m where "m = nat (bitlen a)"
  define n where "n = nat (bitlen b)"
  have mn: "bitlen a = int m" "bitlen b = int n" "0 < m" "0 < n"
    using a b bitlen_eq_zero_iff [of a] bitlen_eq_zero_iff [of b] bitlen_nonneg [of a] bitlen_nonneg [of b]
    by (auto simp: m_def n_def)
  have ai: "2 ^ (m - 1) \<le> a" "a < 2 ^ m"
    using bitlen_bounds [OF a] mn by (simp_all add: pred_nat_conv)
  have bi: "2 ^ (n - 1) \<le> b" "b < 2 ^ n"
    using bitlen_bounds [OF b] mn by (simp_all add: pred_nat_conv)
  note ar = pow2_le_rat [OF ai(1)] pow2_less_rat [OF ai(2)]
  note br = pow2_le_rat [OF bi(1)] pow2_less_rat [OF bi(2)]
  have up: "x < 2 powi (int m - int n + 1)"
  proof -
    have "x \<le> of_int a / 2 ^ (n - 1)" using br b a by (simp add: x frac_le)
    also have "\<dots> < 2 ^ m / 2 ^ (n - 1)" using ar by (simp add: divide_strict_right_mono)
    also have "\<dots> = 2 powi (int m - int (n - 1))" by (simp add: powi_nat_diff)
    also have "int m - int (n - 1) = int m - int n + 1" using mn by simp
    finally show ?thesis .
  qed
  have lo: "2 powi (int m - int n - 1) \<le> x"
  proof -
    have "2 powi (int m - int n - 1) = (2::rat) powi (int (m - 1) - int n)"
      using mn by (simp add: algebra_simps)
    also have "\<dots> = 2 ^ (m - 1) / 2 ^ n" by (simp add: powi_nat_diff)
    also have "\<dots> \<le> of_int a / 2 ^ n" using ar by (simp add: divide_right_mono)
    also have "\<dots> \<le> x" using br b a by (simp add: x frac_le)
    finally show ?thesis .
  qed
  have i: "ilog2 x = (if 2 powi (int m - int n) \<le> x then int m - int n else int m - int n - 1)"
    by (simp add: ilog2_def q mn Let_def)
  show "2 powi (ilog2 x) \<le> x" using lo by (auto simp: i)
  show "x < 2 powi (ilog2 x + 1)" using up by (auto simp: i not_le)
qed

lemma ilog2_mono:
  assumes "0 < x" "x \<le> y"
  shows "ilog2 x \<le> ilog2 y"
proof (rule ccontr)
  assume "\<not> ?thesis"
  then have "ilog2 y + 1 \<le> ilog2 x" by simp
  then have "(2::rat) powi (ilog2 y + 1) \<le> 2 powi (ilog2 x)"
    by (intro power_int_increasing) auto
  also have "\<dots> \<le> x" by (rule ilog2_bounds) fact
  finally show False using ilog2_bounds(2) [of y] assms by simp
qed

lemma round_even_of_int [simp]: "round_even (of_int n) = n"
  by (simp add: round_even_def)

lemma round_even_mono: "x \<le> y \<Longrightarrow> round_even x \<le> round_even y"
proof -
  assume le: "x \<le> y"
  have f: "\<lfloor>x\<rfloor> \<le> \<lfloor>y\<rfloor>" using le by (rule floor_mono)
  show ?thesis
  proof (cases "\<lfloor>x\<rfloor> = \<lfloor>y\<rfloor>")
    case True
    then show ?thesis using le by (auto simp: round_even_def Let_def)
  next
    case False
    with f have "\<lfloor>x\<rfloor> + 1 \<le> \<lfloor>y\<rfloor>" by simp
    moreover have "round_even x \<le> \<lfloor>x\<rfloor> + 1" "\<lfloor>y\<rfloor> \<le> round_even y"
      by (auto simp: round_even_def Let_def)
    ultimately show ?thesis by linarith
  qed
qed

lemma powi_pos [simp]: "0 < (2::rat) powi k"
  by (simp add: zero_less_power_int)

lemma scaled_bounds:
  assumes "0 < x"
  shows "2 ^ 52 \<le> x / 2 powi (ilog2 x - 52)" "x / 2 powi (ilog2 x - 52) < 2 ^ 53"
proof -
  have e: "(2::rat) powi (ilog2 x) = 2 ^ 52 * 2 powi (ilog2 x - 52)"
    "(2::rat) powi (ilog2 x + 1) = 2 ^ 53 * 2 powi (ilog2 x - 52)"
    by (simp_all add: power_int_diff power_int_add)
  show "2 ^ 52 \<le> x / 2 powi (ilog2 x - 52)"
    using ilog2_bounds(1) [OF assms] unfolding e by (simp add: pos_le_divide_eq)
  show "x / 2 powi (ilog2 x - 52) < 2 ^ 53"
    using ilog2_bounds(2) [OF assms] unfolding e by (simp add: pos_divide_less_eq)
qed

lemma f64_pos_bounds:
  assumes "0 < x"
  shows "2 powi (ilog2 x) \<le> f64_pos x" "f64_pos x \<le> 2 powi (ilog2 x + 1)"
proof -
  let ?u = "(2::rat) powi (ilog2 x - 52)"
  have e: "(2::rat) powi (ilog2 x) = of_int (2 ^ 52) * ?u"
    "(2::rat) powi (ilog2 x + 1) = of_int (2 ^ 53) * ?u"
    by (simp_all add: power_int_diff power_int_add)
  have "round_even (of_int (2 ^ 52)) \<le> round_even (x / ?u)"
    using scaled_bounds(1) [OF assms] by (intro round_even_mono) simp
  moreover have "round_even (x / ?u) \<le> round_even (of_int (2 ^ 53))"
    using scaled_bounds(2) [OF assms] by (intro round_even_mono) simp
  ultimately have "2 ^ 52 \<le> round_even (x / ?u)" "round_even (x / ?u) \<le> 2 ^ 53"
    by (simp_all only: round_even_of_int)
  then show "2 powi (ilog2 x) \<le> f64_pos x" "f64_pos x \<le> 2 powi (ilog2 x + 1)"
    unfolding e f64_pos_def Let_def
    by (simp_all only: mult_right_mono powi_pos less_imp_le of_int_le_iff)
qed

lemma f64_pos_pos: "0 < x \<Longrightarrow> 0 < f64_pos x"
  using f64_pos_bounds(1) [of x] powi_pos [of "ilog2 x"] by linarith

lemma f64_pos_mono:
  assumes "0 < x" "x \<le> y"
  shows "f64_pos x \<le> f64_pos y"
proof (cases "ilog2 x = ilog2 y")
  case True
  have "round_even (x / 2 powi (ilog2 y - 52)) \<le> round_even (y / 2 powi (ilog2 y - 52))"
    by (rule round_even_mono, rule divide_right_mono [OF assms(2)]) (simp add: less_imp_le)
  then show ?thesis by (simp add: f64_pos_def Let_def True)
next
  case False
  with ilog2_mono [OF assms] have "(2::rat) powi (ilog2 x + 1) \<le> 2 powi (ilog2 y)"
    by (intro power_int_increasing) auto
  then show ?thesis
    using f64_pos_bounds(2) [of x] f64_pos_bounds(1) [of y] assms by simp
qed

lemma f64_0 [simp]: "f64 0 = 0"
  by (simp add: f64_def)

lemma f64_mono: "x \<le> y \<Longrightarrow> f64 x \<le> f64 y"
  using f64_pos_mono [of x y] f64_pos_mono [of "- y" "- x"] f64_pos_pos [of y] f64_pos_pos [of "- x"]
  by (auto simp: f64_def)

lemma f64_nonneg [simp]: "0 \<le> x \<Longrightarrow> 0 \<le> f64 x"
  using f64_mono [of 0 x] by simp

text \<open>Integers of at most 53 bits are exact.\<close>

lemma f64_pos_of_int:
  assumes "0 < n" "n \<le> 2 ^ 53"
  shows "f64_pos (of_int n) = of_int n"
proof -
  let ?x = "of_int n :: rat"
  have x: "0 < ?x" using assms by simp
  have le: "ilog2 ?x \<le> 53"
  proof (rule ccontr)
    assume "\<not> ?thesis"
    then have "(2::rat) powi 54 \<le> 2 powi (ilog2 ?x)" by (intro power_int_increasing) auto
    with ilog2_bounds(1) [OF x] have "(2::rat) ^ 54 \<le> of_int n" by simp
    moreover have "(of_int n :: rat) \<le> of_int (2 ^ 53)" using assms(2) by (simp only: of_int_le_iff)
    ultimately show False by simp
  qed
  have "\<exists>k::int. ?x / 2 powi (ilog2 ?x - 52) = of_int k"
  proof (cases "ilog2 ?x \<le> 52")
    case True
    then have "ilog2 ?x - 52 = - int (nat (52 - ilog2 ?x))" by simp
    then have "?x / 2 powi (ilog2 ?x - 52) = ?x / inverse (2 ^ nat (52 - ilog2 ?x))"
      by (metis power_int_minus power_int_of_nat)
    also have "\<dots> = of_int (n * 2 ^ nat (52 - ilog2 ?x))"
      by (simp add: divide_inverse)
    finally show ?thesis by blast
  next
    case False
    with le have i: "ilog2 ?x = 53" by simp
    with ilog2_bounds(1) [OF x] have "(of_int (2 ^ 53) :: rat) \<le> of_int n" by simp
    then have "n = 2 ^ 53" using assms(2) by (simp only: of_int_le_iff)
    then have h: "?x / 2 = of_int (2 ^ 52)" by simp
    have "(2::rat) powi (ilog2 ?x - 52) = 2" unfolding i by simp
    with h show ?thesis by metis
  qed
  then obtain k :: int where k: "?x / 2 powi (ilog2 ?x - 52) = of_int k" by blast
  then have "?x = of_int k * 2 powi (ilog2 ?x - 52)"
    by (simp add: field_simps power_int_not_zero)
  then show ?thesis unfolding f64_pos_def Let_def k round_even_of_int by simp
qed

lemma f64_of_int: "\<bar>n\<bar> \<le> 2 ^ 53 \<Longrightarrow> f64 (of_int n) = of_int n"
  using f64_pos_of_int [of n] f64_pos_of_int [of "- n"] by (auto simp: f64_def)

lemma trunc_mono: "x \<le> y \<Longrightarrow> trunc x \<le> trunc y"
  unfolding trunc_def by (auto intro: floor_mono order_trans [of _ 0])

lemma trunc_of_int [simp]: "trunc (of_int n) = n"
  by (simp add: trunc_def)

lemma trunc_nonneg: "0 \<le> x \<Longrightarrow> 0 \<le> trunc x"
  by (simp add: trunc_def)


lemma f64_le_of_int: "x \<le> of_int n \<Longrightarrow> \<bar>n\<bar> \<le> 2 ^ 53 \<Longrightarrow> f64 x \<le> of_int n"
  using f64_mono [of x "of_int n"] by (simp add: f64_of_int)

lemma fl_of_small: "\<bar>n\<bar> \<le> 2 ^ 53 \<Longrightarrow> fl n = of_int n"
  by (simp add: fl_def f64_of_int)

lemma fl_mono: "m \<le> n \<Longrightarrow> fl m \<le> fl n"
  by (simp add: fl_def f64_mono)

lemma fl_nonneg [simp]: "0 \<le> n \<Longrightarrow> 0 \<le> fl n"
  by (simp add: fl_def)

lemma fl_0 [simp]: "fl 0 = 0"
  by (simp add: fl_def)

lemma sdiv_nonneg: "0 \<le> (a::int) \<Longrightarrow> 0 < b \<Longrightarrow> a sdiv b = a div b"
  by (simp add: signed_divide_int_def sgn_if)

lemma smod_nonneg: "0 \<le> (a::int) \<Longrightarrow> 0 < b \<Longrightarrow> a smod b = a mod b"
  by (auto simp: signed_modulo_int_def sgn_if)

section \<open>Decimal formatting\<close>

definition digit_char :: "nat \<Rightarrow> char" where
  "digit_char d = char_of (48 + d)"

fun dec_nat :: "nat \<Rightarrow> string" where
  "dec_nat n = (if n < 10 then [digit_char n] else dec_nat (n div 10) @ [digit_char (n mod 10)])"

declare dec_nat.simps [simp del]

definition dec :: "int \<Rightarrow> string" where
  "dec i = (if i < 0 then CHR ''-'' # dec_nat (nat (- i)) else dec_nat (nat i))"

definition undec_step :: "nat \<Rightarrow> char \<Rightarrow> nat" where
  "undec_step a c = 10 * a + (of_char c - 48)"

definition is_digit :: "char \<Rightarrow> bool" where
  "is_digit c \<longleftrightarrow> 48 \<le> (of_char c :: nat) \<and> (of_char c :: nat) \<le> 57"

lemma of_digit_char: "d < 10 \<Longrightarrow> (of_char (digit_char d) :: nat) = 48 + d"
  by (simp add: digit_char_def of_char_of)

lemma undec_dec_nat: "foldl undec_step 0 (dec_nat n) = n"
proof (induction n rule: dec_nat.induct)
  case (1 n)
  show ?case
  proof (cases "n < 10")
    case True
    then show ?thesis by (simp add: dec_nat.simps [of n] undec_step_def of_digit_char)
  next
    case False
    with 1 show ?thesis by (simp add: dec_nat.simps [of n] undec_step_def of_digit_char)
  qed
qed

lemma dec_nat_digits: "\<forall>c \<in> set (dec_nat n). is_digit c"
proof (induction n rule: dec_nat.induct)
  case (1 n)
  have "is_digit (digit_char d)" if "d < 10" for d
    using that by (simp add: is_digit_def of_digit_char)
  with 1 show ?case by (cases "n < 10") (simp_all add: dec_nat.simps [of n])
qed

lemma dec_nat_inj: "dec_nat m = dec_nat n \<longleftrightarrow> m = n"
  by (metis undec_dec_nat)

lemma dec_inj [simp]: "dec i = dec j \<longleftrightarrow> i = j"
proof -
  have minus: "\<not> is_digit (CHR ''-'')" by (simp add: is_digit_def)
  have *: "CHR ''-'' # xs \<noteq> dec_nat n" for xs n
  proof
    assume "CHR ''-'' # xs = dec_nat n"
    then have "CHR ''-'' \<in> set (dec_nat n)" by (metis list.set_intros(1))
    with dec_nat_digits minus show False by blast
  qed
  then show ?thesis using *[symmetric] by (auto simp: dec_def dec_nat_inj)
qed

text \<open>\<open>strconv.ParseInt(s, 10, 64)\<close>: an optional sign and at least one digit, within 64 bits.\<close>

definition digits_value :: "string \<Rightarrow> nat option" where
  "digits_value s = (if s \<noteq> [] \<and> list_all is_digit s then Some (foldl undec_step 0 s) else None)"

definition in_int64 :: "int \<Rightarrow> bool" where
  "in_int64 n \<longleftrightarrow> - (2 ^ 63) \<le> n \<and> n < 2 ^ 63"

definition signed_value :: "string \<Rightarrow> int option" where
  "signed_value s =
     (case s of [] \<Rightarrow> None
      | c # cs \<Rightarrow>
          (if c = CHR ''-'' then map_option (\<lambda>n. - int n) (digits_value cs)
           else if c = CHR ''+'' then map_option int (digits_value cs)
           else map_option int (digits_value s)))"

definition parse_int64 :: "string \<Rightarrow> int option" where
  "parse_int64 s =
     (case signed_value s of None \<Rightarrow> None | Some n \<Rightarrow> if in_int64 n then Some n else None)"

lemma dec_nat_not_Nil [simp]: "dec_nat n \<noteq> []"
  by (simp add: dec_nat.simps [of n])

lemma digits_value_dec_nat [simp]: "digits_value (dec_nat n) = Some n"
  using dec_nat_digits [of n] by (simp add: digits_value_def undec_dec_nat list_all_iff)

lemma signed_value_dec [simp]: "signed_value (dec i) = Some i"
proof (cases "i < 0")
  case True
  then show ?thesis by (simp add: signed_value_def dec_def)
next
  case False
  obtain c cs where c: "dec_nat (nat i) = c # cs" by (cases "dec_nat (nat i)") auto
  then have "is_digit c" using dec_nat_digits [of "nat i"] by simp
  then have "c \<noteq> CHR ''-''" "c \<noteq> CHR ''+''" by (auto simp: is_digit_def)
  with False c show ?thesis
    using digits_value_dec_nat [of "nat i"] by (simp add: signed_value_def dec_def)
qed

lemma parse_int64_dec: "in_int64 i \<Longrightarrow> parse_int64 (dec i) = Some i"
  by (simp add: parse_int64_def)

text \<open>\<open>ParseInt\<close> with its error ignored: 0 for what is no number, the nearest limit for what is out of range.\<close>

definition parse_id :: "string \<Rightarrow> int" where
  "parse_id s =
     (case signed_value s of None \<Rightarrow> 0
      | Some n \<Rightarrow> if in_int64 n then n else if n < 0 then - (2 ^ 63) else 2 ^ 63 - 1)"

lemma parse_id_dec: "in_int64 i \<Longrightarrow> parse_id (dec i) = i"
  by (simp add: parse_id_def)

lemma parse_id_valid: "parse_int64 s = Some i \<Longrightarrow> parse_id s = i"
  by (auto simp: parse_id_def parse_int64_def split: option.splits if_splits)

section \<open>Strings\<close>

definition has_prefix :: "string \<Rightarrow> string \<Rightarrow> bool" where
  "has_prefix p s = (take (length p) s = p)"

definition trim_prefix :: "string \<Rightarrow> string \<Rightarrow> string" where
  "trim_prefix p s = (if has_prefix p s then drop (length p) s else s)"

lemma has_prefix_append [simp]: "has_prefix p (p @ s)"
  by (simp add: has_prefix_def)

lemma trim_prefix_append [simp]: "trim_prefix p (p @ s) = s"
  by (simp add: trim_prefix_def)

text \<open>\<open>strings.TrimSpace\<close>, of ASCII.\<close>

definition is_space :: "char \<Rightarrow> bool" where
  "is_space c \<longleftrightarrow> c = CHR '' '' \<or> c \<in> set [CHR 0x09, CHR 0x0A, CHR 0x0B, CHR 0x0C, CHR 0x0D]"

definition trim_space :: "string \<Rightarrow> string" where
  "trim_space s = rev (dropWhile is_space (rev (dropWhile is_space s)))"

definition or_default :: "string \<Rightarrow> string \<Rightarrow> string" where
  "or_default v d = (if v = [] then d else v)"

section \<open>Tables\<close>

text \<open>
  A table is the list of its rows in \<open>id\<close> order. \<open>row_of key k t\<close> is the row a
  \<open>SELECT ... WHERE key = k\<close> finds, \<open>upd_row key k f t\<close> is \<open>UPDATE ... WHERE key = k\<close>,
  \<open>insert_ignore\<close> is \<open>INSERT IGNORE\<close> on a unique key and \<open>upd_where\<close> is an \<open>UPDATE\<close> with an
  arbitrary condition.
\<close>

definition row_of :: "('r \<Rightarrow> 'k) \<Rightarrow> 'k \<Rightarrow> 'r list \<Rightarrow> 'r option" where
  "row_of key k t = find (\<lambda>r. key r = k) t"

definition upd_where :: "('r \<Rightarrow> bool) \<Rightarrow> ('r \<Rightarrow> 'r) \<Rightarrow> 'r list \<Rightarrow> 'r list" where
  "upd_where P f t = map (\<lambda>r. if P r then f r else r) t"

definition upd_row :: "('r \<Rightarrow> 'k) \<Rightarrow> 'k \<Rightarrow> ('r \<Rightarrow> 'r) \<Rightarrow> 'r list \<Rightarrow> 'r list" where
  "upd_row key k f t = upd_where (\<lambda>r. key r = k) f t"

definition insert_ignore :: "('r \<Rightarrow> 'k) \<Rightarrow> 'r \<Rightarrow> 'r list \<Rightarrow> 'r list" where
  "insert_ignore key r t = (if row_of key (key r) t = None then t @ [r] else t)"

definition keys_distinct :: "('r \<Rightarrow> 'k) \<Rightarrow> 'r list \<Rightarrow> bool" where
  "keys_distinct key t = distinct (map key t)"

lemma row_of_Nil [simp]: "row_of key k [] = None"
  by (simp add: row_of_def)

lemma row_of_Cons [simp]: "row_of key k (r # t) = (if key r = k then Some r else row_of key k t)"
  by (simp add: row_of_def)

lemma row_of_append [rows]:
  "row_of key k (t @ u) = (case row_of key k t of None \<Rightarrow> row_of key k u | Some r \<Rightarrow> Some r)"
  by (induction t) auto

lemma row_of_Some: "row_of key k t = Some r \<Longrightarrow> r \<in> set t \<and> key r = k"
  by (induction t) (auto split: if_splits)

lemma row_of_None: "row_of key k t = None \<longleftrightarrow> k \<notin> key ` set t"
  by (induction t) auto

lemma row_of_member: "keys_distinct key t \<Longrightarrow> r \<in> set t \<Longrightarrow> row_of key (key r) t = Some r"
  by (induction t) (auto simp: keys_distinct_def)

lemma upd_where_simps [simp]:
  "upd_where P f [] = []"
  "upd_where P f (r # t) = (if P r then f r else r) # upd_where P f t"
  by (simp_all add: upd_where_def)

lemma length_upd_where [simp]: "length (upd_where P f t) = length t"
  by (simp add: upd_where_def)

lemma upd_row_simps [simp]:
  "upd_row key k f [] = []"
  "upd_row key k f (r # t) = (if key r = k then f r else r) # upd_row key k f t"
  by (simp_all add: upd_row_def)

lemma row_of_upd_where [rows]:
  assumes "\<And>r. key (f r) = key r"
  shows "row_of key k (upd_where P f t) = map_option (\<lambda>r. if P r then f r else r) (row_of key k t)"
  using assms by (induction t) auto

lemma row_of_upd_row [rows]:
  assumes "\<And>r. key (f r) = key r"
  shows "row_of key j (upd_row key k f t) =
    (if j = k then map_option f (row_of key k t) else row_of key j t)"
  using assms by (induction t) auto

lemma row_of_insert_ignore [rows]:
  "row_of key k (insert_ignore key r t) =
    (if k = key r \<and> row_of key k t = None then Some r else row_of key k t)"
  by (auto simp: insert_ignore_def row_of_append split: option.splits)

lemma keys_upd_where [rows]:
  assumes "\<And>r. key (f r) = key r"
  shows "map key (upd_where P f t) = map key t"
  using assms by (induction t) auto

lemma keys_upd_row [rows]:
  assumes "\<And>r. key (f r) = key r"
  shows "map key (upd_row key k f t) = map key t"
  using assms by (simp add: upd_row_def keys_upd_where)

lemma keys_distinct_upd_row:
  "(\<And>r. key (f r) = key r) \<Longrightarrow> keys_distinct key (upd_row key k f t) = keys_distinct key t"
  by (simp add: keys_distinct_def keys_upd_row)

lemma keys_distinct_insert_ignore:
  "keys_distinct key t \<Longrightarrow> keys_distinct key (insert_ignore key r t)"
  by (auto simp: keys_distinct_def insert_ignore_def row_of_None)

lemma upd_row_append: "upd_row key k f (t @ u) = upd_row key k f t @ upd_row key k f u"
  by (simp add: upd_row_def upd_where_def)

lemma upd_row_absent: "row_of key k t = None \<Longrightarrow> upd_row key k f t = t"
  by (induction t) (auto split: if_splits)

text \<open>A total over a table moves by what the updated row moves.\<close>

lemma sum_upd_row:
  fixes v :: "'r \<Rightarrow> int"
  assumes "keys_distinct key t" "row_of key k t = Some r"
  shows "sum_list (map v (upd_row key k f t)) = sum_list (map v t) - v r + v (f r)"
  using assms
proof (induction t)
  case (Cons x t)
  show ?case
  proof (cases "key x = k")
    case True
    with Cons.prems have "row_of key k t = None" by (auto simp: keys_distinct_def row_of_None)
    with True Cons.prems show ?thesis by (simp add: upd_row_absent)
  next
    case False
    with Cons show ?thesis by (simp add: keys_distinct_def)
  qed
qed simp

section \<open>Rounding facts\<close>

lemma ilog2_unique:
  assumes "2 powi k \<le> x" "x < 2 powi (k + 1)"
  shows "ilog2 x = k"
proof -
  have x: "0 < x" using assms(1) powi_pos [of k] by linarith
  have "\<not> ilog2 x < k"
  proof
    assume "ilog2 x < k"
    then have "(2::rat) powi (ilog2 x + 1) \<le> 2 powi k" by (intro power_int_increasing) auto
    with ilog2_bounds(2) [OF x] assms(1) show False by simp
  qed
  moreover have "\<not> k < ilog2 x"
  proof
    assume "k < ilog2 x"
    then have "(2::rat) powi (k + 1) \<le> 2 powi (ilog2 x)" by (intro power_int_increasing) auto
    with ilog2_bounds(1) [OF x] assms(2) show False by simp
  qed
  ultimately show ?thesis by simp
qed

lemma powi_pred: "(2::rat) powi (k - 1) = 2 powi k / 2"
  by (simp add: power_int_diff)

lemma f64_half: "f64 (x / 2) = f64 x / 2"
proof -
  have "f64_pos (y / 2) = f64_pos y / 2" if y: "0 < y" for y
  proof -
    have "ilog2 (y / 2) = ilog2 y - 1"
      using ilog2_bounds [OF y] powi_pred [of "ilog2 y"] powi_pred [of "ilog2 y + 1"]
      by (intro ilog2_unique) auto
    then have "ilog2 (y / 2) - 52 = (ilog2 y - 52) - 1" by simp
    then have u: "(2::rat) powi (ilog2 (y / 2) - 52) = 2 powi (ilog2 y - 52) / 2"
      using powi_pred by metis
    show ?thesis unfolding f64_pos_def Let_def u by simp
  qed
  from this [of x] this [of "- x"] show ?thesis by (simp add: f64_def)
qed

lemma f64_of_half: "\<bar>n\<bar> \<le> 2 ^ 53 \<Longrightarrow> f64 (of_int n / 2) = of_int n / 2"
  by (simp add: f64_half f64_of_int)

text \<open>\<open>int(x + 0.5)\<close> of a float between zero and an integer stays below that integer.\<close>

lemma trunc_half_up:
  assumes "0 \<le> x" "x \<le> of_int n" "n < 2 ^ 52"
  shows "0 \<le> trunc (fadd x (1/2))" "trunc (fadd x (1/2)) \<le> n"
proof -
  have n: "0 \<le> n" using assms(1,2) by linarith
  have "fadd x (1/2) \<le> f64 (of_int (2 * n + 1) / 2)"
    unfolding fadd_def using assms(2) by (intro f64_mono) (simp add: field_simps)
  also have "\<dots> = of_int (2 * n + 1) / 2" using n assms(3) by (intro f64_of_half) simp
  finally have "fadd x (1/2) \<le> of_int (2 * n + 1) / 2" .
  then have "trunc (fadd x (1/2)) \<le> trunc (of_int (2 * n + 1) / 2)" by (rule trunc_mono)
  also have "trunc (of_int (2 * n + 1) / 2 :: rat) = n"
  proof -
    have "\<lfloor>(of_int (2 * n + 1) / 2 :: rat)\<rfloor> = n" by (rule floor_unique) auto
    then show ?thesis using n by (simp add: trunc_def)
  qed
  finally show "trunc (fadd x (1/2)) \<le> n" .
  show "0 \<le> trunc (fadd x (1/2))" using assms(1) by (simp add: fadd_def trunc_nonneg)
qed

end
