(* ===== verification/Authz.thy ===== *)
theory Authz
  imports Giosk_Prelude
begin

text \<open>
  The authorisation middleware of \<open>internal/authz/authz.go\<close>. A gin handler either calls
  \<open>c.Next()\<close> (\<open>Pass\<close>, with the scope it has put into the request context) or aborts with a
  status (\<open>Deny\<close>). The membership, scope and parent-organisation readers are the arguments
  the constructors take in the source.
\<close>

section \<open>Callers, scopes and verdicts\<close>

datatype level = Platform | OrgLevel | GroupLevel

record scope =
  sc_level :: level
  sc_org :: int
  sc_group :: int

record caller =
  c_id :: int
  c_admin :: bool

datatype denial = Unauthorized | Forbidden | BadRequest

datatype 'a verdict = Pass 'a | Deny denial

text \<open>The strings \<open>platform\<close>, \<open>org\<close> and \<open>group\<close> that \<open>Scope.Level\<close> takes.\<close>

fun level_name :: "level \<Rightarrow> string" where
  "level_name Platform = ''platform''"
| "level_name OrgLevel = ''org''"
| "level_name GroupLevel = ''group''"

text \<open>Role ranks; a role that is not in the map has Go's zero value, rank 0.\<close>

definition group_role_rank :: "string \<Rightarrow> nat" where
  "group_role_rank r =
     (if r = ''member'' then 1
      else if r = ''project_admin'' then 2
      else if r = ''org_admin'' then 3 else 0)"

definition require_admin :: "caller option \<Rightarrow> unit verdict" where
  "require_admin u =
     (case u of None \<Rightarrow> Deny Forbidden
      | Some c \<Rightarrow> if c_admin c then Pass () else Deny Forbidden)"

definition org_role :: "(int \<Rightarrow> int \<Rightarrow> bool) \<Rightarrow> caller option \<Rightarrow> string \<Rightarrow> unit verdict" where
  "org_role is_org_admin u param =
     (case u of None \<Rightarrow> Deny Unauthorized
      | Some c \<Rightarrow>
          if c_admin c then Pass ()
          else (case parse_int64 param of None \<Rightarrow> Deny Forbidden
                | Some oid \<Rightarrow> if is_org_admin (c_id c) oid then Pass () else Deny Forbidden))"

definition effective_ids :: "scope \<Rightarrow> int \<times> int" where
  "effective_ids s =
     (case sc_level s of OrgLevel \<Rightarrow> (sc_org s, 0)
      | GroupLevel \<Rightarrow> (0, sc_group s)
      | Platform \<Rightarrow> (0, 0))"

section \<open>Choosing the scope of a request\<close>

text \<open>\<open>strings.IndexByte(sel, ':')\<close> followed by the two slices: \<open>None\<close> when the colon is
  absent or first.\<close>

definition split_colon :: "string \<Rightarrow> (string \<times> string) option" where
  "split_colon sel =
     (let l = takeWhile (\<lambda>c. c \<noteq> CHR '':'') sel; r = dropWhile (\<lambda>c. c \<noteq> CHR '':'') sel
      in if r = [] \<or> l = [] then None else Some (l, tl r))"

definition parse_scope_sel :: "string \<Rightarrow> scope option" where
  "parse_scope_sel sel =
     (case split_colon sel of None \<Rightarrow> None
      | Some (lv, rest) \<Rightarrow>
          (case parse_int64 rest of None \<Rightarrow> None
           | Some n \<Rightarrow>
               if n \<le> 0 then None
               else if lv = ''org'' then Some \<lparr>sc_level = OrgLevel, sc_org = n, sc_group = 0\<rparr>
               else if lv = ''group'' then Some \<lparr>sc_level = GroupLevel, sc_org = 0, sc_group = n\<rparr>
               else None))"

definition match_scope :: "scope list \<Rightarrow> string \<Rightarrow> scope option" where
  "match_scope scopes sel =
     (case split_colon sel of None \<Rightarrow> None
      | Some (lv, rest) \<Rightarrow>
          (case parse_int64 rest of None \<Rightarrow> None
           | Some n \<Rightarrow>
               find (\<lambda>s. level_name (sc_level s) = lv \<and>
                         (lv = ''org'' \<and> sc_org s = n \<or> lv = ''group'' \<and> sc_group s = n))
                 scopes))"

definition require_manager ::
  "(int \<Rightarrow> scope list) \<Rightarrow> (int \<Rightarrow> int option) option \<Rightarrow> caller option \<Rightarrow> string \<Rightarrow> scope verdict"
where
  "require_manager manager_scopes org_of_group u header =
     (case u of None \<Rightarrow> Deny Unauthorized
      | Some c \<Rightarrow>
          if c_admin c then
            (let platform = \<lparr>sc_level = Platform, sc_org = 0, sc_group = 0\<rparr>
             in if header \<noteq> [] \<and> header \<noteq> ''platform'' then
                  (case parse_scope_sel header of
                     None \<Rightarrow> Pass platform
                   | Some s \<Rightarrow>
                       Pass (if sc_level s = GroupLevel \<and> sc_org s = 0 then
                               (case org_of_group of None \<Rightarrow> s
                                | Some og \<Rightarrow>
                                    (case og (sc_group s) of None \<Rightarrow> s
                                     | Some oid \<Rightarrow> s\<lparr>sc_org := oid\<rparr>))
                             else s))
                else Pass platform)
          else
            (case manager_scopes (c_id c) of
               [] \<Rightarrow> Deny Forbidden
             | s0 # rest \<Rightarrow>
                 if header = [] then Pass s0
                 else (case match_scope (s0 # rest) header of
                         None \<Rightarrow> Pass s0 | Some s \<Rightarrow> Pass s)))"

section \<open>Route guards\<close>

definition require_platform :: "scope \<Rightarrow> unit verdict" where
  "require_platform s = (if sc_level s \<noteq> Platform then Deny Forbidden else Pass ())"

definition require_org_in_scope :: "scope \<Rightarrow> string \<Rightarrow> unit verdict" where
  "require_org_in_scope s param =
     (if sc_level s = Platform then Pass ()
      else (case parse_int64 param of None \<Rightarrow> Deny BadRequest
            | Some n \<Rightarrow> if sc_level s = OrgLevel \<and> sc_org s = n then Pass () else Deny Forbidden))"

definition require_group_in_scope ::
  "(int \<Rightarrow> int option) \<Rightarrow> scope \<Rightarrow> string \<Rightarrow> unit verdict" where
  "require_group_in_scope org_of_group s param =
     (if sc_level s = Platform then Pass ()
      else (case parse_int64 param of None \<Rightarrow> Deny BadRequest
            | Some n \<Rightarrow>
                if sc_level s = GroupLevel then
                  (if sc_group s = n then Pass () else Deny Forbidden)
                else (case org_of_group n of None \<Rightarrow> Deny Forbidden
                      | Some oid \<Rightarrow> if oid = sc_org s then Pass () else Deny Forbidden)))"

definition group_role ::
  "(int \<Rightarrow> int \<Rightarrow> string option) \<Rightarrow> string \<Rightarrow> caller option \<Rightarrow> string \<Rightarrow> unit verdict" where
  "group_role role_in_group min_role u param =
     (case u of None \<Rightarrow> Deny Unauthorized
      | Some c \<Rightarrow>
          if c_admin c then Pass ()
          else (case parse_int64 param of None \<Rightarrow> Deny BadRequest
                | Some gid \<Rightarrow>
                    (case role_in_group (c_id c) gid of None \<Rightarrow> Deny Forbidden
                     | Some r \<Rightarrow> if group_role_rank r < group_role_rank min_role
                                 then Deny Forbidden else Pass ())))"

section \<open>Facts\<close>

lemma split_colon_append:
  assumes "CHR '':'' \<notin> set l" "l \<noteq> []"
  shows "split_colon (l @ CHR '':'' # r) = Some (l, r)"
proof -
  have "takeWhile (\<lambda>c. c \<noteq> CHR '':'') (l @ CHR '':'' # r) = l"
    "dropWhile (\<lambda>c. c \<noteq> CHR '':'') (l @ CHR '':'' # r) = CHR '':'' # r"
    using assms(1) by (induction l) auto
  with assms(2) show ?thesis by (simp add: split_colon_def)
qed

lemma split_colon_org: "split_colon (''org:'' @ r) = Some (''org'', r)"
  using split_colon_append [of "''org''" r] by simp

lemma split_colon_group: "split_colon (''group:'' @ r) = Some (''group'', r)"
  using split_colon_append [of "''group''" r] by simp

lemma match_scope_held: "match_scope scopes sel = Some s \<Longrightarrow> s \<in> set scopes"
  by (auto simp: match_scope_def find_Some_iff split: option.splits)

lemma require_manager_held:
  assumes "\<not> c_admin c" "require_manager ms og (Some c) h = Pass s"
  shows "s \<in> set (ms (c_id c))"
  using assms by (auto simp: require_manager_def dest: match_scope_held
      split: list.splits if_splits option.splits)

text \<open>The selector a client sends for a scope, and the scopes it can designate.\<close>

definition scope_sel :: "scope \<Rightarrow> string" where
  "scope_sel s = level_name (sc_level s) @ '':'' @
     dec (case sc_level s of OrgLevel \<Rightarrow> sc_org s | _ \<Rightarrow> sc_group s)"

definition same_scope :: "scope \<Rightarrow> scope \<Rightarrow> bool" where
  "same_scope s t \<longleftrightarrow> sc_level s = sc_level t \<and>
     (case sc_level s of OrgLevel \<Rightarrow> sc_org s = sc_org t | _ \<Rightarrow> sc_group s = sc_group t)"

definition selectable :: "scope \<Rightarrow> bool" where
  "selectable s \<longleftrightarrow>
     (case sc_level s of Platform \<Rightarrow> False
      | OrgLevel \<Rightarrow> 0 < sc_org s \<and> in_int64 (sc_org s)
      | GroupLevel \<Rightarrow> 0 < sc_group s \<and> in_int64 (sc_group s))"

lemma level_name_inj [simp]: "level_name a = level_name b \<longleftrightarrow> a = b"
  by (cases a; cases b) simp_all

lemma level_name_eq [simp]:
  "level_name l = ''org'' \<longleftrightarrow> l = OrgLevel" "level_name l = ''group'' \<longleftrightarrow> l = GroupLevel"
  by (cases l; simp)+

lemma split_scope_sel:
  "selectable s \<Longrightarrow> split_colon (scope_sel s) =
     Some (level_name (sc_level s), dec (case sc_level s of OrgLevel \<Rightarrow> sc_org s | _ \<Rightarrow> sc_group s))"
  using split_colon_append [of "level_name (sc_level s)"]
  by (cases "sc_level s") (simp_all add: scope_sel_def selectable_def)

lemma match_scope_sel:
  assumes "selectable s"
  shows "match_scope scopes (scope_sel s) = find (same_scope s) scopes"
proof -
  have "parse_int64 (dec (case sc_level s of OrgLevel \<Rightarrow> sc_org s | _ \<Rightarrow> sc_group s)) =
      Some (case sc_level s of OrgLevel \<Rightarrow> sc_org s | _ \<Rightarrow> sc_group s)"
    using assms by (cases "sc_level s") (simp_all add: parse_int64_dec selectable_def)
  moreover have "(\<lambda>t. level_name (sc_level t) = level_name (sc_level s) \<and>
      (level_name (sc_level s) = ''org'' \<and>
         sc_org t = (case sc_level s of OrgLevel \<Rightarrow> sc_org s | _ \<Rightarrow> sc_group s) \<or>
       level_name (sc_level s) = ''group'' \<and>
         sc_group t = (case sc_level s of OrgLevel \<Rightarrow> sc_org s | _ \<Rightarrow> sc_group s))) = same_scope s"
    using assms by (cases "sc_level s") (auto simp: same_scope_def selectable_def fun_eq_iff)
  ultimately show ?thesis by (simp add: match_scope_def split_scope_sel assms)
qed

section \<open>Properties\<close>

text \<open>C11: a manager who is not a platform administrator acts only inside the scopes
  \<open>ManagerScopes\<close> gives it, whatever \<open>X-Admin-Scope\<close> header it sends: platform routes refuse
  it, an organisation route lets it through only for an organisation it administers, and a
  group route only for a group it administers or one of an organisation it administers.\<close>

theorem manager_route_confined:
  assumes "\<not> c_admin c" "\<forall>s \<in> set (ms (c_id c)). sc_level s \<noteq> Platform"
    and "require_manager ms og (Some c) h = Pass s"
  shows "require_platform s = Deny Forbidden \<and>
    (require_org_in_scope s p = Pass () \<longrightarrow>
      (\<exists>n. parse_int64 p = Some n \<and> (\<exists>t \<in> set (ms (c_id c)). sc_level t = OrgLevel \<and> sc_org t = n))) \<and>
    (require_group_in_scope ogf s p = Pass () \<longrightarrow>
      (\<exists>g. parse_int64 p = Some g \<and>
        (\<exists>t \<in> set (ms (c_id c)).
           sc_level t = GroupLevel \<and> sc_group t = g \<or>
           sc_level t = OrgLevel \<and> ogf g = Some (sc_org t))))"
proof -
  have s: "s \<in> set (ms (c_id c))"
    using assms(1,3) by (rule require_manager_held)
  with assms(2) have "sc_level s \<noteq> Platform" by blast
  then have "sc_level s = OrgLevel \<or> sc_level s = GroupLevel" by (cases "sc_level s") auto
  with s show ?thesis
    by (auto simp: require_platform_def require_org_in_scope_def require_group_in_scope_def
        split: option.splits if_splits)
qed

definition two_scopes :: "int \<Rightarrow> scope list" where
  "two_scopes u = [\<lparr>sc_level = OrgLevel, sc_org = 4, sc_group = 0\<rparr>,
                   \<lparr>sc_level = GroupLevel, sc_org = 9, sc_group = 7\<rparr>]"

theorem manager_route_confined_witness:
  "require_platform \<lparr>sc_level = GroupLevel, sc_org = 9, sc_group = 7\<rparr> = Deny Forbidden \<and>
   require_group_in_scope (\<lambda>g. None) \<lparr>sc_level = GroupLevel, sc_org = 9, sc_group = 7\<rparr> ''7'' = Pass () \<and>
   (\<exists>g. parse_int64 ''7'' = Some g \<and> (\<exists>t \<in> set (two_scopes 1). sc_level t = GroupLevel \<and> sc_group t = g
      \<or> sc_level t = OrgLevel \<and> None = Some (sc_org t)))"
proof -
  have p: "require_manager two_scopes None (Some \<lparr>c_id = 1, c_admin = False\<rparr>) ''group:7'' =
      Pass \<lparr>sc_level = GroupLevel, sc_org = 9, sc_group = 7\<rparr>"
    by code_simp
  have g: "require_group_in_scope (\<lambda>g. None) \<lparr>sc_level = GroupLevel, sc_org = 9, sc_group = 7\<rparr> ''7'' = Pass ()"
    by code_simp
  show ?thesis
    using manager_route_confined [OF _ _ p, of "''7''" "\<lambda>g. None"] g by (simp add: two_scopes_def)
qed

text \<open>a non-administrator who sends the selector of a scope it holds (\<open>org:<id>\<close> or
  \<open>group:<id>\<close>, printed with \<open>%d\<close>) is given a scope of exactly that level and id; the printed
  selector also reads back through \<open>parseScopeSel\<close>, which serves administrators.\<close>

theorem selector_selects:
  assumes "\<not> c_admin c" "s \<in> set (ms (c_id c))" "selectable s"
  shows "\<exists>t. require_manager ms og (Some c) (scope_sel s) = Pass t \<and> same_scope s t \<and>
             t \<in> set (ms (c_id c)) \<and>
             (\<exists>r. parse_scope_sel (scope_sel s) = Some r \<and> same_scope s r)"
proof -
  have "find (same_scope s) (ms (c_id c)) \<noteq> None"
    using assms(2) by (auto simp: find_None_iff same_scope_def split: level.splits)
  then obtain t where t: "find (same_scope s) (ms (c_id c)) = Some t" by blast
  then have held: "same_scope s t" "t \<in> set (ms (c_id c))" by (auto simp: find_Some_iff)
  have "scope_sel s \<noteq> []" by (simp add: scope_sel_def)
  then have "require_manager ms og (Some c) (scope_sel s) = Pass t"
    using assms t by (auto simp: require_manager_def match_scope_sel split: list.split)
  moreover have "\<exists>r. parse_scope_sel (scope_sel s) = Some r \<and> same_scope s r"
    using assms(3) by (cases "sc_level s")
      (auto simp: parse_scope_sel_def split_scope_sel same_scope_def selectable_def parse_int64_dec)
  ultimately show ?thesis using held by blast
qed

theorem selector_selects_witness:
  "scope_sel \<lparr>sc_level = GroupLevel, sc_org = 9, sc_group = 7\<rparr> = ''group:7'' \<and>
   (\<exists>t. require_manager two_scopes None (Some \<lparr>c_id = 1, c_admin = False\<rparr>) ''group:7'' = Pass t \<and>
        sc_group t = 7)"
proof -
  have e: "scope_sel \<lparr>sc_level = GroupLevel, sc_org = 9, sc_group = 7\<rparr> = ''group:7''" by code_simp
  show ?thesis
    using selector_selects [of "\<lparr>c_id = 1, c_admin = False\<rparr>" "\<lparr>sc_level = GroupLevel, sc_org = 9, sc_group = 7\<rparr>" two_scopes None]
    unfolding e by (auto simp: two_scopes_def selectable_def in_int64_def same_scope_def)
qed

end
