(* ===== verification/Policy.thy ===== *)
theory Policy
  imports Authz
begin

text \<open>
  Hard resource limits (\<open>internal/policy\<close>): per-level nullable limits, their bottom-up
  resolution (\<open>Resolver\<close>), the tables behind them and the handlers that let a manager set
  limits inside its scope or the platform administrator edit the global ones.
\<close>

section \<open>Limits\<close>

record limits =
  l_gpu :: "int option"
  l_vram :: "int option"
  l_volume :: "int option"
  l_sessions :: "int option"
  l_stopped :: "int option"
  l_ephemeral :: "int option"

record resolved =
  max_gpu :: int
  max_vram_gb :: int
  max_volume_gib :: int
  max_concurrent :: int
  max_stopped :: int
  max_ephemeral_gib :: int

definition no_limits :: limits where
  "no_limits = \<lparr>l_gpu = None, l_vram = None, l_volume = None, l_sessions = None,
     l_stopped = None, l_ephemeral = None\<rparr>"

definition zero_resolved :: resolved where
  "zero_resolved = \<lparr>max_gpu = 0, max_vram_gb = 0, max_volume_gib = 0, max_concurrent = 0,
     max_stopped = 0, max_ephemeral_gib = 0\<rparr>"

text \<open>The repository and hierarchy readers of a \<open>Resolver\<close>: \<open>None\<close> is an error of a
  limits query, or \<open>ok = false\<close> of a hierarchy query; \<open>r_global = None\<close> is a nil \<open>globalFn\<close>.\<close>

record resolver =
  r_user :: "int \<Rightarrow> limits option"
  r_group :: "int \<Rightarrow> limits option"
  r_org :: "int \<Rightarrow> limits option"
  h_group_of_user :: "int \<Rightarrow> int option"
  h_org_of_user :: "int \<Rightarrow> int option"
  h_org_of_group :: "int \<Rightarrow> int option"
  r_global :: "resolved option"

definition global :: "resolver \<Rightarrow> resolved" where
  "global r = (case r_global r of None \<Rightarrow> zero_resolved | Some g \<Rightarrow> g)"

definition global_as_limits :: "resolver \<Rightarrow> limits" where
  "global_as_limits r =
     \<lparr>l_gpu = Some (max_gpu (global r)), l_vram = Some (max_vram_gb (global r)),
      l_volume = Some (max_volume_gib (global r)), l_sessions = Some (max_concurrent (global r)),
      l_stopped = Some (max_stopped (global r)), l_ephemeral = Some (max_ephemeral_gib (global r))\<rparr>"

section \<open>Resolution\<close>

text \<open>\<open>if l.X != nil { out.X = *l.X }\<close> of one field.\<close>

definition over :: "int option \<Rightarrow> int \<Rightarrow> int" where
  "over v cur = (case v of None \<Rightarrow> cur | Some x \<Rightarrow> x)"

definition apply_limits :: "resolved \<Rightarrow> limits \<Rightarrow> resolved" where
  "apply_limits out l =
     \<lparr>max_gpu = over (l_gpu l) (max_gpu out), max_vram_gb = over (l_vram l) (max_vram_gb out),
      max_volume_gib = over (l_volume l) (max_volume_gib out),
      max_concurrent = over (l_sessions l) (max_concurrent out),
      max_stopped = over (l_stopped l) (max_stopped out),
      max_ephemeral_gib = over (l_ephemeral l) (max_ephemeral_gib out)\<rparr>"

definition layers :: "resolver \<Rightarrow> int \<Rightarrow> limits list" where
  "layers r u =
     [global_as_limits r]
     @ (case h_org_of_user r u of None \<Rightarrow> []
        | Some oid \<Rightarrow> (case r_org r oid of None \<Rightarrow> [] | Some l \<Rightarrow> [l]))
     @ (case h_group_of_user r u of None \<Rightarrow> []
        | Some gid \<Rightarrow> (case r_group r gid of None \<Rightarrow> [] | Some l \<Rightarrow> [l]))
     @ (case r_user r u of None \<Rightarrow> [] | Some l \<Rightarrow> [l])"

text \<open>The loop of \<open>Resolve\<close>, with its own copy of the overlay.\<close>

fun resolve_loop :: "resolved \<Rightarrow> limits list \<Rightarrow> resolved" where
  "resolve_loop out [] = out"
| "resolve_loop out (l # ls) =
     (let out1 = (case l_gpu l of None \<Rightarrow> out | Some v \<Rightarrow> out\<lparr>max_gpu := v\<rparr>);
          out2 = (case l_vram l of None \<Rightarrow> out1 | Some v \<Rightarrow> out1\<lparr>max_vram_gb := v\<rparr>);
          out3 = (case l_volume l of None \<Rightarrow> out2 | Some v \<Rightarrow> out2\<lparr>max_volume_gib := v\<rparr>);
          out4 = (case l_sessions l of None \<Rightarrow> out3 | Some v \<Rightarrow> out3\<lparr>max_concurrent := v\<rparr>);
          out5 = (case l_stopped l of None \<Rightarrow> out4 | Some v \<Rightarrow> out4\<lparr>max_stopped := v\<rparr>);
          out6 = (case l_ephemeral l of None \<Rightarrow> out5 | Some v \<Rightarrow> out5\<lparr>max_ephemeral_gib := v\<rparr>)
      in resolve_loop out6 ls)"

definition resolve :: "resolver \<Rightarrow> int \<Rightarrow> resolved" where
  "resolve r u = resolve_loop (global r) (layers r u)"

definition resolve_org :: "resolver \<Rightarrow> int \<Rightarrow> resolved" where
  "resolve_org r oid =
     (case r_org r oid of None \<Rightarrow> global r | Some l \<Rightarrow> apply_limits (global r) l)"

definition resolve_group :: "resolver \<Rightarrow> int \<Rightarrow> int \<Rightarrow> resolved" where
  "resolve_group r oid gid =
     (let out = resolve_org r oid
      in case r_group r gid of None \<Rightarrow> out | Some l \<Rightarrow> apply_limits out l)"

definition resolve_group_by_id :: "resolver \<Rightarrow> int \<Rightarrow> resolved" where
  "resolve_group_by_id r gid =
     resolve_group r (case h_org_of_group r gid of None \<Rightarrow> 0 | Some oid \<Rightarrow> oid) gid"

definition parent_of_user :: "resolver \<Rightarrow> int \<Rightarrow> resolved" where
  "parent_of_user r u =
     (let out = (case h_org_of_user r u of None \<Rightarrow> global r
                 | Some oid \<Rightarrow> (case r_org r oid of None \<Rightarrow> global r
                                | Some l \<Rightarrow> apply_limits (global r) l))
      in case h_group_of_user r u of None \<Rightarrow> out
         | Some gid \<Rightarrow> (case r_group r gid of None \<Rightarrow> out | Some l \<Rightarrow> apply_limits out l))"

definition hier_of_user :: "resolver \<Rightarrow> int \<Rightarrow> int \<times> int" where
  "hier_of_user r u =
     ((case h_org_of_user r u of None \<Rightarrow> 0 | Some oid \<Rightarrow> oid),
      (case h_group_of_user r u of None \<Rightarrow> 0 | Some gid \<Rightarrow> gid))"

section \<open>The limit tables\<close>

datatype policy_level = PUser | PGroup | POrg

record limit_tables =
  t_users :: "(int \<times> limits) list"
  t_groups :: "(int \<times> limits) list"
  t_orgs :: "(int \<times> limits) list"

text \<open>\<open>fetch\<close>: a missing row scans into the zero row, all fields nil.\<close>

definition fetch_limits :: "(int \<times> limits) list \<Rightarrow> int \<Rightarrow> limits" where
  "fetch_limits t i = (case row_of fst i t of None \<Rightarrow> no_limits | Some r \<Rightarrow> snd r)"

definition set_limits :: "limit_tables \<Rightarrow> policy_level \<Rightarrow> int \<Rightarrow> limits \<Rightarrow> limit_tables" where
  "set_limits db lv i l =
     (case lv of
        PUser \<Rightarrow> db\<lparr>t_users := upd_row fst i (\<lambda>r. (fst r, l)) (t_users db)\<rparr>
      | PGroup \<Rightarrow> db\<lparr>t_groups := upd_row fst i (\<lambda>r. (fst r, l)) (t_groups db)\<rparr>
      | POrg \<Rightarrow> db\<lparr>t_orgs := upd_row fst i (\<lambda>r. (fst r, l)) (t_orgs db)\<rparr>)"

text \<open>A resolver whose repository reads these tables (no query fails).\<close>

definition table_resolver ::
  "limit_tables \<Rightarrow> (int \<Rightarrow> int option) \<Rightarrow> (int \<Rightarrow> int option) \<Rightarrow> (int \<Rightarrow> int option)
   \<Rightarrow> resolved option \<Rightarrow> resolver" where
  "table_resolver db gu ou og g =
     \<lparr>r_user = (\<lambda>i. Some (fetch_limits (t_users db) i)),
      r_group = (\<lambda>i. Some (fetch_limits (t_groups db) i)),
      r_org = (\<lambda>i. Some (fetch_limits (t_orgs db) i)),
      h_group_of_user = gu, h_org_of_user = ou, h_org_of_group = og, r_global = g\<rparr>"

section \<open>Handlers\<close>

definition scope_parent ::
  "resolver \<Rightarrow> (int \<Rightarrow> int option) option \<Rightarrow> scope \<Rightarrow> policy_level \<Rightarrow> int \<Rightarrow> resolved option" where
  "scope_parent r org_of_group s lv i =
     (case lv of
        POrg \<Rightarrow>
          if sc_level s = Platform \<or> sc_level s = OrgLevel \<and> sc_org s = i
          then Some (global r) else None
      | PGroup \<Rightarrow>
          (let oid = (case org_of_group of None \<Rightarrow> 0
                      | Some og \<Rightarrow> (case og i of None \<Rightarrow> 0 | Some x \<Rightarrow> x))
           in case sc_level s of
                Platform \<Rightarrow> Some (resolve_org r oid)
              | OrgLevel \<Rightarrow> if oid = sc_org s then Some (resolve_org r oid) else None
              | GroupLevel \<Rightarrow> if sc_group s = i then Some (resolve_org r (sc_org s)) else None)
      | PUser \<Rightarrow>
          (let h = hier_of_user r i
           in case sc_level s of
                Platform \<Rightarrow> Some (parent_of_user r i)
              | OrgLevel \<Rightarrow> if fst h = sc_org s then Some (parent_of_user r i) else None
              | GroupLevel \<Rightarrow> if snd h = sc_group s then Some (parent_of_user r i) else None))"

definition over_cap :: "int option \<Rightarrow> int \<Rightarrow> bool" where
  "over_cap v p = (case v of None \<Rightarrow> False | Some x \<Rightarrow> 0 < p \<and> p < x)"

definition exceeds_parent :: "limits \<Rightarrow> resolved \<Rightarrow> string" where
  "exceeds_parent b p =
     (if over_cap (l_gpu b) (max_gpu p) then ''GPU''
      else if over_cap (l_vram b) (max_vram_gb p) then ''VRAM''
      else if over_cap (l_volume b) (max_volume_gib p) then ''Volume''
      else if over_cap (l_sessions b) (max_concurrent p) then ''Sessions''
      else if over_cap (l_stopped b) (max_stopped p) then ''StoppedSessions''
      else if over_cap (l_ephemeral b) (max_ephemeral_gib p) then ''EphemeralDisk''
      else '''')"

datatype policy_reply = PolicyOk | BadId | OutOfScope | ExceedsParent string | StoreFailed
  | NotSupported | BadValue

text \<open>\<open>SetScoped\<close> after the body has been bound; \<open>store_ok = False\<close> is a failing
  \<open>SetLimits\<close>.\<close>

definition set_scoped ::
  "bool \<Rightarrow> resolver \<Rightarrow> (int \<Rightarrow> int option) option \<Rightarrow> scope \<Rightarrow> policy_level \<Rightarrow> string \<Rightarrow> limits
   \<Rightarrow> limit_tables \<Rightarrow> limit_tables \<times> policy_reply" where
  "set_scoped store_ok r og s lv param body db =
     (case parse_int64 param of None \<Rightarrow> (db, BadId)
      | Some i \<Rightarrow>
          (case scope_parent r og s lv i of None \<Rightarrow> (db, OutOfScope)
           | Some p \<Rightarrow>
               if exceeds_parent body p \<noteq> '''' then (db, ExceedsParent (exceeds_parent body p))
               else if \<not> store_ok then (db, StoreFailed)
               else (set_limits db lv i body, PolicyOk)))"

definition pick :: "int option \<Rightarrow> int \<Rightarrow> int" where
  "pick v cur = (case v of None \<Rightarrow> cur | Some x \<Rightarrow> x)"

text \<open>\<open>SetGlobal\<close>: the setter, when there is one, gets the merged limits; the result is what
  is stored.\<close>

definition set_global ::
  "(resolved \<Rightarrow> bool) option \<Rightarrow> resolver \<Rightarrow> limits \<Rightarrow> resolved option \<times> policy_reply" where
  "set_global setter r body =
     (case setter of None \<Rightarrow> (None, NotSupported)
      | Some store \<Rightarrow>
          (let cur = global r;
               next_g = \<lparr>max_gpu = pick (l_gpu body) (max_gpu cur),
                 max_vram_gb = pick (l_vram body) (max_vram_gb cur),
                 max_volume_gib = pick (l_volume body) (max_volume_gib cur),
                 max_concurrent = pick (l_sessions body) (max_concurrent cur),
                 max_stopped = pick (l_stopped body) (max_stopped cur),
                 max_ephemeral_gib = pick (l_ephemeral body) (max_ephemeral_gib cur)\<rparr>
           in if max_gpu next_g \<le> 0 \<or> max_vram_gb next_g \<le> 0 \<or> max_volume_gib next_g \<le> 0
                 \<or> max_concurrent next_g \<le> 0 then (None, BadValue)
              else if max_stopped next_g < 0 \<or> max_ephemeral_gib next_g < 0 then (None, BadValue)
              else if store next_g then (Some next_g, PolicyOk) else (None, StoreFailed)))"

section \<open>Facts\<close>

lemma resolve_loop_apply: "resolve_loop out ls = foldl apply_limits out ls"
proof (induction ls arbitrary: out)
  case (Cons l ls)
  then show ?case
    by (cases out; cases l) (simp add: apply_limits_def over_def Let_def split: option.split)
qed simp

lemma apply_global [simp]: "apply_limits out (global_as_limits r) = global r"
  by (simp add: apply_limits_def global_as_limits_def over_def)

lemma resolve_parent:
  "resolve r u =
    (case r_user r u of None \<Rightarrow> parent_of_user r u | Some l \<Rightarrow> apply_limits (parent_of_user r u) l)"
  by (simp add: resolve_def layers_def resolve_loop_apply parent_of_user_def Let_def
      split: option.splits)

lemma exceeds_parent_none:
  "exceeds_parent b p = '''' \<longleftrightarrow>
    \<not> over_cap (l_gpu b) (max_gpu p) \<and> \<not> over_cap (l_vram b) (max_vram_gb p) \<and>
    \<not> over_cap (l_volume b) (max_volume_gib p) \<and> \<not> over_cap (l_sessions b) (max_concurrent p) \<and>
    \<not> over_cap (l_stopped b) (max_stopped p) \<and> \<not> over_cap (l_ephemeral b) (max_ephemeral_gib p)"
  by (simp add: exceeds_parent_def)

lemma fetch_set_limits_user:
  assumes "i \<in> fst ` set (t_users db)"
  shows "fetch_limits (t_users (set_limits db PUser i l)) j =
    (if j = i then l else fetch_limits (t_users db) j)"
proof -
  from assms obtain r where "row_of fst i (t_users db) = Some r"
    by (cases "row_of fst i (t_users db)") (auto simp: row_of_None)
  then show ?thesis
    by (auto simp: fetch_limits_def set_limits_def row_of_upd_row split: option.splits)
qed

text \<open>The limits a level contributes: none when the level or its row cannot be read.\<close>

definition org_limits :: "resolver \<Rightarrow> int \<Rightarrow> limits" where
  "org_limits r u = (case h_org_of_user r u of None \<Rightarrow> no_limits
     | Some oid \<Rightarrow> (case r_org r oid of None \<Rightarrow> no_limits | Some l \<Rightarrow> l))"

definition group_limits :: "resolver \<Rightarrow> int \<Rightarrow> limits" where
  "group_limits r u = (case h_group_of_user r u of None \<Rightarrow> no_limits
     | Some gid \<Rightarrow> (case r_group r gid of None \<Rightarrow> no_limits | Some l \<Rightarrow> l))"

definition user_limits :: "resolver \<Rightarrow> int \<Rightarrow> limits" where
  "user_limits r u = (case r_user r u of None \<Rightarrow> no_limits | Some l \<Rightarrow> l)"

definition closest :: "int option list \<Rightarrow> int \<Rightarrow> int" where
  "closest vs g = (case find (\<lambda>v. v \<noteq> None) vs of Some (Some x) \<Rightarrow> x | _ \<Rightarrow> g)"

lemma apply_no_limits [simp]: "apply_limits out no_limits = out"
  by (simp add: apply_limits_def no_limits_def over_def)

lemma parent_of_user_layers:
  "parent_of_user r u = apply_limits (apply_limits (global r) (org_limits r u)) (group_limits r u)"
  by (simp add: parent_of_user_def org_limits_def group_limits_def Let_def split: option.split)

lemma resolve_user_layer: "resolve r u = apply_limits (parent_of_user r u) (user_limits r u)"
  by (simp add: resolve_parent user_limits_def split: option.split)

lemma over3: "over a (over b (over c g)) = closest [a, b, c] g"
  by (simp add: over_def closest_def split: option.split)

section \<open>Properties\<close>

text \<open>\<open>Resolve\<close> gives, for each of the six limits, the value of the closest level that sets
  it (user, then group, then organisation) and the global default when none does.\<close>

theorem resolve_closest:
  "resolve r u =
     (let pick6 = (\<lambda>f g. closest [f (user_limits r u), f (group_limits r u), f (org_limits r u)] g)
      in \<lparr>max_gpu = pick6 l_gpu (max_gpu (global r)),
          max_vram_gb = pick6 l_vram (max_vram_gb (global r)),
          max_volume_gib = pick6 l_volume (max_volume_gib (global r)),
          max_concurrent = pick6 l_sessions (max_concurrent (global r)),
          max_stopped = pick6 l_stopped (max_stopped (global r)),
          max_ephemeral_gib = pick6 l_ephemeral (max_ephemeral_gib (global r))\<rparr>)"
  by (simp add: resolve_user_layer parent_of_user_layers apply_limits_def over3 Let_def)

text \<open>a manager whose \<open>SetScoped\<close> on a user succeeds is in scope for that user, and
  afterwards, wherever the limits of the levels above are finite and the manager's value is not
  zero (zero means unlimited), what \<open>Resolve\<close> gives the user does not exceed the limit it
  would inherit; the limits of every other user are as they were.\<close>

definition capped :: "int option \<Rightarrow> int \<Rightarrow> int \<Rightarrow> bool" where
  "capped v p x \<longleftrightarrow> (0 < p \<and> v \<noteq> Some 0 \<longrightarrow> x \<le> p)"

theorem set_scoped_user_capped:
  assumes "set_scoped ok (table_resolver db gu ou og g) ogf s PUser param body db = (db', PolicyOk)"
    and "parse_int64 param = Some i" "i \<in> fst ` set (t_users db)"
  shows "(case sc_level s of Platform \<Rightarrow> True
          | OrgLevel \<Rightarrow> (case ou i of None \<Rightarrow> 0 | Some x \<Rightarrow> x) = sc_org s
          | GroupLevel \<Rightarrow> (case gu i of None \<Rightarrow> 0 | Some x \<Rightarrow> x) = sc_group s) \<and>
    (let p = parent_of_user (table_resolver db gu ou og g) i;
         x = resolve (table_resolver db' gu ou og g) i
     in capped (l_gpu body) (max_gpu p) (max_gpu x) \<and>
        capped (l_vram body) (max_vram_gb p) (max_vram_gb x) \<and>
        capped (l_volume body) (max_volume_gib p) (max_volume_gib x) \<and>
        capped (l_sessions body) (max_concurrent p) (max_concurrent x) \<and>
        capped (l_stopped body) (max_stopped p) (max_stopped x) \<and>
        capped (l_ephemeral body) (max_ephemeral_gib p) (max_ephemeral_gib x)) \<and>
    (\<forall>j. j \<noteq> i \<longrightarrow> resolve (table_resolver db' gu ou og g) j = resolve (table_resolver db gu ou og g) j)"
proof -
  let ?R = "\<lambda>d. table_resolver d gu ou og g"
  from assms(1,2) obtain p where p: "scope_parent (?R db) ogf s PUser i = Some p"
    and e: "exceeds_parent body p = ''''" and db': "db' = set_limits db PUser i body"
    by (auto simp: set_scoped_def split: option.splits if_splits)
  from p have pp: "p = parent_of_user (?R db) i" and sc: "case sc_level s of Platform \<Rightarrow> True
          | OrgLevel \<Rightarrow> (case ou i of None \<Rightarrow> 0 | Some x \<Rightarrow> x) = sc_org s
          | GroupLevel \<Rightarrow> (case gu i of None \<Rightarrow> 0 | Some x \<Rightarrow> x) = sc_group s"
    by (auto simp: scope_parent_def Let_def hier_of_user_def table_resolver_def
        split: level.splits if_splits)
  have par: "parent_of_user (?R db') j = parent_of_user (?R db) j" for j
    by (simp add: parent_of_user_def table_resolver_def db' set_limits_def global_def
        cong: option.case_cong)
  have usr: "user_limits (?R db') j = (if j = i then body else user_limits (?R db) j)" for j
    using fetch_set_limits_user [OF assms(3), of body j]
    by (simp add: user_limits_def table_resolver_def db')
  have x: "resolve (?R db') i = apply_limits p body"
    by (simp add: resolve_user_layer par usr pp)
  have c: "capped v q (over v q)" if "\<not> over_cap v q" for v q
    using that by (auto simp: capped_def over_def over_cap_def split: option.splits)
  show ?thesis
    using sc e
    by (simp add: pp [symmetric] x apply_limits_def exceeds_parent_none c Let_def
        resolve_user_layer par usr)
qed

definition sample_tables :: limit_tables where
  "sample_tables = \<lparr>t_users = [(1, no_limits), (2, no_limits\<lparr>l_gpu := Some 3\<rparr>)],
     t_groups = [(7, no_limits\<lparr>l_gpu := Some 4\<rparr>)], t_orgs = [(5, no_limits)]\<rparr>"

definition sample_resolver :: "limit_tables \<Rightarrow> resolver" where
  "sample_resolver db = table_resolver db (\<lambda>u. Some 7) (\<lambda>u. Some 5) (\<lambda>g. Some 5)
     (Some \<lparr>max_gpu = 8, max_vram_gb = 80, max_volume_gib = 500, max_concurrent = 5,
            max_stopped = 0, max_ephemeral_gib = 0\<rparr>)"

theorem set_scoped_user_capped_witness:
  "max_gpu (resolve (sample_resolver (set_limits sample_tables PUser 1 (no_limits\<lparr>l_gpu := Some 2\<rparr>))) 1) \<le> 4"
proof -
  have ok: "set_scoped True (sample_resolver sample_tables) None
      \<lparr>sc_level = GroupLevel, sc_org = 0, sc_group = 7\<rparr> PUser ''1'' (no_limits\<lparr>l_gpu := Some 2\<rparr>) sample_tables
      = (set_limits sample_tables PUser 1 (no_limits\<lparr>l_gpu := Some 2\<rparr>), PolicyOk)"
    by code_simp
  have p: "max_gpu (parent_of_user (sample_resolver sample_tables) 1) = 4" by code_simp
  have i: "parse_int64 ''1'' = Some 1" "1 \<in> fst ` set (t_users sample_tables)" by code_simp+
  show ?thesis
    using set_scoped_user_capped [OF ok [unfolded sample_resolver_def] i] p
    by (simp add: capped_def Let_def sample_resolver_def no_limits_def)
qed

text \<open>\<open>exceedsParent\<close> compares only values above the parent's, so under any finite parent
  limits a body that sets all six limits to zero is accepted, and the user it is stored for
  is then resolved to zero, which every consumer of the limits reads as unlimited.\<close>

definition all_zero :: limits where
  "all_zero = \<lparr>l_gpu = Some 0, l_vram = Some 0, l_volume = Some 0, l_sessions = Some 0,
     l_stopped = Some 0, l_ephemeral = Some 0\<rparr>"

theorem zero_limits_bypass_parent:
  assumes "parse_int64 param = Some i" "i \<in> fst ` set (t_users db)"
    and "snd (hier_of_user (table_resolver db gu ou og g) i) = sc_group s" "sc_level s = GroupLevel"
  shows "\<exists>db'. set_scoped True (table_resolver db gu ou og g) ogf s PUser param all_zero db = (db', PolicyOk) \<and>
    resolve (table_resolver db' gu ou og g) i = zero_resolved"
proof -
  have "exceeds_parent all_zero p = ''''" for p
    by (simp add: exceeds_parent_none over_cap_def all_zero_def)
  moreover have "apply_limits p all_zero = zero_resolved" for p
    by (simp add: apply_limits_def all_zero_def over_def zero_resolved_def)
  moreover have "user_limits (table_resolver (set_limits db PUser i all_zero) gu ou og g) i = all_zero"
    using fetch_set_limits_user [OF assms(2), of all_zero i]
    by (simp add: user_limits_def table_resolver_def)
  ultimately show ?thesis
    using assms by (simp add: set_scoped_def scope_parent_def resolve_user_layer Let_def)
qed

theorem zero_limits_bypass_parent_witness:
  "max_gpu (parent_of_user (sample_resolver sample_tables) 1) = 4 \<and>
   (\<exists>db'. set_scoped True (sample_resolver sample_tables) None
      \<lparr>sc_level = GroupLevel, sc_org = 0, sc_group = 7\<rparr> PUser ''1'' all_zero sample_tables = (db', PolicyOk) \<and>
    resolve (sample_resolver db') 1 = zero_resolved)"
proof -
  have p: "max_gpu (parent_of_user (sample_resolver sample_tables) 1) = 4" by code_simp
  have i: "parse_int64 ''1'' = Some 1" "1 \<in> fst ` set (t_users sample_tables)" by code_simp+
  show ?thesis
    using zero_limits_bypass_parent [OF i, of "\<lambda>u. Some 7" "\<lambda>u. Some 5" "\<lambda>g. Some 5"
        "Some \<lparr>max_gpu = 8, max_vram_gb = 80, max_volume_gib = 500, max_concurrent = 5,
            max_stopped = 0, max_ephemeral_gib = 0\<rparr>" "\<lparr>sc_level = GroupLevel, sc_org = 0, sc_group = 7\<rparr>" None] p
    by (simp add: sample_resolver_def hier_of_user_def table_resolver_def)
qed

end
