(* ===== verification/Credit_Store.thy ===== *)
theory Credit_Store
  imports Giosk_Prelude
begin

text \<open>
  The tables behind the credit hierarchy (organisation pools, group wallets, membership
  wallets and the two ledgers), and the two interfaces that rest on them: the credit pool the
  wallet service draws from (\<open>wallet.Pool\<close>, provided by \<open>org.Service\<close>) and the charger the
  session and volume services bill through (\<open>Charger\<close>, provided by \<open>wallet.Service\<close>).
  Amounts are the integers of the source; a statement that would leave a column's range is a
  failing statement.
\<close>

section \<open>Rows\<close>

record org_row =
  o_id :: int
  o_name :: string
  o_display :: string
  o_pool :: int
  o_recurring :: int
  o_interval :: int
  o_carry :: bool
  o_cycle :: "time option"
  o_default_budget :: int
  o_status :: string

record group_row =
  g_id :: int
  g_org :: int
  g_status :: string

record member_row =
  m_id :: int
  m_group :: int
  m_user :: int
  m_role :: string
  m_consumed :: int
  m_status :: string

record user_wallet =
  u_user :: int
  u_group :: int
  u_balance :: int
  u_reserved :: int
  u_cap :: int
  u_cycle :: "time option"
  u_recurring :: int
  u_interval :: int
  u_carry :: bool

record group_wallet =
  w_group :: int
  w_balance :: int
  w_reserved :: int
  w_budget_cap :: int
  w_alert_pct :: int
  w_default_member :: int
  w_recurring :: int
  w_interval :: int
  w_carry :: bool
  w_cycle :: "time option"

text \<open>The \<open>type\<close> column of the ledgers and the descriptions the code writes (the Korean
  labels are named by what they say).\<close>

datatype tx_type = TxTopup | TxConsume | TxAllocate | TxRecharge

datatype tx_label = Reason string | GpuUse string | Storage string | InstantRefill | RegularRefill

record user_tx =
  x_user :: int
  x_group :: int
  x_type :: tx_type
  x_amount :: int
  x_after :: int
  x_label :: tx_label
  x_ref :: "string option"
  x_actor :: "int option"

record group_tx =
  y_group :: int
  y_type :: tx_type
  y_amount :: int
  y_after :: int
  y_reserved_after :: int
  y_actor :: "int option"
  y_ref :: string

record store =
  orgs :: "org_row list"
  groups :: "group_row list"
  members :: "member_row list"
  uwallets :: "user_wallet list"
  gwallets :: "group_wallet list"
  utxs :: "user_tx list"
  gtxs :: "group_tx list"
  plat_cycle :: "time option"

definition u_key :: "user_wallet \<Rightarrow> int \<times> int" where
  "u_key w = (u_user w, u_group w)"

text \<open>The rows \<open>INSERT IGNORE\<close> creates: the columns' defaults.\<close>

definition new_user_wallet :: "int \<Rightarrow> int \<Rightarrow> user_wallet" where
  "new_user_wallet u g =
     \<lparr>u_user = u, u_group = g, u_balance = 0, u_reserved = 0, u_cap = 0, u_cycle = None,
      u_recurring = 0, u_interval = 0, u_carry = False\<rparr>"

definition new_group_wallet :: "int \<Rightarrow> group_wallet" where
  "new_group_wallet g =
     \<lparr>w_group = g, w_balance = 0, w_reserved = 0, w_budget_cap = 0, w_alert_pct = 80,
      w_default_member = 0, w_recurring = 0, w_interval = 0, w_carry = False, w_cycle = None\<rparr>"

section \<open>What a reader of the tables sees\<close>

definition balance_of :: "store \<Rightarrow> int \<Rightarrow> int \<Rightarrow> int" where
  "balance_of s u g = (case row_of u_key (u, g) (uwallets s) of None \<Rightarrow> 0 | Some w \<Rightarrow> u_balance w)"

definition group_balance :: "store \<Rightarrow> int \<Rightarrow> int" where
  "group_balance s g = (case row_of w_group g (gwallets s) of None \<Rightarrow> 0 | Some w \<Rightarrow> w_balance w)"

definition pool_of :: "store \<Rightarrow> int \<Rightarrow> int" where
  "pool_of s i = (case row_of o_id i (orgs s) of None \<Rightarrow> 0 | Some r \<Rightarrow> o_pool r)"

text \<open>Everything charged under a reference, read off the ledger (the empty reference is stored
  as \<open>NULL\<close>).\<close>

definition spent :: "store \<Rightarrow> string \<Rightarrow> int" where
  "spent s ref =
     (\<Sum>x \<leftarrow> utxs s. if x_ref x = (if ref = [] then None else Some ref) then - x_amount x else 0)"

text \<open>The primary keys of the tables.\<close>

definition keyed :: "store \<Rightarrow> bool" where
  "keyed s \<longleftrightarrow> keys_distinct o_id (orgs s) \<and> keys_distinct g_id (groups s) \<and>
     keys_distinct u_key (uwallets s) \<and> keys_distinct w_group (gwallets s)"

section \<open>The credit pool interface\<close>

record 's pool_ops =
  p_draw_user :: "int \<Rightarrow> int \<Rightarrow> 's \<Rightarrow> 's \<times> bool option"
  p_draw_group :: "int \<Rightarrow> int \<Rightarrow> 's \<Rightarrow> 's \<times> bool option"
  p_add_group :: "int \<Rightarrow> int \<Rightarrow> 's \<Rightarrow> 's \<times> bool"
  p_add_user :: "int \<Rightarrow> int \<Rightarrow> 's \<Rightarrow> 's \<times> bool"
  p_group_of_user :: "int \<Rightarrow> 's \<Rightarrow> int option"

text \<open>
  Drawing answers \<open>None\<close> for an error, \<open>Some False\<close> when the pool is short and \<open>Some True\<close>
  otherwise. The contract: only organisation rows change; a draw that does not answer
  \<open>Some True\<close> changes nothing; no draw makes a pool negative; the pool of the group's (the
  user's) organisation pays exactly the amount when there is one.
\<close>

locale credit_pool =
  fixes P :: "store pool_ops"
    and org_g :: "store \<Rightarrow> int \<Rightarrow> int option"
    and org_u :: "store \<Rightarrow> int \<Rightarrow> int option"
  assumes draw_user_frame: "p_draw_user P u n s = (s', r) \<Longrightarrow> \<exists>os. s' = s\<lparr>orgs := os\<rparr>"
    and draw_group_frame: "p_draw_group P g n s = (s', r) \<Longrightarrow> \<exists>os. s' = s\<lparr>orgs := os\<rparr>"
    and add_user_frame: "p_add_user P u n s = (s', b) \<Longrightarrow> \<exists>os. s' = s\<lparr>orgs := os\<rparr>"
    and add_group_frame: "p_add_group P g n s = (s', b) \<Longrightarrow> \<exists>os. s' = s\<lparr>orgs := os\<rparr>"
    and draw_group_refused: "p_draw_group P g n s = (s', r) \<Longrightarrow> r \<noteq> Some True \<Longrightarrow> s' = s"
    and draw_user_refused: "p_draw_user P u n s = (s', r) \<Longrightarrow> r \<noteq> Some True \<Longrightarrow> s' = s"
    and draw_group_pool: "p_draw_group P g n s = (s', Some True) \<Longrightarrow>
      pool_of s' i = pool_of s i - (if org_g s g = Some i then n else 0)"
    and draw_user_pool: "p_draw_user P u n s = (s', Some True) \<Longrightarrow>
      pool_of s' i = pool_of s i - (if org_u s u = Some i then n else 0)"
    and draw_group_covered: "p_draw_group P g n s = (s', Some True) \<Longrightarrow> org_g s g = Some i \<Longrightarrow>
      n \<le> pool_of s i"
    and draw_user_covered: "p_draw_user P u n s = (s', Some True) \<Longrightarrow> org_u s u = Some i \<Longrightarrow>
      n \<le> pool_of s i"
begin

lemma draw_group_wallets:
  "p_draw_group P g n s = (s', r) \<Longrightarrow>
     gwallets s' = gwallets s \<and> uwallets s' = uwallets s \<and> utxs s' = utxs s"
  by (drule draw_group_frame) auto

lemma draw_user_wallets:
  "p_draw_user P u n s = (s', r) \<Longrightarrow>
     gwallets s' = gwallets s \<and> uwallets s' = uwallets s \<and> utxs s' = utxs s"
  by (drule draw_user_frame) auto

lemma add_user_wallets:
  "p_add_user P u n s = (s', b) \<Longrightarrow>
     gwallets s' = gwallets s \<and> uwallets s' = uwallets s \<and> utxs s' = utxs s"
  by (drule add_user_frame) auto

lemma draw_group_nonneg:
  assumes "p_draw_group P g n s = (s', r)" "\<forall>i. 0 \<le> pool_of s i"
  shows "0 \<le> pool_of s' i"
proof (cases "r = Some True")
  case True
  then show ?thesis
    using assms draw_group_pool [of g n s s' i] draw_group_covered [of g n s s' i] by auto
next
  case False
  then show ?thesis using assms draw_group_refused by blast
qed

lemma draw_user_nonneg:
  assumes "p_draw_user P u n s = (s', r)" "\<forall>i. 0 \<le> pool_of s i"
  shows "0 \<le> pool_of s' i"
proof (cases "r = Some True")
  case True
  then show ?thesis
    using assms draw_user_pool [of u n s s' i] draw_user_covered [of u n s s' i] by auto
next
  case False
  then show ?thesis using assms draw_user_refused by blast
qed

end

section \<open>The charger interface\<close>

datatype charge = COk | CInsufficient | CErr

record 'w charger =
  ch_consume :: "int \<Rightarrow> int \<Rightarrow> int \<Rightarrow> string \<Rightarrow> 'w \<Rightarrow> 'w \<times> charge"
  ch_balance :: "int \<Rightarrow> int \<Rightarrow> 'w \<Rightarrow> 'w \<times> int"

text \<open>
  \<open>Consume(user, group, credits, ref)\<close>: a success puts exactly \<open>credits\<close> on the account of
  \<open>ref\<close>, and nothing on any other; an error or a refusal puts nothing on any; zero or fewer
  credits succeed at once. \<open>acct\<close> reads what has been charged under a reference.
\<close>

locale charging =
  fixes C :: "'w charger"
    and acct :: "'w \<Rightarrow> string \<Rightarrow> int"
  assumes consume_ok: "ch_consume C u g n ref w = (w', COk) \<Longrightarrow> 0 < n \<Longrightarrow>
      acct w' r = acct w r + (if r = ref then n else 0)"
    and consume_not_ok: "ch_consume C u g n ref w = (w', c) \<Longrightarrow> c \<noteq> COk \<Longrightarrow> acct w' r = acct w r"
    and consume_nothing: "n \<le> 0 \<Longrightarrow> ch_consume C u g n ref w = (w, COk)"
    and balance_account: "ch_balance C u g w = (w', b) \<Longrightarrow> acct w' r = acct w r"
begin

lemma consume_account:
  assumes "ch_consume C u g n ref w = (w', c)"
  shows "acct w' r = acct w r + (if c = COk \<and> r = ref \<and> 0 < n then n else 0)"
proof (cases "0 < n")
  case True
  then show ?thesis
    using assms consume_ok [of u g n ref w w' r] consume_not_ok [of u g n ref w w' c r]
    by (cases "c = COk") auto
next
  case False
  then show ?thesis using assms consume_nothing [of n u g ref w] by auto
qed

lemma consume_other: "ch_consume C u g n ref w = (w', c) \<Longrightarrow> r \<noteq> ref \<Longrightarrow> acct w' r = acct w r"
  by (simp add: consume_account)

lemma consume_grows: "ch_consume C u g n ref w = (w', c) \<Longrightarrow> acct w r \<le> acct w' r"
  by (simp add: consume_account)

end

section \<open>Facts\<close>

lemma pool_of_orgs: "orgs s' = orgs s \<Longrightarrow> pool_of s' i = pool_of s i"
  by (simp add: pool_of_def)

lemma balance_of_cong: "uwallets s' = uwallets s \<Longrightarrow> balance_of s' u g = balance_of s u g"
  by (simp add: balance_of_def)

lemma group_balance_cong: "gwallets s' = gwallets s \<Longrightarrow> group_balance s' g = group_balance s g"
  by (simp add: group_balance_def)

lemma spent_cong: "utxs s' = utxs s \<Longrightarrow> spent s' r = spent s r"
  by (simp add: spent_def)

lemma u_key_simps [simp]:
  "u_key (w\<lparr>u_balance := b\<rparr>) = u_key w" "u_key (w\<lparr>u_cycle := c\<rparr>) = u_key w"
  "u_key (w\<lparr>u_recurring := rr\<rparr>) = u_key w" "u_key (w\<lparr>u_interval := i\<rparr>) = u_key w"
  "u_key (w\<lparr>u_carry := k\<rparr>) = u_key w" "u_key (new_user_wallet u g) = (u, g)"
  by (simp_all add: u_key_def new_user_wallet_def)

lemma new_group_wallet_key [simp]: "w_group (new_group_wallet g) = g"
  by (simp add: new_group_wallet_def)

end
