(* ===== verification/Org.thy ===== *)
theory Org
  imports Credit_Store
begin

text \<open>
  \<open>internal/org\<close>: organisation rows, their credit pool, the representative organisation and
  group of a user, and \<open>org.Service\<close>, which provides the wallet service's credit pool. Every
  operation takes the answer of the database (\<open>ok\<close>: which statements succeed); a failing
  lookup reads as "none", as in the source.
\<close>

section \<open>Statements\<close>

datatype org_stmt = OrgOfGroupQ | OrgOfUserQ | GroupOfUserQ | DrawPoolU | AddPoolU
  | SetRecurringU | SetRefillU | ActiveUsersQ | ArchiveU | InsertOrg | UpdateOrg

type_synonym org_db = "org_stmt \<Rightarrow> bool"

definition active :: "member_row \<Rightarrow> bool" where
  "active m \<longleftrightarrow> m_status m = ''active''"

text \<open>\<open>return id, id > 0\<close>.\<close>

definition positive :: "int \<Rightarrow> int option" where
  "positive i = (if 0 < i then Some i else None)"

definition org_of_group :: "org_db \<Rightarrow> store \<Rightarrow> int \<Rightarrow> int option" where
  "org_of_group ok s g =
     (if \<not> ok OrgOfGroupQ then None
      else (case row_of g_id g (groups s) of None \<Rightarrow> None | Some r \<Rightarrow> positive (g_org r)))"

definition group_of_user :: "org_db \<Rightarrow> store \<Rightarrow> int \<Rightarrow> int option" where
  "group_of_user ok s u =
     (if \<not> ok GroupOfUserQ then None
      else (case find (\<lambda>m. m_user m = u \<and> active m) (members s) of
              None \<Rightarrow> None | Some m \<Rightarrow> positive (m_group m)))"

text \<open>The join drops memberships of groups that do not exist.\<close>

definition org_of_user :: "org_db \<Rightarrow> store \<Rightarrow> int \<Rightarrow> int option" where
  "org_of_user ok s u =
     (if \<not> ok OrgOfUserQ then None
      else (case find (\<lambda>m. m_user m = u \<and> active m \<and> row_of g_id (m_group m) (groups s) \<noteq> None)
                   (members s) of
              None \<Rightarrow> None
            | Some m \<Rightarrow> (case row_of g_id (m_group m) (groups s) of
                           None \<Rightarrow> None | Some r \<Rightarrow> positive (g_org r))))"

definition is_org_admin :: "store \<Rightarrow> int \<Rightarrow> int \<Rightarrow> bool" where
  "is_org_admin s u i \<longleftrightarrow>
     (\<exists>m \<in> set (members s). m_user m = u \<and> m_role m = ''org_admin'' \<and> active m \<and>
        (case row_of g_id (m_group m) (groups s) of None \<Rightarrow> False | Some r \<Rightarrow> g_org r = i))"

definition active_user_count :: "org_db \<Rightarrow> store \<Rightarrow> int \<Rightarrow> nat" where
  "active_user_count ok s i =
     (if \<not> ok ActiveUsersQ then 0
      else card (m_user ` set (filter (\<lambda>m. active m \<and>
             (case row_of g_id (m_group m) (groups s) of None \<Rightarrow> False | Some r \<Rightarrow> g_org r = i))
             (members s))))"

section \<open>Updates\<close>

definition upd_org :: "int \<Rightarrow> (org_row \<Rightarrow> org_row) \<Rightarrow> store \<Rightarrow> store" where
  "upd_org i f s = s\<lparr>orgs := upd_row o_id i f (orgs s)\<rparr>"

definition add_pool :: "org_db \<Rightarrow> int \<Rightarrow> int \<Rightarrow> store \<Rightarrow> store \<times> bool" where
  "add_pool ok i n s =
     (if ok AddPoolU then (upd_org i (\<lambda>r. r\<lparr>o_pool := o_pool r + n\<rparr>) s, True) else (s, False))"

text \<open>\<open>RowsAffected\<close> counts the rows whose value changed.\<close>

definition draw_pool :: "org_db \<Rightarrow> int \<Rightarrow> int \<Rightarrow> store \<Rightarrow> store \<times> bool option" where
  "draw_pool ok i n s =
     (if \<not> ok DrawPoolU then (s, None)
      else (case row_of o_id i (orgs s) of None \<Rightarrow> (s, Some False)
            | Some r \<Rightarrow>
                if n \<le> o_pool r \<and> n \<noteq> 0
                then (upd_org i (\<lambda>r. r\<lparr>o_pool := o_pool r - n\<rparr>) s, Some True)
                else (s, Some False)))"

definition set_recurring :: "org_db \<Rightarrow> int \<Rightarrow> int \<Rightarrow> store \<Rightarrow> store \<times> bool" where
  "set_recurring ok i n s =
     (if ok SetRecurringU then (upd_org i (\<lambda>r. r\<lparr>o_recurring := n\<rparr>) s, True) else (s, False))"

definition set_org_refill :: "org_db \<Rightarrow> int \<Rightarrow> int \<Rightarrow> bool \<Rightarrow> store \<Rightarrow> store \<times> bool" where
  "set_org_refill ok i iv carry s =
     (if ok SetRefillU then (upd_org i (\<lambda>r. r\<lparr>o_interval := iv, o_carry := carry\<rparr>) s, True)
      else (s, False))"

section \<open>The service\<close>

datatype 'a org_result = OrgOk 'a | DuplicateName | OrgHasUsers | OrgDbError | BadAdmin | BootFailed

record org_create =
  oc_name :: string
  oc_display :: string
  oc_pool :: int
  oc_admin :: string

text \<open>\<open>Create\<close>: \<open>boot\<close> is the group service's bootstrapper (account check, and creation of the
  default group with its administrator), \<open>i\<close> the id the insert assigns; the unique key on the
  name refuses a duplicate. A failing bootstrap leaves the organisation in place.\<close>

definition create_org ::
  "org_db \<Rightarrow> ((string \<Rightarrow> bool) \<times> (int \<Rightarrow> string \<Rightarrow> store \<Rightarrow> store \<times> bool)) option \<Rightarrow> int
   \<Rightarrow> org_create \<Rightarrow> store \<Rightarrow> store \<times> int org_result" where
  "create_org ok boot i req s =
     (if oc_admin req \<noteq> [] \<and> (case boot of None \<Rightarrow> False | Some b \<Rightarrow> \<not> fst b (oc_admin req))
      then (s, BadAdmin)
      else if row_of o_name (oc_name req) (orgs s) \<noteq> None then (s, DuplicateName)
      else if \<not> ok InsertOrg then (s, OrgDbError)
      else
        (let row = \<lparr>o_id = i, o_name = oc_name req,
               o_display = or_default (oc_display req) (oc_name req), o_pool = oc_pool req,
               o_recurring = 0, o_interval = 0, o_carry = False, o_cycle = None,
               o_default_budget = 0, o_status = ''active''\<rparr>;
             s1 = s\<lparr>orgs := orgs s @ [row]\<rparr>
         in case boot of None \<Rightarrow> (s1, OrgOk i)
            | Some b \<Rightarrow> (case snd b i (oc_admin req) s1 of
                 (s2, True) \<Rightarrow> (s2, OrgOk i)
               | (s2, False) \<Rightarrow> (s2, BootFailed))))"

definition update_org ::
  "org_db \<Rightarrow> int \<Rightarrow> string option \<Rightarrow> int option \<Rightarrow> store \<Rightarrow> store \<times> unit org_result" where
  "update_org ok i disp budget s =
     (if disp = None \<and> budget = None then (s, OrgOk ())
      else if \<not> ok UpdateOrg then (s, OrgDbError)
      else (upd_org i (\<lambda>r. r\<lparr>o_display := (case disp of None \<Rightarrow> o_display r | Some d \<Rightarrow> d),
                            o_default_budget := (case budget of None \<Rightarrow> o_default_budget r | Some b \<Rightarrow> b)\<rparr>) s,
            OrgOk ()))"

definition archive :: "org_db \<Rightarrow> int \<Rightarrow> store \<Rightarrow> store \<times> unit org_result" where
  "archive ok i s =
     (if 0 < active_user_count ok s i then (s, OrgHasUsers)
      else if \<not> ok ArchiveU then (s, OrgDbError)
      else (upd_org i (\<lambda>r. r\<lparr>o_status := ''archived''\<rparr>) s, OrgOk ()))"

record org_grant =
  og_amount :: int
  og_recurring :: "int option"
  og_interval :: "int option"
  og_carry :: "bool option"

definition capped_interval :: "int option \<Rightarrow> int option \<Rightarrow> int" where
  "capped_interval plat iv =
     (case iv of None \<Rightarrow> 0
      | Some v \<Rightarrow> (case plat of None \<Rightarrow> v | Some c \<Rightarrow> if 0 < c \<and> c < v then c else v))"

text \<open>\<open>Grant\<close>: three independent statements, each error returned at once with what came before
  it already stored.\<close>

definition grant :: "org_db \<Rightarrow> int option \<Rightarrow> int \<Rightarrow> org_grant \<Rightarrow> store \<Rightarrow> store \<times> unit org_result"
where
  "grant ok plat i req s =
     (let (s1, ok1) = (if og_amount req \<noteq> 0 then add_pool ok i (og_amount req) s else (s, True))
      in if \<not> ok1 then (s1, OrgDbError)
         else
           (let (s2, ok2) = (case og_recurring req of None \<Rightarrow> (s1, True)
                             | Some v \<Rightarrow> set_recurring ok i v s1)
            in if \<not> ok2 then (s2, OrgDbError)
               else if og_interval req = None \<and> og_carry req = None then (s2, OrgOk ())
               else
                 (let (s3, ok3) = set_org_refill ok i (capped_interval plat (og_interval req))
                        (case og_carry req of None \<Rightarrow> False | Some b \<Rightarrow> b) s2
                  in if ok3 then (s3, OrgOk ()) else (s3, OrgDbError))))"

definition draw_for_group :: "org_db \<Rightarrow> int \<Rightarrow> int \<Rightarrow> store \<Rightarrow> store \<times> bool option" where
  "draw_for_group ok g n s =
     (case org_of_group ok s g of None \<Rightarrow> (s, Some True) | Some i \<Rightarrow> draw_pool ok i n s)"

definition draw_for_user :: "org_db \<Rightarrow> int \<Rightarrow> int \<Rightarrow> store \<Rightarrow> store \<times> bool option" where
  "draw_for_user ok u n s =
     (case org_of_user ok s u of None \<Rightarrow> (s, Some True) | Some i \<Rightarrow> draw_pool ok i n s)"

definition add_for_group :: "org_db \<Rightarrow> int \<Rightarrow> int \<Rightarrow> store \<Rightarrow> store \<times> bool" where
  "add_for_group ok g n s =
     (case org_of_group ok s g of None \<Rightarrow> (s, True) | Some i \<Rightarrow> add_pool ok i n s)"

definition add_for_user :: "org_db \<Rightarrow> int \<Rightarrow> int \<Rightarrow> store \<Rightarrow> store \<times> bool" where
  "add_for_user ok u n s =
     (case org_of_user ok s u of None \<Rightarrow> (s, True) | Some i \<Rightarrow> add_pool ok i n s)"

definition org_pool :: "org_db \<Rightarrow> store pool_ops" where
  "org_pool ok =
     \<lparr>p_draw_user = draw_for_user ok, p_draw_group = draw_for_group ok,
      p_add_group = add_for_group ok, p_add_user = add_for_user ok,
      p_group_of_user = (\<lambda>u s. group_of_user ok s u)\<rparr>"

section \<open>Facts\<close>

lemma upd_org_frame [frame]:
  "groups (upd_org i f s) = groups s" "members (upd_org i f s) = members s"
  "uwallets (upd_org i f s) = uwallets s" "gwallets (upd_org i f s) = gwallets s"
  "utxs (upd_org i f s) = utxs s" "gtxs (upd_org i f s) = gtxs s"
  by (simp_all add: upd_org_def)

lemma row_of_upd_org:
  "(\<And>r. o_id (f r) = o_id r) \<Longrightarrow> row_of o_id j (orgs (upd_org i f s)) =
     (if j = i then map_option f (row_of o_id i (orgs s)) else row_of o_id j (orgs s))"
  by (simp add: upd_org_def row_of_upd_row)

lemma pool_of_upd:
  assumes "row_of o_id i (orgs s) = Some r"
  shows "pool_of (upd_org i (\<lambda>r. r\<lparr>o_pool := o_pool r + n\<rparr>) s) j = pool_of s j + (if j = i then n else 0)"
    "pool_of (upd_org i (\<lambda>r. r\<lparr>o_pool := o_pool r - n\<rparr>) s) j = pool_of s j - (if j = i then n else 0)"
  using assms by (simp_all add: pool_of_def row_of_upd_org)

lemma draw_pool_cases:
  assumes "draw_pool ok i n s = (s', r)"
  shows "r \<noteq> Some True \<and> s' = s \<or>
    r = Some True \<and> n \<le> pool_of s i \<and> s' = upd_org i (\<lambda>r. r\<lparr>o_pool := o_pool r - n\<rparr>) s \<and>
    (\<forall>j. pool_of s' j = pool_of s j - (if j = i then n else 0))"
  using assms by (auto simp: draw_pool_def pool_of_upd split: option.splits if_splits)
    (simp_all add: pool_of_def)

lemma org_rows_only:
  "draw_pool ok i n s = (s', r) \<Longrightarrow> \<exists>os. s' = s\<lparr>orgs := os\<rparr>"
  "add_pool ok i n s = (s', b) \<Longrightarrow> \<exists>os. s' = s\<lparr>orgs := os\<rparr>"
  by (auto simp: draw_pool_def add_pool_def upd_org_def split: option.splits if_splits
      intro: exI [of _ "orgs s"])

lemma self_orgs: "\<exists>os. s = s\<lparr>orgs := os\<rparr>"
  by (rule exI [of _ "orgs s"]) simp

interpretation op: credit_pool "org_pool ok" "org_of_group ok" "org_of_user ok" for ok
proof (unfold_locales, goal_cases)
  case (1 u n s s' r)
  then show ?case
    by (auto simp: org_pool_def draw_for_user_def self_orgs dest: org_rows_only split: option.splits)
next
  case (2 g n s s' r)
  then show ?case
    by (auto simp: org_pool_def draw_for_group_def self_orgs dest: org_rows_only split: option.splits)
next
  case (3 u n s s' b)
  then show ?case
    by (auto simp: org_pool_def add_for_user_def self_orgs dest: org_rows_only split: option.splits)
next
  case (4 g n s s' b)
  then show ?case
    by (auto simp: org_pool_def add_for_group_def self_orgs dest: org_rows_only split: option.splits)
next
  case (5 g n s s' r)
  then show ?case
    by (auto simp: org_pool_def draw_for_group_def dest: draw_pool_cases split: option.splits)
next
  case (6 u n s s' r)
  then show ?case
    by (auto simp: org_pool_def draw_for_user_def dest: draw_pool_cases split: option.splits)
next
  case (7 g n s s' i)
  then show ?case
    by (auto simp: org_pool_def draw_for_group_def dest: draw_pool_cases split: option.splits)
next
  case (8 u n s s' i)
  then show ?case
    by (auto simp: org_pool_def draw_for_user_def dest: draw_pool_cases split: option.splits)
next
  case (9 g n s s' i)
  then show ?case
    by (auto simp: org_pool_def draw_for_group_def dest: draw_pool_cases split: option.splits)
next
  case (10 u n s s' i)
  then show ?case
    by (auto simp: org_pool_def draw_for_user_def dest: draw_pool_cases split: option.splits)
qed

end
