(* ===== verification/Wallet_Ledger.thy ===== *)
theory Wallet_Ledger
  imports Credit_Store
begin

text \<open>
  The wallet repository (\<open>internal/wallet/repo.go\<close>): membership wallets, group wallets and the
  ledgers that record every movement. A gorm transaction either commits as a whole or leaves
  the tables as they were; \<open>ok\<close> says which statements (or transactions) succeed.
\<close>

section \<open>Statements\<close>

datatype wallet_stmt = EnsureUserI | FirstUserQ | UserTxT | EnsureGroupI | FirstGroupQ | GroupTxT
  | DrawGroupT | ConsumedU | BudgetU | DefaultBudgetU | GroupRefillU | UserRefillU
  | RefillNowU | RefillNowLogI | RefillNowGroupU | GroupCapQ | UserCapQ

type_synonym wallet_db = "wallet_stmt \<Rightarrow> bool"

section \<open>Membership wallets\<close>

definition ensure_user :: "int \<Rightarrow> int \<Rightarrow> store \<Rightarrow> store" where
  "ensure_user u g s = s\<lparr>uwallets := insert_ignore u_key (new_user_wallet u g) (uwallets s)\<rparr>"

definition upd_user :: "int \<Rightarrow> int \<Rightarrow> (user_wallet \<Rightarrow> user_wallet) \<Rightarrow> store \<Rightarrow> store" where
  "upd_user u g f s = s\<lparr>uwallets := upd_row u_key (u, g) f (uwallets s)\<rparr>"

definition log_user :: "user_tx \<Rightarrow> store \<Rightarrow> store" where
  "log_user x s = s\<lparr>utxs := utxs s @ [x]\<rparr>"

text \<open>\<open>UserWallet\<close>: the row is created when it is missing.\<close>

definition user_wallet_of :: "wallet_db \<Rightarrow> int \<Rightarrow> int \<Rightarrow> store \<Rightarrow> store \<times> user_wallet option" where
  "user_wallet_of ok u g s =
     (if \<not> ok EnsureUserI then (s, None)
      else (let s1 = ensure_user u g s
            in if ok FirstUserQ then (s1, row_of u_key (u, g) (uwallets s1)) else (s1, None)))"

text \<open>\<open>nullIfEmpty\<close>.\<close>

definition null_if_empty :: "string \<Rightarrow> string option" where
  "null_if_empty s = (if s = [] then None else Some s)"

definition apply_user_tx ::
  "wallet_db \<Rightarrow> int \<Rightarrow> int \<Rightarrow> tx_type \<Rightarrow> int \<Rightarrow> tx_label \<Rightarrow> string \<Rightarrow> int option \<Rightarrow> store
   \<Rightarrow> store \<times> int option" where
  "apply_user_tx ok u g ty n label ref actor s =
     (if \<not> ok UserTxT then (s, None)
      else
        (let s1 = upd_user u g (\<lambda>w. w\<lparr>u_balance := u_balance w + n\<rparr>) (ensure_user u g s);
             b = balance_of s1 u g
         in (log_user \<lparr>x_user = u, x_group = g, x_type = ty, x_amount = n, x_after = b,
               x_label = label, x_ref = null_if_empty ref, x_actor = actor\<rparr> s1, Some b)))"

text \<open>Showback: the given membership, or the oldest one when no group is given.\<close>

fun upd_first :: "('r \<Rightarrow> bool) \<Rightarrow> ('r \<Rightarrow> 'r) \<Rightarrow> 'r list \<Rightarrow> 'r list" where
  "upd_first P f [] = []"
| "upd_first P f (r # t) = (if P r then f r # t else r # upd_first P f t)"

definition add_member_consumed :: "wallet_db \<Rightarrow> int \<Rightarrow> int \<Rightarrow> int \<Rightarrow> store \<Rightarrow> store \<times> bool" where
  "add_member_consumed ok u g n s =
     (if \<not> ok ConsumedU then (s, False)
      else if 0 < g
      then (s\<lparr>members := upd_where (\<lambda>m. m_user m = u \<and> m_group m = g)
                 (\<lambda>m. m\<lparr>m_consumed := m_consumed m + n\<rparr>) (members s)\<rparr>, True)
      else (s\<lparr>members := upd_first (\<lambda>m. m_user m = u)
                 (\<lambda>m. m\<lparr>m_consumed := m_consumed m + n\<rparr>) (members s)\<rparr>, True))"

section \<open>Group wallets\<close>

definition ensure_group :: "int \<Rightarrow> store \<Rightarrow> store" where
  "ensure_group g s = s\<lparr>gwallets := insert_ignore w_group (new_group_wallet g) (gwallets s)\<rparr>"

definition upd_group :: "int \<Rightarrow> (group_wallet \<Rightarrow> group_wallet) \<Rightarrow> store \<Rightarrow> store" where
  "upd_group g f s = s\<lparr>gwallets := upd_row w_group g f (gwallets s)\<rparr>"

definition log_group :: "group_tx \<Rightarrow> store \<Rightarrow> store" where
  "log_group x s = s\<lparr>gtxs := gtxs s @ [x]\<rparr>"

definition group_reserved :: "store \<Rightarrow> int \<Rightarrow> int" where
  "group_reserved s g = (case row_of w_group g (gwallets s) of None \<Rightarrow> 0 | Some w \<Rightarrow> w_reserved w)"

definition group_wallet_of :: "wallet_db \<Rightarrow> int \<Rightarrow> store \<Rightarrow> store \<times> group_wallet option" where
  "group_wallet_of ok g s =
     (if \<not> ok EnsureGroupI then (s, None)
      else (let s1 = ensure_group g s
            in if ok FirstGroupQ then (s1, row_of w_group g (gwallets s1)) else (s1, None)))"

definition apply_group_tx ::
  "wallet_db \<Rightarrow> int \<Rightarrow> tx_type \<Rightarrow> int \<Rightarrow> int option \<Rightarrow> string \<Rightarrow> store \<Rightarrow> store \<times> int option" where
  "apply_group_tx ok g ty n actor ref s =
     (if \<not> ok GroupTxT then (s, None)
      else
        (let s1 = upd_group g (\<lambda>w. w\<lparr>w_balance := w_balance w + n\<rparr>) (ensure_group g s);
             b = group_balance s1 g
         in (log_group \<lparr>y_group = g, y_type = ty, y_amount = n, y_after = b,
               y_reserved_after = group_reserved s1 g, y_actor = actor, y_ref = ref\<rparr> s1, Some b)))"

text \<open>\<open>DrawGroupTx\<close>: the conditional update counts the changed rows; a short pool commits the
  transaction with nothing but the ensured row.\<close>

definition draw_group_tx :: "wallet_db \<Rightarrow> int \<Rightarrow> int \<Rightarrow> int option \<Rightarrow> store \<Rightarrow> store \<times> bool option" where
  "draw_group_tx ok g n actor s =
     (if \<not> ok DrawGroupT then (s, None)
      else
        (let s1 = ensure_group g s
         in if \<not> (n \<le> group_balance s1 g \<and> n \<noteq> 0) then (s1, Some False)
            else
              (let s2 = upd_group g (\<lambda>w. w\<lparr>w_balance := w_balance w - n\<rparr>) s1
               in (log_group \<lparr>y_group = g, y_type = TxAllocate, y_amount = - n,
                     y_after = group_balance s2 g, y_reserved_after = group_reserved s2 g,
                     y_actor = actor, y_ref = []\<rparr> s2, Some True))))"

definition set_group_budget :: "wallet_db \<Rightarrow> int \<Rightarrow> int \<Rightarrow> int \<Rightarrow> store \<Rightarrow> store \<times> bool" where
  "set_group_budget ok g cap pct s =
     (if \<not> ok EnsureGroupI then (s, False)
      else (let s1 = ensure_group g s
            in if ok BudgetU
               then (upd_group g (\<lambda>w. w\<lparr>w_budget_cap := cap, w_alert_pct := pct\<rparr>) s1, True)
               else (s1, False)))"

definition set_default_member_budget :: "wallet_db \<Rightarrow> int \<Rightarrow> int \<Rightarrow> store \<Rightarrow> store \<times> bool" where
  "set_default_member_budget ok g v s =
     (if \<not> ok EnsureGroupI then (s, False)
      else (let s1 = ensure_group g s
            in if ok DefaultBudgetU then (upd_group g (\<lambda>w. w\<lparr>w_default_member := v\<rparr>) s1, True)
               else (s1, False)))"

section \<open>Facts\<close>

lemma ensure_user_frame [frame]:
  "orgs (ensure_user u g s) = orgs s" "groups (ensure_user u g s) = groups s"
  "members (ensure_user u g s) = members s" "gwallets (ensure_user u g s) = gwallets s"
  "utxs (ensure_user u g s) = utxs s" "gtxs (ensure_user u g s) = gtxs s"
  "plat_cycle (ensure_user u g s) = plat_cycle s"
  by (simp_all add: ensure_user_def)

lemma upd_user_frame [frame]:
  "orgs (upd_user u g f s) = orgs s" "groups (upd_user u g f s) = groups s"
  "members (upd_user u g f s) = members s" "gwallets (upd_user u g f s) = gwallets s"
  "utxs (upd_user u g f s) = utxs s" "gtxs (upd_user u g f s) = gtxs s"
  "plat_cycle (upd_user u g f s) = plat_cycle s"
  by (simp_all add: upd_user_def)

lemma log_user_frame [frame]:
  "orgs (log_user x s) = orgs s" "groups (log_user x s) = groups s"
  "members (log_user x s) = members s" "gwallets (log_user x s) = gwallets s"
  "uwallets (log_user x s) = uwallets s" "gtxs (log_user x s) = gtxs s"
  "utxs (log_user x s) = utxs s @ [x]" "plat_cycle (log_user x s) = plat_cycle s"
  by (simp_all add: log_user_def)

lemma ensure_group_frame [frame]:
  "orgs (ensure_group g s) = orgs s" "groups (ensure_group g s) = groups s"
  "members (ensure_group g s) = members s" "uwallets (ensure_group g s) = uwallets s"
  "utxs (ensure_group g s) = utxs s" "gtxs (ensure_group g s) = gtxs s"
  "plat_cycle (ensure_group g s) = plat_cycle s"
  by (simp_all add: ensure_group_def)

lemma upd_group_frame [frame]:
  "orgs (upd_group g f s) = orgs s" "groups (upd_group g f s) = groups s"
  "members (upd_group g f s) = members s" "uwallets (upd_group g f s) = uwallets s"
  "utxs (upd_group g f s) = utxs s" "gtxs (upd_group g f s) = gtxs s"
  "plat_cycle (upd_group g f s) = plat_cycle s"
  by (simp_all add: upd_group_def)

lemma log_group_frame [frame]:
  "orgs (log_group x s) = orgs s" "groups (log_group x s) = groups s"
  "members (log_group x s) = members s" "gwallets (log_group x s) = gwallets s"
  "uwallets (log_group x s) = uwallets s" "utxs (log_group x s) = utxs s"
  "plat_cycle (log_group x s) = plat_cycle s"
  by (simp_all add: log_group_def)

lemma balance_ensure [simp]: "balance_of (ensure_user u g s) u' g' = balance_of s u' g'"
  by (auto simp: balance_of_def ensure_user_def row_of_insert_ignore new_user_wallet_def
      split: option.split)

lemma wallet_ensured: "row_of u_key (u, g) (uwallets (ensure_user u g s)) \<noteq> None"
  by (auto simp: ensure_user_def row_of_insert_ignore)

lemma balance_upd_user:
  assumes "row_of u_key (u, g) (uwallets s) = Some w" "\<And>w. u_key (f w) = u_key w"
  shows "balance_of (upd_user u g f s) u' g' =
    (if u' = u \<and> g' = g then u_balance (f w) else balance_of s u' g')"
  using assms by (auto simp: balance_of_def upd_user_def row_of_upd_row split: option.split)

lemma balance_user_add:
  "balance_of (upd_user u g (\<lambda>w. w\<lparr>u_balance := u_balance w + n\<rparr>) (ensure_user u g s)) u' g' =
   balance_of s u' g' + (if u' = u \<and> g' = g then n else 0)"
proof -
  obtain w where w: "row_of u_key (u, g) (uwallets (ensure_user u g s)) = Some w"
    using wallet_ensured [of u g s] by blast
  then have "u_balance w = balance_of s u g"
    using balance_ensure [of u g s u g] by (simp add: balance_of_def)
  then show ?thesis by (subst balance_upd_user [OF w]) auto
qed

lemma group_balance_ensure [simp]: "group_balance (ensure_group g s) g' = group_balance s g'"
  by (auto simp: group_balance_def ensure_group_def row_of_insert_ignore new_group_wallet_def
      split: option.split)

lemma group_ensured: "row_of w_group g (gwallets (ensure_group g s)) \<noteq> None"
  by (auto simp: ensure_group_def row_of_insert_ignore)

lemma group_balance_upd:
  assumes "row_of w_group g (gwallets s) = Some w" "\<And>w. w_group (f w) = w_group w"
  shows "group_balance (upd_group g f s) g' = (if g' = g then w_balance (f w) else group_balance s g')"
  using assms by (auto simp: group_balance_def upd_group_def row_of_upd_row split: option.split)

lemma group_balance_add:
  "group_balance (upd_group g (\<lambda>w. w\<lparr>w_balance := w_balance w + n\<rparr>) (ensure_group g s)) g' =
     group_balance s g' + (if g' = g then n else 0)"
  "group_balance (upd_group g (\<lambda>w. w\<lparr>w_balance := w_balance w - n\<rparr>) (ensure_group g s)) g' =
     group_balance s g' - (if g' = g then n else 0)"
proof -
  obtain w where w: "row_of w_group g (gwallets (ensure_group g s)) = Some w"
    using group_ensured [of g s] by blast
  then have "w_balance w = group_balance s g"
    using group_balance_ensure [of g s g] by (simp add: group_balance_def)
  then show
    "group_balance (upd_group g (\<lambda>w. w\<lparr>w_balance := w_balance w + n\<rparr>) (ensure_group g s)) g' =
       group_balance s g' + (if g' = g then n else 0)"
    "group_balance (upd_group g (\<lambda>w. w\<lparr>w_balance := w_balance w - n\<rparr>) (ensure_group g s)) g' =
       group_balance s g' - (if g' = g then n else 0)"
    by (subst group_balance_upd [OF w]; auto)+
qed

text \<open>What a committed transaction does, as its callers see it.\<close>

lemma apply_user_tx_effect:
  assumes "apply_user_tx ok u g ty n label ref actor s = (s', Some b)"
  shows "b = balance_of s u g + n"
    "balance_of s' u' g' = balance_of s u' g' + (if u' = u \<and> g' = g then n else 0)"
    "utxs s' = utxs s @ [\<lparr>x_user = u, x_group = g, x_type = ty, x_amount = n, x_after = b,
       x_label = label, x_ref = null_if_empty ref, x_actor = actor\<rparr>]"
    "orgs s' = orgs s" "groups s' = groups s" "members s' = members s" "gwallets s' = gwallets s"
    "gtxs s' = gtxs s" "plat_cycle s' = plat_cycle s"
  using assms
  by (auto simp: apply_user_tx_def Let_def balance_user_add frame balance_of_cong [OF log_user_frame(5)]
      split: if_splits)

lemma apply_user_tx_failed: "apply_user_tx ok u g ty n label ref actor s = (s', None) \<Longrightarrow> s' = s"
  by (auto simp: apply_user_tx_def Let_def split: if_splits)

lemma apply_group_tx_effect:
  assumes "apply_group_tx ok g ty n actor ref s = (s', Some b)"
  shows "b = group_balance s g + n"
    "group_balance s' g' = group_balance s g' + (if g' = g then n else 0)"
    "uwallets s' = uwallets s" "utxs s' = utxs s" "orgs s' = orgs s" "groups s' = groups s"
    "members s' = members s"
  using assms
  by (auto simp: apply_group_tx_def Let_def group_balance_add frame
      group_balance_cong [OF log_group_frame(4)] split: if_splits)

lemma apply_group_tx_failed: "apply_group_tx ok g ty n actor ref s = (s', None) \<Longrightarrow> s' = s"
  by (auto simp: apply_group_tx_def Let_def split: if_splits)

lemma draw_group_tx_effect:
  assumes "draw_group_tx ok g n actor s = (s', r)"
  shows "group_balance s' g' = group_balance s g' - (if r = Some True \<and> g' = g then n else 0)"
    "r = Some True \<Longrightarrow> n \<le> group_balance s g"
    "r = Some False \<Longrightarrow> 0 < n \<Longrightarrow> group_balance s g < n"
    "uwallets s' = uwallets s" "utxs s' = utxs s" "orgs s' = orgs s" "groups s' = groups s"
    "members s' = members s"
  using assms
  by (auto simp: draw_group_tx_def Let_def group_balance_add frame
      group_balance_cong [OF log_group_frame(4)] split: if_splits)

lemma user_wallet_of_effect:
  assumes "user_wallet_of ok u g s = (s', r)"
  shows "balance_of s' u' g' = balance_of s u' g'" "utxs s' = utxs s" "orgs s' = orgs s"
    "groups s' = groups s" "members s' = members s" "gwallets s' = gwallets s" "gtxs s' = gtxs s"
    "r = Some w \<Longrightarrow> u_balance w = balance_of s u g"
    "r = None \<Longrightarrow> \<not> (ok EnsureUserI \<and> ok FirstUserQ)"
proof -
  show "r = Some w \<Longrightarrow> u_balance w = balance_of s u g"
    using assms balance_ensure [of u g s u g]
    by (auto simp: user_wallet_of_def Let_def balance_of_def split: if_splits)
  show "r = None \<Longrightarrow> \<not> (ok EnsureUserI \<and> ok FirstUserQ)"
    using assms wallet_ensured [of u g s] by (auto simp: user_wallet_of_def Let_def)
qed (use assms in \<open>auto simp: user_wallet_of_def Let_def frame split: if_splits\<close>)

lemma add_member_consumed_frame:
  assumes "add_member_consumed ok u g n s = (s', b)"
  shows "uwallets s' = uwallets s" "gwallets s' = gwallets s" "utxs s' = utxs s" "orgs s' = orgs s"
    "groups s' = groups s" "gtxs s' = gtxs s"
  using assms by (auto simp: add_member_consumed_def split: if_splits)

section \<open>The ledger and the balances\<close>

text \<open>\<open>last_after\<close> is the balance the newest ledger row of a wallet records. \<open>synced\<close>: every
  balance is what its newest row says, and a wallet without rows is empty.\<close>

definition last_after :: "store \<Rightarrow> int \<Rightarrow> int \<Rightarrow> int option" where
  "last_after s u g =
     map_option x_after (find (\<lambda>x. x_user x = u \<and> x_group x = g) (rev (utxs s)))"

definition synced :: "store \<Rightarrow> bool" where
  "synced s \<longleftrightarrow> (\<forall>u g. balance_of s u g = (case last_after s u g of None \<Rightarrow> 0 | Some b \<Rightarrow> b))"

lemma last_after_log:
  "utxs s' = utxs s @ [x] \<Longrightarrow>
   last_after s' u g = (if x_user x = u \<and> x_group x = g then Some (x_after x) else last_after s u g)"
  by (simp add: last_after_def)

lemma synced_same:
  "synced s \<Longrightarrow> utxs s' = utxs s \<Longrightarrow> (\<And>u g. balance_of s' u g = balance_of s u g) \<Longrightarrow> synced s'"
  by (simp add: synced_def last_after_def)

lemma synced_post:
  assumes "synced s" "utxs s' = utxs s @ [x]"
    and "\<And>u g. balance_of s' u g = (if u = x_user x \<and> g = x_group x then x_after x else balance_of s u g)"
  shows "synced s'"
  using assms by (auto simp: synced_def last_after_log [OF assms(2)])

lemma synced_apply_user_tx:
  assumes "synced s" "apply_user_tx ok u g ty n label ref actor s = (s', r)"
  shows "synced s'"
proof (cases r)
  case None
  then show ?thesis using assms apply_user_tx_failed by blast
next
  case (Some b)
  note e = apply_user_tx_effect [OF assms(2) [unfolded Some]]
  show ?thesis by (rule synced_post [OF assms(1) e(3)]) (use e(1,2) in auto)
qed

end
