(* ===== verification/Wallet_Refill.thy ===== *)
theory Wallet_Refill
  imports Org Wallet_Ledger
begin

text \<open>
  The refill engine (\<open>internal/wallet/refill.go\<close>): immediate refills of one wallet, and the
  periodic job that goes down the hierarchy platform, organisation, group, member in one
  transaction. The current time is an argument. The statements inside the job's transaction
  succeed (the source ignores their errors); \<open>commit\<close> is the outcome of the transaction.
  A stored time keeps its nanoseconds (a MySQL \<open>TIMESTAMP\<close> rounds it to the second).
\<close>

section \<open>Cycles\<close>

record platform_refill =
  pr_interval :: int
  pr_carry :: bool

text \<open>\<open>time.Time{}\<close>, the first instant of the year 1.\<close>

definition zero_time :: time where
  "zero_time = - 62135596800 * second"

definition boundary_crossed :: "bool \<Rightarrow> time option \<Rightarrow> time \<Rightarrow> bool" where
  "boundary_crossed carry ancestor since =
     (if carry then False else (case ancestor of None \<Rightarrow> False | Some a \<Rightarrow> since < a))"

definition due :: "time option \<Rightarrow> int \<Rightarrow> time \<Rightarrow> bool" where
  "due cycle iv now =
     (if iv \<le> 0 then False
      else (case cycle of None \<Rightarrow> True | Some c \<Rightarrow> \<not> now < c + iv * day))"

definition since_of :: "time option \<Rightarrow> time" where
  "since_of cycle = (case cycle of None \<Rightarrow> zero_time | Some c \<Rightarrow> c)"

section \<open>Immediate refills and settings\<close>

datatype 'a refill_result = RefillOk 'a | NoRecurring | RefillErr

definition refill_now_user :: "wallet_db \<Rightarrow> time \<Rightarrow> int \<Rightarrow> int \<Rightarrow> store \<Rightarrow> store \<times> int refill_result" where
  "refill_now_user ok now u g s =
     (case row_of u_key (u, g) (uwallets s) of None \<Rightarrow> (s, NoRecurring)
      | Some w \<Rightarrow>
          if u_recurring w \<le> 0 then (s, NoRecurring)
          else
            (let bal = (if u_carry w then u_balance w + u_recurring w else u_recurring w)
             in if \<not> ok RefillNowU then (s, RefillErr)
                else
                  (let s1 = upd_user u g (\<lambda>r. r\<lparr>u_balance := bal, u_cycle := Some now\<rparr>) s
                   in if \<not> ok RefillNowLogI then (s1, RefillErr)
                      else (log_user \<lparr>x_user = u, x_group = g, x_type = TxRecharge,
                              x_amount = u_recurring w, x_after = bal, x_label = InstantRefill,
                              x_ref = None, x_actor = None\<rparr> s1, RefillOk (u_recurring w)))))"

definition refill_now_group :: "wallet_db \<Rightarrow> time \<Rightarrow> int \<Rightarrow> store \<Rightarrow> store \<times> int refill_result" where
  "refill_now_group ok now g s =
     (case row_of w_group g (gwallets s) of None \<Rightarrow> (s, NoRecurring)
      | Some w \<Rightarrow>
          if w_recurring w \<le> 0 then (s, NoRecurring)
          else
            (let bal = (if w_carry w then w_balance w + w_recurring w else w_recurring w)
             in if \<not> ok RefillNowGroupU then (s, RefillErr)
                else (upd_group g (\<lambda>r. r\<lparr>w_balance := bal, w_cycle := Some now\<rparr>) s,
                      RefillOk (w_recurring w))))"

text \<open>The error of the \<open>INSERT IGNORE\<close> is dropped by the source.\<close>

definition set_group_refill :: "wallet_db \<Rightarrow> int \<Rightarrow> int \<Rightarrow> int \<Rightarrow> bool \<Rightarrow> store \<Rightarrow> store \<times> bool" where
  "set_group_refill ok g recurring iv carry s =
     (let s1 = (if ok EnsureGroupI then ensure_group g s else s)
      in if ok GroupRefillU
         then (upd_group g (\<lambda>w. w\<lparr>w_recurring := recurring, w_interval := iv, w_carry := carry\<rparr>) s1, True)
         else (s1, False))"

definition set_user_refill ::
  "wallet_db \<Rightarrow> int \<Rightarrow> int \<Rightarrow> int \<Rightarrow> int \<Rightarrow> bool \<Rightarrow> store \<Rightarrow> store \<times> bool" where
  "set_user_refill ok u g recurring iv carry s =
     (let s1 = (if ok EnsureUserI then ensure_user u g s else s)
      in if ok UserRefillU
         then (upd_user u g (\<lambda>w. w\<lparr>u_recurring := recurring, u_interval := iv, u_carry := carry\<rparr>) s1, True)
         else (s1, False))"

text \<open>The interval a team (a member) may not exceed; a failing query scans nothing.\<close>

definition group_refill_cap :: "wallet_db \<Rightarrow> store \<Rightarrow> int \<Rightarrow> int \<Rightarrow> int" where
  "group_refill_cap ok s g plat =
     (let iv = (if \<not> ok GroupCapQ then 0
                else (case row_of g_id g (groups s) of None \<Rightarrow> 0
                      | Some r \<Rightarrow> (case row_of o_id (g_org r) (orgs s) of None \<Rightarrow> 0
                                   | Some o' \<Rightarrow> o_interval o')))
      in if 0 < iv then iv else plat)"

definition user_refill_cap :: "wallet_db \<Rightarrow> store \<Rightarrow> int \<Rightarrow> int \<Rightarrow> int" where
  "user_refill_cap ok s g plat =
     (let (group_iv, org_iv) =
        (if \<not> ok UserCapQ then (0, 0)
         else (case row_of g_id g (groups s) of None \<Rightarrow> (0, 0)
               | Some r \<Rightarrow> (case row_of o_id (g_org r) (orgs s) of None \<Rightarrow> (0, 0)
                            | Some o' \<Rightarrow>
                                ((case row_of w_group g (gwallets s) of None \<Rightarrow> 0 | Some w \<Rightarrow> w_interval w),
                                 o_interval o'))))
      in if 0 < group_iv then group_iv else if 0 < org_iv then org_iv else plat)"

section \<open>The periodic job\<close>

text \<open>What the job carries from one stage to the next: the tables, the maps \<open>orgCycle\<close>,
  \<open>orgCarry\<close>, \<open>orgEff\<close>, \<open>grpCycle\<close>, \<open>grpCarry\<close> (a missing key reads as the zero value) and the
  count of refilled pools.\<close>

record refill_acc =
  ra_store :: store
  ra_org_cycle :: "int \<Rightarrow> time option"
  ra_org_carry :: "int \<Rightarrow> bool"
  ra_org_eff :: "int \<Rightarrow> int"
  ra_grp_cycle :: "int \<Rightarrow> time option"
  ra_grp_carry :: "int \<Rightarrow> bool"
  ra_n :: nat

definition refill_platform :: "platform_refill \<Rightarrow> time \<Rightarrow> store \<Rightarrow> store" where
  "refill_platform plat now s =
     (if due (plat_cycle s) (pr_interval plat) now then s\<lparr>plat_cycle := Some now\<rparr> else s)"

definition refill_org ::
  "platform_refill \<Rightarrow> time option \<Rightarrow> time \<Rightarrow> refill_acc \<Rightarrow> org_row \<Rightarrow> refill_acc" where
  "refill_org plat pc now a r =
     (let iv = (if o_interval r \<le> 0 then pr_interval plat else o_interval r);
          a1 = a\<lparr>ra_org_carry := (ra_org_carry a)(o_id r := o_carry r),
                 ra_org_eff := (ra_org_eff a)(o_id r := iv)\<rparr>
      in if \<not> due (o_cycle r) iv now
         then a1\<lparr>ra_org_cycle := (ra_org_cycle a)(o_id r := o_cycle r)\<rparr>
         else
           (let wipe = (\<not> o_carry r \<or> boundary_crossed (pr_carry plat) pc (since_of (o_cycle r)));
                pool = (if \<not> wipe then o_pool r + o_recurring r else o_recurring r)
            in a1\<lparr>ra_store := upd_org (o_id r) (\<lambda>x. x\<lparr>o_pool := pool, o_cycle := Some now\<rparr>) (ra_store a),
                  ra_org_cycle := (ra_org_cycle a)(o_id r := Some now),
                  ra_n := ra_n a + 1\<rparr>))"

definition refill_group ::
  "platform_refill \<Rightarrow> time option \<Rightarrow> time \<Rightarrow> refill_acc \<Rightarrow> group_wallet \<times> int \<Rightarrow> refill_acc" where
  "refill_group plat pc now a p =
     (let (w, oid) = p;
          iv = (if w_interval w \<le> 0
                then (if 0 < ra_org_eff a oid then ra_org_eff a oid else pr_interval plat)
                else w_interval w);
          a1 = a\<lparr>ra_grp_carry := (ra_grp_carry a)(w_group w := w_carry w)\<rparr>
      in if \<not> due (w_cycle w) iv now
         then a1\<lparr>ra_grp_cycle := (ra_grp_cycle a)(w_group w := w_cycle w)\<rparr>
         else
           (let since = since_of (w_cycle w);
                wipe = (\<not> w_carry w \<or> boundary_crossed (pr_carry plat) pc since \<or>
                        boundary_crossed (ra_org_carry a oid) (ra_org_cycle a oid) since);
                bal = (if \<not> wipe then w_balance w + w_recurring w else w_recurring w)
            in a1\<lparr>ra_store := upd_group (w_group w) (\<lambda>x. x\<lparr>w_balance := bal, w_cycle := Some now\<rparr>) (ra_store a),
                  ra_grp_cycle := (ra_grp_cycle a)(w_group w := Some now),
                  ra_n := ra_n a + 1\<rparr>))"

definition refill_user ::
  "platform_refill \<Rightarrow> time option \<Rightarrow> time \<Rightarrow> refill_acc \<Rightarrow> user_wallet \<times> int \<Rightarrow> refill_acc" where
  "refill_user plat pc now a p =
     (let (w, oid) = p;
          iv = (if u_interval w \<le> 0 then pr_interval plat else u_interval w)
      in if \<not> due (u_cycle w) iv now then a
         else
           (let since = since_of (u_cycle w);
                wipe = (\<not> u_carry w \<or> boundary_crossed (pr_carry plat) pc since \<or>
                        boundary_crossed (ra_org_carry a oid) (ra_org_cycle a oid) since \<or>
                        boundary_crossed (ra_grp_carry a (u_group w)) (ra_grp_cycle a (u_group w)) since);
                bal = (if \<not> wipe then u_balance w + u_recurring w else u_recurring w)
            in a\<lparr>ra_store := log_user \<lparr>x_user = u_user w, x_group = u_group w, x_type = TxRecharge,
                     x_amount = u_recurring w, x_after = bal, x_label = RegularRefill,
                     x_ref = None, x_actor = None\<rparr>
                   (upd_user (u_user w) (u_group w) (\<lambda>x. x\<lparr>u_balance := bal, u_cycle := Some now\<rparr>)
                     (ra_store a)),
                 ra_n := ra_n a + 1\<rparr>))"

text \<open>The rows the three queries return: the joins drop wallets of groups that do not exist.\<close>

definition org_rows :: "store \<Rightarrow> org_row list" where
  "org_rows s = filter (\<lambda>r. 0 < o_recurring r \<and> o_status r = ''active'') (orgs s)"

definition org_of_wallet :: "store \<Rightarrow> int \<Rightarrow> int option" where
  "org_of_wallet s g = map_option g_org (row_of g_id g (groups s))"

definition group_rows :: "store \<Rightarrow> (group_wallet \<times> int) list" where
  "group_rows s =
     List.map_filter (\<lambda>w. if 0 < w_recurring w then map_option (Pair w) (org_of_wallet s (w_group w)) else None)
       (gwallets s)"

definition user_rows :: "store \<Rightarrow> (user_wallet \<times> int) list" where
  "user_rows s =
     List.map_filter (\<lambda>w. if 0 < u_recurring w then map_option (Pair w) (org_of_wallet s (u_group w)) else None)
       (uwallets s)"

definition start_acc :: "store \<Rightarrow> refill_acc" where
  "start_acc s =
     \<lparr>ra_store = s, ra_org_cycle = (\<lambda>_. None), ra_org_carry = (\<lambda>_. False), ra_org_eff = (\<lambda>_. 0),
      ra_grp_cycle = (\<lambda>_. None), ra_grp_carry = (\<lambda>_. False), ra_n = 0\<rparr>"

definition refill_due :: "bool \<Rightarrow> platform_refill \<Rightarrow> time \<Rightarrow> store \<Rightarrow> store \<times> nat option" where
  "refill_due commit plat now s =
     (if \<not> commit then (s, None)
      else
        (let s0 = refill_platform plat now s;
             pc = plat_cycle s0;
             a1 = foldl (refill_org plat pc now) (start_acc s0) (org_rows s0);
             a2 = foldl (refill_group plat pc now) a1 (group_rows (ra_store a1));
             a3 = foldl (refill_user plat pc now) a2 (user_rows (ra_store a2))
         in (ra_store a3, Some (ra_n a3))))"

record recharge_cfg =
  rc_enabled :: bool
  rc_interval :: int
  rc_carry :: bool

text \<open>One tick of \<open>RunCreditRecharge\<close>.\<close>

definition recharge_tick :: "bool \<Rightarrow> recharge_cfg \<Rightarrow> time \<Rightarrow> store \<Rightarrow> store" where
  "recharge_tick commit c now s =
     (if \<not> rc_enabled c \<or> rc_interval c \<le> 0 then s
      else fst (refill_due commit \<lparr>pr_interval = rc_interval c, pr_carry = rc_carry c\<rparr> now s))"

end
