(* ===== verification/Refill_Spec.thy ===== *)
theory Refill_Spec
  imports Wallet_Refill
begin

text \<open>
  The refill job as a specification: which pool fires, what it holds afterwards, given the new
  cycles of the pools above it, and the proof that the three nested loops of \<open>RefillDue\<close> compute
  it. Everything later theories say of the job they read off the specification.
\<close>

section \<open>The specification\<close>

definition new_pc :: "platform_refill \<Rightarrow> time \<Rightarrow> store \<Rightarrow> time option" where
  "new_pc plat now s = (if due (plat_cycle s) (pr_interval plat) now then Some now else plat_cycle s)"

definition org_on :: "org_row \<Rightarrow> bool" where
  "org_on r \<longleftrightarrow> 0 < o_recurring r \<and> o_status r = ''active''"

definition org_iv :: "platform_refill \<Rightarrow> org_row \<Rightarrow> int" where
  "org_iv plat r = (if o_interval r \<le> 0 then pr_interval plat else o_interval r)"

definition org_fires :: "platform_refill \<Rightarrow> time \<Rightarrow> org_row \<Rightarrow> bool" where
  "org_fires plat now r \<longleftrightarrow> org_on r \<and> due (o_cycle r) (org_iv plat r) now"

definition org_wiped :: "platform_refill \<Rightarrow> time option \<Rightarrow> org_row \<Rightarrow> bool" where
  "org_wiped plat pc r \<longleftrightarrow> \<not> o_carry r \<or> boundary_crossed (pr_carry plat) pc (since_of (o_cycle r))"

definition refilled_org :: "platform_refill \<Rightarrow> time option \<Rightarrow> time \<Rightarrow> org_row \<Rightarrow> org_row" where
  "refilled_org plat pc now r =
     (if org_fires plat now r
      then r\<lparr>o_pool := (if org_wiped plat pc r then o_recurring r else o_pool r + o_recurring r),
             o_cycle := Some now\<rparr>
      else r)"

text \<open>Organisation \<open>i\<close> of the refilled table does not carry over and was reset after \<open>since\<close>.\<close>

definition org_reset :: "org_row list \<Rightarrow> int \<Rightarrow> time \<Rightarrow> bool" where
  "org_reset os i since =
     (case row_of o_id i os of None \<Rightarrow> False
      | Some r \<Rightarrow> org_on r \<and> boundary_crossed (o_carry r) (o_cycle r) since)"

definition group_iv :: "platform_refill \<Rightarrow> org_row list \<Rightarrow> int \<Rightarrow> group_wallet \<Rightarrow> int" where
  "group_iv plat os oid w =
     (if w_interval w \<le> 0
      then (case row_of o_id oid os of None \<Rightarrow> pr_interval plat
            | Some r \<Rightarrow> if org_on r \<and> 0 < org_iv plat r then org_iv plat r else pr_interval plat)
      else w_interval w)"

definition group_fires ::
  "platform_refill \<Rightarrow> time \<Rightarrow> store \<Rightarrow> org_row list \<Rightarrow> group_wallet \<Rightarrow> bool" where
  "group_fires plat now s os w =
     (case org_of_wallet s (w_group w) of None \<Rightarrow> False
      | Some oid \<Rightarrow> 0 < w_recurring w \<and> due (w_cycle w) (group_iv plat os oid w) now)"

definition group_wiped ::
  "platform_refill \<Rightarrow> time option \<Rightarrow> store \<Rightarrow> org_row list \<Rightarrow> group_wallet \<Rightarrow> bool" where
  "group_wiped plat pc s os w =
     (\<not> w_carry w \<or> boundary_crossed (pr_carry plat) pc (since_of (w_cycle w)) \<or>
      (case org_of_wallet s (w_group w) of None \<Rightarrow> False
       | Some oid \<Rightarrow> org_reset os oid (since_of (w_cycle w))))"

definition refilled_group ::
  "platform_refill \<Rightarrow> time option \<Rightarrow> time \<Rightarrow> store \<Rightarrow> org_row list \<Rightarrow> group_wallet \<Rightarrow> group_wallet" where
  "refilled_group plat pc now s os w =
     (if group_fires plat now s os w
      then w\<lparr>w_balance := (if group_wiped plat pc s os w then w_recurring w else w_balance w + w_recurring w),
             w_cycle := Some now\<rparr>
      else w)"

definition group_reset :: "store \<Rightarrow> group_wallet list \<Rightarrow> int \<Rightarrow> time \<Rightarrow> bool" where
  "group_reset s gs g since =
     (case row_of w_group g gs of None \<Rightarrow> False
      | Some w \<Rightarrow> 0 < w_recurring w \<and> org_of_wallet s g \<noteq> None \<and>
                  boundary_crossed (w_carry w) (w_cycle w) since)"

definition user_iv :: "platform_refill \<Rightarrow> user_wallet \<Rightarrow> int" where
  "user_iv plat w = (if u_interval w \<le> 0 then pr_interval plat else u_interval w)"

definition user_fires :: "platform_refill \<Rightarrow> time \<Rightarrow> store \<Rightarrow> user_wallet \<Rightarrow> bool" where
  "user_fires plat now s w \<longleftrightarrow>
     org_of_wallet s (u_group w) \<noteq> None \<and> 0 < u_recurring w \<and> due (u_cycle w) (user_iv plat w) now"

definition user_wiped ::
  "platform_refill \<Rightarrow> time option \<Rightarrow> store \<Rightarrow> org_row list \<Rightarrow> group_wallet list \<Rightarrow> user_wallet \<Rightarrow> bool" where
  "user_wiped plat pc s os gs w =
     (\<not> u_carry w \<or> boundary_crossed (pr_carry plat) pc (since_of (u_cycle w)) \<or>
      (case org_of_wallet s (u_group w) of None \<Rightarrow> False
       | Some oid \<Rightarrow> org_reset os oid (since_of (u_cycle w))) \<or>
      group_reset s gs (u_group w) (since_of (u_cycle w)))"

definition refilled_user ::
  "platform_refill \<Rightarrow> time option \<Rightarrow> time \<Rightarrow> store \<Rightarrow> org_row list \<Rightarrow> group_wallet list
   \<Rightarrow> user_wallet \<Rightarrow> user_wallet" where
  "refilled_user plat pc now s os gs w =
     (if user_fires plat now s w
      then w\<lparr>u_balance := (if user_wiped plat pc s os gs w then u_recurring w
                             else u_balance w + u_recurring w),
             u_cycle := Some now\<rparr>
      else w)"

text \<open>The ledger row of a member's refill.\<close>

definition recharge_tx :: "user_wallet \<Rightarrow> user_tx" where
  "recharge_tx w =
     \<lparr>x_user = u_user w, x_group = u_group w, x_type = TxRecharge, x_amount = u_recurring w,
      x_after = u_balance w, x_label = RegularRefill, x_ref = None, x_actor = None\<rparr>"

definition refill_spec :: "platform_refill \<Rightarrow> time \<Rightarrow> store \<Rightarrow> store \<times> nat" where
  "refill_spec plat now s =
     (let pc = new_pc plat now s;
          os = map (refilled_org plat pc now) (orgs s);
          gs = map (refilled_group plat pc now s os) (gwallets s);
          us = map (refilled_user plat pc now s os gs) (uwallets s)
      in (s\<lparr>plat_cycle := pc, orgs := os, gwallets := gs, uwallets := us,
            utxs := utxs s @ map (\<lambda>w. recharge_tx (refilled_user plat pc now s os gs w))
                              (filter (user_fires plat now s) (uwallets s))\<rparr>,
          length (filter (org_fires plat now) (orgs s)) +
          length (filter (group_fires plat now s os) (gwallets s)) +
          length (filter (user_fires plat now s) (uwallets s))))"

section \<open>The loops compute it\<close>

lemma foldl_filter: "foldl f a (filter P t) = foldl (\<lambda>a r. if P r then f a r else a) a t"
  by (induction t arbitrary: a) auto

lemma foldl_map_filter:
  "foldl f a (List.map_filter h t) = foldl (\<lambda>a r. case h r of None \<Rightarrow> a | Some q \<Rightarrow> f a q) a t"
  by (induction t arbitrary: a) (auto simp: List.map_filter_simps split: option.split)

lemma upd_row_here:
  assumes "key r \<notin> key ` set pre" "key r \<notin> key ` set suf"
  shows "upd_row key (key r) f (pre @ r # suf) = pre @ f r # suf"
proof -
  have "row_of key (key r) pre = None" "row_of key (key r) suf = None"
    using assms by (auto simp: row_of_None)
  then have "upd_row key (key r) f pre = pre" "upd_row key (key r) f suf = suf"
    by (simp_all add: upd_row_absent)
  then show ?thesis by (simp add: upd_row_def upd_where_def)
qed

lemma org_on_refilled [simp]: "org_on (refilled_org plat pc now r) = org_on r"
  by (simp add: refilled_org_def org_on_def)

lemma org_iv_refilled [simp]: "org_iv plat (refilled_org plat pc now r) = org_iv plat r"
  by (simp add: refilled_org_def org_iv_def)

lemma refilled_org_fields [simp]:
  "o_id (refilled_org plat pc now r) = o_id r" "o_carry (refilled_org plat pc now r) = o_carry r"
  by (simp_all add: refilled_org_def)

lemma refilled_group_fields [simp]:
  "w_group (refilled_group plat pc now s os w) = w_group w"
  "w_carry (refilled_group plat pc now s os w) = w_carry w"
  "w_recurring (refilled_group plat pc now s os w) = w_recurring w"
  by (simp_all add: refilled_group_def)

lemma refilled_user_key [simp]: "u_key (refilled_user plat pc now s os gs w) = u_key w"
  by (simp add: refilled_user_def)

text \<open>One step of each loop, on the row in front of it.\<close>

lemma org_step:
  assumes "orgs (ra_store a) = pre @ r # suf" "o_id r \<notin> o_id ` set pre" "o_id r \<notin> o_id ` set suf"
    "org_on r"
  shows "refill_org plat pc now a r =
    a\<lparr>ra_store := (ra_store a)\<lparr>orgs := pre @ refilled_org plat pc now r # suf\<rparr>,
      ra_org_carry := (ra_org_carry a)(o_id r := o_carry r),
      ra_org_eff := (ra_org_eff a)(o_id r := org_iv plat r),
      ra_org_cycle := (ra_org_cycle a)(o_id r := o_cycle (refilled_org plat pc now r)),
      ra_n := ra_n a + (if org_fires plat now r then 1 else 0)\<rparr>"
proof -
  have same: "(ra_store a)\<lparr>orgs := pre @ r # suf\<rparr> = ra_store a"
    using assms(1) by (metis store.surjective store.update_convs(1))
  show ?thesis
    using assms upd_row_here [where key = o_id and r = r and pre = pre and suf = suf]
    by (auto simp: refill_org_def Let_def org_iv_def refilled_org_def org_fires_def org_wiped_def
        upd_org_def same)
qed

lemma orgs_update_same: "orgs s = os \<Longrightarrow> s\<lparr>orgs := os\<rparr> = s"
  by (metis store.surjective store.update_convs(1))

lemma gwallets_update_same: "gwallets s = x \<Longrightarrow> s\<lparr>gwallets := x\<rparr> = s"
  by (metis store.surjective store.update_convs(5))

lemma uwallets_update_same: "uwallets s = x \<Longrightarrow> s\<lparr>uwallets := x\<rparr> = s"
  by (metis store.surjective store.update_convs(4))

lemma refilled_org_off: "\<not> org_on r \<Longrightarrow> refilled_org plat pc now r = r"
  by (simp add: refilled_org_def org_fires_def)

text \<open>The bodies of the three loops, over whole tables.\<close>

definition org_body :: "platform_refill \<Rightarrow> time option \<Rightarrow> time \<Rightarrow> refill_acc \<Rightarrow> org_row \<Rightarrow> refill_acc" where
  "org_body plat pc now a r = (if org_on r then refill_org plat pc now a r else a)"

lemma org_body_store:
  assumes "distinct (map o_id (pre @ r # suf))" "orgs (ra_store a) = pre @ r # suf"
  shows "ra_store (org_body plat pc now a r) =
      (ra_store a)\<lparr>orgs := (pre @ [refilled_org plat pc now r]) @ suf\<rparr>"
    "ra_n (org_body plat pc now a r) = ra_n a + (if org_fires plat now r then 1 else 0)"
  using assms org_step [of a pre r suf plat pc now]
  by (auto simp: org_body_def refilled_org_off orgs_update_same org_fires_def)

lemma org_stage_store:
  assumes "distinct (map o_id (pre @ suf))" "orgs (ra_store a) = pre @ suf"
  shows "ra_store (foldl (org_body plat pc now) a suf) =
      (ra_store a)\<lparr>orgs := pre @ map (refilled_org plat pc now) suf\<rparr> \<and>
    ra_n (foldl (org_body plat pc now) a suf) = ra_n a + length (filter (org_fires plat now) suf)"
  using assms
proof (induction suf arbitrary: pre a)
  case Nil
  then show ?case by (simp add: orgs_update_same)
next
  case (Cons r suf)
  note b = org_body_store [OF Cons.prems, of plat pc now]
  have "distinct (map o_id ((pre @ [refilled_org plat pc now r]) @ suf))"
    using Cons.prems(1) by simp
  moreover have "orgs (ra_store (org_body plat pc now a r)) = (pre @ [refilled_org plat pc now r]) @ suf"
    by (simp add: b(1))
  ultimately show ?case using b Cons.IH [of "pre @ [refilled_org plat pc now r]" "org_body plat pc now a r"]
    by (auto simp del: append_assoc)
qed

lemma org_body_maps [simp]:
  "ra_org_cycle (org_body plat pc now a r) i =
     (if i = o_id r \<and> org_on r then o_cycle (refilled_org plat pc now r) else ra_org_cycle a i)"
  "ra_org_carry (org_body plat pc now a r) i = (if i = o_id r \<and> org_on r then o_carry r else ra_org_carry a i)"
  "ra_org_eff (org_body plat pc now a r) i = (if i = o_id r \<and> org_on r then org_iv plat r else ra_org_eff a i)"
  "ra_grp_cycle (org_body plat pc now a r) = ra_grp_cycle a"
  "ra_grp_carry (org_body plat pc now a r) = ra_grp_carry a"
  by (auto simp: org_body_def refill_org_def Let_def refilled_org_def org_fires_def org_iv_def)

definition on_row :: "int \<Rightarrow> org_row list \<Rightarrow> (org_row \<Rightarrow> 'a) \<Rightarrow> 'a \<Rightarrow> 'a" where
  "on_row i rs f d = (case row_of o_id i rs of None \<Rightarrow> d | Some r \<Rightarrow> if org_on r then f r else d)"

lemma org_stage_maps:
  assumes "distinct (map o_id rs)"
  shows "ra_org_cycle (foldl (org_body plat pc now) a rs) i =
      on_row i rs (\<lambda>r. o_cycle (refilled_org plat pc now r)) (ra_org_cycle a i)"
    "ra_org_carry (foldl (org_body plat pc now) a rs) i = on_row i rs o_carry (ra_org_carry a i)"
    "ra_org_eff (foldl (org_body plat pc now) a rs) i = on_row i rs (org_iv plat) (ra_org_eff a i)"
    "ra_grp_cycle (foldl (org_body plat pc now) a rs) = ra_grp_cycle a"
    "ra_grp_carry (foldl (org_body plat pc now) a rs) = ra_grp_carry a"
  using assms
proof (induction rs arbitrary: a)
  case (Cons r rs)
  have none: "row_of o_id (o_id r) rs = None" if "distinct (map o_id (r # rs))"
    using that by (auto simp: row_of_None)
  { case 1 then show ?case using Cons.IH(1) none by (auto simp: on_row_def split: option.split) }
  { case 2 then show ?case using Cons.IH(2) none by (auto simp: on_row_def split: option.split) }
  { case 3 then show ?case using Cons.IH(3) none by (auto simp: on_row_def split: option.split) }
  { case 4 then show ?case using Cons.IH(4) by simp }
  { case 5 then show ?case using Cons.IH(5) by simp }
qed (simp_all add: on_row_def)

lemma row_of_map:
  assumes "\<And>r. key (f r) = key r"
  shows "row_of key k (map f t) = map_option f (row_of key k t)"
  using assms by (induction t) auto

lemma org_of_wallet_cong: "groups s' = groups s \<Longrightarrow> org_of_wallet s' g = org_of_wallet s g"
  by (simp add: org_of_wallet_def)

text \<open>What the maps say after the first stage, in terms of the refilled table.\<close>

lemma on_row_refilled:
  "on_row i rs (\<lambda>r. f (refilled_org plat pc now r)) d = on_row i (map (refilled_org plat pc now) rs) f d"
  by (simp add: on_row_def row_of_map split: option.split)

lemma reset_on_row:
  "boundary_crossed (on_row i os o_carry False) (on_row i os o_cycle None) since = org_reset os i since"
  by (simp add: on_row_def org_reset_def boundary_crossed_def split: option.split)

definition maps_ok :: "platform_refill \<Rightarrow> org_row list \<Rightarrow> refill_acc \<Rightarrow> bool" where
  "maps_ok plat os a \<longleftrightarrow>
     (\<forall>i. ra_org_cycle a i = on_row i os o_cycle None \<and> ra_org_carry a i = on_row i os o_carry False \<and>
          ra_org_eff a i = on_row i os (org_iv plat) 0)"

definition group_body ::
  "platform_refill \<Rightarrow> time option \<Rightarrow> time \<Rightarrow> store \<Rightarrow> refill_acc \<Rightarrow> group_wallet \<Rightarrow> refill_acc" where
  "group_body plat pc now s a w =
     (case org_of_wallet s (w_group w) of None \<Rightarrow> a
      | Some oid \<Rightarrow> if 0 < w_recurring w then refill_group plat pc now a (w, oid) else a)"

lemma group_body_iv:
  "maps_ok plat os a \<Longrightarrow>
   (if w_interval w \<le> 0 then (if 0 < ra_org_eff a oid then ra_org_eff a oid else pr_interval plat)
    else w_interval w) = group_iv plat os oid w"
  by (auto simp: maps_ok_def group_iv_def on_row_def split: option.split)

lemma maps_ok_upd [simp]:
  "maps_ok plat os (a\<lparr>ra_store := st\<rparr>) = maps_ok plat os a"
  "maps_ok plat os (a\<lparr>ra_grp_cycle := gc\<rparr>) = maps_ok plat os a"
  "maps_ok plat os (a\<lparr>ra_grp_carry := gk\<rparr>) = maps_ok plat os a"
  "maps_ok plat os (a\<lparr>ra_n := n\<rparr>) = maps_ok plat os a"
  by (simp_all add: maps_ok_def)

lemma maps_ok_reset:
  "maps_ok plat os a \<Longrightarrow>
   boundary_crossed (ra_org_carry a oid) (ra_org_cycle a oid) since = org_reset os oid since"
  by (simp add: maps_ok_def reset_on_row)

lemma group_body_maps:
  assumes "maps_ok plat os a"
  shows "ra_grp_cycle (group_body plat pc now s a w) g =
      (if g = w_group w \<and> 0 < w_recurring w \<and> org_of_wallet s g \<noteq> None
       then w_cycle (refilled_group plat pc now s os w) else ra_grp_cycle a g)"
    "ra_grp_carry (group_body plat pc now s a w) g =
      (if g = w_group w \<and> 0 < w_recurring w \<and> org_of_wallet s g \<noteq> None then w_carry w else ra_grp_carry a g)"
    "maps_ok plat os (group_body plat pc now s a w)"
    "ra_n (group_body plat pc now s a w) = ra_n a + (if group_fires plat now s os w then 1 else 0)"
  using assms
  by (auto simp: group_body_def refill_group_def Let_def group_body_iv [OF assms] refilled_group_def
      group_fires_def simp del: split_paired_All split: option.split)

lemma refilled_group_off: "\<not> group_fires plat now s os w \<Longrightarrow> refilled_group plat pc now s os w = w"
  by (simp add: refilled_group_def)

lemma group_body_store:
  assumes "distinct (map w_group (pre @ w # suf))" "gwallets (ra_store a) = pre @ w # suf"
    "maps_ok plat os a"
  shows "ra_store (group_body plat pc now s a w) =
      (ra_store a)\<lparr>gwallets := (pre @ [refilled_group plat pc now s os w]) @ suf\<rparr>"
proof (cases "group_fires plat now s os w")
  case False
  then show ?thesis using assms
    by (auto simp: group_body_def refill_group_def Let_def group_body_iv group_fires_def
        refilled_group_off gwallets_update_same split: option.splits)
next
  case True
  then obtain oid where oid: "org_of_wallet s (w_group w) = Some oid" "0 < w_recurring w"
    "due (w_cycle w) (group_iv plat os oid w) now"
    by (auto simp: group_fires_def split: option.splits)
  have m: "boundary_crossed (ra_org_carry a oid) (ra_org_cycle a oid) since = org_reset os oid since" for since
    using assms(3) by (simp add: maps_ok_def reset_on_row)
  have "upd_row w_group (w_group w) f (pre @ w # suf) = pre @ f w # suf" for f
    using assms(1) by (intro upd_row_here) auto
  then show ?thesis using assms oid True
    by (simp add: group_body_def refill_group_def Let_def group_body_iv refilled_group_def m
        group_wiped_def upd_group_def)
qed

lemma group_stage_store:
  assumes "distinct (map w_group (pre @ suf))" "gwallets (ra_store a) = pre @ suf" "maps_ok plat os a"
  shows "ra_store (foldl (group_body plat pc now s) a suf) =
      (ra_store a)\<lparr>gwallets := pre @ map (refilled_group plat pc now s os) suf\<rparr> \<and>
    ra_n (foldl (group_body plat pc now s) a suf) = ra_n a + length (filter (group_fires plat now s os) suf) \<and>
    maps_ok plat os (foldl (group_body plat pc now s) a suf)"
  using assms
proof (induction suf arbitrary: pre a)
  case Nil
  then show ?case by (simp add: gwallets_update_same)
next
  case (Cons w suf)
  note b = group_body_store [OF Cons.prems, of pc now s] group_body_maps(3,4) [OF Cons.prems(3), of pc now s w]
  have "distinct (map w_group ((pre @ [refilled_group plat pc now s os w]) @ suf))"
    using Cons.prems(1) by simp
  moreover have "gwallets (ra_store (group_body plat pc now s a w)) =
      (pre @ [refilled_group plat pc now s os w]) @ suf"
    by (simp add: b(1))
  ultimately show ?case
    using b Cons.IH [of "pre @ [refilled_group plat pc now s os w]" "group_body plat pc now s a w"]
    by (auto simp del: append_assoc)
qed

definition on_group :: "store \<Rightarrow> int \<Rightarrow> group_wallet list \<Rightarrow> (group_wallet \<Rightarrow> 'a) \<Rightarrow> 'a \<Rightarrow> 'a" where
  "on_group s g ws f d =
     (case row_of w_group g ws of None \<Rightarrow> d
      | Some w \<Rightarrow> if 0 < w_recurring w \<and> org_of_wallet s g \<noteq> None then f w else d)"

lemma group_stage_maps:
  assumes "distinct (map w_group ws)" "maps_ok plat os a"
  shows "ra_grp_cycle (foldl (group_body plat pc now s) a ws) g =
      on_group s g ws (\<lambda>w. w_cycle (refilled_group plat pc now s os w)) (ra_grp_cycle a g)"
    "ra_grp_carry (foldl (group_body plat pc now s) a ws) g = on_group s g ws w_carry (ra_grp_carry a g)"
  using assms
proof (induction ws arbitrary: a)
  case (Cons w ws)
  have none: "row_of w_group (w_group w) ws = None" if "distinct (map w_group (w # ws))"
    using that by (auto simp: row_of_None)
  { case 1 then show ?case using Cons.IH(1) [of "group_body plat pc now s a w"] none
      by (auto simp: on_group_def group_body_maps split: option.split) }
  { case 2 then show ?case using Cons.IH(2) [of "group_body plat pc now s a w"] none
      by (auto simp: on_group_def group_body_maps split: option.split) }
qed (simp_all add: on_group_def)

lemma reset_on_group:
  "boundary_crossed (on_group s g ws w_carry False)
     (on_group s g ws (\<lambda>w. w_cycle (refilled_group plat pc now s os w)) None) since =
   group_reset s (map (refilled_group plat pc now s os) ws) g since"
  by (auto simp: on_group_def group_reset_def row_of_map boundary_crossed_def split: option.split)

definition user_body ::
  "platform_refill \<Rightarrow> time option \<Rightarrow> time \<Rightarrow> store \<Rightarrow> refill_acc \<Rightarrow> user_wallet \<Rightarrow> refill_acc" where
  "user_body plat pc now s a w =
     (case org_of_wallet s (u_group w) of None \<Rightarrow> a
      | Some oid \<Rightarrow> if 0 < u_recurring w then refill_user plat pc now a (w, oid) else a)"

definition resets_ok :: "store \<Rightarrow> group_wallet list \<Rightarrow> refill_acc \<Rightarrow> bool" where
  "resets_ok s gs a \<longleftrightarrow>
     (\<forall>g since. boundary_crossed (ra_grp_carry a g) (ra_grp_cycle a g) since = group_reset s gs g since)"

lemma user_body_step:
  assumes "distinct (map u_key (pre @ w # suf))" "uwallets (ra_store a) = pre @ w # suf"
    "maps_ok plat os a" "resets_ok s gs a"
  shows "user_body plat pc now s a w =
    (if user_fires plat now s w
     then a\<lparr>ra_store := (ra_store a)\<lparr>uwallets := (pre @ [refilled_user plat pc now s os gs w]) @ suf,
              utxs := utxs (ra_store a) @ [recharge_tx (refilled_user plat pc now s os gs w)]\<rparr>,
            ra_n := ra_n a + 1\<rparr>
     else a)"
proof -
  have u: "upd_row u_key (u_user w, u_group w) f (pre @ w # suf) = pre @ f w # suf" for f
  proof -
    have "upd_row u_key (u_key w) f (pre @ w # suf) = pre @ f w # suf"
      using assms(1) by (intro upd_row_here) auto
    then show ?thesis by (simp add: u_key_def)
  qed
  show ?thesis
    using assms
    by (auto simp: user_body_def refill_user_def Let_def user_iv_def user_fires_def refilled_user_def
        user_wiped_def maps_ok_reset resets_ok_def recharge_tx_def log_user_def upd_user_def u
        split: option.split)
qed

lemma user_stage:
  assumes "distinct (map u_key (pre @ suf))" "uwallets (ra_store a) = pre @ suf"
    "maps_ok plat os a" "resets_ok s gs a"
  shows "ra_store (foldl (user_body plat pc now s) a suf) =
      (ra_store a)\<lparr>uwallets := pre @ map (refilled_user plat pc now s os gs) suf,
         utxs := utxs (ra_store a) @ map (\<lambda>w. recharge_tx (refilled_user plat pc now s os gs w))
                   (filter (user_fires plat now s) suf)\<rparr> \<and>
    ra_n (foldl (user_body plat pc now s) a suf) = ra_n a + length (filter (user_fires plat now s) suf)"
  using assms
proof (induction suf arbitrary: pre a)
  case Nil
  have "s'\<lparr>uwallets := uwallets s', utxs := utxs s'\<rparr> = s'" for s' :: store by simp
  with Nil show ?case by (metis append_Nil2 foldl_Nil filter.simps(1) list.size(3) add_0_right list.map(1))
next
  case (Cons w suf)
  let ?R = "refilled_user plat pc now s os gs"
  let ?b = "user_body plat pc now s a w"
  note b = user_body_step [OF Cons.prems, of pc now]
  have off: "\<not> user_fires plat now s w \<Longrightarrow> ?R w = w" by (simp add: refilled_user_def)
  have "distinct (map u_key ((pre @ [?R w]) @ suf))" using Cons.prems(1) by simp
  moreover have "uwallets (ra_store ?b) = (pre @ [?R w]) @ suf"
    using Cons.prems(2) by (simp add: b off)
  moreover have "maps_ok plat os ?b" "resets_ok s gs ?b"
    using Cons.prems(3,4) by (simp_all add: b resets_ok_def)
  ultimately have ih: "ra_store (foldl (user_body plat pc now s) ?b suf) =
      (ra_store ?b)\<lparr>uwallets := (pre @ [?R w]) @ map ?R suf,
         utxs := utxs (ra_store ?b) @ map (\<lambda>w. recharge_tx (?R w)) (filter (user_fires plat now s) suf)\<rparr> \<and>
    ra_n (foldl (user_body plat pc now s) ?b suf) = ra_n ?b + length (filter (user_fires plat now s) suf)"
    by (rule Cons.IH)
  show ?case
  proof (cases "user_fires plat now s w")
    case True
    then show ?thesis using ih by (simp add: b)
  next
    case False
    then have "?b = a" by (simp add: b)
    with ih False show ?thesis by (simp add: off)
  qed
qed

text \<open>The three loops together.\<close>

lemma org_loop: "foldl (refill_org plat pc now) a (org_rows s) = foldl (org_body plat pc now) a (orgs s)"
  by (simp add: org_rows_def foldl_filter org_body_def [abs_def] org_on_def)

lemma group_loop:
  "foldl (refill_group plat pc now) a (group_rows s) = foldl (group_body plat pc now s) a (gwallets s)"
  unfolding group_rows_def foldl_map_filter
  by (rule arg_cong [where f = "\<lambda>f. foldl f a (gwallets s)"])
    (auto simp: group_body_def fun_eq_iff split: option.split)

lemma user_loop:
  "foldl (refill_user plat pc now) a (user_rows s) = foldl (user_body plat pc now s) a (uwallets s)"
  unfolding user_rows_def foldl_map_filter
  by (rule arg_cong [where f = "\<lambda>f. foldl f a (uwallets s)"])
    (auto simp: user_body_def fun_eq_iff split: option.split)

lemma refill_platform_eq: "refill_platform plat now s = s\<lparr>plat_cycle := new_pc plat now s\<rparr>"
  by (simp add: refill_platform_def new_pc_def)

lemma spec_cong:
  assumes "groups s' = groups s"
  shows "group_body plat pc now s' = group_body plat pc now s"
    "user_body plat pc now s' = user_body plat pc now s"
  using assms by (simp_all add: group_body_def user_body_def org_of_wallet_def fun_eq_iff)

lemma refill_due_eq_spec:
  assumes "keyed s"
  shows "refill_due True plat now s = (fst (refill_spec plat now s), Some (snd (refill_spec plat now s)))"
proof -
  define pc where "pc = new_pc plat now s"
  define s0 where "s0 = s\<lparr>plat_cycle := pc\<rparr>"
  define os where "os = map (refilled_org plat pc now) (orgs s)"
  define gs where "gs = map (refilled_group plat pc now s os) (gwallets s)"
  define a1 where "a1 = foldl (org_body plat pc now) (start_acc s0) (orgs s)"
  define a2 where "a2 = foldl (group_body plat pc now s) a1 (gwallets s)"
  define a3 where "a3 = foldl (user_body plat pc now s) a2 (uwallets s)"
  have d: "distinct (map o_id (orgs s))" "distinct (map w_group (gwallets s))" "distinct (map u_key (uwallets s))"
    using assms by (simp_all add: keyed_def keys_distinct_def)
  have s1: "ra_store a1 = s0\<lparr>orgs := os\<rparr>" "ra_n a1 = length (filter (org_fires plat now) (orgs s))"
    using org_stage_store [of "[]" "orgs s" "start_acc s0" plat pc now] d
    by (simp_all add: a1_def start_acc_def s0_def os_def)
  have m1: "maps_ok plat os a1"
    unfolding maps_ok_def a1_def org_stage_maps(1-3) [OF d(1)]
    by (simp add: start_acc_def os_def on_row_refilled [symmetric])
  have g1: "ra_grp_cycle a1 = (\<lambda>_. None)" "ra_grp_carry a1 = (\<lambda>_. False)"
    by (simp_all add: a1_def org_stage_maps(4,5) [OF d(1)] start_acc_def)
  have s2: "ra_store a2 = s0\<lparr>orgs := os, gwallets := gs\<rparr>" "maps_ok plat os a2"
    "ra_n a2 = ra_n a1 + length (filter (group_fires plat now s os) (gwallets s))"
    using group_stage_store [of "[]" "gwallets s" a1 plat os pc now s] d m1
    by (simp_all add: a2_def s1 s0_def gs_def)
  have r2: "resets_ok s gs a2"
    unfolding resets_ok_def a2_def group_stage_maps [OF d(2) m1] g1
    by (simp add: reset_on_group gs_def)
  have s3: "ra_store a3 = s0\<lparr>orgs := os, gwallets := gs,
        uwallets := map (refilled_user plat pc now s os gs) (uwallets s),
        utxs := utxs s @ map (\<lambda>w. recharge_tx (refilled_user plat pc now s os gs w))
                           (filter (user_fires plat now s) (uwallets s))\<rparr>"
    "ra_n a3 = ra_n a2 + length (filter (user_fires plat now s) (uwallets s))"
    using user_stage [of "[]" "uwallets s" a2 plat os s gs pc now] d s2 r2
    by (simp_all add: a3_def s0_def)
  have l1: "foldl (refill_org plat pc now) (start_acc s0) (org_rows s0) = a1"
    by (simp add: org_loop a1_def s0_def)
  have l2: "foldl (refill_group plat pc now) a1 (group_rows (ra_store a1)) = a2"
    using spec_cong(1) [of "ra_store a1" s] by (simp add: group_loop a2_def s1 s0_def)
  have l3: "foldl (refill_user plat pc now) a2 (user_rows (ra_store a2)) = a3"
    using spec_cong(2) [of "ra_store a2" s] by (simp add: user_loop a3_def s2 s0_def)
  have p: "refill_platform plat now s = s0" "plat_cycle s0 = pc"
    by (simp_all add: refill_platform_eq s0_def pc_def)
  have "refill_due True plat now s = (ra_store a3, Some (ra_n a3))"
    by (simp add: refill_due_def Let_def p l1 l2 l3)
  then show ?thesis
    by (simp add: s3 s2 s1 refill_spec_def Let_def s0_def pc_def os_def gs_def)
qed

section \<open>After the job\<close>

lemma due_now [simp]: "\<not> due (Some now) iv now"
  by (simp add: due_def)

lemma org_fires_after [simp]: "\<not> org_fires plat now (refilled_org plat pc now r)"
  by (cases "org_fires plat now r") (simp_all add: refilled_org_def org_fires_def)

lemma group_fires_after:
  assumes "groups s' = groups s"
  shows "\<not> group_fires plat now s' os (refilled_group plat pc now s os w)"
  by (cases "group_fires plat now s os w")
    (auto simp: refilled_group_def group_fires_def org_of_wallet_cong [OF assms] split: option.splits)

lemma user_fires_after:
  assumes "groups s' = groups s"
  shows "\<not> user_fires plat now s' (refilled_user plat pc now s os gs w)"
  by (cases "user_fires plat now s w")
    (auto simp: refilled_user_def user_fires_def org_of_wallet_cong [OF assms])

lemma new_pc_after: "plat_cycle s' = new_pc plat now s \<Longrightarrow> new_pc plat now s' = plat_cycle s'"
  by (simp add: new_pc_def)

text \<open>A store on which nothing fires is left alone.\<close>

lemma refill_spec_quiet:
  assumes "new_pc plat now s = plat_cycle s" "\<forall>r \<in> set (orgs s). \<not> org_fires plat now r"
    "\<forall>w \<in> set (gwallets s). \<not> group_fires plat now s (orgs s) w"
    "\<forall>w \<in> set (uwallets s). \<not> user_fires plat now s w"
  shows "refill_spec plat now s = (s, 0)"
proof -
  have "map (refilled_org plat pc now) (orgs s) = orgs s" for pc
    using assms(2) by (intro map_idI) (simp add: refilled_org_def)
  moreover have "map (refilled_group plat pc now s (orgs s)) (gwallets s) = gwallets s" for pc
    using assms(3) by (intro map_idI) (simp add: refilled_group_def)
  moreover have "map (refilled_user plat pc now s os gs) (uwallets s) = uwallets s" for pc os gs
    using assms(4) by (intro map_idI) (simp add: refilled_user_def)
  moreover have "filter (org_fires plat now) (orgs s) = []" "filter (user_fires plat now s) (uwallets s) = []"
    "filter (group_fires plat now s (orgs s)) (gwallets s) = []"
    using assms by (simp_all add: filter_empty_conv)
  ultimately show ?thesis using assms(1) by (simp add: refill_spec_def Let_def)
qed

lemma refill_spec_frame [frame]:
  "groups (fst (refill_spec plat now s)) = groups s" "members (fst (refill_spec plat now s)) = members s"
  "gtxs (fst (refill_spec plat now s)) = gtxs s"
  by (simp_all add: refill_spec_def Let_def)

lemma keyed_refill_spec: "keyed s \<Longrightarrow> keyed (fst (refill_spec plat now s))"
  by (simp add: keyed_def keys_distinct_def refill_spec_def Let_def comp_def)

lemma refill_spec_twice: "refill_spec plat now (fst (refill_spec plat now s)) = (fst (refill_spec plat now s), 0)"
proof (rule refill_spec_quiet)
  let ?s = "fst (refill_spec plat now s)"
  let ?os = "map (refilled_org plat (new_pc plat now s) now) (orgs s)"
  have e: "plat_cycle ?s = new_pc plat now s" "orgs ?s = ?os"
    "gwallets ?s = map (refilled_group plat (new_pc plat now s) now s ?os) (gwallets s)"
    "uwallets ?s = map (refilled_user plat (new_pc plat now s) now s ?os (gwallets ?s)) (uwallets s)"
    by (simp_all add: refill_spec_def Let_def)
  show "new_pc plat now ?s = plat_cycle ?s" by (rule new_pc_after) (rule e)
  show "\<forall>r \<in> set (orgs ?s). \<not> org_fires plat now r" by (auto simp: e)
  show "\<forall>w \<in> set (gwallets ?s). \<not> group_fires plat now ?s (orgs ?s) w"
    using group_fires_after [OF refill_spec_frame(1)] by (auto simp: e(2,3))
  show "\<forall>w \<in> set (uwallets ?s). \<not> user_fires plat now ?s w"
    using user_fires_after [OF refill_spec_frame(1)] unfolding e(4) by auto
qed

text \<open>Balances and ledger rows move together.\<close>

lemma balance_of_map_user:
  assumes "uwallets s' = map f (uwallets s)" "\<And>w. u_key (f w) = u_key w"
  shows "balance_of s' u g =
    (case row_of u_key (u, g) (uwallets s) of None \<Rightarrow> 0 | Some w \<Rightarrow> u_balance (f w))"
  using assms by (simp add: balance_of_def row_of_map split: option.split)

lemma last_after_recharges:
  assumes "utxs s' = utxs s @ map (\<lambda>w. recharge_tx (f w)) (filter P ws)"
    "\<And>w. u_key (f w) = u_key w" "distinct (map u_key ws)"
  shows "last_after s' u g =
    (case row_of u_key (u, g) ws of None \<Rightarrow> last_after s u g
     | Some w \<Rightarrow> if P w then Some (u_balance (f w)) else last_after s u g)"
  using assms(1,3)
proof (induction ws arbitrary: s' rule: rev_induct)
  case (snoc w ws)
  have key: "u_user (f w) = u_user w" "u_group (f w) = u_group w"
    using assms(2) [of w] by (simp_all add: u_key_def)
  define s1 where "s1 = s'\<lparr>utxs := utxs s @ map (\<lambda>w. recharge_tx (f w)) (filter P ws)\<rparr>"
  have ih: "last_after s1 u g = (case row_of u_key (u, g) ws of None \<Rightarrow> last_after s u g
     | Some w \<Rightarrow> if P w then Some (u_balance (f w)) else last_after s u g)"
    using snoc.prems(2) by (intro snoc.IH) (simp_all add: s1_def)
  have none: "row_of u_key (u_key w) ws = None" using snoc.prems(2) by (simp add: row_of_None)
  show ?case
  proof (cases "P w")
    case True
    then have "utxs s' = utxs s1 @ [recharge_tx (f w)]" using snoc.prems(1) by (simp add: s1_def)
    note l = last_after_log [OF this]
    have "u_key w = (u, g) \<longleftrightarrow> u_user w = u \<and> u_group w = g" by (simp add: u_key_def)
    then show ?thesis using none
      by (auto simp: l ih key recharge_tx_def row_of_append True split: option.split)
  next
    case False
    then have "last_after s' u g = last_after s1 u g"
      using snoc.prems(1) by (simp add: s1_def last_after_def)
    then show ?thesis using False none by (auto simp: ih row_of_append split: option.split)
  qed
qed (simp add: last_after_def)

lemma synced_refill_spec:
  assumes "keyed s" "synced s"
  shows "synced (fst (refill_spec plat now s))"
proof -
  let ?s = "fst (refill_spec plat now s)"
  obtain f where f: "uwallets ?s = map f (uwallets s)" "\<And>w. u_key (f w) = u_key w"
      "\<And>w. \<not> user_fires plat now s w \<Longrightarrow> f w = w"
      "utxs ?s = utxs s @ map (\<lambda>w. recharge_tx (f w)) (filter (user_fires plat now s) (uwallets s))"
    by (rule that [of "refilled_user plat (new_pc plat now s) now s
          (map (refilled_org plat (new_pc plat now s) now) (orgs s))
          (map (refilled_group plat (new_pc plat now s) now s
             (map (refilled_org plat (new_pc plat now s) now) (orgs s))) (gwallets s))"])
      (simp_all add: refill_spec_def Let_def refilled_user_def)
  have d: "distinct (map u_key (uwallets s))" using assms(1) by (simp add: keyed_def keys_distinct_def)
  have "balance_of ?s u g = (case last_after ?s u g of None \<Rightarrow> 0 | Some b \<Rightarrow> b)" for u g
  proof -
    have "balance_of s u g = (case last_after s u g of None \<Rightarrow> 0 | Some b \<Rightarrow> b)"
      using assms(2) by (simp add: synced_def)
    then show ?thesis
      unfolding balance_of_map_user [OF f(1,2)] last_after_recharges [OF f(4,2) d]
      by (cases "row_of u_key (u, g) (uwallets s)") (auto simp: balance_of_def f(3))
  qed
  then show ?thesis by (simp add: synced_def)
qed

section \<open>Properties\<close>

definition sample_store :: store where
  "sample_store =
     \<lparr>orgs = [\<lparr>o_id = 1, o_name = ''lab'', o_display = ''Lab'', o_pool = 100, o_recurring = 50,
               o_interval = 0, o_carry = True, o_cycle = Some 0, o_default_budget = 0,
               o_status = ''active''\<rparr>],
      groups = [\<lparr>g_id = 7, g_org = 1, g_status = ''active''\<rparr>],
      members = [\<lparr>m_id = 1, m_group = 7, m_user = 3, m_role = ''member'', m_consumed = 0,
                  m_status = ''active''\<rparr>],
      uwallets = [\<lparr>u_user = 3, u_group = 7, u_balance = 40, u_reserved = 0, u_cap = 0,
                   u_cycle = Some 0, u_recurring = 20, u_interval = 0, u_carry = True\<rparr>],
      gwallets = [\<lparr>w_group = 7, w_balance = 60, w_reserved = 0, w_budget_cap = 0, w_alert_pct = 80,
                   w_default_member = 0, w_recurring = 30, w_interval = 7, w_carry = False,
                   w_cycle = Some 0\<rparr>],
      utxs = [\<lparr>x_user = 3, x_group = 7, x_type = TxTopup, x_amount = 40, x_after = 40,
               x_label = Reason ''start'', x_ref = None, x_actor = None\<rparr>],
      gtxs = [], plat_cycle = Some 0\<rparr>"

definition monthly :: platform_refill where
  "monthly = \<lparr>pr_interval = 30, pr_carry = True\<rparr>"

definition month_later :: time where
  "month_later = 31 * day"

lemma sample_keyed: "keyed sample_store"
  by (simp add: keyed_def keys_distinct_def sample_store_def u_key_def)

text \<open>C13: \<open>RefillDue\<close>, with its three nested loops, its maps of cycles and its early exits, is the
  specification \<open>refill_spec\<close>: each organisation, group and member pool whose interval has
  elapsed is set to its recurring amount, or has it added when the pool and every pool above it
  that was reset since carry over; every other row and the clock of pools not due stay; each
  member refill leaves a ledger row; and the number of refilled pools is returned.\<close>

theorem refill_job_meets_spec:
  assumes "keyed s"
  shows "refill_due True plat now s = (fst (refill_spec plat now s), Some (snd (refill_spec plat now s)))"
  using assms by (rule refill_due_eq_spec)

theorem refill_job_meets_spec_witness:
  "snd (refill_due True monthly month_later sample_store) = Some 3 \<and>
   balance_of (fst (refill_due True monthly month_later sample_store)) 3 7 = 20 \<and>
   group_balance (fst (refill_due True monthly month_later sample_store)) 7 = 30 \<and>
   pool_of (fst (refill_due True monthly month_later sample_store)) 1 = 150"
proof -
  have e: "snd (refill_spec monthly month_later sample_store) = 3"
    "balance_of (fst (refill_spec monthly month_later sample_store)) 3 7 = 20"
    "group_balance (fst (refill_spec monthly month_later sample_store)) 7 = 30"
    "pool_of (fst (refill_spec monthly month_later sample_store)) 1 = 150"
    by code_simp+
  show ?thesis
    unfolding refill_job_meets_spec [OF sample_keyed] by (simp add: e)
qed

text \<open>running the refill job again at the same instant refills nothing and changes nothing:
  no pool is paid twice for one period.\<close>

theorem refill_job_idempotent:
  assumes "keyed s" "refill_due True plat now s = (s', Some n)"
  shows "refill_due True plat now s' = (s', Some 0)"
proof -
  have s': "s' = fst (refill_spec plat now s)"
    using assms by (simp add: refill_due_eq_spec)
  have "keyed s'" unfolding s' using assms(1) by (rule keyed_refill_spec)
  then show ?thesis by (simp add: refill_due_eq_spec) (simp add: s' refill_spec_twice)
qed

theorem refill_job_idempotent_witness:
  "\<exists>s'. refill_due True monthly month_later sample_store = (s', Some 3) \<and>
        refill_due True monthly month_later s' = (s', Some 0)"
proof -
  have n: "snd (refill_due True monthly month_later sample_store) = Some 3" by code_simp
  obtain s' where e: "refill_due True monthly month_later sample_store = (s', Some 3)"
    using n by (cases "refill_due True monthly month_later sample_store") simp
  show ?thesis using e refill_job_idempotent [OF sample_keyed e] by blast
qed

text \<open>the carry-over rule from the top down. When a member's own pool is due, its unspent
  credit survives exactly when it carries over and none of platform, organisation and team, each
  with the cycle it has after the job, is a non-carrying pool reset after the member's last
  refill; the ledger's newest row of the wallet records the new balance.\<close>

theorem member_refill_outcome:
  assumes "keyed s" "refill_due True plat now s = (s', Some n)"
    and "row_of u_key (u, g) (uwallets s) = Some w" "row_of g_id g (groups s) = Some gr"
    and "0 < u_recurring w" "due (u_cycle w) (user_iv plat w) now"
  shows "balance_of s' u g =
      (if u_carry w \<and>
          \<not> boundary_crossed (pr_carry plat) (plat_cycle s') (since_of (u_cycle w)) \<and>
          \<not> org_reset (orgs s') (g_org gr) (since_of (u_cycle w)) \<and>
          \<not> group_reset s' (gwallets s') g (since_of (u_cycle w))
       then u_balance w + u_recurring w else u_recurring w) \<and>
    last_after s' u g = Some (balance_of s' u g)"
proof -
  have s': "s' = fst (refill_spec plat now s)" using assms(1,2) by (simp add: refill_due_eq_spec)
  have k: "u_user w = u" "u_group w = g" using row_of_Some [OF assms(3)] by (auto simp: u_key_def)
  have g': "groups s' = groups s" by (simp add: s' frame)
  let ?R = "refilled_user plat (plat_cycle s') now s (orgs s') (gwallets s')"
  have u: "uwallets s' = map ?R (uwallets s)"
    and x: "utxs s' = utxs s @ map (\<lambda>w. recharge_tx (?R w)) (filter (user_fires plat now s) (uwallets s))"
    by (simp_all add: s' refill_spec_def Let_def)
  have d: "distinct (map u_key (uwallets s))" using assms(1) by (simp add: keyed_def keys_distinct_def)
  have f: "user_fires plat now s w" using assms(4-6) k by (simp add: user_fires_def org_of_wallet_def)
  have b: "balance_of s' u g = u_balance (?R w)"
    using balance_of_map_user [OF u] assms(3) by simp
  have l: "last_after s' u g = Some (u_balance (?R w))"
    using last_after_recharges [OF x _ d] assms(3) f by simp
  have gr: "group_reset s' (gwallets s') g t = group_reset s (gwallets s') g t" for t
    by (simp add: group_reset_def org_of_wallet_cong [OF g'] split: option.split)
  show ?thesis
    using f assms(4) by (simp add: b l gr refilled_user_def user_wiped_def k org_of_wallet_def)
qed

theorem member_refill_outcome_witness:
  "\<exists>s'. refill_due True monthly month_later sample_store = (s', Some 3) \<and> balance_of s' 3 7 = 20 \<and>
        last_after s' 3 7 = Some 20"
proof -
  have n: "snd (refill_due True monthly month_later sample_store) = Some 3" by code_simp
  obtain s' where e: "refill_due True monthly month_later sample_store = (s', Some 3)"
    using n by (cases "refill_due True monthly month_later sample_store") simp
  have r: "group_reset (fst (refill_due True monthly month_later sample_store))
      (gwallets (fst (refill_due True monthly month_later sample_store))) 7 (since_of (Some 0))"
    by code_simp
  have h: "row_of u_key (3, 7) (uwallets sample_store) = Some (hd (uwallets sample_store))"
    "row_of g_id 7 (groups sample_store) = Some (hd (groups sample_store))"
    "0 < u_recurring (hd (uwallets sample_store))" "u_recurring (hd (uwallets sample_store)) = 20"
    "due (u_cycle (hd (uwallets sample_store))) (user_iv monthly (hd (uwallets sample_store))) month_later"
    "u_cycle (hd (uwallets sample_store)) = Some 0"
    by code_simp+
  show ?thesis
    using member_refill_outcome [OF sample_keyed e h(1,2,3,5)] r by (simp add: e h(4,6))
qed

end
