(* ===== verification/Wallet_Service.thy ===== *)
theory Wallet_Service
  imports Refill_Spec
begin

text \<open>
  \<open>wallet.Service\<close> (\<open>internal/wallet/service.go\<close>): the representative group, refill settings
  with their caps, top-ups paid from the organisation pool, allocations down the hierarchy, and
  \<open>Consume\<close>, which makes the service the charger of sessions and volumes. The credit pool is
  the interface of \<open>Credit_Store\<close>, interpreted by \<open>Org\<close>.
\<close>

section \<open>Configuration\<close>

record wallet_svc =
  ws_pool :: "store pool_ops option"
  ws_plat :: "int option"

definition plat_default :: "wallet_svc \<Rightarrow> int" where
  "plat_default sv = (case ws_plat sv of None \<Rightarrow> 30 | Some v \<Rightarrow> if 0 < v then v else 30)"

definition resolve_group_id :: "wallet_svc \<Rightarrow> store \<Rightarrow> int \<Rightarrow> int \<Rightarrow> int" where
  "resolve_group_id sv s u g =
     (if 0 < g then g
      else (case ws_pool sv of None \<Rightarrow> 0
            | Some p \<Rightarrow> (case p_group_of_user p u s of None \<Rightarrow> 0 | Some x \<Rightarrow> x)))"

section \<open>Refill settings\<close>

definition svc_set_group_refill ::
  "wallet_db \<Rightarrow> wallet_svc \<Rightarrow> int \<Rightarrow> int \<Rightarrow> int \<Rightarrow> bool \<Rightarrow> store \<Rightarrow> store \<times> bool" where
  "svc_set_group_refill ok sv g recurring iv carry s =
     (let cap = group_refill_cap ok s g (plat_default sv)
      in set_group_refill ok g recurring (if 0 < cap \<and> cap < iv then cap else iv) carry s)"

definition svc_set_user_refill ::
  "wallet_db \<Rightarrow> wallet_svc \<Rightarrow> int \<Rightarrow> int \<Rightarrow> int \<Rightarrow> int \<Rightarrow> bool \<Rightarrow> store \<Rightarrow> store \<times> bool" where
  "svc_set_user_refill ok sv u g recurring iv carry s =
     (let cap = user_refill_cap ok s g (plat_default sv)
      in set_user_refill ok u g recurring (if 0 < cap \<and> cap < iv then cap else iv) carry s)"

definition next_refill :: "time \<Rightarrow> int \<Rightarrow> int \<Rightarrow> time option \<Rightarrow> time option" where
  "next_refill now recurring iv cycle =
     (if recurring \<le> 0 \<or> iv \<le> 0 then None
      else (case cycle of None \<Rightarrow> Some now | Some c \<Rightarrow> Some (c + iv * day)))"

text \<open>The part of \<open>MyWallet\<close> that is not a listing: the wallet row and its next refill.\<close>

definition my_wallet ::
  "wallet_db \<Rightarrow> wallet_svc \<Rightarrow> time \<Rightarrow> int \<Rightarrow> int \<Rightarrow> store \<Rightarrow> store \<times> (user_wallet \<times> time option) option"
where
  "my_wallet ok sv now u g0 s =
     (let g = resolve_group_id sv s u g0
      in case user_wallet_of ok u g s of
           (s1, None) \<Rightarrow> (s1, None)
         | (s1, Some w) \<Rightarrow>
             (let eff = (if u_interval w \<le> 0 then user_refill_cap ok s1 g (plat_default sv) else u_interval w)
              in (s1, Some (w, next_refill now (u_recurring w) eff (u_cycle w)))))"

definition svc_group_wallet ::
  "wallet_db \<Rightarrow> wallet_svc \<Rightarrow> time \<Rightarrow> int \<Rightarrow> store \<Rightarrow> store \<times> (group_wallet \<times> time option) option" where
  "svc_group_wallet ok sv now g s =
     (case group_wallet_of ok g s of
        (s1, None) \<Rightarrow> (s1, None)
      | (s1, Some w) \<Rightarrow>
          (let eff = (if w_interval w \<le> 0 then group_refill_cap ok s1 g (plat_default sv) else w_interval w)
           in (s1, Some (w, next_refill now (w_recurring w) eff (w_cycle w)))))"

definition or_pct :: "int \<Rightarrow> int" where
  "or_pct v = (if v \<le> 0 then 80 else v)"

definition svc_set_group_budget :: "wallet_db \<Rightarrow> int \<Rightarrow> int \<Rightarrow> int \<Rightarrow> store \<Rightarrow> store \<times> bool" where
  "svc_set_group_budget ok g cap pct s = set_group_budget ok g cap (or_pct pct) s"

text \<open>\<open>Balance\<close>: an error reads as zero.\<close>

definition svc_balance :: "wallet_db \<Rightarrow> wallet_svc \<Rightarrow> int \<Rightarrow> int \<Rightarrow> store \<Rightarrow> store \<times> int" where
  "svc_balance ok sv u g s =
     (case user_wallet_of ok u (resolve_group_id sv s u g) s of
        (s1, None) \<Rightarrow> (s1, 0) | (s1, Some w) \<Rightarrow> (s1, u_balance w))"

section \<open>Top-ups and allocations\<close>

datatype wallet_error = InsufficientPool | NoGroup | InsufficientGroupPool | WalletDbError

definition posted :: "store \<times> int option \<Rightarrow> store \<times> wallet_error option" where
  "posted p = (fst p, case snd p of None \<Rightarrow> Some WalletDbError | Some _ \<Rightarrow> None)"

definition credit_user ::
  "wallet_db \<Rightarrow> wallet_svc \<Rightarrow> int \<Rightarrow> int \<Rightarrow> int \<Rightarrow> string \<Rightarrow> int option \<Rightarrow> store
   \<Rightarrow> store \<times> wallet_error option" where
  "credit_user ok sv u g n desc actor s =
     (let (s1, r) = (case ws_pool sv of None \<Rightarrow> (s, Some True)
                     | Some p \<Rightarrow> if 0 < n then p_draw_user p u n s else (s, Some True))
      in case r of None \<Rightarrow> (s1, Some WalletDbError)
         | Some False \<Rightarrow> (s1, Some InsufficientPool)
         | Some True \<Rightarrow>
             posted (apply_user_tx ok u (resolve_group_id sv s1 u g) TxTopup n (Reason desc) [] actor s1))"

definition credit_group ::
  "wallet_db \<Rightarrow> wallet_svc \<Rightarrow> int \<Rightarrow> int \<Rightarrow> int option \<Rightarrow> store \<Rightarrow> store \<times> wallet_error option" where
  "credit_group ok sv g n actor s =
     (let (s1, r) = (case ws_pool sv of None \<Rightarrow> (s, Some True)
                     | Some p \<Rightarrow> if 0 < n then p_draw_group p g n s else (s, Some True))
      in case r of None \<Rightarrow> (s1, Some WalletDbError)
         | Some False \<Rightarrow> (s1, Some InsufficientPool)
         | Some True \<Rightarrow> posted (apply_group_tx ok g TxTopup n actor [] s1))"

definition allocate_group ::
  "wallet_db \<Rightarrow> wallet_svc \<Rightarrow> int \<Rightarrow> int \<Rightarrow> bool \<Rightarrow> int option \<Rightarrow> store \<Rightarrow> store \<times> wallet_error option" where
  "allocate_group ok sv g n super actor s =
     (if n \<le> 0 then (s, None)
      else
        (let (s1, e) =
           (case ws_pool sv of None \<Rightarrow> (s, None)
            | Some p \<Rightarrow>
                if super then
                  (let (s1, b) = p_add_group p g n s in (s1, if b then None else Some WalletDbError))
                else
                  (let (s1, r) = p_draw_group p g n s
                   in (s1, case r of None \<Rightarrow> Some WalletDbError
                           | Some b \<Rightarrow> if b then None else Some InsufficientPool)))
         in case e of Some x \<Rightarrow> (s1, Some x)
            | None \<Rightarrow> posted (apply_group_tx ok g TxTopup n actor [] s1)))"

definition allocate_user ::
  "wallet_db \<Rightarrow> wallet_svc \<Rightarrow> int \<Rightarrow> int \<Rightarrow> int \<Rightarrow> bool \<Rightarrow> string \<Rightarrow> int option \<Rightarrow> store
   \<Rightarrow> store \<times> wallet_error option" where
  "allocate_user ok sv u g0 n super desc actor s =
     (if n \<le> 0 then (s, None)
      else
        (let g = (if g0 \<le> 0 then resolve_group_id sv s u 0 else g0)
         in if g \<le> 0 then (s, Some NoGroup)
            else
              (let (s1, e) =
                 (case ws_pool sv of None \<Rightarrow> (s, None)
                  | Some p \<Rightarrow>
                      if super then
                        (let (s1, b) = p_add_user p u n s
                         in if \<not> b then (s1, Some WalletDbError)
                            else posted (apply_group_tx ok g TxTopup n actor [] s1))
                      else
                        (let (s1, r) = draw_group_tx ok g n actor s
                         in (s1, case r of None \<Rightarrow> Some WalletDbError
                                 | Some b \<Rightarrow> if b then None else Some InsufficientGroupPool)))
               in case e of Some x \<Rightarrow> (s1, Some x)
                  | None \<Rightarrow> posted (apply_user_tx ok u g TxTopup n (Reason desc) [] actor s1))))"

section \<open>Consumption\<close>

definition consume_label :: "string \<Rightarrow> tx_label" where
  "consume_label ref = (if has_prefix ''vol-'' ref then Storage ref else GpuUse ref)"

text \<open>The error of the showback update is dropped.\<close>

definition consume ::
  "wallet_db \<Rightarrow> wallet_svc \<Rightarrow> int \<Rightarrow> int \<Rightarrow> int \<Rightarrow> string \<Rightarrow> store \<Rightarrow> store \<times> charge" where
  "consume ok sv u g0 n ref s =
     (if n \<le> 0 then (s, COk)
      else
        (let g = resolve_group_id sv s u g0
         in case user_wallet_of ok u g s of
              (s1, None) \<Rightarrow> (s1, CErr)
            | (s1, Some w) \<Rightarrow>
                if u_balance w < n then (s1, CInsufficient)
                else (case apply_user_tx ok u g TxConsume (- n) (consume_label ref) ref None s1 of
                        (s2, None) \<Rightarrow> (s2, CErr)
                      | (s2, Some _) \<Rightarrow> (fst (add_member_consumed ok u g n s2), COk))))"

text \<open>The service as the charger of its clients; \<open>dbs\<close> gives the outcome of the statements
  issued for each reference.\<close>

definition wallet_charger :: "(string \<Rightarrow> wallet_db) \<Rightarrow> wallet_svc \<Rightarrow> store charger" where
  "wallet_charger dbs sv =
     \<lparr>ch_consume = (\<lambda>u g n ref s. consume (dbs ref) sv u g n ref s),
      ch_balance = (\<lambda>u g s. svc_balance (dbs []) sv u g s)\<rparr>"

section \<open>Facts\<close>

lemma spent_log:
  "utxs s' = utxs s @ [x] \<Longrightarrow>
   spent s' r = spent s r + (if x_ref x = null_if_empty r then - x_amount x else 0)"
  by (simp add: spent_def null_if_empty_def)

lemma null_if_empty_inj [simp]: "null_if_empty r = null_if_empty q \<longleftrightarrow> r = q"
  by (auto simp: null_if_empty_def)

text \<open>What \<open>Consume\<close> does, on each of its outcomes.\<close>

lemma consume_effect:
  assumes "consume ok sv u g0 n ref s = (s', c)" "0 < n"
  defines "g \<equiv> resolve_group_id sv s u g0"
  shows "balance_of s' u' g' = balance_of s u' g' - (if c = COk \<and> u' = u \<and> g' = g then n else 0)"
    "c = COk \<Longrightarrow> n \<le> balance_of s u g"
    "c = CInsufficient \<Longrightarrow> balance_of s u g < n"
    "utxs s' = utxs s @ (if c = COk then
       [\<lparr>x_user = u, x_group = g, x_type = TxConsume, x_amount = - n, x_after = balance_of s u g - n,
         x_label = consume_label ref, x_ref = null_if_empty ref, x_actor = None\<rparr>] else [])"
    "orgs s' = orgs s" "gwallets s' = gwallets s"
proof -
  obtain s1 r where w: "user_wallet_of ok u g s = (s1, r)" by (cases "user_wallet_of ok u g s")
  note e1 = user_wallet_of_effect [OF w]
  have "balance_of s' u' g' = balance_of s u' g' - (if c = COk \<and> u' = u \<and> g' = g then n else 0) \<and>
    (c = COk \<longrightarrow> n \<le> balance_of s u g) \<and> (c = CInsufficient \<longrightarrow> balance_of s u g < n) \<and>
    utxs s' = utxs s @ (if c = COk then
       [\<lparr>x_user = u, x_group = g, x_type = TxConsume, x_amount = - n, x_after = balance_of s u g - n,
         x_label = consume_label ref, x_ref = null_if_empty ref, x_actor = None\<rparr>] else []) \<and>
    orgs s' = orgs s \<and> gwallets s' = gwallets s"
  proof (cases r)
    case None
    then show ?thesis using assms w e1 by (auto simp: consume_def Let_def)
  next
    case (Some wl)
    then have b: "u_balance wl = balance_of s u g" using e1(8) by blast
    obtain s2 p where a: "apply_user_tx ok u g TxConsume (- n) (consume_label ref) ref None s1 = (s2, p)"
      by (cases "apply_user_tx ok u g TxConsume (- n) (consume_label ref) ref None s1")
    obtain s3 q where m: "add_member_consumed ok u g n s2 = (s3, q)"
      by (cases "add_member_consumed ok u g n s2")
    show ?thesis
    proof (cases "u_balance wl < n")
      case True
      then show ?thesis using assms w Some e1 b by (auto simp: consume_def Let_def)
    next
      case enough: False
      show ?thesis
      proof (cases p)
        case None
        then have "s2 = s1" "s' = s2" "c = CErr"
          using a apply_user_tx_failed assms w Some enough by (auto simp: consume_def Let_def)
        then show ?thesis using e1 by auto
      next
        case (Some b2)
        then have s': "s' = s3" "c = COk"
          using a m assms w \<open>r = Some wl\<close> enough by (auto simp: consume_def Let_def)
        note e2 = apply_user_tx_effect [OF a [unfolded Some]] and e3 = add_member_consumed_frame [OF m]
        show ?thesis
          using e1 e2 e3 enough b by (auto simp: s' balance_of_cong [OF e3(1)])
      qed
    qed
  qed
  then show "balance_of s' u' g' = balance_of s u' g' - (if c = COk \<and> u' = u \<and> g' = g then n else 0)"
    "c = COk \<Longrightarrow> n \<le> balance_of s u g" "c = CInsufficient \<Longrightarrow> balance_of s u g < n"
    "utxs s' = utxs s @ (if c = COk then
       [\<lparr>x_user = u, x_group = g, x_type = TxConsume, x_amount = - n, x_after = balance_of s u g - n,
         x_label = consume_label ref, x_ref = null_if_empty ref, x_actor = None\<rparr>] else [])"
    "orgs s' = orgs s" "gwallets s' = gwallets s"
    by blast+
qed

lemma svc_balance_effect:
  assumes "svc_balance ok sv u g s = (s', b)"
  shows "utxs s' = utxs s" "balance_of s' u' g' = balance_of s u' g'"
    "b = balance_of s u (resolve_group_id sv s u g) \<or> b = 0"
proof -
  obtain s1 r where w: "user_wallet_of ok u (resolve_group_id sv s u g) s = (s1, r)"
    by (cases "user_wallet_of ok u (resolve_group_id sv s u g) s")
  note e = user_wallet_of_effect [OF w]
  show "utxs s' = utxs s" "balance_of s' u' g' = balance_of s u' g'"
    "b = balance_of s u (resolve_group_id sv s u g) \<or> b = 0"
    using assms w e by (auto simp: svc_balance_def split: option.splits)
qed

text \<open>The wallet service keeps the charger's promise: what it charged under a reference is what
  the ledger says was spent under it.\<close>

interpretation wc: charging "wallet_charger dbs sv" spent for dbs sv
proof (unfold_locales, goal_cases)
  case (1 u g n ref w w' r)
  then show ?case
    using spent_log [OF consume_effect(4) [of "dbs ref" sv u g n ref w w' COk, simplified]]
    by (simp add: wallet_charger_def)
next
  case (2 u g n ref w w' c r)
  have "0 < n" using 2 by (cases "0 < n") (auto simp: wallet_charger_def consume_def)
  with 2 show ?case
    using consume_effect(4) [of "dbs ref" sv u g n ref w w' c] by (intro spent_cong) (simp add: wallet_charger_def)
next
  case (3 n u g ref w)
  then show ?case by (simp add: wallet_charger_def consume_def)
next
  case (4 u g w w' b r)
  then show ?case using svc_balance_effect(1) by (intro spent_cong) (auto simp: wallet_charger_def)
qed

section \<open>Moving credit down the hierarchy\<close>

lemma posted_cases: "posted p = (s', e) \<Longrightarrow> s' = fst p \<and> (e = None \<longleftrightarrow> snd p \<noteq> None) \<and> (e \<noteq> None \<longrightarrow> e = Some WalletDbError)"
  by (auto simp: posted_def split: option.splits)

context credit_pool
begin

text \<open>An organisation's grant to a group: what the group gains, the organisation's pool pays; a
  short pool moves nothing.\<close>

lemma allocate_group_moves:
  assumes "allocate_group ok \<lparr>ws_pool = Some P, ws_plat = pl\<rparr> g n False actor s = (s', e)" "0 < n"
  shows "e = None \<Longrightarrow> group_balance s' g' = group_balance s g' + (if g' = g then n else 0) \<and>
      pool_of s' i = pool_of s i - (if org_g s g = Some i then n else 0) \<and>
      (org_g s g = Some i \<longrightarrow> n \<le> pool_of s i)"
    "e = Some InsufficientPool \<Longrightarrow> s' = s"
    "uwallets s' = uwallets s" "utxs s' = utxs s"
proof -
  obtain s1 r where d: "p_draw_group P g n s = (s1, r)" by (cases "p_draw_group P g n s")
  obtain s2 b where a: "apply_group_tx ok g TxTopup n actor [] s1 = (s2, b)"
    by (cases "apply_group_tx ok g TxTopup n actor [] s1")
  note w = draw_group_wallets [OF d]
  have cases: "r = Some True \<and> s' = s2 \<and> (e = None \<longleftrightarrow> b \<noteq> None) \<and> e \<noteq> Some InsufficientPool \<or>
      r \<noteq> Some True \<and> s' = s1 \<and> e \<noteq> None"
    using assms d a by (auto simp: allocate_group_def posted_def Let_def split: option.splits if_splits)
  have tx: "uwallets s2 = uwallets s1" "utxs s2 = utxs s1"
    using apply_group_tx_effect(3,4) [of ok g TxTopup n actor "[]" s1 s2] apply_group_tx_failed a
    by (cases b; fastforce)+
  show "uwallets s' = uwallets s" "utxs s' = utxs s" using cases tx w by auto
  show "e = Some InsufficientPool \<Longrightarrow> s' = s" using cases draw_group_refused [OF d] by auto
  show "group_balance s' g' = group_balance s g' + (if g' = g then n else 0) \<and>
      pool_of s' i = pool_of s i - (if org_g s g = Some i then n else 0) \<and>
      (org_g s g = Some i \<longrightarrow> n \<le> pool_of s i)" if ok: "e = None"
  proof -
    from ok cases obtain b' where c: "r = Some True" "s' = s2" "b = Some b'" by auto
    note e = apply_group_tx_effect [OF a [unfolded c(3)]]
    show ?thesis
      using e draw_group_pool [OF d [unfolded c(1)], of i] draw_group_covered [OF d [unfolded c(1)], of i]
        group_balance_cong [of s1 s g'] pool_of_orgs [of s2 s1 i] w
      by (simp add: c(2))
  qed
qed

text \<open>A group manager's allocation to a member: group pool to member wallet.\<close>

lemma allocate_user_moves:
  assumes "allocate_user ok \<lparr>ws_pool = Some P, ws_plat = pl\<rparr> u g n False desc actor s = (s', e)"
    and "0 < n" "0 < g"
  shows "e = None \<Longrightarrow> group_balance s' g' = group_balance s g' - (if g' = g then n else 0) \<and>
      balance_of s' u' h = balance_of s u' h + (if u' = u \<and> h = g then n else 0) \<and>
      n \<le> group_balance s g"
    "e = Some InsufficientGroupPool \<Longrightarrow> group_balance s g < n \<and> group_balance s' g' = group_balance s g' \<and>
      balance_of s' u' h = balance_of s u' h"
    "orgs s' = orgs s"
proof -
  obtain s1 r where d: "draw_group_tx ok g n actor s = (s1, r)" by (cases "draw_group_tx ok g n actor s")
  obtain s2 b where a: "apply_user_tx ok u g TxTopup n (Reason desc) [] actor s1 = (s2, b)"
    by (cases "apply_user_tx ok u g TxTopup n (Reason desc) [] actor s1")
  note w = draw_group_tx_effect [OF d]
  have cases: "r = Some True \<and> s' = s2 \<and> (e = None \<longleftrightarrow> b \<noteq> None) \<and> e \<noteq> Some InsufficientGroupPool \<or>
      r \<noteq> Some True \<and> s' = s1 \<and> e \<noteq> None \<and> (e = Some InsufficientGroupPool \<longrightarrow> r = Some False)"
    using assms d a by (auto simp: allocate_user_def posted_def Let_def split: option.splits if_splits)
  have o2: "orgs s2 = orgs s1"
    using apply_user_tx_effect(4) [of ok u g TxTopup n "Reason desc" "[]" actor s1 s2] apply_user_tx_failed a
    by (cases b; fastforce)
  show "orgs s' = orgs s" using cases o2 w(6) by auto
  show "group_balance s g < n \<and> group_balance s' g' = group_balance s g' \<and> balance_of s' u' h = balance_of s u' h"
    if "e = Some InsufficientGroupPool"
    using that cases w(1,3) assms(2) balance_of_cong [OF w(4)] by auto
  show "group_balance s' g' = group_balance s g' - (if g' = g then n else 0) \<and>
      balance_of s' u' h = balance_of s u' h + (if u' = u \<and> h = g then n else 0) \<and>
      n \<le> group_balance s g" if ok: "e = None"
  proof -
    from ok cases obtain b' where c: "r = Some True" "s' = s2" "b = Some b'" by auto
    note e = apply_user_tx_effect [OF a [unfolded c(3)]]
    show ?thesis
      using e(2) [of u' h] w(1) [of g'] w(2) c(1) balance_of_cong [OF w(4), of u' h]
        group_balance_cong [OF e(7), of g'] by (simp add: c(2))
  qed
qed

end

end
