(* ===== verification/Wallet_Books.thy ===== *)
theory Wallet_Books
  imports Wallet_Service
begin

text \<open>
  The credit system as a state machine: every operation of the wallet service, the refill engine
  and the organisation grants is a step, and the books (unique keys, ledgers in step with
  balances, nothing below zero) are an invariant of what the steps reach.
\<close>

section \<open>The books\<close>

definition solvent :: "store \<Rightarrow> bool" where
  "solvent s \<longleftrightarrow> (\<forall>u g. 0 \<le> balance_of s u g) \<and> (\<forall>g. 0 \<le> group_balance s g) \<and> (\<forall>i. 0 \<le> pool_of s i)"

text \<open>\<open>lg\<close> and \<open>ps\<close> say whether the ledger and the signs are to be right as well.\<close>

definition books :: "bool \<Rightarrow> bool \<Rightarrow> store \<Rightarrow> bool" where
  "books lg ps s \<longleftrightarrow> keyed s \<and> (lg \<longrightarrow> synced s) \<and> (ps \<longrightarrow> solvent s)"

definition empty_store :: store where
  "empty_store = \<lparr>orgs = [], groups = [], members = [], uwallets = [], gwallets = [], utxs = [],
     gtxs = [], plat_cycle = None\<rparr>"

definition live_svc :: "org_db \<Rightarrow> int option \<Rightarrow> wallet_svc" where
  "live_svc odb pl = \<lparr>ws_pool = Some (org_pool odb), ws_plat = pl\<rparr>"

section \<open>Steps\<close>

text \<open>Two things the code does not check are marked: \<open>ps\<close> is that the amounts of top-ups and organisation grants are not
  negative, \<open>lg\<close> that no manual refill of a member fails between its wallet update and its ledger insert (two
  statements, no transaction). With \<open>ps\<close> or \<open>lg\<close> false those steps are taken too. \<open>Wallet_Org\<close> stands for a change of
  organisations, groups or memberships that keeps keys unique and leaves wallets alone.\<close>

inductive wallet_step :: "bool \<Rightarrow> bool \<Rightarrow> store \<Rightarrow> store \<Rightarrow> bool" for lg ps :: bool where
  Credit_User: "(ps \<longrightarrow> 0 \<le> n) \<Longrightarrow> wallet_step lg ps s (fst (credit_user ok (live_svc odb pl) u g n d a s))"
| Credit_Group: "(ps \<longrightarrow> 0 \<le> n) \<Longrightarrow> wallet_step lg ps s (fst (credit_group ok (live_svc odb pl) g n a s))"
| Allocate_Group: "wallet_step lg ps s (fst (allocate_group ok (live_svc odb pl) g n super a s))"
| Allocate_User: "wallet_step lg ps s (fst (allocate_user ok (live_svc odb pl) u g n super d a s))"
| Consume: "wallet_step lg ps s (fst (consume ok (live_svc odb pl) u g n ref s))"
| Read_Balance: "wallet_step lg ps s (fst (svc_balance ok (live_svc odb pl) u g s))"
| Group_Wallet: "wallet_step lg ps s (fst (svc_group_wallet ok (live_svc odb pl) now g s))"
| Group_Budget: "wallet_step lg ps s (fst (svc_set_group_budget ok g cap pct s))"
| Group_Refill: "wallet_step lg ps s (fst (svc_set_group_refill ok (live_svc odb pl) g rec iv carry s))"
| User_Refill: "wallet_step lg ps s (fst (svc_set_user_refill ok (live_svc odb pl) u g rec iv carry s))"
| Refill_User_Now: "(lg \<longrightarrow> ok RefillNowLogI) \<Longrightarrow> wallet_step lg ps s (fst (refill_now_user ok now u g s))"
| Refill_Group_Now: "wallet_step lg ps s (fst (refill_now_group ok now g s))"
| Refill_Job: "wallet_step lg ps s (recharge_tick commit cfg now s)"
| Org_Grant: "(ps \<longrightarrow> 0 \<le> og_amount req) \<Longrightarrow> wallet_step lg ps s (fst (grant odb pl i req s))"
| Wallet_Org: "keys_distinct o_id os \<Longrightarrow> keys_distinct g_id gs \<Longrightarrow> (ps \<longrightarrow> (\<forall>r \<in> set os. 0 \<le> o_pool r)) \<Longrightarrow>
    wallet_step lg ps s (s\<lparr>orgs := os, groups := gs, members := ms\<rparr>)"

inductive wallet_reach :: "bool \<Rightarrow> bool \<Rightarrow> store \<Rightarrow> bool" for lg ps :: bool where
  Start: "wallet_reach lg ps empty_store"
| Step: "wallet_reach lg ps s \<Longrightarrow> wallet_step lg ps s s' \<Longrightarrow> wallet_reach lg ps s'"

section \<open>The primitives keep the books\<close>

lemma keyed_cong:
  "orgs s' = orgs s \<Longrightarrow> groups s' = groups s \<Longrightarrow> uwallets s' = uwallets s \<Longrightarrow> gwallets s' = gwallets s \<Longrightarrow>
   keyed s' = keyed s"
  by (simp add: keyed_def)

lemma keyed_ops [simp]:
  "keyed s \<Longrightarrow> keyed (ensure_user u g s)" "keyed s \<Longrightarrow> keyed (ensure_group g s)"
  "keyed (log_user x s) = keyed s" "keyed (log_group y s) = keyed s"
  by (simp_all add: keyed_def frame) (simp_all add: ensure_user_def ensure_group_def keys_distinct_insert_ignore)

lemma keyed_upd_user: "(\<And>w. u_key (f w) = u_key w) \<Longrightarrow> keyed (upd_user u g f s) = keyed s"
  by (simp add: keyed_def frame) (simp add: upd_user_def keys_distinct_upd_row)

lemma keyed_upd_group: "(\<And>w. w_group (f w) = w_group w) \<Longrightarrow> keyed (upd_group g f s) = keyed s"
  by (simp add: keyed_def frame) (simp add: upd_group_def keys_distinct_upd_row)

lemma keyed_upd_org: "(\<And>r. o_id (f r) = o_id r) \<Longrightarrow> keyed (upd_org i f s) = keyed s"
  by (simp add: keyed_def frame) (simp add: upd_org_def keys_distinct_upd_row)

lemma books_same:
  assumes "books lg ps s" "keyed s'" "utxs s' = utxs s" "\<And>u g. balance_of s' u g = balance_of s u g"
    "\<And>g. ps \<Longrightarrow> 0 \<le> group_balance s' g" "\<And>i. ps \<Longrightarrow> 0 \<le> pool_of s' i"
  shows "books lg ps s'"
  using assms synced_same [of s s'] by (simp add: books_def solvent_def)

lemma books_pos:
  assumes "books lg ps s"
  shows "ps \<Longrightarrow> 0 \<le> balance_of s u g" "ps \<Longrightarrow> 0 \<le> group_balance s g" "ps \<Longrightarrow> 0 \<le> pool_of s i" "keyed s"
  using assms by (simp_all add: books_def solvent_def)

lemma books_apply_user_tx:
  assumes "books lg ps s" "apply_user_tx ok u g ty n l ref a s = (s', r)" "ps \<longrightarrow> 0 \<le> balance_of s u g + n"
  shows "books lg ps s'"
proof (cases r)
  case None
  then show ?thesis using assms apply_user_tx_failed by blast
next
  case (Some b)
  note e = apply_user_tx_effect [OF assms(2) [unfolded Some]]
  have "keyed s'" using assms(1,2) Some
    by (auto simp: books_def apply_user_tx_def Let_def keyed_upd_user split: if_splits)
  moreover have "lg \<longrightarrow> synced s'" using assms synced_apply_user_tx by (auto simp: books_def)
  ultimately show ?thesis
    using assms(1,3) group_balance_cong [OF e(7)] pool_of_orgs [OF e(4)]
    by (auto simp: books_def solvent_def e(2))
qed

lemma books_apply_group_tx:
  assumes "books lg ps s" "apply_group_tx ok g ty n a ref s = (s', r)" "ps \<longrightarrow> 0 \<le> n"
  shows "books lg ps s'"
proof (cases r)
  case None
  then show ?thesis using assms apply_group_tx_failed by blast
next
  case (Some b)
  note e = apply_group_tx_effect [OF assms(2) [unfolded Some]]
  have "keyed s'" using assms(1,2) Some
    by (auto simp: books_def apply_group_tx_def Let_def keyed_upd_group split: if_splits)
  then show ?thesis
    using assms books_pos [OF assms(1)] balance_of_cong [OF e(3)] pool_of_orgs [OF e(5)]
    by (intro books_same [OF assms(1)]) (auto simp: e(2,4))
qed

lemma books_draw_group_tx:
  assumes "books lg ps s" "draw_group_tx ok g n a s = (s', r)"
  shows "books lg ps s'"
proof -
  note e = draw_group_tx_effect [OF assms(2)]
  have "keyed s'" using assms
    by (auto simp: books_def draw_group_tx_def Let_def keyed_upd_group split: if_splits)
  then show ?thesis
    using books_pos [OF assms(1)] e(2) balance_of_cong [OF e(4)] pool_of_orgs [OF e(6)]
    by (intro books_same [OF assms(1)]) (auto simp: e(1,5))
qed

lemma books_ensure_user: "books lg ps s \<Longrightarrow> books lg ps (ensure_user u g s)"
  by (rule books_same)
    (simp_all add: books_pos frame group_balance_cong [OF ensure_user_frame(4)] pool_of_orgs [OF ensure_user_frame(1)])

lemma books_ensure_group: "books lg ps s \<Longrightarrow> books lg ps (ensure_group g s)"
  by (rule books_same)
    (simp_all add: books_pos frame balance_of_cong [OF ensure_group_frame(4)] pool_of_orgs [OF ensure_group_frame(1)])

lemmas books_ensure = books_ensure_user books_ensure_group

lemma books_user_wallet_of: "books lg ps s \<Longrightarrow> user_wallet_of ok u g s = (s', r) \<Longrightarrow> books lg ps s'"
  by (auto simp: user_wallet_of_def Let_def books_ensure split: if_splits)

lemma books_group_wallet_of: "books lg ps s \<Longrightarrow> group_wallet_of ok g s = (s', r) \<Longrightarrow> books lg ps s'"
  by (auto simp: group_wallet_of_def Let_def books_ensure split: if_splits)

text \<open>Settings: a row changes, its balance does not.\<close>

lemma books_upd_user:
  assumes "books lg ps s" "\<And>w. u_key (f w) = u_key w" "\<And>w. u_balance (f w) = u_balance w"
  shows "books lg ps (upd_user u g f s)"
proof (rule books_same [OF assms(1)])
  show "balance_of (upd_user u g f s) u' g' = balance_of s u' g'" for u' g'
    using assms(2,3) by (auto simp: balance_of_def upd_user_def row_of_upd_row split: option.split)
qed (use assms books_pos [OF assms(1)] in
    \<open>simp_all add: frame keyed_upd_user group_balance_cong [OF upd_user_frame(4)] pool_of_orgs [OF upd_user_frame(1)]\<close>)

lemma books_upd_group:
  assumes "books lg ps s" "\<And>w. w_group (f w) = w_group w" "\<And>w. w_balance (f w) = w_balance w"
  shows "books lg ps (upd_group g f s)"
proof (rule books_same [OF assms(1)])
  show "0 \<le> group_balance (upd_group g f s) g'" if ps for g'
    using assms(2,3) books_pos(2) [OF assms(1) that, of g']
    by (auto simp: group_balance_def upd_group_def row_of_upd_row split: option.splits)
qed (use assms books_pos [OF assms(1)] in
    \<open>simp_all add: frame keyed_upd_group balance_of_cong [OF upd_group_frame(4)] pool_of_orgs [OF upd_group_frame(1)]\<close>)

lemma books_upd_org:
  assumes "books lg ps s" "\<And>r. o_id (f r) = o_id r" "\<And>r. ps \<Longrightarrow> 0 \<le> o_pool r \<Longrightarrow> 0 \<le> o_pool (f r)"
  shows "books lg ps (upd_org i f s)"
proof (rule books_same [OF assms(1)])
  show "0 \<le> pool_of (upd_org i f s) j" if ps for j
    using assms(2) assms(3) [OF that] books_pos(3) [OF assms(1) that, of j]
    by (auto simp: pool_of_def upd_org_def row_of_upd_row split: option.splits)
qed (use assms books_pos [OF assms(1)] in
    \<open>simp_all add: frame keyed_upd_org balance_of_cong [OF upd_org_frame(3)] group_balance_cong [OF upd_org_frame(4)]\<close>)

lemma books_draw_pool:
  assumes "books lg ps s" "draw_pool ok i n s = (s', r)"
  shows "books lg ps s'"
proof (cases "r = Some True")
  case True
  note c = draw_pool_cases [OF assms(2)]
  have n: "n \<le> pool_of s i" and s': "s' = upd_org i (\<lambda>r. r\<lparr>o_pool := o_pool r - n\<rparr>) s"
    and p: "pool_of s' j = pool_of s j - (if j = i then n else 0)" for j
    using c True by blast+
  show ?thesis
  proof (rule books_same [OF assms(1)])
    show "0 \<le> pool_of s' j" if ps for j using p [of j] n books_pos(3) [OF assms(1) that, of j] by auto
    show "keyed s'" using books_pos(4) [OF assms(1)] by (simp add: s' keyed_upd_org)
    show "0 \<le> group_balance s' g" if ps for g
      using books_pos(2) [OF assms(1) that, of g] by (simp add: s' group_balance_cong [OF upd_org_frame(4)])
  qed (simp_all add: s' frame balance_of_cong [OF upd_org_frame(3)])
next
  case False
  then have "s' = s" using draw_pool_cases [OF assms(2)] by blast
  then show ?thesis using assms(1) by simp
qed

lemma books_add_pool:
  assumes "books lg ps s" "ps \<longrightarrow> 0 \<le> n" "add_pool ok i n s = (s', b)"
  shows "books lg ps s'"
proof (cases "ok AddPoolU")
  case True
  then have s': "s' = upd_org i (\<lambda>r. r\<lparr>o_pool := o_pool r + n\<rparr>) s"
    using assms(3) by (simp add: add_pool_def)
  show ?thesis unfolding s' by (rule books_upd_org [OF assms(1)]) (use assms(2) in simp_all)
next
  case False
  then show ?thesis using assms by (simp add: add_pool_def)
qed

lemma books_draw_user:
  assumes "books lg ps s" "p_draw_user (org_pool odb) k n s = (s', r)"
  shows "books lg ps s'"
proof (cases "org_of_user odb s k")
  case None
  then show ?thesis using assms by (simp add: org_pool_def draw_for_user_def)
next
  case (Some i)
  then have "draw_pool odb i n s = (s', r)" using assms(2) by (simp add: org_pool_def draw_for_user_def)
  with assms show ?thesis by (blast intro: books_draw_pool)
qed

lemma books_draw_group:
  assumes "books lg ps s" "p_draw_group (org_pool odb) k n s = (s', r)"
  shows "books lg ps s'"
proof (cases "org_of_group odb s k")
  case None
  then show ?thesis using assms by (simp add: org_pool_def draw_for_group_def)
next
  case (Some i)
  then have "draw_pool odb i n s = (s', r)" using assms(2) by (simp add: org_pool_def draw_for_group_def)
  with assms show ?thesis by (blast intro: books_draw_pool)
qed

lemma books_add_user:
  assumes "books lg ps s" "ps \<longrightarrow> 0 \<le> n" "p_add_user (org_pool odb) k n s = (s', b)"
  shows "books lg ps s'"
proof (cases "org_of_user odb s k")
  case None
  then show ?thesis using assms by (simp add: org_pool_def add_for_user_def)
next
  case (Some i)
  then have "add_pool odb i n s = (s', b)" using assms(3) by (simp add: org_pool_def add_for_user_def)
  with assms show ?thesis by (blast intro: books_add_pool)
qed

lemma books_add_group:
  assumes "books lg ps s" "ps \<longrightarrow> 0 \<le> n" "p_add_group (org_pool odb) k n s = (s', b)"
  shows "books lg ps s'"
proof (cases "org_of_group odb s k")
  case None
  then show ?thesis using assms by (simp add: org_pool_def add_for_group_def)
next
  case (Some i)
  then have "add_pool odb i n s = (s', b)" using assms(3) by (simp add: org_pool_def add_for_group_def)
  with assms show ?thesis by (blast intro: books_add_pool)
qed

section \<open>The operations keep the books\<close>

lemma posted_fst [simp]: "fst (posted p) = fst p"
  by (simp add: posted_def)

lemma books_fst_user_tx: "books lg ps s \<Longrightarrow> ps \<longrightarrow> 0 \<le> balance_of s u g + n \<Longrightarrow> books lg ps (fst (apply_user_tx ok u g ty n l ref a s))"
  by (cases "apply_user_tx ok u g ty n l ref a s") (simp add: books_apply_user_tx)

lemma books_fst_group_tx: "books lg ps s \<Longrightarrow> ps \<longrightarrow> 0 \<le> n \<Longrightarrow> books lg ps (fst (apply_group_tx ok g ty n a ref s))"
  by (cases "apply_group_tx ok g ty n a ref s") (simp add: books_apply_group_tx)

lemma books_fst_credit: "books lg ps s \<Longrightarrow> ps \<longrightarrow> 0 \<le> n \<Longrightarrow> books lg ps (fst (apply_user_tx ok u g ty n l ref a s))"
  using books_pos(1) [of lg ps s u g] by (intro books_fst_user_tx) auto

lemma books_credit_user:
  assumes "books lg ps s" "ps \<longrightarrow> 0 \<le> n"
  shows "books lg ps (fst (credit_user ok (live_svc odb pl) u g n d a s))"
proof -
  obtain s1 r where d: "p_draw_user (org_pool odb) u n s = (s1, r)" by (cases "p_draw_user (org_pool odb) u n s")
  have s1: "books lg ps s1" by (rule books_draw_user [OF assms(1) d])
  show ?thesis
    using d s1 assms
    by (auto simp: credit_user_def live_svc_def Let_def books_fst_credit split: option.split bool.split)
qed

lemma books_credit_group:
  assumes "books lg ps s" "ps \<longrightarrow> 0 \<le> n"
  shows "books lg ps (fst (credit_group ok (live_svc odb pl) g n a s))"
proof -
  obtain s1 r where d: "p_draw_group (org_pool odb) g n s = (s1, r)" by (cases "p_draw_group (org_pool odb) g n s")
  have s1: "books lg ps s1" by (rule books_draw_group [OF assms(1) d])
  show ?thesis
    using d s1 assms
    by (auto simp: credit_group_def live_svc_def Let_def books_fst_group_tx split: option.split bool.split)
qed

lemma books_allocate_group:
  assumes "books lg ps s"
  shows "books lg ps (fst (allocate_group ok (live_svc odb pl) g n super a s))"
proof (cases "n \<le> 0")
  case False
  obtain s1 r where d: "p_draw_group (org_pool odb) g n s = (s1, r)" by (cases "p_draw_group (org_pool odb) g n s")
  obtain s2 b where e: "p_add_group (org_pool odb) g n s = (s2, b)" by (cases "p_add_group (org_pool odb) g n s")
  have "books lg ps s1" "books lg ps s2"
    using books_draw_group [OF assms d] books_add_group [OF assms _ e] False by auto
  then show ?thesis
    using d e False
    by (auto simp: allocate_group_def live_svc_def Let_def books_fst_group_tx split: option.split bool.split)
qed (use assms in \<open>simp add: allocate_group_def\<close>)

lemma books_allocate_user:
  assumes "books lg ps s"
  shows "books lg ps (fst (allocate_user ok (live_svc odb pl) u g0 n super d a s))"
proof -
  define g where "g = (if g0 \<le> 0 then resolve_group_id (live_svc odb pl) s u 0 else g0)"
  show ?thesis
  proof (cases "n \<le> 0 \<or> g \<le> 0")
    case True
    then show ?thesis using assms by (auto simp: allocate_user_def g_def [symmetric])
  next
    case False
    obtain s1 b where e: "p_add_user (org_pool odb) u n s = (s1, b)" by (cases "p_add_user (org_pool odb) u n s")
    obtain s2 m where t: "apply_group_tx ok g TxTopup n a [] s1 = (s2, m)" by (cases "apply_group_tx ok g TxTopup n a [] s1")
    obtain s3 r where w: "draw_group_tx ok g n a s = (s3, r)" by (cases "draw_group_tx ok g n a s")
    have "books lg ps s1" using books_add_user [OF assms _ e] False by auto
    moreover from this have "books lg ps s2" using books_apply_group_tx [OF _ t] False by auto
    moreover have "books lg ps s3" by (rule books_draw_group_tx [OF assms w])
    ultimately show ?thesis
      unfolding allocate_user_def g_def [symmetric] using e t w False
      by (auto simp: Let_def live_svc_def posted_def books_fst_credit split: option.split bool.split)
  qed
qed

lemma books_consume: "books lg ps s \<Longrightarrow> books lg ps (fst (consume ok (live_svc odb pl) u g n ref s))"
proof (cases "0 < n")
  case True
  assume b: "books lg ps s"
  obtain s' c where e: "consume ok (live_svc odb pl) u g n ref s = (s', c)"
    by (cases "consume ok (live_svc odb pl) u g n ref s")
  note f = consume_effect [OF e True]
  have k: "keyed s'"
  proof -
    let ?g = "resolve_group_id (live_svc odb pl) s u g"
    obtain s1 r where w: "user_wallet_of ok u ?g s = (s1, r)" by (cases "user_wallet_of ok u ?g s")
    have k1: "books lg ps s1" by (rule books_user_wallet_of [OF b w])
    obtain s2 p where a: "apply_user_tx ok u ?g TxConsume (- n) (consume_label ref) ref None s1 = (s2, p)"
      by (cases "apply_user_tx ok u ?g TxConsume (- n) (consume_label ref) ref None s1")
    have k2: "keyed s2" using a books_pos(4) [OF k1]
      by (auto simp: apply_user_tx_def Let_def keyed_upd_user split: if_splits)
    obtain s3 q where m: "add_member_consumed ok u ?g n s2 = (s3, q)" by (cases "add_member_consumed ok u ?g n s2")
    have k3: "keyed s3"
      using k2 keyed_cong [OF add_member_consumed_frame(4,5,1,2) [OF m]] by simp
    show ?thesis using e w a m True books_pos(4) [OF k1] k2 k3
      by (auto simp: consume_def Let_def split: option.splits if_splits)
  qed
  have sync: "synced s'" if lg
  proof (cases "c = COk")
    case True
    then show ?thesis
      using b that by (intro synced_post [OF _ f(4) [unfolded True, simplified]]) (auto simp: books_def f(1))
  next
    case False
    then show ?thesis using b that by (intro synced_same [of s s']) (simp_all add: books_def f(1,4))
  qed
  show ?thesis
    using k sync f(1,2) books_pos [OF b] pool_of_orgs [OF f(5)] group_balance_cong [OF f(6)]
    by (auto simp: e books_def solvent_def)
qed (simp add: consume_def)

lemma books_svc_balance: "books lg ps s \<Longrightarrow> books lg ps (fst (svc_balance ok sv u g s))"
  by (auto simp: svc_balance_def split: prod.split option.split dest: books_user_wallet_of)

lemma books_svc_group_wallet: "books lg ps s \<Longrightarrow> books lg ps (fst (svc_group_wallet ok sv now g s))"
  by (auto simp: svc_group_wallet_def Let_def split: prod.split option.split dest: books_group_wallet_of)

lemma books_settings:
  assumes "books lg ps s"
  shows "books lg ps (fst (svc_set_group_budget ok g cap pct s))"
    "books lg ps (fst (svc_set_group_refill ok sv g rec iv carry s))"
    "books lg ps (fst (svc_set_user_refill ok sv u g rec iv carry s))"
proof -
  have g: "books lg ps (upd_group g (\<lambda>w. w\<lparr>w_budget_cap := c, w_alert_pct := p\<rparr>) s')"
    "books lg ps (upd_group g (\<lambda>w. w\<lparr>w_recurring := re, w_interval := i, w_carry := k\<rparr>) s')"
    if "books lg ps s'" for s' c p re i k
    by (rule books_upd_group [OF that]; simp)+
  have u: "books lg ps (upd_user u g (\<lambda>w. w\<lparr>u_recurring := re, u_interval := i, u_carry := k\<rparr>) s')"
    if "books lg ps s'" for s' re i k
    by (rule books_upd_user [OF that]; simp)
  note e = books_ensure_group [OF assms, of g] books_ensure_user [OF assms, of u g]
  show "books lg ps (fst (svc_set_group_budget ok g cap pct s))"
    using assms e g(1) [OF e(1)] by (simp add: svc_set_group_budget_def set_group_budget_def Let_def)
  show "books lg ps (fst (svc_set_group_refill ok sv g rec iv carry s))"
    using assms e g(2) [OF e(1)] g(2) [OF assms]
    by (simp add: svc_set_group_refill_def set_group_refill_def Let_def)
  show "books lg ps (fst (svc_set_user_refill ok sv u g rec iv carry s))"
    using assms e u [OF e(2)] u [OF assms]
    by (simp add: svc_set_user_refill_def set_user_refill_def Let_def)
qed

lemma books_refill_now_user:
  assumes "books lg ps s" "lg \<longrightarrow> ok RefillNowLogI"
  shows "books lg ps (fst (refill_now_user ok now u g s))"
proof (cases "row_of u_key (u, g) (uwallets s)")
  case None
  then show ?thesis using assms by (simp add: refill_now_user_def)
next
  case (Some w)
  define bal where "bal = (if u_carry w then u_balance w + u_recurring w else u_recurring w)"
  define x where "x = \<lparr>x_user = u, x_group = g, x_type = TxRecharge, x_amount = u_recurring w, x_after = bal,
      x_label = InstantRefill, x_ref = None, x_actor = None\<rparr>"
  let ?s = "log_user x (upd_user u g (\<lambda>r. r\<lparr>u_balance := bal, u_cycle := Some now\<rparr>) s)"
  have b: "balance_of ?s u' g' = (if u' = u \<and> g' = g then bal else balance_of s u' g')" for u' g'
    using Some by (simp add: balance_of_cong [OF log_user_frame(5)] balance_upd_user)
  let ?t = "upd_user u g (\<lambda>r. r\<lparr>u_balance := bal, u_cycle := Some now\<rparr>) s"
  have bal: "0 \<le> bal" if "0 < u_recurring w" ps
    using that(1) books_pos(1) [OF assms(1) that(2), of u g] Some by (auto simp: bal_def balance_of_def)
  have t: "books lg ps ?t" if "0 < u_recurring w" "\<not> lg"
    using that bal books_pos [OF assms(1)] b
    by (auto simp: books_def solvent_def balance_of_cong [OF log_user_frame(5)] keyed_upd_user frame group_balance_cong [of ?t s] pool_of_orgs [of ?t s])
  have "synced ?s" if lg
  proof (rule synced_post)
    show "synced s" using assms(1) that by (simp add: books_def)
    show "utxs ?s = utxs s @ [x]" by (simp add: frame)
    show "balance_of ?s u' g' = (if u' = x_user x \<and> g' = x_group x then x_after x else balance_of s u' g')"
      for u' g' unfolding b by (simp add: x_def)
  qed
  then have "books lg ps ?s" if "0 < u_recurring w"
    using that bal books_pos [OF assms(1)]
    by (auto simp: books_def solvent_def b keyed_upd_user frame group_balance_cong [of ?s s] pool_of_orgs [of ?s s])
  then show ?thesis
    using assms Some t by (auto simp: refill_now_user_def Let_def bal_def x_def)
qed

lemma books_refill_now_group:
  assumes "books lg ps s"
  shows "books lg ps (fst (refill_now_group ok now g s))"
proof (cases "row_of w_group g (gwallets s)")
  case None
  then show ?thesis using assms by (simp add: refill_now_group_def)
next
  case (Some w)
  define bal where "bal = (if w_carry w then w_balance w + w_recurring w else w_recurring w)"
  let ?s = "upd_group g (\<lambda>r. r\<lparr>w_balance := bal, w_cycle := Some now\<rparr>) s"
  have "0 \<le> bal" if "0 < w_recurring w" ps
    using that(1) books_pos(2) [OF assms that(2), of g] Some by (auto simp: bal_def group_balance_def)
  then have "books lg ps ?s" if "0 < w_recurring w"
    using that books_pos [OF assms] group_balance_upd [OF Some]
    by (intro books_same [OF assms])
      (auto simp: keyed_upd_group frame balance_of_cong [OF upd_group_frame(4)] pool_of_orgs [OF upd_group_frame(1)])
  then show ?thesis using assms Some by (auto simp: refill_now_group_def Let_def bal_def)
qed

lemma books_refill_spec:
  assumes "books lg ps s"
  shows "books lg ps (fst (refill_spec plat now s))"
proof -
  let ?s = "fst (refill_spec plat now s)"
  note p = books_pos [OF assms]
  have "lg \<longrightarrow> synced ?s" using assms by (simp add: books_def synced_refill_spec)
  moreover have "keyed ?s" using p(4) by (rule keyed_refill_spec)
  moreover have "0 \<le> balance_of ?s u g" if ps for u g
  proof -
    have "0 \<le> u_balance (refilled_user plat pc now s os gs w)" if "0 \<le> u_balance w" for pc os gs w
      using that by (auto simp: refilled_user_def user_fires_def)
    then show ?thesis using p(1) [OF that, of u g]
      by (auto simp: refill_spec_def Let_def balance_of_def row_of_map split: option.splits)
  qed
  moreover have "0 \<le> group_balance ?s g" if ps for g
  proof -
    have "0 \<le> w_balance (refilled_group plat pc now s os w)" if "0 \<le> w_balance w" for pc os w
      using that by (auto simp: refilled_group_def group_fires_def split: option.splits)
    then show ?thesis using p(2) [OF that, of g]
      by (auto simp: refill_spec_def Let_def group_balance_def row_of_map split: option.splits)
  qed
  moreover have "0 \<le> pool_of ?s i" if ps for i
  proof -
    have "0 \<le> o_pool (refilled_org plat pc now r)" if "0 \<le> o_pool r" for pc r
      using that by (auto simp: refilled_org_def org_fires_def org_on_def)
    then show ?thesis using p(3) [OF that, of i]
      by (auto simp: refill_spec_def Let_def pool_of_def row_of_map split: option.splits)
  qed
  ultimately show ?thesis by (simp add: books_def solvent_def)
qed

lemma books_recharge_tick: "books lg ps s \<Longrightarrow> books lg ps (recharge_tick commit cfg now s)"
  using books_refill_spec [of lg ps s] books_pos(4) [of lg ps s]
  by (cases commit) (simp_all add: recharge_tick_def refill_due_eq_spec, simp add: refill_due_def)

lemma books_grant:
  assumes "books lg ps s" "ps \<longrightarrow> 0 \<le> og_amount req"
  shows "books lg ps (fst (grant odb pl i req s))"
proof -
  obtain s1 b1 where p1: "(if og_amount req \<noteq> 0 then add_pool odb i (og_amount req) s else (s, True)) = (s1, b1)"
    by (cases "if og_amount req \<noteq> 0 then add_pool odb i (og_amount req) s else (s, True)")
  obtain s2 b2 where p2: "(case og_recurring req of None \<Rightarrow> (s1, True) | Some v \<Rightarrow> set_recurring odb i v s1) = (s2, b2)"
    by (cases "case og_recurring req of None \<Rightarrow> (s1, True) | Some v \<Rightarrow> set_recurring odb i v s1")
  obtain s3 b3 where p3: "set_org_refill odb i (capped_interval pl (og_interval req))
      (case og_carry req of None \<Rightarrow> False | Some b \<Rightarrow> b) s2 = (s3, b3)"
    by (cases "set_org_refill odb i (capped_interval pl (og_interval req))
      (case og_carry req of None \<Rightarrow> False | Some b \<Rightarrow> b) s2")
  have s1: "books lg ps s1" using p1 books_add_pool [OF assms] assms(1) by (auto split: if_splits)
  have "books lg ps (upd_org i (\<lambda>r. r\<lparr>o_recurring := v\<rparr>) s1)" for v by (rule books_upd_org [OF s1]) simp_all
  then have s2: "books lg ps s2" using p2 s1 by (auto simp: set_recurring_def split: option.splits if_splits)
  have "books lg ps (upd_org i (\<lambda>r. r\<lparr>o_interval := iv, o_carry := k\<rparr>) s2)" for iv k
    by (rule books_upd_org [OF s2]) simp_all
  then have s3: "books lg ps s3" using p3 s2 by (auto simp: set_org_refill_def split: if_splits)
  show ?thesis unfolding grant_def p1 Let_def prod.case p2 p3 using s1 s2 s3 by simp
qed

lemma books_wallet_org:
  assumes "books lg ps s" "keys_distinct o_id os" "keys_distinct g_id gs" "ps \<longrightarrow> (\<forall>r \<in> set os. 0 \<le> o_pool r)"
  shows "books lg ps (s\<lparr>orgs := os, groups := gs, members := ms\<rparr>)"
proof (rule books_same [OF assms(1)])
  show "0 \<le> pool_of (s\<lparr>orgs := os, groups := gs, members := ms\<rparr>) i" if ps for i
    using assms(4) that by (auto simp: pool_of_def dest: row_of_Some split: option.splits)
qed (use assms books_pos [OF assms(1)] in
    \<open>auto simp: keyed_def balance_of_def group_balance_def split: option.splits\<close>)

lemma books_step: "wallet_step lg ps s s' \<Longrightarrow> books lg ps s \<Longrightarrow> books lg ps s'"
  by (induction rule: wallet_step.induct)
    (simp_all add: books_credit_user books_credit_group books_allocate_group books_allocate_user
      books_consume books_svc_balance books_svc_group_wallet books_settings books_refill_now_user
      books_refill_now_group books_recharge_tick books_grant books_wallet_org)

section \<open>Properties\<close>


definition two_steps :: store where
  "two_steps =
     fst (consume (\<lambda>_. True) (live_svc (\<lambda>_. True) None) 3 7 12 ''ses-1''
       (fst (credit_user (\<lambda>_. True) (live_svc (\<lambda>_. True) None) 3 7 40 ''gift'' None empty_store)))"


text \<open>\<open>Consume\<close> either charges the whole amount, from a balance that covers it, with one
  ledger row under the reference, or charges nothing: a shortfall is reported as insufficient
  exactly because the balance is below the amount, an error leaves every balance and the ledger
  as they were, and no other wallet ever moves.\<close>

theorem consume_all_or_nothing:
  assumes "consume ok sv u g0 n ref s = (s', c)" "0 < n"
  defines "g \<equiv> resolve_group_id sv s u g0"
  shows "(c = COk \<longrightarrow> n \<le> balance_of s u g \<and> balance_of s' u g = balance_of s u g - n \<and>
           spent s' ref = spent s ref + n \<and> length (utxs s') = length (utxs s) + 1) \<and>
         (c = CInsufficient \<longrightarrow> balance_of s u g < n) \<and>
         (c \<noteq> COk \<longrightarrow> balance_of s' u g = balance_of s u g \<and> utxs s' = utxs s) \<and>
         (\<forall>u' g'. (u', g') \<noteq> (u, g) \<longrightarrow> balance_of s' u' g' = balance_of s u' g')"
proof -
  note f = consume_effect [OF assms(1,2)]
  have "spent s' ref = spent s ref + n" if "c = COk"
    using spent_log [OF f(4) [unfolded that, simplified]] by simp
  then show ?thesis using f(1-4) by (auto simp: g_def)
qed

theorem consume_all_or_nothing_witness:
  "spent (fst (consume (\<lambda>_. True) (live_svc (\<lambda>_. True) None) 3 0 15 ''ses-1'' sample_store)) ''ses-1'' = 15 \<and>
   balance_of (fst (consume (\<lambda>_. True) (live_svc (\<lambda>_. True) None) 3 0 15 ''ses-1'' sample_store)) 3 7 = 25"
proof -
  let ?c = "consume (\<lambda>_. True) (live_svc (\<lambda>_. True) None) 3 0 15 ''ses-1'' sample_store"
  have e: "snd ?c = COk" "resolve_group_id (live_svc (\<lambda>_. True) None) sample_store 3 0 = 7"
    "balance_of sample_store 3 7 = 40" "spent sample_store ''ses-1'' = 0"
    by code_simp+
  have c: "?c = (fst ?c, COk)" using e(1) by (metis prod.collapse)
  show ?thesis using consume_all_or_nothing [OF c] e by simp
qed

text \<open>credit is conserved on its way down. A group manager's allocation moves exactly its
  amount from the group pool, which covers it, to the member's wallet and touches no organisation;
  an organisation's allocation moves exactly its amount from the organisation's pool, which covers
  it, to the group. A refusal for lack of credit moves nothing.\<close>

theorem allocation_conserves:
  assumes "0 < n" "0 < g"
    and "allocate_user ok (live_svc odb pl) u g n False d a s = (s1, e1)"
    and "allocate_group ok (live_svc odb pl) g n False a s = (s2, e2)"
  shows "(e1 = None \<longrightarrow> n \<le> group_balance s g \<and> orgs s1 = orgs s \<and>
            (\<forall>h. group_balance s1 h = group_balance s h - (if h = g then n else 0)) \<and>
            (\<forall>v h. balance_of s1 v h = balance_of s v h + (if v = u \<and> h = g then n else 0))) \<and>
         (e2 = None \<longrightarrow> uwallets s2 = uwallets s \<and>
            (\<forall>h. group_balance s2 h = group_balance s h + (if h = g then n else 0)) \<and>
            (\<forall>i. pool_of s2 i = pool_of s i - (if org_of_group odb s g = Some i then n else 0)) \<and>
            (\<forall>i. org_of_group odb s g = Some i \<longrightarrow> n \<le> pool_of s i)) \<and>
         (e1 = Some InsufficientGroupPool \<longrightarrow> group_balance s g < n \<and>
            (\<forall>v h. balance_of s1 v h = balance_of s v h) \<and> (\<forall>h. group_balance s1 h = group_balance s h)) \<and>
         (e2 = Some InsufficientPool \<longrightarrow> s2 = s)"
proof -
  note u = op.allocate_user_moves [OF assms(3) [unfolded live_svc_def] assms(1,2)]
  note w = op.allocate_group_moves [OF assms(4) [unfolded live_svc_def] assms(1)]
  show ?thesis by (intro conjI impI allI) (use u w in simp_all)
qed

theorem allocation_conserves_witness:
  "group_balance (fst (allocate_user (\<lambda>_. True) (live_svc (\<lambda>_. True) None) 3 7 25 False ''b'' None sample_store)) 7 = 35 \<and>
   pool_of (fst (allocate_group (\<lambda>_. True) (live_svc (\<lambda>_. True) None) 7 25 False None sample_store)) 1 = 75"
proof -
  let ?u = "allocate_user (\<lambda>_. True) (live_svc (\<lambda>_. True) None) 3 7 25 False ''b'' None sample_store"
  let ?g = "allocate_group (\<lambda>_. True) (live_svc (\<lambda>_. True) None) 7 25 False None sample_store"
  have e: "snd ?u = None" "snd ?g = None" "group_balance sample_store 7 = 60" "pool_of sample_store 1 = 100"
    "org_of_group (\<lambda>_. True) sample_store 7 = Some 1"
    by code_simp+
  have p: "?u = (fst ?u, None)" "?g = (fst ?g, None)" using e(1,2) by (metis prod.collapse)+
  show ?thesis using allocation_conserves [OF _ _ p] e(3-5) by simp
qed

text \<open>the pool draw and the credit of the receiver are two transactions. When the second one
  fails after the first has committed, the group pool has paid, nobody has received, and the
  caller is told of a database error: the credits are gone.\<close>

theorem allocation_can_lose_credit:
  assumes "0 < n" "0 < g" "n \<le> group_balance s g" "ok DrawGroupT" "\<not> ok UserTxT"
  shows "\<exists>s'. allocate_user ok (live_svc odb pl) u g n False d a s = (s', Some WalletDbError) \<and>
    group_balance s' g = group_balance s g - n \<and> (\<forall>v h. balance_of s' v h = balance_of s v h)"
proof -
  obtain s1 r where w: "draw_group_tx ok g n a s = (s1, r)" by (cases "draw_group_tx ok g n a s")
  note e = draw_group_tx_effect [OF w]
  have r: "r = Some True" using w assms by (auto simp: draw_group_tx_def Let_def split: if_splits)
  have "allocate_user ok (live_svc odb pl) u g n False d a s = (s1, Some WalletDbError)"
    using assms w r by (simp add: allocate_user_def live_svc_def Let_def apply_user_tx_def posted_def)
  then show ?thesis using e(1) [of g] r balance_of_cong [OF e(4)] by simp
qed

theorem allocation_can_lose_credit_witness:
  "\<exists>s'. allocate_user (\<lambda>x. x \<noteq> UserTxT) (live_svc (\<lambda>_. True) None) 3 7 25 False ''b'' None sample_store
      = (s', Some WalletDbError) \<and> group_balance s' 7 = 35 \<and> balance_of s' 3 7 = 40"
proof -
  have b: "group_balance sample_store 7 = 60" "balance_of sample_store 3 7 = 40" by code_simp+
  show ?thesis
    using allocation_can_lose_credit [of 25 7 sample_store "\<lambda>x. x \<noteq> UserTxT" "\<lambda>_. True" None 3 "''b''" None] b
    by auto
qed

text \<open>the interval a member's default refill really runs on. \<open>UserRefillCap\<close>, which the wallet
  page uses, gives a member without an interval of its own the interval of its team; the refill
  job uses the platform's. So, with a team interval shorter than the platform's, the page can
  announce a refill that is past due while the job leaves the wallet as it is.\<close>

theorem member_default_interval_ignores_team:
  assumes "keyed s" "row_of u_key (u, g) (uwallets s) = Some w" "u_interval w = 0" "0 < u_recurring w"
    and "row_of g_id g (groups s) = Some gr" "row_of o_id (g_org gr) (orgs s) = Some r"
    and "row_of w_group g (gwallets s) = Some gw" "0 < w_interval gw"
    and "u_cycle w = Some c" "c + w_interval gw * day \<le> now" "now < c + pr_interval plat * day"
    and "0 < g" "refill_due True plat now s = (s', Some n)"
  shows "balance_of s' u g = balance_of s u g \<and>
    (\<exists>t. snd (my_wallet (\<lambda>_. True) sv now u g s) = Some (w, Some t) \<and> t \<le> now)"
proof
  have "u_group w = g" using row_of_Some [OF assms(2)] by (auto simp: u_key_def)
  then have "\<not> user_fires plat now s w" using assms by (simp add: user_fires_def user_iv_def due_def)
  moreover have "s' = fst (refill_spec plat now s)" using assms(1,13) by (simp add: refill_due_eq_spec)
  ultimately show "balance_of s' u g = balance_of s u g"
    using assms(2) by (simp add: refill_spec_def Let_def balance_of_def row_of_map refilled_user_def)
  have "uwallets (ensure_user u g s) = uwallets s"
    using assms(2) by (simp add: ensure_user_def insert_ignore_def)
  then have "user_wallet_of (\<lambda>_. True) u g s = (ensure_user u g s, Some w)"
    using assms(2) by (simp add: user_wallet_of_def Let_def)
  then show "\<exists>t. snd (my_wallet (\<lambda>_. True) sv now u g s) = Some (w, Some t) \<and> t \<le> now"
    using assms
    by (simp add: my_wallet_def resolve_group_id_def Let_def user_refill_cap_def next_refill_def frame)
qed

theorem member_default_interval_ignores_team_witness:
  "balance_of (fst (refill_due True monthly (8 * day) sample_store)) 3 7 = 40 \<and>
   (\<exists>t. snd (my_wallet (\<lambda>_. True) (live_svc (\<lambda>_. True) (Some 30)) (8 * day) 3 7 sample_store)
          = Some (hd (uwallets sample_store), Some t) \<and> t \<le> 8 * day)"
proof -
  define now :: time where "now = 8 * day"
  obtain s' m where j: "refill_due True monthly now sample_store = (s', m)"
    by (cases "refill_due True monthly now sample_store")
  then obtain n where m: "m = Some n" by (auto simp: refill_due_eq_spec [OF sample_keyed])
  have f: "row_of u_key (3, 7) (uwallets sample_store) = Some (hd (uwallets sample_store))"
    "u_interval (hd (uwallets sample_store)) = 0" "0 < u_recurring (hd (uwallets sample_store))"
    "row_of g_id 7 (groups sample_store) = Some (hd (groups sample_store))"
    "row_of o_id (g_org (hd (groups sample_store))) (orgs sample_store) = Some (hd (orgs sample_store))"
    "row_of w_group 7 (gwallets sample_store) = Some (hd (gwallets sample_store))"
    "0 < w_interval (hd (gwallets sample_store))" "u_cycle (hd (uwallets sample_store)) = Some 0"
    "0 + w_interval (hd (gwallets sample_store)) * day \<le> now" "now < 0 + pr_interval monthly * day"
    "balance_of sample_store 3 7 = 40"
    unfolding now_def by code_simp+
  show ?thesis
    unfolding now_def [symmetric]
    using member_default_interval_ignores_team [OF sample_keyed f(1-10) _ j [unfolded m]] f(11) j by simp
qed

text \<open>a team or member refill interval set through the service never exceeds the cap that
  holds above it (organisation, then platform; team, then organisation, then platform).\<close>

theorem refill_interval_capped:
  assumes "svc_set_user_refill ok sv u g rec iv carry s = (s', True)"
    and "svc_set_group_refill ok sv g rec iv carry s = (s'', True)"
  shows "(\<forall>w. row_of u_key (u, g) (uwallets s') = Some w \<longrightarrow>
            u_interval w \<le> user_refill_cap ok s g (plat_default sv)) \<and>
         (\<forall>w. row_of w_group g (gwallets s'') = Some w \<longrightarrow>
            w_interval w \<le> group_refill_cap ok s g (plat_default sv))"
proof -
  have "0 < plat_default sv" by (simp add: plat_default_def split: option.split)
  then have c: "0 < user_refill_cap ok s g (plat_default sv)" "0 < group_refill_cap ok s g (plat_default sv)"
    by (simp_all add: user_refill_cap_def group_refill_cap_def Let_def split: prod.split)
  show ?thesis
    using assms c
    by (auto simp: svc_set_user_refill_def set_user_refill_def svc_set_group_refill_def set_group_refill_def
        Let_def upd_user_def upd_group_def row_of_upd_row split: if_splits)
qed

theorem refill_interval_capped_witness:
  "\<exists>s' s'' w v. svc_set_user_refill (\<lambda>_. True) (live_svc (\<lambda>_. True) (Some 30)) 3 7 10 90 True sample_store = (s', True) \<and>
      svc_set_group_refill (\<lambda>_. True) (live_svc (\<lambda>_. True) (Some 30)) 7 10 90 True sample_store = (s'', True) \<and>
      row_of u_key (3, 7) (uwallets s') = Some w \<and> u_interval w \<le> 7 \<and>
      row_of w_group 7 (gwallets s'') = Some v \<and> w_interval v \<le> 30"
proof -
  let ?u = "svc_set_user_refill (\<lambda>_. True) (live_svc (\<lambda>_. True) (Some 30)) 3 7 10 90 True sample_store"
  let ?g = "svc_set_group_refill (\<lambda>_. True) (live_svc (\<lambda>_. True) (Some 30)) 7 10 90 True sample_store"
  have e: "snd ?u" "snd ?g" "row_of u_key (3, 7) (uwallets (fst ?u)) \<noteq> None"
    "row_of w_group 7 (gwallets (fst ?g)) \<noteq> None"
    "user_refill_cap (\<lambda>_. True) sample_store 7 (plat_default (live_svc (\<lambda>_. True) (Some 30))) = 7"
    "group_refill_cap (\<lambda>_. True) sample_store 7 (plat_default (live_svc (\<lambda>_. True) (Some 30))) = 30"
    by code_simp+
  have p: "?u = (fst ?u, True)" "?g = (fst ?g, True)" using e(1,2) by (metis (full_types) prod.collapse)+
  from e(3,4) obtain w v where "row_of u_key (3, 7) (uwallets (fst ?u)) = Some w"
    "row_of w_group 7 (gwallets (fst ?g)) = Some v" by blast
  with refill_interval_capped [OF p] p e(5,6) show ?thesis by metis
qed

end
