(* ===== verification/Topup.thy ===== *)
theory Topup
  imports Wallet_Books
begin

text \<open>
  Top-up requests (\<open>internal/topup\<close>) and the \<open>crediter\<close> of \<open>cmd/api/crediter.go\<close> that routes an
  approved request to a member wallet, a group wallet or an organisation pool.
\<close>

section \<open>Requests\<close>

record topup_req =
  t_id :: int
  t_requester :: int
  t_type :: string
  t_target :: int
  t_amount :: int
  t_reason :: string
  t_status :: string
  t_reviewer :: "int option"

datatype topup_stmt = TCreate | TGet | TMark

type_synonym topup_db = "topup_stmt \<Rightarrow> bool"

datatype topup_error = TNotFound | TDbError | AlreadyReviewed | UnknownTarget | TCredit wallet_error

text \<open>The routing of a credit; \<open>AddCredit\<close> of the organisation repository is \<open>add_pool\<close>.\<close>

definition route_credit ::
  "wallet_db \<Rightarrow> org_db \<Rightarrow> wallet_svc \<Rightarrow> string \<Rightarrow> int \<Rightarrow> int \<Rightarrow> int \<Rightarrow> store \<Rightarrow> store \<times> topup_error option"
where
  "route_credit ok odb sv ty target n actor s =
     (if ty = ''user'' then
        (let (s', e) = credit_user ok sv target 0 n ''topup approved'' (Some actor) s
         in (s', map_option TCredit e))
      else if ty = ''group'' then
        (let (s', e) = credit_group ok sv target n (Some actor) s in (s', map_option TCredit e))
      else if ty = ''org'' then
        (let (s', b) = add_pool odb target n s in (s', if b then None else Some TDbError))
      else (s, Some UnknownTarget))"

section \<open>The service\<close>

definition topup_create ::
  "topup_db \<Rightarrow> int \<Rightarrow> int \<Rightarrow> string \<Rightarrow> int \<Rightarrow> int \<Rightarrow> string \<Rightarrow> topup_req list \<Rightarrow> topup_req list \<times> topup_error option"
where
  "topup_create ok i requester ty target n reason rs =
     (let tid = (if ty = ''user'' \<and> target = 0 then requester else target)
      in if ok TCreate
         then (rs @ [\<lparr>t_id = i, t_requester = requester, t_type = ty, t_target = tid, t_amount = n,
                       t_reason = reason, t_status = ''pending'', t_reviewer = None\<rparr>], None)
         else (rs, Some TDbError))"

text \<open>\<open>UPDATE ... WHERE id=? AND status='pending'\<close>.\<close>

definition mark_reviewed ::
  "topup_db \<Rightarrow> int \<Rightarrow> int \<Rightarrow> string \<Rightarrow> topup_req list \<Rightarrow> topup_req list \<times> topup_error option" where
  "mark_reviewed ok i reviewer status rs =
     (if ok TMark
      then (upd_where (\<lambda>r. t_id r = i \<and> t_status r = ''pending'')
              (\<lambda>r. r\<lparr>t_status := status, t_reviewer := Some reviewer\<rparr>) rs, None)
      else (rs, Some TDbError))"

definition topup_approve ::
  "topup_db \<Rightarrow> wallet_db \<Rightarrow> org_db \<Rightarrow> wallet_svc \<Rightarrow> int \<Rightarrow> int \<Rightarrow> topup_req list \<times> store
   \<Rightarrow> (topup_req list \<times> store) \<times> topup_error option" where
  "topup_approve ok wdb odb sv i reviewer st =
     (let (rs, s) = st
      in if \<not> ok TGet then (st, Some TDbError)
         else (case row_of t_id i rs of None \<Rightarrow> (st, Some TNotFound)
               | Some r \<Rightarrow>
                   if t_status r \<noteq> ''pending'' then (st, Some AlreadyReviewed)
                   else (case route_credit wdb odb sv (t_type r) (t_target r) (t_amount r) reviewer s of
                           (s', Some e) \<Rightarrow> ((rs, s'), Some e)
                         | (s', None) \<Rightarrow>
                             (let (rs', e) = mark_reviewed ok i reviewer ''approved'' rs
                              in ((rs', s'), e)))))"

definition topup_reject ::
  "topup_db \<Rightarrow> int \<Rightarrow> int \<Rightarrow> topup_req list \<times> store \<Rightarrow> (topup_req list \<times> store) \<times> topup_error option" where
  "topup_reject ok i reviewer st =
     (let (rs', e) = mark_reviewed ok i reviewer ''rejected'' (fst st) in ((rs', snd st), e))"

section \<open>Facts\<close>

lemma row_of_mark:
  "row_of t_id j (upd_where (\<lambda>r. t_id r = i \<and> t_status r = ''pending'')
      (\<lambda>r. r\<lparr>t_status := status, t_reviewer := rv\<rparr>) rs) =
   map_option (\<lambda>r. if t_id r = i \<and> t_status r = ''pending'' then r\<lparr>t_status := status, t_reviewer := rv\<rparr> else r)
     (row_of t_id j rs)"
  by (rule row_of_upd_where) simp

lemma approve_ok:
  assumes "topup_approve ok wdb odb sv i reviewer (rs, s) = ((rs', s'), None)"
  obtains r where "row_of t_id i rs = Some r" "t_status r = ''pending''"
    "route_credit wdb odb sv (t_type r) (t_target r) (t_amount r) reviewer s = (s', None)"
    "row_of t_id i rs' = Some (r\<lparr>t_status := ''approved'', t_reviewer := Some reviewer\<rparr>)"
proof -
  from assms obtain r where r: "row_of t_id i rs = Some r" "t_status r = ''pending''"
    by (auto simp: topup_approve_def Let_def split: option.splits if_splits)
  obtain s1 e where c: "route_credit wdb odb sv (t_type r) (t_target r) (t_amount r) reviewer s = (s1, e)"
    by (cases "route_credit wdb odb sv (t_type r) (t_target r) (t_amount r) reviewer s")
  have e: "e = None" "s1 = s'" "mark_reviewed ok i reviewer ''approved'' rs = (rs', None)"
    using assms r c by (auto simp: topup_approve_def Let_def split: option.splits if_splits prod.splits)
  have "t_id r = i" using row_of_Some [OF r(1)] by simp
  then have "row_of t_id i rs' = Some (r\<lparr>t_status := ''approved'', t_reviewer := Some reviewer\<rparr>)"
    using e(3) r by (auto simp: mark_reviewed_def row_of_mark split: if_splits)
  with r c e show ?thesis using that by blast
qed

lemma approve_reviewed:
  assumes "row_of t_id i rs = Some r" "t_status r \<noteq> ''pending''"
  shows "fst (topup_approve ok wdb odb sv i reviewer (rs, s)) = (rs, s) \<and>
    snd (topup_approve ok wdb odb sv i reviewer (rs, s)) \<noteq> None"
  using assms by (simp add: topup_approve_def)

context credit_pool
begin

lemma credit_group_moves:
  assumes "credit_group ok \<lparr>ws_pool = Some P, ws_plat = pl\<rparr> g n actor s = (s', None)"
  shows "group_balance s' h = group_balance s h + (if h = g then n else 0)"
    "0 < n \<Longrightarrow> pool_of s' i = pool_of s i - (if org_g s g = Some i then n else 0)"
proof -
  obtain s1 r where d: "(if 0 < n then p_draw_group P g n s else (s, Some True)) = (s1, r)"
    by (cases "if 0 < n then p_draw_group P g n s else (s, Some True)")
  obtain s2 b where a: "apply_group_tx ok g TxTopup n actor [] s1 = (s2, b)"
    by (cases "apply_group_tx ok g TxTopup n actor [] s1")
  have c: "r = Some True" "s' = s2" "b \<noteq> None"
    using assms d a by (auto simp: credit_group_def posted_def split: option.splits bool.splits)
  then obtain b' where "b = Some b'" by blast
  note e = apply_group_tx_effect [OF a [unfolded this]]
  have w: "gwallets s1 = gwallets s"
    using d draw_group_wallets [of g n s s1 r] by (auto split: if_splits)
  show "group_balance s' h = group_balance s h + (if h = g then n else 0)"
    using e(2) group_balance_cong [OF w] by (simp add: c(2))
  show "0 < n \<Longrightarrow> pool_of s' i = pool_of s i - (if org_g s g = Some i then n else 0)"
    using d draw_group_pool [of g n s s1 i] pool_of_orgs [OF e(5), of i] by (simp add: c(1,2))
qed

end

section \<open>Properties\<close>

text \<open>a request is paid once. A successful approval of a request for a group has paid the
  requested amount to the group, out of the pool of its organisation, and closed the request;
  every later approval, whatever the database does, is refused and moves no credit, and a later
  rejection leaves the request approved.\<close>

theorem topup_paid_once:
  assumes "topup_approve ok wdb odb (live_svc odb pl) i reviewer (rs, s) = ((rs', s'), None)"
  shows "(\<exists>r. row_of t_id i rs = Some r \<and> t_status r = ''pending'' \<and>
            (t_type r = ''group'' \<longrightarrow>
               group_balance s' (t_target r) = group_balance s (t_target r) + t_amount r \<and>
               (0 < t_amount r \<longrightarrow> (\<forall>j. pool_of s' j = pool_of s j -
                  (if org_of_group odb s (t_target r) = Some j then t_amount r else 0))))) \<and>
         fst (topup_approve ok2 wdb2 odb2 sv2 i reviewer2 (rs', s')) = (rs', s') \<and>
         snd (topup_approve ok2 wdb2 odb2 sv2 i reviewer2 (rs', s')) \<noteq> None \<and>
         map_option t_status (row_of t_id i (fst (fst (topup_reject ok2 i reviewer2 (rs', s'))))) =
           Some ''approved''"
proof -
  from assms obtain r where r: "row_of t_id i rs = Some r" "t_status r = ''pending''"
    "route_credit wdb odb (live_svc odb pl) (t_type r) (t_target r) (t_amount r) reviewer s = (s', None)"
    "row_of t_id i rs' = Some (r\<lparr>t_status := ''approved'', t_reviewer := Some reviewer\<rparr>)"
    by (rule approve_ok)
  have "credit_group wdb (live_svc odb pl) (t_target r) (t_amount r) (Some reviewer) s = (s', None)"
    if "t_type r = ''group''"
    using r(3) that by (auto simp: route_credit_def split: prod.splits)
  note paid = op.credit_group_moves [OF this [unfolded live_svc_def]]
  have "map_option t_status (row_of t_id i (fst (fst (topup_reject ok2 i reviewer2 (rs', s'))))) =
      Some ''approved''"
    using r(4) by (simp add: topup_reject_def mark_reviewed_def row_of_mark)
  then show ?thesis using r approve_reviewed [OF r(4)] paid by auto
qed

definition one_request :: "topup_req list" where
  "one_request = [\<lparr>t_id = 5, t_requester = 3, t_type = ''group'', t_target = 7, t_amount = 20,
     t_reason = '''', t_status = ''pending'', t_reviewer = None\<rparr>]"

theorem topup_paid_once_witness:
  "\<exists>rs' s'. topup_approve (\<lambda>_. True) (\<lambda>_. True) (\<lambda>_. True) (live_svc (\<lambda>_. True) None) 5 1
      (one_request, sample_store) = ((rs', s'), None) \<and>
    fst (topup_approve (\<lambda>_. True) (\<lambda>_. True) (\<lambda>_. True) (live_svc (\<lambda>_. True) None) 5 2 (rs', s')) = (rs', s')"
proof -
  let ?a = "topup_approve (\<lambda>_. True) (\<lambda>_. True) (\<lambda>_. True) (live_svc (\<lambda>_. True) None) 5 1
      (one_request, sample_store)"
  have "snd ?a = None" by code_simp
  then obtain rs' s' where a: "?a = ((rs', s'), None)" by (metis prod.collapse)
  show ?thesis using a topup_paid_once [OF a] by blast
qed

text \<open>the payment and the closing of the request are separate statements. If the closing one
  fails after the payment, the request stays pending, and approving it again pays a second time.\<close>

theorem topup_can_pay_twice:
  assumes "row_of t_id i rs = Some r" "t_status r = ''pending''" "t_type r = ''group''"
    and "ok TGet" "\<not> ok TMark" "wdb GroupTxT" "ws_pool sv = None" "ok2 TGet" "ok2 TMark"
  shows "\<exists>s1 rs2 s2. topup_approve ok wdb odb sv i rv (rs, s) = ((rs, s1), Some TDbError) \<and>
    topup_approve ok2 wdb odb sv i rv (rs, s1) = ((rs2, s2), None) \<and>
    group_balance s2 (t_target r) = group_balance s (t_target r) + 2 * t_amount r"
proof -
  define pay where "pay = (\<lambda>s. apply_group_tx wdb (t_target r) TxTopup (t_amount r) (Some rv) [] s)"
  have some: "snd (pay s) \<noteq> None" for s
    using assms(6) by (simp add: pay_def apply_group_tx_def Let_def)
  have rc: "route_credit wdb odb sv (t_type r) (t_target r) (t_amount r) rv s = (fst (pay s), None)" for s
    using assms(3,7) some [of s] by (auto simp: route_credit_def credit_group_def posted_def pay_def split: option.splits)
  have b: "group_balance (fst (pay s)) (t_target r) = group_balance s (t_target r) + t_amount r" for s
  proof -
    obtain s' x where "pay s = (s', Some x)" using some [of s] by (cases "pay s") auto
    then show ?thesis using apply_group_tx_effect(2) [of wdb "t_target r" TxTopup "t_amount r" "Some rv" "[]" s s' x "t_target r"]
      by (simp add: pay_def)
  qed
  have "topup_approve ok wdb odb sv i rv (rs, s) = ((rs, fst (pay s)), Some TDbError)"
    using assms rc by (simp add: topup_approve_def mark_reviewed_def)
  moreover have "\<exists>rs2. topup_approve ok2 wdb odb sv i rv (rs, fst (pay s)) = ((rs2, fst (pay (fst (pay s)))), None)"
    using assms rc by (simp add: topup_approve_def mark_reviewed_def)
  ultimately show ?thesis using b by fastforce
qed

theorem topup_can_pay_twice_witness:
  "\<exists>s1 rs2 s2. topup_approve (\<lambda>x. x \<noteq> TMark) (\<lambda>_. True) (\<lambda>_. True) \<lparr>ws_pool = None, ws_plat = None\<rparr> 5 1
      (one_request, sample_store) = ((one_request, s1), Some TDbError) \<and>
    topup_approve (\<lambda>_. True) (\<lambda>_. True) (\<lambda>_. True) \<lparr>ws_pool = None, ws_plat = None\<rparr> 5 1 (one_request, s1) = ((rs2, s2), None) \<and>
    group_balance s2 7 = 100"
proof -
  have b: "group_balance sample_store 7 = 60" by code_simp
  show ?thesis
    using topup_can_pay_twice [of 5 one_request "hd one_request" "\<lambda>x. x \<noteq> TMark" "\<lambda>_. True"
        "\<lparr>ws_pool = None, ws_plat = None\<rparr>" "\<lambda>_. True" "\<lambda>_. True" 1 sample_store] b
    by (simp add: one_request_def)
qed

end
