(* ===== verification/Session_Model.thy ===== *)
theory Session_Model
  imports Giosk_Prelude
begin

text \<open>
  The session tables and their repository (\<open>internal/session/model.go\<close>, \<open>repo.go\<close>): the row of
  \<open>sessions\<close>, the mounts attached to it, the GPU usage ledger, and one definition per statement.
  Every write statement may fail; the oracle says which do, by statement and instance. String
  comparisons of the database are exact equality, and a row's \<open>NULL\<close> is \<open>None\<close>.
\<close>

section \<open>Rows\<close>

datatype phase = Provisioning | Running | Stopped | Terminated

record session =
  s_id :: int
  s_instance :: string
  s_user :: int
  s_group :: "int option"
  s_name :: string
  s_env :: string
  s_mode :: string
  s_offering :: "int option"
  s_image :: "int option"
  s_vram :: int
  s_core :: int
  s_cpu :: int
  s_mem :: int
  s_home :: "int option"
  s_gpus :: int
  s_gtype :: string
  s_node :: string
  s_ip :: string
  s_phase :: phase
  s_created :: time
  s_price :: int
  s_started :: "time option"
  s_billed :: int
  s_extensions :: int
  s_stopped_secs :: int
  s_storage_billed :: int
  s_stopped_since :: "time option"
  s_web_password :: string

record vol_mount =
  vm_id :: int
  vm_path :: string
  vm_perm :: string

record session_volume =
  sv_session :: int
  sv_volume :: int
  sv_path :: string
  sv_perm :: string

record session_dataset =
  sd_session :: int
  sd_dataset :: int
  sd_node :: string

record gpu_usage =
  gu_user :: int
  gu_group :: "int option"
  gu_ref :: string
  gu_count :: int
  gu_seconds :: int

record session_db =
  sessions :: "session list"
  svols :: "session_volume list"
  sdsets :: "session_dataset list"
  usage :: "gpu_usage list"
  next_id :: int

definition ssh_env :: "session \<Rightarrow> bool" where
  "ssh_env s = (s_env s = ''ssh'')"

definition gid_of :: "session \<Rightarrow> int" where
  "gid_of s = (case s_group s of Some g \<Rightarrow> g | None \<Rightarrow> 0)"

text \<open>A session that has passed the gate and holds its place.\<close>

definition active_phase :: "phase \<Rightarrow> bool" where
  "active_phase p = (p = Provisioning \<or> p = Running)"

section \<open>Statements\<close>

datatype sstmt =
    SCreate | SGet | SLive | SPhase | SSpec | SClearNode | SClaim | SBilled | SUsage | SReset
  | SExtend | SDelete | SMarkStopped | SClearStopped | SStorage | SList

type_synonym sdb_oracle = "sstmt \<Rightarrow> string \<Rightarrow> bool"

definition session_of :: "session_db \<Rightarrow> string \<Rightarrow> session option" where
  "session_of db i = row_of s_instance i (sessions db)"

text \<open>\<open>UPDATE sessions SET ... WHERE instance_id = ?\<close>.\<close>

definition upd_session :: "string \<Rightarrow> (session \<Rightarrow> session) \<Rightarrow> session_db \<Rightarrow> session_db" where
  "upd_session i f db = db\<lparr>sessions := upd_row s_instance i f (sessions db)\<rparr>"

definition write_row :: "sdb_oracle \<Rightarrow> sstmt \<Rightarrow> string \<Rightarrow> (session \<Rightarrow> session) \<Rightarrow> session_db \<Rightarrow> session_db \<times> bool" where
  "write_row ok st i f db = (if ok st i then (upd_session i f db, True) else (db, False))"

text \<open>\<open>instance_id\<close> is unique, so inserting an existing one fails.\<close>

definition create_row :: "sdb_oracle \<Rightarrow> time \<Rightarrow> session \<Rightarrow> session_db \<Rightarrow> session_db \<times> session option" where
  "create_row ok now s db =
     (if ok SCreate (s_instance s) \<and> session_of db (s_instance s) = None
      then (let s' = s\<lparr>s_id := next_id db, s_created := now\<rparr>
            in (db\<lparr>sessions := sessions db @ [s'], next_id := next_id db + 1\<rparr>, Some s'))
      else (db, None))"

definition get_session :: "sdb_oracle \<Rightarrow> string \<Rightarrow> int \<Rightarrow> session_db \<Rightarrow> session option" where
  "get_session ok i u db =
     (if ok SGet i then find (\<lambda>s. s_instance s = i \<and> s_user s = u) (sessions db) else None)"

definition get_by_instance :: "sdb_oracle \<Rightarrow> string \<Rightarrow> session_db \<Rightarrow> session option" where
  "get_by_instance ok i db = (if ok SGet i then session_of db i else None)"

definition update_live :: "sdb_oracle \<Rightarrow> string \<Rightarrow> phase \<Rightarrow> string \<Rightarrow> string \<Rightarrow> session_db \<Rightarrow> session_db \<times> bool" where
  "update_live ok i p node ip = write_row ok SLive i (\<lambda>s. s\<lparr>s_phase := p, s_node := node, s_ip := ip\<rparr>)"

definition set_phase :: "sdb_oracle \<Rightarrow> string \<Rightarrow> phase \<Rightarrow> session_db \<Rightarrow> session_db \<times> bool" where
  "set_phase ok i p = write_row ok SPhase i (\<lambda>s. s\<lparr>s_phase := p\<rparr>)"

definition clear_node :: "sdb_oracle \<Rightarrow> string \<Rightarrow> session_db \<Rightarrow> session_db \<times> bool" where
  "clear_node ok i = write_row ok SClearNode i (\<lambda>s. s\<lparr>s_node := '''', s_ip := ''''\<rparr>)"

definition update_spec :: "sdb_oracle \<Rightarrow> string \<Rightarrow> session \<Rightarrow> session_db \<Rightarrow> session_db \<times> bool" where
  "update_spec ok i n = write_row ok SSpec i
     (\<lambda>s. s\<lparr>s_mode := s_mode n, s_gtype := s_gtype n, s_gpus := s_gpus n, s_offering := s_offering n,
             s_image := s_image n, s_vram := s_vram n, s_core := s_core n, s_cpu := s_cpu n,
             s_mem := s_mem n, s_price := s_price n\<rparr>)"

text \<open>\<open>UPDATE sessions SET phase='provisioning' WHERE instance_id = ? AND phase='stopped'\<close>: \<open>None\<close>
  is a failed statement, otherwise whether a row was affected.\<close>

definition claim_for_start :: "sdb_oracle \<Rightarrow> string \<Rightarrow> session_db \<Rightarrow> session_db \<times> bool option" where
  "claim_for_start ok i db =
     (if ok SClaim i
      then (db\<lparr>sessions := upd_where (\<lambda>s. s_instance s = i \<and> s_phase s = Stopped)
                 (\<lambda>s. s\<lparr>s_phase := Provisioning\<rparr>) (sessions db)\<rparr>,
            Some (\<exists>s \<in> set (sessions db). s_instance s = i \<and> s_phase s = Stopped))
      else (db, None))"

definition set_billed :: "sdb_oracle \<Rightarrow> string \<Rightarrow> int \<Rightarrow> session_db \<Rightarrow> session_db \<times> bool" where
  "set_billed ok i n = write_row ok SBilled i (\<lambda>s. s\<lparr>s_billed := n\<rparr>)"

definition record_gpu_usage ::
  "sdb_oracle \<Rightarrow> int \<Rightarrow> int \<Rightarrow> string \<Rightarrow> int \<Rightarrow> int \<Rightarrow> session_db \<Rightarrow> session_db \<times> bool" where
  "record_gpu_usage ok u g ref secs n db =
     (if secs \<le> 0 then (db, True)
      else if ok SUsage ref
      then (db\<lparr>usage := usage db @ [\<lparr>gu_user = u, gu_group = (if 0 < g then Some g else None),
              gu_ref = ref, gu_count = max n 1, gu_seconds = secs\<rparr>]\<rparr>, True)
      else (db, False))"

definition reset_billing :: "sdb_oracle \<Rightarrow> string \<Rightarrow> time \<Rightarrow> session_db \<Rightarrow> session_db \<times> bool" where
  "reset_billing ok i t = write_row ok SReset i (\<lambda>s. s\<lparr>s_started := Some t, s_billed := 0\<rparr>)"

definition increment_extensions ::
  "sdb_oracle \<Rightarrow> string \<Rightarrow> int \<Rightarrow> int \<Rightarrow> session_db \<Rightarrow> session_db \<times> bool option" where
  "increment_extensions ok i u mx db =
     (let P = (\<lambda>s. s_instance s = i \<and> s_user s = u \<and> s_extensions s < mx)
      in if ok SExtend i
         then (db\<lparr>sessions := upd_where P (\<lambda>s. s\<lparr>s_extensions := s_extensions s + 1\<rparr>) (sessions db)\<rparr>,
               Some (list_ex P (sessions db)))
         else (db, None))"

definition delete_row :: "sdb_oracle \<Rightarrow> string \<Rightarrow> session_db \<Rightarrow> session_db \<times> bool" where
  "delete_row ok i db =
     (if ok SDelete i
      then (db\<lparr>sessions := filter (\<lambda>s. s_instance s \<noteq> i) (sessions db)\<rparr>, True) else (db, False))"

definition mark_stopped :: "sdb_oracle \<Rightarrow> string \<Rightarrow> time \<Rightarrow> session_db \<Rightarrow> session_db \<times> bool" where
  "mark_stopped ok i t = write_row ok SMarkStopped i (\<lambda>s. s\<lparr>s_stopped_since := Some t\<rparr>)"

definition clear_stopped :: "sdb_oracle \<Rightarrow> string \<Rightarrow> int \<Rightarrow> session_db \<Rightarrow> session_db \<times> bool" where
  "clear_stopped ok i acc = write_row ok SClearStopped i
     (\<lambda>s. s\<lparr>s_stopped_secs := s_stopped_secs s + (if acc < 0 then 0 else acc), s_stopped_since := None\<rparr>)"

definition set_storage_billed ::
  "sdb_oracle \<Rightarrow> string \<Rightarrow> int \<Rightarrow> int \<Rightarrow> time \<Rightarrow> session_db \<Rightarrow> session_db \<times> bool" where
  "set_storage_billed ok i secs n t = write_row ok SStorage i
     (\<lambda>s. s\<lparr>s_stopped_secs := secs, s_storage_billed := n, s_stopped_since := Some t\<rparr>)"

section \<open>Queries\<close>

definition list_by_user :: "int \<Rightarrow> int \<Rightarrow> session_db \<Rightarrow> session list" where
  "list_by_user u g db =
     rev (filter (\<lambda>s. s_user s = u \<and> (0 < g \<longrightarrow> s_group s = Some g)) (sessions db))"

definition list_running :: "session_db \<Rightarrow> session list" where
  "list_running db = filter (\<lambda>s. s_phase s = Running) (sessions db)"

definition list_stopped :: "session_db \<Rightarrow> session list" where
  "list_stopped db = filter (\<lambda>s. s_phase s = Stopped \<and> \<not> ssh_env s) (sessions db)"

definition list_active_container :: "session_db \<Rightarrow> session list" where
  "list_active_container db = filter (\<lambda>s. \<not> ssh_env s \<and> active_phase (s_phase s)) (sessions db)"

definition count_active :: "int \<Rightarrow> session_db \<Rightarrow> int" where
  "count_active u db = int (length (filter (\<lambda>s. s_user s = u \<and> active_phase (s_phase s)) (sessions db)))"

definition count_stopped :: "int \<Rightarrow> session_db \<Rightarrow> int" where
  "count_stopped u db = int (length (filter (\<lambda>s. s_user s = u \<and> s_phase s = Stopped) (sessions db)))"

definition allocated_home :: "int \<Rightarrow> int \<Rightarrow> session_db \<Rightarrow> int" where
  "allocated_home u dflt db =
     (\<Sum>s \<leftarrow> filter (\<lambda>s. s_user s = u \<and> \<not> ssh_env s) (sessions db).
        case s_home s of Some h \<Rightarrow> h | None \<Rightarrow> dflt)"

text \<open>The user's most recently stopped container session: \<open>ORDER BY stopped_since DESC LIMIT 1\<close>
  (the empty string when there is none; of equal times the first row is taken).\<close>

fun newest :: "(string \<times> time) option \<Rightarrow> session list \<Rightarrow> (string \<times> time) option" where
  "newest best [] = best"
| "newest best (s # ss) =
     newest (case s_stopped_since s of None \<Rightarrow> best
             | Some t \<Rightarrow> (case best of None \<Rightarrow> Some (s_instance s, t)
                 | Some (i, t') \<Rightarrow> if t' < t then Some (s_instance s, t) else best)) ss"

definition newest_stopped :: "int \<Rightarrow> session_db \<Rightarrow> string" where
  "newest_stopped u db =
     (case newest None (filter (\<lambda>s. s_user s = u \<and> s_phase s = Stopped \<and> \<not> ssh_env s) (sessions db)) of
        None \<Rightarrow> '''' | Some (i, _) \<Rightarrow> i)"

definition add_volume :: "(int \<Rightarrow> int \<Rightarrow> bool) \<Rightarrow> int \<Rightarrow> int \<Rightarrow> string \<Rightarrow> string \<Rightarrow> session_db \<Rightarrow> session_db \<times> bool" where
  "add_volume ok sid vid path perm db =
     (if ok sid vid \<and> \<not> list_ex (\<lambda>v. sv_session v = sid \<and> sv_volume v = vid) (svols db)
      then (db\<lparr>svols := svols db @ [\<lparr>sv_session = sid, sv_volume = vid, sv_path = path, sv_perm = perm\<rparr>]\<rparr>, True)
      else (db, False))"

definition add_dataset :: "(int \<Rightarrow> int \<Rightarrow> bool) \<Rightarrow> int \<Rightarrow> int \<Rightarrow> string \<Rightarrow> session_db \<Rightarrow> session_db \<times> bool" where
  "add_dataset ok sid did node db =
     (if ok sid did \<and> \<not> list_ex (\<lambda>v. sd_session v = sid \<and> sd_dataset v = did) (sdsets db)
      then (db\<lparr>sdsets := sdsets db @ [\<lparr>sd_session = sid, sd_dataset = did, sd_node = node\<rparr>]\<rparr>, True)
      else (db, False))"

definition session_volume_mounts :: "int \<Rightarrow> session_db \<Rightarrow> vol_mount list" where
  "session_volume_mounts sid db =
     map (\<lambda>v. \<lparr>vm_id = sv_volume v, vm_path = sv_path v, vm_perm = sv_perm v\<rparr>)
       (filter (\<lambda>v. sv_session v = sid) (svols db))"

definition session_dataset_ids :: "int \<Rightarrow> session_db \<Rightarrow> int list" where
  "session_dataset_ids sid db = map sd_dataset (filter (\<lambda>v. sd_session v = sid) (sdsets db))"

text \<open>How many other active sessions of the user mount the volume (the dataset).\<close>

definition active_with_volume :: "int \<Rightarrow> int \<Rightarrow> string \<Rightarrow> session_db \<Rightarrow> int" where
  "active_with_volume u vid excl db =
     int (length [v. s \<leftarrow> sessions db, v \<leftarrow> svols db,
        sv_session v = s_id s \<and> s_user s = u \<and> sv_volume v = vid \<and> s_instance s \<noteq> excl \<and> active_phase (s_phase s)])"

definition active_with_dataset :: "int \<Rightarrow> int \<Rightarrow> string \<Rightarrow> session_db \<Rightarrow> int" where
  "active_with_dataset u did excl db =
     int (length [v. s \<leftarrow> sessions db, v \<leftarrow> sdsets db,
        sd_session v = s_id s \<and> s_user s = u \<and> sd_dataset v = did \<and> s_instance s \<noteq> excl \<and> active_phase (s_phase s)])"

section \<open>What the statements do to a row\<close>

lemma row_of_upd_where_other: "(\<And>r. P r \<Longrightarrow> key r \<noteq> k) \<Longrightarrow> (\<And>r. key (f r) = key r) \<Longrightarrow> row_of key k (upd_where P f t) = row_of key k t"
  by (induction t) auto

lemma session_of_write:
  assumes "\<And>s. s_instance (f s) = s_instance s"
  shows "session_of (fst (write_row ok st i f db)) j =
    (if j = i \<and> ok st i then map_option f (session_of db i) else session_of db j)"
  using assms by (simp add: write_row_def upd_session_def session_of_def row_of_upd_row)

lemma instances_write:
  assumes "\<And>s. s_instance (f s) = s_instance s"
  shows "map s_instance (sessions (fst (write_row ok st i f db))) = map s_instance (sessions db)"
  using assms by (simp add: write_row_def upd_session_def keys_upd_row)

lemma session_of_instance: "session_of db i = Some s \<Longrightarrow> s_instance s = i"
  unfolding session_of_def by (drule row_of_Some) simp

lemma session_of_set_phase [simp]: "session_of (fst (set_phase ok i p db)) j =
    (if j = i \<and> ok SPhase i then map_option (\<lambda>s. s\<lparr>s_phase := p\<rparr>) (session_of db i) else session_of db j)"
  and session_of_mark_stopped [simp]: "session_of (fst (mark_stopped ok i t db)) j =
    (if j = i \<and> ok SMarkStopped i then map_option (\<lambda>s. s\<lparr>s_stopped_since := Some t\<rparr>) (session_of db i) else session_of db j)"
  and session_of_set_billed [simp]: "session_of (fst (set_billed ok i n db)) j =
    (if j = i \<and> ok SBilled i then map_option (\<lambda>s. s\<lparr>s_billed := n\<rparr>) (session_of db i) else session_of db j)"
  and session_of_set_storage [simp]: "session_of (fst (set_storage_billed ok i secs n t db)) j =
    (if j = i \<and> ok SStorage i
     then map_option (\<lambda>s. s\<lparr>s_stopped_secs := secs, s_storage_billed := n, s_stopped_since := Some t\<rparr>) (session_of db i)
     else session_of db j)"
  and session_of_reset [simp]: "session_of (fst (reset_billing ok i t db)) j =
    (if j = i \<and> ok SReset i then map_option (\<lambda>s. s\<lparr>s_started := Some t, s_billed := 0\<rparr>) (session_of db i) else session_of db j)"
  and session_of_clear_stopped [simp]: "session_of (fst (clear_stopped ok i acc db)) j =
    (if j = i \<and> ok SClearStopped i
     then map_option (\<lambda>s. s\<lparr>s_stopped_secs := s_stopped_secs s + (if acc < 0 then 0 else acc), s_stopped_since := None\<rparr>) (session_of db i)
     else session_of db j)"
  and session_of_clear_node [simp]: "session_of (fst (clear_node ok i db)) j =
    (if j = i \<and> ok SClearNode i then map_option (\<lambda>s. s\<lparr>s_node := [], s_ip := []\<rparr>) (session_of db i) else session_of db j)"
  and session_of_update_live [simp]: "session_of (fst (update_live ok i p node ip db)) j =
    (if j = i \<and> ok SLive i then map_option (\<lambda>s. s\<lparr>s_phase := p, s_node := node, s_ip := ip\<rparr>) (session_of db i) else session_of db j)"
  by (simp_all add: set_phase_def mark_stopped_def set_billed_def set_storage_billed_def reset_billing_def
      clear_stopped_def clear_node_def update_live_def session_of_write)

lemma instances_ops [simp]:
  "map s_instance (sessions (fst (set_phase ok i p db))) = map s_instance (sessions db)"
  "map s_instance (sessions (fst (mark_stopped ok i t db))) = map s_instance (sessions db)"
  "map s_instance (sessions (fst (set_billed ok i n db))) = map s_instance (sessions db)"
  "map s_instance (sessions (fst (set_storage_billed ok i secs n t db))) = map s_instance (sessions db)"
  by (simp_all add: set_phase_def mark_stopped_def set_billed_def set_storage_billed_def instances_write)

lemma record_usage_sessions [simp]: "sessions (fst (record_gpu_usage ok u g r secs n db)) = sessions db"
  by (simp add: record_gpu_usage_def)

lemma session_of_record_usage [simp]: "session_of (fst (record_gpu_usage ok u g r secs n db)) j = session_of db j"
  by (simp add: session_of_def)

text \<open>The unique key of the table.\<close>

definition instances_distinct :: "session_db \<Rightarrow> bool" where
  "instances_distinct db = keys_distinct s_instance (sessions db)"

lemma session_of_member: "instances_distinct db \<Longrightarrow> s \<in> set (sessions db) \<Longrightarrow> session_of db (s_instance s) = Some s"
  by (simp add: instances_distinct_def session_of_def row_of_member)

end
