(* ===== verification/Availability.thy ===== *)
theory Availability
  imports Session_Model "HOL-Library.List_Lexorder" "HOL-Library.Char_ord"
begin

text \<open>
  GPU availability and the admission gate (\<open>internal/resource/availability.go\<close>): the counters
  over the session table, the inventory by node and by GPU type, \<open>CanPlace\<close> and
  \<open>NodeSupports\<close>. The cluster inventory (\<open>ListNodes\<close>) is a parameter: a node list, or
  \<open>None\<close> when the cluster cannot be asked. The counters' queries are taken to succeed.
\<close>

section \<open>The node table and the live inventory\<close>

record node_row =
  nr_name :: string
  nr_share_mode :: string
  nr_split :: int

record live_node =
  ln_name :: string
  ln_gpu_type :: string
  ln_physical :: bool
  ln_cordoned :: bool
  ln_share_mode :: string
  ln_ready :: bool
  ln_gpu_capacity :: string
  ln_cpu :: int
  ln_mem_gb :: int
  ln_cuda :: string
  ln_cuda_min :: string
  ln_cuda_max :: string
  ln_gpu_mem :: int

fun atoi_from :: "int \<Rightarrow> string \<Rightarrow> int" where
  "atoi_from n [] = n"
| "atoi_from n (c # cs) = (if is_digit c then atoi_from (n * 10 + (of_char c - 48)) cs else n)"

definition atoi_safe :: "string \<Rightarrow> int" where
  "atoi_safe s = atoi_from 0 s"

definition clamp_nonneg :: "int \<Rightarrow> int" where
  "clamp_nonneg v = (if v < 0 then 0 else v)"

section \<open>Counters over the session table\<close>

record share_use =
  su_vram :: int
  su_cores :: int
  su_count :: int

record reservation =
  rv_gpus :: "string \<Rightarrow> int"
  rv_shared :: "string \<Rightarrow> share_use"

text \<open>\<open>usedGpuExpr\<close> and \<open>admittedPhases\<close>.\<close>

definition used_gpu :: "session \<Rightarrow> int" where
  "used_gpu s = (if s_mode s = ''exclusive'' then max (s_gpus s) 1 else if s_mode s = ''cpu'' then 0 else 1)"

definition admitted :: "session \<Rightarrow> bool" where
  "admitted s = active_phase (s_phase s)"

definition sum_where :: "(session \<Rightarrow> bool) \<Rightarrow> (session \<Rightarrow> int) \<Rightarrow> session list \<Rightarrow> int" where
  "sum_where P f ss = (\<Sum>s \<leftarrow> filter P ss. f s)"

definition running_by_gpu_type :: "session list \<Rightarrow> string \<Rightarrow> int" where
  "running_by_gpu_type ss t = sum_where (\<lambda>s. admitted s \<and> s_gtype s = t) used_gpu ss"

definition running_by_node :: "session list \<Rightarrow> string \<Rightarrow> int" where
  "running_by_node ss n = sum_where (\<lambda>s. admitted s \<and> s_node s \<noteq> '''' \<and> s_node s = n) used_gpu ss"

text \<open>Admitted sessions without a node yet, by GPU type; shared ones by what they ask of a card.\<close>

definition unplaced :: "string \<Rightarrow> session \<Rightarrow> bool" where
  "unplaced t s = (s_phase s = Provisioning \<and> s_node s = '''' \<and> s_mode s \<noteq> ''cpu'' \<and>
     s_gtype s \<noteq> '''' \<and> s_gtype s = t)"

definition share_sum :: "(session \<Rightarrow> bool) \<Rightarrow> session list \<Rightarrow> share_use" where
  "share_sum P ss =
     \<lparr>su_vram = sum_where P s_vram ss, su_cores = sum_where P s_core ss, su_count = sum_where P (\<lambda>_. 1) ss\<rparr>"

definition reserved :: "session list \<Rightarrow> reservation" where
  "reserved ss =
     \<lparr>rv_gpus = (\<lambda>t. sum_where (\<lambda>s. unplaced t s \<and> s_mode s \<noteq> ''shared'') (\<lambda>s. max (s_gpus s) 1) ss),
      rv_shared = (\<lambda>t. share_sum (\<lambda>s. unplaced t s \<and> s_mode s = ''shared'') ss)\<rparr>"

definition running_physical_nodes :: "session list \<Rightarrow> string \<Rightarrow> bool" where
  "running_physical_nodes ss n = list_ex (\<lambda>s. ssh_env s \<and> s_node s \<noteq> '''' \<and> s_node s = n \<and> admitted s) ss"

definition hami_nodes :: "node_row list \<Rightarrow> string \<Rightarrow> bool" where
  "hami_nodes ns n = list_ex (\<lambda>r. nr_name r = n \<and> nr_share_mode r = ''hami'') ns"

definition node_split_count :: "node_row list \<Rightarrow> string \<Rightarrow> int" where
  "node_split_count ns n =
     (case find (\<lambda>r. nr_name r = n \<and> nr_share_mode r = ''hami'') ns of None \<Rightarrow> 0 | Some r \<Rightarrow> nr_split r)"

definition shared_usage_by_node :: "session list \<Rightarrow> string \<Rightarrow> share_use" where
  "shared_usage_by_node ss n =
     share_sum (\<lambda>s. admitted s \<and> s_mode s = ''shared'' \<and> s_node s \<noteq> '''' \<and> s_node s = n) ss"

section \<open>The inventory\<close>

record node_avail =
  na_node :: string
  na_gpu_type :: string
  na_total :: int
  na_free :: int
  na_physical :: bool
  na_fractional :: bool
  na_vram_free :: int
  na_vram_total :: int
  na_cores_free :: int
  na_cores_total :: int
  na_slots_free :: int
  na_slots_total :: int

record type_avail =
  ta_type :: string
  ta_free :: int
  ta_total :: int
  ta_nodes :: int
  ta_frac_free :: int
  ta_frac_total :: int
  ta_frac_units :: rat
  ta_vram_free :: int
  ta_vram_total :: int
  ta_cores_free :: int
  ta_cores_total :: int
  ta_slots_free :: int
  ta_slots_total :: int

record availability =
  av_types :: "type_avail list"
  av_nodes :: "node_avail list"

text \<open>One turn of the loop over the nodes: what it appends to \<open>ByNode\<close> (a node without GPUs is
  skipped).\<close>

definition used_on :: "session list \<Rightarrow> live_node \<Rightarrow> int" where
  "used_on ss n =
     (let cap = atoi_safe (ln_gpu_capacity n);
          used = (if running_physical_nodes ss (ln_name n) then cap else running_by_node ss (ln_name n))
      in if cap < used then cap else used)"

definition fractional_node :: "node_row list \<Rightarrow> session list \<Rightarrow> live_node \<Rightarrow> bool" where
  "fractional_node ns ss n = (hami_nodes ns (ln_name n) \<and> \<not> running_physical_nodes ss (ln_name n))"

definition split_of :: "node_row list \<Rightarrow> string \<Rightarrow> int" where
  "split_of ns n = (let k = node_split_count ns n in if k \<le> 0 then 10 else k)"

definition avail_of_node :: "node_row list \<Rightarrow> session list \<Rightarrow> live_node \<Rightarrow> node_avail" where
  "avail_of_node ns ss n =
     (let cap = atoi_safe (ln_gpu_capacity n);
          plain = \<lparr>na_node = ln_name n, na_gpu_type = ln_gpu_type n, na_total = cap,
                   na_free = cap - used_on ss n, na_physical = ln_physical n, na_fractional = False,
                   na_vram_free = 0, na_vram_total = 0, na_cores_free = 0, na_cores_total = 0,
                   na_slots_free = 0, na_slots_total = 0\<rparr>;
          u = shared_usage_by_node ss (ln_name n)
      in if fractional_node ns ss n
         then plain\<lparr>na_fractional := True,
                na_vram_total := ln_gpu_mem n * cap,
                na_vram_free := clamp_nonneg (ln_gpu_mem n * cap - su_vram u),
                na_cores_total := 100 * cap,
                na_cores_free := clamp_nonneg (100 * cap - su_cores u),
                na_slots_total := split_of ns (ln_name n) * cap,
                na_slots_free := clamp_nonneg (split_of ns (ln_name n) * cap - su_count u)\<rparr>
         else plain)"

definition frac_units :: "type_avail \<Rightarrow> rat" where
  "frac_units t =
     (if 0 < ta_frac_total t
      then (let vf = (if 0 < ta_vram_total t then fdiv (fl (ta_vram_free t)) (fl (ta_vram_total t)) else 1);
                cf = (if 0 < ta_cores_total t then fdiv (fl (ta_cores_free t)) (fl (ta_cores_total t)) else 1);
                frac = (if cf < vf then cf else vf)
            in fmul frac (fl (ta_frac_total t)))
      else 0)"

text \<open>The loop: \<open>byType\<close> is the list of the types met so far, \<open>usedByType\<close> and
  \<open>fracFreeByType\<close> are maps with default 0.\<close>

record avail_acc =
  aa_types :: "type_avail list"
  aa_used :: "string \<Rightarrow> int"
  aa_frac :: "string \<Rightarrow> int"
  aa_nodes :: "node_avail list"

definition start_avail :: avail_acc where
  "start_avail = \<lparr>aa_types = [], aa_used = (\<lambda>_. 0), aa_frac = (\<lambda>_. 0), aa_nodes = []\<rparr>"

definition new_type :: "string \<Rightarrow> type_avail" where
  "new_type t = \<lparr>ta_type = t, ta_free = 0, ta_total = 0, ta_nodes = 0, ta_frac_free = 0, ta_frac_total = 0,
     ta_frac_units = 0, ta_vram_free = 0, ta_vram_total = 0, ta_cores_free = 0, ta_cores_total = 0,
     ta_slots_free = 0, ta_slots_total = 0\<rparr>"

definition add_fractional :: "node_avail \<Rightarrow> type_avail \<Rightarrow> type_avail" where
  "add_fractional na t =
     t\<lparr>ta_nodes := ta_nodes t + 1, ta_frac_total := ta_frac_total t + na_total na,
       ta_vram_total := ta_vram_total t + na_vram_total na, ta_vram_free := ta_vram_free t + na_vram_free na,
       ta_cores_total := ta_cores_total t + na_cores_total na, ta_cores_free := ta_cores_free t + na_cores_free na,
       ta_slots_total := ta_slots_total t + na_slots_total na, ta_slots_free := ta_slots_free t + na_slots_free na\<rparr>"

definition add_whole :: "node_avail \<Rightarrow> type_avail \<Rightarrow> type_avail" where
  "add_whole na t = t\<lparr>ta_nodes := ta_nodes t + 1, ta_total := ta_total t + na_total na\<rparr>"

definition avail_step :: "node_row list \<Rightarrow> session list \<Rightarrow> live_node \<Rightarrow> avail_acc \<Rightarrow> avail_acc" where
  "avail_step ns ss n acc =
     (let cap = atoi_safe (ln_gpu_capacity n); ty = ln_gpu_type n; used = used_on ss n;
          na = avail_of_node ns ss n;
          types = insert_ignore ta_type (new_type ty) (aa_types acc)
      in if cap = 0 then acc
         else if fractional_node ns ss n
         then acc\<lparr>aa_types := upd_row ta_type ty (add_fractional na) types,
                  aa_frac := (aa_frac acc)(ty := aa_frac acc ty + (cap - used)),
                  aa_nodes := aa_nodes acc @ [na]\<rparr>
         else acc\<lparr>aa_types := upd_row ta_type ty (add_whole na) types,
                  aa_used := (aa_used acc)(ty := aa_used acc ty + used),
                  aa_nodes := aa_nodes acc @ [na]\<rparr>)"

definition finish_type :: "avail_acc \<Rightarrow> type_avail \<Rightarrow> type_avail" where
  "finish_type acc t =
     (let free = ta_total t - aa_used acc (ta_type t)
      in t\<lparr>ta_free := (if free < 0 then 0 else free),
           ta_frac_free := clamp_nonneg (aa_frac acc (ta_type t)),
           ta_frac_units := frac_units t\<rparr>)"

definition availability_of :: "node_row list \<Rightarrow> session list \<Rightarrow> live_node list option \<Rightarrow> availability" where
  "availability_of ns ss cl =
     (case cl of None \<Rightarrow> \<lparr>av_types = [], av_nodes = []\<rparr>
      | Some l \<Rightarrow>
          (let acc = fold (avail_step ns ss) l start_avail
           in \<lparr>av_types = sort_key ta_type (map (finish_type acc) (aa_types acc)), av_nodes = aa_nodes acc\<rparr>))"

section \<open>The gate\<close>

record place_req =
  pq_mode :: string
  pq_type :: string
  pq_count :: int
  pq_vram :: int
  pq_core :: int
  pq_node :: string

definition fits_shared :: "node_avail \<Rightarrow> place_req \<Rightarrow> share_use \<Rightarrow> bool" where
  "fits_shared n r hold =
     (if na_slots_free n - su_count hold < 1 then False
      else if 0 < pq_vram r \<and> na_vram_free n - su_vram hold < pq_vram r then False
      else if 0 < pq_core r \<and> na_cores_free n - su_cores hold < pq_core r then False
      else True)"

definition need_of :: "place_req \<Rightarrow> int" where
  "need_of r = (if pq_count r < 1 then 1 else pq_count r)"

definition can_place_on_node :: "availability \<Rightarrow> place_req \<Rightarrow> reservation \<Rightarrow> bool" where
  "can_place_on_node av r res =
     (case find (\<lambda>n. na_node n = pq_node r) (av_nodes av) of
        None \<Rightarrow> True
      | Some n \<Rightarrow>
          if na_gpu_type n \<noteq> pq_type r then False
          else if pq_mode r = ''exclusive'' then need_of r \<le> na_free n - rv_gpus res (pq_type r)
          else if pq_mode r = ''shared'' then
            (if \<not> na_fractional n then False else fits_shared n r (rv_shared res (pq_type r)))
          else True)"

definition can_place_av :: "availability \<Rightarrow> place_req \<Rightarrow> reservation \<Rightarrow> bool" where
  "can_place_av av r res =
     (if av_types av = [] \<and> av_nodes av = [] then True
      else if pq_node r \<noteq> '''' then can_place_on_node av r res
      else if pq_mode r = ''exclusive'' then
        (case find (\<lambda>t. ta_type t = pq_type r) (av_types av) of
           Some t \<Rightarrow> need_of r \<le> ta_free t - rv_gpus res (pq_type r) | None \<Rightarrow> False)
      else if pq_mode r = ''shared'' then
        list_ex (\<lambda>n. na_fractional n \<and> na_gpu_type n = pq_type r \<and>
                     fits_shared n r (rv_shared res (pq_type r))) (av_nodes av)
      else if pq_mode r = ''timeslice'' then
        (case find (\<lambda>t. ta_type t = pq_type r) (av_types av) of
           Some t \<Rightarrow> 1 \<le> ta_slots_free t | None \<Rightarrow> False)
      else True)"

definition can_place :: "node_row list \<Rightarrow> session list \<Rightarrow> live_node list option \<Rightarrow> place_req \<Rightarrow> bool" where
  "can_place ns ss cl r =
     (if pq_mode r = ''cpu'' \<or> pq_type r = '''' then True
      else can_place_av (availability_of ns ss cl) r (reserved ss))"

definition node_supports ::
  "node_row list \<Rightarrow> session list \<Rightarrow> live_node list option \<Rightarrow> string \<Rightarrow> string \<Rightarrow> bool \<times> bool" where
  "node_supports ns ss cl node mode =
     (if node = '''' \<or> mode = '''' \<or> mode = ''cpu'' then (True, node \<noteq> '''')
      else (case find (\<lambda>n. na_node n = node) (av_nodes (availability_of ns ss cl)) of
          None \<Rightarrow> (True, False)
        | Some n \<Rightarrow>
            if na_gpu_type n = '''' then (False, True)
            else if mode = ''shared'' then (na_fractional n, True)
            else (\<not> na_fractional n, True)))"

section \<open>The two views of the inventory agree\<close>

definition sum_nodes :: "(node_avail \<Rightarrow> bool) \<Rightarrow> (node_avail \<Rightarrow> int) \<Rightarrow> node_avail list \<Rightarrow> int" where
  "sum_nodes P f nas = (\<Sum>n \<leftarrow> filter P nas. f n)"

definition frac_of_type :: "string \<Rightarrow> node_avail \<Rightarrow> bool" where
  "frac_of_type t n = (na_gpu_type n = t \<and> na_fractional n)"

definition whole_of_type :: "string \<Rightarrow> node_avail \<Rightarrow> bool" where
  "whole_of_type t n = (na_gpu_type n = t \<and> \<not> na_fractional n)"

definition by_node :: "node_row list \<Rightarrow> session list \<Rightarrow> live_node list \<Rightarrow> node_avail list" where
  "by_node ns ss l = map (avail_of_node ns ss) (filter (\<lambda>n. atoi_safe (ln_gpu_capacity n) \<noteq> 0) l)"

text \<open>What a type's line should say, read off the lines of the nodes.\<close>

definition raw_type :: "node_avail list \<Rightarrow> string \<Rightarrow> type_avail" where
  "raw_type nas t =
     \<lparr>ta_type = t, ta_free = 0, ta_total = sum_nodes (whole_of_type t) na_total nas,
      ta_nodes = sum_nodes (\<lambda>n. na_gpu_type n = t) (\<lambda>_. 1) nas,
      ta_frac_free = 0, ta_frac_total = sum_nodes (frac_of_type t) na_total nas, ta_frac_units = 0,
      ta_vram_free = sum_nodes (frac_of_type t) na_vram_free nas,
      ta_vram_total = sum_nodes (frac_of_type t) na_vram_total nas,
      ta_cores_free = sum_nodes (frac_of_type t) na_cores_free nas,
      ta_cores_total = sum_nodes (frac_of_type t) na_cores_total nas,
      ta_slots_free = sum_nodes (frac_of_type t) na_slots_free nas,
      ta_slots_total = sum_nodes (frac_of_type t) na_slots_total nas\<rparr>"

definition type_line :: "node_avail list \<Rightarrow> string \<Rightarrow> type_avail" where
  "type_line nas t =
     (raw_type nas t)
       \<lparr>ta_free := sum_nodes (whole_of_type t) na_free nas,
        ta_frac_free := sum_nodes (frac_of_type t) na_free nas,
        ta_frac_units := frac_units (raw_type nas t)\<rparr>"

lemma sum_nodes_simps [simp]:
  "sum_nodes P f [] = 0"
  "sum_nodes P f (nas @ [n]) = sum_nodes P f nas + (if P n then f n else 0)"
  by (simp_all add: sum_nodes_def)

lemma sum_nodes_nonneg: "(\<And>n. n \<in> set nas \<Longrightarrow> 0 \<le> f n) \<Longrightarrow> 0 \<le> sum_nodes P f nas"
  unfolding sum_nodes_def by (rule sum_list_nonneg) auto

lemma sum_nodes_mono: "(\<And>n. n \<in> set nas \<Longrightarrow> f n \<le> g n) \<Longrightarrow> sum_nodes P f nas \<le> sum_nodes P g nas"
  by (induction nas rule: rev_induct) (auto simp: add_mono)

lemma sum_nodes_diff: "sum_nodes P f nas - sum_nodes P g nas = sum_nodes P (\<lambda>n. f n - g n) nas"
  by (induction nas rule: rev_induct) auto

lemma avail_of_node_simps [simp]:
  "na_node (avail_of_node ns ss n) = ln_name n"
  "na_gpu_type (avail_of_node ns ss n) = ln_gpu_type n"
  "na_total (avail_of_node ns ss n) = atoi_safe (ln_gpu_capacity n)"
  "na_free (avail_of_node ns ss n) = atoi_safe (ln_gpu_capacity n) - used_on ss n"
  "na_fractional (avail_of_node ns ss n) = fractional_node ns ss n"
  by (simp_all add: avail_of_node_def Let_def)

definition acc_ok :: "avail_acc \<Rightarrow> bool" where
  "acc_ok acc \<longleftrightarrow> keys_distinct ta_type (aa_types acc) \<and>
     (\<forall>t. row_of ta_type t (aa_types acc) =
        (if t \<in> na_gpu_type ` set (aa_nodes acc) then Some (raw_type (aa_nodes acc) t) else None)) \<and>
     (\<forall>t. aa_used acc t = sum_nodes (whole_of_type t) (\<lambda>n. na_total n - na_free n) (aa_nodes acc)) \<and>
     (\<forall>t. aa_frac acc t = sum_nodes (frac_of_type t) na_free (aa_nodes acc))"

lemma add_type_key [simp]: "ta_type (add_fractional na t) = ta_type t" "ta_type (add_whole na t) = ta_type t"
  "ta_type (new_type ty) = ty"
  by (simp_all add: add_fractional_def add_whole_def new_type_def)

lemma sum_nodes_no_type:
  "t \<notin> na_gpu_type ` set nas \<Longrightarrow> (\<And>n. P n \<Longrightarrow> na_gpu_type n = t) \<Longrightarrow> sum_nodes P f nas = 0"
  by (induction nas rule: rev_induct) auto

lemma sum_no_whole: "t \<notin> na_gpu_type ` set nas \<Longrightarrow> sum_nodes (whole_of_type t) f nas = 0"
  by (rule sum_nodes_no_type) (auto simp: whole_of_type_def)

lemma sum_no_frac: "t \<notin> na_gpu_type ` set nas \<Longrightarrow> sum_nodes (frac_of_type t) f nas = 0"
  by (rule sum_nodes_no_type) (auto simp: frac_of_type_def)

lemma raw_type_no_type: "t \<notin> na_gpu_type ` set nas \<Longrightarrow> raw_type nas t = new_type t"
  by (simp add: raw_type_def new_type_def sum_no_whole sum_no_frac sum_nodes_no_type)

lemma raw_type_snoc:
  "raw_type (nas @ [na]) t =
     (if na_gpu_type na = t
      then (if na_fractional na then add_fractional na (raw_type nas t) else add_whole na (raw_type nas t))
      else raw_type nas t)"
  by (simp add: raw_type_def add_fractional_def add_whole_def whole_of_type_def frac_of_type_def)

lemma avail_step_nodes:
  "aa_nodes (avail_step ns ss n acc) =
     aa_nodes acc @ (if atoi_safe (ln_gpu_capacity n) = 0 then [] else [avail_of_node ns ss n])"
  by (simp add: avail_step_def Let_def)

lemma avail_step_ok:
  assumes "acc_ok acc"
  shows "acc_ok (avail_step ns ss n acc)"
proof (cases "atoi_safe (ln_gpu_capacity n) = 0")
  case True
  then show ?thesis using assms by (simp add: avail_step_def Let_def)
next
  case False
  let ?na = "avail_of_node ns ss n"
  let ?f = "if fractional_node ns ss n then add_fractional ?na else add_whole ?na"
  have types: "aa_types (avail_step ns ss n acc) =
      upd_row ta_type (ln_gpu_type n) ?f (insert_ignore ta_type (new_type (ln_gpu_type n)) (aa_types acc))"
    using False by (simp add: avail_step_def Let_def)
  have key: "ta_type (?f t) = ta_type t" for t by simp
  have d: "keys_distinct ta_type (aa_types (avail_step ns ss n acc))"
    using assms unfolding types acc_ok_def
    by (simp add: keys_distinct_upd_row keys_distinct_insert_ignore)
  have r: "row_of ta_type t (aa_types (avail_step ns ss n acc)) =
      (if t \<in> na_gpu_type ` set (aa_nodes (avail_step ns ss n acc))
       then Some (raw_type (aa_nodes (avail_step ns ss n acc)) t) else None)" for t
    using assms False unfolding types acc_ok_def
    by (auto simp: row_of_upd_row row_of_insert_ignore avail_step_nodes raw_type_snoc raw_type_no_type)
  show ?thesis
    using assms False d r unfolding acc_ok_def
    by (simp add: avail_step_def Let_def whole_of_type_def frac_of_type_def)
qed

lemma fold_avail_ok: "acc_ok acc \<Longrightarrow> acc_ok (fold (avail_step ns ss) l acc)"
  by (induction l arbitrary: acc) (auto simp: avail_step_ok)

lemma fold_avail_nodes: "aa_nodes (fold (avail_step ns ss) l acc) = aa_nodes acc @ by_node ns ss l"
  by (induction l arbitrary: acc) (auto simp: avail_step_nodes by_node_def)

lemma start_avail_ok: "acc_ok start_avail"
  by (simp add: acc_ok_def start_avail_def keys_distinct_def)

lemma used_on_bounds: "used_on ss n \<le> atoi_safe (ln_gpu_capacity n)"
  by (simp add: used_on_def Let_def)

lemma by_node_free: "na \<in> set (by_node ns ss l) \<Longrightarrow> 0 \<le> na_free na"
  using used_on_bounds by (auto simp: by_node_def)

lemma av_nodes_eq [simp]: "av_nodes (availability_of ns ss (Some l)) = by_node ns ss l"
  by (simp add: availability_of_def Let_def fold_avail_nodes) (simp add: start_avail_def)

lemma ta_type_finish [simp]: "ta_type (finish_type acc t) = ta_type t"
  by (simp add: finish_type_def Let_def)

lemma row_of_map_key:
  "(\<And>r. key (f r) = key r) \<Longrightarrow> row_of key k (map f t) = map_option f (row_of key k t)"
  by (induction t) auto

lemma keys_distinct_sort: "keys_distinct key t \<Longrightarrow> keys_distinct key (sort_key key t)"
  by (simp add: keys_distinct_def distinct_map)

lemma row_of_sort_key:
  assumes "keys_distinct key t"
  shows "row_of key k (sort_key key t) = row_of key k t"
proof -
  have d: "keys_distinct key (sort_key key t)" by (rule keys_distinct_sort) fact
  show ?thesis
  proof (cases "row_of key k t")
    case None
    then have "row_of key k (sort_key key t) = None" by (simp add: row_of_None)
    with None show ?thesis by simp
  next
    case (Some r)
    then have "r \<in> set (sort_key key t)" "key r = k" by (auto dest: row_of_Some)
    then show ?thesis using row_of_member [OF d] Some by force
  qed
qed

lemma finish_raw:
  assumes "acc_ok acc" "\<And>na. na \<in> set (aa_nodes acc) \<Longrightarrow> 0 \<le> na_free na"
  shows "finish_type acc (raw_type (aa_nodes acc) t) = type_line (aa_nodes acc) t"
proof -
  have u: "ta_total (raw_type (aa_nodes acc) t) - aa_used acc t = sum_nodes (whole_of_type t) na_free (aa_nodes acc)"
    using assms(1) by (simp add: acc_ok_def raw_type_def sum_nodes_diff)
  have n: "0 \<le> sum_nodes (whole_of_type t) na_free (aa_nodes acc)" "0 \<le> sum_nodes (frac_of_type t) na_free (aa_nodes acc)"
    using assms(2) by (auto intro: sum_nodes_nonneg)
  have k: "ta_type (raw_type (aa_nodes acc) t) = t" by (simp add: raw_type_def)
  show ?thesis
    using assms(1) n u unfolding finish_type_def type_line_def k
    by (simp add: acc_ok_def clamp_nonneg_def Let_def)
qed

lemma is_digit_int: "is_digit c \<Longrightarrow> (48::int) \<le> of_char c"
  unfolding is_digit_def by (metis of_nat_le_iff of_nat_numeral of_nat_of_char)

lemma atoi_from_nonneg: "0 \<le> n \<Longrightarrow> 0 \<le> atoi_from n s"
proof (induction n s rule: atoi_from.induct)
  case (2 n c cs)
  then show ?case using is_digit_int [of c] by (cases "is_digit c") auto
qed simp

lemma atoi_safe_nonneg [simp]: "0 \<le> atoi_safe s"
  by (simp add: atoi_safe_def atoi_from_nonneg)

lemma sum_where_nonneg: "(\<And>s. 0 \<le> f s) \<Longrightarrow> 0 \<le> sum_where P f ss"
  unfolding sum_where_def by (rule sum_list_nonneg) auto

lemma used_gpu_nonneg [simp]: "0 \<le> used_gpu s"
  by (auto simp: used_gpu_def)

lemma used_on_nonneg: "0 \<le> used_on ss n"
  by (simp add: used_on_def Let_def running_by_node_def sum_where_nonneg)

lemma by_node_free_total: "na \<in> set (by_node ns ss l) \<Longrightarrow> na_free na \<le> na_total na"
  using used_on_nonneg by (auto simp: by_node_def)

lemma free_sum_bounds:
  "0 \<le> sum_nodes P na_free (by_node ns ss l) \<and>
   sum_nodes P na_free (by_node ns ss l) \<le> sum_nodes P na_total (by_node ns ss l)"
  by (auto intro!: sum_nodes_nonneg sum_nodes_mono by_node_free by_node_free_total)

text \<open>The per-type lines of the availability screen are exactly the totals of its per-node
  lines: the types are listed once each, in order; a type is listed when a node with GPUs has it;
  its free whole cards and its fractional cards, VRAM, cores and slots are the sums over the
  whole-card (the fractional) nodes of the type; and the free counts lie between zero and the
  totals.\<close>

theorem availability_views_agree:
  "let av = availability_of ns ss (Some l); nas = av_nodes av; line = type_line nas t
   in sorted (map ta_type (av_types av)) \<and> distinct (map ta_type (av_types av)) \<and>
      row_of ta_type t (av_types av) = (if t \<in> na_gpu_type ` set nas then Some line else None) \<and>
      0 \<le> ta_free line \<and> ta_free line \<le> ta_total line \<and>
      0 \<le> ta_frac_free line \<and> ta_frac_free line \<le> ta_frac_total line"
proof -
  let ?av = "availability_of ns ss (Some l)"
  let ?acc = "fold (avail_step ns ss) l start_avail"
  have ok: "acc_ok ?acc" by (simp add: fold_avail_ok start_avail_ok)
  have nodes: "aa_nodes ?acc = by_node ns ss l"
    by (simp add: fold_avail_nodes start_avail_def)
  have av: "av_types ?av = sort_key ta_type (map (finish_type ?acc) (aa_types ?acc))"
    by (simp add: availability_of_def Let_def)
  have kd: "keys_distinct ta_type (map (finish_type ?acc) (aa_types ?acc))"
    using ok by (simp add: acc_ok_def keys_distinct_def comp_def)
  have dist: "distinct (map ta_type (av_types ?av))"
    using keys_distinct_sort [OF kd] unfolding av keys_distinct_def .
  have row: "row_of ta_type t (av_types ?av) =
      (if t \<in> na_gpu_type ` set (av_nodes ?av) then Some (type_line (av_nodes ?av) t) else None)"
    using ok finish_raw [OF ok] by_node_free unfolding av row_of_sort_key [OF kd]
    by (simp add: row_of_map_key acc_ok_def nodes)
  show ?thesis
    using dist row free_sum_bounds [of "whole_of_type t" ns ss l] free_sum_bounds [of "frac_of_type t" ns ss l]
    unfolding Let_def by (simp add: av type_line_def raw_type_def)
qed

section \<open>What a grant means\<close>

text \<open>\<open>Service.checkCapacityOn\<close> of the session service: physical leases are not gated, and
  neither is anything when no gate is installed (\<open>None\<close>).\<close>

definition place_of :: "session \<Rightarrow> string \<Rightarrow> place_req" where
  "place_of s node = \<lparr>pq_mode = s_mode s, pq_type = s_gtype s, pq_count = s_gpus s, pq_vram = s_vram s,
     pq_core = s_core s, pq_node = node\<rparr>"

definition check_capacity_on :: "(place_req \<Rightarrow> bool) option \<Rightarrow> session \<Rightarrow> string \<Rightarrow> bool" where
  "check_capacity_on gate s node =
     (case gate of None \<Rightarrow> True | Some f \<Rightarrow> ssh_env s \<or> f (place_of s node))"

lemma sum_where_snoc [simp]: "sum_where P f (ss @ [s]) = sum_where P f ss + (if P s then f s else 0)"
  by (simp add: sum_where_def)

lemma sum_where_nonneg_on: "(\<And>s. s \<in> set ss \<Longrightarrow> 0 \<le> f s) \<Longrightarrow> 0 \<le> sum_where P f ss"
  unfolding sum_where_def by (rule sum_list_nonneg) auto

lemma row_of_sorted_types:
  "find (\<lambda>x. ta_type x = t) (av_types (availability_of ns ss (Some l))) =
     (if t \<in> na_gpu_type ` set (by_node ns ss l) then Some (type_line (by_node ns ss l) t) else None)"
proof -
  let ?acc = "fold (avail_step ns ss) l start_avail"
  have ok: "acc_ok ?acc" by (simp add: fold_avail_ok start_avail_ok)
  have nodes: "aa_nodes ?acc = by_node ns ss l"
    by (simp add: fold_avail_nodes start_avail_def)
  have kd: "keys_distinct ta_type (map (finish_type ?acc) (aa_types ?acc))"
    using ok by (simp add: acc_ok_def keys_distinct_def comp_def)
  have "row_of ta_type t (av_types (availability_of ns ss (Some l))) =
      (if t \<in> na_gpu_type ` set (by_node ns ss l) then Some (type_line (by_node ns ss l) t) else None)"
    using ok finish_raw [OF ok] by_node_free
    by (simp add: availability_of_def Let_def row_of_sort_key [OF kd] row_of_map_key acc_ok_def nodes)
  then show ?thesis by (simp add: row_of_def)
qed

lemma by_node_elem:
  "na \<in> set (by_node ns ss l) \<Longrightarrow> \<exists>n \<in> set l. na = avail_of_node ns ss n"
  by (auto simp: by_node_def)

lemma clamp_above: "h + k \<le> clamp_nonneg v \<Longrightarrow> 0 \<le> h \<Longrightarrow> 0 < k \<Longrightarrow> h + k \<le> v"
  by (auto simp: clamp_nonneg_def split: if_splits)

lemma fits_shared_iff:
  "fits_shared n r hold \<longleftrightarrow> su_count hold + 1 \<le> na_slots_free n \<and>
     (0 < pq_vram r \<longrightarrow> su_vram hold + pq_vram r \<le> na_vram_free n) \<and>
     (0 < pq_core r \<longrightarrow> su_cores hold + pq_core r \<le> na_cores_free n)"
  by (auto simp: fits_shared_def)

text \<open>The new session's own reservation is added to those it was judged against.\<close>

definition shared_request :: "session \<Rightarrow> bool" where
  "shared_request s = (s_mode s = ''shared'' \<and> s_gtype s \<noteq> '''' \<and> s_phase s = Provisioning \<and> s_node s = '''')"

lemma reserved_shared_snoc:
  assumes "shared_request s"
  shows "rv_shared (reserved (ss @ [s])) (s_gtype s) =
    \<lparr>su_vram = su_vram (rv_shared (reserved ss) (s_gtype s)) + s_vram s,
     su_cores = su_cores (rv_shared (reserved ss) (s_gtype s)) + s_core s,
     su_count = su_count (rv_shared (reserved ss) (s_gtype s)) + 1\<rparr>"
  using assms by (simp add: reserved_def share_sum_def shared_request_def unplaced_def)

lemma reserved_nonneg:
  assumes "\<And>s. s \<in> set ss \<Longrightarrow> 0 \<le> s_vram s \<and> 0 \<le> s_core s"
  shows "0 \<le> su_vram (rv_shared (reserved ss) t)" "0 \<le> su_cores (rv_shared (reserved ss) t)"
    "0 \<le> su_count (rv_shared (reserved ss) t)"
  using assms by (auto simp: reserved_def share_sum_def intro!: sum_where_nonneg_on)

lemma fractional_fields:
  assumes "fractional_node ns ss n"
  shows "na_vram_free (avail_of_node ns ss n) =
      clamp_nonneg (ln_gpu_mem n * atoi_safe (ln_gpu_capacity n) - su_vram (shared_usage_by_node ss (ln_name n)))"
    "na_cores_free (avail_of_node ns ss n) =
      clamp_nonneg (100 * atoi_safe (ln_gpu_capacity n) - su_cores (shared_usage_by_node ss (ln_name n)))"
    "na_slots_free (avail_of_node ns ss n) =
      clamp_nonneg (split_of ns (ln_name n) * atoi_safe (ln_gpu_capacity n) - su_count (shared_usage_by_node ss (ln_name n)))"
  using assms by (simp_all add: avail_of_node_def Let_def)

text \<open>A shared session the gate grants really fits on one fractional node of its type: on that
  node, what its placed shared sessions use, together with everything reserved for the type by
  sessions not placed yet, the new session included, stays within the node's task slots, VRAM and
  cores.\<close>

theorem shared_grant_fits_one_node:
  assumes "can_place ns ss (Some l) (place_of s '''')" "by_node ns ss l \<noteq> []" "shared_request s"
    and "\<forall>x \<in> set ss. 0 \<le> s_vram x \<and> 0 \<le> s_core x"
  shows "\<exists>n \<in> set l. fractional_node ns ss n \<and> ln_gpu_type n = s_gtype s \<and>
    (let cap = atoi_safe (ln_gpu_capacity n); u = shared_usage_by_node ss (ln_name n);
         h = rv_shared (reserved (ss @ [s])) (s_gtype s)
     in su_count u + su_count h \<le> split_of ns (ln_name n) * cap \<and>
        (0 < s_vram s \<longrightarrow> su_vram u + su_vram h \<le> ln_gpu_mem n * cap) \<and>
        (0 < s_core s \<longrightarrow> su_cores u + su_cores h \<le> 100 * cap))"
proof -
  let ?h = "rv_shared (reserved ss) (s_gtype s)"
  have mode: "s_mode s = ''shared''" "s_gtype s \<noteq> ''''" using assms(3) by (auto simp: shared_request_def)
  obtain na where na: "na \<in> set (by_node ns ss l)" "na_fractional na" "na_gpu_type na = s_gtype s"
    "fits_shared na (place_of s '''') ?h"
    using assms(1,2) mode by (auto simp: can_place_def can_place_av_def place_of_def list_ex_iff)
  obtain n where n: "n \<in> set l" "na = avail_of_node ns ss n" using by_node_elem [OF na(1)] by blast
  have fr: "fractional_node ns ss n" using na n by simp
  have f: "su_count ?h + 1 \<le> na_slots_free na" "0 < s_vram s \<Longrightarrow> su_vram ?h + s_vram s \<le> na_vram_free na"
    "0 < s_core s \<Longrightarrow> su_cores ?h + s_core s \<le> na_cores_free na"
    using na(4) by (auto simp: fits_shared_iff place_of_def)
  have h: "0 \<le> su_vram ?h" "0 \<le> su_cores ?h" "0 \<le> su_count ?h"
    using assms(4) by (auto intro!: reserved_nonneg)
  show ?thesis
    using n fr na(3) f h unfolding reserved_shared_snoc [OF assms(3)] fractional_fields [OF fr] n(2) Let_def
    by (intro bexI [of _ n]) (auto dest!: clamp_above)
qed

lemma sum_nodes_some: "0 < sum_nodes P f nas \<Longrightarrow> \<exists>n \<in> set nas. P n \<and> 0 < f n"
  by (induction nas rule: rev_induct) (force split: if_splits)+

lemma rv_gpus_nonneg: "0 \<le> rv_gpus (reserved ss) t"
  by (auto simp: reserved_def intro!: sum_where_nonneg_on)

definition sample_node :: "string \<Rightarrow> string \<Rightarrow> string \<Rightarrow> live_node" where
  "sample_node nm ty cap = \<lparr>ln_name = nm, ln_gpu_type = ty, ln_physical = False, ln_cordoned = False,
     ln_share_mode = '''', ln_ready = True, ln_gpu_capacity = cap, ln_cpu = 32, ln_mem_gb = 256,
     ln_cuda = '''', ln_cuda_min = '''', ln_cuda_max = '''', ln_gpu_mem = 24564\<rparr>"

definition sample_session :: "string \<Rightarrow> int \<Rightarrow> string \<Rightarrow> string \<Rightarrow> session" where
  "sample_session i u mode ty = \<lparr>s_id = 0, s_instance = i, s_user = u, s_group = Some 1, s_name = i,
     s_env = '''', s_mode = mode, s_offering = None, s_image = Some 1, s_vram = 0, s_core = 0, s_cpu = 4,
     s_mem = 16, s_home = Some 50, s_gpus = 1, s_gtype = ty, s_node = '''', s_ip = '''',
     s_phase = Provisioning, s_created = 0, s_price = 100, s_started = None, s_billed = 0,
     s_extensions = 0, s_stopped_secs = 0, s_storage_billed = 0, s_stopped_since = None,
     s_web_password = ''pw''\<rparr>"

lemmas gate_eval = Let_def can_place_def can_place_av_def can_place_on_node_def availability_of_def
  avail_step_def avail_of_node_def used_on_def fractional_node_def start_avail_def new_type_def
  add_whole_def add_fractional_def finish_type_def running_physical_nodes_def running_by_node_def
  hami_nodes_def node_split_count_def split_of_def shared_usage_by_node_def share_sum_def sum_where_def
  atoi_safe_def is_digit_def clamp_nonneg_def reserved_def unplaced_def used_gpu_def admitted_def
  ssh_env_def active_phase_def need_of_def fits_shared_def place_of_def sample_node_def
  sample_session_def insert_ignore_def node_supports_def frac_units_def by_node_def

theorem shared_grant_fits_one_node_witness:
  "\<exists>n \<in> set [sample_node ''n1'' ''a'' ''1'']. fractional_node [\<lparr>nr_name = ''n1'', nr_share_mode = ''hami'', nr_split = 10\<rparr>]
      [] n \<and> ln_gpu_type n = ''a'' \<and>
    (let cap = atoi_safe (ln_gpu_capacity n); u = shared_usage_by_node [] (ln_name n);
         h = rv_shared (reserved ([] @ [(sample_session ''s1'' 1 ''shared'' ''a'')\<lparr>s_vram := 4096, s_core := 30\<rparr>])) ''a''
     in su_count u + su_count h \<le> split_of [\<lparr>nr_name = ''n1'', nr_share_mode = ''hami'', nr_split = 10\<rparr>] (ln_name n) * cap \<and>
        (0 < (4096::int) \<longrightarrow> su_vram u + su_vram h \<le> ln_gpu_mem n * cap) \<and>
        (0 < (30::int) \<longrightarrow> su_cores u + su_cores h \<le> 100 * cap))"
  using shared_grant_fits_one_node [of "[\<lparr>nr_name = ''n1'', nr_share_mode = ''hami'', nr_split = 10\<rparr>]" "[]"
      "[sample_node ''n1'' ''a'' ''1'']" "(sample_session ''s1'' 1 ''shared'' ''a'')\<lparr>s_vram := 4096, s_core := 30\<rparr>"]
  by (simp add: gate_eval shared_request_def)

text \<open>A whole-card request the gate grants anywhere in the cluster is covered by the sum of the
  free cards over all nodes of the type, reservations subtracted; so a one-card request has a
  node with a free card. That is all: the gate grants a two-card request when two nodes have one
  free card each, although no node can run it, and the session waits for ever.\<close>

theorem exclusive_grant_is_a_sum:
  "(can_place ns ss (Some l) r \<and> by_node ns ss l \<noteq> [] \<and> pq_mode r = ''exclusive'' \<and> pq_type r \<noteq> '''' \<and>
      pq_node r = '''' \<longrightarrow>
     need_of r + rv_gpus (reserved ss) (pq_type r) \<le>
       sum_nodes (whole_of_type (pq_type r)) na_free (by_node ns ss l) \<and>
     (\<exists>n \<in> set (by_node ns ss l). whole_of_type (pq_type r) n \<and> 1 \<le> na_free n)) \<and>
   (\<exists>r l. can_place [] [] (Some l) r \<and> pq_mode r = ''exclusive'' \<and> pq_type r \<noteq> '''' \<and> need_of r = 2 \<and>
     (\<forall>n \<in> set (by_node [] [] l). na_free n < need_of r))"
proof (intro conjI impI)
  assume a: "can_place ns ss (Some l) r \<and> by_node ns ss l \<noteq> [] \<and> pq_mode r = ''exclusive'' \<and>
    pq_type r \<noteq> '''' \<and> pq_node r = ''''"
  then show b: "need_of r + rv_gpus (reserved ss) (pq_type r) \<le>
      sum_nodes (whole_of_type (pq_type r)) na_free (by_node ns ss l)"
    by (auto simp: can_place_def can_place_av_def row_of_sorted_types type_line_def split: if_splits)
  have "1 \<le> need_of r" by (simp add: need_of_def)
  with b rv_gpus_nonneg [of ss "pq_type r"]
  have "0 < sum_nodes (whole_of_type (pq_type r)) na_free (by_node ns ss l)" by linarith
  then show "\<exists>n \<in> set (by_node ns ss l). whole_of_type (pq_type r) n \<and> 1 \<le> na_free n"
    by (auto dest!: sum_nodes_some)
next
  let ?r = "\<lparr>pq_mode = ''exclusive'', pq_type = ''a'', pq_count = 2, pq_vram = 0, pq_core = 0, pq_node = ''''\<rparr>"
  let ?l = "[sample_node ''n1'' ''a'' ''1'', sample_node ''n2'' ''a'' ''1'']"
  have "can_place [] [] (Some ?l) ?r" "\<forall>n \<in> set (by_node [] [] ?l). na_free n < need_of ?r" "need_of ?r = 2"
    by (simp_all add: gate_eval)
  then show "\<exists>r l. can_place [] [] (Some l) r \<and> pq_mode r = ''exclusive'' \<and> pq_type r \<noteq> '''' \<and> need_of r = 2 \<and>
     (\<forall>n \<in> set (by_node [] [] l). na_free n < need_of r)"
    by (intro exI [of _ ?r] exI [of _ ?l]) simp
qed

theorem exclusive_grant_is_a_sum_witness:
  "need_of \<lparr>pq_mode = ''exclusive'', pq_type = ''a'', pq_count = 1, pq_vram = 0, pq_core = 0, pq_node = ''''\<rparr> + 0 \<le>
       sum_nodes (whole_of_type ''a'') na_free (by_node [] [] [sample_node ''n1'' ''a'' ''1''])"
  using exclusive_grant_is_a_sum [of "[]" "[]" "[sample_node ''n1'' ''a'' ''1'']"
    "\<lparr>pq_mode = ''exclusive'', pq_type = ''a'', pq_count = 1, pq_vram = 0, pq_core = 0, pq_node = ''''\<rparr>"]
  by (simp add: gate_eval)

text \<open>Time-sliced requests are judged by the task slots of HAMi nodes, which a time-slicing node
  never has: with GPU nodes in the inventory and no HAMi node among them, every time-sliced
  request for the cluster is refused, however idle the nodes are.\<close>

theorem timeslice_needs_hami_slots:
  assumes "by_node ns ss l \<noteq> []" "\<forall>r \<in> set ns. nr_share_mode r \<noteq> ''hami''"
    and "s_mode s = ''timeslice''" "s_gtype s \<noteq> ''''"
  shows "\<not> can_place ns ss (Some l) (place_of s '''')"
proof -
  have nf: "\<not> na_fractional n" if "n \<in> set (by_node ns ss l)" for n
    using that assms(2) by (auto simp: by_node_def fractional_node_def hami_nodes_def list_ex_iff)
  have "sum_nodes (frac_of_type t) na_slots_free nas = 0" if "\<forall>n \<in> set nas. \<not> na_fractional n" for nas t
    using that by (induction nas rule: rev_induct) (auto simp: frac_of_type_def)
  then have "ta_slots_free (type_line (by_node ns ss l) t) = 0" for t
    using nf by (simp add: type_line_def raw_type_def)
  then show ?thesis
    using assms by (simp add: can_place_def can_place_av_def place_of_def row_of_sorted_types)
qed

theorem timeslice_needs_hami_slots_witness:
  "\<not> can_place [\<lparr>nr_name = ''n1'', nr_share_mode = ''timeslicing'', nr_split = 4\<rparr>] []
     (Some [sample_node ''n1'' ''a'' ''2'']) (place_of (sample_session ''s1'' 1 ''timeslice'' ''a'') '''')"
  by (rule timeslice_needs_hami_slots) (simp_all add: gate_eval)

text \<open>For a session pinned to a node, the gate and \<open>NodeSupports\<close> agree on shared requests (a
  grant implies that the node supports the mode) but not on whole-card ones: on a node turned into
  a HAMi node the gate grants a whole-card request that \<open>NodeSupports\<close> rules out, so the restart is
  accepted although the node can no longer run the session.\<close>

theorem pinned_gate_vs_node_supports:
  "(can_place ns ss (Some l) r \<and> pq_mode r = ''shared'' \<and> pq_type r \<noteq> '''' \<and> pq_node r \<noteq> '''' \<longrightarrow>
     fst (node_supports ns ss (Some l) (pq_node r) (pq_mode r))) \<and>
   (\<exists>ns l r. can_place ns [] (Some l) r \<and> pq_mode r = ''exclusive'' \<and> pq_node r \<noteq> '''' \<and>
     node_supports ns [] (Some l) (pq_node r) (pq_mode r) = (False, True))"
proof (intro conjI impI)
  assume a: "can_place ns ss (Some l) r \<and> pq_mode r = ''shared'' \<and> pq_type r \<noteq> '''' \<and> pq_node r \<noteq> ''''"
  show "fst (node_supports ns ss (Some l) (pq_node r) (pq_mode r))"
  proof (cases "find (\<lambda>n. na_node n = pq_node r) (by_node ns ss l)")
    case None
    then show ?thesis by (simp add: node_supports_def)
  next
    case (Some n)
    then have "by_node ns ss l \<noteq> []" by auto
    with Some a show ?thesis
      by (auto simp: node_supports_def can_place_def can_place_av_def can_place_on_node_def split: if_splits)
  qed
next
  let ?ns = "[\<lparr>nr_name = ''n1'', nr_share_mode = ''hami'', nr_split = 10\<rparr>]"
  let ?l = "[sample_node ''n1'' ''a'' ''1'']"
  let ?r = "\<lparr>pq_mode = ''exclusive'', pq_type = ''a'', pq_count = 1, pq_vram = 0, pq_core = 0, pq_node = ''n1''\<rparr>"
  have "can_place ?ns [] (Some ?l) ?r" "node_supports ?ns [] (Some ?l) ''n1'' ''exclusive'' = (False, True)"
    by (simp_all add: gate_eval)
  then show "\<exists>ns l r. can_place ns [] (Some l) r \<and> pq_mode r = ''exclusive'' \<and> pq_node r \<noteq> '''' \<and>
     node_supports ns [] (Some l) (pq_node r) (pq_mode r) = (False, True)"
    by (intro exI [of _ ?ns] exI [of _ ?l] exI [of _ ?r]) simp
qed

theorem pinned_gate_vs_node_supports_witness:
  "fst (node_supports [\<lparr>nr_name = ''n1'', nr_share_mode = ''hami'', nr_split = 10\<rparr>] []
      (Some [sample_node ''n1'' ''a'' ''1'']) ''n1'' ''shared'')"
  using pinned_gate_vs_node_supports [of "[\<lparr>nr_name = ''n1'', nr_share_mode = ''hami'', nr_split = 10\<rparr>]" "[]"
      "[sample_node ''n1'' ''a'' ''1'']"
      "\<lparr>pq_mode = ''shared'', pq_type = ''a'', pq_count = 1, pq_vram = 1024, pq_core = 10, pq_node = ''n1''\<rparr>"]
  by (simp add: gate_eval)

end
