(* ===== verification/Session_Spec.thy ===== *)
theory Session_Spec
  imports Availability Policy
begin

text \<open>
  What a session is made of and what it costs (\<open>internal/session/service.go\<close>): the specification
  built from a request, the offering merged into it, the CPU and memory guarantee derived from the
  GPU share, the hourly price with its surge, the reconfigured specification, and the admission
  checks (hard limits, home quota, affordability). The read projections of the repository and the
  live inventory are the records \<open>catalog\<close> and the node list.
\<close>

section \<open>Read projections\<close>

record offering_spec =
  os_vram :: int
  os_core :: int
  os_mode :: string
  os_type :: string
  os_price :: int

record gpu_price =
  gp_type :: string
  gp_hour :: int
  gp_gb :: int
  gp_core :: int

record image_row =
  im_id :: int
  im_name :: string
  im_tag :: string

record image_channels =
  ic_vscode :: bool
  ic_jupyter :: bool
  ic_ssh :: bool
  ic_web :: "(string \<times> int) option"

record catalog =
  ct_offerings :: "(int \<times> offering_spec) list"
  ct_prices :: "gpu_price list"
  ct_nodes :: "node_row list"
  ct_images :: "image_row list"
  ct_members :: "(int \<times> int) list"
  ct_leased :: "(int \<times> string) list"
  ct_channels :: "(int \<times> image_channels) list"
  ct_cached :: "(int \<times> string) list"
  ct_users :: "(int \<times> string) list"

text \<open>An offering that does not exist scans into the zero value, without an error.\<close>

definition offering_of :: "catalog \<Rightarrow> int \<Rightarrow> offering_spec" where
  "offering_of ct i =
     (case find (\<lambda>p. fst p = i) (ct_offerings ct) of Some p \<Rightarrow> snd p
      | None \<Rightarrow> \<lparr>os_vram = 0, os_core = 0, os_mode = '''', os_type = '''', os_price = 0\<rparr>)"

definition gpu_type_pricing :: "catalog \<Rightarrow> string \<Rightarrow> int \<times> int \<times> int" where
  "gpu_type_pricing ct t =
     (case row_of gp_type t (ct_prices ct) of None \<Rightarrow> (0, 0, 0) | Some p \<Rightarrow> (gp_hour p, gp_gb p, gp_core p))"

definition timeslice_split :: "catalog \<Rightarrow> string list \<Rightarrow> int" where
  "timeslice_split ct nodes =
     (case find (\<lambda>r. nr_name r \<in> set nodes \<and> nr_share_mode r = ''timeslicing'' \<and> 0 < nr_split r) (ct_nodes ct) of
        None \<Rightarrow> 0 | Some r \<Rightarrow> nr_split r)"

definition image_ref :: "catalog \<Rightarrow> int \<Rightarrow> string option" where
  "image_ref ct i =
     (case row_of im_id i (ct_images ct) of None \<Rightarrow> None
      | Some r \<Rightarrow> if im_name r = '''' then None
                  else Some (if im_tag r \<noteq> '''' then im_name r @ '':'' @ im_tag r else im_name r))"

definition is_group_member :: "catalog \<Rightarrow> int \<Rightarrow> int \<Rightarrow> bool" where
  "is_group_member ct u g = ((u, g) \<in> set (ct_members ct))"

definition user_leased_node :: "catalog \<Rightarrow> int \<Rightarrow> string \<Rightarrow> bool" where
  "user_leased_node ct u n = ((u, n) \<in> set (ct_leased ct))"

section \<open>Configuration\<close>

record session_cfg =
  cf_home_gib :: int
  cf_max_stopped :: int
  cf_shared_home :: bool
  cf_limits :: "resolver option"
  cf_surge_dynamic :: bool
  cf_surge_increment :: int
  cf_avail :: "(string \<Rightarrow> int \<times> int) option"
  cf_gate :: "(session list \<Rightarrow> place_req \<Rightarrow> bool) option"
  cf_node_supports :: "(session list \<Rightarrow> string \<Rightarrow> string \<Rightarrow> bool \<times> bool) option"
  cf_volume_used :: "(int \<Rightarrow> int) option"
  cf_local_home_on :: bool
  cf_local_home_host :: string
  cf_ns_prefix :: string
  cf_storage_price :: "int option"
  cf_home_ttl_days :: "int option"
  cf_dynamic_lease :: bool
  cf_lease_max_hours :: int
  cf_lease_ext_hours :: int
  cf_max_extensions :: int
  cf_uid_base :: int
  cf_mem_burst :: int
  cf_sshd :: string
  cf_sshd_key :: string
  cf_gateway :: bool
  cf_expose :: string
  cf_scratch :: string
  cf_egress :: "string list \<times> string list \<times> string"
  cf_gpu_label :: string

section \<open>GPU share and guarantee\<close>

definition max1 :: "int \<Rightarrow> int" where
  "max1 n = (if n < 1 then 1 else n)"

definition nodes_of_type :: "live_node list option \<Rightarrow> string \<Rightarrow> string \<Rightarrow> string list option" where
  "nodes_of_type cl ty mode =
     (case cl of None \<Rightarrow> None
      | Some l \<Rightarrow> if l = [] then None
          else Some (map ln_name (filter (\<lambda>n. ln_ready n \<and> (mode = ''cpu'' \<or> ty = '''' \<or> ln_gpu_type n = ty)) l)))"

definition timeslice_split_for :: "catalog \<Rightarrow> live_node list option \<Rightarrow> string \<Rightarrow> int" where
  "timeslice_split_for ct cl ty =
     (case nodes_of_type cl ty '''' of None \<Rightarrow> 1
      | Some ns \<Rightarrow> if ns = [] then 1 else timeslice_split ct ns)"

definition gpu_share_of :: "session \<Rightarrow> int \<Rightarrow> int \<Rightarrow> rat" where
  "gpu_share_of s node_gpus slots =
     (let g = fl (max1 node_gpus)
      in if s_mode s = ''exclusive'' then fdiv (fl (max1 (s_gpus s))) g
         else if s_mode s = ''shared'' then fdiv (fdiv (fl (s_core s)) 100) g
         else if s_mode s = ''timeslice'' then fdiv (fdiv 1 (fl (max1 slots))) g
         else 0)"

fun min_node_loop :: "live_node option \<Rightarrow> string \<Rightarrow> live_node list \<Rightarrow> live_node option" where
  "min_node_loop best ty [] = best"
| "min_node_loop best ty (n # ns) =
     (if \<not> ln_ready n \<or> ln_gpu_type n \<noteq> ty then min_node_loop best ty ns
      else min_node_loop
        (case best of None \<Rightarrow> Some n | Some b \<Rightarrow> if ln_cpu n < ln_cpu b then Some n else best) ty ns)"

definition min_node_of :: "live_node list option \<Rightarrow> string \<Rightarrow> live_node option" where
  "min_node_of cl ty = (case cl of None \<Rightarrow> None | Some l \<Rightarrow> min_node_loop None ty l)"

text \<open>\<open>int(float64(cap)*effShare*requestFactor+0.5)\<close>, at least 1.\<close>

definition guaranteed :: "int \<Rightarrow> rat \<Rightarrow> int" where
  "guaranteed cap share = max 1 (trunc (fadd (fmul (fmul (fl cap) share) (1/2)) (1/2)))"

definition apply_guarantee :: "catalog \<Rightarrow> live_node list option \<Rightarrow> session \<Rightarrow> session" where
  "apply_guarantee ct cl s =
     (if s_mode s = ''cpu'' \<or> s_gtype s = '''' then s
      else case min_node_of cl (s_gtype s) of None \<Rightarrow> s
      | Some n \<Rightarrow>
          if ln_cpu n \<le> 0 then s
          else (let share = gpu_share_of s (atoi_safe (ln_gpu_capacity n)) (timeslice_split_for ct cl (s_gtype s));
                    eff = (if 1 < share then 1 else share)
                in if share \<le> 0 then s
                   else s\<lparr>s_cpu := guaranteed (ln_cpu n) eff, s_mem := guaranteed (ln_mem_gb n) eff\<rparr>))"

section \<open>Price\<close>

definition surge :: "session_cfg \<Rightarrow> session \<Rightarrow> int \<Rightarrow> int" where
  "surge cf s base =
     (case cf_avail cf of None \<Rightarrow> 0
      | Some av \<Rightarrow>
          if \<not> cf_surge_dynamic cf \<or> base \<le> 0 \<or> s_gtype s = '''' \<or> s_mode s = ''cpu'' then 0
          else (let (free, total) = av (s_gtype s);
                    used = (if total - free < 0 then 0 else total - free)
                in if total \<le> 0 then 0
                   else trunc (fadd (fdiv (fmul (fl (cf_surge_increment cf)) (fl used)) (fl total)) (1/2))))"

definition base_price :: "catalog \<Rightarrow> live_node list option \<Rightarrow> session \<Rightarrow> int" where
  "base_price ct cl s =
     (case s_offering s of
        Some i \<Rightarrow> os_price (offering_of ct i)
      | None \<Rightarrow>
          (let (hour, gb, core) = gpu_type_pricing ct (s_gtype s)
           in if s_mode s = ''exclusive'' then hour * max1 (s_gpus s)
              else if s_mode s = ''shared'' then (s_vram s sdiv 1024) * gb + s_core s * core
              else if s_mode s = ''timeslice'' then hour sdiv max1 (timeslice_split_for ct cl (s_gtype s))
              else if s_mode s = ''cpu'' then fst (gpu_type_pricing ct ''cpu'')
              else 0))"

definition price_of :: "session_cfg \<Rightarrow> catalog \<Rightarrow> live_node list option \<Rightarrow> session \<Rightarrow> int" where
  "price_of cf ct cl s = (let base = base_price ct cl s in base + surge cf s base)"

section \<open>Building a specification\<close>

record create_req =
  q_name :: string
  q_env :: string
  q_node :: string
  q_group :: "int option"
  q_image :: int
  q_offering :: "int option"
  q_mode :: string
  q_type :: string
  q_count :: int
  q_vram :: int
  q_core :: int
  q_cpu :: int
  q_mem :: int
  q_volumes :: "vol_mount list"
  q_datasets :: "int list"
  q_local_home :: string
  q_home :: int

record reconf_req =
  rq_mode :: string
  rq_offering :: "int option"
  rq_type :: string
  rq_count :: int
  rq_image :: "int option"
  rq_start :: bool

definition map_offering_mode :: "string \<Rightarrow> string" where
  "map_offering_mode m = (if m = ''fractional'' then ''shared'' else if m = '''' then ''cpu'' else ''exclusive'')"

definition apply_offering :: "catalog \<Rightarrow> int \<Rightarrow> session \<Rightarrow> session" where
  "apply_offering ct i s =
     (let sp = offering_of ct i
      in s\<lparr>s_vram := (if s_vram s = 0 then os_vram sp else s_vram s),
           s_core := (if s_core s = 0 then os_core sp else s_core s),
           s_mode := (if s_mode s = '''' then map_offering_mode (os_mode sp) else s_mode s),
           s_gtype := (if s_gtype s = '''' then os_type sp else s_gtype s)\<rparr>)"

definition requested :: "session_cfg \<Rightarrow> int \<Rightarrow> create_req \<Rightarrow> string \<Rightarrow> session" where
  "requested cf u q inst =
     \<lparr>s_id = 0, s_instance = inst, s_user = u, s_group = q_group q, s_name = q_name q,
      s_env = ''container'', s_mode = q_mode q, s_offering = q_offering q, s_image = Some (q_image q),
      s_vram = q_vram q, s_core = q_core q, s_cpu = q_cpu q, s_mem = q_mem q,
      s_home = Some (if 0 < q_home q then q_home q else cf_home_gib cf),
      s_gpus = q_count q, s_gtype = q_type q, s_node = '''', s_ip = '''', s_phase = Provisioning,
      s_created = 0, s_price = 0, s_started = None, s_billed = 0, s_extensions = 0,
      s_stopped_secs = 0, s_storage_billed = 0, s_stopped_since = None, s_web_password = ''''\<rparr>"

text \<open>The normalisation of a created specification: fractions belong to shared sessions, a
  whole-card session has at least one card, a time slice is one slot.\<close>

definition normalise :: "session \<Rightarrow> session" where
  "normalise s =
     (let s1 = (if s_mode s \<noteq> ''shared'' then s\<lparr>s_vram := 0, s_core := 0\<rparr> else s);
          s2 = (if s_mode s1 = ''exclusive'' \<and> s_gpus s1 < 1 then s1\<lparr>s_gpus := 1\<rparr> else s1)
      in if s_mode s2 = ''timeslice'' then s2\<lparr>s_gpus := 1\<rparr> else s2)"

text \<open>\<open>buildSession\<close>; the two generated tokens and the clock are arguments.\<close>

definition build_session ::
  "session_cfg \<Rightarrow> catalog \<Rightarrow> live_node list option \<Rightarrow> time \<Rightarrow> string \<Rightarrow> string \<Rightarrow> int \<Rightarrow> create_req \<Rightarrow> session" where
  "build_session cf ct cl now inst pw u q =
     (let s0 = requested cf u q inst;
          s1 = (case q_offering q of None \<Rightarrow> s0 | Some i \<Rightarrow> apply_offering ct i s0);
          s2 = apply_guarantee ct cl (normalise s1);
          s3 = s2\<lparr>s_price := price_of cf ct cl s2\<rparr>
      in s3\<lparr>s_web_password := pw, s_started := Some now\<rparr>)"

text \<open>\<open>nextSpec\<close>: \<open>None\<close> is \<open>ErrBadSpec\<close>.\<close>

definition next_spec ::
  "session_cfg \<Rightarrow> catalog \<Rightarrow> live_node list option \<Rightarrow> session \<Rightarrow> reconf_req \<Rightarrow> session option" where
  "next_spec cf ct cl s q =
     (if rq_mode q \<noteq> ''cpu'' \<and> rq_mode q \<noteq> ''shared'' \<and> rq_mode q \<noteq> ''exclusive'' then None
      else
        (let n0 = s\<lparr>s_mode := rq_mode q, s_gtype := rq_type q, s_gpus := rq_count q,
                    s_offering := rq_offering q, s_vram := 0, s_core := 0\<rparr>;
             bad_image = (case rq_image q of None \<Rightarrow> False | Some i \<Rightarrow> image_ref ct i = None);
             n1 = (case rq_image q of None \<Rightarrow> n0 | Some i \<Rightarrow> n0\<lparr>s_image := Some i\<rparr>)
         in if bad_image \<or> s_image n1 = None then None
            else
              (let n2 = (case s_offering n1 of None \<Rightarrow> n1 | Some i \<Rightarrow> apply_offering ct i n1);
                   n3 = (if s_mode n2 \<noteq> ''shared'' then n2\<lparr>s_vram := 0, s_core := 0, s_offering := None\<rparr> else n2);
                   n4 = (if s_mode n3 = ''cpu'' then n3\<lparr>s_gtype := '''', s_gpus := 0, s_cpu := 0, s_mem := 0\<rparr> else n3)
               in if s_mode n4 \<noteq> ''cpu'' \<and> s_gtype n4 = '''' then None
                  else
                    (let n5 = (if s_mode n4 = ''exclusive'' \<and> s_gpus n4 < 1 then n4\<lparr>s_gpus := 1\<rparr> else n4);
                         n6 = (if s_mode n5 = ''shared'' then n5\<lparr>s_gpus := 1\<rparr> else n5)
                     in if s_mode n6 = ''shared'' \<and> (s_vram n6 \<le> 0 \<or> s_core n6 \<le> 0) then None
                        else (let n7 = apply_guarantee ct cl n6 in Some (n7\<lparr>s_price := price_of cf ct cl n7\<rparr>))))))"

section \<open>Admission checks\<close>

datatype session_error =
    SNotFound | SessionLimit | StoppedLimit | HomeQuota | LeaseUnavailable | NodeRequired
  | LocalHomeForbidden | LocalHomeUnavailable | ExtendUnavailable | InsufficientCredit | MustJoinTeam
  | HardLimit | NoCapacity | NotStopped | ReconfigureUnavailable | BadSpec | AlreadyStarting
  | NodePinned | NodeModeChanged | SDbError | SClusterError | SLeaseBusy

definition check_resource_limits :: "session_cfg \<Rightarrow> int \<Rightarrow> session \<Rightarrow> session_error option" where
  "check_resource_limits cf u s =
     (case cf_limits cf of None \<Rightarrow> None
      | Some r \<Rightarrow>
          (let lim = resolve r u
           in if 0 < max_gpu lim \<and> max_gpu lim < s_gpus s then Some HardLimit
              else if 0 < max_vram_gb lim \<and> max_vram_gb lim < s_vram s sdiv 1024 then Some HardLimit
              else None))"

definition volume_used :: "session_cfg \<Rightarrow> int \<Rightarrow> int" where
  "volume_used cf u = (case cf_volume_used cf of None \<Rightarrow> 0 | Some f \<Rightarrow> f u)"

definition check_home_quota :: "session_cfg \<Rightarrow> session_db \<Rightarrow> int \<Rightarrow> session \<Rightarrow> int \<Rightarrow> session_error option" where
  "check_home_quota cf db u s quota =
     (if ssh_env s \<or> quota \<le> 0 then None
      else (let want = (case s_home s of None \<Rightarrow> cf_home_gib cf | Some h \<Rightarrow> h);
                used = allocated_home u (cf_home_gib cf) db + volume_used cf u
            in if quota < used + want then Some HomeQuota else None))"

definition check_hard_limits :: "session_cfg \<Rightarrow> session_db \<Rightarrow> int \<Rightarrow> session \<Rightarrow> session_error option" where
  "check_hard_limits cf db u s =
     (case cf_limits cf of
        None \<Rightarrow>
          (if 0 < cf_max_stopped cf \<and> \<not> ssh_env s \<and> cf_max_stopped cf \<le> count_stopped u db
           then Some StoppedLimit else None)
      | Some r \<Rightarrow>
          (let lim = resolve r u
           in if 0 < max_stopped lim \<and> \<not> ssh_env s \<and> max_stopped lim \<le> count_stopped u db then Some StoppedLimit
              else if 0 < max_concurrent lim \<and> max_concurrent lim \<le> count_active u db then Some SessionLimit
              else case check_home_quota cf db u s (max_volume_gib lim) of
                  Some e \<Rightarrow> Some e
                | None \<Rightarrow> check_resource_limits cf u s))"

definition check_capacity_cfg :: "session_cfg \<Rightarrow> session_db \<Rightarrow> session \<Rightarrow> string \<Rightarrow> session_error option" where
  "check_capacity_cfg cf db s node =
     (if check_capacity_on (map_option (\<lambda>f. f (sessions db)) (cf_gate cf)) s node then None else Some NoCapacity)"

text \<open>The balance is asked of the charger; \<open>None\<close> is a service without one.\<close>

definition affordable :: "(int \<Rightarrow> int \<Rightarrow> int) option \<Rightarrow> int \<Rightarrow> int \<Rightarrow> int \<Rightarrow> session_error option" where
  "affordable bal u g price =
     (case bal of None \<Rightarrow> None
      | Some f \<Rightarrow> if price \<le> 0 then None else if f u g < price then Some InsufficientCredit else None)"

definition home_gib_of :: "session_cfg \<Rightarrow> session \<Rightarrow> int" where
  "home_gib_of cf s =
     (case s_home s of None \<Rightarrow> cf_home_gib cf | Some h \<Rightarrow> if 0 < h then h else cf_home_gib cf)"

definition namespace_of :: "session_cfg \<Rightarrow> session \<Rightarrow> string" where
  "namespace_of cf s =
     (case s_group s of Some g \<Rightarrow> cf_ns_prefix cf @ ''grp-'' @ dec g
      | None \<Rightarrow> cf_ns_prefix cf @ ''user-'' @ dec (s_user s))"

definition pinned_failure :: "session_cfg \<Rightarrow> session_db \<Rightarrow> session \<Rightarrow> session_error \<Rightarrow> session_error" where
  "pinned_failure cf db s e =
     (if s_node s = '''' then e
      else if (case cf_node_supports cf of None \<Rightarrow> False
               | Some f \<Rightarrow> (let (ok, known) = f (sessions db) (s_node s) (s_mode s) in known \<and> \<not> ok))
      then NodeModeChanged
      else if check_capacity_cfg cf db s '''' = None then NodePinned
      else e)"

section \<open>Prices\<close>

lemma surge_zero: "surge cf s base = 0" if "\<not> cf_surge_dynamic cf \<or> base \<le> 0 \<or> s_mode s = ''cpu''"
  using that by (auto simp: surge_def split: option.split)

lemma surge_ratio_bounds:
  assumes "0 \<le> i" "0 \<le> used" "used \<le> tot" "0 < tot" "i * tot \<le> 2 ^ 53"
  shows "0 \<le> fdiv (fmul (fl i) (fl used)) (fl tot)" "fdiv (fmul (fl i) (fl used)) (fl tot) \<le> of_int i"
proof -
  have it: "i * 1 \<le> i * tot" using assms(1,4) by (intro mult_left_mono) auto
  then have i: "\<bar>i\<bar> \<le> 2 ^ 53" using assms(1,5) by linarith
  have iu: "0 \<le> i * used" "i * used \<le> i * tot"
    using assms(1-3) by (auto intro: mult_left_mono)
  show "fdiv (fmul (fl i) (fl used)) (fl tot) \<le> of_int i"
  proof (cases "i = 0")
    case True
    then show ?thesis by (simp add: fdiv_def fmul_def)
  next
    case False
    then have "tot \<le> i * tot" using assms(1,4) mult_right_mono [of 1 i tot] by simp
    with assms(2-5) have ut: "\<bar>tot\<bar> \<le> 2 ^ 53" "\<bar>used\<bar> \<le> 2 ^ 53" by linarith+
    have p: "fmul (fl i) (fl used) = of_int (i * used)"
      using iu assms(5) f64_of_int [of "i * used"] by (simp add: fmul_def fl_of_small [OF i] fl_of_small [OF ut(2)])
    have "fdiv (fmul (fl i) (fl used)) (fl tot) = f64 (of_int (i * used) / of_int tot)"
      by (simp add: fdiv_def p fl_of_small [OF ut(1)])
    also have "of_int (i * used) / of_int tot \<le> (of_int i :: rat)"
    proof -
      have "(of_int (i * used) :: rat) \<le> of_int (i * tot)" using iu(2) by (simp only: of_int_le_iff)
      then show ?thesis using assms(4) by (simp add: pos_divide_le_eq)
    qed
    then have "f64 (of_int (i * used) / of_int tot) \<le> of_int i" using i by (rule f64_le_of_int)
    finally show ?thesis .
  qed
  show "0 \<le> fdiv (fmul (fl i) (fl used)) (fl tot)"
    using assms(1-4) by (simp add: fdiv_def fmul_def)
qed

lemma surge_bounds:
  assumes "0 \<le> cf_surge_increment cf" "cf_surge_increment cf < 2 ^ 52"
    and "\<And>f t av. cf_avail cf = Some av \<Longrightarrow> av (s_gtype s) = (f, t) \<Longrightarrow>
      0 \<le> f \<and> cf_surge_increment cf * t \<le> 2 ^ 53"
  shows "0 \<le> surge cf s base \<and> surge cf s base \<le> cf_surge_increment cf"
proof (cases "cf_avail cf")
  case None
  then show ?thesis using assms(1) by (simp add: surge_def)
next
  case (Some av)
  obtain f t where ft: "av (s_gtype s) = (f, t)" by (cases "av (s_gtype s)")
  note b = assms(3) [OF Some ft]
  define used where "used = (if t - f < 0 then 0 else t - f)"
  show ?thesis
  proof (cases "\<not> cf_surge_dynamic cf \<or> base \<le> 0 \<or> s_gtype s = '''' \<or> s_mode s = ''cpu'' \<or> t \<le> 0")
    case True
    then show ?thesis using Some ft assms(1) by (auto simp: surge_def Let_def)
  next
    case False
    then have u: "0 \<le> used" "used \<le> t" "0 < t" using b by (auto simp: used_def)
    have s: "surge cf s base =
        trunc (fadd (fdiv (fmul (fl (cf_surge_increment cf)) (fl used)) (fl t)) (1/2))"
      using False Some ft by (simp add: surge_def Let_def used_def)
    show ?thesis
      unfolding s using surge_ratio_bounds [OF assms(1) u] b assms(2) by (intro conjI trunc_half_up) auto
  qed
qed

text \<open>The hourly price of a session is its base price plus a surge that never goes below zero or
  above the configured increment (when the free count the gate reports is not negative and the
  products stay exact in a float); with static pricing, and for CPU sessions, it is the base price.\<close>

theorem price_between_base_and_surge:
  assumes "0 \<le> cf_surge_increment cf" "cf_surge_increment cf < 2 ^ 52"
    and "\<forall>av f t. cf_avail cf = Some av \<and> av (s_gtype s) = (f, t) \<longrightarrow>
      0 \<le> f \<and> cf_surge_increment cf * t \<le> 2 ^ 53"
  shows "base_price ct cl s \<le> price_of cf ct cl s \<and>
    price_of cf ct cl s \<le> base_price ct cl s + cf_surge_increment cf \<and>
    (\<not> cf_surge_dynamic cf \<or> s_mode s = ''cpu'' \<longrightarrow> price_of cf ct cl s = base_price ct cl s)"
proof -
  have "0 \<le> surge cf s (base_price ct cl s) \<and> surge cf s (base_price ct cl s) \<le> cf_surge_increment cf"
    using assms by (intro surge_bounds) auto
  then show ?thesis by (auto simp: price_of_def Let_def surge_zero)
qed

definition sample_cfg :: session_cfg where
  "sample_cfg = \<lparr>cf_home_gib = 200, cf_max_stopped = 3, cf_shared_home = True, cf_limits = None,
     cf_surge_dynamic = True, cf_surge_increment = 40, cf_avail = Some (\<lambda>_. (1, 4)), cf_gate = None,
     cf_node_supports = None, cf_volume_used = None, cf_local_home_on = False, cf_local_home_host = '''',
     cf_ns_prefix = ''giosk-'', cf_storage_price = Some 10, cf_home_ttl_days = Some 7,
     cf_dynamic_lease = False, cf_lease_max_hours = 8, cf_lease_ext_hours = 4, cf_max_extensions = 2,
     cf_uid_base = 100000, cf_mem_burst = 2, cf_sshd = ''sshd:1'', cf_sshd_key = [], cf_gateway = True,
     cf_expose = ''loadbalancer'', cf_scratch = [], cf_egress = ([''10.0.0.0/8''], [], []), cf_gpu_label = ''gpu''\<rparr>"

definition sample_catalog :: catalog where
  "sample_catalog = \<lparr>ct_offerings = [(1, \<lparr>os_vram = 8192, os_core = 30, os_mode = ''fractional'', os_type = ''a'', os_price = 25\<rparr>)],
     ct_prices = [\<lparr>gp_type = ''a'', gp_hour = 100, gp_gb = 4, gp_core = 1\<rparr>, \<lparr>gp_type = ''cpu'', gp_hour = 5, gp_gb = 0, gp_core = 0\<rparr>],
     ct_nodes = [], ct_images = [\<lparr>im_id = 1, im_name = ''base'', im_tag = ''1.0''\<rparr>], ct_members = [(1, 1)], ct_leased = [],
     ct_channels = [], ct_cached = [], ct_users = [(1, ''ann'')]\<rparr>"

theorem price_between_base_and_surge_witness:
  "base_price sample_catalog None (sample_session ''s1'' 1 ''exclusive'' ''a'') = 100 \<and>
   price_of sample_cfg sample_catalog None (sample_session ''s1'' 1 ''exclusive'' ''a'') \<le> 140"
proof -
  have b: "base_price sample_catalog None (sample_session ''s1'' 1 ''exclusive'' ''a'') = 100"
    by (simp add: base_price_def sample_session_def gpu_type_pricing_def sample_catalog_def max1_def)
  show ?thesis
    using price_between_base_and_surge [of sample_cfg "sample_session ''s1'' 1 ''exclusive'' ''a''" sample_catalog None] b
    by (simp add: sample_cfg_def)
qed

section \<open>Built specifications\<close>

lemma guarantee_frame [simp]:
  "s_mode (apply_guarantee ct cl s) = s_mode s" "s_gtype (apply_guarantee ct cl s) = s_gtype s"
  "s_gpus (apply_guarantee ct cl s) = s_gpus s" "s_vram (apply_guarantee ct cl s) = s_vram s"
  "s_core (apply_guarantee ct cl s) = s_core s" "s_offering (apply_guarantee ct cl s) = s_offering s"
  "s_image (apply_guarantee ct cl s) = s_image s" "s_home (apply_guarantee ct cl s) = s_home s"
  "s_phase (apply_guarantee ct cl s) = s_phase s" "s_group (apply_guarantee ct cl s) = s_group s"
  "s_user (apply_guarantee ct cl s) = s_user s" "s_instance (apply_guarantee ct cl s) = s_instance s"
  "s_env (apply_guarantee ct cl s) = s_env s" "s_node (apply_guarantee ct cl s) = s_node s"
  "s_id (apply_guarantee ct cl s) = s_id s" "s_billed (apply_guarantee ct cl s) = s_billed s"
  "s_started (apply_guarantee ct cl s) = s_started s"
  by (simp_all add: apply_guarantee_def Let_def split: option.split)

lemma base_price_cong:
  assumes "s_mode t = s_mode s" "s_gtype t = s_gtype s" "s_gpus t = s_gpus s" "s_vram t = s_vram s"
    "s_core t = s_core s" "s_offering t = s_offering s"
  shows "base_price ct cl t = base_price ct cl s"
  unfolding base_price_def assms ..

lemma surge_cong: "s_mode t = s_mode s \<Longrightarrow> s_gtype t = s_gtype s \<Longrightarrow> surge cf t b = surge cf s b"
  unfolding surge_def by (erule ssubst, erule ssubst) (rule refl)

lemma price_of_cong:
  assumes "s_mode t = s_mode s" "s_gtype t = s_gtype s" "s_gpus t = s_gpus s" "s_vram t = s_vram s"
    "s_core t = s_core s" "s_offering t = s_offering s"
  shows "price_of cf ct cl t = price_of cf ct cl s"
  unfolding price_of_def base_price_cong [OF assms] surge_cong [OF assms(1,2)] ..

lemma apply_offering_frame [simp]:
  "s_offering (apply_offering ct i s) = s_offering s" "s_gpus (apply_offering ct i s) = s_gpus s"
  "s_image (apply_offering ct i s) = s_image s" "s_home (apply_offering ct i s) = s_home s"
  "s_phase (apply_offering ct i s) = s_phase s" "s_node (apply_offering ct i s) = s_node s"
  "s_user (apply_offering ct i s) = s_user s" "s_instance (apply_offering ct i s) = s_instance s"
  "s_env (apply_offering ct i s) = s_env s" "s_group (apply_offering ct i s) = s_group s"
  "s_id (apply_offering ct i s) = s_id s" "s_billed (apply_offering ct i s) = s_billed s"
  "s_started (apply_offering ct i s) = s_started s"
  by (simp_all add: apply_offering_def Let_def)

lemma normalise_frame [simp]:
  "s_mode (normalise s) = s_mode s" "s_gtype (normalise s) = s_gtype s" "s_offering (normalise s) = s_offering s"
  "s_image (normalise s) = s_image s" "s_home (normalise s) = s_home s" "s_phase (normalise s) = s_phase s"
  "s_node (normalise s) = s_node s" "s_user (normalise s) = s_user s" "s_env (normalise s) = s_env s"
  "s_instance (normalise s) = s_instance s" "s_group (normalise s) = s_group s"
  by (simp_all add: normalise_def Let_def)

text \<open>A well-formed specification: what the mode allows.\<close>

definition spec_ok :: "session \<Rightarrow> bool" where
  "spec_ok s \<longleftrightarrow> (s_mode s \<noteq> ''shared'' \<longrightarrow> s_vram s = 0 \<and> s_core s = 0) \<and>
     (s_mode s = ''exclusive'' \<longrightarrow> 1 \<le> s_gpus s) \<and> (s_mode s = ''timeslice'' \<longrightarrow> s_gpus s = 1)"

lemma normalise_ok: "spec_ok (normalise s)"
  by (auto simp: spec_ok_def normalise_def Let_def)

lemma spec_ok_guarantee [simp]: "spec_ok (apply_guarantee ct cl s) = spec_ok s"
  by (simp add: spec_ok_def)

text \<open>Every specification built from a request is well-formed (fractions only for shared
  sessions, at least one card for whole-card ones, exactly one slot for a time slice), belongs to
  the requesting user and the requested team, starts in provisioning without a node, carries a
  home of the requested size or of the installation default, and its price is the one the server
  computes from the specification itself.\<close>

theorem built_spec_well_formed:
  "let s = build_session cf ct cl now inst pw u q
   in spec_ok s \<and> s_user s = u \<and> s_group s = q_group q \<and> s_instance s = inst \<and> s_env s = ''container'' \<and>
      s_phase s = Provisioning \<and> s_node s = '''' \<and> s_started s = Some now \<and> s_billed s = 0 \<and>
      s_home s = Some (if 0 < q_home q then q_home q else cf_home_gib cf) \<and>
      s_price s = price_of cf ct cl s"
proof -
  define s1 where "s1 = (case q_offering q of None \<Rightarrow> requested cf u q inst
    | Some i \<Rightarrow> apply_offering ct i (requested cf u q inst))"
  have f: "s_user s1 = u" "s_group s1 = q_group q" "s_instance s1 = inst" "s_env s1 = ''container''"
    "s_phase s1 = Provisioning" "s_node s1 = ''''" "s_billed s1 = 0"
    "s_home s1 = Some (if 0 < q_home q then q_home q else cf_home_gib cf)"
    by (simp_all add: s1_def requested_def split: option.split)
  have n: "s_billed (normalise s1) = 0" using f by (simp add: normalise_def Let_def)
  show ?thesis
    using f n normalise_ok [of s1] unfolding build_session_def Let_def s1_def [symmetric]
    by (auto simp: spec_ok_def intro!: price_of_cong)
qed

section \<open>What an offering does to the price\<close>

text \<open>A request that names an offering is priced at that offering's rate (plus surge) whatever GPU
  mode and number of cards it asks for: a whole-card request for any number of cards of a type
  that costs money, naming an offering that does not exist, gets all its cards at price zero, and
  passes the credit check with any balance.\<close>

theorem offering_price_ignores_request:
  "(q_offering q = Some i \<longrightarrow>
      (let s = build_session cf ct cl now inst pw u q
       in s_price s = os_price (offering_of ct i) + surge cf s (os_price (offering_of ct i)))) \<and>
   (q_offering q = Some i \<and> find (\<lambda>p. fst p = i) (ct_offerings ct) = None \<and> q_mode q = ''exclusive'' \<and>
      1 \<le> q_count q \<longrightarrow>
      (let s = build_session cf ct cl now inst pw u q
       in s_mode s = ''exclusive'' \<and> s_gpus s = q_count q \<and> s_price s = 0 \<and>
          affordable bal u g (s_price s) = None))"
proof -
  let ?s = "build_session cf ct cl now inst pw u q"
  define s2 where "s2 = apply_guarantee ct cl (normalise (apply_offering ct i (requested cf u q inst)))"
  have b: "?s = s2\<lparr>s_price := price_of cf ct cl s2, s_web_password := pw, s_started := Some now\<rparr>"
    if "q_offering q = Some i"
    using that by (simp add: build_session_def Let_def s2_def)
  have o: "s_offering s2 = q_offering q" by (simp add: s2_def requested_def)
  have p: "s_price ?s = os_price (offering_of ct i) + surge cf ?s (os_price (offering_of ct i))"
    if "q_offering q = Some i"
    using that o surge_cong [of ?s s2 cf] by (simp add: b price_of_def base_price_def Let_def)
  have z: "s_mode ?s = ''exclusive'' \<and> s_gpus ?s = q_count q"
    if "q_offering q = Some i" "q_mode q = ''exclusive''" "1 \<le> q_count q"
    using that b by (simp add: s2_def normalise_def Let_def apply_offering_def requested_def)
  have "surge cf t 0 = 0" for t by (rule surge_zero) simp
  then show ?thesis
    using p z by (auto simp: Let_def offering_of_def affordable_def split: option.splits)
qed

definition sample_request :: create_req where
  "sample_request = \<lparr>q_name = ''train'', q_env = '''', q_node = '''', q_group = Some 1, q_image = 1,
     q_offering = None, q_mode = ''exclusive'', q_type = ''a'', q_count = 8, q_vram = 0, q_core = 0,
     q_cpu = 0, q_mem = 0, q_volumes = [], q_datasets = [], q_local_home = '''', q_home = 0\<rparr>"

theorem offering_price_ignores_request_witness:
  "let s = build_session sample_cfg sample_catalog None 0 ''ses-a'' ''pw'' 1 (sample_request\<lparr>q_offering := Some 99\<rparr>)
   in s_gpus s = 8 \<and> s_price s = 0 \<and> affordable (Some (\<lambda>_ _. 0)) 1 1 (s_price s) = None"
proof -
  define q where "q = sample_request\<lparr>q_offering := Some 99\<rparr>"
  have "q_offering q = Some 99" "q_mode q = ''exclusive''" "q_count q = 8"
    "find (\<lambda>p. fst p = 99) (ct_offerings sample_catalog) = None"
    by (simp_all add: q_def sample_request_def sample_catalog_def)
  then show ?thesis
    using offering_price_ignores_request [of q 99 sample_cfg sample_catalog None 0 "''ses-a''" "''pw''" 1 "Some (\<lambda>_ _. 0)" 1]
    unfolding q_def [symmetric] Let_def by auto
qed

section \<open>The guarantee\<close>

lemma guaranteed_bounds:
  assumes "0 \<le> cap" "cap \<le> 2 ^ 50" "share \<le> 1"
  shows "1 \<le> guaranteed cap share" "guaranteed cap share \<le> max 1 ((cap + 1) div 2)"
proof -
  show "1 \<le> guaranteed cap share" by (simp add: guaranteed_def)
  have c: "\<bar>cap\<bar> \<le> 2 ^ 53" "\<bar>cap + 1\<bar> \<le> 2 ^ 53" using assms(1,2) by auto
  have "of_int cap * share \<le> of_int cap * 1"
    using assms(1,3) by (intro mult_left_mono) auto
  then have "fmul (fl cap) share \<le> of_int cap"
    using c(1) f64_le_of_int [of "of_int cap * share" cap] by (simp add: fmul_def fl_of_small [OF c(1)])
  then have "fmul (fmul (fl cap) share) (1/2) \<le> f64 (of_int cap / 2)"
    unfolding fmul_def [of _ "1/2"] by (intro f64_mono) simp
  also have "\<dots> = of_int cap / 2" using c(1) by (rule f64_of_half)
  finally have "fadd (fmul (fmul (fl cap) share) (1/2)) (1/2) \<le> f64 (of_int (cap + 1) / 2)"
    unfolding fadd_def by (intro f64_mono) (simp add: add_divide_distrib)
  also have "\<dots> = of_int (cap + 1) / 2" using c(2) by (rule f64_of_half)
  finally have "trunc (fadd (fmul (fmul (fl cap) share) (1/2)) (1/2)) \<le> trunc (of_int (cap + 1) / 2)"
    by (rule trunc_mono)
  also have "trunc (of_int (cap + 1) / 2 :: rat) = (cap + 1) div 2"
    using assms(1) floor_divide_of_int_eq [of "cap + 1" 2, where ?'a = rat] by (simp add: trunc_def)
  finally show "guaranteed cap share \<le> max 1 ((cap + 1) div 2)" by (simp add: guaranteed_def)
qed

lemma guaranteed_when_shared:
  assumes "min_node_of cl (s_gtype t) = Some n" "s_mode t = ''shared''" "s_gtype t \<noteq> []" "0 < ln_cpu n"
    and "0 < s_core t" "s_core t \<le> 100" "ln_gpu_capacity n = ''1''"
  shows "1 \<le> s_cpu (apply_guarantee ct cl t)"
proof -
  have cap: "atoi_safe (ln_gpu_capacity n) = 1" using assms(7) by (simp add: atoi_safe_def is_digit_def)
  have c: "fl (s_core t) = of_int (s_core t)" using assms(5,6) by (intro fl_of_small) simp
  have "0 < f64 (of_int (s_core t) / 100)" using assms(5) by (simp add: f64_def f64_pos_pos)
  then have "0 < gpu_share_of t 1 k" for k
    using assms(2) by (simp add: gpu_share_of_def max1_def fdiv_def c fl_of_small f64_def f64_pos_pos)
  then have "\<not> gpu_share_of t 1 k \<le> 0" for k by (simp add: not_le)
  then show ?thesis
    using assms(1-4) by (simp add: apply_guarantee_def cap Let_def guaranteed_def)
qed

lemma tenth_shares_overcommit:
  "\<exists>n t. min_node_of (Some [n]) (s_gtype t) = Some n \<and> s_mode t = ''shared'' \<and> s_core t = 10 \<and>
      ln_gpu_capacity n = ''1'' \<and> ln_cpu n = 8 \<and> ln_cpu n < 10 * s_cpu (apply_guarantee ct (Some [n]) t)"
proof -
  define n where "n = (sample_node ''n1'' ''a'' ''1'')\<lparr>ln_cpu := 8\<rparr>"
  define t where "t = (sample_session ''s1'' 1 ''shared'' ''a'')\<lparr>s_core := 10\<rparr>"
  have n: "ln_cpu n = 8" "ln_gpu_capacity n = ''1''" "ln_ready n" "ln_gpu_type n = ''a''"
    by (simp_all add: n_def sample_node_def)
  have t: "s_mode t = ''shared''" "s_core t = 10" "s_gtype t = ''a''"
    by (simp_all add: t_def sample_session_def)
  have m: "min_node_of (Some [n]) (s_gtype t) = Some n" by (simp add: min_node_of_def n t)
  have "1 \<le> s_cpu (apply_guarantee ct (Some [n]) t)"
    by (rule guaranteed_when_shared [OF m]) (simp_all add: n t)
  then have "ln_cpu n < 10 * s_cpu (apply_guarantee ct (Some [n]) t)" by (simp add: n)
  with m n t show ?thesis by blast
qed

text \<open>The guarantee leaves a specification alone or asks, against the smallest node of its GPU
  type, for at least one core and one GiB and at most half the node rounded up. The floor of one
  breaks the promise that all guarantees on a node together ask for at most half of it: on an
  eight-core node ten sessions holding a tenth of its only card each ask for more cores than the
  node has.\<close>

theorem guarantee_bounds:
  assumes "\<forall>n. min_node_of cl (s_gtype s) = Some n \<longrightarrow> ln_cpu n \<le> 2 ^ 50 \<and> 0 \<le> ln_mem_gb n \<and> ln_mem_gb n \<le> 2 ^ 50"
  shows "(apply_guarantee ct cl s = s \<or>
     (\<exists>n. min_node_of cl (s_gtype s) = Some n \<and>
        1 \<le> s_cpu (apply_guarantee ct cl s) \<and> s_cpu (apply_guarantee ct cl s) \<le> (ln_cpu n + 1) div 2 \<and>
        1 \<le> s_mem (apply_guarantee ct cl s) \<and> s_mem (apply_guarantee ct cl s) \<le> max 1 ((ln_mem_gb n + 1) div 2))) \<and>
   (\<exists>n t. min_node_of (Some [n]) (s_gtype t) = Some n \<and> s_mode t = ''shared'' \<and> s_core t = 10 \<and>
      ln_gpu_capacity n = ''1'' \<and> ln_cpu n = 8 \<and> ln_cpu n < 10 * s_cpu (apply_guarantee ct (Some [n]) t))"
proof
  show "apply_guarantee ct cl s = s \<or>
     (\<exists>n. min_node_of cl (s_gtype s) = Some n \<and>
        1 \<le> s_cpu (apply_guarantee ct cl s) \<and> s_cpu (apply_guarantee ct cl s) \<le> (ln_cpu n + 1) div 2 \<and>
        1 \<le> s_mem (apply_guarantee ct cl s) \<and> s_mem (apply_guarantee ct cl s) \<le> max 1 ((ln_mem_gb n + 1) div 2))"
  proof (cases "apply_guarantee ct cl s = s")
    case False
    then obtain n where n: "min_node_of cl (s_gtype s) = Some n" "0 < ln_cpu n"
      by (auto simp: apply_guarantee_def split: if_splits option.splits)
    define share where "share = gpu_share_of s (atoi_safe (ln_gpu_capacity n)) (timeslice_split_for ct cl (s_gtype s))"
    define eff where "eff = (if 1 < share then 1 else share)"
    have e: "eff \<le> 1" by (simp add: eff_def)
    have c: "\<not> (s_mode s = ''cpu'' \<or> s_gtype s = [])" using False by (auto simp: apply_guarantee_def)
    have "apply_guarantee ct cl s =
        (if share \<le> 0 then s else s\<lparr>s_cpu := guaranteed (ln_cpu n) eff, s_mem := guaranteed (ln_mem_gb n) eff\<rparr>)"
      unfolding apply_guarantee_def Let_def eff_def share_def using c n by simp
    with False have g: "apply_guarantee ct cl s = s\<lparr>s_cpu := guaranteed (ln_cpu n) eff, s_mem := guaranteed (ln_mem_gb n) eff\<rparr>"
      by presburger
    have m: "max 1 ((ln_cpu n + 1) div 2) = (ln_cpu n + 1) div 2" using n(2) by linarith
    have cap: "ln_cpu n \<le> 2 ^ 50" "0 \<le> ln_mem_gb n" "ln_mem_gb n \<le> 2 ^ 50" using assms n(1) by blast+
    note b = guaranteed_bounds [OF less_imp_le [OF n(2)] cap(1) e] guaranteed_bounds [OF cap(2,3) e]
    have f: "s_cpu (apply_guarantee ct cl s) = guaranteed (ln_cpu n) eff"
      "s_mem (apply_guarantee ct cl s) = guaranteed (ln_mem_gb n) eff"
      unfolding g by simp_all
    show ?thesis unfolding f using b [unfolded m] n(1) by blast
  qed simp
next
  show "\<exists>n t. min_node_of (Some [n]) (s_gtype t) = Some n \<and> s_mode t = ''shared'' \<and> s_core t = 10 \<and>
      ln_gpu_capacity n = ''1'' \<and> ln_cpu n = 8 \<and> ln_cpu n < 10 * s_cpu (apply_guarantee ct (Some [n]) t)"
    by (rule tenth_shares_overcommit)
qed

theorem guarantee_bounds_witness:
  "let s = apply_guarantee sample_catalog (Some [sample_node ''n1'' ''a'' ''1'']) (sample_session ''s1'' 1 ''exclusive'' ''a'')
   in s_cpu s \<le> 16"
proof -
  have m: "min_node_of (Some [sample_node ''n1'' ''a'' ''1'']) ''a'' = Some (sample_node ''n1'' ''a'' ''1'')"
    by (simp add: min_node_of_def sample_node_def)
  then show ?thesis
    using guarantee_bounds [of "Some [sample_node ''n1'' ''a'' ''1'']" "sample_session ''s1'' 1 ''exclusive'' ''a''" sample_catalog]
    by (auto simp: sample_session_def sample_node_def Let_def)
qed

section \<open>Reconfigured specifications\<close>

text \<open>The request's mode, type, count and offering on the session, and the rest of \<open>nextSpec\<close> as a
  chain of named stages.\<close>

definition reconf_base :: "session \<Rightarrow> reconf_req \<Rightarrow> session" where
  "reconf_base s q =
     (let n0 = s\<lparr>s_mode := rq_mode q, s_gtype := rq_type q, s_gpus := rq_count q,
                s_offering := rq_offering q, s_vram := 0, s_core := 0\<rparr>
      in case rq_image q of None \<Rightarrow> n0 | Some i \<Rightarrow> n0\<lparr>s_image := Some i\<rparr>)"

definition reconf_norm :: "catalog \<Rightarrow> session \<Rightarrow> session" where
  "reconf_norm ct n1 =
     (let n2 = (case s_offering n1 of None \<Rightarrow> n1 | Some i \<Rightarrow> apply_offering ct i n1);
          n3 = (if s_mode n2 \<noteq> ''shared'' then n2\<lparr>s_vram := 0, s_core := 0, s_offering := None\<rparr> else n2);
          n4 = (if s_mode n3 = ''cpu'' then n3\<lparr>s_gtype := '''', s_gpus := 0, s_cpu := 0, s_mem := 0\<rparr> else n3);
          n5 = (if s_mode n4 = ''exclusive'' \<and> s_gpus n4 < 1 then n4\<lparr>s_gpus := 1\<rparr> else n4)
      in if s_mode n5 = ''shared'' then n5\<lparr>s_gpus := 1\<rparr> else n5)"

lemma reconf_base_frame [simp]:
  "s_mode (reconf_base s q) = rq_mode q" "s_user (reconf_base s q) = s_user s"
  "s_instance (reconf_base s q) = s_instance s" "s_group (reconf_base s q) = s_group s"
  "s_home (reconf_base s q) = s_home s" "s_node (reconf_base s q) = s_node s" "s_env (reconf_base s q) = s_env s"
  "s_phase (reconf_base s q) = s_phase s" "s_billed (reconf_base s q) = s_billed s"
  "s_started (reconf_base s q) = s_started s" "s_id (reconf_base s q) = s_id s"
  by (simp_all add: reconf_base_def Let_def split: option.split)

definition same_session :: "session \<Rightarrow> session \<Rightarrow> bool" where
  "same_session s t \<longleftrightarrow> s_id t = s_id s \<and> s_instance t = s_instance s \<and> s_user t = s_user s \<and>
     s_group t = s_group s \<and> s_env t = s_env s \<and> s_home t = s_home s \<and> s_node t = s_node s \<and>
     s_phase t = s_phase s \<and> s_billed t = s_billed s \<and> s_started t = s_started s"

lemma same_session_trans: "same_session s t \<Longrightarrow> same_session t u \<Longrightarrow> same_session s u"
  by (simp add: same_session_def)

lemma reconf_base_same: "same_session s (reconf_base s q)"
  by (simp add: same_session_def)

lemma apply_offering_same: "same_session s (apply_offering ct i s)"
  by (simp add: same_session_def)

lemma reconf_norm_facts:
  assumes "s_mode n1 \<noteq> []"
  shows "s_mode (reconf_norm ct n1) = s_mode n1 \<and> same_session n1 (reconf_norm ct n1) \<and> s_image (reconf_norm ct n1) = s_image n1 \<and>
    (s_mode n1 \<noteq> ''shared'' \<longrightarrow> s_vram (reconf_norm ct n1) = 0 \<and> s_core (reconf_norm ct n1) = 0 \<and> s_offering (reconf_norm ct n1) = None) \<and>
    (s_mode n1 = ''cpu'' \<longrightarrow> s_gtype (reconf_norm ct n1) = [] \<and> s_gpus (reconf_norm ct n1) = 0) \<and>
    (s_mode n1 = ''exclusive'' \<longrightarrow> 1 \<le> s_gpus (reconf_norm ct n1)) \<and>
    (s_mode n1 = ''shared'' \<longrightarrow> s_gpus (reconf_norm ct n1) = 1)"
proof -
  define n2 where "n2 = (case s_offering n1 of None \<Rightarrow> n1 | Some i \<Rightarrow> apply_offering ct i n1)"
  have m: "s_mode n2 = s_mode n1" "same_session n1 n2" "s_image n2 = s_image n1"
    using assms by (simp_all add: n2_def apply_offering_def same_session_def Let_def split: option.split)
  show ?thesis
    unfolding reconf_norm_def n2_def [symmetric] Let_def using m by (auto simp: same_session_def)
qed

lemma next_spec_stages:
  "next_spec cf ct cl s q =
     (if rq_mode q \<noteq> ''cpu'' \<and> rq_mode q \<noteq> ''shared'' \<and> rq_mode q \<noteq> ''exclusive'' then None
      else if (\<exists>i. rq_image q = Some i \<and> image_ref ct i = None) \<or> s_image (reconf_base s q) = None then None
      else (let n6 = reconf_norm ct (reconf_base s q)
            in if s_mode n6 \<noteq> ''cpu'' \<and> s_gtype n6 = [] then None
               else if s_mode n6 = ''shared'' \<and> (s_vram n6 \<le> 0 \<or> s_core n6 \<le> 0) then None
               else (let n7 = apply_guarantee ct cl n6 in Some (n7\<lparr>s_price := price_of cf ct cl n7\<rparr>))))"
proof (cases "rq_mode q \<noteq> ''cpu'' \<and> rq_mode q \<noteq> ''shared'' \<and> rq_mode q \<noteq> ''exclusive''")
  case True
  then show ?thesis by (simp add: next_spec_def)
next
  case False
  define n1 where "n1 = reconf_base s q"
  define n2 where "n2 = (case s_offering n1 of None \<Rightarrow> n1 | Some i \<Rightarrow> apply_offering ct i n1)"
  define n3 where "n3 = (if s_mode n2 \<noteq> ''shared'' then n2\<lparr>s_vram := 0, s_core := 0, s_offering := None\<rparr> else n2)"
  define n4 where "n4 = (if s_mode n3 = ''cpu'' then n3\<lparr>s_gtype := [], s_gpus := 0, s_cpu := 0, s_mem := 0\<rparr> else n3)"
  define n5 where "n5 = (if s_mode n4 = ''exclusive'' \<and> s_gpus n4 < 1 then n4\<lparr>s_gpus := 1\<rparr> else n4)"
  define n6 where "n6 = (if s_mode n5 = ''shared'' then n5\<lparr>s_gpus := 1\<rparr> else n5)"
  have r: "reconf_norm ct n1 = n6"
    unfolding reconf_norm_def Let_def n2_def [symmetric] n3_def [symmetric] n4_def [symmetric] n5_def [symmetric]
      n6_def [symmetric] ..
  have g: "s_gtype n6 = s_gtype n4" "s_mode n6 = s_mode n4" by (simp_all add: n6_def n5_def)
  have bad: "(case rq_image q of None \<Rightarrow> False | Some i \<Rightarrow> image_ref ct i = None) \<longleftrightarrow>
      (\<exists>i. rq_image q = Some i \<and> image_ref ct i = None)"
    by (auto split: option.split)
  have n1': "(case rq_image q of None \<Rightarrow> s\<lparr>s_mode := rq_mode q, s_gtype := rq_type q, s_gpus := rq_count q,
        s_offering := rq_offering q, s_vram := 0, s_core := 0\<rparr>
      | Some i \<Rightarrow> s\<lparr>s_mode := rq_mode q, s_gtype := rq_type q, s_gpus := rq_count q,
        s_offering := rq_offering q, s_vram := 0, s_core := 0\<rparr>\<lparr>s_image := Some i\<rparr>) = n1"
    by (simp add: n1_def reconf_base_def Let_def)
  show ?thesis
    unfolding next_spec_def Let_def bad n1' n2_def [symmetric] n3_def [symmetric] n4_def [symmetric]
      n5_def [symmetric] n6_def [symmetric] n1_def [symmetric] r g using False by presburger
qed

text \<open>A reconfiguration that is not refused asks for a supported mode with an existing image, is
  well-formed for that mode (a whole-card specification has a type, at least one card and no
  offering; a shared one has a type, one card and positive VRAM and core shares; a CPU one has no
  GPU), is priced by the server from the result, and remains the same session: identity, owner,
  team, home, node, phase and billing are untouched.\<close>

theorem reconfigured_spec_well_formed:
  assumes "next_spec cf ct cl s q = Some n"
  shows "same_session s n \<and> s_image n \<noteq> None \<and> s_price n = price_of cf ct cl n \<and>
    ((s_mode n = ''cpu'' \<and> s_gtype n = [] \<and> s_gpus n = 0 \<and> s_offering n = None) \<or>
     (s_mode n = ''exclusive'' \<and> s_gtype n \<noteq> [] \<and> 1 \<le> s_gpus n \<and> s_offering n = None \<and> s_vram n = 0 \<and> s_core n = 0) \<or>
     (s_mode n = ''shared'' \<and> s_gtype n \<noteq> [] \<and> s_gpus n = 1 \<and> 0 < s_vram n \<and> 0 < s_core n))"
proof -
  define n6 where "n6 = reconf_norm ct (reconf_base s q)"
  have md: "s_mode (reconf_base s q) \<noteq> []"
    using assms by (auto simp: next_spec_stages split: if_splits)
  note f = reconf_norm_facts [OF md, of ct, folded n6_def]
  have same: "same_session s n6" using same_session_trans [OF reconf_base_same] f by blast
  from assms have m: "rq_mode q = ''cpu'' \<or> rq_mode q = ''shared'' \<or> rq_mode q = ''exclusive''"
    and img: "s_image (reconf_base s q) \<noteq> None"
    and g: "s_mode n6 \<noteq> ''cpu'' \<longrightarrow> s_gtype n6 \<noteq> []" "s_mode n6 = ''shared'' \<longrightarrow> 0 < s_vram n6 \<and> 0 < s_core n6"
    and n: "n = (apply_guarantee ct cl n6)\<lparr>s_price := price_of cf ct cl (apply_guarantee ct cl n6)\<rparr>"
    by (auto simp: next_spec_stages Let_def n6_def [symmetric] split: if_splits)
  have p: "price_of cf ct cl n = price_of cf ct cl (apply_guarantee ct cl n6)"
    unfolding n by (rule price_of_cong) simp_all
  have v: "same_session s n" using same by (simp add: n same_session_def)
  show ?thesis
    using v p m img g f unfolding n by auto
qed

theorem reconfigured_spec_well_formed_witness:
  "\<exists>n. next_spec sample_cfg sample_catalog None (sample_session ''s1'' 1 ''exclusive'' ''a'')
       \<lparr>rq_mode = ''cpu'', rq_offering = None, rq_type = '''', rq_count = 0, rq_image = None, rq_start = False\<rparr> = Some n \<and>
     s_mode n = ''cpu'' \<and> s_gpus n = 0"
proof -
  let ?q = "\<lparr>rq_mode = ''cpu'', rq_offering = None, rq_type = '''', rq_count = 0, rq_image = None, rq_start = False\<rparr>"
  obtain n where n: "next_spec sample_cfg sample_catalog None (sample_session ''s1'' 1 ''exclusive'' ''a'') ?q = Some n" "s_mode n = ''cpu''"
    by (simp add: next_spec_def sample_session_def apply_guarantee_def Let_def)
  with reconfigured_spec_well_formed [OF n(1)] show ?thesis by auto
qed

section \<open>Admission keeps the quotas\<close>

lemma count_active_snoc: "count_active u (db\<lparr>sessions := sessions db @ [s], next_id := k\<rparr>) =
    count_active u db + (if s_user s = u \<and> active_phase (s_phase s) then 1 else 0)"
  by (simp add: count_active_def)

lemma count_stopped_snoc: "s_phase s \<noteq> Stopped \<Longrightarrow>
    count_stopped u (db\<lparr>sessions := sessions db @ [s], next_id := k\<rparr>) = count_stopped u db"
  by (simp add: count_stopped_def)

lemma allocated_home_snoc: "allocated_home u d (db\<lparr>sessions := sessions db @ [s], next_id := k\<rparr>) =
    allocated_home u d db + (if s_user s = u \<and> \<not> ssh_env s then (case s_home s of Some h \<Rightarrow> h | None \<Rightarrow> d) else 0)"
  by (simp add: allocated_home_def)

text \<open>C25: A container session admitted by the hard limits and written to the table leaves its owner
  within five of the resolved limits (zero meaning unlimited): no more active sessions than the concurrent
  limit, fewer stopped ones than the limit on these, so that one more may be stopped, homes and volumes
  together within the volume quota, and the session itself within the GPU and VRAM caps. The limit on ephemeral
  disks is none of admission: it is set on the pod.\<close>

theorem admission_keeps_quotas:
  assumes "check_hard_limits cf db u s = None" "cf_limits cf = Some r" "create_row ok now s db = (db', Some s')"
    and "s_user s = u" "\<not> ssh_env s" "active_phase (s_phase s)"
  shows "(0 < max_concurrent (resolve r u) \<longrightarrow> count_active u db' \<le> max_concurrent (resolve r u)) \<and>
    (0 < max_volume_gib (resolve r u) \<longrightarrow>
       allocated_home u (cf_home_gib cf) db' + volume_used cf u \<le> max_volume_gib (resolve r u)) \<and>
    (0 < max_gpu (resolve r u) \<longrightarrow> s_gpus s' \<le> max_gpu (resolve r u)) \<and>
    (0 < max_vram_gb (resolve r u) \<longrightarrow> s_vram s' sdiv 1024 \<le> max_vram_gb (resolve r u)) \<and>
    (0 < max_stopped (resolve r u) \<longrightarrow> count_stopped u db' < max_stopped (resolve r u))"
proof -
  let ?lim = "resolve r u"
  have s': "s' = s\<lparr>s_id := next_id db, s_created := now\<rparr>"
    and db': "db' = db\<lparr>sessions := sessions db @ [s'], next_id := next_id db + 1\<rparr>"
    using assms(3) by (auto simp: create_row_def Let_def split: if_splits)
  have c: "check_home_quota cf db u s (max_volume_gib ?lim) = None" "check_resource_limits cf u s = None"
    "\<not> (0 < max_concurrent ?lim \<and> max_concurrent ?lim \<le> count_active u db)"
    "\<not> (0 < max_stopped ?lim \<and> max_stopped ?lim \<le> count_stopped u db)"
    using assms(1,2,5) by (auto simp: check_hard_limits_def Let_def split: if_splits option.splits)
  have q: "0 < max_volume_gib ?lim \<Longrightarrow> allocated_home u (cf_home_gib cf) db + volume_used cf u +
      (case s_home s of None \<Rightarrow> cf_home_gib cf | Some h \<Rightarrow> h) \<le> max_volume_gib ?lim"
    using c(1) assms(5) by (auto simp: check_home_quota_def Let_def split: if_splits)
  have e: "s_user s' = u" "\<not> ssh_env s'" "active_phase (s_phase s')" "s_home s' = s_home s" "s_gpus s' = s_gpus s" "s_vram s' = s_vram s"
    using assms(4-6) by (simp_all add: s' ssh_env_def)
  have "s_phase s' \<noteq> Stopped" using e(3) by (auto simp: active_phase_def)
  then show ?thesis
    using c(2-4) q assms(2) unfolding db'
    by (auto simp: count_active_snoc count_stopped_snoc allocated_home_snoc e check_resource_limits_def Let_def split: if_splits option.splits)
qed

definition unlimited_resolver :: "resolved \<Rightarrow> resolver" where
  "unlimited_resolver g = \<lparr>r_user = (\<lambda>_. None), r_group = (\<lambda>_. None), r_org = (\<lambda>_. None),
     h_group_of_user = (\<lambda>_. None), h_org_of_user = (\<lambda>_. None), h_org_of_group = (\<lambda>_. None), r_global = Some g\<rparr>"

definition empty_sessions :: session_db where
  "empty_sessions = \<lparr>sessions = [], svols = [], sdsets = [], usage = [], next_id = 1\<rparr>"

lemma resolve_global: "resolve (unlimited_resolver g) u = g"
  by (cases g) (simp add: resolve_def layers_def unlimited_resolver_def global_as_limits_def global_def Let_def)

theorem admission_keeps_quotas_witness:
  "\<exists>db' s'. create_row (\<lambda>_ _. True) 0 (sample_session ''s1'' 1 ''exclusive'' ''a'') empty_sessions = (db', Some s') \<and>
     count_active 1 db' \<le> 2"
proof -
  define s where "s = sample_session ''s1'' 1 ''exclusive'' ''a''"
  define g where "g = \<lparr>max_gpu = 2, max_vram_gb = 0, max_volume_gib = 100, max_concurrent = 2, max_stopped = 3, max_ephemeral_gib = 0\<rparr>"
  define cf where "cf = sample_cfg\<lparr>cf_limits := Some (unlimited_resolver g)\<rparr>"
  have l: "cf_limits cf = Some (unlimited_resolver g)" by (simp add: cf_def)
  have h: "check_hard_limits cf empty_sessions 1 s = None"
    by (simp add: check_hard_limits_def l resolve_global Let_def)
      (simp add: cf_def sample_cfg_def g_def s_def sample_session_def empty_sessions_def check_home_quota_def
        check_resource_limits_def resolve_global count_active_def count_stopped_def allocated_home_def volume_used_def ssh_env_def)
  obtain db' s' where c: "create_row (\<lambda>_ _. True) 0 s empty_sessions = (db', Some s')"
    by (simp add: create_row_def empty_sessions_def session_of_def Let_def)
  have f: "s_user s = 1" "\<not> ssh_env s" "active_phase (s_phase s)"
    by (simp_all add: s_def sample_session_def ssh_env_def active_phase_def)
  show ?thesis
    using admission_keeps_quotas [OF h l c f] c by (auto simp: resolve_global g_def s_def)
qed

end
