(* ===== verification/K8s_Pod.thy ===== *)
theory K8s_Pod
  imports Availability
begin

text \<open>
  From a session's specification to the pod the cluster runs (\<open>internal/k8s/mapper.go\<close>): node
  selector and affinity, resource limits and requests, volumes and mounts, the SSH sidecar and the
  preparing container; and \<open>ShareModeAllows\<close>, by which nodes are chosen before there is a pod.
  A list stands for a Kubernetes map or list; \<open>None\<close> stands for \<open>nil\<close>.
\<close>

section \<open>Input\<close>

record mount_spec =
  ms_pvc :: string
  ms_host :: string
  ms_empty :: bool
  ms_path :: string
  ms_ro :: bool

record web_channel =
  wc_name :: string
  wc_port :: int
  wc_env :: string
  wc_secret :: string

record session_spec =
  sp_ns :: string
  sp_name :: string
  sp_image :: string
  sp_type :: string
  sp_mode :: string
  sp_count :: int
  sp_vram :: int
  sp_core :: int
  sp_cpu :: int
  sp_mem :: int
  sp_ephemeral :: int
  sp_burst :: int
  sp_labels :: "(string \<times> string) list"
  sp_uid :: int
  sp_home :: string
  sp_volumes :: "mount_spec list"
  sp_channels :: "web_channel list"
  sp_sshd :: string
  sp_sshd_key :: string
  sp_keys_secret :: string
  sp_scratch :: string
  sp_prefer :: "string list"
  sp_require :: string

section \<open>Output\<close>

text \<open>The claim source carries a read-only flag of its own (mapper.go sets it with that of the mount); Kubernetes
  has none for a host path, whose only flag is that of the mount (\<open>pm_ro\<close>).\<close>

datatype volume_source = PvcVol string bool | EmptyVol | ShmVol int | HostVol string | SecretVol string

record pod_volume =
  pv_name :: string
  pv_source :: volume_source

record pod_mount =
  pm_name :: string
  pm_path :: string
  pm_ro :: bool

datatype quantity = Count int | Gi int

datatype selector_op = OpIn | OpNotIn

record selector_req =
  sr_key :: string
  sr_op :: selector_op
  sr_values :: "string list"

text \<open>\<open>af_required\<close> is the one required term (its expressions are conjoined), \<open>af_prefer\<close> the nodes
  preferred with weight 100.\<close>

record affinity =
  af_required :: "selector_req list option"
  af_prefer :: "string list option"

record container =
  cn_name :: string
  cn_image :: string
  cn_limits :: "(string \<times> quantity) list option"
  cn_requests :: "(string \<times> quantity) list option"
  cn_mounts :: "pod_mount list"
  cn_workdir :: string
  cn_env :: "(string \<times> string) list"
  cn_ports :: "(string \<times> int) list"
  cn_user :: "int option"
  cn_command :: "string list"

record pod =
  po_name :: string
  po_ns :: string
  po_labels :: "(string \<times> string) list"
  po_selector :: "(string \<times> string) list option"
  po_affinity :: "affinity option"
  po_api_token :: bool
  po_volumes :: "pod_volume list"
  po_init :: "container list"
  po_containers :: "container list"
  po_uid :: "int option"

section \<open>Placement\<close>

definition share_mode_label :: string where "share_mode_label = ''giosk.io/share-mode''"
definition hostname_label :: string where "hostname_label = ''kubernetes.io/hostname''"

definition node_selector :: "session_spec \<Rightarrow> string \<Rightarrow> (string \<times> string) list option" where
  "node_selector s label = (if sp_type s = [] \<or> sp_mode s = ''cpu'' then None else Some [(label, sp_type s)])"

definition share_mode_reqs :: "string \<Rightarrow> selector_req list" where
  "share_mode_reqs mode =
     (if mode = ''timeslice'' then [\<lparr>sr_key = share_mode_label, sr_op = OpIn, sr_values = [''timeslicing'']\<rparr>]
      else if mode = ''exclusive''
      then [\<lparr>sr_key = share_mode_label, sr_op = OpNotIn, sr_values = [''timeslicing'', ''hami'']\<rparr>]
      else if mode = ''shared'' then [\<lparr>sr_key = share_mode_label, sr_op = OpIn, sr_values = [''hami'']\<rparr>]
      else [])"

definition share_mode_allows :: "string \<Rightarrow> string \<Rightarrow> bool" where
  "share_mode_allows mode node_mode =
     (if mode = ''timeslice'' then node_mode = ''timeslicing''
      else if mode = ''exclusive'' then node_mode \<noteq> ''timeslicing'' \<and> node_mode \<noteq> ''hami''
      else if mode = ''shared'' then node_mode = ''hami''
      else True)"

definition node_affinity :: "string list \<Rightarrow> string \<Rightarrow> selector_req list \<Rightarrow> affinity option" where
  "node_affinity prefer require reqs =
     (if prefer = [] \<and> require = [] \<and> reqs = [] then None
      else (let required = reqs @ (if require \<noteq> []
                  then [\<lparr>sr_key = hostname_label, sr_op = OpIn, sr_values = [require]\<rparr>] else [])
            in Some \<lparr>af_required = (if required \<noteq> [] then Some required else None),
                     af_prefer = (if prefer \<noteq> [] then Some prefer else None)\<rparr>))"

section \<open>Resources\<close>

definition gpu_max1 :: "int \<Rightarrow> int" where "gpu_max1 n = (if n < 1 then 1 else n)"

definition nil_if_empty :: "'a list \<Rightarrow> 'a list option" where
  "nil_if_empty l = (if l = [] then None else Some l)"

definition gpu_limits :: "session_spec \<Rightarrow> (string \<times> quantity) list option" where
  "gpu_limits s =
     nil_if_empty
       ((if sp_mode s = ''exclusive'' then [(''nvidia.com/gpu'', Count (gpu_max1 (sp_count s)))]
         else if sp_mode s = ''timeslice'' then [(''nvidia.com/gpu'', Count 1)]
         else if sp_mode s = ''shared''
         then (if 0 < sp_vram s then [(''nvidia.com/gpumem'', Count (sp_vram s))] else []) @
              (if 0 < sp_core s then [(''nvidia.com/gpucores'', Count (sp_core s))] else [])
         else []) @
        (if 0 < sp_ephemeral s then [(''ephemeral-storage'', Gi (sp_ephemeral s))] else []) @
        (if 0 < sp_mem s \<and> 1 < sp_burst s then [(''memory'', Gi (sp_mem s * sp_burst s))] else []))"

definition cpu_requests :: "session_spec \<Rightarrow> (string \<times> quantity) list option" where
  "cpu_requests s =
     nil_if_empty
       ((if 0 < sp_cpu s then [(''cpu'', Count (sp_cpu s))] else []) @
        (if 0 < sp_mem s then [(''memory'', Gi (sp_mem s))] else []) @
        (if 0 < sp_ephemeral s then [(''ephemeral-storage'', Gi (sp_ephemeral s))] else []))"

section \<open>Volumes\<close>

definition pod_home :: string where "pod_home = ''/home/work''"
definition scratch_mount :: string where "scratch_mount = pod_home @ ''/scratch''"
definition user_keys_volume :: string where "user_keys_volume = ''giosk-ssh-keys''"
definition user_keys_mount :: string where "user_keys_mount = ''/etc/giosk/ssh''"

definition shm_gib :: "session_spec \<Rightarrow> int" where
  "shm_gib s = (let g = sp_mem s sdiv 2 in if g < 1 then 1 else g)"

definition vol_name :: "nat \<Rightarrow> string" where "vol_name i = ''vol-'' @ dec_nat i"

definition volume_of :: "nat \<Rightarrow> mount_spec \<Rightarrow> pod_volume \<times> pod_mount" where
  "volume_of i v =
     (let name = vol_name i
      in if ms_empty v
         then (\<lparr>pv_name = name, pv_source = EmptyVol\<rparr>, \<lparr>pm_name = name, pm_path = ms_path v, pm_ro = False\<rparr>)
         else if ms_host v \<noteq> []
         then (\<lparr>pv_name = name, pv_source = HostVol (ms_host v)\<rparr>,
               \<lparr>pm_name = name, pm_path = ms_path v, pm_ro = ms_ro v\<rparr>)
         else (\<lparr>pv_name = name, pv_source = PvcVol (ms_pvc v) (ms_ro v)\<rparr>,
               \<lparr>pm_name = name, pm_path = ms_path v, pm_ro = ms_ro v\<rparr>))"

definition pod_volumes :: "session_spec \<Rightarrow> (pod_volume \<times> pod_mount) list" where
  "pod_volumes s =
     [(\<lparr>pv_name = ''dshm'', pv_source = ShmVol (shm_gib s)\<rparr>, \<lparr>pm_name = ''dshm'', pm_path = ''/dev/shm'', pm_ro = False\<rparr>)] @
     (if sp_home s \<noteq> []
      then [(\<lparr>pv_name = ''home'', pv_source = PvcVol (sp_home s) False\<rparr>,
             \<lparr>pm_name = ''home'', pm_path = ''/home/work'', pm_ro = False\<rparr>)] else []) @
     map (\<lambda>(i, v). volume_of i v) (enumerate 0 (sp_volumes s)) @
     (if sp_scratch s \<noteq> []
      then [(\<lparr>pv_name = ''scratch'', pv_source = HostVol (sp_scratch s)\<rparr>,
             \<lparr>pm_name = ''scratch'', pm_path = scratch_mount, pm_ro = False\<rparr>)] else [])"

definition home_tree_mounts :: "pod_mount list \<Rightarrow> pod_mount list" where
  "home_tree_mounts = filter (\<lambda>m. pm_path m = pod_home \<or> has_prefix (pod_home @ ''/'') (pm_path m))"

definition home_volume_mounts :: "pod_mount list \<Rightarrow> pod_mount list" where
  "home_volume_mounts = filter (\<lambda>m. pm_path m = pod_home)"

section \<open>Containers\<close>

definition home_env :: "string \<Rightarrow> (string \<times> string) list" where
  "home_env home =
     (let cache = home @ ''/.cache''
      in [(''HOME'', home), (''TMPDIR'', home @ ''/.tmp''), (''XDG_CACHE_HOME'', cache),
          (''PIP_CACHE_DIR'', cache @ ''/pip''), (''CONDA_PKGS_DIRS'', cache @ ''/conda''),
          (''HF_HOME'', cache @ ''/huggingface''), (''TORCH_HOME'', cache @ ''/torch'')])"

definition home_dirs_cmd :: "string \<Rightarrow> int \<Rightarrow> string" where
  "home_dirs_cmd home uid =
     (let dirs = home @ ''/.tmp '' @ home @ ''/.cache''
      in ''mkdir -p '' @ dirs @ '' && chown '' @ dec uid @ '':'' @ dec uid @ '' '' @ dirs @
         '' && chmod 700 '' @ home @ ''/.tmp'')"

definition channel_env :: "web_channel list \<Rightarrow> (string \<times> string) list" where
  "channel_env chs = map (\<lambda>c. (wc_env c, wc_secret c)) (filter (\<lambda>c. wc_env c \<noteq> []) chs)"

definition channel_ports :: "web_channel list \<Rightarrow> (string \<times> int) list" where
  "channel_ports chs = map (\<lambda>c. (wc_name c, wc_port c)) chs"

definition sshd_sidecar :: "session_spec \<Rightarrow> pod_mount list \<Rightarrow> container" where
  "sshd_sidecar s mounts =
     \<lparr>cn_name = ''sshd'', cn_image = sp_sshd s, cn_limits = None, cn_requests = None,
      cn_mounts = home_tree_mounts mounts @
        (if sp_keys_secret s \<noteq> []
         then [\<lparr>pm_name = user_keys_volume, pm_path = user_keys_mount, pm_ro = True\<rparr>] else []),
      cn_workdir = [], cn_env = [(''SESSION_UID'', dec (sp_uid s)), (''SESSION_USER'', ''work''),
        (''HOME_DIR'', pod_home), (''GATEWAY_PUBKEY'', sp_sshd_key s)],
      cn_ports = [(''ssh'', 22)], cn_user = Some 0, cn_command = []\<rparr>"

definition prep_container :: "session_spec \<Rightarrow> pod_mount list \<Rightarrow> container" where
  "prep_container s mounts =
     (let scratch = (sp_scratch s \<noteq> []);
          uid = dec (sp_uid s);
          cmd = home_dirs_cmd pod_home (sp_uid s) @
            (if scratch then '' && '' @ ''chown '' @ uid @ '':'' @ uid @ '' '' @ scratch_mount @
               '' && chmod 700 '' @ scratch_mount else [])
      in \<lparr>cn_name = ''session-prep'', cn_image = sp_image s, cn_limits = None, cn_requests = None,
          cn_mounts = home_volume_mounts mounts @
            (if scratch then [\<lparr>pm_name = ''scratch'', pm_path = scratch_mount, pm_ro = False\<rparr>] else []),
          cn_workdir = [], cn_env = [], cn_ports = [], cn_user = Some 0, cn_command = [''sh'', ''-c'', cmd]\<rparr>)"

definition session_container :: "session_spec \<Rightarrow> pod_mount list \<Rightarrow> container" where
  "session_container s mounts =
     \<lparr>cn_name = ''session'', cn_image = sp_image s, cn_limits = gpu_limits s, cn_requests = cpu_requests s,
      cn_mounts = mounts, cn_workdir = pod_home, cn_env = home_env pod_home @ channel_env (sp_channels s),
      cn_ports = channel_ports (sp_channels s), cn_user = None, cn_command = []\<rparr>"

definition build_pod :: "session_spec \<Rightarrow> string \<Rightarrow> pod" where
  "build_pod s label =
     (let vols = map fst (pod_volumes s); mounts = map snd (pod_volumes s);
          sidecar = (sp_sshd s \<noteq> [] \<and> 0 < sp_uid s);
          keys = (if sidecar \<and> sp_keys_secret s \<noteq> []
                  then [\<lparr>pv_name = user_keys_volume, pv_source = SecretVol (sp_keys_secret s)\<rparr>] else [])
      in \<lparr>po_name = sp_name s, po_ns = sp_ns s, po_labels = sp_labels s,
          po_selector = node_selector s label,
          po_affinity = node_affinity (sp_prefer s) (sp_require s) (share_mode_reqs (sp_mode s)),
          po_api_token = False, po_volumes = vols @ keys,
          po_init = (if 0 < sp_uid s then [prep_container s mounts] else []),
          po_containers = [session_container s mounts] @ (if sidecar then [sshd_sidecar s mounts] else []),
          po_uid = (if 0 < sp_uid s then Some (sp_uid s) else None)\<rparr>)"

section \<open>What the scheduler reads\<close>

text \<open>Matching of selectors and required terms against a node's labels, as Kubernetes documents it: an
  absent label matches no \<open>In\<close> and every \<open>NotIn\<close>.\<close>

type_synonym labels = "string \<Rightarrow> string option"

definition req_matches :: "labels \<Rightarrow> selector_req \<Rightarrow> bool" where
  "req_matches ls r =
     (case sr_op r of
        OpIn \<Rightarrow> (case ls (sr_key r) of None \<Rightarrow> False | Some v \<Rightarrow> v \<in> set (sr_values r))
      | OpNotIn \<Rightarrow> (case ls (sr_key r) of None \<Rightarrow> True | Some v \<Rightarrow> v \<notin> set (sr_values r)))"

definition selector_matches :: "labels \<Rightarrow> (string \<times> string) list option \<Rightarrow> bool" where
  "selector_matches ls sel = (case sel of None \<Rightarrow> True | Some kvs \<Rightarrow> list_all (\<lambda>(k, v). ls k = Some v) kvs)"

definition affinity_matches :: "labels \<Rightarrow> affinity option \<Rightarrow> bool" where
  "affinity_matches ls a =
     (case a of None \<Rightarrow> True
      | Some f \<Rightarrow> (case af_required f of None \<Rightarrow> True | Some rs \<Rightarrow> list_all (req_matches ls) rs))"

definition node_admits :: "labels \<Rightarrow> pod \<Rightarrow> bool" where
  "node_admits ls p \<longleftrightarrow> selector_matches ls (po_selector p) \<and> affinity_matches ls (po_affinity p)"

definition label_of :: "labels \<Rightarrow> string \<Rightarrow> string" where
  "label_of ls k = (case ls k of None \<Rightarrow> [] | Some v \<Rightarrow> v)"

text \<open>\<open>toLiveNode\<close> reads a node's type and sharing mode from its labels; the host name label of a node
  is its name.\<close>

definition live_of_labels :: "string \<Rightarrow> labels \<Rightarrow> live_node \<Rightarrow> bool" where
  "live_of_labels gpu_label ls n \<longleftrightarrow>
     ln_gpu_type n = label_of ls gpu_label \<and> ln_share_mode n = label_of ls share_mode_label \<and>
     ls hostname_label = Some (ln_name n)"

lemma reqs_match_allows:
  "list_all (req_matches ls) (share_mode_reqs mode) \<longleftrightarrow> share_mode_allows mode (label_of ls share_mode_label)"
  by (cases "ls share_mode_label")
    (simp_all add: share_mode_reqs_def share_mode_allows_def req_matches_def label_of_def)

lemma label_of_Some: "v \<noteq> [] \<Longrightarrow> ls k = Some v \<longleftrightarrow> label_of ls k = v"
  by (auto simp: label_of_def split: option.splits)

lemma build_pod_admits:
  "node_admits ls (build_pod s label) \<longleftrightarrow>
     (sp_type s = [] \<or> sp_mode s = ''cpu'' \<or> label_of ls label = sp_type s) \<and>
     share_mode_allows (sp_mode s) (label_of ls share_mode_label) \<and>
     (sp_require s = [] \<or> ls hostname_label = Some (sp_require s))"
proof -
  have sel: "selector_matches ls (node_selector s label) \<longleftrightarrow>
      sp_type s = [] \<or> sp_mode s = ''cpu'' \<or> label_of ls label = sp_type s"
    by (auto simp: selector_matches_def node_selector_def label_of_Some)
  have host: "req_matches ls \<lparr>sr_key = hostname_label, sr_op = OpIn, sr_values = [r]\<rparr> \<longleftrightarrow>
      ls hostname_label = Some r" for r
    by (auto simp: req_matches_def split: option.splits)
  have "affinity_matches ls (node_affinity (sp_prefer s) (sp_require s) (share_mode_reqs (sp_mode s))) \<longleftrightarrow>
      list_all (req_matches ls) (share_mode_reqs (sp_mode s)) \<and>
      (sp_require s = [] \<or> ls hostname_label = Some (sp_require s))"
    by (auto simp: affinity_matches_def node_affinity_def Let_def host)
  then show ?thesis
    by (simp add: node_admits_def build_pod_def Let_def sel reqs_match_allows)
qed

text \<open>C21: The answer \<open>ShareModeAllows\<close> gives for a node's sharing label is the answer the scheduler gives
  to the affinity put into the pod, for every mode and every node, labelled or not; so choosing a
  node by the former never contradicts the latter.\<close>

theorem share_mode_check_agrees_with_affinity:
  "share_mode_allows mode (label_of ls share_mode_label) \<longleftrightarrow>
     affinity_matches ls (node_affinity prefer [] (share_mode_reqs mode))"
  by (auto simp: affinity_matches_def node_affinity_def Let_def simp flip: reqs_match_allows)

section \<open>The pod is well formed\<close>

text \<open>What the API server checks of volumes: names are unique and every mount names a volume of the
  pod.\<close>

definition volumes_valid :: "pod \<Rightarrow> bool" where
  "volumes_valid p \<longleftrightarrow>
     distinct (map pv_name (po_volumes p)) \<and>
     (\<forall>c \<in> set (po_init p @ po_containers p). \<forall>m \<in> set (cn_mounts c). pm_name m \<in> pv_name ` set (po_volumes p))"

definition quantity_le :: "quantity \<Rightarrow> quantity \<Rightarrow> bool" where
  "quantity_le a b =
     (case (a, b) of (Count x, Count y) \<Rightarrow> x \<le> y | (Gi x, Gi y) \<Rightarrow> x \<le> y | _ \<Rightarrow> False)"

definition list_of :: "'a list option \<Rightarrow> 'a list" where
  "list_of l = (case l of None \<Rightarrow> [] | Some xs \<Rightarrow> xs)"

text \<open>And of resources: every quantity is positive and no request is above the limit.\<close>

definition resources_valid :: "container \<Rightarrow> bool" where
  "resources_valid c \<longleftrightarrow>
     (\<forall>(r, q) \<in> set (list_of (cn_limits c) @ list_of (cn_requests c)). case q of Count n \<Rightarrow> 0 < n | Gi n \<Rightarrow> 0 < n) \<and>
     (\<forall>(r, q) \<in> set (list_of (cn_requests c)). \<forall>(r', l) \<in> set (list_of (cn_limits c)). r = r' \<longrightarrow> quantity_le q l)"

lemma list_of_nil_if_empty [simp]: "list_of (nil_if_empty l) = l" "list_of None = []"
  by (simp_all add: list_of_def nil_if_empty_def)

lemma volume_of_names [simp]:
  "pv_name (fst (volume_of i v)) = vol_name i" "pm_name (snd (volume_of i v)) = vol_name i"
  by (simp_all add: volume_of_def Let_def)

lemma vol_name_inj [simp]: "vol_name i = vol_name j \<longleftrightarrow> i = j"
  by (simp add: vol_name_def dec_nat_inj)

lemma vol_name_other [simp]:
  "vol_name i \<noteq> ''dshm''" "vol_name i \<noteq> ''home''" "vol_name i \<noteq> ''scratch''" "vol_name i \<noteq> user_keys_volume"
  "''dshm'' \<noteq> vol_name i" "''home'' \<noteq> vol_name i" "''scratch'' \<noteq> vol_name i" "user_keys_volume \<noteq> vol_name i"
  by (simp_all add: vol_name_def user_keys_volume_def)

lemma pod_volume_names:
  "map pv_name (map fst (pod_volumes s)) =
     ''dshm'' # (if sp_home s \<noteq> [] then [''home''] else []) @ map vol_name [0..<length (sp_volumes s)] @
     (if sp_scratch s \<noteq> [] then [''scratch''] else [])"
proof -
  have "map (\<lambda>x. pv_name (fst (case x of (i, v) \<Rightarrow> volume_of i v))) (enumerate 0 (sp_volumes s)) =
      map vol_name (map fst (enumerate 0 (sp_volumes s)))"
    by (simp only: map_map) (simp add: split_beta comp_def)
  then show ?thesis by (simp add: pod_volumes_def comp_def)
qed

lemma pod_mount_names:
  "pm_name (snd x) = pv_name (fst x)" if "x \<in> set (pod_volumes s)"
  using that by (auto simp: pod_volumes_def split: if_splits)

lemma pod_volume_names_distinct:
  "distinct (map pv_name (map fst (pod_volumes s)))" "user_keys_volume \<notin> pv_name ` fst ` set (pod_volumes s)"
proof -
  have d: "distinct (map vol_name [0..<n])" for n by (simp add: distinct_map inj_on_def)
  show "distinct (map pv_name (map fst (pod_volumes s)))"
    unfolding pod_volume_names by (auto simp: d)
  have "user_keys_volume \<notin> set (map pv_name (map fst (pod_volumes s)))"
    unfolding pod_volume_names by (auto simp: user_keys_volume_def vol_name_def)
  then show "user_keys_volume \<notin> pv_name ` fst ` set (pod_volumes s)" by (simp add: image_image)
qed

lemma container_mounts:
  "m \<in> set (cn_mounts (session_container s ms)) \<Longrightarrow> m \<in> set ms"
  "m \<in> set (cn_mounts (prep_container s ms)) \<Longrightarrow> m \<in> set ms \<or> (sp_scratch s \<noteq> [] \<and> pm_name m = ''scratch'')"
  "m \<in> set (cn_mounts (sshd_sidecar s ms)) \<Longrightarrow>
     m \<in> set ms \<or> (sp_keys_secret s \<noteq> [] \<and> pm_name m = user_keys_volume)"
  by (auto simp: session_container_def prep_container_def sshd_sidecar_def home_tree_mounts_def
      home_volume_mounts_def Let_def split: if_splits)

lemma build_pod_containers:
  "c \<in> set (po_init (build_pod s label) @ po_containers (build_pod s label)) \<Longrightarrow>
     c = session_container s (map snd (pod_volumes s)) \<or> c = prep_container s (map snd (pod_volumes s)) \<or>
     (c = sshd_sidecar s (map snd (pod_volumes s)) \<and> sp_sshd s \<noteq> [] \<and> 0 < sp_uid s)"
  by (auto simp: build_pod_def Let_def split: if_splits)

lemma build_pod_volume_names:
  "set (map pv_name (po_volumes (build_pod s label))) = set (map pv_name (map fst (pod_volumes s))) \<union>
     (if sp_sshd s \<noteq> [] \<and> 0 < sp_uid s \<and> sp_keys_secret s \<noteq> [] then {user_keys_volume} else {})"
  by (auto simp: build_pod_def Let_def)

lemma build_pod_volumes: "volumes_valid (build_pod s label)"
  unfolding volumes_valid_def
proof
  show "distinct (map pv_name (po_volumes (build_pod s label)))"
    using pod_volume_names_distinct [of s] by (auto simp: build_pod_def Let_def)
  have ms: "pm_name m \<in> set (map pv_name (map fst (pod_volumes s)))" if mem: "m \<in> set (map snd (pod_volumes s))" for m
  proof -
    obtain x where x: "x \<in> set (pod_volumes s)" "m = snd x" using mem by auto
    then show ?thesis using pod_mount_names [OF x(1)] by auto
  qed
  have scratch: "''scratch'' \<in> set (map pv_name (map fst (pod_volumes s)))" if "sp_scratch s \<noteq> []"
    unfolding pod_volume_names using that by simp
  have "pm_name m \<in> set (map pv_name (po_volumes (build_pod s label)))"
    if c: "c \<in> set (po_init (build_pod s label) @ po_containers (build_pod s label))" and m: "m \<in> set (cn_mounts c)" for c m
    using build_pod_containers [OF c]
  proof (elim disjE conjE)
    assume c: "c = session_container s (map snd (pod_volumes s))"
    have "m \<in> set (map snd (pod_volumes s))" using m unfolding c by (rule container_mounts(1))
    then show ?thesis unfolding build_pod_volume_names by (rule ms [THEN UnI1])
  next
    assume c: "c = prep_container s (map snd (pod_volumes s))"
    have "m \<in> set (map snd (pod_volumes s)) \<or> (sp_scratch s \<noteq> [] \<and> pm_name m = ''scratch'')"
      using m unfolding c by (rule container_mounts(2))
    then show ?thesis unfolding build_pod_volume_names using ms [of m] scratch by (elim disjE conjE) (simp_all del: set_map)
  next
    assume c: "c = sshd_sidecar s (map snd (pod_volumes s))" and on: "sp_sshd s \<noteq> []" "0 < sp_uid s"
    have "m \<in> set (map snd (pod_volumes s)) \<or> (sp_keys_secret s \<noteq> [] \<and> pm_name m = user_keys_volume)"
      using m unfolding c by (rule container_mounts(3))
    then show ?thesis unfolding build_pod_volume_names using ms [of m] on by (elim disjE conjE) (simp_all del: set_map)
  qed
  then show "\<forall>c \<in> set (po_init (build_pod s label) @ po_containers (build_pod s label)).
      \<forall>m \<in> set (cn_mounts c). pm_name m \<in> pv_name ` set (po_volumes (build_pod s label))" by simp
qed

lemma session_container_resources: "resources_valid (session_container s ms)"
  by (auto simp: resources_valid_def session_container_def gpu_limits_def cpu_requests_def quantity_le_def
      gpu_max1_def)

lemma other_containers_resources: "resources_valid (prep_container s ms)" "resources_valid (sshd_sidecar s ms)"
  by (simp_all add: resources_valid_def prep_container_def sshd_sidecar_def Let_def)

lemma build_pod_resources:
  "\<forall>c \<in> set (po_init (build_pod s label) @ po_containers (build_pod s label)). resources_valid c"
  using build_pod_containers session_container_resources other_containers_resources by fastforce

text \<open>Every pod built from a session is one the API server accepts in its volumes and resources:
  volume names are unique, every mount of every container names a volume of the pod, all
  quantities are positive and no request exceeds its limit. It never carries an API token, and
  with a user id the user's own container runs under it and not as root.\<close>

theorem built_pod_valid:
  "volumes_valid (build_pod s label) \<and>
   (\<forall>c \<in> set (po_init (build_pod s label) @ po_containers (build_pod s label)). resources_valid c) \<and>
   \<not> po_api_token (build_pod s label) \<and>
   (0 < sp_uid s \<longrightarrow> po_uid (build_pod s label) = Some (sp_uid s) \<and>
      (\<exists>c rest. po_containers (build_pod s label) = c # rest \<and> cn_name c = ''session'' \<and> cn_user c = None \<and>
         (\<forall>r \<in> set rest. cn_name r = ''sshd'')))"
  using build_pod_volumes build_pod_resources
  by (auto simp: build_pod_def Let_def session_container_def sshd_sidecar_def)

definition sample_spec :: session_spec where
  "sample_spec = \<lparr>sp_ns = ''giosk-grp-1'', sp_name = ''ses-1'', sp_image = ''base:1.0'', sp_type = ''a'', sp_mode = ''shared'',
     sp_count = 1, sp_vram = 8192, sp_core = 30, sp_cpu = 4, sp_mem = 16, sp_ephemeral = 20, sp_burst = 2, sp_labels = [],
     sp_uid = 20001, sp_home = [], sp_volumes = [\<lparr>ms_pvc = ''sh-ses-1'', ms_host = [], ms_empty = False, ms_path = pod_home, ms_ro = False\<rparr>],
     sp_channels = [\<lparr>wc_name = ''vscode'', wc_port = 8080, wc_env = ''PASSWORD'', wc_secret = ''s''\<rparr>],
     sp_sshd = ''sshd:1'', sp_sshd_key = [], sp_keys_secret = ''giosk-sshkeys-1'', sp_scratch = ''/scratch/u'',
     sp_prefer = [''n1''], sp_require = []\<rparr>"

theorem built_pod_valid_witness:
  "po_uid (build_pod sample_spec ''gpu'') = Some 20001 \<and> volumes_valid (build_pod sample_spec ''gpu'')"
proof -
  have "0 < sp_uid sample_spec" by (simp add: sample_spec_def)
  then show ?thesis using built_pod_valid [of sample_spec "''gpu''"] by (simp add: sample_spec_def)
qed

end
