(* ===== verification/Session_Mounts.thy ===== *)
theory Session_Mounts
  imports Session_Spec K8s_Pod
begin

text \<open>
  Which volumes and datasets a session may mount and where (\<open>VolumeAccess\<close>, \<open>DatasetMount\<close> of
  \<open>internal/session/repo.go\<close>; \<open>mountFor\<close>, \<open>pickDatasetNode\<close>, \<open>resolveDatasets\<close> of \<open>service.go\<close>).
  The access decision is made on the server from the volume, share and membership tables; the
  mount path comes from the request.
\<close>

section \<open>Tables\<close>

record volume_row =
  vr_id :: int
  vr_pvc :: string
  vr_ns :: string
  vr_owner :: "int option"
  vr_size :: int

record share_row =
  sh_volume :: int
  sh_user :: "int option"
  sh_group :: "int option"
  sh_perm :: string

record dataset_row =
  dr_id :: int
  dr_name :: string
  dr_pvc :: string
  dr_ns :: string
  dr_scope :: string
  dr_status :: string
  dr_load :: string

record volume_tables =
  vt_volumes :: "volume_row list"
  vt_shares :: "share_row list"
  vt_members :: "(int \<times> int) list"
  vt_datasets :: "dataset_row list"

section \<open>Access\<close>

record vol_access =
  va_pvc :: string
  va_ns :: string
  va_size :: int
  va_perm :: string

definition share_perms :: "volume_tables \<Rightarrow> int \<Rightarrow> int \<Rightarrow> string list" where
  "share_perms vt vid u =
     map sh_perm (filter (\<lambda>h. sh_volume h = vid \<and>
       (sh_user h = Some u \<or> (case sh_group h of None \<Rightarrow> False | Some g \<Rightarrow> (u, g) \<in> set (vt_members vt))))
       (vt_shares vt))"

definition volume_access :: "volume_tables \<Rightarrow> int \<Rightarrow> int \<Rightarrow> vol_access option" where
  "volume_access vt vid u =
     (case row_of vr_id vid (vt_volumes vt) of None \<Rightarrow> None
      | Some v \<Rightarrow>
          if vr_pvc v = [] then None
          else (let acc = \<lparr>va_pvc = vr_pvc v, va_ns = vr_ns v, va_size = vr_size v, va_perm = []\<rparr>
                in if vr_owner v = Some u then Some (acc\<lparr>va_perm := ''rw''\<rparr>)
                   else (let perms = share_perms vt vid u
                         in if perms = [] then None
                            else Some (acc\<lparr>va_perm := (if ''rw'' \<in> set perms then ''rw'' else ''ro'')\<rparr>))))"

definition dataset_mount_row :: "volume_tables \<Rightarrow> int \<Rightarrow> dataset_row option" where
  "dataset_mount_row vt d =
     (case row_of dr_id d (vt_datasets vt) of None \<Rightarrow> None
      | Some r \<Rightarrow> if dr_pvc r = [] then None else Some r)"

definition mountable_datasets :: "volume_tables \<Rightarrow> int list" where
  "mountable_datasets vt =
     sort (map dr_id (filter (\<lambda>d. dr_scope d = ''global'' \<and> dr_status d = ''active'' \<and> dr_load d = ''ready'' \<and> dr_pvc d \<noteq> [])
       (vt_datasets vt)))"

section \<open>Mounts\<close>

definition home_mount :: string where
  "home_mount = ''/home/work''"

definition dataset_path :: "string \<Rightarrow> string \<Rightarrow> string" where
  "dataset_path tier name = home_mount @ ''/datasets/'' @ tier @ ''/'' @ name"

text \<open>\<open>mountSafe\<close>: one path segment (slashes, spaces and backslashes become dashes).\<close>

definition mount_safe :: "string \<Rightarrow> string" where
  "mount_safe name =
     (let out = map (\<lambda>c. if c = CHR ''/'' \<or> c = CHR '' '' \<or> c = CHR 0x5C then CHR ''-'' else c) name
      in if out = [] then ''dataset'' else out)"

text \<open>Which PVC backs a volume on NFS is known to the cluster: \<open>nfs ns pvc\<close>.\<close>

datatype mount_plan = OwnPvc mount_spec | SharedPvc string mount_spec | NoMount

definition mount_for ::
  "volume_tables \<Rightarrow> (string \<Rightarrow> string \<Rightarrow> bool) \<Rightarrow> (string \<times> string) set \<Rightarrow> string \<Rightarrow> int \<Rightarrow> int \<Rightarrow> string \<Rightarrow> mount_plan" where
  "mount_for vt nfs pvcs ns u vid path =
     (case volume_access vt vid u of None \<Rightarrow> NoMount
      | Some acc \<Rightarrow>
          if va_pvc acc = [] then NoMount
          else (let ro = (va_perm acc = ''ro'')
                in if va_ns acc = ns
                   then (if (ns, va_pvc acc) \<in> pvcs
                         then OwnPvc \<lparr>ms_pvc = va_pvc acc, ms_host = [], ms_empty = False, ms_path = path, ms_ro = ro\<rparr>
                         else NoMount)
                   else if \<not> nfs (va_ns acc) (va_pvc acc) then NoMount
                   else (let pvc = ''shared-'' @ dec vid
                         in SharedPvc pvc \<lparr>ms_pvc = pvc, ms_host = [], ms_empty = False, ms_path = path, ms_ro = ro\<rparr>)))"

section \<open>Where cached datasets pull a session\<close>

text \<open>The cache placement: for every cached dataset the nodes that hold it, in the order the map
  yields them, and its path there.\<close>

record placement =
  pl_cached :: "(int \<times> string list) list"
  pl_paths :: "(int \<times> string) list"

definition pl_nodes :: "placement \<Rightarrow> int \<Rightarrow> string list" where
  "pl_nodes p d = (case map_of (pl_cached p) d of None \<Rightarrow> [] | Some ns \<Rightarrow> ns)"

definition pl_path :: "placement \<Rightarrow> int \<Rightarrow> string" where
  "pl_path p d = (case map_of (pl_paths p) d of None \<Rightarrow> [] | Some h \<Rightarrow> h)"

text \<open>The double loop of \<open>pickDatasetNode\<close> over the candidates in the order the map yields them:
  scores are counted as the loop goes, and a node leads once its score exceeds the best so far.\<close>

fun pick_loop :: "(string \<Rightarrow> bool) \<Rightarrow> (string \<Rightarrow> nat) \<Rightarrow> string \<Rightarrow> nat \<Rightarrow> string list \<Rightarrow> string \<times> nat" where
  "pick_loop ok score best n [] = (best, n)"
| "pick_loop ok score best n (c # cs) =
     (if \<not> ok c then pick_loop ok score best n cs
      else (let k = score c + 1; score' = score(c := k)
            in if n < k then pick_loop ok score' c k cs else pick_loop ok score' best n cs))"

definition pick_node :: "(string \<Rightarrow> bool) \<Rightarrow> string list \<Rightarrow> string" where
  "pick_node ok cands = (let (best, n) = pick_loop ok (\<lambda>_. 0) [] 0 cands in if n = 0 then [] else best)"

text \<open>The nodes a pod may be pinned to; \<open>None\<close> when the inventory could not be read or is empty.\<close>

definition pinnable_nodes :: "live_node list option \<Rightarrow> string \<Rightarrow> string \<Rightarrow> string list option" where
  "pinnable_nodes cl ty mode =
     (case cl of None \<Rightarrow> None
      | Some l \<Rightarrow> if l = [] then None
          else Some (map ln_name (filter (\<lambda>n. ln_ready n \<and> \<not> ln_cordoned n \<and>
            (mode = ''cpu'' \<or> ty = [] \<or> ln_gpu_type n = ty) \<and> share_mode_allows mode (ln_share_mode n)) l)))"

definition free_gpu_by_node :: "live_node list option \<Rightarrow> session list option \<Rightarrow> (string \<Rightarrow> int) option" where
  "free_gpu_by_node cl running =
     (case cl of None \<Rightarrow> None
      | Some l \<Rightarrow> if l = [] then None
          else (let cap = (\<lambda>n. case find (\<lambda>x. ln_name x = n) (rev l) of None \<Rightarrow> 0 | Some x \<Rightarrow> atoi_safe (ln_gpu_capacity x))
                in case running of None \<Rightarrow> Some cap
                   | Some rs \<Rightarrow> Some (\<lambda>n. cap n - (\<Sum>r \<leftarrow> filter (\<lambda>r. s_node r = n \<and> s_node r \<noteq> [] \<and> \<not> ssh_env r \<and>
                          s_mode r = ''exclusive'') rs. max1 (s_gpus r)))))"

definition pin_ok :: "live_node list option \<Rightarrow> session list option \<Rightarrow> string \<Rightarrow> string \<Rightarrow> int \<Rightarrow> string \<Rightarrow> bool" where
  "pin_ok cl running ty mode cnt n =
     ((case pinnable_nodes cl ty mode of None \<Rightarrow> True | Some ns \<Rightarrow> n \<in> set ns) \<and>
      (case free_gpu_by_node cl running of None \<Rightarrow> True
       | Some f \<Rightarrow> (if mode = ''exclusive'' then max1 cnt else 1) \<le> f n))"

definition pick_dataset_node ::
  "(int list \<Rightarrow> placement) option \<Rightarrow> int list \<Rightarrow> live_node list option \<Rightarrow> session list option \<Rightarrow>
     string \<Rightarrow> string \<Rightarrow> int \<Rightarrow> string \<times> placement option" where
  "pick_dataset_node cache ids cl running ty mode cnt =
     (case cache of None \<Rightarrow> ([], None)
      | Some f \<Rightarrow> if ids = [] then ([], None)
          else (let p = f ids
                in if pl_paths p = [] then ([], None)
                   else (let best = pick_node (pin_ok cl running ty mode cnt) (concat (map snd (pl_cached p)))
                         in if best = [] then ([], None) else (best, Some p))))"

datatype dataset_plan = FromHost mount_spec | FromNfs string mount_spec | NoDataset

definition dataset_plan_for ::
  "volume_tables \<Rightarrow> (string \<Rightarrow> string \<Rightarrow> bool) \<Rightarrow> placement option \<Rightarrow> string \<Rightarrow> int \<Rightarrow> dataset_plan" where
  "dataset_plan_for vt nfs pl target d =
     (case dataset_mount_row vt d of None \<Rightarrow> NoDataset
      | Some r \<Rightarrow>
          (let safe = mount_safe (dr_name r);
               host = (case pl of None \<Rightarrow> [] | Some p \<Rightarrow> pl_path p d);
               cached = (case pl of None \<Rightarrow> [] | Some p \<Rightarrow> pl_nodes p d)
           in if target \<noteq> [] \<and> host \<noteq> [] \<and> target \<in> set cached
              then FromHost \<lparr>ms_pvc = [], ms_host = host, ms_empty = False, ms_path = dataset_path ''fast'' safe, ms_ro = True\<rparr>
              else if \<not> nfs (dr_ns r) (dr_pvc r) then NoDataset
              else (let pvc = ''ds-'' @ dec d
                    in FromNfs pvc \<lparr>ms_pvc = pvc, ms_host = [], ms_empty = False, ms_path = dataset_path ''slow'' safe, ms_ro = True\<rparr>)))"

section \<open>Facts\<close>

text \<open>What a user may do with a volume, as a specification.\<close>

definition may_write :: "volume_tables \<Rightarrow> int \<Rightarrow> int \<Rightarrow> bool" where
  "may_write vt vid u \<longleftrightarrow>
     (\<exists>v. row_of vr_id vid (vt_volumes vt) = Some v \<and> vr_owner v = Some u) \<or>
     (\<exists>h \<in> set (vt_shares vt). sh_volume h = vid \<and> sh_perm h = ''rw'' \<and>
        (sh_user h = Some u \<or> (\<exists>g. sh_group h = Some g \<and> (u, g) \<in> set (vt_members vt))))"

definition may_read :: "volume_tables \<Rightarrow> int \<Rightarrow> int \<Rightarrow> bool" where
  "may_read vt vid u \<longleftrightarrow>
     (\<exists>v. row_of vr_id vid (vt_volumes vt) = Some v \<and> vr_owner v = Some u) \<or>
     (\<exists>h \<in> set (vt_shares vt). sh_volume h = vid \<and>
        (sh_user h = Some u \<or> (\<exists>g. sh_group h = Some g \<and> (u, g) \<in> set (vt_members vt))))"

lemma share_perms_set:
  "p \<in> set (share_perms vt vid u) \<longleftrightarrow>
     (\<exists>h \<in> set (vt_shares vt). sh_volume h = vid \<and> sh_perm h = p \<and>
        (sh_user h = Some u \<or> (\<exists>g. sh_group h = Some g \<and> (u, g) \<in> set (vt_members vt))))"
  by (auto simp: share_perms_def split: option.splits)

lemma share_perms_empty:
  "share_perms vt vid u = [] \<longleftrightarrow>
     \<not> (\<exists>h \<in> set (vt_shares vt). sh_volume h = vid \<and>
        (sh_user h = Some u \<or> (\<exists>g. sh_group h = Some g \<and> (u, g) \<in> set (vt_members vt))))"
  by (auto simp: share_perms_def filter_empty_conv split: option.splits)

lemma volume_access_facts:
  "((\<exists>acc. volume_access vt vid u = Some acc) \<longleftrightarrow>
      (\<exists>v. row_of vr_id vid (vt_volumes vt) = Some v \<and> vr_pvc v \<noteq> []) \<and> may_read vt vid u) \<and>
   (volume_access vt vid u = Some acc \<longrightarrow>
      (va_perm acc = ''rw'' \<longleftrightarrow> may_write vt vid u) \<and> (va_perm acc = ''ro'' \<longleftrightarrow> \<not> may_write vt vid u) \<and>
      (\<exists>v. row_of vr_id vid (vt_volumes vt) = Some v \<and> va_pvc acc = vr_pvc v \<and> va_ns acc = vr_ns v))"
proof (cases "row_of vr_id vid (vt_volumes vt)")
  case None
  then show ?thesis by (simp add: volume_access_def)
next
  case (Some v)
  show ?thesis
  proof (cases "vr_owner v = Some u")
    case True
    then show ?thesis using Some
      by (auto simp: volume_access_def may_read_def may_write_def Let_def)
  next
    case False
    have w: "''rw'' \<in> set (share_perms vt vid u) \<longleftrightarrow> may_write vt vid u"
      using Some False share_perms_set [of "''rw''" vt vid u] by (simp add: may_write_def)
    have r: "share_perms vt vid u = [] \<longleftrightarrow> \<not> may_read vt vid u"
      using Some False share_perms_empty [of vt vid u] by (simp add: may_read_def)
    show ?thesis using Some False w r by (auto simp: volume_access_def Let_def)
  qed
qed

text \<open>The server grants a volume exactly to its owner and to those it is shared with, directly or
  through a team they are an active member of (and only once it has been provisioned); it grants
  write access exactly when the user owns the volume or holds one share with write permission,
  the strongest share winning over any number of read-only ones.\<close>

theorem volume_access_sound_and_complete:
  "((\<exists>acc. volume_access vt vid u = Some acc) \<longleftrightarrow>
      (\<exists>v. row_of vr_id vid (vt_volumes vt) = Some v \<and> vr_pvc v \<noteq> []) \<and> may_read vt vid u) \<and>
   (volume_access vt vid u = Some acc \<longrightarrow>
      (va_perm acc = ''rw'' \<longleftrightarrow> may_write vt vid u) \<and> (va_perm acc = ''ro'' \<longleftrightarrow> \<not> may_write vt vid u) \<and>
      (\<exists>v. row_of vr_id vid (vt_volumes vt) = Some v \<and> va_pvc acc = vr_pvc v \<and> va_ns acc = vr_ns v))"
  by (rule volume_access_facts)

definition sample_volumes :: volume_tables where
  "sample_volumes = \<lparr>vt_volumes = [\<lparr>vr_id = 1, vr_pvc = ''vol-1'', vr_ns = ''ns-a'', vr_owner = Some 1, vr_size = 10\<rparr>],
     vt_shares = [\<lparr>sh_volume = 1, sh_user = Some 2, sh_group = None, sh_perm = ''ro''\<rparr>], vt_members = [],
     vt_datasets = []\<rparr>"

theorem volume_access_sound_and_complete_witness:
  "\<exists>acc. volume_access sample_volumes 1 2 = Some acc \<and> va_perm acc = ''ro''"
proof -
  obtain acc where a: "volume_access sample_volumes 1 2 = Some acc"
    by (simp add: volume_access_def sample_volumes_def share_perms_def Let_def)
  have "\<not> may_write sample_volumes 1 2" by (simp add: may_write_def sample_volumes_def)
  with volume_access_sound_and_complete [of sample_volumes 1 2 acc] a show ?thesis by blast
qed

lemma mount_for_authorised:
  assumes "mount_for vt nfs pvcs ns u vid path = OwnPvc m \<or> mount_for vt nfs pvcs ns u vid path = SharedPvc p m"
  shows "may_read vt vid u \<and> (\<not> ms_ro m \<longrightarrow> may_write vt vid u) \<and> ms_path m = path \<and> ms_host m = [] \<and> ms_pvc m \<noteq> []"
proof -
  obtain acc where acc: "volume_access vt vid u = Some acc"
    using assms by (auto simp: mount_for_def split: option.splits)
  note v = volume_access_facts [of vt vid u acc]
  have m: "ms_ro m \<longleftrightarrow> va_perm acc = ''ro''" "ms_path m = path" "ms_host m = []" "ms_pvc m \<noteq> []"
    using assms acc by (auto simp: mount_for_def Let_def split: if_splits)
  show ?thesis using v acc m by blast
qed

text \<open>The loop keeps the score of its leader as the best, and never leads with a refused node.\<close>

lemma pick_loop_leader:
  assumes "n = 0 \<or> (ok best \<and> score best = n)" "\<And>c. score c \<le> n" "\<And>c. \<not> ok c \<Longrightarrow> score c = 0"
  shows "case pick_loop ok score best n cs of (b, m) \<Rightarrow>
     (m = 0 \<or> (ok b \<and> m = score b + count_list cs b)) \<and> (\<forall>c. ok c \<longrightarrow> score c + count_list cs c \<le> m)"
  using assms
proof (induction ok score best n cs rule: pick_loop.induct)
  case (1 ok score best n)
  then show ?case by auto
next
  case (2 ok score best n c cs)
  show ?case
  proof (cases "ok c")
    case False
    note ih = "2.IH"(1) [OF False "2.prems"]
    obtain b m where bm: "pick_loop ok score best n cs = (b, m)" by fastforce
    have cnt: "ok d \<Longrightarrow> count_list (c # cs) d = count_list cs d" for d using False by auto
    show ?thesis using ih False bm cnt by (cases "b = c") auto
  next
    case True
    define k where "k = score c + 1"
    define score' where "score' = score(c := k)"
    have cnt: "score d + count_list (c # cs) d = score' d + count_list cs d" for d
      by (simp add: score'_def k_def)
    show ?thesis
    proof (cases "n < k")
      case lt: True
      have p1: "score' d \<le> k" for d using "2.prems"(2) [of d] lt by (simp add: score'_def)
      have p2: "\<not> ok d \<Longrightarrow> score' d = 0" for d using "2.prems"(3) True by (auto simp: score'_def)
      have p3: "k = 0 \<or> (ok c \<and> score' c = k)" using True by (simp add: score'_def)
      have "case pick_loop ok score' c k cs of (b, m) \<Rightarrow>
          (m = 0 \<or> (ok b \<and> m = score' b + count_list cs b)) \<and> (\<forall>d. ok d \<longrightarrow> score' d + count_list cs d \<le> m)"
        by (rule "2.IH"(2) [OF _ k_def score'_def lt p3 p1 p2]) (use True in simp)
      moreover have "pick_loop ok score best n (c # cs) = pick_loop ok score' c k cs"
        using True lt by (simp add: Let_def k_def score'_def)
      ultimately show ?thesis unfolding cnt by simp
    next
      case ge: False
      then have kn: "k \<le> n" by simp
      have n0: "n \<noteq> 0" using kn by (simp add: k_def)
      have bc: "best \<noteq> c"
      proof
        assume "best = c"
        then have "score c = n" using "2.prems"(1) n0 by auto
        then show False using kn by (simp add: k_def)
      qed
      have p1: "score' d \<le> n" for d using "2.prems"(2) [of d] kn by (simp add: score'_def)
      have p2: "\<not> ok d \<Longrightarrow> score' d = 0" for d using "2.prems"(3) True by (auto simp: score'_def)
      have p3: "n = 0 \<or> (ok best \<and> score' best = n)" using "2.prems"(1) bc by (simp add: score'_def)
      have "case pick_loop ok score' best n cs of (b, m) \<Rightarrow>
          (m = 0 \<or> (ok b \<and> m = score' b + count_list cs b)) \<and> (\<forall>d. ok d \<longrightarrow> score' d + count_list cs d \<le> m)"
        by (rule "2.IH"(3) [OF _ k_def score'_def ge p3 p1 p2]) (use True in simp)
      moreover have "pick_loop ok score best n (c # cs) = pick_loop ok score' best n cs"
        using True ge by (simp add: Let_def k_def score'_def)
      ultimately show ?thesis unfolding cnt by simp
    qed
  qed
qed

text \<open>The node a session's datasets pull it to is a candidate the session could really run on and
  holds at least as many of the datasets as any other such candidate; no node is chosen exactly
  when no candidate is usable. (Candidates are the nodes caching each dataset, one entry per
  dataset and node, none with the empty name.)\<close>

theorem picked_node_is_best:
  assumes "[] \<notin> set cands"
  shows "(pick_node ok cands \<noteq> [] \<longrightarrow> ok (pick_node ok cands) \<and> pick_node ok cands \<in> set cands \<and>
      (\<forall>c. ok c \<longrightarrow> count_list cands c \<le> count_list cands (pick_node ok cands))) \<and>
    (pick_node ok cands = [] \<longleftrightarrow> (\<forall>c \<in> set cands. \<not> ok c))"
proof -
  obtain b m where bm: "pick_loop ok (\<lambda>_. 0) [] 0 cands = (b, m)" by fastforce
  have l: "(m = 0 \<or> (ok b \<and> m = count_list cands b)) \<and> (\<forall>c. ok c \<longrightarrow> count_list cands c \<le> m)"
    using pick_loop_leader [of 0 ok "[]" "\<lambda>_. 0" cands] bm by simp
  show ?thesis
  proof (cases "m = 0")
    case True
    then have "pick_node ok cands = []" by (simp add: pick_node_def bm)
    moreover have "\<forall>c \<in> set cands. \<not> ok c" using l True by (auto simp: count_list_0_iff)
    ultimately show ?thesis by simp
  next
    case False
    then have p: "pick_node ok cands = b" by (simp add: pick_node_def bm)
    have b: "ok b" "m = count_list cands b" using l False by auto
    then have "b \<in> set cands" using False count_list_0_iff by metis
    then show ?thesis using p b l assms by auto
  qed
qed

theorem picked_node_is_best_witness:
  "pick_node (\<lambda>n. n \<noteq> ''n1'') [''n1'', ''n2'', ''n1'', ''n3'', ''n3''] = ''n3'' \<and> ''n3'' \<in> set [''n1'', ''n2'', ''n1'', ''n3'', ''n3'']"
  using picked_node_is_best [of "[''n1'', ''n2'', ''n1'', ''n3'', ''n3'']" "\<lambda>n. n \<noteq> ''n1''"]
  by (simp add: pick_node_def)

end
