(* ===== verification/K8s_Net.thy ===== *)
theory K8s_Net
  imports Giosk_Prelude
begin

text \<open>
  What a session can be reached by and what it can reach: the services of a session
  (\<open>internal/k8s/service.go\<close>) and the egress policy of its namespace (\<open>internal/k8s/netpolicy.go\<close>).
\<close>

section \<open>Services\<close>

datatype service_type = ClusterIP | NodePort | LoadBalancer

record svc_port =
  sq_name :: string
  sq_port :: int

record svc_spec =
  ss_ns :: string
  ss_name :: string
  ss_ports :: "svc_port list"
  ss_mode :: string
  ss_internal :: bool

record service =
  se_ns :: string
  se_name :: string
  se_type :: service_type
  se_selector :: string
  se_ports :: "svc_port list"

definition ssh_svc_name :: "string \<Rightarrow> string" where
  "ssh_svc_name name = name @ ''-ssh''"

definition svc_type :: "string \<Rightarrow> service_type" where
  "svc_type mode = (if mode = ''loadbalancer'' then LoadBalancer else NodePort)"

definition session_service :: "svc_spec \<Rightarrow> service" where
  "session_service s =
     \<lparr>se_ns = ss_ns s, se_name = ss_name s, se_type = (if ss_internal s then ClusterIP else svc_type (ss_mode s)),
      se_selector = ss_name s, se_ports = ss_ports s\<rparr>"

definition ssh_service :: "svc_spec \<Rightarrow> service option" where
  "ssh_service s =
     (case find (\<lambda>p. sq_name p = ''ssh'') (ss_ports s) of None \<Rightarrow> None
      | Some p \<Rightarrow> Some \<lparr>se_ns = ss_ns s, se_name = ssh_svc_name (ss_name s), se_type = svc_type (ss_mode s),
                        se_selector = ss_name s, se_ports = [\<lparr>sq_name = ''ssh'', sq_port = sq_port p\<rparr>]\<rparr>)"

text \<open>\<open>EnsureSessionService\<close>: creating a service that exists succeeds and leaves it as it is; the
  oracle says which creations fail. The services of the cluster are a list with unique names.\<close>

definition add_service :: "service \<Rightarrow> service list \<Rightarrow> service list" where
  "add_service v = insert_ignore (\<lambda>x. (se_ns x, se_name x)) v"

definition ensure_session_service :: "(string \<Rightarrow> bool) \<Rightarrow> svc_spec \<Rightarrow> service list \<Rightarrow> service list \<times> bool" where
  "ensure_session_service ok s vs =
     (if ss_ports s = [] then (vs, True)
      else if \<not> ok (ss_name s) then (vs, False)
      else (let vs1 = add_service (session_service s) vs
            in if \<not> ss_internal s then (vs1, True)
               else (case ssh_service s of None \<Rightarrow> (vs1, True)
                     | Some v \<Rightarrow> if ok (se_name v) then (add_service v vs1, True) else (vs1, False))))"

definition remove_service :: "string \<Rightarrow> string \<Rightarrow> service list \<Rightarrow> service list" where
  "remove_service ns name = filter (\<lambda>v. (se_ns v, se_name v) \<noteq> (ns, name))"

definition delete_session_service :: "(string \<Rightarrow> bool) \<Rightarrow> string \<Rightarrow> string \<Rightarrow> service list \<Rightarrow> service list \<times> bool" where
  "delete_session_service ok ns name vs =
     (if \<not> ok (ssh_svc_name name) then (vs, False)
      else (let vs1 = remove_service ns (ssh_svc_name name) vs
            in if ok name then (remove_service ns name vs1, True) else (vs1, False)))"

text \<open>A port of a session is open from outside when a service of an external type carries it.\<close>

definition outside_ports :: "service list \<Rightarrow> string \<Rightarrow> string \<Rightarrow> string set" where
  "outside_ports vs ns session =
     {n. \<exists>v \<in> set vs. \<exists>p \<in> set (se_ports v). se_ns v = ns \<and> se_selector v = session \<and> se_type v \<noteq> ClusterIP \<and> n = sq_name p}"

lemma add_service_set: "set (add_service v vs) \<subseteq> insert v (set vs)" "set vs \<subseteq> set (add_service v vs)"
  by (auto simp: add_service_def insert_ignore_def)

lemma outside_ports_add: "outside_ports (add_service v vs) ns s \<subseteq> outside_ports [v] ns s \<union> outside_ports vs ns s"
  using add_service_set(1) [of v vs] unfolding outside_ports_def by fastforce

lemma ssh_service_ports: "ssh_service s = Some v \<Longrightarrow> outside_ports [v] ns i \<subseteq> {''ssh''}"
  by (auto simp: ssh_service_def outside_ports_def split: option.splits)

text \<open>With the gateway on, creating a session's services opens no port of the session to the
  outside except SSH: the web channels are reached through the gateway only.\<close>

theorem gateway_hides_web_channels:
  assumes "ss_internal s"
  shows "outside_ports (fst (ensure_session_service ok s vs)) (ss_ns s) (ss_name s) \<subseteq>
    outside_ports vs (ss_ns s) (ss_name s) \<union> {''ssh''}"
proof -
  let ?out = "\<lambda>vs. outside_ports vs (ss_ns s) (ss_name s)"
  have none: "?out [session_service s] = {}" using assms by (simp add: outside_ports_def session_service_def)
  have one: "?out (add_service (session_service s) vs) \<subseteq> ?out vs" using outside_ports_add none by fastforce
  have two: "?out (add_service v (add_service (session_service s) vs)) \<subseteq> ?out vs \<union> {''ssh''}" if "ssh_service s = Some v" for v
    using outside_ports_add [of v] ssh_service_ports [OF that] one by fastforce
  show ?thesis
    using one two assms by (auto simp: ensure_session_service_def Let_def split: option.splits)
qed

definition sample_svc :: svc_spec where
  "sample_svc = \<lparr>ss_ns = ''giosk-grp-1'', ss_name = ''ses-1'', ss_ports = [\<lparr>sq_name = ''vscode'', sq_port = 8080\<rparr>, \<lparr>sq_name = ''ssh'', sq_port = 22\<rparr>],
     ss_mode = ''loadbalancer'', ss_internal = True\<rparr>"

theorem gateway_hides_web_channels_witness:
  "outside_ports (fst (ensure_session_service (\<lambda>_. True) sample_svc [])) ''giosk-grp-1'' ''ses-1'' \<subseteq> {''ssh''}"
  using gateway_hides_web_channels [of sample_svc "\<lambda>_. True" "[]"] by (simp add: sample_svc_def outside_ports_def)

section \<open>The egress policy\<close>

record egress_spec =
  eg_ns :: string
  eg_deny :: "string list"
  eg_allow :: "string list"
  eg_dns :: string

datatype peer = IpBlock string "string list" | KubeDns

record egress_rule =
  er_to :: "peer list"
  er_ports :: "(string \<times> int) list"

definition session_egress_rules :: "egress_spec \<Rightarrow> egress_rule list" where
  "session_egress_rules s =
     [\<lparr>er_to = [IpBlock ''0.0.0.0/0'' (eg_deny s)], er_ports = []\<rparr>] @
     map (\<lambda>c. \<lparr>er_to = [IpBlock c []], er_ports = []\<rparr>) (filter (\<lambda>c. c \<noteq> []) (eg_allow s)) @
     [\<lparr>er_to = KubeDns # (if eg_dns s \<noteq> [] then [IpBlock (eg_dns s @ ''/32'') []] else []),
       er_ports = [(''UDP'', 53), (''TCP'', 53)]\<rparr>]"

text \<open>\<open>EnsureSessionEgressPolicy\<close> on the policies of the namespaces: created or replaced, and removed
  when nothing is to be denied.\<close>

definition ensure_egress :: "(string \<Rightarrow> bool) \<Rightarrow> egress_spec \<Rightarrow> (string \<rightharpoonup> egress_rule list) \<Rightarrow> (string \<rightharpoonup> egress_rule list) \<times> bool" where
  "ensure_egress ok s ps =
     (if \<not> ok (eg_ns s) then (ps, False)
      else if eg_deny s = [] then (ps(eg_ns s := None), True)
      else (ps(eg_ns s \<mapsto> session_egress_rules s), True))"

text \<open>The meaning of a policy, as Kubernetes documents it: a connection is open when some rule has a
  peer with the address and, if it lists ports, the port. \<open>inside c a\<close>: address \<open>a\<close> is in block \<open>c\<close>;
  \<open>dns a\<close>: \<open>a\<close> is a pod of the cluster's DNS.\<close>

definition peer_matches :: "(string \<Rightarrow> 'a \<Rightarrow> bool) \<Rightarrow> ('a \<Rightarrow> bool) \<Rightarrow> 'a \<Rightarrow> peer \<Rightarrow> bool" where
  "peer_matches inside dns a p =
     (case p of IpBlock c ex \<Rightarrow> inside c a \<and> \<not> list_ex (\<lambda>e. inside e a) ex | KubeDns \<Rightarrow> dns a)"

definition egress_open :: "(string \<Rightarrow> 'a \<Rightarrow> bool) \<Rightarrow> ('a \<Rightarrow> bool) \<Rightarrow> egress_rule list \<Rightarrow> 'a \<Rightarrow> string \<times> int \<Rightarrow> bool" where
  "egress_open inside dns rules a port =
     list_ex (\<lambda>r. (er_ports r = [] \<or> port \<in> set (er_ports r)) \<and> list_ex (peer_matches inside dns a) (er_to r)) rules"

text \<open>Under the policy a session reaches an address exactly when the address is in no denied block,
  or in a block explicitly allowed, or the connection is a DNS query to the cluster's resolver: a
  denied block is closed on every port but those exceptions, the rest of the internet stays open.\<close>

theorem egress_policy_exact:
  assumes "inside ''0.0.0.0/0'' a"
  shows "egress_open inside dns (session_egress_rules s) a port \<longleftrightarrow>
    (\<forall>d \<in> set (eg_deny s). \<not> inside d a) \<or> (\<exists>c \<in> set (eg_allow s). c \<noteq> [] \<and> inside c a) \<or>
    (port \<in> {(''UDP'', 53), (''TCP'', 53)} \<and> (dns a \<or> (eg_dns s \<noteq> [] \<and> inside (eg_dns s @ ''/32'') a)))"
  using assms
  by (auto simp: egress_open_def session_egress_rules_def peer_matches_def list_ex_iff)

definition ten_block :: "string \<Rightarrow> int \<Rightarrow> bool" where
  "ten_block c a = (if c = ''0.0.0.0/0'' then True else if c = ''10.0.0.0/8'' then a div 2 ^ 24 = 10 else False)"

theorem egress_policy_exact_witness:
  "\<not> egress_open ten_block (\<lambda>_. False)
      (session_egress_rules \<lparr>eg_ns = ''giosk-grp-1'', eg_deny = [''10.0.0.0/8''], eg_allow = [], eg_dns = []\<rparr>)
      (10 * 2 ^ 24 + 7) (''TCP'', 2049)"
  by (subst egress_policy_exact) (simp_all add: ten_block_def)

end
