(* ===== verification/Node_Lease.thy ===== *)
theory Node_Lease
  imports Giosk_Prelude
begin

text \<open>
  Physical node leases (\<open>internal/node\<close>): the \<open>node_leases\<close> table with its generated unique key,
  acquiring and releasing a lease for a session, the administrator's leases, and the lessor
  interface the session service relies on (\<open>NodeLeaser\<close>). Cordoning is the set of cordoned nodes;
  the calls to the cluster may fail, as the oracle says.
\<close>

section \<open>The table\<close>

datatype lease_status = LeaseActive | LeaseExpired | LeaseReleased

record lease =
  l_id :: int
  l_node :: string
  l_user :: int
  l_instance :: string
  l_status :: lease_status
  l_shared :: bool
  l_hours :: int
  l_extensions :: int
  l_started :: time
  l_expires :: time

record lease_db =
  leases :: "lease list"
  next_lease :: int
  cordoned :: "string set"

text \<open>The generated column \<open>lease_key\<close> of migration 0028: \<open>NULL\<close> unless the lease is active, the
  node for an exclusive lease, node and user for a shared one.\<close>

definition lease_key :: "lease \<Rightarrow> string option" where
  "lease_key l =
     (if l_status l \<noteq> LeaseActive then None
      else if l_shared l then Some (l_node l @ ''#'' @ dec (l_user l))
      else Some (l_node l))"

datatype lstmt = LInsert | LRelease | LExtend | LGet | LCordon

type_synonym lease_oracle = "lstmt \<Rightarrow> string \<Rightarrow> bool"

datatype lease_error = NodeBusy | LeaseNotFound | LeaseDb

text \<open>\<open>INSERT\<close>: a second row with the same key is a duplicate-key error (\<open>Inl True\<close>), any other
  failure is \<open>Inl False\<close>.\<close>

definition insert_lease :: "lease_oracle \<Rightarrow> lease \<Rightarrow> lease_db \<Rightarrow> lease_db \<times> (bool + lease)" where
  "insert_lease ok l db =
     (let l' = l\<lparr>l_id := next_lease db\<rparr>
      in if \<not> ok LInsert (l_node l) then (db, Inl False)
         else if lease_key l \<noteq> None \<and> list_ex (\<lambda>x. lease_key x = lease_key l) (leases db)
         then (db, Inl True)
         else (db\<lparr>leases := leases db @ [l'], next_lease := next_lease db + 1\<rparr>, Inr l'))"

definition active_on :: "time \<Rightarrow> string \<Rightarrow> lease \<Rightarrow> bool" where
  "active_on now n l = (l_node l = n \<and> l_status l = LeaseActive \<and> now < l_expires l)"

definition active_lease_user :: "time \<Rightarrow> string \<Rightarrow> lease_db \<Rightarrow> bool" where
  "active_lease_user now n db = list_ex (active_on now n) (leases db)"

definition active_lease_for :: "string \<Rightarrow> int \<Rightarrow> lease_db \<Rightarrow> bool" where
  "active_lease_for n u db =
     list_ex (\<lambda>l. l_node l = n \<and> l_user l = u \<and> l_status l = LeaseActive) (leases db)"

text \<open>\<open>AcquireLease\<close>: \<open>Inr\<close> says whether an existing lease was reused.\<close>

definition acquire_lease ::
  "lease_oracle \<Rightarrow> time \<Rightarrow> lease \<Rightarrow> bool \<Rightarrow> lease_db \<Rightarrow> lease_db \<times> (lease_error + bool)" where
  "acquire_lease ok now l0 excl db =
     (let l = l0\<lparr>l_shared := \<not> excl\<rparr>
      in if excl \<and> active_lease_user now (l_node l) db then (db, Inl NodeBusy)
         else if \<not> excl \<and> active_lease_for (l_node l) (l_user l) db then (db, Inr True)
         else (case insert_lease ok l db of
             (db', Inr _) \<Rightarrow> (db', Inr False)
           | (db', Inl True) \<Rightarrow> (db', if excl then Inl NodeBusy else Inr True)
           | (db', Inl False) \<Rightarrow> (db', Inl LeaseDb)))"

definition release_where :: "(lease \<Rightarrow> bool) \<Rightarrow> lease_db \<Rightarrow> lease_db" where
  "release_where P db =
     db\<lparr>leases := upd_where (\<lambda>l. P l \<and> l_status l = LeaseActive) (\<lambda>l. l\<lparr>l_status := LeaseReleased\<rparr>) (leases db)\<rparr>"

definition release_by_instance :: "lease_oracle \<Rightarrow> string \<Rightarrow> lease_db \<Rightarrow> lease_db \<times> string option" where
  "release_by_instance ok i db =
     (let node = (case find (\<lambda>l. l_instance l = i \<and> l_status l = LeaseActive) (leases db) of
                    None \<Rightarrow> '''' | Some l \<Rightarrow> l_node l)
      in if ok LRelease i then (release_where (\<lambda>l. l_instance l = i) db, Some node) else (db, None))"

definition set_cordon :: "lease_oracle \<Rightarrow> string \<Rightarrow> bool \<Rightarrow> lease_db \<Rightarrow> lease_db \<times> bool" where
  "set_cordon ok n on db =
     (if ok LCordon n
      then (db\<lparr>cordoned := (if on then insert n (cordoned db) else cordoned db - {n})\<rparr>, True)
      else (db, False))"

section \<open>The service\<close>

text \<open>A hundred years, the expiry of a session's lease.\<close>

definition century :: duration where
  "century = 36525 * (24 * (3600 * 1000000000))"

definition session_lease :: "string \<Rightarrow> int \<Rightarrow> string \<Rightarrow> time \<Rightarrow> lease" where
  "session_lease n u i now =
     \<lparr>l_id = 0, l_node = n, l_user = u, l_instance = i, l_status = LeaseActive, l_shared = False,
      l_hours = 0, l_extensions = 0, l_started = now, l_expires = now + century\<rparr>"

definition create_lease_for ::
  "lease_oracle \<Rightarrow> bool \<Rightarrow> time \<Rightarrow> string \<Rightarrow> int \<Rightarrow> string \<Rightarrow> lease_db \<Rightarrow> lease_db \<times> lease_error option" where
  "create_lease_for ok free now n u i db =
     (if free
      then (case acquire_lease ok now (session_lease n u i now) False db of
          (db', Inl e) \<Rightarrow> (db', Some e) | (db', Inr _) \<Rightarrow> (db', None))
      else (case acquire_lease ok now (session_lease n u i now) True db of
          (db', Inl e) \<Rightarrow> (db', Some e)
        | (db', Inr _) \<Rightarrow> (fst (set_cordon ok n True db'), None)))"

definition release_lease_for :: "lease_oracle \<Rightarrow> bool \<Rightarrow> string \<Rightarrow> lease_db \<Rightarrow> lease_db \<times> bool" where
  "release_lease_for ok free i db =
     (if free then (db, True)
      else (case release_by_instance ok i db of
          (db', None) \<Rightarrow> (db', False)
        | (db', Some n) \<Rightarrow> (if n \<noteq> '''' then fst (set_cordon ok n False db') else db', True)))"

text \<open>The administrator's leases are not tied to a session.\<close>

definition create_lease ::
  "lease_oracle \<Rightarrow> time \<Rightarrow> string \<Rightarrow> int \<Rightarrow> int \<Rightarrow> lease_db \<Rightarrow> lease_db \<times> lease_error option" where
  "create_lease ok now n u hours db =
     (case insert_lease ok
        \<lparr>l_id = 0, l_node = n, l_user = u, l_instance = '''', l_status = LeaseActive, l_shared = False,
         l_hours = hours, l_extensions = 0, l_started = now, l_expires = now + hours * hour\<rparr> db of
        (db', Inr _) \<Rightarrow> (fst (set_cordon ok n True db'), None)
      | (db', Inl _) \<Rightarrow> (db', Some LeaseDb))"

definition extend_lease :: "lease_oracle \<Rightarrow> int \<Rightarrow> int \<Rightarrow> lease_db \<Rightarrow> lease_db \<times> bool" where
  "extend_lease ok i hours db =
     (if ok LExtend (dec i)
      then (db\<lparr>leases := upd_where (\<lambda>l. l_id l = i \<and> l_status l = LeaseActive)
                 (\<lambda>l. l\<lparr>l_expires := l_expires l + hours * hour, l_extensions := l_extensions l + 1\<rparr>) (leases db)\<rparr>, True)
      else (db, False))"

definition release_lease :: "lease_oracle \<Rightarrow> int \<Rightarrow> lease_db \<Rightarrow> lease_db \<times> lease_error option" where
  "release_lease ok i db =
     (case (if ok LGet (dec i) then find (\<lambda>l. l_id l = i) (leases db) else None) of
        None \<Rightarrow> (db, Some LeaseNotFound)
      | Some l \<Rightarrow>
          if ok LRelease (dec i)
          then (let (db', b) = set_cordon ok (l_node l) False (release_where (\<lambda>x. l_id x = i) db)
                in (db', if b then None else Some LeaseDb))
          else (db, Some LeaseDb))"

section \<open>The lessor interface\<close>

record 'l leaser =
  lz_create :: "time \<Rightarrow> string \<Rightarrow> int \<Rightarrow> string \<Rightarrow> 'l \<Rightarrow> 'l \<times> lease_error option"
  lz_release :: "string \<Rightarrow> 'l \<Rightarrow> 'l \<times> bool"

text \<open>
  \<open>holds l n i\<close>: instance \<open>i\<close> holds node \<open>n\<close>. Creating grants the node to the instance and takes
  nothing from anyone; a refusal changes no holding; a node is granted only when nobody holds it;
  a release that succeeds ends the instance's holdings and no other.
\<close>

locale leasing =
  fixes L :: "'l leaser"
    and holds :: "'l \<Rightarrow> string \<Rightarrow> string \<Rightarrow> bool"
  assumes create_grants: "lz_create L now n u i l = (l', None) \<Longrightarrow>
      holds l' m j \<longleftrightarrow> holds l m j \<or> (m = n \<and> j = i)"
    and create_refused: "lz_create L now n u i l = (l', Some e) \<Longrightarrow> holds l' m j = holds l m j"
    and create_was_free: "lz_create L now n u i l = (l', None) \<Longrightarrow> \<not> holds l n j"
    and release_frees: "lz_release L i l = (l', True) \<Longrightarrow> holds l' m j \<longleftrightarrow> holds l m j \<and> j \<noteq> i"
    and release_failed: "lz_release L i l = (l', False) \<Longrightarrow> holds l' m j = holds l m j"
begin

lemma release_only: "lz_release L i l = (l', b) \<Longrightarrow> holds l' m j \<Longrightarrow> holds l m j"
  using release_frees [of i l l' m j] release_failed [of i l l' m j] by (cases b) auto

lemma release_keeps_others: "lz_release L i l = (l', b) \<Longrightarrow> j \<noteq> i \<Longrightarrow> holds l' m j = holds l m j"
  using release_frees [of i l l' m j] release_failed [of i l l' m j] by (cases b) auto

lemma create_then_release:
  assumes "lz_create L now n u i l = (l1, None)" "lz_release L i l1 = (l2, True)"
  shows "holds l2 m j \<longleftrightarrow> holds l m j \<and> j \<noteq> i"
  using create_grants [OF assms(1)] release_frees [OF assms(2)] by auto

end

section \<open>The node service as lessor\<close>

definition node_leaser :: "lease_oracle \<Rightarrow> bool \<Rightarrow> lease_db leaser" where
  "node_leaser ok free = \<lparr>lz_create = create_lease_for ok free, lz_release = release_lease_for ok free\<rparr>"

definition lease_holds :: "lease_db \<Rightarrow> string \<Rightarrow> string \<Rightarrow> bool" where
  "lease_holds db n i =
     list_ex (\<lambda>l. l_node l = n \<and> l_instance l = i \<and> l_status l = LeaseActive \<and> \<not> l_shared l) (leases db)"

lemma lease_key_exclusive: "l_status l = LeaseActive \<Longrightarrow> \<not> l_shared l \<Longrightarrow> lease_key l = Some (l_node l)"
  by (simp add: lease_key_def)

lemma set_cordon_leases [simp]: "leases (fst (set_cordon ok n b db)) = leases db"
  by (simp add: set_cordon_def)

lemma lease_holds_cordon [simp]: "lease_holds (fst (set_cordon ok n b db)) m j = lease_holds db m j"
  by (simp add: lease_holds_def)

definition key_taken :: "lease \<Rightarrow> lease_db \<Rightarrow> bool" where
  "key_taken l db = (lease_key l \<noteq> None \<and> list_ex (\<lambda>x. lease_key x = lease_key l) (leases db))"

definition add_lease :: "lease \<Rightarrow> lease_db \<Rightarrow> lease_db" where
  "add_lease l db = db\<lparr>leases := leases db @ [l\<lparr>l_id := next_lease db\<rparr>], next_lease := next_lease db + 1\<rparr>"

lemma insert_lease_cases:
  obtains "insert_lease ok l db = (db, Inl False)" "\<not> ok LInsert (l_node l)"
  | "insert_lease ok l db = (db, Inl True)" "ok LInsert (l_node l)" "key_taken l db"
  | "insert_lease ok l db = (add_lease l db, Inr (l\<lparr>l_id := next_lease db\<rparr>))"
      "ok LInsert (l_node l)" "\<not> key_taken l db"
proof -
  have d: "insert_lease ok l db =
      (if \<not> ok LInsert (l_node l) then (db, Inl False)
       else if key_taken l db then (db, Inl True)
       else (add_lease l db, Inr (l\<lparr>l_id := next_lease db\<rparr>)))"
    by (simp add: insert_lease_def key_taken_def add_lease_def Let_def)
  show thesis using that unfolding d by presburger
qed

lemma session_lease_simps [simp]:
  "l_node (session_lease n u i now) = n" "l_user (session_lease n u i now) = u"
  "l_instance (session_lease n u i now) = i" "l_status (session_lease n u i now) = LeaseActive"
  by (simp_all add: session_lease_def)

text \<open>An exclusive session lease is granted when the insert goes through and no active lease has
  the node as its key; the new row is then the only change to the leases.\<close>

lemma create_lease_exclusive:
  assumes "create_lease_for ok False now n u i db = (db', r)"
  shows "case r of
        None \<Rightarrow> leases db' = leases db @ [(session_lease n u i now)\<lparr>l_shared := False, l_id := next_lease db\<rparr>] \<and>
          (\<forall>x \<in> set (leases db). lease_key x \<noteq> Some n)
      | Some e \<Rightarrow> db' = db"
proof -
  define l where "l = (session_lease n u i now)\<lparr>l_shared := False\<rparr>"
  have k: "lease_key l = Some n" "l_node l = n" by (simp_all add: l_def lease_key_def)
  have c: "create_lease_for ok False now n u i db =
      (if active_lease_user now n db then (db, Some NodeBusy)
       else (case insert_lease ok l db of
           (db', Inr _) \<Rightarrow> (fst (set_cordon ok n True db'), None)
         | (db', Inl True) \<Rightarrow> (db', Some NodeBusy)
         | (db', Inl False) \<Rightarrow> (db', Some LeaseDb)))"
    by (simp add: create_lease_for_def acquire_lease_def l_def Let_def split: prod.split sum.split bool.split)
  have "insert_lease ok l db = (add_lease l db, Inr (l\<lparr>l_id := next_lease db\<rparr>)) \<and> \<not> key_taken l db \<or>
      insert_lease ok l db = (db, Inl True) \<or> insert_lease ok l db = (db, Inl False)"
    by (rule insert_lease_cases [of ok l db]) auto
  with assms k show ?thesis
    unfolding c by (auto simp: add_lease_def key_taken_def list_ex_iff l_def split: if_splits)
qed

lemma lease_holds_key: "lease_holds db n j \<Longrightarrow> \<exists>x \<in> set (leases db). lease_key x = Some n"
  by (auto simp: lease_holds_def list_ex_iff lease_key_def)

lemma release_instance_holds:
  "lease_holds (release_where (\<lambda>l. l_instance l = i) db) m j \<longleftrightarrow> lease_holds db m j \<and> j \<noteq> i"
  by (auto simp: lease_holds_def release_where_def upd_where_def list_ex_iff)

lemma release_lease_for_cases:
  "release_lease_for ok False i db = (db', b) \<Longrightarrow>
     (b \<longrightarrow> leases db' = leases (release_where (\<lambda>l. l_instance l = i) db)) \<and> (\<not> b \<longrightarrow> db' = db)"
  by (auto simp: release_lease_for_def release_by_instance_def Let_def split: if_splits)

interpretation nl: leasing "node_leaser ok False" lease_holds
proof unfold_locales
  fix now n u i l l' m j
  assume "lz_create (node_leaser ok False) now n u i l = (l', None)"
  then show "lease_holds l' m j \<longleftrightarrow> lease_holds l m j \<or> (m = n \<and> j = i)"
    by (auto simp: node_leaser_def lease_holds_def dest!: create_lease_exclusive)
next
  fix now n u i l l' e m j
  assume "lz_create (node_leaser ok False) now n u i l = (l', Some e)"
  then show "lease_holds l' m j = lease_holds l m j"
    by (auto simp: node_leaser_def dest!: create_lease_exclusive)
next
  fix now n u i l l' j
  assume "lz_create (node_leaser ok False) now n u i l = (l', None)"
  then show "\<not> lease_holds l n j"
    by (auto simp: node_leaser_def dest!: create_lease_exclusive lease_holds_key)
next
  fix i l l' m j
  assume "lz_release (node_leaser ok False) i l = (l', True)"
  then have "leases l' = leases (release_where (\<lambda>l. l_instance l = i) l)"
    by (auto simp: node_leaser_def dest!: release_lease_for_cases)
  then show "lease_holds l' m j \<longleftrightarrow> lease_holds l m j \<and> j \<noteq> i"
    using release_instance_holds [of i l m j] by (simp add: lease_holds_def)
next
  fix i l l' m j
  assume "lz_release (node_leaser ok False) i l = (l', False)"
  then show "lease_holds l' m j = lease_holds l m j"
    by (auto simp: node_leaser_def dest!: release_lease_for_cases)
qed

section \<open>Reachable lease tables\<close>

inductive lease_step :: "lease_db \<Rightarrow> lease_db \<Rightarrow> bool" where
  step_create_for: "lease_step db (fst (create_lease_for ok free now n u i db))"
| step_release_for: "lease_step db (fst (release_lease_for ok free i db))"
| step_create: "lease_step db (fst (create_lease ok now n u h db))"
| step_extend: "lease_step db (fst (extend_lease ok j h db))"
| step_release: "lease_step db (fst (release_lease ok j db))"

inductive lease_reach :: "lease_db \<Rightarrow> bool" where
  reach_empty: "lease_reach \<lparr>leases = [], next_lease = 1, cordoned = c\<rparr>"
| reach_step: "lease_reach db \<Longrightarrow> lease_step db db' \<Longrightarrow> lease_reach db'"

inductive_cases lease_stepE: "lease_step db db'"

definition lease_keys :: "lease list \<Rightarrow> string list" where
  "lease_keys ls = [k. l \<leftarrow> ls, Some k \<leftarrow> [lease_key l]]"

lemma lease_keys_simps [simp]:
  "lease_keys [] = []"
  "lease_keys (ls @ ms) = lease_keys ls @ lease_keys ms"
  "lease_keys [l] = (case lease_key l of None \<Rightarrow> [] | Some k \<Rightarrow> [k])"
  by (simp_all add: lease_keys_def split: option.split)

lemma lease_keys_Cons: "lease_keys (l # ls) = lease_keys [l] @ lease_keys ls"
  using lease_keys_simps(2) [of "[l]" ls] by simp

lemma set_lease_keys: "set (lease_keys ls) = {k. \<exists>l \<in> set ls. lease_key l = Some k}"
  by (auto simp: lease_keys_def split: option.splits)

lemma insert_lease_keys: "distinct (lease_keys (leases db)) \<Longrightarrow> distinct (lease_keys (leases (fst (insert_lease ok l db))))"
  by (rule insert_lease_cases [of ok l db])
    (auto simp: add_lease_def key_taken_def list_ex_iff set_lease_keys lease_key_def split: if_splits)

lemma keys_upd_subset:
  assumes "\<And>l. lease_key (f l) = None \<or> lease_key (f l) = lease_key l"
  shows "distinct (lease_keys ls) \<Longrightarrow> distinct (lease_keys (upd_where P f ls)) \<and>
    set (lease_keys (upd_where P f ls)) \<subseteq> set (lease_keys ls)"
proof (induction ls)
  case (Cons l ls)
  then show ?case
    using assms [of l] by (auto simp: lease_keys_Cons [of "if P l then f l else l"] lease_keys_Cons [of l] split: option.splits)
qed simp

lemma release_where_keys: "distinct (lease_keys (leases db)) \<Longrightarrow> distinct (lease_keys (leases (release_where P db)))"
  using keys_upd_subset [of "\<lambda>l. l\<lparr>l_status := LeaseReleased\<rparr>" "leases db"]
  by (simp add: release_where_def lease_key_def)

lemma acquire_lease_keys:
  "distinct (lease_keys (leases db)) \<Longrightarrow> distinct (lease_keys (leases (fst (acquire_lease ok now l e db))))"
  using insert_lease_keys [of db ok "l\<lparr>l_shared := \<not> e\<rparr>"]
  by (auto simp: acquire_lease_def Let_def split: prod.splits sum.splits bool.splits)

lemma lease_step_keys:
  assumes "lease_step db db'" "distinct (lease_keys (leases db))"
  shows "distinct (lease_keys (leases db'))"
  using assms
proof (cases rule: lease_step.cases)
  case (step_create_for ok free now n u i)
  then show ?thesis
    using acquire_lease_keys [OF assms(2), of ok now "session_lease n u i now" False]
      acquire_lease_keys [OF assms(2), of ok now "session_lease n u i now" True]
    by (auto simp: create_lease_for_def split: prod.splits sum.splits)
next
  case (step_release_for ok free i)
  then show ?thesis
    using assms(2) release_where_keys [OF assms(2)]
    by (auto simp: release_lease_for_def release_by_instance_def Let_def)
next
  case (step_create ok now n u h)
  then show ?thesis
    using insert_lease_keys [OF assms(2), of ok "\<lparr>l_id = 0, l_node = n, l_user = u, l_instance = [],
        l_status = LeaseActive, l_shared = False, l_hours = h, l_extensions = 0, l_started = now,
        l_expires = now + h * hour\<rparr>"]
    by (auto simp: create_lease_def split: prod.splits sum.splits)
next
  case (step_extend ok j h)
  then show ?thesis
    using assms(2) keys_upd_subset [of "\<lambda>l. l\<lparr>l_expires := l_expires l + h * hour, l_extensions := l_extensions l + 1\<rparr>" "leases db"]
    by (auto simp: extend_lease_def lease_key_def)
next
  case (step_release ok j)
  then show ?thesis
    using assms(2) release_where_keys [OF assms(2)]
    by (auto simp: release_lease_def Let_def split: option.splits prod.splits) (metis fst_conv set_cordon_leases)
qed

lemma lease_reach_keys: "lease_reach db \<Longrightarrow> distinct (lease_keys (leases db))"
  by (induction rule: lease_reach.induct) (auto intro: lease_step_keys)

text \<open>C29: Whatever sequence of session leases, administrator leases, extensions and releases runs,
  in either mode and with any failures, no two active exclusive leases are ever on the same node,
  and in the shared mode no user holds a node twice.\<close>

theorem one_exclusive_lease_per_node:
  assumes "lease_reach db" "a < length (leases db)" "b < length (leases db)"
    and "l_status (leases db ! a) = LeaseActive" "l_status (leases db ! b) = LeaseActive"
    and "l_node (leases db ! a) = l_node (leases db ! b)"
    and "l_shared (leases db ! a) = l_shared (leases db ! b)"
    and "l_shared (leases db ! a) \<longrightarrow> l_user (leases db ! a) = l_user (leases db ! b)"
  shows "a = b"
proof -
  have d: "distinct (lease_keys ls) \<Longrightarrow> i < length ls \<Longrightarrow> j < length ls \<Longrightarrow> i < j \<Longrightarrow>
      lease_key (ls ! i) \<noteq> None \<Longrightarrow> lease_key (ls ! i) \<noteq> lease_key (ls ! j)" for ls i j
  proof (induction ls arbitrary: i j)
    case (Cons l ls)
    show ?case
    proof (cases i)
      case 0
      obtain k where k: "j = Suc k" using Cons.prems(4) by (cases j) auto
      then have "ls ! k \<in> set ls" using Cons.prems(3) by simp
      then show ?thesis
        using Cons.prems(1,5) 0 k by (auto simp: lease_keys_Cons [of l ls] set_lease_keys split: option.splits)
    next
      case (Suc i')
      obtain k where "j = Suc k" using Cons.prems(4) by (cases j) auto
      then show ?thesis
        using Cons.prems Suc Cons.IH [of i' k] by (auto simp: lease_keys_Cons [of l ls] split: option.splits)
    qed
  qed simp
  have key: "lease_key (leases db ! a) = lease_key (leases db ! b)" "lease_key (leases db ! a) \<noteq> None"
    using assms(4-8) by (auto simp: lease_key_def)
  show ?thesis
    using d [OF lease_reach_keys [OF assms(1)] assms(2,3)] d [OF lease_reach_keys [OF assms(1)] assms(3,2)] key
    by (metis linorder_neqE_nat)
qed

definition empty_leases :: lease_db where
  "empty_leases = \<lparr>leases = [], next_lease = 1, cordoned = {}\<rparr>"

theorem one_exclusive_lease_per_node_witness:
  "\<exists>db. lease_reach db \<and> length (leases db) = 1 \<and> (0::nat) = 0"
proof -
  let ?db = "fst (create_lease_for (\<lambda>_ _. True) False 0 ''n1'' 7 ''ses-a'' empty_leases)"
  have r: "lease_reach ?db"
    by (rule reach_step [OF reach_empty [of "{}", folded empty_leases_def] step_create_for])
  have e: "length (leases ?db) = 1" "l_status (leases ?db ! 0) = LeaseActive"
    by (simp_all add: create_lease_for_def acquire_lease_def insert_lease_def empty_leases_def Let_def
        active_lease_user_def session_lease_def)
  have "(0::nat) = 0"
    by (rule one_exclusive_lease_per_node [OF r]) (simp_all add: e)
  with r e show ?thesis by blast
qed

lemma create_lease_granted:
  "(\<exists>db'. create_lease_for ok False now n u i db = (db', None)) \<longleftrightarrow>
     ok LInsert n \<and> \<not> active_lease_user now n db \<and> (\<forall>l \<in> set (leases db). lease_key l \<noteq> Some n)"
proof -
  define l where "l = (session_lease n u i now)\<lparr>l_shared := False\<rparr>"
  have k: "lease_key l = Some n" "l_node l = n" by (simp_all add: l_def lease_key_def)
  have c: "create_lease_for ok False now n u i db =
      (if active_lease_user now n db then (db, Some NodeBusy)
       else (case insert_lease ok l db of
           (db', Inr _) \<Rightarrow> (fst (set_cordon ok n True db'), None)
         | (db', Inl True) \<Rightarrow> (db', Some NodeBusy)
         | (db', Inl False) \<Rightarrow> (db', Some LeaseDb)))"
    by (simp add: create_lease_for_def acquire_lease_def l_def Let_def split: prod.split sum.split bool.split)
  show ?thesis
    unfolding c by (rule insert_lease_cases [of ok l db]) (auto simp: k key_taken_def list_ex_iff)
qed

text \<open>A session gets an exclusive lease exactly when the insert goes through, nobody's unexpired
  lease is active on the node and no exclusive lease on it is still marked active; then the session
  holds the node and nobody else's holding changes. Nothing ever marks a lease expired: an
  administrator's lease whose time is over is no longer the node's active lease, and still blocks
  the node for every session.\<close>

theorem exclusive_lease_granted_iff:
  "((\<exists>db'. create_lease_for ok False now n u i db = (db', None)) \<longleftrightarrow>
      ok LInsert n \<and> \<not> active_lease_user now n db \<and> (\<forall>l \<in> set (leases db). lease_key l \<noteq> Some n)) \<and>
   (create_lease_for ok False now n u i db = (db', None) \<longrightarrow>
      (\<forall>m j. lease_holds db' m j \<longleftrightarrow> lease_holds db m j \<or> (m = n \<and> j = i))) \<and>
   (\<exists>db. \<not> active_lease_user (9 * hour) ''n1'' db \<and>
      create_lease_for (\<lambda>_ _. True) False (9 * hour) ''n1'' 7 ''ses-a'' db = (db, Some NodeBusy))"
proof (intro conjI impI allI)
  show "(\<exists>db'. create_lease_for ok False now n u i db = (db', None)) \<longleftrightarrow>
      ok LInsert n \<and> \<not> active_lease_user now n db \<and> (\<forall>l \<in> set (leases db). lease_key l \<noteq> Some n)"
    by (rule create_lease_granted)
  show "lease_holds db' m j \<longleftrightarrow> lease_holds db m j \<or> (m = n \<and> j = i)"
    if "create_lease_for ok False now n u i db = (db', None)" for m j
    using nl.create_grants [of ok now n u i db db' m j] that by (simp add: node_leaser_def)
  let ?db = "fst (create_lease (\<lambda>_ _. True) 0 ''n1'' 1 8 empty_leases)"
  show "\<exists>db. \<not> active_lease_user (9 * hour) ''n1'' db \<and>
      create_lease_for (\<lambda>_ _. True) False (9 * hour) ''n1'' 7 ''ses-a'' db = (db, Some NodeBusy)"
    by (rule exI [of _ ?db])
      (simp add: create_lease_def create_lease_for_def acquire_lease_def insert_lease_def empty_leases_def
        Let_def active_lease_user_def active_on_def session_lease_def set_cordon_def lease_key_def)
qed

theorem exclusive_lease_granted_iff_witness:
  "\<exists>db'. create_lease_for (\<lambda>_ _. True) False 0 ''n1'' 7 ''ses-a'' empty_leases = (db', None) \<and>
     lease_holds db' ''n1'' ''ses-a''"
proof -
  obtain db' where c: "create_lease_for (\<lambda>_ _. True) False 0 ''n1'' 7 ''ses-a'' empty_leases = (db', None)"
    using exclusive_lease_granted_iff [of "\<lambda>_ _. True" 0 "''n1''" 7 "''ses-a''" empty_leases empty_leases]
    by (auto simp: empty_leases_def active_lease_user_def)
  with exclusive_lease_granted_iff [of "\<lambda>_ _. True" 0 "''n1''" 7 "''ses-a''" empty_leases db']
  show ?thesis by blast
qed

end
