(* ===== verification/Session_Billing.thy ===== *)
theory Session_Billing
  imports Session_Mounts K8s_Net Node_Lease Credit_Store
begin

text \<open>
  The world of the session service and its billing (\<open>internal/session/service.go\<close>): the tables,
  the wallets behind the charger, the leases behind the lessor, the objects of the cluster and the
  audit log; \<open>settle\<close> for running sessions, \<open>settleStorage\<close> for the homes of stopped ones, and one
  tick of the biller. An operation runs at one instant. Which statements and cluster calls fail is
  the choice of the environment; deleting an object that is not there and creating one that is
  succeed, as in \<open>internal/k8s\<close>.
\<close>

section \<open>The world\<close>

datatype kop =
    KNamespace | KKeys | KPod | KDelPod | KSvc | KDelSvc | KPvc | KDelPvc | KGetPvc
  | KSharedPvc | KDelSharedPvc | KEgress

record pod_status =
  ps_phase :: string
  ps_node :: string
  ps_ip :: string
  ps_unschedulable :: bool

datatype pod_reply = PodIs pod_status | PodMissing | PodUnknown

record env =
  en_db :: sdb_oracle
  en_k8s :: "kop \<Rightarrow> string \<Rightarrow> bool"
  en_now :: time
  en_cat :: catalog
  en_cl :: "live_node list option"
  en_pod :: "string \<Rightarrow> pod_reply"
  en_vols :: volume_tables
  en_nfs :: "string \<Rightarrow> string \<Rightarrow> bool"
  en_cache :: "(int list \<Rightarrow> placement) option"
  en_attach :: "int \<Rightarrow> int \<Rightarrow> bool"

record ('w, 'l) world =
  w_db :: session_db
  w_wallet :: 'w
  w_leases :: 'l
  w_pods :: "string \<times> string \<rightharpoonup> pod"
  w_svcs :: "service list"
  w_pvcs :: "(string \<times> string) set"
  w_policies :: "string \<rightharpoonup> egress_rule list"
  w_audit :: "(string \<times> string) list"

record ('w, 'l) session_svc =
  sv_cfg :: session_cfg
  sv_charger :: "'w charger option"
  sv_leaser :: "'l leaser option"

text \<open>Running a statement of the repository on the world.\<close>

definition on_db :: "(session_db \<Rightarrow> session_db \<times> 'r) \<Rightarrow> ('w, 'l) world \<Rightarrow> ('w, 'l) world \<times> 'r" where
  "on_db f w = (let (db', r) = f (w_db w) in (w\<lparr>w_db := db'\<rparr>, r))"

definition audited :: "string \<Rightarrow> string \<Rightarrow> ('w, 'l) world \<Rightarrow> ('w, 'l) world" where
  "audited action target w = w\<lparr>w_audit := w_audit w @ [(action, target)]\<rparr>"

definition delete_pod :: "env \<Rightarrow> string \<Rightarrow> string \<Rightarrow> ('w, 'l) world \<Rightarrow> ('w, 'l) world \<times> bool" where
  "delete_pod e ns n w =
     (if en_k8s e KDelPod n then (w\<lparr>w_pods := (w_pods w)((ns, n) := None)\<rparr>, True) else (w, False))"

definition delete_svc :: "env \<Rightarrow> string \<Rightarrow> string \<Rightarrow> ('w, 'l) world \<Rightarrow> ('w, 'l) world \<times> bool" where
  "delete_svc e ns n w =
     (let (vs, ok) = delete_session_service (en_k8s e KDelSvc) ns n (w_svcs w) in (w\<lparr>w_svcs := vs\<rparr>, ok))"

definition delete_pvc :: "env \<Rightarrow> string \<Rightarrow> string \<Rightarrow> ('w, 'l) world \<Rightarrow> ('w, 'l) world \<times> bool" where
  "delete_pvc e ns n w =
     (if en_k8s e KDelPvc n then (w\<lparr>w_pvcs := w_pvcs w - {(ns, n)}\<rparr>, True) else (w, False))"

text \<open>Returning a physical node: without a lessor nothing happens.\<close>

definition release_lease_of :: "('w, 'l) session_svc \<Rightarrow> string \<Rightarrow> ('w, 'l) world \<Rightarrow> ('w, 'l) world" where
  "release_lease_of sv i w =
     (case sv_leaser sv of None \<Rightarrow> w | Some L \<Rightarrow> w\<lparr>w_leases := fst (lz_release L i (w_leases w))\<rparr>)"

section \<open>Settling a running session\<close>

definition total_due :: "int \<Rightarrow> time \<Rightarrow> time \<Rightarrow> int" where
  "total_due price started now = trunc (fdiv (fmul (fl price) (dur_seconds (now - started))) 3600)"

definition usage_seconds :: "int \<Rightarrow> int \<Rightarrow> int" where
  "usage_seconds due price = trunc (fmul (fdiv (fl due) (fl price)) 3600)"

definition stop_for_billing :: "('w, 'l) session_svc \<Rightarrow> env \<Rightarrow> session \<Rightarrow> ('w, 'l) world \<Rightarrow> ('w, 'l) world" where
  "stop_for_billing sv e s w =
     (let i = s_instance s; ns = namespace_of (sv_cfg sv) s;
          w1 = (if ssh_env s then release_lease_of sv i w
                else (let wa = fst (delete_pod e ns i w); wb = fst (delete_svc e ns i wa)
                      in fst (on_db (mark_stopped (en_db e) i (en_now e)) wb)));
          w2 = fst (on_db (set_phase (en_db e) i Stopped) w1)
      in audited ''session_out_of_credit'' i w2)"

definition settle :: "('w, 'l) session_svc \<Rightarrow> env \<Rightarrow> session \<Rightarrow> bool \<Rightarrow> ('w, 'l) world \<Rightarrow> ('w, 'l) world" where
  "settle sv e s final w =
     (case sv_charger sv of None \<Rightarrow> w
      | Some C \<Rightarrow>
          if s_price s \<le> 0 then w
          else (case s_started s of None \<Rightarrow> w
          | Some started \<Rightarrow>
              (let tot = total_due (s_price s) started (en_now e);
                   due = tot - s_billed s
               in if due \<le> 0 then w
                  else (let (wl, r) = ch_consume C (s_user s) (gid_of s) due (s_instance s) (w_wallet w);
                            w1 = w\<lparr>w_wallet := wl\<rparr>
                        in case r of
                             CErr \<Rightarrow> w1
                           | CInsufficient \<Rightarrow> (if final then w1 else stop_for_billing sv e s w1)
                           | COk \<Rightarrow>
                               (let w2 = fst (on_db (set_billed (en_db e) (s_instance s) tot) w1);
                                    secs = usage_seconds due (s_price s)
                                in if 0 < secs
                                   then fst (on_db (record_gpu_usage (en_db e) (s_user s) (gid_of s) (s_instance s) secs (s_gpus s)) w2)
                                   else w2)))))"

section \<open>Settling the home of a stopped session\<close>

definition seconds_per_month :: int where
  "seconds_per_month = 730 * 3600"

definition home_size_gib :: int where
  "home_size_gib = 10"

definition storage_due_of :: "int \<Rightarrow> int \<Rightarrow> int" where
  "storage_due_of secs price =
     (if secs \<le> 0 \<or> price \<le> 0 then 0 else (home_size_gib * price * secs) sdiv seconds_per_month)"

text \<open>The same on 64-bit machine integers, as the source computes it.\<close>

definition storage_due64 :: "64 word \<Rightarrow> 64 word \<Rightarrow> 64 word" where
  "storage_due64 secs price =
     (if sint secs \<le> 0 \<or> sint price \<le> 0 then 0
      else word_of_int (sint (word_of_int home_size_gib * price * secs) sdiv seconds_per_month))"

definition storage_price_of :: "session_cfg \<Rightarrow> int" where
  "storage_price_of cf = (case cf_storage_price cf of None \<Rightarrow> 0 | Some p \<Rightarrow> p)"

definition home_pvc :: "string \<Rightarrow> string" where
  "home_pvc i = ''sh-'' @ i"

definition settle_storage :: "('w, 'l) session_svc \<Rightarrow> env \<Rightarrow> session \<Rightarrow> ('w, 'l) world \<Rightarrow> ('w, 'l) world" where
  "settle_storage sv e s w =
     (case s_stopped_since s of None \<Rightarrow> w
      | Some since \<Rightarrow>
          (let now = en_now e;
               el = trunc (dur_seconds (now - since));
               secs = s_stopped_secs s + (if el < 0 then 0 else el);
               price = storage_price_of (sv_cfg sv);
               tot = storage_due_of secs price;
               due = tot - s_storage_billed s;
               (wl, billed) =
                 (case sv_charger sv of None \<Rightarrow> (w_wallet w, s_storage_billed s)
                  | Some C \<Rightarrow>
                      if 0 < price \<and> 0 < due
                      then (let (wl', r) = ch_consume C (s_user s) (gid_of s) due (home_pvc (s_instance s)) (w_wallet w)
                            in (wl', if r = COk then tot else s_storage_billed s))
                      else (w_wallet w, s_storage_billed s))
           in fst (on_db (set_storage_billed (en_db e) (s_instance s) secs billed now) (w\<lparr>w_wallet := wl\<rparr>))))"

section \<open>One tick of the biller\<close>

definition bill_stopped_storage_once :: "('w, 'l) session_svc \<Rightarrow> env \<Rightarrow> ('w, 'l) world \<Rightarrow> ('w, 'l) world" where
  "bill_stopped_storage_once sv e w =
     (if en_db e SList ''stopped''
      then fold (\<lambda>s w. if s_stopped_since s = None
                       then fst (on_db (mark_stopped (en_db e) (s_instance s) (en_now e)) w)
                       else settle_storage sv e s w) (list_stopped (w_db w)) w
      else w)"

definition bill_once :: "('w, 'l) session_svc \<Rightarrow> env \<Rightarrow> ('w, 'l) world \<Rightarrow> ('w, 'l) world" where
  "bill_once sv e w =
     (if en_db e SList ''running''
      then bill_stopped_storage_once sv e (fold (\<lambda>s w. settle sv e s False w) (list_running (w_db w)) w)
      else w)"

section \<open>Frames\<close>

lemma on_db_simps [simp]:
  "w_db (fst (on_db f w)) = fst (f (w_db w))" "w_wallet (fst (on_db f w)) = w_wallet w"
  "w_leases (fst (on_db f w)) = w_leases w" "w_pods (fst (on_db f w)) = w_pods w"
  "w_svcs (fst (on_db f w)) = w_svcs w" "w_pvcs (fst (on_db f w)) = w_pvcs w"
  "w_audit (fst (on_db f w)) = w_audit w" "snd (on_db f w) = snd (f (w_db w))"
  by (simp_all add: on_db_def split: prod.split)

lemma audited_simps [simp]:
  "w_db (audited a t w) = w_db w" "w_wallet (audited a t w) = w_wallet w"
  "w_leases (audited a t w) = w_leases w" "w_pods (audited a t w) = w_pods w" "w_pvcs (audited a t w) = w_pvcs w"
  by (simp_all add: audited_def)

lemma delete_pod_simps [simp]:
  "w_db (fst (delete_pod e ns n w)) = w_db w" "w_wallet (fst (delete_pod e ns n w)) = w_wallet w"
  "w_leases (fst (delete_pod e ns n w)) = w_leases w" "w_pvcs (fst (delete_pod e ns n w)) = w_pvcs w"
  "snd (delete_pod e ns n w) = en_k8s e KDelPod n"
  by (simp_all add: delete_pod_def)

lemma delete_svc_simps [simp]:
  "w_db (fst (delete_svc e ns n w)) = w_db w" "w_wallet (fst (delete_svc e ns n w)) = w_wallet w"
  "w_leases (fst (delete_svc e ns n w)) = w_leases w" "w_pods (fst (delete_svc e ns n w)) = w_pods w"
  "w_pvcs (fst (delete_svc e ns n w)) = w_pvcs w"
  by (simp_all add: delete_svc_def split: prod.split)

lemma delete_pvc_simps [simp]:
  "w_db (fst (delete_pvc e ns n w)) = w_db w" "w_wallet (fst (delete_pvc e ns n w)) = w_wallet w"
  "w_leases (fst (delete_pvc e ns n w)) = w_leases w" "w_pods (fst (delete_pvc e ns n w)) = w_pods w"
  "snd (delete_pvc e ns n w) = en_k8s e KDelPvc n"
  by (simp_all add: delete_pvc_def)

lemma release_lease_of_simps [simp]:
  "w_db (release_lease_of sv i w) = w_db w" "w_wallet (release_lease_of sv i w) = w_wallet w"
  "w_pods (release_lease_of sv i w) = w_pods w" "w_pvcs (release_lease_of sv i w) = w_pvcs w"
  by (simp_all add: release_lease_of_def split: option.split)

lemma stop_for_billing_wallet [simp]: "w_wallet (stop_for_billing sv e s w) = w_wallet w"
  by (simp add: stop_for_billing_def Let_def)

lemma stop_for_billing_row:
  "session_of (w_db (stop_for_billing sv e s w)) j =
     (if j = s_instance s
      then map_option (\<lambda>r. (let r1 = (if \<not> ssh_env s \<and> en_db e SMarkStopped j then r\<lparr>s_stopped_since := Some (en_now e)\<rparr> else r)
                            in if en_db e SPhase j then r1\<lparr>s_phase := Stopped\<rparr> else r1)) (session_of (w_db w) j)
      else session_of (w_db w) j)"
  by (cases "session_of (w_db w) j") (auto simp: stop_for_billing_def Let_def)

lemma stop_for_billing_instances [simp]:
  "map s_instance (sessions (w_db (stop_for_billing sv e s w))) = map s_instance (sessions (w_db w))"
  by (simp add: stop_for_billing_def Let_def)

section \<open>What settling does to the accounts\<close>

definition billed_of :: "session_db \<Rightarrow> string \<Rightarrow> int" where
  "billed_of db i = (case session_of db i of None \<Rightarrow> 0 | Some s \<Rightarrow> s_billed s)"

definition storage_billed_of :: "session_db \<Rightarrow> string \<Rightarrow> int" where
  "storage_billed_of db i = (case session_of db i of None \<Rightarrow> 0 | Some s \<Rightarrow> s_storage_billed s)"

text \<open>Settling, case by case.\<close>

definition unsettled :: "session \<Rightarrow> time \<Rightarrow> int" where
  "unsettled s now =
     (if s_price s \<le> 0 then 0
      else case s_started s of None \<Rightarrow> 0 | Some t \<Rightarrow> total_due (s_price s) t now - s_billed s)"

lemma settle_cases:
  assumes "sv_charger sv = Some C"
    and "ch_consume C (s_user s) (gid_of s) (unsettled s (en_now e)) (s_instance s) (w_wallet w) = (wl, r)"
  shows "settle sv e s final w =
     (if unsettled s (en_now e) \<le> 0 then w
      else case r of
          CErr \<Rightarrow> w\<lparr>w_wallet := wl\<rparr>
        | CInsufficient \<Rightarrow> (if final then w\<lparr>w_wallet := wl\<rparr> else stop_for_billing sv e s (w\<lparr>w_wallet := wl\<rparr>))
        | COk \<Rightarrow>
            (let w2 = fst (on_db (set_billed (en_db e) (s_instance s) (s_billed s + unsettled s (en_now e))) (w\<lparr>w_wallet := wl\<rparr>));
                 secs = usage_seconds (unsettled s (en_now e)) (s_price s)
             in if 0 < secs
                then fst (on_db (record_gpu_usage (en_db e) (s_user s) (gid_of s) (s_instance s) secs (s_gpus s)) w2)
                else w2))"
proof (cases "s_price s \<le> 0")
  case True
  then show ?thesis using assms(1) by (simp add: settle_def unsettled_def)
next
  case False
  show ?thesis
  proof (cases "s_started s")
    case None
    then show ?thesis using assms(1) False by (simp add: settle_def unsettled_def)
  next
    case (Some t)
    have u: "unsettled s (en_now e) = total_due (s_price s) t (en_now e) - s_billed s"
      using False Some by (simp add: unsettled_def)
    show ?thesis
      using assms(2) unfolding settle_def assms(1) u Let_def option.case Some using False by (cases r) simp_all
  qed
qed

lemma settle_other_row: "j \<noteq> s_instance s \<Longrightarrow> session_of (w_db (settle sv e s final w)) j = session_of (w_db w) j"
proof (cases "sv_charger sv")
  case None
  then show ?thesis by (simp add: settle_def)
next
  case (Some C)
  assume j: "j \<noteq> s_instance s"
  obtain wl r where c: "ch_consume C (s_user s) (gid_of s) (unsettled s (en_now e)) (s_instance s) (w_wallet w) = (wl, r)"
    by fastforce
  show ?thesis
    unfolding settle_cases [OF Some c] using j by (cases r) (auto simp: stop_for_billing_row Let_def)
qed

lemma settle_instances [simp]: "map s_instance (sessions (w_db (settle sv e s final w))) = map s_instance (sessions (w_db w))"
proof (cases "sv_charger sv")
  case None
  then show ?thesis by (simp add: settle_def)
next
  case (Some C)
  obtain wl r where c: "ch_consume C (s_user s) (gid_of s) (unsettled s (en_now e)) (s_instance s) (w_wallet w) = (wl, r)"
    by fastforce
  show ?thesis unfolding settle_cases [OF Some c] by (cases r) (auto simp: Let_def)
qed

context charging
begin

text \<open>What has been charged under the session's own reference and not recorded in its row.\<close>

definition gap :: "('w, 'l) world \<Rightarrow> string \<Rightarrow> int" where
  "gap w i = acct (w_wallet w) i - billed_of (w_db w) i"

definition home_gap :: "('w, 'l) world \<Rightarrow> string \<Rightarrow> int" where
  "home_gap w i = acct (w_wallet w) (home_pvc i) - storage_billed_of (w_db w) i"

lemma settle_accounts:
  fixes final :: bool
  assumes C: "sv_charger sv = Some C" and row: "session_of (w_db w) (s_instance s) = Some s"
    and ok: "en_db e SBilled (s_instance s)"
  defines "w' \<equiv> settle sv e s final w"
  shows "acct (w_wallet w') i - acct (w_wallet w) i = billed_of (w_db w') i - billed_of (w_db w) i \<or>
           (i \<noteq> s_instance s \<and> acct (w_wallet w') i = acct (w_wallet w) i)"
    and "i \<noteq> s_instance s \<Longrightarrow> acct (w_wallet w') i = acct (w_wallet w) i"
    and "billed_of (w_db w') (s_instance s) \<in> {s_billed s, s_billed s + unsettled s (en_now e)}"
    and "s_billed s \<le> billed_of (w_db w') (s_instance s)"
    and "storage_billed_of (w_db w') i = storage_billed_of (w_db w) i"
proof -
  obtain wl r where c: "ch_consume C (s_user s) (gid_of s) (unsettled s (en_now e)) (s_instance s) (w_wallet w) = (wl, r)"
    by fastforce
  note a = consume_account [OF c]
  show "i \<noteq> s_instance s \<Longrightarrow> acct (w_wallet w') i = acct (w_wallet w) i"
    unfolding w'_def settle_cases [OF C c] using a [of i] by (cases r) (auto simp: Let_def)
  show "acct (w_wallet w') i - acct (w_wallet w) i = billed_of (w_db w') i - billed_of (w_db w) i \<or>
           (i \<noteq> s_instance s \<and> acct (w_wallet w') i = acct (w_wallet w) i)"
    unfolding w'_def settle_cases [OF C c] using a [of i] row ok
    by (cases r) (auto simp: Let_def billed_of_def stop_for_billing_row)
  show "billed_of (w_db w') (s_instance s) \<in> {s_billed s, s_billed s + unsettled s (en_now e)}"
    unfolding w'_def settle_cases [OF C c] using row ok
    by (cases r) (auto simp: Let_def billed_of_def stop_for_billing_row)
  show "s_billed s \<le> billed_of (w_db w') (s_instance s)"
    unfolding w'_def settle_cases [OF C c] using row ok
    by (cases r) (auto simp: Let_def billed_of_def stop_for_billing_row)
  show "storage_billed_of (w_db w') i = storage_billed_of (w_db w) i"
    unfolding w'_def settle_cases [OF C c] using row ok
    by (cases r; cases "i = s_instance s") (auto simp: Let_def storage_billed_of_def stop_for_billing_row split: option.split)
qed

end

section \<open>What settling a stopped home does\<close>

definition stopped_total :: "session \<Rightarrow> time \<Rightarrow> int" where
  "stopped_total s now =
     (case s_stopped_since s of None \<Rightarrow> s_stopped_secs s
      | Some t \<Rightarrow> s_stopped_secs s + max 0 (trunc (dur_seconds (now - t))))"

definition storage_unsettled :: "session_cfg \<Rightarrow> session \<Rightarrow> time \<Rightarrow> int" where
  "storage_unsettled cf s now = storage_due_of (stopped_total s now) (storage_price_of cf) - s_storage_billed s"

lemma settle_storage_cases:
  assumes "s_stopped_since s = Some t" "sv_charger sv = Some C"
    and "ch_consume C (s_user s) (gid_of s) (storage_unsettled (sv_cfg sv) s (en_now e)) (home_pvc (s_instance s)) (w_wallet w) = (wl, r)"
  shows "settle_storage sv e s w =
     (if 0 < storage_price_of (sv_cfg sv) \<and> 0 < storage_unsettled (sv_cfg sv) s (en_now e)
      then fst (on_db (set_storage_billed (en_db e) (s_instance s) (stopped_total s (en_now e))
             (if r = COk then s_storage_billed s + storage_unsettled (sv_cfg sv) s (en_now e) else s_storage_billed s) (en_now e))
             (w\<lparr>w_wallet := wl\<rparr>))
      else fst (on_db (set_storage_billed (en_db e) (s_instance s) (stopped_total s (en_now e)) (s_storage_billed s) (en_now e)) w))"
proof -
  have m: "(if x < 0 then 0 else x) = max 0 x" for x :: int by (simp add: max_def)
  have st: "s_stopped_secs s + max 0 (trunc (dur_seconds (en_now e - t))) = stopped_total s (en_now e)"
    by (simp add: stopped_total_def assms(1))
  have u: "storage_due_of (stopped_total s (en_now e)) (storage_price_of (sv_cfg sv)) - s_storage_billed s =
      storage_unsettled (sv_cfg sv) s (en_now e)" by (simp add: storage_unsettled_def)
  have v: "storage_due_of (stopped_total s (en_now e)) (storage_price_of (sv_cfg sv)) =
      s_storage_billed s + storage_unsettled (sv_cfg sv) s (en_now e)" by (simp add: storage_unsettled_def)
  show ?thesis
    unfolding settle_storage_def assms(1,2) option.case Let_def m st u assms(3) unfolding v
    by simp
qed

lemma settle_storage_no_charger:
  assumes "s_stopped_since s = Some t" "sv_charger sv = None"
  shows "settle_storage sv e s w =
    fst (on_db (set_storage_billed (en_db e) (s_instance s) (stopped_total s (en_now e)) (s_storage_billed s) (en_now e)) w)"
  using assms by (simp add: settle_storage_def Let_def stopped_total_def max_def)

lemma settle_storage_running [simp]: "s_stopped_since s = None \<Longrightarrow> settle_storage sv e s w = w"
  by (simp add: settle_storage_def)

lemma settle_storage_split:
  obtains "s_stopped_since s = None" "settle_storage sv e s w = w"
  | t wl n where "s_stopped_since s = Some t" "settle_storage sv e s w =
      fst (on_db (set_storage_billed (en_db e) (s_instance s) (stopped_total s (en_now e)) n (en_now e)) (w\<lparr>w_wallet := wl\<rparr>))"
proof (cases "s_stopped_since s")
  case None
  then show thesis using that(1) by simp
next
  case (Some t)
  show thesis
  proof (cases "sv_charger sv")
    case None
    have "w\<lparr>w_wallet := w_wallet w\<rparr> = w" by simp
    then show thesis using that(2) [OF Some] settle_storage_no_charger [OF Some None] by metis
  next
    case (Some C)
    obtain wl r where c: "ch_consume C (s_user s) (gid_of s) (storage_unsettled (sv_cfg sv) s (en_now e))
        (home_pvc (s_instance s)) (w_wallet w) = (wl, r)" by fastforce
    have "w\<lparr>w_wallet := w_wallet w\<rparr> = w" by simp
    then show thesis using that(2) [OF \<open>s_stopped_since s = Some t\<close>]
        settle_storage_cases [OF \<open>s_stopped_since s = Some t\<close> Some c] by metis
  qed
qed

lemma settle_storage_row:
  "session_of (w_db (settle_storage sv e s w)) j =
     (if j = s_instance s \<and> s_stopped_since s \<noteq> None \<and> en_db e SStorage j
      then map_option (\<lambda>r. r\<lparr>s_stopped_secs := stopped_total s (en_now e),
             s_storage_billed := storage_billed_of (w_db (settle_storage sv e s w)) j,
             s_stopped_since := Some (en_now e)\<rparr>) (session_of (w_db w) j)
      else session_of (w_db w) j)"
  by (rule settle_storage_split [of s sv e w])
    (auto simp: storage_billed_of_def split: option.splits)

lemma settle_storage_instances [simp]:
  "map s_instance (sessions (w_db (settle_storage sv e s w))) = map s_instance (sessions (w_db w))"
  by (rule settle_storage_split [of s sv e w]) auto

context charging
begin

lemma settle_storage_accounts:
  assumes C: "sv_charger sv = Some C" and row: "session_of (w_db w) (s_instance s) = Some s"
    and ok: "en_db e SStorage (s_instance s)"
  shows "acct (w_wallet (settle_storage sv e s w)) i =
      acct (w_wallet w) i + (if i = home_pvc (s_instance s)
        then storage_billed_of (w_db (settle_storage sv e s w)) (s_instance s) - s_storage_billed s else 0)"
    and "storage_billed_of (w_db (settle_storage sv e s w)) (s_instance s) \<in>
      {s_storage_billed s, s_storage_billed s + storage_unsettled (sv_cfg sv) s (en_now e)}"
    and "s_storage_billed s \<le> storage_billed_of (w_db (settle_storage sv e s w)) (s_instance s)"
    and "billed_of (w_db (settle_storage sv e s w)) i = billed_of (w_db w) i"
proof -
  show "billed_of (w_db (settle_storage sv e s w)) i = billed_of (w_db w) i"
    unfolding billed_of_def settle_storage_row by (auto split: option.split)
  have "acct (w_wallet (settle_storage sv e s w)) i =
      acct (w_wallet w) i + (if i = home_pvc (s_instance s)
        then storage_billed_of (w_db (settle_storage sv e s w)) (s_instance s) - s_storage_billed s else 0) \<and>
    storage_billed_of (w_db (settle_storage sv e s w)) (s_instance s) \<in>
      {s_storage_billed s, s_storage_billed s + storage_unsettled (sv_cfg sv) s (en_now e)} \<and>
    s_storage_billed s \<le> storage_billed_of (w_db (settle_storage sv e s w)) (s_instance s)"
  proof (cases "s_stopped_since s")
    case None
    then show ?thesis using row by (simp add: storage_billed_of_def)
  next
    case (Some t)
    obtain wl r where c: "ch_consume C (s_user s) (gid_of s) (storage_unsettled (sv_cfg sv) s (en_now e))
        (home_pvc (s_instance s)) (w_wallet w) = (wl, r)" by fastforce
    show ?thesis
      unfolding settle_storage_cases [OF Some C c] using consume_account [OF c, of i] row ok
      by (auto simp: storage_billed_of_def)
  qed
  then show "acct (w_wallet (settle_storage sv e s w)) i =
      acct (w_wallet w) i + (if i = home_pvc (s_instance s)
        then storage_billed_of (w_db (settle_storage sv e s w)) (s_instance s) - s_storage_billed s else 0)"
    "storage_billed_of (w_db (settle_storage sv e s w)) (s_instance s) \<in>
      {s_storage_billed s, s_storage_billed s + storage_unsettled (sv_cfg sv) s (en_now e)}"
    "s_storage_billed s \<le> storage_billed_of (w_db (settle_storage sv e s w)) (s_instance s)"
    by blast+
qed

lemma settle_gap:
  assumes "sv_charger sv = Some C" "session_of (w_db w) (s_instance s) = Some s" "en_db e SBilled (s_instance s)"
    and "\<And>j. home_pvc j \<noteq> s_instance s"
  shows "gap (settle sv e s final w) i = gap w i" "home_gap (settle sv e s final w) i = home_gap w i"
proof -
  note a = settle_accounts [OF assms(1-3), where final = final]
  show "home_gap (settle sv e s final w) i = home_gap w i"
    using a(2) [of "home_pvc i"] a(5) [of i] assms(4) [of i] by (simp add: home_gap_def)
  show "gap (settle sv e s final w) i = gap w i"
  proof (cases "i = s_instance s")
    case True
    then show ?thesis using a(1) [of i] by (simp add: gap_def)
  next
    case False
    then show ?thesis using a(2) [of i] by (simp add: gap_def billed_of_def settle_other_row [OF False])
  qed
qed

lemma home_pvc_inject [simp]: "home_pvc i = home_pvc j \<longleftrightarrow> i = j"
  by (simp add: home_pvc_def)

lemma settle_storage_gap:
  assumes "sv_charger sv = Some C" "session_of (w_db w) (s_instance s) = Some s" "en_db e SStorage (s_instance s)"
    and "home_pvc (s_instance s) \<noteq> i"
  shows "gap (settle_storage sv e s w) i = gap w i" "home_gap (settle_storage sv e s w) j = home_gap w j"
proof -
  note a = settle_storage_accounts [OF assms(1-3)]
  show "gap (settle_storage sv e s w) i = gap w i"
    using a(1) [of i] a(4) [of i] assms(4) by (auto simp: gap_def)
  show "home_gap (settle_storage sv e s w) j = home_gap w j"
  proof (cases "j = s_instance s")
    case True
    then show ?thesis using a(1) [of "home_pvc j"] assms(2) by (simp add: home_gap_def storage_billed_of_def)
  next
    case False
    then show ?thesis using a(1) [of "home_pvc j"] by (simp add: home_gap_def storage_billed_of_def settle_storage_row)
  qed
qed

end

section \<open>A tick over all sessions\<close>

text \<open>Every session settled by the tick sees its own row as it was read at the start.\<close>

definition rows_current :: "session list \<Rightarrow> session_db \<Rightarrow> bool" where
  "rows_current ss db \<longleftrightarrow> distinct (map s_instance ss) \<and> (\<forall>s \<in> set ss. session_of db (s_instance s) = Some s)"

lemma rows_current_filter: "instances_distinct db \<Longrightarrow> rows_current (filter P (sessions db)) db"
  unfolding rows_current_def instances_distinct_def keys_distinct_def
  by (auto simp: distinct_map_filter session_of_member instances_distinct_def keys_distinct_def)

lemma instances_distinct_cong: "map s_instance (sessions db') = map s_instance (sessions db) \<Longrightarrow>
    instances_distinct db' = instances_distinct db"
  by (simp add: instances_distinct_def keys_distinct_def)

lemma rows_current_Cons:
  "rows_current (s # ss) db \<Longrightarrow> (\<And>j. j \<noteq> s_instance s \<Longrightarrow> session_of db' j = session_of db j) \<Longrightarrow> rows_current ss db'"
  unfolding rows_current_def by (simp, metis image_eqI)

definition storage_tick :: "('w, 'l) session_svc \<Rightarrow> env \<Rightarrow> session \<Rightarrow> ('w, 'l) world \<Rightarrow> ('w, 'l) world" where
  "storage_tick sv e s w =
     (if s_stopped_since s = None then fst (on_db (mark_stopped (en_db e) (s_instance s) (en_now e)) w)
      else settle_storage sv e s w)"

lemma bill_stopped_eq:
  "bill_stopped_storage_once sv e w =
     (if en_db e SList ''stopped'' then fold (storage_tick sv e) (list_stopped (w_db w)) w else w)"
  unfolding bill_stopped_storage_once_def storage_tick_def [abs_def] ..

lemma storage_tick_other: "j \<noteq> s_instance s \<Longrightarrow> session_of (w_db (storage_tick sv e s w)) j = session_of (w_db w) j"
  by (simp add: storage_tick_def settle_storage_row)

lemma storage_tick_instances [simp]:
  "map s_instance (sessions (w_db (storage_tick sv e s w))) = map s_instance (sessions (w_db w))"
  by (simp add: storage_tick_def)

lemma fold_settle_instances [simp]:
  "map s_instance (sessions (w_db (fold (\<lambda>s. settle sv e s b) ss w))) = map s_instance (sessions (w_db w))"
  by (induction ss arbitrary: w) auto

lemma fold_storage_instances [simp]:
  "map s_instance (sessions (w_db (fold (storage_tick sv e) ss w))) = map s_instance (sessions (w_db w))"
  by (induction ss arbitrary: w) auto

lemma bill_once_instances [simp]:
  "map s_instance (sessions (w_db (bill_once sv e w))) = map s_instance (sessions (w_db w))"
  by (simp add: bill_once_def bill_stopped_eq)

text \<open>The references of stopped homes are not names of sessions.\<close>

definition plain_instances :: "session_db \<Rightarrow> bool" where
  "plain_instances db \<longleftrightarrow> instances_distinct db \<and> (\<forall>i \<in> s_instance ` set (sessions db). \<not> has_prefix ''sh-'' i)"

lemma plain_instances_cong: "map s_instance (sessions db') = map s_instance (sessions db) \<Longrightarrow>
    plain_instances db' = plain_instances db"
  using instances_distinct_cong [of db' db] unfolding plain_instances_def
  by (metis list.set_map)

lemma plain_not_home: "plain_instances db \<Longrightarrow> s \<in> set (sessions db) \<Longrightarrow> home_pvc j \<noteq> s_instance s"
proof
  assume "plain_instances db" "s \<in> set (sessions db)" "home_pvc j = s_instance s"
  then have "\<not> has_prefix ''sh-'' (home_pvc j)" unfolding plain_instances_def by (metis image_eqI)
  then show False by (simp add: home_pvc_def has_prefix_def)
qed

text \<open>All statements of the tick that record a charge go through.\<close>

definition records_ok :: "env \<Rightarrow> bool" where
  "records_ok e \<longleftrightarrow> (\<forall>i. en_db e SBilled i \<and> en_db e SStorage i)"

context charging
begin

lemma fold_settle_gap:
  assumes "sv_charger sv = Some C" "records_ok e"
  shows "rows_current ss (w_db w) \<Longrightarrow> (\<forall>s \<in> set ss. \<forall>j. home_pvc j \<noteq> s_instance s) \<Longrightarrow>
    gap (fold (\<lambda>s. settle sv e s b) ss w) i = gap w i \<and> home_gap (fold (\<lambda>s. settle sv e s b) ss w) i = home_gap w i"
proof (induction ss arbitrary: w)
  case (Cons s ss)
  have row: "session_of (w_db w) (s_instance s) = Some s" using Cons.prems(1) by (simp add: rows_current_def)
  have ok: "en_db e SBilled (s_instance s)" using assms(2) by (simp add: records_ok_def)
  have h: "home_pvc j \<noteq> s_instance s" for j using Cons.prems(2) by simp
  have "rows_current ss (w_db (settle sv e s b w))"
    by (rule rows_current_Cons [OF Cons.prems(1)]) (rule settle_other_row)
  then show ?case
    using Cons.IH [of "settle sv e s b w"] Cons.prems(2) settle_gap [OF assms(1) row ok h, of b i] by simp
qed simp

lemma storage_tick_gap:
  assumes "sv_charger sv = Some C" "records_ok e" "session_of (w_db w) (s_instance s) = Some s"
    and "home_pvc (s_instance s) \<noteq> i"
  shows "gap (storage_tick sv e s w) i = gap w i" "home_gap (storage_tick sv e s w) j = home_gap w j"
proof -
  have ok: "en_db e SStorage (s_instance s)" using assms(2) by (simp add: records_ok_def)
  show "gap (storage_tick sv e s w) i = gap w i"
    using settle_storage_gap(1) [OF assms(1,3) ok assms(4)]
    by (auto simp: storage_tick_def gap_def billed_of_def split: option.split)
  show "home_gap (storage_tick sv e s w) j = home_gap w j"
    using settle_storage_gap(2) [OF assms(1,3) ok assms(4), of j]
    by (auto simp: storage_tick_def home_gap_def storage_billed_of_def split: option.split)
qed

lemma fold_storage_gap:
  assumes "sv_charger sv = Some C" "records_ok e"
  shows "rows_current ss (w_db w) \<Longrightarrow> (\<forall>s \<in> set ss. home_pvc (s_instance s) \<noteq> i) \<Longrightarrow>
    gap (fold (storage_tick sv e) ss w) i = gap w i \<and> home_gap (fold (storage_tick sv e) ss w) j = home_gap w j"
proof (induction ss arbitrary: w)
  case (Cons s ss)
  have row: "session_of (w_db w) (s_instance s) = Some s" using Cons.prems(1) by (simp add: rows_current_def)
  have "rows_current ss (w_db (storage_tick sv e s w))"
    by (rule rows_current_Cons [OF Cons.prems(1)]) (rule storage_tick_other)
  then show ?case
    using Cons.IH [of "storage_tick sv e s w"] Cons.prems(2)
      storage_tick_gap(1) [OF assms(1,2) row, of i] storage_tick_gap(2) [OF assms(1,2) row, of i j] by simp
qed simp

lemma bill_once_gap:
  assumes "sv_charger sv = Some C" "records_ok e" "plain_instances (w_db w)" "\<not> has_prefix ''sh-'' i"
  shows "gap (bill_once sv e w) i = gap w i" "home_gap (bill_once sv e w) j = home_gap w j"
proof -
  let ?w1 = "fold (\<lambda>s. settle sv e s False) (list_running (w_db w)) w"
  have d: "instances_distinct (w_db w)" using assms(3) by (simp add: plain_instances_def)
  have d1: "instances_distinct (w_db ?w1)"
    by (rule instances_distinct_cong [THEN iffD2, OF fold_settle_instances d])
  have r: "rows_current (list_running (w_db w)) (w_db w)" "rows_current (list_stopped (w_db ?w1)) (w_db ?w1)"
    using rows_current_filter [OF d] rows_current_filter [OF d1] by (simp_all only: list_running_def list_stopped_def)
  have h: "\<forall>s \<in> set (list_running (w_db w)). \<forall>j. home_pvc j \<noteq> s_instance s"
    using plain_not_home [OF assms(3)] by (simp add: list_running_def)
  have n: "\<forall>s \<in> set (list_stopped (w_db ?w1)). home_pvc (s_instance s) \<noteq> i"
    using assms(4) by (auto simp: home_pvc_def has_prefix_def)
  show "gap (bill_once sv e w) i = gap w i" "home_gap (bill_once sv e w) j = home_gap w j"
    using fold_settle_gap [OF assms(1,2) r(1) h, of False] fold_storage_gap [OF assms(1,2) r(2) n]
    by (simp_all add: bill_once_def bill_stopped_eq)
qed

lemma bill_ticks_gap:
  assumes "sv_charger sv = Some C" "\<not> has_prefix ''sh-'' i"
  shows "\<forall>e \<in> set es. records_ok e \<Longrightarrow> plain_instances (w_db w) \<Longrightarrow>
    gap (fold (bill_once sv) es w) i = gap w i \<and> home_gap (fold (bill_once sv) es w) j = home_gap w j"
proof (induction es arbitrary: w)
  case (Cons e es)
  have p: "plain_instances (w_db (bill_once sv e w))"
    using Cons.prems(2) plain_instances_cong [of "w_db (bill_once sv e w)" "w_db w"] by simp
  have e: "records_ok e" using Cons.prems(1) by simp
  show ?case
    using Cons.IH [of "bill_once sv e w"] Cons.prems p bill_once_gap(1) [OF assms(1) e Cons.prems(2) assms(2)]
      bill_once_gap(2) [OF assms(1) e Cons.prems(2) assms(2), of j] by simp
qed simp

end

end
