(* ===== verification/Session_Provision.thy ===== *)
theory Session_Provision
  imports Session_Billing
begin

text \<open>
  Everything between a reserved session and its running pod (\<open>internal/session/service.go\<close>): the
  homes, the mounts and the datasets it gets, its channels and services, and \<open>provision\<close> itself; and
  the cleaning up of what it shared. Creating an object that exists succeeds and leaves it as it is.
  The pod is the one \<open>internal/k8s/mapper.go\<close> builds.
\<close>

section \<open>Channels and services\<close>

definition channels_of :: "catalog \<Rightarrow> int \<Rightarrow> image_channels" where
  "channels_of ct i = (case map_of (ct_channels ct) i of Some c \<Rightarrow> c
     | None \<Rightarrow> \<lparr>ic_vscode = False, ic_jupyter = False, ic_ssh = False, ic_web = None\<rparr>)"

definition vscode_channel :: "string \<Rightarrow> web_channel" where
  "vscode_channel secret = \<lparr>wc_name = ''vscode'', wc_port = 8080, wc_env = ''PASSWORD'', wc_secret = secret\<rparr>"

definition web_channels_for :: "image_channels \<Rightarrow> string \<Rightarrow> web_channel list" where
  "web_channels_for ch secret =
     (let out = (if ic_vscode ch then [vscode_channel secret] else []) @
            (if ic_jupyter ch
             then [\<lparr>wc_name = ''jupyter'', wc_port = 8888, wc_env = ''JUPYTER_TOKEN'', wc_secret = secret\<rparr>] else []) @
            (case ic_web ch of None \<Rightarrow> []
             | Some (name, port) \<Rightarrow> if 0 < port
                 then [\<lparr>wc_name = (if name = [] then ''web'' else name), wc_port = port, wc_env = [], wc_secret = []\<rparr>] else [])
      in if out = [] \<and> \<not> (ic_vscode ch \<or> ic_jupyter ch \<or> ic_ssh ch \<or> ic_web ch \<noteq> None)
         then [vscode_channel secret] else out)"

definition session_channels :: "catalog \<Rightarrow> int option \<Rightarrow> string \<Rightarrow> web_channel list" where
  "session_channels ct img secret =
     (case img of
        None \<Rightarrow> web_channels_for \<lparr>ic_vscode = True, ic_jupyter = False, ic_ssh = False, ic_web = None\<rparr> secret
      | Some i \<Rightarrow> web_channels_for (channels_of ct i) secret)"

definition container_ssh :: "session_cfg \<Rightarrow> bool" where
  "container_ssh cf \<longleftrightarrow> cf_sshd cf \<noteq> []"

definition svc_ports :: "session_cfg \<Rightarrow> web_channel list \<Rightarrow> svc_port list" where
  "svc_ports cf chs =
     map (\<lambda>c. \<lparr>sq_name = (if wc_name c = ''vscode'' then ''web'' else wc_name c), sq_port = wc_port c\<rparr>) chs @
     (if container_ssh cf then [\<lparr>sq_name = ''ssh'', sq_port = 22\<rparr>] else [])"

definition expose_mode :: "session_cfg \<Rightarrow> string" where
  "expose_mode cf = (if cf_expose cf = ''loadbalancer'' then ''loadbalancer'' else ''nodeport'')"

definition username_of :: "catalog \<Rightarrow> int \<Rightarrow> string" where
  "username_of ct u =
     (case map_of (ct_users ct) u of Some n \<Rightarrow> if n \<noteq> [] then n else ''user'' @ dec u | None \<Rightarrow> ''user'' @ dec u)"

definition scratch_host_of :: "session_cfg \<Rightarrow> catalog \<Rightarrow> int \<Rightarrow> string" where
  "scratch_host_of cf ct u = (if cf_scratch cf = [] then [] else cf_scratch cf @ ''/'' @ username_of ct u)"

definition ephemeral_gib :: "session_cfg \<Rightarrow> int \<Rightarrow> int" where
  "ephemeral_gib cf u = (case cf_limits cf of None \<Rightarrow> 0 | Some r \<Rightarrow> max_ephemeral_gib (resolve r u))"

definition session_labels :: "session \<Rightarrow> (string \<times> string) list" where
  "session_labels s =
     [(''managed-by'', ''giosk-system''), (''giosk.io/session'', s_instance s), (''giosk.io/user'', dec (s_user s))] @
     (case s_group s of None \<Rightarrow> [] | Some g \<Rightarrow> [(''giosk.io/group'', dec g)])"

definition user_keys_secret :: "int \<Rightarrow> string" where
  "user_keys_secret u = ''giosk-sshkeys-'' @ dec u"

definition cached_nodes :: "catalog \<Rightarrow> int \<Rightarrow> string list" where
  "cached_nodes ct i = map snd (filter (\<lambda>(j, _). j = i) (ct_cached ct))"

section \<open>Objects of the cluster\<close>

definition create_pvc :: "env \<Rightarrow> string \<Rightarrow> string \<Rightarrow> ('w, 'l) world \<Rightarrow> ('w, 'l) world \<times> bool" where
  "create_pvc e ns n w =
     (if en_k8s e KNamespace ns \<and> en_k8s e KPvc n then (w\<lparr>w_pvcs := insert (ns, n) (w_pvcs w)\<rparr>, True) else (w, False))"

definition ensure_shared_pvc :: "env \<Rightarrow> string \<Rightarrow> string \<Rightarrow> ('w, 'l) world \<Rightarrow> ('w, 'l) world \<times> bool" where
  "ensure_shared_pvc e ns n w =
     (if en_k8s e KNamespace ns \<and> en_k8s e KSharedPvc n then (w\<lparr>w_pvcs := insert (ns, n) (w_pvcs w)\<rparr>, True) else (w, False))"

definition delete_shared_pvc :: "env \<Rightarrow> string \<Rightarrow> string \<Rightarrow> ('w, 'l) world \<Rightarrow> ('w, 'l) world" where
  "delete_shared_pvc e ns n w =
     (if en_k8s e KDelSharedPvc n then w\<lparr>w_pvcs := w_pvcs w - {(ns, n)}\<rparr> else w)"

definition create_pod :: "session_cfg \<Rightarrow> env \<Rightarrow> session_spec \<Rightarrow> ('w, 'l) world \<Rightarrow> ('w, 'l) world \<times> bool" where
  "create_pod cf e sp w =
     (if \<not> en_k8s e KPod (sp_name sp) then (w, False)
      else case w_pods w (sp_ns sp, sp_name sp) of
          Some _ \<Rightarrow> (w, True)
        | None \<Rightarrow> (w\<lparr>w_pods := (w_pods w)((sp_ns sp, sp_name sp) \<mapsto> build_pod sp (cf_gpu_label cf))\<rparr>, True))"

definition apply_egress :: "session_cfg \<Rightarrow> env \<Rightarrow> string \<Rightarrow> ('w, 'l) world \<Rightarrow> ('w, 'l) world" where
  "apply_egress cf e ns w =
     (let (deny, allow, dns) = cf_egress cf
      in if deny = [] then w
         else w\<lparr>w_policies := fst (ensure_egress (en_k8s e KEgress)
                  \<lparr>eg_ns = ns, eg_deny = deny, eg_allow = allow, eg_dns = dns\<rparr> (w_policies w))\<rparr>)"

section \<open>Homes and mounts\<close>

definition ensure_session_home :: "env \<Rightarrow> string \<Rightarrow> session \<Rightarrow> ('w, 'l) world \<Rightarrow> ('w, 'l) world \<times> string option" where
  "ensure_session_home e ns s w =
     (let n = home_pvc (s_instance s); (w', ok) = create_pvc e ns n w in (w', if ok then Some n else None))"

definition user_home :: "int \<Rightarrow> string" where
  "user_home u = ''home-'' @ dec u"

definition ensure_home :: "env \<Rightarrow> string \<Rightarrow> int \<Rightarrow> ('w, 'l) world \<Rightarrow> ('w, 'l) world \<times> string option" where
  "ensure_home e ns u w =
     (let n = user_home u; (w', ok) = create_pvc e ns n w in (w', if ok then Some n else None))"

definition node_of :: "live_node list option \<Rightarrow> string \<Rightarrow> live_node option" where
  "node_of cl n = (case cl of None \<Rightarrow> None | Some l \<Rightarrow> find (\<lambda>x. ln_name x = n) l)"

definition node_spec :: "live_node list option \<Rightarrow> string \<Rightarrow> string \<times> int" where
  "node_spec cl n =
     (case node_of cl n of None \<Rightarrow> ([], 0)
      | Some x \<Rightarrow> (ln_gpu_type x, case parse_int64 (ln_gpu_capacity x) of None \<Rightarrow> 0 | Some c \<Rightarrow> c))"

definition node_ready :: "live_node list option \<Rightarrow> string \<Rightarrow> bool" where
  "node_ready cl n = (case node_of cl n of None \<Rightarrow> False | Some x \<Rightarrow> ln_ready x)"

definition resolve_local_home :: "session_cfg \<Rightarrow> env \<Rightarrow> int \<Rightarrow> string \<Rightarrow> string \<Rightarrow> session_error + mount_spec" where
  "resolve_local_home cf e u uname node =
     (if \<not> cf_local_home_on cf \<or> cf_local_home_host cf = [] then Inl LocalHomeUnavailable
      else if \<not> user_leased_node (en_cat e) u node then Inl LocalHomeForbidden
      else if \<not> node_ready (en_cl e) node then Inl LocalHomeUnavailable
      else Inr \<lparr>ms_pvc = [], ms_host = cf_local_home_host cf @ ''/'' @ uname, ms_empty = False,
                ms_path = home_mount, ms_ro = False\<rparr>)"

text \<open>\<open>mountFor\<close> carried out: a shared volume is copied into the session's namespace first.\<close>

definition mount_one :: "env \<Rightarrow> string \<Rightarrow> int \<Rightarrow> int \<Rightarrow> string \<Rightarrow> ('w, 'l) world \<Rightarrow> ('w, 'l) world \<times> mount_spec list" where
  "mount_one e ns u vid path w =
     (case mount_for (en_vols e) (en_nfs e) {p \<in> w_pvcs w. en_k8s e KGetPvc (snd p)} ns u vid path of
        NoMount \<Rightarrow> (w, [])
      | OwnPvc m \<Rightarrow> (w, [m])
      | SharedPvc pvc m \<Rightarrow> (let (w', ok) = ensure_shared_pvc e ns pvc w in (w', if ok then [m] else [])))"

fun mount_all :: "env \<Rightarrow> string \<Rightarrow> int \<Rightarrow> vol_mount list \<Rightarrow> ('w, 'l) world \<Rightarrow> ('w, 'l) world \<times> mount_spec list" where
  "mount_all e ns u [] w = (w, [])"
| "mount_all e ns u (v # vs) w =
     (let (w1, m) = mount_one e ns u (vm_id v) (vm_path v) w; (w2, ms) = mount_all e ns u vs w1 in (w2, m @ ms))"

definition restart_mounts :: "env \<Rightarrow> string \<Rightarrow> int \<Rightarrow> int \<Rightarrow> ('w, 'l) world \<Rightarrow> ('w, 'l) world \<times> mount_spec list" where
  "restart_mounts e ns u sid w = mount_all e ns u (session_volume_mounts sid (w_db w)) w"

definition dataset_one :: "env \<Rightarrow> string \<Rightarrow> placement option \<Rightarrow> string \<Rightarrow> int \<Rightarrow> ('w, 'l) world \<Rightarrow> ('w, 'l) world \<times> mount_spec list" where
  "dataset_one e ns pl target d w =
     (case dataset_plan_for (en_vols e) (en_nfs e) pl target d of
        NoDataset \<Rightarrow> (w, [])
      | FromHost m \<Rightarrow> (w, [m])
      | FromNfs pvc m \<Rightarrow> (let (w', ok) = ensure_shared_pvc e ns pvc w in (w', if ok then [m] else [])))"

fun resolve_datasets :: "env \<Rightarrow> string \<Rightarrow> int list \<Rightarrow> string \<Rightarrow> placement option \<Rightarrow> ('w, 'l) world \<Rightarrow> ('w, 'l) world \<times> mount_spec list" where
  "resolve_datasets e ns [] target pl w = (w, [])"
| "resolve_datasets e ns (d # ds) target pl w =
     (let (w1, m) = dataset_one e ns pl target d w; (w2, ms) = resolve_datasets e ns ds target pl w1 in (w2, m @ ms))"

text \<open>The rows recording what a session mounts; the permission stored is the server's.\<close>

definition attach_volumes :: "env \<Rightarrow> int \<Rightarrow> int \<Rightarrow> vol_mount list \<Rightarrow> session_db \<Rightarrow> session_db" where
  "attach_volumes e sid u vs =
     fold (\<lambda>v db. case volume_access (en_vols e) (vm_id v) u of None \<Rightarrow> db
        | Some acc \<Rightarrow> fst (add_volume (en_attach e) sid (vm_id v) (vm_path v) (va_perm acc) db)) vs"

definition attach_mounts :: "env \<Rightarrow> int \<Rightarrow> int \<Rightarrow> vol_mount list \<Rightarrow> int list \<Rightarrow> ('w, 'l) world \<Rightarrow> ('w, 'l) world" where
  "attach_mounts e sid u vs ds w =
     w\<lparr>w_db := fold (\<lambda>d db. fst (add_dataset (en_attach e) sid d [] db)) ds (attach_volumes e sid u vs (w_db w))\<rparr>"

section \<open>Provisioning\<close>

definition pod_spec_of ::
  "session_cfg \<Rightarrow> catalog \<Rightarrow> string \<Rightarrow> session \<Rightarrow> string \<Rightarrow> mount_spec list \<Rightarrow> string list \<Rightarrow> string \<Rightarrow> session_spec" where
  "pod_spec_of cf ct ns s img mounts prefer require =
     \<lparr>sp_ns = ns, sp_name = s_instance s, sp_image = img, sp_type = s_gtype s, sp_mode = s_mode s,
      sp_count = s_gpus s, sp_vram = s_vram s, sp_core = s_core s, sp_cpu = s_cpu s, sp_mem = s_mem s,
      sp_ephemeral = ephemeral_gib cf (s_user s), sp_burst = cf_mem_burst cf, sp_labels = session_labels s,
      sp_uid = cf_uid_base cf + s_user s, sp_home = [], sp_volumes = mounts,
      sp_channels = session_channels ct (s_image s) (s_web_password s), sp_sshd = cf_sshd cf,
      sp_sshd_key = cf_sshd_key cf, sp_keys_secret = user_keys_secret (s_user s),
      sp_scratch = scratch_host_of cf ct (s_user s), sp_prefer = prefer, sp_require = require\<rparr>"

definition svc_spec_of :: "session_cfg \<Rightarrow> catalog \<Rightarrow> string \<Rightarrow> session \<Rightarrow> svc_spec" where
  "svc_spec_of cf ct ns s =
     \<lparr>ss_ns = ns, ss_name = s_instance s,
      ss_ports = svc_ports cf (session_channels ct (s_image s) (s_web_password s)),
      ss_mode = expose_mode cf, ss_internal = cf_gateway cf\<rparr>"

definition provision ::
  "session_cfg \<Rightarrow> env \<Rightarrow> string \<Rightarrow> session \<Rightarrow> string \<Rightarrow> mount_spec list \<Rightarrow> string list \<Rightarrow> string \<Rightarrow>
     ('w, 'l) world \<Rightarrow> ('w, 'l) world \<times> bool" where
  "provision cf e ns s img mounts prefer require w =
     (if \<not> en_k8s e KNamespace ns then (w, False)
      else (let w1 = apply_egress cf e ns w
            in if container_ssh cf \<and> \<not> en_k8s e KKeys ns then (w1, False)
               else (let (w2, ok) = create_pod cf e (pod_spec_of cf (en_cat e) ns s img mounts prefer require) w1
                     in if \<not> ok then (w2, False)
                        else (let (vs, ok') = ensure_session_service (en_k8s e KSvc) (svc_spec_of cf (en_cat e) ns s) (w_svcs w2)
                              in (w2\<lparr>w_svcs := vs\<rparr>, ok')))))"

section \<open>Cleaning up shared mounts\<close>

definition cleanup_volume :: "env \<Rightarrow> string \<Rightarrow> int \<Rightarrow> string \<Rightarrow> vol_mount \<Rightarrow> ('w, 'l) world \<Rightarrow> ('w, 'l) world" where
  "cleanup_volume e ns u inst m w =
     (case volume_access (en_vols e) (vm_id m) u of None \<Rightarrow> w
      | Some acc \<Rightarrow>
          if va_ns acc = ns \<or> 0 < active_with_volume u (vm_id m) inst (w_db w) then w
          else delete_shared_pvc e ns (''shared-'' @ dec (vm_id m)) w)"

definition cleanup_dataset :: "env \<Rightarrow> string \<Rightarrow> int \<Rightarrow> string \<Rightarrow> int \<Rightarrow> ('w, 'l) world \<Rightarrow> ('w, 'l) world" where
  "cleanup_dataset e ns u inst d w =
     (if 0 < active_with_dataset u d inst (w_db w) then w else delete_shared_pvc e ns (''ds-'' @ dec d) w)"

definition cleanup_shared_mounts :: "env \<Rightarrow> string \<Rightarrow> int \<Rightarrow> int \<Rightarrow> string \<Rightarrow> ('w, 'l) world \<Rightarrow> ('w, 'l) world" where
  "cleanup_shared_mounts e ns u sid inst w =
     fold (cleanup_dataset e ns u inst) (session_dataset_ids sid (w_db w))
       (fold (cleanup_volume e ns u inst) (session_volume_mounts sid (w_db w)) w)"

section \<open>Frames\<close>

text \<open>None of the cluster's operations touches the tables, the wallets or the leases.\<close>

definition same_books :: "('w, 'l) world \<Rightarrow> ('w, 'l) world \<Rightarrow> bool" where
  "same_books w w' \<longleftrightarrow> w_db w' = w_db w \<and> w_wallet w' = w_wallet w \<and> w_leases w' = w_leases w \<and> w_audit w' = w_audit w"

lemma same_books_refl [simp]: "same_books w w"
  by (simp add: same_books_def)

lemma same_books_trans [trans]: "same_books w w1 \<Longrightarrow> same_books w1 w2 \<Longrightarrow> same_books w w2"
  by (simp add: same_books_def)

lemma same_books_D: "same_books w w' \<Longrightarrow> w_db w' = w_db w" "same_books w w' \<Longrightarrow> w_wallet w' = w_wallet w"
  "same_books w w' \<Longrightarrow> w_leases w' = w_leases w" "same_books w w' \<Longrightarrow> w_audit w' = w_audit w"
  by (simp_all add: same_books_def)

lemma same_books_cluster [simp]:
  "same_books w (fst (create_pvc e ns n w))" "same_books w (fst (ensure_shared_pvc e ns n w))"
  "same_books w (delete_shared_pvc e ns n w)" "same_books w (fst (create_pod cf e sp w))"
  "same_books w (apply_egress cf e ns w)" "same_books w (w\<lparr>w_svcs := vs\<rparr>)"
  "same_books w (fst (delete_pod e ns n w))" "same_books w (fst (delete_svc e ns n w))"
  "same_books w (fst (delete_pvc e ns n w))"
  by (simp_all add: same_books_def create_pvc_def ensure_shared_pvc_def delete_shared_pvc_def create_pod_def
      apply_egress_def delete_pod_def delete_svc_def delete_pvc_def split: prod.split option.split)

lemma same_books_pair:
  "ensure_shared_pvc e ns n w = (w', ok) \<Longrightarrow> same_books w w'"
  "create_pod cf e sp w = (w', ok) \<Longrightarrow> same_books w w'"
  "create_pvc e ns n w = (w', ok) \<Longrightarrow> same_books w w'"
  using same_books_cluster(2) [of w e ns n] same_books_cluster(4) [of w cf e sp] same_books_cluster(1) [of w e ns n]
  by simp_all

lemma same_books_mount_one: "mount_one e ns u vid path w = (w', ms) \<Longrightarrow> same_books w w'"
  by (auto simp: mount_one_def Let_def dest: same_books_pair(1) split: mount_plan.splits prod.splits)

lemma same_books_mount_all: "mount_all e ns u vs w = (w', ms) \<Longrightarrow> same_books w w'"
proof (induction vs arbitrary: w w' ms)
  case (Cons v vs)
  obtain w1 m where 1: "mount_one e ns u (vm_id v) (vm_path v) w = (w1, m)" by fastforce
  obtain w2 ms' where 2: "mount_all e ns u vs w1 = (w2, ms')" by fastforce
  show ?case using Cons.prems same_books_trans [OF same_books_mount_one [OF 1] Cons.IH [OF 2]] by (simp add: 1 2)
qed simp

lemma same_books_dataset_one: "dataset_one e ns pl target d w = (w', ms) \<Longrightarrow> same_books w w'"
  by (auto simp: dataset_one_def Let_def dest: same_books_pair(1) split: dataset_plan.splits prod.splits)

lemma same_books_datasets: "resolve_datasets e ns ds target pl w = (w', ms) \<Longrightarrow> same_books w w'"
proof (induction ds arbitrary: w w' ms)
  case (Cons d ds)
  obtain w1 m where 1: "dataset_one e ns pl target d w = (w1, m)" by fastforce
  obtain w2 ms' where 2: "resolve_datasets e ns ds target pl w1 = (w2, ms')" by fastforce
  show ?case using Cons.prems same_books_trans [OF same_books_dataset_one [OF 1] Cons.IH [OF 2]] by (simp add: 1 2)
qed simp

lemma same_books_provision: "same_books w (fst (provision cf e ns s img ms prefer require w))"
proof -
  obtain w2 ok where c: "create_pod cf e (pod_spec_of cf (en_cat e) ns s img ms prefer require) (apply_egress cf e ns w) = (w2, ok)"
    by fastforce
  have 2: "same_books w w2"
    by (rule same_books_trans [OF same_books_cluster(5) same_books_pair(2) [OF c]])
  have 3: "same_books w (w2\<lparr>w_svcs := vs\<rparr>)" for vs
    by (rule same_books_trans [OF 2 same_books_cluster(6)])
  show ?thesis using 2 3 by (simp add: provision_def Let_def c split: prod.split)
qed

lemma same_books_cleanup: "same_books w (cleanup_shared_mounts e ns u sid inst w)"
proof -
  have v: "same_books w (fold (cleanup_volume e ns u inst) vs w)" for vs and w :: "('w, 'l) world"
  proof (induction vs arbitrary: w)
    case (Cons v vs)
    have "same_books w (cleanup_volume e ns u inst v w)" by (simp add: cleanup_volume_def split: option.split)
    then show ?case using same_books_trans Cons.IH by fastforce
  qed simp
  have d: "same_books w (fold (cleanup_dataset e ns u inst) ds w)" for ds and w :: "('w, 'l) world"
  proof (induction ds arbitrary: w)
    case (Cons d ds)
    have "same_books w (cleanup_dataset e ns u inst d w)" by (simp add: cleanup_dataset_def)
    then show ?case using same_books_trans Cons.IH by fastforce
  qed simp
  show ?thesis unfolding cleanup_shared_mounts_def by (rule same_books_trans [OF v d])
qed

end
