(* ===== verification/Session_Lifecycle.thy ===== *)
theory Session_Lifecycle
  imports Session_Provision
begin

text \<open>
  The operations on sessions (\<open>internal/session/service.go\<close>): create (container and physical), stop,
  start, reconfigure, reallocate, delete, the admin's terminate and delete, extend, and the live
  refresh. Each runs on the world at one instant; \<open>start\<close> is also given as its two halves, the
  admission that reserves the place and the provisioning that follows, because other operations can
  run in between. The generated tokens are arguments.
\<close>

section \<open>Creating\<close>

definition balance_now :: "('w, 'l) session_svc \<Rightarrow> ('w, 'l) world \<Rightarrow> (int \<Rightarrow> int \<Rightarrow> int) option" where
  "balance_now sv w = map_option (\<lambda>C u g. snd (ch_balance C u g (w_wallet w))) (sv_charger sv)"

text \<open>\<open>checkAffordable\<close>: asking the balance may create the wallet.\<close>

definition check_affordable :: "('w, 'l) session_svc \<Rightarrow> int \<Rightarrow> int \<Rightarrow> int \<Rightarrow> ('w, 'l) world \<Rightarrow> ('w, 'l) world \<times> session_error option" where
  "check_affordable sv u g price w =
     ((case sv_charger sv of None \<Rightarrow> w
       | Some C \<Rightarrow> if price \<le> 0 then w else w\<lparr>w_wallet := fst (ch_balance C u g (w_wallet w))\<rparr>),
      affordable (balance_now sv w) u g price)"

definition admit_create ::
  "('w, 'l) session_svc \<Rightarrow> env \<Rightarrow> int \<Rightarrow> session \<Rightarrow> ('w, 'l) world \<Rightarrow> ('w, 'l) world \<times> (session_error + session)" where
  "admit_create sv e u s w =
     (case check_hard_limits (sv_cfg sv) (w_db w) u s of Some err \<Rightarrow> (w, Inl err)
      | None \<Rightarrow>
          (case check_affordable sv u (gid_of s) (s_price s) w of (w1, Some err) \<Rightarrow> (w1, Inl err)
           | (w1, None) \<Rightarrow>
               (case check_capacity_cfg (sv_cfg sv) (w_db w1) s [] of Some err \<Rightarrow> (w1, Inl err)
                | None \<Rightarrow>
                    (case create_row (en_db e) (en_now e) s (w_db w1) of
                       (db, None) \<Rightarrow> (w1\<lparr>w_db := db\<rparr>, Inl SDbError)
                     | (db, Some r) \<Rightarrow> (w1\<lparr>w_db := db\<rparr>, Inr r)))))"

definition running_now :: "env \<Rightarrow> ('w, 'l) world \<Rightarrow> session list option" where
  "running_now e w = (if en_db e SList ''running'' then Some (list_running (w_db w)) else None)"

text \<open>The homes: a local one of a leased node, or the session's own volume.\<close>

definition create_home ::
  "session_cfg \<Rightarrow> env \<Rightarrow> string \<Rightarrow> int \<Rightarrow> string \<Rightarrow> create_req \<Rightarrow> session \<Rightarrow> ('w, 'l) world \<Rightarrow>
     ('w, 'l) world \<times> (session_error + mount_spec \<times> string)" where
  "create_home cf e ns u uname q s w =
     (if q_local_home q \<noteq> []
      then (w, case resolve_local_home cf e u uname (q_local_home q) of Inl err \<Rightarrow> Inl err | Inr m \<Rightarrow> Inr (m, q_local_home q))
      else (case ensure_session_home e ns s w of
          (w1, None) \<Rightarrow> (w1, Inl SClusterError)
        | (w1, Some pvc) \<Rightarrow>
            (w1, Inr (\<lparr>ms_pvc = pvc, ms_host = [], ms_empty = False, ms_path = home_mount, ms_ro = False\<rparr>, q_node q))))"

text \<open>The user's own shared home under \<open>~/nfs\<close>.\<close>

definition shared_home ::
  "session_cfg \<Rightarrow> env \<Rightarrow> string \<Rightarrow> int \<Rightarrow> ('w, 'l) world \<Rightarrow> ('w, 'l) world \<times> mount_spec list option" where
  "shared_home cf e ns u w =
     (if \<not> cf_shared_home cf then (w, Some [])
      else (case ensure_home e ns u w of
          (w1, None) \<Rightarrow> (w1, None)
        | (w1, Some pvc) \<Rightarrow>
            (w1, Some [\<lparr>ms_pvc = pvc, ms_host = [], ms_empty = False, ms_path = home_mount @ ''/nfs'', ms_ro = False\<rparr>])))"

text \<open>What follows the reservation, up to the pod and its service; the identifiers of the datasets
  mounted are returned for the rows written afterwards.\<close>

definition create_provision ::
  "('w, 'l) session_svc \<Rightarrow> env \<Rightarrow> int \<Rightarrow> string \<Rightarrow> create_req \<Rightarrow> session \<Rightarrow> string \<Rightarrow> ('w, 'l) world \<Rightarrow>
     ('w, 'l) world \<times> (session_error + int list)" where
  "create_provision sv e u uname q s img w =
     (let cf = sv_cfg sv; ns = namespace_of cf s;
          (w1, vols) = mount_all e ns u (q_volumes q) w
      in case create_home cf e ns u uname q s w1 of
           (w2, Inl err) \<Rightarrow> (w2, Inl err)
         | (w2, Inr (home, require)) \<Rightarrow>
             (case shared_home cf e ns u w2 of
                (w3, None) \<Rightarrow> (w3, Inl SClusterError)
              | (w3, Some nfs) \<Rightarrow>
                  (let ids = mountable_datasets (en_vols e);
                       (target, pl) = (if require = []
                          then pick_dataset_node (en_cache e) ids (en_cl e) (running_now e w3) (s_gtype s) (s_mode s) (s_gpus s)
                          else (require, map_option (\<lambda>f. f ids) (en_cache e)));
                       (w4, dsets) = resolve_datasets e ns ids target pl w3;
                       prefer = (if q_image q \<noteq> 0 then cached_nodes (en_cat e) (q_image q) else []);
                       (w5, ok) = provision cf e ns s img (vols @ [home] @ nfs @ dsets) prefer target w4
                   in (w5, if ok then Inr ids else Inl SClusterError))))"

section \<open>Deleting\<close>

definition delete_session :: "('w, 'l) session_svc \<Rightarrow> env \<Rightarrow> session \<Rightarrow> ('w, 'l) world \<Rightarrow> ('w, 'l) world \<times> bool" where
  "delete_session sv e s w =
     (let i = s_instance s; ns = namespace_of (sv_cfg sv) s;
          w1 = (if s_phase s = Stopped then settle_storage sv e s w else w);
          w2 = (if s_phase s = Running then settle sv e s True w1 else w1)
      in if ssh_env s then on_db (delete_row (en_db e) i) (release_lease_of sv i w2)
         else (let w3 = fst (delete_pod e ns i w2);
                   w4 = fst (delete_svc e ns i w3);
                   w5 = cleanup_shared_mounts e ns (s_user s) (s_id s) i w4;
                   w6 = fst (delete_pvc e ns (home_pvc i) w5)
               in on_db (delete_row (en_db e) i) w6))"

definition delete_op :: "('w, 'l) session_svc \<Rightarrow> env \<Rightarrow> string \<Rightarrow> int \<Rightarrow> ('w, 'l) world \<Rightarrow> ('w, 'l) world \<times> session_error option" where
  "delete_op sv e i u w =
     (case get_session (en_db e) i u (w_db w) of None \<Rightarrow> (w, Some SNotFound)
      | Some s \<Rightarrow> (let (w', ok) = delete_session sv e s w in (w', if ok then None else Some SDbError)))"

definition rollback :: "('w, 'l) session_svc \<Rightarrow> env \<Rightarrow> session \<Rightarrow> ('w, 'l) world \<Rightarrow> ('w, 'l) world" where
  "rollback sv e s w = fst (delete_session sv e s w)"

section \<open>Create, as the handler calls it\<close>

text \<open>A session without a team gets the user's representative team.\<close>

definition with_group :: "session_cfg \<Rightarrow> int \<Rightarrow> session \<Rightarrow> session" where
  "with_group cf u s =
     (case (s_group s, cf_limits cf) of
        (None, Some r) \<Rightarrow> (let g = snd (hier_of_user r u) in if 0 < g then s\<lparr>s_group := Some g\<rparr> else s)
      | _ \<Rightarrow> s)"

definition create_container ::
  "('w, 'l) session_svc \<Rightarrow> env \<Rightarrow> int \<Rightarrow> string \<Rightarrow> create_req \<Rightarrow> string \<Rightarrow> string \<Rightarrow> ('w, 'l) world \<Rightarrow>
     ('w, 'l) world \<times> (session_error + session)" where
  "create_container sv e u uname q inst pw w =
     (let cf = sv_cfg sv;
          s = with_group cf u (build_session cf (en_cat e) (en_cl e) (en_now e) inst pw u q)
      in if sv_charger sv \<noteq> None \<and> s_group s = None then (w, Inl MustJoinTeam)
         else (case image_ref (en_cat e) (q_image q) of None \<Rightarrow> (w, Inl SNotFound)
           | Some img \<Rightarrow>
               (case admit_create sv e u s w of (w1, Inl err) \<Rightarrow> (w1, Inl err)
                | (w1, Inr r) \<Rightarrow>
                    (case create_provision sv e u uname q r img w1 of
                       (w2, Inl err) \<Rightarrow> (rollback sv e r w2, Inl err)
                     | (w2, Inr ids) \<Rightarrow>
                         (audited ''session_create'' inst (attach_mounts e (s_id r) u (q_volumes q) ids w2), Inr r)))))"

text \<open>A physical session: the row \<open>createSSH\<close> builds.\<close>

definition ssh_session ::
  "session_cfg \<Rightarrow> env \<Rightarrow> int \<Rightarrow> create_req \<Rightarrow> string \<Rightarrow> session" where
  "ssh_session cf e u q inst =
     (let (ty, cnt) = node_spec (en_cl e) (q_node q);
          s = \<lparr>s_id = 0, s_instance = inst, s_user = u, s_group = q_group q, s_name = or_default (q_name q) ''ssh-session'',
               s_env = ''ssh'', s_mode = ''exclusive'', s_offering = None, s_image = None, s_vram = 0, s_core = 0,
               s_cpu = 0, s_mem = 0, s_home = None, s_gpus = cnt, s_gtype = ty, s_node = q_node q, s_ip = [],
               s_phase = Running, s_created = 0, s_price = 0, s_started = Some (en_now e), s_billed = 0,
               s_extensions = 0, s_stopped_secs = 0, s_storage_billed = 0, s_stopped_since = None, s_web_password = []\<rparr>
      in s\<lparr>s_price := price_of cf (en_cat e) (en_cl e) s\<rparr>)"

definition admit_ssh ::
  "('w, 'l) session_svc \<Rightarrow> 'l leaser \<Rightarrow> env \<Rightarrow> int \<Rightarrow> session \<Rightarrow> ('w, 'l) world \<Rightarrow> ('w, 'l) world \<times> (session_error + session)" where
  "admit_ssh sv L e u s w =
     (case check_hard_limits (sv_cfg sv) (w_db w) u s of Some err \<Rightarrow> (w, Inl err)
      | None \<Rightarrow>
          (case check_affordable sv u (gid_of s) (s_price s) w of (w1, Some err) \<Rightarrow> (w1, Inl err)
           | (w1, None) \<Rightarrow>
               (case lz_create L (en_now e) (s_node s) u (s_instance s) (w_leases w1) of
                  (l, Some _) \<Rightarrow> (w1\<lparr>w_leases := l\<rparr>, Inl SLeaseBusy)
                | (l, None) \<Rightarrow>
                    (case create_row (en_db e) (en_now e) s (w_db w1) of
                       (db, None) \<Rightarrow> (w1\<lparr>w_db := db, w_leases := fst (lz_release L (s_instance s) l)\<rparr>, Inl SDbError)
                     | (db, Some r) \<Rightarrow> (w1\<lparr>w_db := db, w_leases := l\<rparr>, Inr r)))))"

definition create_ssh ::
  "('w, 'l) session_svc \<Rightarrow> env \<Rightarrow> int \<Rightarrow> create_req \<Rightarrow> string \<Rightarrow> ('w, 'l) world \<Rightarrow> ('w, 'l) world \<times> (session_error + session)" where
  "create_ssh sv e u q inst w =
     (case sv_leaser sv of None \<Rightarrow> (w, Inl LeaseUnavailable)
      | Some L \<Rightarrow>
          if q_node q = [] then (w, Inl NodeRequired)
          else (case admit_ssh sv L e u (ssh_session (sv_cfg sv) e u q inst) w of
              (w1, Inl err) \<Rightarrow> (w1, Inl err)
            | (w1, Inr r) \<Rightarrow>
                (audited ''session_create'' inst (attach_mounts e (s_id r) u (q_volumes q) (q_datasets q) w1), Inr r)))"

definition create_op ::
  "('w, 'l) session_svc \<Rightarrow> env \<Rightarrow> int \<Rightarrow> string \<Rightarrow> create_req \<Rightarrow> string \<Rightarrow> string \<Rightarrow> ('w, 'l) world \<Rightarrow>
     ('w, 'l) world \<times> (session_error + session)" where
  "create_op sv e u uname q inst pw w =
     (if (case q_group q of None \<Rightarrow> False | Some g \<Rightarrow> \<not> is_group_member (en_cat e) u g) then (w, Inl MustJoinTeam)
      else if q_env q = ''ssh'' then create_ssh sv e u q inst w
      else create_container sv e u uname q inst pw w)"

section \<open>Stopping\<close>

definition stop_session :: "('w, 'l) session_svc \<Rightarrow> env \<Rightarrow> session \<Rightarrow> ('w, 'l) world \<Rightarrow> ('w, 'l) world \<times> session_error option" where
  "stop_session sv e s w =
     (let i = s_instance s; ns = namespace_of (sv_cfg sv) s;
          w1 = settle sv e s True w;
          phase = (\<lambda>w. let (w', ok) = on_db (set_phase (en_db e) i Stopped) w in (w', if ok then None else Some SDbError))
      in if ssh_env s then phase (release_lease_of sv i w1)
         else (let (w2, ok) = delete_pod e ns i w1
               in if \<not> ok then (w2, Some SClusterError)
                  else (let w3 = fst (delete_svc e ns i w2);
                            w4 = fst (on_db (mark_stopped (en_db e) i (en_now e)) w3)
                        in phase w4)))"

definition stop_op :: "('w, 'l) session_svc \<Rightarrow> env \<Rightarrow> string \<Rightarrow> int \<Rightarrow> ('w, 'l) world \<Rightarrow> ('w, 'l) world \<times> session_error option" where
  "stop_op sv e i u w =
     (case get_session (en_db e) i u (w_db w) of None \<Rightarrow> (w, Some SNotFound) | Some s \<Rightarrow> stop_session sv e s w)"

definition admin_stop :: "('w, 'l) session_svc \<Rightarrow> env \<Rightarrow> string \<Rightarrow> ('w, 'l) world \<Rightarrow> ('w, 'l) world \<times> session_error option" where
  "admin_stop sv e i w =
     (case get_by_instance (en_db e) i (w_db w) of None \<Rightarrow> (w, Some SNotFound) | Some s \<Rightarrow> stop_session sv e s w)"

definition admin_terminate :: "('w, 'l) session_svc \<Rightarrow> env \<Rightarrow> string \<Rightarrow> ('w, 'l) world \<Rightarrow> ('w, 'l) world \<times> session_error option" where
  "admin_terminate sv e i w =
     (case get_by_instance (en_db e) i (w_db w) of None \<Rightarrow> (w, Some SNotFound)
      | Some s \<Rightarrow>
          (let ns = namespace_of (sv_cfg sv) s; w1 = settle sv e s True w;
               w2 = (if ssh_env s then release_lease_of sv i w1
                     else cleanup_shared_mounts e ns (s_user s) (s_id s) i
                            (fst (delete_svc e ns i (fst (delete_pod e ns i w1)))));
               (w3, ok) = on_db (set_phase (en_db e) i Terminated) w2
           in (w3, if ok then None else Some SDbError)))"

definition admin_delete :: "('w, 'l) session_svc \<Rightarrow> env \<Rightarrow> string \<Rightarrow> ('w, 'l) world \<Rightarrow> ('w, 'l) world \<times> session_error option" where
  "admin_delete sv e i w =
     (case get_by_instance (en_db e) i (w_db w) of None \<Rightarrow> (w, Some SNotFound)
      | Some s \<Rightarrow>
          (let ns = namespace_of (sv_cfg sv) s;
               w1 = (if ssh_env s then release_lease_of sv i w
                     else fst (delete_pvc e ns (home_pvc i)
                            (cleanup_shared_mounts e ns (s_user s) (s_id s) i
                               (fst (delete_svc e ns i (fst (delete_pod e ns i w)))))));
               (w2, ok) = on_db (delete_row (en_db e) i) w1
           in (w2, if ok then None else Some SDbError)))"

section \<open>Starting\<close>

text \<open>The first half of a container's start: the gate of its node, then the reservation, which only a
  stopped session can get.\<close>

definition admit_start :: "('w, 'l) session_svc \<Rightarrow> env \<Rightarrow> session \<Rightarrow> ('w, 'l) world \<Rightarrow> ('w, 'l) world \<times> session_error option" where
  "admit_start sv e s w =
     (case check_capacity_cfg (sv_cfg sv) (w_db w) s (s_node s) of
        Some err \<Rightarrow> (w, Some (pinned_failure (sv_cfg sv) (w_db w) s err))
      | None \<Rightarrow>
          (case claim_for_start (en_db e) (s_instance s) (w_db w) of
             (db, None) \<Rightarrow> (w\<lparr>w_db := db\<rparr>, Some SDbError)
           | (db, Some False) \<Rightarrow> (w\<lparr>w_db := db\<rparr>, Some AlreadyStarting)
           | (db, Some True) \<Rightarrow> (w\<lparr>w_db := db\<rparr>, None)))"

definition back_to_stopped :: "env \<Rightarrow> string \<Rightarrow> ('w, 'l) world \<Rightarrow> ('w, 'l) world" where
  "back_to_stopped e i w = fst (on_db (set_phase (en_db e) i Stopped) w)"

text \<open>The second half, on the row as it was read before.\<close>

definition finish_start :: "('w, 'l) session_svc \<Rightarrow> env \<Rightarrow> session \<Rightarrow> string \<Rightarrow> ('w, 'l) world \<Rightarrow> ('w, 'l) world \<times> session_error option" where
  "finish_start sv e s img w =
     (let cf = sv_cfg sv; i = s_instance s; ns = namespace_of cf s;
          (w1, vols) = restart_mounts e ns (s_user s) (s_id s) w
      in case ensure_session_home e ns s w1 of
           (w2, None) \<Rightarrow> (back_to_stopped e i w2, Some SClusterError)
         | (w2, Some pvc) \<Rightarrow>
             (case shared_home cf e ns (s_user s) w2 of
                (w3, None) \<Rightarrow> (back_to_stopped e i w3, Some SClusterError)
              | (w3, Some nfs) \<Rightarrow>
                  (let home = \<lparr>ms_pvc = pvc, ms_host = [], ms_empty = False, ms_path = home_mount, ms_ro = False\<rparr>;
                       ids = session_dataset_ids (s_id s) (w_db w3);
                       (target, pl) = pick_dataset_node (en_cache e) ids (en_cl e) (running_now e w3) (s_gtype s) (s_mode s) (s_gpus s);
                       (w4, dsets) = resolve_datasets e ns ids target pl w3;
                       prefer = (case s_image s of None \<Rightarrow> [] | Some im \<Rightarrow> cached_nodes (en_cat e) im);
                       (w5, ok) = provision cf e ns s img (vols @ [home] @ nfs @ dsets) prefer target w4
                   in if \<not> ok then (back_to_stopped e i w5, Some SClusterError)
                      else (let w6 = settle_storage sv e s w5;
                                w7 = fst (on_db (clear_stopped (en_db e) i 0) w6)
                            in (fst (on_db (reset_billing (en_db e) i (en_now e)) w7), None)))))"

definition start_container :: "('w, 'l) session_svc \<Rightarrow> env \<Rightarrow> session \<Rightarrow> ('w, 'l) world \<Rightarrow> ('w, 'l) world \<times> session_error option" where
  "start_container sv e s w =
     (case s_image s of None \<Rightarrow> (w, Some SNotFound)
      | Some im \<Rightarrow>
          (case image_ref (en_cat e) im of None \<Rightarrow> (w, Some SNotFound)
           | Some img \<Rightarrow>
               (case admit_start sv e s w of (w1, Some err) \<Rightarrow> (w1, Some err)
                | (w1, None) \<Rightarrow> finish_start sv e s img w1)))"

definition start_ssh :: "('w, 'l) session_svc \<Rightarrow> env \<Rightarrow> session \<Rightarrow> ('w, 'l) world \<Rightarrow> ('w, 'l) world \<times> session_error option" where
  "start_ssh sv e s w =
     (case sv_leaser sv of None \<Rightarrow> (w, Some LeaseUnavailable)
      | Some L \<Rightarrow>
          (case claim_for_start (en_db e) (s_instance s) (w_db w) of
             (db, None) \<Rightarrow> (w\<lparr>w_db := db\<rparr>, Some SDbError)
           | (db, Some False) \<Rightarrow> (w\<lparr>w_db := db\<rparr>, Some AlreadyStarting)
           | (db, Some True) \<Rightarrow>
               (case lz_create L (en_now e) (s_node s) (s_user s) (s_instance s) (w_leases w) of
                  (l, Some _) \<Rightarrow> (back_to_stopped e (s_instance s) (w\<lparr>w_db := db, w_leases := l\<rparr>), Some SLeaseBusy)
                | (l, None) \<Rightarrow>
                    (let w1 = fst (on_db (reset_billing (en_db e) (s_instance s) (en_now e)) (w\<lparr>w_db := db, w_leases := l\<rparr>));
                         (w2, ok) = on_db (set_phase (en_db e) (s_instance s) Running) w1
                     in (w2, if ok then None else Some SDbError)))))"

definition start_op :: "('w, 'l) session_svc \<Rightarrow> env \<Rightarrow> string \<Rightarrow> int \<Rightarrow> ('w, 'l) world \<Rightarrow> ('w, 'l) world \<times> session_error option" where
  "start_op sv e i u w =
     (case get_session (en_db e) i u (w_db w) of None \<Rightarrow> (w, Some SNotFound)
      | Some s \<Rightarrow> if ssh_env s then start_ssh sv e s w else start_container sv e s w)"

section \<open>Changing a stopped session\<close>

definition reconfigure_op ::
  "('w, 'l) session_svc \<Rightarrow> env \<Rightarrow> string \<Rightarrow> int \<Rightarrow> reconf_req \<Rightarrow> ('w, 'l) world \<Rightarrow> ('w, 'l) world \<times> session_error option" where
  "reconfigure_op sv e i u q w =
     (let cf = sv_cfg sv
      in case get_session (en_db e) i u (w_db w) of None \<Rightarrow> (w, Some SNotFound)
         | Some s \<Rightarrow>
             if ssh_env s then (w, Some ReconfigureUnavailable)
             else if s_phase s \<noteq> Stopped then (w, Some NotStopped)
             else (case next_spec cf (en_cat e) (en_cl e) s q of None \<Rightarrow> (w, Some BadSpec)
               | Some n \<Rightarrow>
                   (case check_resource_limits cf u n of Some err \<Rightarrow> (w, Some err)
                    | None \<Rightarrow>
                        (case check_affordable sv u (gid_of n) (s_price n) w of (w1, Some err) \<Rightarrow> (w1, Some err)
                         | (w1, None) \<Rightarrow>
                             (case check_capacity_cfg cf (w_db w1) n (s_node s) of
                                Some err \<Rightarrow> (w1, Some (pinned_failure cf (w_db w1) (n\<lparr>s_node := s_node s\<rparr>) err))
                              | None \<Rightarrow>
                                  (let (w2, ok) = on_db (update_spec (en_db e) i n) w1
                                   in if \<not> ok then (w2, Some SDbError)
                                      else (let w3 = audited ''session_reconfigure'' i w2
                                            in if rq_start q then start_op sv e i u w3 else (w3, None))))))))"

definition reallocate_op :: "('w, 'l) session_svc \<Rightarrow> env \<Rightarrow> string \<Rightarrow> int \<Rightarrow> bool \<Rightarrow> ('w, 'l) world \<Rightarrow> ('w, 'l) world \<times> session_error option" where
  "reallocate_op sv e i u start w =
     (case get_session (en_db e) i u (w_db w) of None \<Rightarrow> (w, Some SNotFound)
      | Some s \<Rightarrow>
          if ssh_env s then (w, Some ReconfigureUnavailable)
          else if s_phase s \<noteq> Stopped then (w, Some NotStopped)
          else (let (w1, ok) = delete_pvc e (namespace_of (sv_cfg sv) s) (home_pvc i) w
                in if \<not> ok then (w1, Some SClusterError)
                   else (let (w2, ok2) = on_db (clear_node (en_db e) i) w1
                         in if \<not> ok2 then (w2, Some SDbError)
                            else (let w3 = audited ''session_reallocate'' i w2
                                  in if start then start_op sv e i u w3 else (w3, None)))))"

definition extend_op :: "('w, 'l) session_svc \<Rightarrow> env \<Rightarrow> string \<Rightarrow> int \<Rightarrow> ('w, 'l) world \<Rightarrow> ('w, 'l) world \<times> session_error option" where
  "extend_op sv e i u w =
     (if \<not> cf_dynamic_lease (sv_cfg sv) then (w, Some ExtendUnavailable)
      else case increment_extensions (en_db e) i u (cf_max_extensions (sv_cfg sv)) (w_db w) of
          (db, None) \<Rightarrow> (w\<lparr>w_db := db\<rparr>, Some SDbError)
        | (db, Some True) \<Rightarrow> (w\<lparr>w_db := db\<rparr>, None)
        | (db, Some False) \<Rightarrow> (w\<lparr>w_db := db\<rparr>, Some ExtendUnavailable))"

section \<open>The live state\<close>

definition map_pod_phase :: "string \<Rightarrow> phase" where
  "map_pod_phase p =
     (if p = ''Running'' then Running
      else if p = ''Pending'' \<or> p = [] then Provisioning
      else if p = ''Succeeded'' \<or> p = ''Failed'' then Stopped
      else Provisioning)"

text \<open>The session as the caller holds it is returned updated as well.\<close>

definition refresh_live :: "env \<Rightarrow> session \<Rightarrow> ('w, 'l) world \<Rightarrow> ('w, 'l) world \<times> session" where
  "refresh_live e s w =
     (if s_phase s = Stopped \<or> s_phase s = Terminated then (w, s)
      else if ssh_env s then
        (if s_phase s = Provisioning
         then (fst (on_db (set_phase (en_db e) (s_instance s) Running) w), s\<lparr>s_phase := Running\<rparr>) else (w, s))
      else (case en_pod e (s_instance s) of
          PodIs st \<Rightarrow>
            (let p = map_pod_phase (ps_phase st)
             in (fst (on_db (update_live (en_db e) (s_instance s) p (ps_node st) (ps_ip st)) w),
                 s\<lparr>s_phase := p, s_node := ps_node st, s_ip := ps_ip st\<rparr>))
        | _ \<Rightarrow> (w, s)))"

fun refresh_all :: "env \<Rightarrow> session list \<Rightarrow> ('w, 'l) world \<Rightarrow> ('w, 'l) world \<times> session list" where
  "refresh_all e [] w = (w, [])"
| "refresh_all e (s # ss) w = (let (w1, s') = refresh_live e s w; (w2, rest) = refresh_all e ss w1 in (w2, s' # rest))"

text \<open>The user's list, each row refreshed, with the session that is exempt from reclaiming marked.\<close>

definition list_op :: "env \<Rightarrow> int \<Rightarrow> int \<Rightarrow> ('w, 'l) world \<Rightarrow> ('w, 'l) world \<times> (session \<times> bool) list option" where
  "list_op e u g w =
     (if \<not> en_db e SList ''user'' then (w, None)
      else (let exempt = newest_stopped u (w_db w);
                (w', rows) = refresh_all e (list_by_user u g (w_db w)) w
            in (w', Some (map (\<lambda>s. (s, exempt \<noteq> [] \<and> s_instance s = exempt)) rows))))"

definition home_usages :: "session_cfg \<Rightarrow> int \<Rightarrow> session_db \<Rightarrow> (string \<times> int) list" where
  "home_usages cf u db =
     map (\<lambda>s. (s_instance s, home_gib_of cf s)) (filter (\<lambda>s. \<not> ssh_env s) (list_by_user u 0 db))"

section \<open>What a failed creation leaves\<close>

lemma same_books_create_home: "create_home cf e ns u uname q s w = (w', r) \<Longrightarrow> same_books w w'"
  using same_books_pair(3) [of e ns]
  by (auto simp: create_home_def ensure_session_home_def Let_def split: if_splits prod.splits option.splits)

lemma same_books_shared_home: "shared_home cf e ns u w = (w', r) \<Longrightarrow> same_books w w'"
  using same_books_pair(3) [of e ns]
  by (auto simp: shared_home_def ensure_home_def Let_def split: if_splits prod.splits option.splits)

lemma same_books_session_home: "ensure_session_home e ns s w = (w', r) \<Longrightarrow> same_books w w'"
  using same_books_pair(3) [of e ns] by (auto simp: ensure_session_home_def Let_def split: prod.splits)

text \<open>Pods other than the session's own are left alone.\<close>

lemma pods_cluster [simp]:
  "w_pods (fst (create_pvc e ns n w)) = w_pods w" "w_pods (fst (ensure_shared_pvc e ns n w)) = w_pods w"
  "w_pods (delete_shared_pvc e ns n w) = w_pods w" "w_pods (apply_egress cf e ns w) = w_pods w"
  by (simp_all add: create_pvc_def ensure_shared_pvc_def delete_shared_pvc_def apply_egress_def split: prod.split)

lemma pods_pair:
  "ensure_shared_pvc e ns n w = (w', ok) \<Longrightarrow> w_pods w' = w_pods w"
  "create_pvc e ns n w = (w', ok) \<Longrightarrow> w_pods w' = w_pods w"
  using pods_cluster(1) [of e ns n w] pods_cluster(2) [of e ns n w] by simp_all

lemma pods_mount_all: "mount_all e ns u vs w = (w', ms) \<Longrightarrow> w_pods w' = w_pods w"
proof (induction vs arbitrary: w w' ms)
  case (Cons v vs)
  obtain w1 m where 1: "mount_one e ns u (vm_id v) (vm_path v) w = (w1, m)" by fastforce
  obtain w2 ms' where 2: "mount_all e ns u vs w1 = (w2, ms')" by fastforce
  have "w_pods w1 = w_pods w"
    using 1 by (auto simp: mount_one_def Let_def dest: pods_pair(1) split: mount_plan.splits prod.splits)
  then show ?case using Cons.prems Cons.IH [OF 2] by (simp add: 1 2)
qed simp

lemma pods_datasets: "resolve_datasets e ns ds target pl w = (w', ms) \<Longrightarrow> w_pods w' = w_pods w"
proof (induction ds arbitrary: w w' ms)
  case (Cons d ds)
  obtain w1 m where 1: "dataset_one e ns pl target d w = (w1, m)" by fastforce
  obtain w2 ms' where 2: "resolve_datasets e ns ds target pl w1 = (w2, ms')" by fastforce
  have "w_pods w1 = w_pods w"
    using 1 by (auto simp: dataset_one_def Let_def dest: pods_pair(1) split: dataset_plan.splits prod.splits)
  then show ?case using Cons.prems Cons.IH [OF 2] by (simp add: 1 2)
qed simp

lemma pods_homes:
  "create_home cf e ns u uname q s w = (w', r) \<Longrightarrow> w_pods w' = w_pods w"
  "shared_home cf e ns u w = (w', r2) \<Longrightarrow> w_pods w' = w_pods w"
  "ensure_session_home e ns s w = (w', r3) \<Longrightarrow> w_pods w' = w_pods w"
  using pods_pair(2) [of e ns]
  by (auto simp: create_home_def shared_home_def ensure_home_def ensure_session_home_def Let_def
      split: if_splits prod.splits option.splits)

lemma pods_provision:
  "provision cf e ns s img ms prefer require w = (w', ok) \<Longrightarrow>
     (w_pods w' = w_pods w \<and> (ok \<longrightarrow> w_pods w (ns, s_instance s) \<noteq> None)) \<or>
     (w_pods w (ns, s_instance s) = None \<and> w_pods w' = (w_pods w)((ns, s_instance s) \<mapsto>
        build_pod (pod_spec_of cf (en_cat e) ns s img ms prefer require) (cf_gpu_label cf)))"
  by (auto simp: provision_def create_pod_def Let_def pod_spec_of_def split: if_splits prod.splits option.splits)

lemma pods_cleanup [simp]: "w_pods (cleanup_shared_mounts e ns u sid inst w) = w_pods w"
proof -
  have v: "w_pods (fold (cleanup_volume e ns u inst) vs w) = w_pods w" for vs and w :: "('w, 'l) world"
    by (induction vs arbitrary: w) (simp_all add: cleanup_volume_def split: option.split)
  have d: "w_pods (fold (cleanup_dataset e ns u inst) ds w) = w_pods w" for ds and w :: "('w, 'l) world"
    by (induction ds arbitrary: w) (simp_all add: cleanup_dataset_def)
  show ?thesis by (simp add: cleanup_shared_mounts_def v d)
qed

section \<open>What a pod may mount\<close>

text \<open>A volume the user may read, without write access unless they may write it, under the claim that
  volume has in the namespace.\<close>

definition volume_mount_ok :: "volume_tables \<Rightarrow> string \<Rightarrow> int \<Rightarrow> mount_spec \<Rightarrow> bool" where
  "volume_mount_ok vt ns u m \<longleftrightarrow>
     ms_host m = [] \<and> (\<exists>vid v. row_of vr_id vid (vt_volumes vt) = Some v \<and> may_read vt vid u \<and> (\<not> ms_ro m \<longrightarrow> may_write vt vid u) \<and>
       (if vr_ns v = ns then ms_pvc m = vr_pvc v else ms_pvc m = ''shared-'' @ dec vid))"

text \<open>A dataset is only ever mounted for reading: from the node's cache or from its copy. \<open>D\<close> is the datasets
  that may be mounted.\<close>

definition dataset_mount_ok :: "volume_tables \<Rightarrow> (int list \<Rightarrow> placement) option \<Rightarrow> int set \<Rightarrow> mount_spec \<Rightarrow> bool" where
  "dataset_mount_ok vt cache D m \<longleftrightarrow>
     ms_ro m \<and> (\<exists>d \<in> D. \<exists>r. dataset_mount_row vt d = Some r \<and>
       (ms_host m = [] \<and> ms_pvc m = ''ds-'' @ dec d \<or>
        ms_pvc m = [] \<and> ms_host m \<noteq> [] \<and> (\<exists>f ids. cache = Some f \<and> ms_host m = pl_path (f ids) d)))"

lemma mount_for_ok:
  assumes "mount_for vt nfs pvcs ns u vid path = OwnPvc m \<or> mount_for vt nfs pvcs ns u vid path = SharedPvc p m"
  shows "volume_mount_ok vt ns u m"
proof -
  obtain acc where acc: "volume_access vt vid u = Some acc"
    using assms by (auto simp: mount_for_def split: option.splits)
  obtain v where v: "row_of vr_id vid (vt_volumes vt) = Some v" "va_pvc acc = vr_pvc v" "va_ns acc = vr_ns v"
    using volume_access_facts [of vt vid u acc] acc by blast
  have "if vr_ns v = ns then ms_pvc m = vr_pvc v else ms_pvc m = ''shared-'' @ dec vid"
    using assms acc v by (auto simp: mount_for_def Let_def split: if_splits)
  then show ?thesis
    using mount_for_authorised [OF assms] v(1) unfolding volume_mount_ok_def by blast
qed

lemma mount_all_ok:
  "mount_all e ns u vs w = (w', ms) \<Longrightarrow> \<forall>m \<in> set ms. volume_mount_ok (en_vols e) ns u m"
proof (induction vs arbitrary: w w' ms)
  case (Cons v vs)
  obtain w1 m where 1: "mount_one e ns u (vm_id v) (vm_path v) w = (w1, m)" by fastforce
  obtain w2 ms' where 2: "mount_all e ns u vs w1 = (w2, ms')" by fastforce
  have "\<forall>x \<in> set m. volume_mount_ok (en_vols e) ns u x"
    using 1 mount_for_ok [OF disjI1] mount_for_ok [OF disjI2]
    by (auto simp: mount_one_def Let_def split: mount_plan.splits prod.splits if_splits)
  then show ?case using Cons.prems Cons.IH [OF 2] by (auto simp: 1 2)
qed simp

lemma dataset_plan_ok:
  assumes "pl = None \<or> pl = map_option (\<lambda>f. f ids) cache" "d \<in> D"
  shows "dataset_plan_for vt nfs pl target d = FromHost m \<Longrightarrow> dataset_mount_ok vt cache D m"
    and "dataset_plan_for vt nfs pl target d = FromNfs pvc m \<Longrightarrow> dataset_mount_ok vt cache D m"
proof -
  assume "dataset_plan_for vt nfs pl target d = FromHost m"
  then obtain r p where r: "dataset_mount_row vt d = Some r" "pl = Some p" "ms_ro m" "ms_pvc m = []" "ms_host m = pl_path p d" "ms_host m \<noteq> []"
    by (auto simp: dataset_plan_for_def Let_def split: option.splits if_splits)
  then obtain f where "cache = Some f" "p = f ids" using assms by (cases cache) auto
  then show "dataset_mount_ok vt cache D m" using r assms(2) unfolding dataset_mount_ok_def by blast
next
  assume "dataset_plan_for vt nfs pl target d = FromNfs pvc m"
  then show "dataset_mount_ok vt cache D m"
    using assms(2) by (auto simp: dataset_plan_for_def dataset_mount_ok_def Let_def split: option.splits if_splits)
qed

lemma resolve_datasets_ok:
  "resolve_datasets e ns ds target pl w = (w', ms) \<Longrightarrow> pl = None \<or> pl = map_option (\<lambda>f. f ids) cache \<Longrightarrow>
     set ds \<subseteq> D \<Longrightarrow> \<forall>m \<in> set ms. dataset_mount_ok (en_vols e) cache D m"
proof (induction ds arbitrary: w w' ms)
  case (Cons d ds)
  obtain w1 m where 1: "dataset_one e ns pl target d w = (w1, m)" by fastforce
  obtain w2 ms' where 2: "resolve_datasets e ns ds target pl w1 = (w2, ms')" by fastforce
  have "d \<in> D" "set ds \<subseteq> D" using Cons.prems(3) by simp_all
  have "\<forall>x \<in> set m. dataset_mount_ok (en_vols e) cache D x"
    using 1 dataset_plan_ok [OF Cons.prems(2) \<open>d \<in> D\<close>]
    by (auto simp: dataset_one_def Let_def split: dataset_plan.splits prod.splits if_splits)
  then show ?case using Cons.prems(1) Cons.IH [OF 2 Cons.prems(2) \<open>set ds \<subseteq> D\<close>] by (auto simp: 1 2)
qed simp

text \<open>Everything a session of the user mounts. \<open>local\<close> is the directory of a leased node, when one was
  asked for.\<close>

definition mount_allowed :: "volume_tables \<Rightarrow> (int list \<Rightarrow> placement) option \<Rightarrow> string \<Rightarrow> int \<Rightarrow> string \<Rightarrow> string option \<Rightarrow> int set \<Rightarrow> mount_spec \<Rightarrow> bool" where
  "mount_allowed vt cache ns u inst local D m \<longleftrightarrow>
     volume_mount_ok vt ns u m \<or> dataset_mount_ok vt cache D m \<or>
     (ms_host m = [] \<and> (ms_pvc m = home_pvc inst \<or> ms_pvc m = user_home u)) \<or>
     (ms_pvc m = [] \<and> ms_host m \<noteq> [] \<and> local = Some (ms_host m))"
text \<open>The steps of \<open>create_provision\<close> that succeeded, one by one.\<close>

lemma pick_dataset_node_placement:
  "pick_dataset_node cache ids cl running ty mode cnt = (target, pl) \<Longrightarrow> pl = None \<or> pl = map_option (\<lambda>f. f ids) cache"
  by (auto simp: pick_dataset_node_def Let_def split: option.splits if_splits)

definition leased_home :: "session_cfg \<Rightarrow> env \<Rightarrow> int \<Rightarrow> string \<Rightarrow> create_req \<Rightarrow> string option" where
  "leased_home cf e u uname q =
     (if q_local_home q \<noteq> [] \<and> user_leased_node (en_cat e) u (q_local_home q)
      then Some (cf_local_home_host cf @ ''/'' @ uname) else None)"

lemma mount_allowed_volume: "volume_mount_ok vt ns u m \<Longrightarrow> mount_allowed vt cache ns u inst local D m"
  by (simp add: mount_allowed_def)

lemma mount_allowed_dataset: "dataset_mount_ok vt cache D m \<Longrightarrow> mount_allowed vt cache ns u inst local D m"
  by (simp add: mount_allowed_def)

lemma create_home_ok:
  "create_home cf e ns u uname q s w = (w', Inr (m, require)) \<Longrightarrow>
     mount_allowed vt cache ns u (s_instance s) (leased_home cf e u uname q) D m"
  by (auto simp: create_home_def resolve_local_home_def leased_home_def mount_allowed_def ensure_session_home_def
      Let_def split: if_splits prod.splits option.splits sum.splits)

lemma shared_home_ok:
  "shared_home cf e ns u w = (w', Some ms) \<Longrightarrow> m \<in> set ms \<Longrightarrow> mount_allowed vt cache ns u inst local D m"
  by (auto simp: shared_home_def mount_allowed_def ensure_home_def Let_def split: if_splits prod.splits option.splits)

text \<open>The datasets open to every session.\<close>

definition open_datasets :: "volume_tables \<Rightarrow> int set" where
  "open_datasets vt =
     {d. \<exists>r \<in> set (vt_datasets vt). dr_id r = d \<and> dr_scope r = ''global'' \<and> dr_status r = ''active'' \<and> dr_load r = ''ready''}"

definition recorded_datasets :: "env \<Rightarrow> string \<Rightarrow> int \<Rightarrow> session_db \<Rightarrow> int set" where
  "recorded_datasets e i u db = {d. \<exists>s. get_session (en_db e) i u db = Some s \<and> d \<in> set (session_dataset_ids (s_id s) db)}"

lemma mountable_open: "set (mountable_datasets vt) \<subseteq> open_datasets vt"
  by (auto simp: mountable_datasets_def open_datasets_def)

lemma create_provision_cases:
  assumes "create_provision sv e u uname q s img w = (w', r)"
  shows "same_books w w' \<and>
    ((\<exists>err. r = Inl err \<and> w_pods w' = w_pods w) \<or>
     (\<exists>ids ws ms pref target ok. provision (sv_cfg sv) e (namespace_of (sv_cfg sv) s) s img ms pref target ws = (w', ok) \<and>
        w_pods ws = w_pods w \<and>
        (\<forall>m \<in> set ms. mount_allowed (en_vols e) (en_cache e) (namespace_of (sv_cfg sv) s) u (s_instance s)
           (leased_home (sv_cfg sv) e u uname q) (open_datasets (en_vols e)) m) \<and> (r = Inr ids \<longleftrightarrow> ok) \<and> (r = Inl SClusterError \<longleftrightarrow> \<not> ok)))"
proof -
  define cf where "cf = sv_cfg sv"
  define ns where "ns = namespace_of cf s"
  obtain w1 vols where 1: "mount_all e ns u (q_volumes q) w = (w1, vols)" by fastforce
  obtain w2 r2 where 2: "create_home cf e ns u uname q s w1 = (w2, r2)" by fastforce
  have b2: "same_books w w2" by (rule same_books_trans [OF same_books_mount_all [OF 1] same_books_create_home [OF 2]])
  have p2: "w_pods w2 = w_pods w" using pods_mount_all [OF 1] pods_homes(1) [OF 2] by simp
  show ?thesis
  proof (cases r2)
    case (Inl err)
    then have "w' = w2" "r = Inl err"
      using assms 1 2 by (simp_all add: create_provision_def Let_def cf_def ns_def)
    then show ?thesis using b2 p2 by simp
  next
    case (Inr hr)
    obtain home require where hr: "hr = (home, require)" by fastforce
    obtain w3 r3 where 3: "shared_home cf e ns u w2 = (w3, r3)" by fastforce
    have b3: "same_books w w3" by (rule same_books_trans [OF b2 same_books_shared_home [OF 3]])
    have p3: "w_pods w3 = w_pods w" using p2 pods_homes(2) [OF 3] by simp
    show ?thesis
    proof (cases r3)
      case None
      then have "w' = w3" "r = Inl SClusterError"
        using assms 1 2 3 Inr hr by (simp_all add: create_provision_def Let_def cf_def ns_def)
      then show ?thesis using b3 p3 by simp
    next
      case (Some nfs)
      define ids where "ids = mountable_datasets (en_vols e)"
      obtain target pl where t: "(if require = [] then
          pick_dataset_node (en_cache e) ids (en_cl e) (running_now e w3) (s_gtype s) (s_mode s) (s_gpus s)
          else (require, map_option (\<lambda>f. f ids) (en_cache e))) = (target, pl)" by fastforce
      have pl: "pl = None \<or> pl = map_option (\<lambda>f. f ids) (en_cache e)"
        using t pick_dataset_node_placement by (cases "require = []") auto
      obtain w4 dsets where 4: "resolve_datasets e ns ids target pl w3 = (w4, dsets)" by fastforce
      define pref where "pref = (if q_image q \<noteq> 0 then cached_nodes (en_cat e) (q_image q) else [])"
      obtain w5 ok where 5: "provision cf e ns s img (vols @ [home] @ nfs @ dsets) pref target w4 = (w5, ok)" by fastforce
      have b4: "same_books w w4" by (rule same_books_trans [OF b3 same_books_datasets [OF 4]])
      have b5: "same_books w w5"
        using same_books_trans [OF b4 same_books_provision [of w4 cf e ns s img "vols @ [home] @ nfs @ dsets" pref target]]
        by (simp only: 5 fst_conv)
      have p4: "w_pods w4 = w_pods w" using p3 pods_datasets [OF 4] by simp
      have "create_provision sv e u uname q s img w = (w5, if ok then Inr ids else Inl SClusterError)"
        unfolding create_provision_def Let_def cf_def [symmetric] ns_def [symmetric] 1 prod.case 2 Inr hr sum.case 3
          Some option.case ids_def [symmetric] t 4 pref_def [symmetric] 5 by simp
      then have "w' = w5" "r = (if ok then Inr ids else Inl SClusterError)" using assms by simp_all
      moreover have "\<forall>m \<in> set (vols @ [home] @ nfs @ dsets).
          mount_allowed (en_vols e) (en_cache e) ns u (s_instance s) (leased_home cf e u uname q) (open_datasets (en_vols e)) m"
        using mount_all_ok [OF 1] resolve_datasets_ok [OF 4 pl mountable_open [of "en_vols e", folded ids_def]] create_home_ok [OF 2 [unfolded Inr hr]]
          shared_home_ok [OF 3 [unfolded Some]]
        by (auto intro: mount_allowed_volume mount_allowed_dataset)
      ultimately show ?thesis
        using b5 5 p4 unfolding ns_def cf_def
        by (intro conjI disjI2 exI [of _ ids] exI [of _ w4] exI [of _ "vols @ [home] @ nfs @ dsets"] exI [of _ pref]
            exI [of _ target] exI [of _ ok]) auto
    qed
  qed
qed
lemma same_books_delete_objects:
  "same_books w (fst (delete_pvc e ns p (cleanup_shared_mounts e ns u sid i (fst (delete_svc e ns i (fst (delete_pod e ns i w)))))))"
  by (rule same_books_trans [OF _ same_books_cluster(9)], rule same_books_trans [OF _ same_books_cleanup],
      rule same_books_trans [OF _ same_books_cluster(8)]) simp

lemma delete_pod_pods:
  "w_pods (fst (delete_pod e ns i w)) = (if en_k8s e KDelPod i then (w_pods w)((ns, i) := None) else w_pods w)"
  by (simp add: delete_pod_def)

text \<open>Undoing a session that never ran removes its row and its objects and charges nothing.\<close>

lemma rollback_books:
  assumes "s_phase s = Provisioning" "\<not> ssh_env s"
  shows "sessions (w_db (rollback sv e s w)) =
      (if en_db e SDelete (s_instance s) then filter (\<lambda>r. s_instance r \<noteq> s_instance s) (sessions (w_db w)) else sessions (w_db w))"
    and "w_wallet (rollback sv e s w) = w_wallet w" "w_leases (rollback sv e s w) = w_leases w"
    and "w_pods (rollback sv e s w) =
      (if en_k8s e KDelPod (s_instance s) then (w_pods w)((namespace_of (sv_cfg sv) s, s_instance s) := None) else w_pods w)"
proof -
  note b = same_books_delete_objects [of w e "namespace_of (sv_cfg sv) s" "home_pvc (s_instance s)" "s_user s" "s_id s" "s_instance s"]
  have r: "rollback sv e s w = fst (on_db (delete_row (en_db e) (s_instance s))
      (fst (delete_pvc e (namespace_of (sv_cfg sv) s) (home_pvc (s_instance s))
        (cleanup_shared_mounts e (namespace_of (sv_cfg sv) s) (s_user s) (s_id s) (s_instance s)
          (fst (delete_svc e (namespace_of (sv_cfg sv) s) (s_instance s)
            (fst (delete_pod e (namespace_of (sv_cfg sv) s) (s_instance s) w))))))))"
    using assms by (simp add: rollback_def delete_session_def Let_def)
  show "sessions (w_db (rollback sv e s w)) =
      (if en_db e SDelete (s_instance s) then filter (\<lambda>r. s_instance r \<noteq> s_instance s) (sessions (w_db w)) else sessions (w_db w))"
    unfolding r by (simp add: same_books_D(1) [OF b, simplified] delete_row_def)
  show "w_wallet (rollback sv e s w) = w_wallet w" "w_leases (rollback sv e s w) = w_leases w"
    unfolding r using same_books_D(2,3) [OF b] by simp_all
  show "w_pods (rollback sv e s w) =
      (if en_k8s e KDelPod (s_instance s) then (w_pods w)((namespace_of (sv_cfg sv) s, s_instance s) := None) else w_pods w)"
    unfolding r by (simp add: delete_pod_pods)
qed

lemma admit_create_cases:
  assumes "admit_create sv e u s w = (w', r)"
  shows "w_pods w' = w_pods w" "w_leases w' = w_leases w"
    "r = Inl err \<Longrightarrow> w_db w' = w_db w"
    "r = Inr r' \<Longrightarrow> session_of (w_db w) (s_instance s) = None \<and> r' = s\<lparr>s_id := next_id (w_db w), s_created := en_now e\<rparr> \<and>
       sessions (w_db w') = sessions (w_db w) @ [r'] \<and> check_hard_limits (sv_cfg sv) (w_db w) u s = None \<and>
       check_capacity_cfg (sv_cfg sv) (w_db w) s [] = None"
  using assms
  by (auto simp: admit_create_def check_affordable_def create_row_def Let_def
      split: option.splits prod.splits if_splits)

lemma with_group_simps [simp]:
  "s_instance (with_group cf u s) = s_instance s" "s_phase (with_group cf u s) = s_phase s" "s_env (with_group cf u s) = s_env s"
  "s_user (with_group cf u s) = s_user s"
  by (simp_all add: with_group_def Let_def split: option.split)

lemma build_session_new:
  "s_instance (build_session cf ct cl now inst pw u q) = inst" "s_phase (build_session cf ct cl now inst pw u q) = Provisioning"
  "s_env (build_session cf ct cl now inst pw u q) = ''container''" "s_user (build_session cf ct cl now inst pw u q) = u"
  unfolding build_session_def Let_def by (cases "q_offering q"; simp add: requested_def)+

lemma create_container_failed:
  assumes run: "create_container sv e u uname q inst pw w = (w', Inl err)"
    and fresh: "session_of (w_db w) inst = None" "\<forall>ns. w_pods w (ns, inst) = None"
    and works: "en_db e SDelete inst" "en_k8s e KDelPod inst"
  shows "sessions (w_db w') = sessions (w_db w)" "w_pods w' = w_pods w" "w_leases w' = w_leases w"
proof -
  define s where "s = with_group (sv_cfg sv) u (build_session (sv_cfg sv) (en_cat e) (en_cl e) (en_now e) inst pw u q)"
  have s: "s_instance s = inst" "s_phase s = Provisioning" "\<not> ssh_env s"
    by (simp_all add: s_def build_session_new ssh_env_def)
  have "sessions (w_db w') = sessions (w_db w) \<and> w_pods w' = w_pods w \<and> w_leases w' = w_leases w"
  proof (cases "sv_charger sv \<noteq> None \<and> s_group s = None \<or> image_ref (en_cat e) (q_image q) = None")
    case True
    then show ?thesis using run by (auto simp: create_container_def Let_def s_def [symmetric] split: if_splits)
  next
    case False
    then obtain img where img: "image_ref (en_cat e) (q_image q) = Some img" and g: "\<not> (sv_charger sv \<noteq> None \<and> s_group s = None)" by auto
    obtain w1 r1 where a: "admit_create sv e u s w = (w1, r1)" by fastforce
    have run1: "(case r1 of Inl err \<Rightarrow> (w1, Inl err) | Inr r \<Rightarrow>
        (case create_provision sv e u uname q r img w1 of (w2, Inl err) \<Rightarrow> (rollback sv e r w2, Inl err)
         | (w2, Inr ids) \<Rightarrow> (audited ''session_create'' inst (attach_mounts e (s_id r) u (q_volumes q) ids w2), Inr r))) = (w', Inl err)"
      using run g img a unfolding create_container_def Let_def s_def [symmetric] by (cases r1) auto
    show ?thesis
    proof (cases r1)
      case (Inl err1)
      then have "w' = w1" using run1 by simp
      then show ?thesis using admit_create_cases(1,2) [OF a] admit_create_cases(3) [OF a Inl] by simp
    next
      case (Inr r)
      note adm = admit_create_cases(4) [OF a Inr]
      have r: "s_instance r = inst" "s_phase r = Provisioning" "\<not> ssh_env r" using adm s by (simp_all add: ssh_env_def)
      obtain w2 r2 where p: "create_provision sv e u uname q r img w1 = (w2, r2)" by fastforce
      have w': "w' = rollback sv e r w2" using run1 Inr p by (cases r2) auto
      note c = create_provision_cases [OF p]
      have b: "w_db w2 = w_db w1" "w_leases w2 = w_leases w1" using c same_books_D by blast+
      have d: "filter (\<lambda>x. s_instance x \<noteq> inst) (sessions (w_db w1)) = sessions (w_db w)"
      proof -
        have "\<forall>x \<in> set (sessions (w_db w)). s_instance x \<noteq> inst"
          using fresh(1) unfolding session_of_def row_of_None by blast
        then show ?thesis using adm r(1) by (simp add: filter_id_conv)
      qed
      have pods: "(w_pods w2)((namespace_of (sv_cfg sv) r, inst) := None) = w_pods w1"
      proof -
        have n: "w_pods w1 (namespace_of (sv_cfg sv) r, inst) = None" using admit_create_cases(1) [OF a] fresh(2) by simp
        consider "w_pods w2 = w_pods w1" | ws ms pref target ok where
          "provision (sv_cfg sv) e (namespace_of (sv_cfg sv) r) r img ms pref target ws = (w2, ok)" "w_pods ws = w_pods w1"
          using c by blast
        then show ?thesis
        proof cases
          case 1
          then show ?thesis using n by (auto simp: fun_upd_idem)
        next
          case 2
          then show ?thesis using pods_provision [OF 2(1)] n r(1) by (auto simp: fun_upd_idem)
        qed
      qed
      show ?thesis
        using rollback_books [OF r(2,3), of sv e w2] works d pods b admit_create_cases(1,2) [OF a]
        by (simp add: w' r(1))
    qed
  qed
  then show "sessions (w_db w') = sessions (w_db w)" "w_pods w' = w_pods w" "w_leases w' = w_leases w" by blast+
qed

lemma create_ssh_failed:
  assumes run: "create_ssh sv e u q inst w = (w', Inl err)"
  shows "sessions (w_db w') = sessions (w_db w)" "w_pods w' = w_pods w"
    "w_leases w' = w_leases w \<or> (\<exists>L l o1. sv_leaser sv = Some L \<and>
       lz_create L (en_now e) (q_node q) u inst (w_leases w) = (l, o1) \<and>
       ((o1 \<noteq> None \<and> w_leases w' = l) \<or> (o1 = None \<and> w_leases w' = fst (lz_release L inst l))))"
  using run
  by (auto simp: create_ssh_def admit_ssh_def check_affordable_def create_row_def ssh_session_def Let_def
      split: option.splits prod.splits if_splits sum.splits)
text \<open>Taking an exclusive lease and giving it back leaves the active leases as they were.\<close>

definition active_leases :: "lease_db \<Rightarrow> lease list" where
  "active_leases db = filter (\<lambda>l. l_status l = LeaseActive) (leases db)"

lemma create_lease_for_active:
  assumes "create_lease_for lok free now n u i db = (db', r)"
  shows "r \<noteq> None \<Longrightarrow> active_leases db' = active_leases db"
    "r = None \<Longrightarrow> free \<Longrightarrow> active_leases db' = active_leases db \<or>
       (\<exists>l. active_leases db' = active_leases db @ [l] \<and> l_node l = n \<and> l_user l = u \<and> l_instance l = i \<and> l_shared l)"
    "r = None \<Longrightarrow> \<not> free \<Longrightarrow> \<exists>l. leases db' = leases db @ [l] \<and> l_instance l = i"
  using assms
  by (auto simp: create_lease_for_def acquire_lease_def insert_lease_def set_cordon_def session_lease_def active_leases_def Let_def
      split: if_splits prod.splits sum.splits bool.splits)

lemma upd_where_other: "\<forall>x \<in> set xs. \<not> P x \<Longrightarrow> upd_where P f xs = xs"
  by (induction xs) simp_all

lemma lease_taken_and_released:
  assumes "create_lease_for lok False now n u i db = (db1, None)" "\<forall>l \<in> set (leases db). l_instance l \<noteq> i" "lok LRelease i"
  shows "active_leases (fst (release_lease_for lok False i db1)) = active_leases db"
proof -
  obtain l where l: "leases db1 = leases db @ [l]" "l_instance l = i" using create_lease_for_active(3) [OF assms(1)] by blast
  have o: "upd_where (\<lambda>l. l_instance l = i \<and> l_status l = LeaseActive) f (leases db) = leases db" for f
    by (rule upd_where_other) (use assms(2) in blast)
  have "upd_where (\<lambda>l. l_instance l = i \<and> l_status l = LeaseActive) f (xs @ ys) =
      upd_where (\<lambda>l. l_instance l = i \<and> l_status l = LeaseActive) f xs @ upd_where (\<lambda>l. l_instance l = i \<and> l_status l = LeaseActive) f ys" for f and xs ys :: "lease list"
    by (induction xs) simp_all
  then show ?thesis
    using assms(3) l o by (simp add: release_lease_for_def release_by_instance_def release_where_def set_cordon_def active_leases_def Let_def)
qed

text \<open>C7: A creation that is refused or fails at any step, container or physical, leaves no session behind: the table
  and the pods are as before, and so are the active leases, exclusive and shared (given that the statement deleting the
  row, the deletion of the pod and the release of the lease work, and that the name of the session is new). Only in
  free mode, where leases are permanent and releasing one does nothing, a physical creation that cannot write its row
  may leave its user's shared lease of the node.\<close>

theorem failed_creation_leaves_nothing:
  assumes "create_op sv e u uname q inst pw w = (w', Inl err)"
    and "session_of (w_db w) inst = None" "\<forall>ns. w_pods w (ns, inst) = None"
    and "en_db e SDelete inst" "en_k8s e KDelPod inst"
    and "sv_leaser sv = None \<or> sv_leaser sv = Some (node_leaser lok free)" "lok LRelease inst"
    and "\<forall>l \<in> set (leases (w_leases w)). l_instance l \<noteq> inst"
  shows "sessions (w_db w') = sessions (w_db w) \<and> w_pods w' = w_pods w \<and>
    (active_leases (w_leases w') = active_leases (w_leases w) \<or>
     free \<and> q_env q = ''ssh'' \<and>
       (\<exists>l. active_leases (w_leases w') = active_leases (w_leases w) @ [l] \<and> l_node l = q_node q \<and> l_user l = u \<and> l_shared l))"
proof (cases "case q_group q of None \<Rightarrow> False | Some g \<Rightarrow> \<not> is_group_member (en_cat e) u g")
  case True
  then show ?thesis using assms(1) by (simp add: create_op_def)
next
  case g: False
  show ?thesis
  proof (cases "q_env q = ''ssh''")
    case False
    then have "create_container sv e u uname q inst pw w = (w', Inl err)" using assms(1) g by (simp add: create_op_def)
    note c = create_container_failed [OF this assms(2-5)]
    show ?thesis using c by simp
  next
    case True
    then have run: "create_ssh sv e u q inst w = (w', Inl err)" using assms(1) g by (simp add: create_op_def)
    note c = create_ssh_failed [OF run]
    show ?thesis
    proof (cases "w_leases w' = w_leases w")
      case False
      then obtain l o1 where l: "create_lease_for lok free (en_now e) (q_node q) u inst (w_leases w) = (l, o1)"
        "o1 \<noteq> None \<and> w_leases w' = l \<or> o1 = None \<and> w_leases w' = fst (release_lease_for lok free inst l)"
        using c(3) assms(6) by (auto simp: node_leaser_def)
      note a = create_lease_for_active [OF l(1)]
      consider "o1 \<noteq> None" | "o1 = None" "free" | "o1 = None" "\<not> free" by blast
      then show ?thesis
      proof cases
        case 1
        then show ?thesis using a(1) l(2) c(1,2) by auto
      next
        case 2
        then have "w_leases w' = l" using l(2) by (simp add: release_lease_for_def)
        then show ?thesis using a(2) [OF 2] c(1,2) 2(2) True by auto
      next
        case 3
        then have "active_leases (w_leases w') = active_leases (w_leases w)"
          using lease_taken_and_released [of lok "en_now e" "q_node q" u inst "w_leases w" l] l assms(7,8) by simp
        then show ?thesis using c(1,2) by simp
      qed
    qed (use c(1,2) in simp)
  qed
qed

definition sample_env :: env where
  "sample_env = \<lparr>en_db = (\<lambda>_ _. True), en_k8s = (\<lambda>_ _. True), en_now = 1000 * second, en_cat = sample_catalog, en_cl = None,
     en_pod = (\<lambda>_. PodMissing), en_vols = sample_volumes, en_nfs = (\<lambda>_ _. True), en_cache = None, en_attach = (\<lambda>_ _. True)\<rparr>"

definition sample_world :: "(unit, lease_db) world" where
  "sample_world = \<lparr>w_db = empty_sessions, w_wallet = (), w_leases = empty_leases, w_pods = Map.empty, w_svcs = [],
     w_pvcs = {}, w_policies = Map.empty, w_audit = []\<rparr>"

definition sample_service :: "(unit, lease_db) session_svc" where
  "sample_service = \<lparr>sv_cfg = sample_cfg, sv_charger = None, sv_leaser = Some (node_leaser (\<lambda>_ _. True) False)\<rparr>"

definition physical_request :: create_req where
  "physical_request = sample_request\<lparr>q_env := ''ssh'', q_node := ''n1'', q_group := None\<rparr>"

theorem failed_creation_leaves_nothing_witness:
  "\<exists>w'. create_op sample_service (sample_env\<lparr>en_db := (\<lambda>st _. st \<noteq> SCreate)\<rparr>) 1 ''ann'' physical_request ''ses-1'' ''pw'' sample_world =
      (w', Inl SDbError) \<and> sessions (w_db w') = [] \<and> active_leases (w_leases w') = []"
proof -
  define E where "E = sample_env\<lparr>en_db := (\<lambda>st _. st \<noteq> SCreate)\<rparr>"
  have E: "en_db E = (\<lambda>st _. st \<noteq> SCreate)" "en_k8s E = (\<lambda>_ _. True)" by (simp_all add: E_def sample_env_def)
  have cf: "sv_cfg sample_service = sample_cfg" "cf_limits sample_cfg = None" "sv_charger sample_service = None"
    "sv_leaser sample_service = Some (node_leaser (\<lambda>_ _. True) False)"
    by (simp_all add: sample_service_def sample_cfg_def)
  define s where "s = ssh_session sample_cfg E 1 physical_request ''ses-1''"
  have s: "s_price s = 0" "s_node s = ''n1''" "s_instance s = ''ses-1''" "ssh_env s"
    by (simp_all add: s_def E_def ssh_session_def sample_env_def node_spec_def node_of_def physical_request_def price_of_def
        base_price_def gpu_type_pricing_def sample_catalog_def surge_def ssh_env_def Let_def split: option.split)
  have q: "q_env physical_request = ''ssh''" "q_node physical_request = ''n1''" "q_group physical_request = None"
    by (simp_all add: physical_request_def)
  obtain w' where w': "create_op sample_service E 1 ''ann'' physical_request ''ses-1'' ''pw'' sample_world = (w', Inl SDbError)"
    by (simp add: create_op_def create_ssh_def admit_ssh_def cf E s_def [symmetric] s q
        check_hard_limits_def check_affordable_def affordable_def balance_now_def node_leaser_def
        create_lease_for_def acquire_lease_def insert_lease_def active_lease_user_def sample_world_def empty_leases_def
        session_lease_def lease_key_def create_row_def Let_def)
  have "sessions (w_db w') = sessions (w_db sample_world) \<and> w_pods w' = w_pods sample_world \<and>
      (active_leases (w_leases w') = active_leases (w_leases sample_world) \<or>
       False \<and> q_env physical_request = ''ssh'' \<and>
         (\<exists>l. active_leases (w_leases w') = active_leases (w_leases sample_world) @ [l] \<and> l_node l = q_node physical_request \<and> l_user l = 1 \<and> l_shared l))"
    by (rule failed_creation_leaves_nothing [OF w', where lok = "\<lambda>_ _. True" and free = False])
      (simp_all add: sample_world_def empty_sessions_def session_of_def E cf empty_leases_def)
  then show ?thesis using w' unfolding E_def by (auto simp: sample_world_def empty_sessions_def empty_leases_def active_leases_def)
qed

section \<open>The pods that are made\<close>

text \<open>What a container may mount from a volume, \<open>ro\<close> being the mount's own read-only flag: what is not the user's to write
  is read-only in the claim and in the mount.\<close>

definition mount_ok ::
  "session_cfg \<Rightarrow> env \<Rightarrow> string \<Rightarrow> int \<Rightarrow> string \<Rightarrow> string option \<Rightarrow> int set \<Rightarrow> volume_source \<Rightarrow> bool \<Rightarrow> bool" where
  "mount_ok cf e ns u inst local D src ro =
     (case src of
        PvcVol c r \<Rightarrow> c = home_pvc inst \<or> c = user_home u \<or>
          (r \<and> ro \<and> (\<exists>d \<in> D. \<exists>row. dataset_mount_row (en_vols e) d = Some row \<and> c = ''ds-'' @ dec d)) \<or>
          (\<exists>vid v. row_of vr_id vid (vt_volumes (en_vols e)) = Some v \<and> may_read (en_vols e) vid u \<and>
             (r \<and> ro \<or> may_write (en_vols e) vid u) \<and> c = (if vr_ns v = ns then vr_pvc v else ''shared-'' @ dec vid))
      | HostVol h \<Rightarrow> local = Some h \<or> h = scratch_host_of cf (en_cat e) u \<or>
          (ro \<and> (\<exists>f ids. \<exists>d \<in> D. en_cache e = Some f \<and> h = pl_path (f ids) d))
      | SecretVol n \<Rightarrow> ro \<and> n = user_keys_secret u
      | EmptyVol \<Rightarrow> True | ShmVol _ \<Rightarrow> True)"

definition pod_mounts_ok ::
  "session_cfg \<Rightarrow> env \<Rightarrow> string \<Rightarrow> int \<Rightarrow> string \<Rightarrow> string option \<Rightarrow> int set \<Rightarrow> pod \<Rightarrow> bool" where
  "pod_mounts_ok cf e ns u inst local D p \<longleftrightarrow>
     distinct (map pv_name (po_volumes p)) \<and>
     (\<forall>c \<in> set (po_init p @ po_containers p). \<forall>m \<in> set (cn_mounts c).
        \<exists>v \<in> set (po_volumes p). pv_name v = pm_name m \<and> mount_ok cf e ns u inst local D (pv_source v) (pm_ro m))"

lemma mount_allowed_source:
  "mount_allowed (en_vols e) (en_cache e) ns u inst local D m \<Longrightarrow>
     mount_ok cf e ns u inst local D (if ms_host m \<noteq> [] then HostVol (ms_host m) else PvcVol (ms_pvc m) (ms_ro m)) (ms_ro m)"
  unfolding mount_allowed_def volume_mount_ok_def dataset_mount_ok_def mount_ok_def
  by (cases "ms_host m = []") (auto split: if_splits)

lemma enumerate_member: "(i, v) \<in> set (enumerate k vs) \<Longrightarrow> v \<in> set vs"
  by (induction vs arbitrary: k) auto

lemma volume_of_pair:
  "pv_name (fst (volume_of i m)) = vol_name i" "pm_name (snd (volume_of i m)) = vol_name i"
  "pv_source (fst (volume_of i m)) =
     (if ms_empty m then EmptyVol else if ms_host m \<noteq> [] then HostVol (ms_host m) else PvcVol (ms_pvc m) (ms_ro m))"
  "\<not> ms_empty m \<Longrightarrow> pm_ro (snd (volume_of i m)) = ms_ro m"
  by (simp_all add: volume_of_def Let_def)

lemma pod_spec_of_simps [simp]:
  "sp_home (pod_spec_of cf ct ns s img ms pref require) = []"
  "sp_volumes (pod_spec_of cf ct ns s img ms pref require) = ms"
  "sp_scratch (pod_spec_of cf ct ns s img ms pref require) = scratch_host_of cf ct (s_user s)"
  "sp_keys_secret (pod_spec_of cf ct ns s img ms pref require) = user_keys_secret (s_user s)"
  "sp_require (pod_spec_of cf ct ns s img ms pref require) = require"
  "sp_mode (pod_spec_of cf ct ns s img ms pref require) = s_mode s"
  "sp_type (pod_spec_of cf ct ns s img ms pref require) = s_gtype s"
  by (simp_all add: pod_spec_of_def)

text \<open>A mount of a container stands for a pair of \<open>pod_volumes\<close>, or is the keys' or the scratch directory's.\<close>

lemma built_mounts:
  assumes "c \<in> set (po_init (build_pod sp lbl) @ po_containers (build_pod sp lbl))" "m \<in> set (cn_mounts c)"
  shows "m \<in> snd ` set (pod_volumes sp) \<or>
    (m = \<lparr>pm_name = user_keys_volume, pm_path = user_keys_mount, pm_ro = True\<rparr> \<and>
      \<lparr>pv_name = user_keys_volume, pv_source = SecretVol (sp_keys_secret sp)\<rparr> \<in> set (po_volumes (build_pod sp lbl))) \<or>
    (m = \<lparr>pm_name = ''scratch'', pm_path = scratch_mount, pm_ro = False\<rparr> \<and> sp_scratch sp \<noteq> [])"
  using assms
  by (auto simp: build_pod_def Let_def prep_container_def session_container_def sshd_sidecar_def home_tree_mounts_def
      home_volume_mounts_def split: if_splits)

lemma pod_volume_pairs:
  assumes "x \<in> set (pod_volumes sp)" "sp_home sp = []"
  shows "pv_name (fst x) = pm_name (snd x) \<and>
    ((\<exists>g. pv_source (fst x) = ShmVol g) \<or> pv_source (fst x) = HostVol (sp_scratch sp) \<or>
     (\<exists>i. \<exists>v \<in> set (sp_volumes sp). x = volume_of i v))"
  using assms by (auto simp: pod_volumes_def volume_of_pair dest!: enumerate_member split: if_splits)

lemma provisioned_mounts:
  fixes cf e ns s img ms pref require
  defines "sp \<equiv> pod_spec_of cf (en_cat e) ns s img ms pref require"
  assumes "\<forall>m \<in> set ms. mount_allowed (en_vols e) (en_cache e) ns (s_user s) (s_instance s) local D m"
  shows "pod_mounts_ok cf e ns (s_user s) (s_instance s) local D (build_pod sp lbl)"
proof -
  let ?ok = "mount_ok cf e ns (s_user s) (s_instance s) local D"
  have vols: "fst ` set (pod_volumes sp) \<subseteq> set (po_volumes (build_pod sp lbl))" by (auto simp: build_pod_def Let_def)
  have pair: "pv_name (fst x) = pm_name (snd x) \<and> ?ok (pv_source (fst x)) (pm_ro (snd x))" if x: "x \<in> set (pod_volumes sp)" for x
  proof -
    have h: "sp_home sp = []" by (simp add: sp_def)
    note p = pod_volume_pairs [OF x h]
    consider (shm) g where "pv_source (fst x) = ShmVol g" | (scratch) "pv_source (fst x) = HostVol (sp_scratch sp)"
      | (vol) i v where "v \<in> set ms" "x = volume_of i v" using p by (auto simp: sp_def)
    then have "?ok (pv_source (fst x)) (pm_ro (snd x))"
    proof cases
      case vol
      then have "mount_allowed (en_vols e) (en_cache e) ns (s_user s) (s_instance s) local D v" using assms(2) by blast
      from mount_allowed_source [OF this] show ?thesis
        using volume_of_pair(3,4) [where i = i and m = v] vol(2) by (cases "ms_empty v") (simp_all add: mount_ok_def)
    qed (simp_all add: mount_ok_def sp_def)
    then show ?thesis using p by blast
  qed
  have scratch: "\<exists>x \<in> set (pod_volumes sp). snd x = \<lparr>pm_name = ''scratch'', pm_path = scratch_mount, pm_ro = False\<rparr>"
    if "sp_scratch sp \<noteq> []"
    by (rule bexI [of _ "(\<lparr>pv_name = ''scratch'', pv_source = HostVol (sp_scratch sp)\<rparr>,
        \<lparr>pm_name = ''scratch'', pm_path = scratch_mount, pm_ro = False\<rparr>)"]) (simp_all add: pod_volumes_def that)
  have "\<exists>v \<in> set (po_volumes (build_pod sp lbl)). pv_name v = pm_name m \<and> ?ok (pv_source v) (pm_ro m)"
    if c: "c \<in> set (po_init (build_pod sp lbl) @ po_containers (build_pod sp lbl))" "m \<in> set (cn_mounts c)" for c m
  proof (cases "m \<in> snd ` set (pod_volumes sp) \<or> m = \<lparr>pm_name = ''scratch'', pm_path = scratch_mount, pm_ro = False\<rparr> \<and> sp_scratch sp \<noteq> []")
    case True
    then have "\<exists>x \<in> set (pod_volumes sp). m = snd x"
      using scratch by (elim disjE conjE imageE) (blast, metis)
    then obtain x where x: "x \<in> set (pod_volumes sp)" "m = snd x" by (elim bexE)
    then have "fst x \<in> set (po_volumes (build_pod sp lbl))" using vols by blast
    then show ?thesis using pair [OF x(1)] x(2) by blast
  next
    case False
    then have m: "m = \<lparr>pm_name = user_keys_volume, pm_path = user_keys_mount, pm_ro = True\<rparr>"
      "\<lparr>pv_name = user_keys_volume, pv_source = SecretVol (sp_keys_secret sp)\<rparr> \<in> set (po_volumes (build_pod sp lbl))"
      using built_mounts [OF c] by blast+
    show ?thesis by (rule bexI [OF _ m(2)]) (simp add: m(1) mount_ok_def sp_def)
  qed
  then show ?thesis unfolding pod_mounts_ok_def using build_pod_volumes [unfolded volumes_valid_def] by blast
qed

lemma on_db_pods: "on_db f w = (w', b) \<Longrightarrow> w_pods w' = w_pods w"
  by (auto simp: on_db_def split: prod.splits)

lemma back_to_stopped_simps [simp]:
  "w_pods (back_to_stopped e i w) = w_pods w" "w_wallet (back_to_stopped e i w) = w_wallet w"
  "w_db (back_to_stopped e i w) = fst (set_phase (en_db e) i Stopped (w_db w))"
  by (simp_all add: back_to_stopped_def)

lemma settle_storage_pods [simp]: "w_pods (settle_storage sv e s w) = w_pods w" "w_leases (settle_storage sv e s w) = w_leases w"
  by (rule settle_storage_split [of s sv e w]; simp)+

text \<open>The steps of \<open>finish_start\<close>: either a home could not be made, or a pod was asked for.\<close>

lemma finish_start_cases:
  assumes "finish_start sv e s img w = (w', r)"
  shows "(\<exists>wa. same_books w wa \<and> w_pods wa = w_pods w \<and> w' = back_to_stopped e (s_instance s) wa \<and> r = Some SClusterError) \<or>
    (\<exists>ws ms pref target w5 ok.
       provision (sv_cfg sv) e (namespace_of (sv_cfg sv) s) s img ms pref target ws = (w5, ok) \<and>
       w_pods ws = w_pods w \<and> same_books w w5 \<and>
       (\<forall>m \<in> set ms. mount_allowed (en_vols e) (en_cache e) (namespace_of (sv_cfg sv) s) (s_user s) (s_instance s) None (set (session_dataset_ids (s_id s) (w_db w))) m) \<and>
       target = fst (pick_dataset_node (en_cache e) (session_dataset_ids (s_id s) (w_db w)) (en_cl e) (running_now e w) (s_gtype s) (s_mode s) (s_gpus s)) \<and>
       (if ok then r = None \<and> w' = fst (on_db (reset_billing (en_db e) (s_instance s) (en_now e))
                    (fst (on_db (clear_stopped (en_db e) (s_instance s) 0) (settle_storage sv e s w5))))
        else r = Some SClusterError \<and> w' = back_to_stopped e (s_instance s) w5))"
proof -
  define cf where "cf = sv_cfg sv"
  define ns where "ns = namespace_of cf s"
  obtain w1 vols where 1: "restart_mounts e ns (s_user s) (s_id s) w = (w1, vols)" by fastforce
  note mm = 1 [unfolded restart_mounts_def]
  obtain w2 r2 where 2: "ensure_session_home e ns s w1 = (w2, r2)" by fastforce
  have b2: "same_books w w2" by (rule same_books_trans [OF same_books_mount_all [OF mm] same_books_session_home [OF 2]])
  have p2: "w_pods w2 = w_pods w" using pods_mount_all [OF mm] pods_homes(3) [OF 2] by simp
  show ?thesis
  proof (cases r2)
    case None
    have "finish_start sv e s img w = (back_to_stopped e (s_instance s) w2, Some SClusterError)"
      unfolding finish_start_def Let_def cf_def [symmetric] ns_def [symmetric] 1 prod.case 2 None option.case by simp
    then show ?thesis using assms b2 p2 by auto
  next
    case (Some pvc)
    have pvc: "pvc = home_pvc (s_instance s)" using 2 Some by (auto simp: ensure_session_home_def Let_def split: prod.splits if_splits)
    obtain w3 r3 where 3: "shared_home cf e ns (s_user s) w2 = (w3, r3)" by fastforce
    have b3: "same_books w w3" by (rule same_books_trans [OF b2 same_books_shared_home [OF 3]])
    have p3: "w_pods w3 = w_pods w" using p2 pods_homes(2) [OF 3] by simp
    show ?thesis
    proof (cases r3)
      case None
      have "finish_start sv e s img w = (back_to_stopped e (s_instance s) w3, Some SClusterError)"
        unfolding finish_start_def Let_def cf_def [symmetric] ns_def [symmetric] 1 prod.case 2 Some option.case 3 None by simp
      then show ?thesis using assms b3 p3 by auto
    next
      case (Some nfs)
      define ids where "ids = session_dataset_ids (s_id s) (w_db w3)"
      obtain target pl where t: "pick_dataset_node (en_cache e) ids (en_cl e) (running_now e w3) (s_gtype s) (s_mode s) (s_gpus s) = (target, pl)"
        by fastforce
      obtain w4 dsets where 4: "resolve_datasets e ns ids target pl w3 = (w4, dsets)" by fastforce
      define pref where "pref = (case s_image s of None \<Rightarrow> [] | Some im \<Rightarrow> cached_nodes (en_cat e) im)"
      define home where "home = \<lparr>ms_pvc = pvc, ms_host = [], ms_empty = False, ms_path = home_mount, ms_ro = False\<rparr>"
      obtain w5 ok where 5: "provision cf e ns s img (vols @ [home] @ nfs @ dsets) pref target w4 = (w5, ok)" by fastforce
      have b4: "same_books w w4" by (rule same_books_trans [OF b3 same_books_datasets [OF 4]])
      have b5: "same_books w w5"
        using same_books_trans [OF b4 same_books_provision [of w4 cf e ns s img "vols @ [home] @ nfs @ dsets" pref target]]
        by (simp only: 5 fst_conv)
      have p4: "w_pods w4 = w_pods w" using p3 pods_datasets [OF 4] by simp
      have run: "finish_start sv e s img w = (if \<not> ok then (back_to_stopped e (s_instance s) w5, Some SClusterError)
          else (fst (on_db (reset_billing (en_db e) (s_instance s) (en_now e))
                  (fst (on_db (clear_stopped (en_db e) (s_instance s) 0) (settle_storage sv e s w5)))), None))"
        unfolding finish_start_def Let_def cf_def [symmetric] ns_def [symmetric] 1 prod.case 2 \<open>r2 = Some pvc\<close> option.case 3 Some
          ids_def [symmetric] t 4 pref_def [symmetric] home_def [symmetric] 5 by simp
      have idseq: "running_now e w3 = running_now e w" "ids = session_dataset_ids (s_id s) (w_db w)"
        using same_books_D(1) [OF b3] by (simp_all add: ids_def running_now_def)
      have al: "\<forall>m \<in> set (vols @ [home] @ nfs @ dsets).
          mount_allowed (en_vols e) (en_cache e) ns (s_user s) (s_instance s) None (set (session_dataset_ids (s_id s) (w_db w))) m"
        using mount_all_ok [OF mm] resolve_datasets_ok [OF 4 pick_dataset_node_placement [OF t] subset_refl] idseq(2) shared_home_ok [OF 3 [unfolded Some]]
        by (auto intro: mount_allowed_volume mount_allowed_dataset simp: home_def pvc) (simp add: mount_allowed_def)
      have tg: "target = fst (pick_dataset_node (en_cache e) (session_dataset_ids (s_id s) (w_db w)) (en_cl e) (running_now e w)
          (s_gtype s) (s_mode s) (s_gpus s))"
        using idseq t by simp
      show ?thesis
        using assms 5 p4 b5 al run tg unfolding ns_def cf_def
        by (intro disjI2 exI [of _ w4] exI [of _ "vols @ [home] @ nfs @ dsets"] exI [of _ pref] exI [of _ target]
            exI [of _ w5] exI [of _ ok]) auto
    qed
  qed
qed
lemma provisioned_pod_ok:
  assumes "provision cf e ns s img ms pref require ws = (w', ok)"
    and "\<forall>m \<in> set ms. mount_allowed (en_vols e) (en_cache e) ns (s_user s) (s_instance s) local D m"
    and "w_pods w' k = Some p" "w_pods ws k \<noteq> Some p"
  shows "k = (ns, s_instance s) \<and> pod_mounts_ok cf e ns (s_user s) (s_instance s) local D p"
proof -
  have k: "k = (ns, s_instance s)" "p = build_pod (pod_spec_of cf (en_cat e) ns s img ms pref require) (cf_gpu_label cf)"
    using pods_provision [OF assms(1)] assms(3,4) by (auto split: if_splits)
  show ?thesis using provisioned_mounts [OF assms(2)] unfolding k by blast
qed

lemma admit_create_user: "admit_create sv e u s w = (w', Inr r) \<Longrightarrow> s_user r = s_user s \<and> s_instance r = s_instance s"
  by (auto simp: admit_create_def create_row_def Let_def split: option.splits prod.splits if_splits)

lemma create_container_pod:
  assumes run: "create_container sv e u uname q inst pw w = (w', r)"
    and p: "w_pods w' k = Some p" "w_pods w k \<noteq> Some p"
  shows "snd k = inst \<and>
    pod_mounts_ok (sv_cfg sv) e (fst k) u inst (leased_home (sv_cfg sv) e u uname q) (open_datasets (en_vols e)) p"
proof -
  define s where "s = with_group (sv_cfg sv) u (build_session (sv_cfg sv) (en_cat e) (en_cl e) (en_now e) inst pw u q)"
  have s: "s_instance s = inst" "s_phase s = Provisioning" "\<not> ssh_env s" "s_user s = u"
    by (simp_all add: s_def build_session_new ssh_env_def)
  show ?thesis
  proof (cases "sv_charger sv \<noteq> None \<and> s_group s = None \<or> image_ref (en_cat e) (q_image q) = None")
    case True
    then have "w' = w" using run by (auto simp: create_container_def Let_def s_def [symmetric] split: if_splits)
    then show ?thesis using p by simp
  next
    case False
    then obtain img where img: "image_ref (en_cat e) (q_image q) = Some img" and g: "\<not> (sv_charger sv \<noteq> None \<and> s_group s = None)" by auto
    obtain w1 r1 where a: "admit_create sv e u s w = (w1, r1)" by fastforce
    note pa = admit_create_cases(1) [OF a]
    have run1: "(case r1 of Inl err \<Rightarrow> (w1, Inl err) | Inr r \<Rightarrow>
        (case create_provision sv e u uname q r img w1 of (w2, Inl err) \<Rightarrow> (rollback sv e r w2, Inl err)
         | (w2, Inr ids) \<Rightarrow> (audited ''session_create'' inst (attach_mounts e (s_id r) u (q_volumes q) ids w2), Inr r))) = (w', r)"
      using run g img a unfolding create_container_def Let_def s_def [symmetric] by (cases r1) auto
    show ?thesis
    proof (cases r1)
      case (Inl err1)
      then show ?thesis using run1 pa p by simp
    next
      case (Inr row)
      have u: "s_user row = u" "s_instance row = inst" "s_phase row = Provisioning" "\<not> ssh_env row"
        using admit_create_cases(4) [OF a Inr] s by (simp_all add: ssh_env_def)
      obtain w2 r2 where c: "create_provision sv e u uname q row img w1 = (w2, r2)" by fastforce
      have pods: "w_pods w2 k = Some p"
      proof (cases r2)
        case (Inl err)
        then have "w' = rollback sv e row w2" using run1 Inr c by simp
        then show ?thesis using p(1) rollback_books(4) [OF u(3,4), of sv e w2] by (auto split: if_splits)
      next
        case (Inr ids)
        then have "w_pods w' = w_pods w2" using run1 \<open>r1 = Inr row\<close> c by (auto simp: audited_def attach_mounts_def)
        then show ?thesis using p(1) by simp
      qed
      have "w_pods w1 k \<noteq> Some p" using p(2) pa by simp
      then obtain ws ms pref target ok where pr:
        "provision (sv_cfg sv) e (namespace_of (sv_cfg sv) row) row img ms pref target ws = (w2, ok)" "w_pods ws = w_pods w1"
        "\<forall>m \<in> set ms. mount_allowed (en_vols e) (en_cache e) (namespace_of (sv_cfg sv) row) u (s_instance row) (leased_home (sv_cfg sv) e u uname q) (open_datasets (en_vols e)) m"
        using create_provision_cases [OF c] pods by auto
      show ?thesis
        using provisioned_pod_ok [OF pr(1) pr(3) [folded u(1)] pods] pr(2) \<open>w_pods w1 k \<noteq> Some p\<close> u by simp
    qed
  qed
qed

lemma create_op_pod:
  assumes "create_op sv e u uname q inst pw w = (w', r)" "w_pods w' k = Some p" "w_pods w k \<noteq> Some p"
  shows "snd k = inst \<and>
    pod_mounts_ok (sv_cfg sv) e (fst k) u inst (leased_home (sv_cfg sv) e u uname q) (open_datasets (en_vols e)) p"
proof -
  have "w_pods w' = w_pods w" if "create_ssh sv e u q inst w = (w', r)"
    using that
    by (auto simp: create_ssh_def admit_ssh_def check_affordable_def Let_def audited_def attach_mounts_def
        split: option.splits prod.splits if_splits sum.splits)
  then have "create_container sv e u uname q inst pw w = (w', r)"
    using assms by (auto simp: create_op_def split: if_splits)
  then show ?thesis using create_container_pod assms(2,3) by blast
qed

lemma get_session_row: "get_session ok i u db = Some s \<Longrightarrow> s_instance s = i \<and> s_user s = u \<and> s \<in> set (sessions db)"
  by (auto simp: get_session_def find_Some_iff split: if_splits)

lemma admit_start_pods: "admit_start sv e s w = (w', r) \<Longrightarrow> w_pods w' = w_pods w"
  by (auto simp: admit_start_def split: option.splits prod.splits bool.splits)

lemma admit_start_datasets: "admit_start sv e s w = (w', r) \<Longrightarrow> session_dataset_ids k (w_db w') = session_dataset_ids k (w_db w)"
  by (auto simp: admit_start_def claim_for_start_def session_dataset_ids_def split: option.splits prod.splits bool.splits if_splits)

lemma start_op_pod:
  assumes run: "start_op sv e i u w = (w', r)" and p: "w_pods w' k = Some p" "w_pods w k \<noteq> Some p"
  shows "snd k = i \<and> pod_mounts_ok (sv_cfg sv) e (fst k) u i None (recorded_datasets e i u (w_db w)) p"
proof -
  obtain s where s: "get_session (en_db e) i u (w_db w) = Some s"
    using run p by (auto simp: start_op_def split: option.splits)
  note row = get_session_row [OF s]
  show ?thesis
  proof (cases "ssh_env s")
    case True
    then have "w_pods w' = w_pods w"
      using run s by (auto simp: start_op_def start_ssh_def Let_def split: option.splits prod.splits bool.splits dest: on_db_pods)
    then show ?thesis using p by simp
  next
    case False
    then have run1: "start_container sv e s w = (w', r)" using run s by (simp add: start_op_def)
    then obtain im img where im: "s_image s = Some im" "image_ref (en_cat e) im = Some img"
      using p by (auto simp: start_container_def split: option.splits)
    obtain w1 r1 where a: "admit_start sv e s w = (w1, r1)" by fastforce
    note pa = admit_start_pods [OF a]
    have "r1 = None" using run1 im a pa p by (cases r1) (auto simp: start_container_def)
    then have f: "finish_start sv e s img w1 = (w', r)" using run1 im a by (simp add: start_container_def)
    have "\<not> (\<exists>wa. same_books w1 wa \<and> w_pods wa = w_pods w1 \<and> w' = back_to_stopped e (s_instance s) wa \<and> r = Some SClusterError)"
      using pa p by auto
    then obtain ws ms pref target w5 ok where pr:
      "provision (sv_cfg sv) e (namespace_of (sv_cfg sv) s) s img ms pref target ws = (w5, ok)" "w_pods ws = w_pods w1"
      "\<forall>m \<in> set ms. mount_allowed (en_vols e) (en_cache e) (namespace_of (sv_cfg sv) s) (s_user s) (s_instance s) None (set (session_dataset_ids (s_id s) (w_db w1))) m"
      and w': "if ok then r = None \<and> w' = fst (on_db (reset_billing (en_db e) (s_instance s) (en_now e))
                    (fst (on_db (clear_stopped (en_db e) (s_instance s) 0) (settle_storage sv e s w5))))
        else r = Some SClusterError \<and> w' = back_to_stopped e (s_instance s) w5"
      using finish_start_cases [OF f] by blast
    have "w_pods w' = w_pods w5" using w' by (cases ok) simp_all
    note pr = pr this
    have D: "set (session_dataset_ids (s_id s) (w_db w1)) = recorded_datasets e i u (w_db w)"
      using admit_start_datasets [OF a] s by (simp add: recorded_datasets_def)
    show ?thesis using provisioned_pod_ok [OF pr(1,3), of k p] pr(2,4) pa p row unfolding D by simp
  qed
qed

text \<open>C1: Whatever a request asks for, the containers of the pod that creating or starting a session makes (always
  under that session's own name) mount only what its user may: claims of volumes the user can read, with claim and
  mount read-only unless the user can write the volume, the session's and the user's own homes, the user's keys
  read-only, and of the node's disk the user's scratch directory and, at creation, the user's directory on a node they
  have leased. Datasets, as a claim or from a node's cache, are mounted read-only: at creation those that are
  global, active and loaded, at a start those recorded for the session.\<close>

theorem pods_mount_only_what_the_user_may:
  "(create_op sv e u uname q inst pw w = (w', r) \<longrightarrow> w_pods w' k = Some p \<longrightarrow> w_pods w k \<noteq> Some p \<longrightarrow>
      snd k = inst \<and>
      pod_mounts_ok (sv_cfg sv) e (fst k) u inst (leased_home (sv_cfg sv) e u uname q) (open_datasets (en_vols e)) p) \<and>
   (start_op sv e inst u w = (w', err) \<longrightarrow> w_pods w' k = Some p \<longrightarrow> w_pods w k \<noteq> Some p \<longrightarrow>
      snd k = inst \<and> pod_mounts_ok (sv_cfg sv) e (fst k) u inst None (recorded_datasets e inst u (w_db w)) p)"
  using create_op_pod [of sv e u uname q inst pw w w' r k p] start_op_pod [of sv e inst u w w' err k p] by blast

definition cpu_request :: create_req where
  "cpu_request = sample_request\<lparr>q_mode := ''cpu'', q_type := [], q_offering := None, q_group := None,
     q_volumes := [\<lparr>vm_id = 1, vm_path = ''/data'', vm_perm = ''rw''\<rparr>]\<rparr>"

lemma sample_simps [simp]:
  "sv_cfg sample_service = sample_cfg" "sv_charger sample_service = None"
  "sv_leaser sample_service = Some (node_leaser (\<lambda>_ _. True) False)" "cf_limits sample_cfg = None" "cf_gate sample_cfg = None"
  "cf_max_stopped sample_cfg = 3" "cf_shared_home sample_cfg" "cf_ns_prefix sample_cfg = ''giosk-''" "cf_sshd sample_cfg = ''sshd:1''"
  "en_db sample_env = (\<lambda>_ _. True)" "en_k8s sample_env = (\<lambda>_ _. True)" "en_vols sample_env = sample_volumes"
  "en_cache sample_env = None" "en_cat sample_env = sample_catalog" "mountable_datasets sample_volumes = []"
  "w_db sample_world = empty_sessions" "w_pods sample_world = Map.empty" "image_ref sample_catalog 1 = Some ''base:1.0''"
  "session_of empty_sessions i = None" "w_leases sample_world = empty_leases"
  by (simp_all add: sample_service_def sample_cfg_def sample_env_def sample_volumes_def mountable_datasets_def sample_world_def
      image_ref_def sample_catalog_def session_of_def empty_sessions_def)

lemma pod_spec_names [simp]: "sp_ns (pod_spec_of cf ct ns s img ms pref require) = ns"
  "sp_name (pod_spec_of cf ct ns s img ms pref require) = s_instance s"
  by (simp_all add: pod_spec_of_def)

lemma apply_egress_pods: "w_pods (apply_egress cf e ns w) = w_pods w" by simp

lemma service_ok: "snd (ensure_session_service (\<lambda>_. True) sp vs)"
  by (simp add: ensure_session_service_def Let_def split: option.split)

lemma provision_fresh:
  assumes "en_k8s e = (\<lambda>_. \<lambda>_. True)" "w_pods w (ns, s_instance s) = None"
  shows "\<exists>w'. provision cf e ns s img ms pref target w = (w', True) \<and>
    w_pods w' = (w_pods w)((ns, s_instance s) \<mapsto> build_pod (pod_spec_of cf (en_cat e) ns s img ms pref target) (cf_gpu_label cf))"
proof -
  obtain vs ok where v: "ensure_session_service (\<lambda>_. True) (svc_spec_of cf (en_cat e) ns s) (w_svcs (apply_egress cf e ns w)) = (vs, ok)"
    by fastforce
  then have "ok" using service_ok [of "svc_spec_of cf (en_cat e) ns s" "w_svcs (apply_egress cf e ns w)"] by simp
  then show ?thesis using assms v by (simp add: provision_def create_pod_def Let_def)
qed

lemma cpu_pod: "\<exists>w' r p. create_op sample_service sample_env 2 ''bob'' cpu_request ''ses-1'' ''pw'' sample_world = (w', r) \<and>
   w_pods w' (''giosk-user-2'', ''ses-1'') = Some p"
proof -
  define s where "s = build_session sample_cfg sample_catalog (en_cl sample_env) (en_now sample_env) ''ses-1'' ''pw'' 2 cpu_request"
  have d2: "dec 2 = ''2''" by code_simp
  have q: "q_group cpu_request = None" "q_env cpu_request \<noteq> ''ssh''" "q_image cpu_request = 1" "q_local_home cpu_request = []" "q_node cpu_request = []"
    by (simp_all add: cpu_request_def sample_request_def)
  have s: "s_instance s = ''ses-1''" "s_user s = 2" "\<not> ssh_env s"
    by (simp_all add: s_def build_session_new ssh_env_def)
  have g: "s_group s = None"
    by (simp add: s_def build_session_def Let_def requested_def cpu_request_def)
  have wg: "with_group sample_cfg 2 s = s" by (simp add: with_group_def g)
  define r where "r = s\<lparr>s_id := next_id empty_sessions, s_created := en_now sample_env\<rparr>"
  have r: "s_instance r = ''ses-1''" "s_user r = 2" "s_group r = None" by (simp_all add: r_def s g)
  have ns: "namespace_of sample_cfg r = ''giosk-user-2''" by (simp add: namespace_of_def r d2)
  have db: "create_row (\<lambda>_ _. True) (en_now sample_env) s empty_sessions = (empty_sessions\<lparr>sessions := [r], next_id := 2\<rparr>, Some r)"
    by (simp add: create_row_def r_def Let_def)
      (simp add: empty_sessions_def)
  have hard: "check_hard_limits sample_cfg empty_sessions 2 s = None"
    by (simp add: check_hard_limits_def check_resource_limits_def check_home_quota_def s count_stopped_def empty_sessions_def)
  have cap: "check_capacity_cfg sample_cfg empty_sessions s [] = None" by (simp add: check_capacity_cfg_def check_capacity_on_def)
  have aff: "check_affordable sample_service 2 (gid_of s) (s_price s) sample_world = (sample_world, None)"
    by (simp add: check_affordable_def affordable_def balance_now_def)
  define w1 where "w1 = sample_world\<lparr>w_db := empty_sessions\<lparr>sessions := [r], next_id := 2\<rparr>\<rparr>"
  have a: "admit_create sample_service sample_env 2 s sample_world = (w1, Inr r)" "w_pods w1 = Map.empty"
    by (simp_all add: admit_create_def hard aff cap db w1_def)
  have img: "image_ref (en_cat sample_env) (q_image cpu_request) = Some ''base:1.0''" by (simp add: q)
  obtain w2 vols where m: "mount_all sample_env ''giosk-user-2'' 2 (q_volumes cpu_request) w1 = (w2, vols)" by fastforce
  have p2: "w_pods w2 = Map.empty" using pods_mount_all [OF m] a(2) by simp
  define pod where "pod = (\<lambda>ms pref. build_pod (pod_spec_of sample_cfg sample_catalog ''giosk-user-2'' r ''base:1.0'' ms pref []) (cf_gpu_label sample_cfg))"
  define wb where "wb = w2\<lparr>w_pvcs := insert (''giosk-user-2'', user_home 2) (insert (''giosk-user-2'', home_pvc ''ses-1'') (w_pvcs w2))\<rparr>"
  define ms where "ms = vols @ [\<lparr>ms_pvc = home_pvc ''ses-1'', ms_host = [], ms_empty = False, ms_path = home_mount, ms_ro = False\<rparr>,
    \<lparr>ms_pvc = user_home 2, ms_host = [], ms_empty = False, ms_path = home_mount @ ''/nfs'', ms_ro = False\<rparr>]"
  have "w_pods wb (''giosk-user-2'', s_instance r) = None" "en_k8s sample_env = (\<lambda>_. \<lambda>_. True)" by (simp_all add: wb_def p2)
  from provision_fresh [OF this(2,1), of sample_cfg "''base:1.0''" ms "cached_nodes sample_catalog 1" "[]"]
  obtain w3 p where w3: "provision sample_cfg sample_env ''giosk-user-2'' r ''base:1.0'' ms (cached_nodes sample_catalog 1) [] wb = (w3, True)"
    "w_pods w3 (''giosk-user-2'', ''ses-1'') = Some p" by (auto simp: r)
  have pr: "create_provision sample_service sample_env 2 ''bob'' cpu_request r ''base:1.0'' w1 = (w3, Inr [])"
    using w3(1)
    by (simp add: create_provision_def ns m create_home_def ensure_session_home_def create_pvc_def shared_home_def ensure_home_def
        q pick_dataset_node_def r wb_def ms_def Let_def)
  show ?thesis
    using pr w3(2) by (simp add: create_op_def q create_container_def s_def [symmetric] wg a(1) Let_def audited_def attach_mounts_def)
qed

theorem pods_mount_only_what_the_user_may_witness:
  "\<exists>w r p. create_op sample_service sample_env 2 ''bob'' cpu_request ''ses-1'' ''pw'' sample_world = (w, r) \<and>
     w_pods w (''giosk-user-2'', ''ses-1'') = Some p \<and>
     (\<nexists>c m v. c \<in> set (po_containers p) \<and> m \<in> set (cn_mounts c) \<and> v \<in> set (po_volumes p) \<and> pv_name v = pm_name m \<and>
        pv_source v = PvcVol ''shared-1'' False)"
proof -
  obtain w r p where c: "create_op sample_service sample_env 2 ''bob'' cpu_request ''ses-1'' ''pw'' sample_world = (w, r)"
    "w_pods w (''giosk-user-2'', ''ses-1'') = Some p" using cpu_pod by blast
  have "w_pods sample_world (''giosk-user-2'', ''ses-1'') \<noteq> Some p" by simp
  then have ok: "pod_mounts_ok (sv_cfg sample_service) sample_env ''giosk-user-2'' 2 ''ses-1''
      (leased_home (sv_cfg sample_service) sample_env 2 ''bob'' cpu_request) (open_datasets (en_vols sample_env)) p"
    using c pods_mount_only_what_the_user_may [of sample_service sample_env 2 "''bob''" cpu_request "''ses-1''" "''pw''" sample_world w r "(''giosk-user-2'', ''ses-1'')" p None]
    by simp
  have no: "\<not> mount_ok cf sample_env ns 2 ''ses-1'' lc D (PvcVol ''shared-1'' False) ro" for cf ns lc D ro
    by (auto simp: mount_ok_def home_pvc_def user_home_def row_of_def may_write_def sample_volumes_def split: if_splits)
  have "pv_source v \<noteq> PvcVol ''shared-1'' False"
    if m: "cc \<in> set (po_containers p)" "m \<in> set (cn_mounts cc)" "v \<in> set (po_volumes p)" "pv_name v = pm_name m" for cc m v
  proof -
    have "cc \<in> set (po_init p @ po_containers p)" using m(1) by simp
    then obtain v' where v': "v' \<in> set (po_volumes p)" "pv_name v' = pm_name m"
      "mount_ok (sv_cfg sample_service) sample_env ''giosk-user-2'' 2 ''ses-1''
        (leased_home (sv_cfg sample_service) sample_env 2 ''bob'' cpu_request) (open_datasets (en_vols sample_env)) (pv_source v') (pm_ro m)"
      using ok m(2) unfolding pod_mounts_ok_def by blast
    have "v' = v" using ok m(3,4) v'(1,2) unfolding pod_mounts_ok_def by (auto simp: distinct_map inj_on_def)
    then show ?thesis using v'(3) no by metis
  qed
  then show ?thesis using c by blast
qed

end
