(* ===== verification/Session_Reapers.thy ===== *)
theory Session_Reapers
  imports Session_Lifecycle
begin

text \<open>
  The loops that stop and delete sessions on their own (\<open>internal/session/service.go\<close>,
  \<open>homereaper.go\<close>): the idle reaper with its reading of the metrics, the phase reconciler with its
  reaper of sessions that never got a node, the lease reaper, and the two stages of the home reaper.
  One tick of each is an operation on the world at one instant; the answers of the metrics server
  and the listing of the cluster's claims are arguments.
\<close>

section \<open>Stopping a session from the system\<close>

definition auto_stop :: "('w, 'l) session_svc \<Rightarrow> env \<Rightarrow> string \<Rightarrow> session \<Rightarrow> ('w, 'l) world \<Rightarrow> ('w, 'l) world" where
  "auto_stop sv e action s w =
     (let i = s_instance s; ns = namespace_of (sv_cfg sv) s;
          w1 = settle sv e s True w;
          w2 = (if ssh_env s then release_lease_of sv i w1
                else (let wa = fst (delete_pod e ns i w1); wb = fst (delete_svc e ns i wa)
                      in fst (on_db (mark_stopped (en_db e) i (en_now e)) wb)));
          (w3, ok) = on_db (set_phase (en_db e) i Stopped) w2
      in if ok then audited action i w3 else w3)"

section \<open>The idle reaper\<close>

text \<open>A number read from the metrics server, which may be \<open>NaN\<close>: then every comparison is false.\<close>

datatype metric = Reading rat | NotANumber

definition below :: "rat \<Rightarrow> metric \<Rightarrow> bool" where
  "below c v = (case v of Reading x \<Rightarrow> x < c | NotANumber \<Rightarrow> False)"

definition at_least :: "rat \<Rightarrow> metric \<Rightarrow> bool" where
  "at_least c v = (case v of Reading x \<Rightarrow> c \<le> x | NotANumber \<Rightarrow> False)"

text \<open>The four queries: the average use of a shared session's slice over the window, the number of
  hosts the monitor reports, and the average use and power of a node.\<close>

datatype query = SliceUse string int | MonitoredHosts | NodeUse string int | NodePower string int

type_synonym metrics = "query \<Rightarrow> metric option"

definition idle_gpu_threshold :: rat where "idle_gpu_threshold = 5"
definition idle_gpu_power :: rat where "idle_gpu_power = 60"

text \<open>\<open>isIdle\<close>: \<open>None\<close> is a verdict that cannot be given.\<close>

definition is_idle :: "metrics \<Rightarrow> int \<Rightarrow> session \<Rightarrow> bool option" where
  "is_idle met window s =
     (if s_mode s = ''cpu'' then None
      else if s_mode s = ''shared''
      then (case met (SliceUse (s_instance s) window) of
              Some v \<Rightarrow> Some (below idle_gpu_threshold v)
            | None \<Rightarrow> (case met MonitoredHosts of
                  Some v \<Rightarrow> (case v of Reading x \<Rightarrow> if 0 < x then Some True else None | NotANumber \<Rightarrow> None)
                | None \<Rightarrow> None))
      else if s_mode s = ''timeslice'' then None
      else (case met (NodeUse (s_node s) window) of
              None \<Rightarrow> None
            | Some v \<Rightarrow>
                if at_least idle_gpu_threshold v then Some False
                else (case met (NodePower (s_node s) window) of
                        Some p \<Rightarrow> Some (\<not> at_least idle_gpu_power p)
                      | None \<Rightarrow> Some True)))"

definition run_start :: "session \<Rightarrow> time" where
  "run_start s = (case s_started s of Some t \<Rightarrow> if s_created s < t then t else s_created s | None \<Rightarrow> s_created s)"

definition idle_due :: "env \<Rightarrow> metrics \<Rightarrow> int \<Rightarrow> session \<Rightarrow> bool" where
  "idle_due e met window s \<longleftrightarrow>
     \<not> en_now e - run_start s < window * minute \<and> is_idle met window s = Some True"

definition reap_idle_once :: "('w, 'l) session_svc \<Rightarrow> env \<Rightarrow> metrics \<Rightarrow> int \<Rightarrow> ('w, 'l) world \<Rightarrow> ('w, 'l) world" where
  "reap_idle_once sv e met window w =
     (if en_db e SList ''running''
      then fold (\<lambda>s w. if idle_due e met window s then auto_stop sv e ''session_idle_stop'' s w else w)
             (list_running (w_db w)) w
      else w)"

definition count_idle_running :: "env \<Rightarrow> metrics option \<Rightarrow> ('w, 'l) world \<Rightarrow> int" where
  "count_idle_running e met w =
     (case met of None \<Rightarrow> 0
      | Some m \<Rightarrow> if en_db e SList ''running'' then int (length (filter (idle_due e m 5) (list_running (w_db w)))) else 0)"

section \<open>The phase reconciler\<close>

abbreviation unschedulable_grace :: duration where "unschedulable_grace \<equiv> 3 * minute"

definition reap_unschedulable :: "('w, 'l) session_svc \<Rightarrow> env \<Rightarrow> session \<Rightarrow> ('w, 'l) world \<Rightarrow> ('w, 'l) world" where
  "reap_unschedulable sv e s w =
     (if ssh_env s \<or> s_phase s \<noteq> Provisioning \<or> s_node s \<noteq> [] then w
      else case s_started s of None \<Rightarrow> w
      | Some since \<Rightarrow>
          if en_now e - since < unschedulable_grace then w
          else (case en_pod e (s_instance s) of
              PodMissing \<Rightarrow> auto_stop sv e ''session_orphaned'' s w
            | PodUnknown \<Rightarrow> w
            | PodIs st \<Rightarrow> if ps_unschedulable st then auto_stop sv e ''session_unschedulable'' s w else w))"

definition reconcile_one :: "('w, 'l) session_svc \<Rightarrow> env \<Rightarrow> session \<Rightarrow> ('w, 'l) world \<Rightarrow> ('w, 'l) world" where
  "reconcile_one sv e s w = (let (w1, s') = refresh_live e s w in reap_unschedulable sv e s' w1)"

definition reconcile_once :: "('w, 'l) session_svc \<Rightarrow> env \<Rightarrow> ('w, 'l) world \<Rightarrow> ('w, 'l) world" where
  "reconcile_once sv e w =
     (if en_db e SList ''active'' then fold (reconcile_one sv e) (list_active_container (w_db w)) w else w)"

section \<open>The lease reaper\<close>

definition lease_hours :: "session_cfg \<Rightarrow> session \<Rightarrow> int" where
  "lease_hours cf s = cf_lease_max_hours cf + s_extensions s * cf_lease_ext_hours cf"

definition lease_over :: "session_cfg \<Rightarrow> time \<Rightarrow> session \<Rightarrow> bool" where
  "lease_over cf now s \<longleftrightarrow>
     \<not> ssh_env s \<and> 0 < lease_hours cf s \<and>
     (case s_started s of None \<Rightarrow> False | Some t \<Rightarrow> lease_hours cf s * hour \<le> now - t)"

definition reap_lease_once :: "('w, 'l) session_svc \<Rightarrow> env \<Rightarrow> ('w, 'l) world \<Rightarrow> ('w, 'l) world" where
  "reap_lease_once sv e w =
     (if en_db e SList ''running''
      then fold (\<lambda>s w. if lease_over (sv_cfg sv) (en_now e) s then auto_stop sv e ''session_lease_expired'' s w else w)
             (list_running (w_db w)) w
      else w)"


section \<open>The home reaper\<close>

text \<open>The most recently stopped session of each user among the rows, with its time; of equal times the
  first row is kept.\<close>

definition profile_step :: "session \<Rightarrow> (int \<Rightarrow> (string \<times> time) option) \<Rightarrow> (int \<Rightarrow> (string \<times> time) option)" where
  "profile_step s keep =
     (case s_stopped_since s of None \<Rightarrow> keep
      | Some t \<Rightarrow> (case keep (s_user s) of
            None \<Rightarrow> keep(s_user s \<mapsto> (s_instance s, t))
          | Some (_, t') \<Rightarrow> if t' < t then keep(s_user s \<mapsto> (s_instance s, t)) else keep))"

definition stopped_profile :: "session list \<Rightarrow> int \<Rightarrow> (string \<times> time) option" where
  "stopped_profile rows = fold profile_step rows Map.empty"

definition mark_unmarked :: "env \<Rightarrow> session list \<Rightarrow> ('w, 'l) world \<Rightarrow> ('w, 'l) world" where
  "mark_unmarked e rows w =
     fold (\<lambda>s w. if s_stopped_since s = None
                  then fst (on_db (mark_stopped (en_db e) (s_instance s) (en_now e)) w) else w) rows w"

definition reclaimable :: "time \<Rightarrow> int \<Rightarrow> (int \<Rightarrow> (string \<times> time) option) \<Rightarrow> session \<Rightarrow> bool" where
  "reclaimable now ttl_days keep s \<longleftrightarrow>
     (case s_stopped_since s of None \<Rightarrow> False | Some t \<Rightarrow> \<not> now - t < ttl_days * 24 * hour) \<and>
     (case keep (s_user s) of None \<Rightarrow> [] | Some (i, _) \<Rightarrow> i) \<noteq> s_instance s"

definition reap_stale_one :: "('w, 'l) session_svc \<Rightarrow> env \<Rightarrow> session \<Rightarrow> ('w, 'l) world \<Rightarrow> ('w, 'l) world" where
  "reap_stale_one sv e s w =
     (let (w1, ok) = delete_session sv e s w in if ok then audited ''session_home_reap'' (s_instance s) w1 else w1)"

definition reap_stale_homes :: "('w, 'l) session_svc \<Rightarrow> env \<Rightarrow> ('w, 'l) world \<Rightarrow> ('w, 'l) world" where
  "reap_stale_homes sv e w =
     (case cf_home_ttl_days (sv_cfg sv) of None \<Rightarrow> w
      | Some days \<Rightarrow>
          if days \<le> 0 \<or> \<not> en_db e SList ''stopped'' then w
          else (let rows = list_stopped (w_db w); keep = stopped_profile rows
                in fold (\<lambda>s w. if reclaimable (en_now e) days keep s then reap_stale_one sv e s w else w) rows
                     (mark_unmarked e rows w)))"

text \<open>The claims of the cluster as the API server lists them; \<open>ListPVCsByPrefix\<close> keeps those the system
  made itself.\<close>

record claim =
  cl_ns :: string
  cl_name :: string
  cl_managed :: bool
  cl_created :: time

definition list_pvcs_by_prefix :: "string \<Rightarrow> claim list \<Rightarrow> claim list" where
  "list_pvcs_by_prefix pre cs = filter (\<lambda>c. cl_managed c \<and> has_prefix pre (cl_name c)) cs"

text \<open>\<open>ListAll\<close> joins the users: a row whose user does not exist is not in it.\<close>

definition list_all_ids :: "catalog \<Rightarrow> session_db \<Rightarrow> string list" where
  "list_all_ids ct db = map s_instance (filter (\<lambda>s. s_user s \<in> set (map fst (ct_users ct))) (sessions db))"

abbreviation orphan_grace :: duration where "orphan_grace \<equiv> hour"

definition orphaned :: "time \<Rightarrow> string list \<Rightarrow> claim \<Rightarrow> bool" where
  "orphaned now live c \<longleftrightarrow> \<not> now - cl_created c < orphan_grace \<and> trim_prefix ''sh-'' (cl_name c) \<notin> set live"

definition reap_orphan_one :: "env \<Rightarrow> claim \<Rightarrow> ('w, 'l) world \<Rightarrow> ('w, 'l) world" where
  "reap_orphan_one e c w =
     (let (w1, ok) = delete_pvc e (cl_ns c) (cl_name c) w
      in if ok then audited ''session_home_orphan_reap'' (trim_prefix ''sh-'' (cl_name c)) w1 else w1)"

definition reap_orphan_homes :: "env \<Rightarrow> claim list option \<Rightarrow> ('w, 'l) world \<Rightarrow> ('w, 'l) world" where
  "reap_orphan_homes e claims w =
     (case claims of None \<Rightarrow> w
      | Some cs \<Rightarrow>
          if \<not> en_db e SList ''all'' then w
          else (let live = list_all_ids (en_cat e) (w_db w)
                in fold (\<lambda>c w. if orphaned (en_now e) live c then reap_orphan_one e c w else w)
                     (list_pvcs_by_prefix ''sh-'' cs) w))"

section \<open>What the orphan reaper deletes\<close>

lemma reap_orphan_fold:
  "w_pvcs (fold (\<lambda>c w. if P c then reap_orphan_one e c w else w) cs w) =
     w_pvcs w - (\<lambda>c. (cl_ns c, cl_name c)) ` {c \<in> set cs. P c \<and> en_k8s e KDelPvc (cl_name c)}"
proof (induction cs arbitrary: w)
  case (Cons c cs)
  have "w_pvcs (reap_orphan_one e c w) =
      (if en_k8s e KDelPvc (cl_name c) then w_pvcs w - {(cl_ns c, cl_name c)} else w_pvcs w)"
    by (simp add: reap_orphan_one_def delete_pvc_def Let_def audited_def)
  then show ?case by (auto simp: Cons.IH)
qed simp

lemma reap_orphan_db: "w_db (fold (\<lambda>c w. if P c then reap_orphan_one e c w else w) cs w) = w_db w"
  by (induction cs arbitrary: w) (simp_all add: reap_orphan_one_def delete_pvc_def Let_def)

lemma trim_home_pvc [simp]: "trim_prefix ''sh-'' (home_pvc i) = i"
  by (simp only: home_pvc_def trim_prefix_append)

text \<open>The orphan reaper removes exactly the claims the system made, named like a session's home,
  older than an hour and belonging to no session in the table, and deletes no row; in particular the
  home of every session of an existing user stays, stopped and terminated ones included, and a failed
  listing removes nothing.\<close>

theorem orphan_reaper_exact:
  "w_pvcs (reap_orphan_homes e (Some cs) w) = w_pvcs w - (\<lambda>c. (cl_ns c, cl_name c)) ` {c \<in> set cs. cl_managed c \<and> has_prefix ''sh-'' (cl_name c) \<and> hour \<le> en_now e - cl_created c \<and>
      trim_prefix ''sh-'' (cl_name c) \<notin> set (list_all_ids (en_cat e) (w_db w)) \<and>
      en_db e SList ''all'' \<and> en_k8s e KDelPvc (cl_name c)} \<and>
   (\<forall>s ns. s \<in> set (sessions (w_db w)) \<longrightarrow> s_user s \<in> set (map fst (ct_users (en_cat e))) \<longrightarrow>
      (ns, home_pvc (s_instance s)) \<in> w_pvcs w \<longrightarrow>
      (ns, home_pvc (s_instance s)) \<in> w_pvcs (reap_orphan_homes e (Some cs) w)) \<and>
   w_db (reap_orphan_homes e claims w) = w_db w \<and> reap_orphan_homes e None w = w"
proof -
  let ?gone = "(\<lambda>c. (cl_ns c, cl_name c)) ` {c \<in> set cs. cl_managed c \<and> has_prefix ''sh-'' (cl_name c) \<and> hour \<le> en_now e - cl_created c \<and>
      trim_prefix ''sh-'' (cl_name c) \<notin> set (list_all_ids (en_cat e) (w_db w)) \<and>
      en_db e SList ''all'' \<and> en_k8s e KDelPvc (cl_name c)}"
  have 1: "w_pvcs (reap_orphan_homes e (Some cs) w) = w_pvcs w - ?gone"
    unfolding reap_orphan_homes_def option.case Let_def
    by (simp add: reap_orphan_fold list_pvcs_by_prefix_def orphaned_def not_less conj_assoc)
  have "(ns, home_pvc (s_instance s)) \<notin> ?gone"
    if "s \<in> set (sessions (w_db w))" "s_user s \<in> set (map fst (ct_users (en_cat e)))" for s ns
  proof -
    have live: "s_instance s \<in> set (list_all_ids (en_cat e) (w_db w))" using that by (auto simp: list_all_ids_def)
    show ?thesis
    proof (rule notI, elim imageE CollectE conjE)
      fix c assume c: "(ns, home_pvc (s_instance s)) = (cl_ns c, cl_name c)"
        "trim_prefix ''sh-'' (cl_name c) \<notin> set (list_all_ids (en_cat e) (w_db w))"
      from c(1) have "cl_name c = home_pvc (s_instance s)" by simp
      then have "trim_prefix ''sh-'' (cl_name c) = s_instance s" by (simp only: trim_home_pvc)
      with c(2) live show False by simp
    qed
  qed
  then have 2: "(ns, home_pvc (s_instance s)) \<in> w_pvcs (reap_orphan_homes e (Some cs) w)"
    if "s \<in> set (sessions (w_db w))" "s_user s \<in> set (map fst (ct_users (en_cat e)))"
      "(ns, home_pvc (s_instance s)) \<in> w_pvcs w" for s ns
    using that 1 by blast
  have 3: "w_db (reap_orphan_homes e claims w) = w_db w"
    by (simp add: reap_orphan_homes_def Let_def reap_orphan_db split: option.split)
  show ?thesis using 1 2 3 by (simp add: reap_orphan_homes_def)
qed

section \<open>What the home reaper deletes\<close>

text \<open>The profile holds a most recently stopped session for every user that has one.\<close>

lemma profile_fold:
  assumes "\<forall>u i t. keep u = Some (i, t) \<longrightarrow> (\<exists>s \<in> done. s_user s = u \<and> s_instance s = i \<and> s_stopped_since s = Some t)"
    and "\<forall>s \<in> done. \<forall>t. s_stopped_since s = Some t \<longrightarrow> (\<exists>i t'. keep (s_user s) = Some (i, t') \<and> t \<le> t')"
  shows "(\<forall>u i t. fold profile_step rows keep u = Some (i, t) \<longrightarrow>
            (\<exists>s \<in> done \<union> set rows. s_user s = u \<and> s_instance s = i \<and> s_stopped_since s = Some t)) \<and>
         (\<forall>s \<in> done \<union> set rows. \<forall>t. s_stopped_since s = Some t \<longrightarrow>
            (\<exists>i t'. fold profile_step rows keep (s_user s) = Some (i, t') \<and> t \<le> t'))"
  using assms
proof (induction rows arbitrary: keep "done")
  case (Cons r rows)
  have 1: "\<forall>u i t. profile_step r keep u = Some (i, t) \<longrightarrow>
      (\<exists>s \<in> insert r done. s_user s = u \<and> s_instance s = i \<and> s_stopped_since s = Some t)"
    using Cons.prems(1) unfolding profile_step_def by (auto split: option.splits if_splits)
  have 2: "\<forall>s \<in> insert r done. \<forall>t. s_stopped_since s = Some t \<longrightarrow> (\<exists>i t'. profile_step r keep (s_user s) = Some (i, t') \<and> t \<le> t')"
  proof (intro ballI allI impI)
    fix s t assume s: "s \<in> insert r done" "s_stopped_since s = Some t"
    show "\<exists>i t'. profile_step r keep (s_user s) = Some (i, t') \<and> t \<le> t'"
    proof (cases "s \<in> done")
      case True
      then obtain i t' where k: "keep (s_user s) = Some (i, t')" "t \<le> t'" using Cons.prems(2) s(2) by blast
      then show ?thesis by (auto simp: profile_step_def split: option.splits)
    next
      case False
      then have "s = r" using s(1) by simp
      then show ?thesis using s(2) by (auto simp: profile_step_def split: option.splits)
    qed
  qed
  show ?case using Cons.IH [OF 1 2] by simp
qed simp

lemma stopped_profile_newest:
  assumes "s \<in> set rows" "s_stopped_since s = Some t"
  shows "\<exists>i t' s'. stopped_profile rows (s_user s) = Some (i, t') \<and> t \<le> t' \<and>
    s' \<in> set rows \<and> s_user s' = s_user s \<and> s_instance s' = i \<and> s_stopped_since s' = Some t'"
proof -
  have f: "\<And>u i t. stopped_profile rows u = Some (i, t) \<Longrightarrow>
      \<exists>s \<in> set rows. s_user s = u \<and> s_instance s = i \<and> s_stopped_since s = Some t"
    "\<And>s t. s \<in> set rows \<Longrightarrow> s_stopped_since s = Some t \<Longrightarrow> \<exists>i t'. stopped_profile rows (s_user s) = Some (i, t') \<and> t \<le> t'"
    using profile_fold [of Map.empty "{}" rows] by (simp_all add: stopped_profile_def)
  obtain i t' where k: "stopped_profile rows (s_user s) = Some (i, t')" "t \<le> t'" using f(2) [OF assms] by blast
  with f(1) [OF k(1)] show ?thesis by blast
qed

lemma row_of_filter_other: "j \<noteq> k \<Longrightarrow> row_of key j (filter (\<lambda>r. key r \<noteq> k) t) = row_of key j t"
  by (induction t) auto

lemma settle_storage_other: "j \<noteq> s_instance s \<Longrightarrow> session_of (w_db (settle_storage sv e s w)) j = session_of (w_db w) j"
  by (rule settle_storage_split [of s sv e w]) simp_all

lemma cleanup_db [simp]: "w_db (cleanup_shared_mounts e ns u sid inst w) = w_db w"
  by (rule same_books_D(1) [OF same_books_cleanup])

lemma delete_session_other:
  assumes "j \<noteq> s_instance s"
  shows "session_of (w_db (fst (delete_session sv e s w))) j = session_of (w_db w) j"
proof -
  have d: "session_of (fst (delete_row ok (s_instance s) db)) j = session_of db j" for ok db
    using assms by (simp add: delete_row_def session_of_def row_of_filter_other)
  show ?thesis
    using assms
    by (simp add: delete_session_def Let_def d settle_other_row settle_storage_other)
qed

lemma settle_pvcs [simp]: "w_pvcs (settle sv e s True w) = w_pvcs w"
proof (cases "sv_charger sv")
  case None
  then show ?thesis by (simp add: settle_def)
next
  case (Some C)
  obtain wl r where c: "ch_consume C (s_user s) (gid_of s) (unsettled s (en_now e)) (s_instance s) (w_wallet w) = (wl, r)"
    by fastforce
  show ?thesis unfolding settle_cases [OF Some c] by (cases r) (simp_all add: Let_def)
qed

lemma settle_storage_pvcs [simp]: "w_pvcs (settle_storage sv e s w) = w_pvcs w"
  by (rule settle_storage_split [of s sv e w]) simp_all

text \<open>Copies of shared volumes and datasets are never named like a home.\<close>

lemma cleanup_homes: "(ns, home_pvc i) \<in> w_pvcs w \<Longrightarrow> (ns, home_pvc i) \<in> w_pvcs (cleanup_shared_mounts e ns' u sid inst w)"
proof -
  have v: "(ns, home_pvc i) \<in> w_pvcs (fold (cleanup_volume e ns' u inst) vs w)" if "(ns, home_pvc i) \<in> w_pvcs w" for vs and w :: "('w, 'l) world"
    using that
    by (induction vs arbitrary: w) (simp_all add: cleanup_volume_def delete_shared_pvc_def home_pvc_def split: option.split)
  have d: "(ns, home_pvc i) \<in> w_pvcs (fold (cleanup_dataset e ns' u inst) ds w)" if "(ns, home_pvc i) \<in> w_pvcs w" for ds and w :: "('w, 'l) world"
    using that
    by (induction ds arbitrary: w) (simp_all add: cleanup_dataset_def delete_shared_pvc_def home_pvc_def)
  assume "(ns, home_pvc i) \<in> w_pvcs w"
  then show ?thesis by (simp add: cleanup_shared_mounts_def v d)
qed

lemma home_pvc_inj [simp]: "home_pvc i = home_pvc j \<longleftrightarrow> i = j"
  by (simp add: home_pvc_def)

lemma delete_session_homes:
  assumes "(ns, home_pvc j) \<in> w_pvcs w" "j \<noteq> s_instance s"
  shows "(ns, home_pvc j) \<in> w_pvcs (fst (delete_session sv e s w))"
  using assms by (simp add: delete_session_def Let_def delete_pvc_def cleanup_homes)

lemma reap_stale_one_other:
  assumes "j \<noteq> s_instance s"
  shows "session_of (w_db (reap_stale_one sv e s w)) j = session_of (w_db w) j"
    and "(ns, home_pvc j) \<in> w_pvcs w \<Longrightarrow> (ns, home_pvc j) \<in> w_pvcs (reap_stale_one sv e s w)"
proof -
  obtain w1 ok where d: "delete_session sv e s w = (w1, ok)" by fastforce
  show "session_of (w_db (reap_stale_one sv e s w)) j = session_of (w_db w) j"
    using delete_session_other [OF assms, of sv e w] by (simp add: reap_stale_one_def d)
  show "(ns, home_pvc j) \<in> w_pvcs w \<Longrightarrow> (ns, home_pvc j) \<in> w_pvcs (reap_stale_one sv e s w)"
    using delete_session_homes [OF _ assms, of ns w sv e] by (simp add: reap_stale_one_def d)
qed

lemma reap_stale_fold:
  assumes "\<And>s. s \<in> set rows \<Longrightarrow> P s \<Longrightarrow> s_instance s \<noteq> j"
  shows "session_of (w_db (fold (\<lambda>s w. if P s then reap_stale_one sv e s w else w) rows w)) j = session_of (w_db w) j \<and>
    ((ns, home_pvc j) \<in> w_pvcs w \<longrightarrow>
     (ns, home_pvc j) \<in> w_pvcs (fold (\<lambda>s w. if P s then reap_stale_one sv e s w else w) rows w))"
  using assms
proof (induction rows arbitrary: w)
  case (Cons s rows)
  let ?w = "if P s then reap_stale_one sv e s w else w"
  have j: "P s \<Longrightarrow> j \<noteq> s_instance s" using Cons.prems by auto
  have "session_of (w_db ?w) j = session_of (w_db w) j" using j by (simp add: reap_stale_one_other)
  moreover have "(ns, home_pvc j) \<in> w_pvcs w \<longrightarrow> (ns, home_pvc j) \<in> w_pvcs ?w" using j by (simp add: reap_stale_one_other)
  ultimately show ?case using Cons.IH [of ?w] Cons.prems by (simp del: if_split_eq1)
qed simp

lemma mark_unmarked_pvcs [simp]: "w_pvcs (mark_unmarked e rows w) = w_pvcs w"
  unfolding mark_unmarked_def by (induction rows arbitrary: w) simp_all

lemma mark_unmarked_other:
  assumes "\<And>s. s \<in> set rows \<Longrightarrow> s_stopped_since s = None \<Longrightarrow> s_instance s \<noteq> j"
  shows "session_of (w_db (mark_unmarked e rows w)) j = session_of (w_db w) j"
  using assms unfolding mark_unmarked_def
proof (induction rows arbitrary: w)
  case (Cons s rows)
  then show ?case by (cases "s_stopped_since s") auto
qed simp

lemma mark_unmarked_keeps: "session_of (w_db (mark_unmarked e rows w)) j = None \<longleftrightarrow> session_of (w_db w) j = None"
  unfolding mark_unmarked_def
proof (induction rows arbitrary: w)
  case (Cons s rows)
  have "session_of (w_db (fst (on_db (mark_stopped (en_db e) (s_instance s) (en_now e)) w))) j = None \<longleftrightarrow> session_of (w_db w) j = None"
    by simp
  then show ?case using Cons.IH by (simp del: fold.simps add: fold_Cons)
qed simp

text \<open>C14: The home reaper deletes only container sessions that have been stopped for at least the
  configured number of days, and never a user's last one: whenever it deletes a session, the user keeps
  a stopped session at least as recent, row and home both. Running sessions, physical ones, and
  sessions without a recorded stop are never deleted, nor their homes.\<close>

theorem home_reaper_spares:
  assumes "instances_distinct (w_db w)" "session_of (w_db w) j = Some s"
    and gone: "session_of (w_db (reap_stale_homes sv e w)) j = None"
  shows "s_phase s = Stopped \<and> \<not> ssh_env s \<and>
    (\<exists>days t s'. cf_home_ttl_days (sv_cfg sv) = Some days \<and> 0 < days \<and> s_stopped_since s = Some t \<and>
      days * day \<le> en_now e - t \<and>
      s' \<in> set (list_stopped (w_db w)) \<and> s_user s' = s_user s \<and> s_instance s' \<noteq> j \<and> (\<exists>t' \<ge> t. s_stopped_since s' = Some t') \<and>
      session_of (w_db (reap_stale_homes sv e w)) (s_instance s') = Some s' \<and>
      (\<forall>ns. (ns, home_pvc (s_instance s')) \<in> w_pvcs w \<longrightarrow> (ns, home_pvc (s_instance s')) \<in> w_pvcs (reap_stale_homes sv e w)))"
proof -
  define rows where "rows = list_stopped (w_db w)"
  define keep where "keep = stopped_profile rows"
  obtain days where days: "cf_home_ttl_days (sv_cfg sv) = Some days" "0 < days" "en_db e SList ''stopped''"
    using gone assms(2) by (auto simp: reap_stale_homes_def split: option.splits if_splits)
  let ?P = "reclaimable (en_now e) days keep"
  have w': "reap_stale_homes sv e w =
      fold (\<lambda>s w. if ?P s then reap_stale_one sv e s w else w) rows (mark_unmarked e rows w)"
    using days by (simp add: reap_stale_homes_def rows_def keep_def Let_def)
  have row: "r = s'" if "r \<in> set rows" "s_instance r = i" "session_of (w_db w) i = Some s'" for r i s'
    using session_of_member [OF assms(1), of r] that by (simp add: rows_def list_stopped_def)
  have "\<exists>r \<in> set rows. ?P r \<and> s_instance r = j"
  proof (rule ccontr)
    assume "\<not> ?thesis"
    then have "session_of (w_db (reap_stale_homes sv e w)) j = session_of (w_db (mark_unmarked e rows w)) j"
      using reap_stale_fold [of rows ?P j sv e "mark_unmarked e rows w"] unfolding w' by blast
    then show False using gone assms(2) mark_unmarked_keeps [of e rows w j] by simp
  qed
  then have s: "s \<in> set rows" "?P s" using row [OF _ _ assms(2)] by auto
  then obtain t where t: "s_stopped_since s = Some t" "days * day \<le> en_now e - t"
    by (auto simp: reclaimable_def split: option.splits)
  obtain i t' s' where n: "keep (s_user s) = Some (i, t')" "t \<le> t'" "s' \<in> set rows" "s_user s' = s_user s"
    "s_instance s' = i" "s_stopped_since s' = Some t'"
    using stopped_profile_newest [OF s(1) t(1)] unfolding keep_def by blast
  have i: "i \<noteq> j" using s(2) n(1) session_of_instance [OF assms(2)] by (auto simp: reclaimable_def)
  have s'_row: "session_of (w_db w) i = Some s'"
    using session_of_member [OF assms(1), of s'] n(3,5) by (simp add: rows_def list_stopped_def)
  have "s_instance r \<noteq> i" if "r \<in> set rows" "?P r" for r
    using row [OF that(1) _ s'_row] that(2) n by (auto simp: reclaimable_def)
  then have keeps: "session_of (w_db (reap_stale_homes sv e w)) i = session_of (w_db (mark_unmarked e rows w)) i"
    "(ns, home_pvc i) \<in> w_pvcs w \<longrightarrow> (ns, home_pvc i) \<in> w_pvcs (reap_stale_homes sv e w)" for ns
    using reap_stale_fold [of rows ?P i sv e "mark_unmarked e rows w" ns] unfolding w' by auto
  have "session_of (w_db (mark_unmarked e rows w)) i = session_of (w_db w) i"
    using row [OF _ _ s'_row] n(6) by (intro mark_unmarked_other) auto
  then show ?thesis
    using s t n days i s'_row keeps by (auto simp: rows_def list_stopped_def)
qed


section \<open>The biller and the home reaper\<close>

text \<open>One step of the storage biller reopens the interval of its session at the present.\<close>

definition reopened :: "time \<Rightarrow> bool \<Rightarrow> session \<Rightarrow> session \<Rightarrow> bool" where
  "reopened now hit s s' \<longleftrightarrow>
     s_phase s' = s_phase s \<and> s_env s' = s_env s \<and> s_instance s' = s_instance s \<and>
     s_stopped_since s' = (if hit then Some now else s_stopped_since s)"

lemma storage_tick_row:
  assumes "\<And>i. en_db e SStorage i" "\<And>i. en_db e SMarkStopped i"
  shows "rel_option (reopened (en_now e) (j = s_instance s)) (session_of (w_db w) j) (session_of (w_db (storage_tick sv e s w)) j)"
proof -
  have r: "rel_option (reopened n h) x (map_option f x)" if "\<And>r. reopened n h r (f r)" for n h x and f
    using that by (cases x) auto
  show ?thesis
  proof (cases "s_stopped_since s = None")
    case True
    then show ?thesis using assms(2) by (auto simp: storage_tick_def reopened_def option.rel_map option.rel_refl intro: r)
  next
    case False
    have "session_of (w_db (settle_storage sv e s w)) j =
        (if j = s_instance s
         then map_option (\<lambda>r. r\<lparr>s_stopped_secs := stopped_total s (en_now e),
             s_storage_billed := storage_billed_of (w_db (settle_storage sv e s w)) j,
             s_stopped_since := Some (en_now e)\<rparr>) (session_of (w_db w) j)
         else session_of (w_db w) j)"
      using False assms(1) settle_storage_row [of sv e s w j] by simp
    moreover have "storage_tick sv e s w = settle_storage sv e s w" using False unfolding storage_tick_def by (simp only: if_False)
    ultimately show ?thesis by (auto simp: reopened_def intro!: r option.rel_refl)
  qed
qed

lemma reopened_trans: "reopened now h1 a b \<Longrightarrow> reopened now h2 b c \<Longrightarrow> reopened now (h1 \<or> h2) a c"
  by (auto simp: reopened_def)

lemma storage_ticks_row:
  assumes "\<And>i. en_db e SStorage i" "\<And>i. en_db e SMarkStopped i"
  shows "rel_option (reopened (en_now e) (j \<in> s_instance ` set rs)) (session_of (w_db w) j)
     (session_of (w_db (fold (storage_tick sv e) rs w)) j)"
proof (induction rs arbitrary: w)
  case Nil
  show ?case by (auto simp: reopened_def intro: option.rel_refl)
next
  case (Cons s rs)
  show ?case
    using storage_tick_row [OF assms, of j s w sv] Cons.IH [of "storage_tick sv e s w"] reopened_trans
    by (cases "session_of (w_db w) j"; cases "session_of (w_db (storage_tick sv e s w)) j") (force simp: option_rel_Some1)+
qed

lemma stopped_since_after_billing:
  assumes d: "instances_distinct (w_db w)"
    and ok: "en_db e SList ''stopped''" "\<And>i. en_db e SStorage i" "\<And>i. en_db e SMarkStopped i"
    and s: "s \<in> set (list_stopped (w_db (bill_stopped_storage_once sv e w)))"
  shows "s_stopped_since s = Some (en_now e)"
proof -
  let ?w = "fold (storage_tick sv e) (list_stopped (w_db w)) w"
  have w': "bill_stopped_storage_once sv e w = ?w"
    using ok(1) by (simp add: bill_stopped_eq)
  have "instances_distinct (w_db ?w)"
    by (rule instances_distinct_cong [THEN iffD2, OF fold_storage_instances d])
  then have "session_of (w_db ?w) (s_instance s) = Some s"
    using s unfolding w' by (simp add: session_of_member list_stopped_def)
  then obtain s0 where s0: "session_of (w_db w) (s_instance s) = Some s0"
    "reopened (en_now e) (s_instance s \<in> s_instance ` set (list_stopped (w_db w))) s0 s"
    using storage_ticks_row [OF ok(2,3), of "s_instance s" "list_stopped (w_db w)" w sv] by (auto simp: option_rel_Some2)
  have "s0 \<in> set (list_stopped (w_db w))"
    using s s0 row_of_Some unfolding w' by (force simp: list_stopped_def reopened_def ssh_env_def session_of_def)
  then have "s_instance s0 \<in> s_instance ` set (list_stopped (w_db w))" by simp
  then show ?thesis using s0(2) by (simp add: reopened_def)
qed

lemma fold_skip: "(\<And>s. s \<in> set rows \<Longrightarrow> \<not> P s) \<Longrightarrow> fold (\<lambda>s w. if P s then f s w else w) rows w = w"
  by (induction rows) simp_all

text \<open>The home reaper never reclaims anything while the biller runs (credit mode): every tick of the
  biller moves the time each stopped session counts as stopped since to the present, so no session
  ever reaches an age of a day, let alone the days configured.\<close>

theorem biller_defeats_home_reaper:
  assumes "instances_distinct (w_db w)"
    and "\<And>st i. en_db e st i"
    and "en_now e' - en_now e < day"
  shows "reap_stale_homes sv e' (bill_once sv e w) = bill_once sv e w"
proof -
  define w1 where "w1 = fold (\<lambda>s w. settle sv e s False w) (list_running (w_db w)) w"
  have w': "bill_once sv e w = bill_stopped_storage_once sv e w1" using assms(2) by (simp add: bill_once_def w1_def)
  have "instances_distinct (w_db w1)"
    unfolding w1_def by (rule instances_distinct_cong [THEN iffD2, OF fold_settle_instances assms(1)])
  then have since: "s_stopped_since s = Some (en_now e)" if "s \<in> set (list_stopped (w_db (bill_once sv e w)))" for s
    using stopped_since_after_billing [of w1 e s sv] assms(2) that unfolding w' by blast
  have "reclaimable (en_now e') days keep s = False" if "s \<in> set (list_stopped (w_db (bill_once sv e w)))" "0 < days" for s days keep
  proof -
    have "day \<le> days * day" using that(2) by simp
    then show ?thesis using since [OF that(1)] assms(3) by (simp add: reclaimable_def)
  qed
  then have "fold (\<lambda>s w. if reclaimable (en_now e') days keep s then reap_stale_one sv e' s w else w)
      (list_stopped (w_db (bill_once sv e w))) v = v" if "0 < days" for days keep v
    using that by (intro fold_skip) blast
  moreover have "mark_unmarked e' (list_stopped (w_db (bill_once sv e w))) v = v" for v :: "('a, 'b) world"
    unfolding mark_unmarked_def by (rule fold_skip) (simp add: since)
  ultimately show ?thesis
    by (simp add: reap_stale_homes_def Let_def split: option.split)
qed

section \<open>Samples\<close>

definition idle_since :: "string \<Rightarrow> int \<Rightarrow> session" where
  "idle_since i d = (sample_session i 1 ''exclusive'' ''a'')\<lparr>s_env := ''container'', s_phase := Stopped, s_stopped_since := Some (d * day)\<rparr>"

definition idle_world :: "(unit, lease_db) world" where
  "idle_world = sample_world\<lparr>w_db := empty_sessions\<lparr>sessions := [idle_since ''old'' 0, idle_since ''new'' 50]\<rparr>,
     w_pvcs := {(''giosk-user-1'', ''sh-old''), (''giosk-user-1'', ''sh-gone'')}\<rparr>"

definition idle_service :: "(unit, lease_db) session_svc" where
  "idle_service = sample_service\<lparr>sv_cfg := sample_cfg\<lparr>cf_home_ttl_days := Some 30\<rparr>\<rparr>"

lemma idle_simps [simp]:
  "s_instance (idle_since i d) = i" "s_user (idle_since i d) = 1" "\<not> ssh_env (idle_since i d)" "s_phase (idle_since i d) = Stopped"
  "s_stopped_since (idle_since i d) = Some (d * day)"
  by (simp_all add: idle_since_def ssh_env_def sample_session_def)

lemma idle_world_rows: "sessions (w_db idle_world) = [idle_since ''old'' 0, idle_since ''new'' 50]"
  "instances_distinct (w_db idle_world)"
  by (simp_all add: idle_world_def instances_distinct_def keys_distinct_def)

lemma idle_old_reaped: "session_of (w_db (reap_stale_homes idle_service (sample_env\<lparr>en_now := 100 * day\<rparr>) idle_world)) ''old'' = None"
proof -
  have rows: "list_stopped (w_db idle_world) = [idle_since ''old'' 0, idle_since ''new'' 50]"
    by (simp add: list_stopped_def idle_world_rows)
  have keep: "stopped_profile [idle_since ''old'' 0, idle_since ''new'' 50] = [1 \<mapsto> (''new'', 50 * day)]"
    by (simp add: stopped_profile_def profile_step_def)
  have ttl: "cf_home_ttl_days (sv_cfg idle_service) = Some 30" by (simp add: idle_service_def)
  have del: "session_of (w_db (fst (delete_session idle_service (sample_env\<lparr>en_now := 100 * day\<rparr>) (idle_since ''old'' 0) w))) ''old'' = None" for w
    by (auto simp: delete_session_def Let_def delete_row_def session_of_def row_of_None)
  have "session_of (w_db (reap_stale_one idle_service (sample_env\<lparr>en_now := 100 * day\<rparr>) (idle_since ''old'' 0) w)) ''old'' = None" for w
    using del [of w] by (simp add: reap_stale_one_def Let_def case_prod_beta)
  then show ?thesis
    by (simp add: reap_stale_homes_def rows keep ttl mark_unmarked_def reclaimable_def)
qed

theorem home_reaper_spares_witness:
  "session_of (w_db (reap_stale_homes idle_service (sample_env\<lparr>en_now := 100 * day\<rparr>) idle_world)) ''old'' = None \<and>
   session_of (w_db (reap_stale_homes idle_service (sample_env\<lparr>en_now := 100 * day\<rparr>) idle_world)) ''new'' = Some (idle_since ''new'' 50)"
proof -
  have old: "session_of (w_db idle_world) ''old'' = Some (idle_since ''old'' 0)" by (simp add: session_of_def idle_world_rows)
  obtain s' where s': "s' \<in> set (list_stopped (w_db idle_world))" "s_instance s' \<noteq> ''old''"
    "session_of (w_db (reap_stale_homes idle_service (sample_env\<lparr>en_now := 100 * day\<rparr>) idle_world)) (s_instance s') = Some s'"
    using home_reaper_spares [OF idle_world_rows(2) old idle_old_reaped] by blast
  then have "s' = idle_since ''new'' 50" by (auto simp: list_stopped_def idle_world_rows)
  then show ?thesis using s'(3) idle_old_reaped by simp
qed

theorem biller_defeats_home_reaper_witness:
  "reap_stale_homes idle_service (sample_env\<lparr>en_now := 100 * day + minute\<rparr>) (bill_once idle_service (sample_env\<lparr>en_now := 100 * day\<rparr>) idle_world) =
     bill_once idle_service (sample_env\<lparr>en_now := 100 * day\<rparr>) idle_world"
  by (rule biller_defeats_home_reaper [OF idle_world_rows(2)]) simp_all

definition sample_claims :: "claim list" where
  "sample_claims = [\<lparr>cl_ns = ''giosk-user-1'', cl_name = ''sh-old'', cl_managed = True, cl_created = 0\<rparr>,
     \<lparr>cl_ns = ''giosk-user-1'', cl_name = ''sh-gone'', cl_managed = True, cl_created = 0\<rparr>]"

theorem orphan_reaper_exact_witness:
  "(''giosk-user-1'', ''sh-old'') \<in> w_pvcs (reap_orphan_homes (sample_env\<lparr>en_now := 2 * hour\<rparr>) (Some sample_claims) idle_world) \<and>
   (''giosk-user-1'', ''sh-gone'') \<notin> w_pvcs (reap_orphan_homes (sample_env\<lparr>en_now := 2 * hour\<rparr>) (Some sample_claims) idle_world)"
proof -
  let ?e = "sample_env\<lparr>en_now := 2 * hour\<rparr>"
  note exact = orphan_reaper_exact [of ?e sample_claims idle_world None]
  have users: "map fst (ct_users (en_cat ?e)) = [1]" by (simp add: sample_catalog_def)
  then have live: "list_all_ids (en_cat ?e) (w_db idle_world) = [''old'', ''new'']" by (simp add: list_all_ids_def idle_world_rows)
  have old: "(''giosk-user-1'', home_pvc (s_instance (idle_since ''old'' 0))) \<in> w_pvcs (reap_orphan_homes ?e (Some sample_claims) idle_world)"
    by (rule exact [THEN conjunct2, THEN conjunct1, rule_format])
      (use users in \<open>simp_all add: idle_world_rows(1) flip: set_map\<close>, simp add: idle_world_def home_pvc_def)
  define c where "c = sample_claims ! 1"
  have c: "c \<in> set sample_claims" "(cl_ns c, cl_name c) = (''giosk-user-1'', ''sh-gone'')" "cl_managed c" "cl_created c = 0"
    by (simp_all add: c_def sample_claims_def)
  then have "has_prefix ''sh-'' (cl_name c)" "trim_prefix ''sh-'' (cl_name c) = ''gone''"
    by (simp_all add: has_prefix_def trim_prefix_def)
  with c live exact have "(''giosk-user-1'', ''sh-gone'') \<notin> w_pvcs (reap_orphan_homes ?e (Some sample_claims) idle_world)"
    by (auto intro!: image_eqI [of _ _ c])
  then show ?thesis using old by (simp add: home_pvc_def)
qed

end
