(* ===== verification/Session_Races.thy ===== *)
theory Session_Races
  imports Session_Reapers
begin

text \<open>
  How the parts of the session service meet: a start against the reconciler that runs beside it, the
  node chosen for a session against the pod built for it, and the cleaning up of one member's session
  against what the other members of the team still use. Each theorem composes operations of the other
  theories; nothing of the program is defined here.
\<close>

section \<open>What a tick of the reconciler does to a row\<close>

lemma auto_stop_other: "j \<noteq> s_instance s \<Longrightarrow> session_of (w_db (auto_stop sv e a s w)) j = session_of (w_db w) j"
  by (simp add: auto_stop_def Let_def case_prod_beta settle_other_row)

lemma session_of_None_iff: "session_of db j = None \<longleftrightarrow> j \<notin> set (map s_instance (sessions db))"
  by (simp add: session_of_def row_of_None)

lemma settle_keeps_row: "session_of (w_db (settle sv e s f w)) j = None \<longleftrightarrow> session_of (w_db w) j = None"
  unfolding session_of_None_iff settle_instances ..

lemma auto_stop_row:
  assumes "en_db e SPhase (s_instance s)" "session_of (w_db w) (s_instance s) \<noteq> None"
  shows "\<exists>r. session_of (w_db (auto_stop sv e a s w)) (s_instance s) = Some r \<and> s_phase r = Stopped"
proof -
  have "session_of (w_db (settle sv e s True w)) (s_instance s) \<noteq> None" using assms(2) by (simp add: settle_keeps_row)
  then show ?thesis using assms(1) by (auto simp: auto_stop_def Let_def case_prod_beta)
qed

lemma refresh_live_other: "j \<noteq> s_instance s \<Longrightarrow> session_of (w_db (fst (refresh_live e s w))) j = session_of (w_db w) j"
  by (simp add: refresh_live_def Let_def split: pod_reply.split)

lemma refresh_live_instance [simp]: "s_instance (snd (refresh_live e s w)) = s_instance s"
  by (simp add: refresh_live_def Let_def split: pod_reply.split)

lemma reap_unschedulable_other:
  "j \<noteq> s_instance s \<Longrightarrow> session_of (w_db (reap_unschedulable sv e s w)) j = session_of (w_db w) j"
  by (simp add: reap_unschedulable_def auto_stop_other split: option.split pod_reply.split)

lemma reconcile_one_other: "j \<noteq> s_instance s \<Longrightarrow> session_of (w_db (reconcile_one sv e s w)) j = session_of (w_db w) j"
  by (simp add: reconcile_one_def Let_def case_prod_beta reap_unschedulable_other refresh_live_other)

lemma live_instances [simp]:
  "map s_instance (sessions (fst (update_live ok i p n ip db))) = map s_instance (sessions db)"
  "map s_instance (sessions (fst (reset_billing ok i t db))) = map s_instance (sessions db)"
  "map s_instance (sessions (fst (clear_stopped ok i k db))) = map s_instance (sessions db)"
  by (simp_all add: update_live_def reset_billing_def clear_stopped_def instances_write)

lemma auto_stop_instances: "map s_instance (sessions (w_db (auto_stop sv e a s w))) = map s_instance (sessions (w_db w))"
  by (simp add: auto_stop_def Let_def case_prod_beta)

lemma reconcile_once_instances: "map s_instance (sessions (w_db (reconcile_once sv e w))) = map s_instance (sessions (w_db w))"
proof -
  have "map s_instance (sessions (w_db (reconcile_one sv e s w))) = map s_instance (sessions (w_db w))" for s and w :: "('a, 'b) world"
    by (simp add: reconcile_one_def reap_unschedulable_def refresh_live_def Let_def auto_stop_instances split: option.split pod_reply.split)
  then have "map s_instance (sessions (w_db (fold (reconcile_one sv e) rows w))) = map s_instance (sessions (w_db w))" for rows
    by (induction rows arbitrary: w) simp_all
  then show ?thesis by (simp add: reconcile_once_def)
qed

text \<open>A session whose row waits for a node since more than the grace, with no pod in the cluster.\<close>

definition looks_orphaned :: "env \<Rightarrow> session \<Rightarrow> bool" where
  "looks_orphaned e s \<longleftrightarrow>
     \<not> ssh_env s \<and> s_phase s = Provisioning \<and> s_node s = [] \<and> en_pod e (s_instance s) = PodMissing \<and>
     (\<exists>t. s_started s = Some t \<and> unschedulable_grace \<le> en_now e - t)"

lemma reconcile_one_orphan: "looks_orphaned e s \<Longrightarrow> reconcile_one sv e s w = auto_stop sv e ''session_orphaned'' s w"
  by (auto simp: looks_orphaned_def reconcile_one_def refresh_live_def reap_unschedulable_def)

lemma reconcile_fold_other:
  "j \<notin> s_instance ` set rows \<Longrightarrow> session_of (w_db (fold (reconcile_one sv e) rows w)) j = session_of (w_db w) j"
  by (induction rows arbitrary: w) (simp_all add: reconcile_one_other)

lemma reconcile_stops_orphan:
  assumes "instances_distinct (w_db w)" "session_of (w_db w) i = Some s" "looks_orphaned e s"
    and "en_db e SList ''active''" "en_db e SPhase i"
  shows "\<exists>r. session_of (w_db (reconcile_once sv e w)) i = Some r \<and> s_phase r = Stopped"
proof -
  have i: "s_instance s = i" using session_of_instance [OF assms(2)] .
  have mem: "s \<in> set (list_active_container (w_db w))"
    using assms(2,3) row_of_Some
    by (fastforce simp: list_active_container_def looks_orphaned_def active_phase_def session_of_def)
  then obtain xs ys where l: "list_active_container (w_db w) = xs @ s # ys" by (meson split_list)
  have "distinct (map s_instance (list_active_container (w_db w)))"
    using assms(1) by (simp add: list_active_container_def instances_distinct_def keys_distinct_def distinct_map_filter)
  then have d: "i \<notin> s_instance ` set xs" "i \<notin> s_instance ` set ys" unfolding l i [symmetric] by auto
  let ?w1 = "fold (reconcile_one sv e) xs w"
  have "session_of (w_db ?w1) i = Some s" using reconcile_fold_other [OF d(1), of sv e w] assms(2) by simp
  then obtain r where r: "session_of (w_db (auto_stop sv e ''session_orphaned'' s ?w1)) i = Some r" "s_phase r = Stopped"
    using auto_stop_row [of e s ?w1 sv] assms(5) i by auto
  then show ?thesis
    using assms(4) reconcile_fold_other [OF d(2), of sv e "auto_stop sv e ''session_orphaned'' s ?w1"] by (simp add: reconcile_once_def l reconcile_one_orphan [OF assms(3)])
qed

section \<open>A start and the reconciler\<close>

lemma admit_start_claims:
  assumes "admit_start sv e s w = (w1, None)"
  shows "claim_for_start (en_db e) (s_instance s) (w_db w) = (w_db w1, Some True)"
  using assms by (auto simp: admit_start_def split: option.splits prod.splits bool.splits)

lemma claimed_rows:
  assumes "claim_for_start ok i db = (db', Some True)"
  shows "sessions db' = upd_where (\<lambda>s. s_instance s = i \<and> s_phase s = Stopped) (\<lambda>s. s\<lparr>s_phase := Provisioning\<rparr>) (sessions db)"
    and "\<exists>s \<in> set (sessions db). s_instance s = i \<and> s_phase s = Stopped"
  using assms by (auto simp: claim_for_start_def split: if_splits)

lemma admit_start_row:
  assumes "admit_start sv e s w = (w1, None)" "session_of (w_db w) (s_instance s) = Some s" "instances_distinct (w_db w)"
  shows "s_phase s = Stopped" "session_of (w_db w1) (s_instance s) = Some (s\<lparr>s_phase := Provisioning\<rparr>)" "instances_distinct (w_db w1)"
proof -
  note c = claimed_rows [OF admit_start_claims [OF assms(1)]]
  show p: "s_phase s = Stopped" using c(2) assms(2) session_of_member [OF assms(3)] by (metis option.inject)
  show "session_of (w_db w1) (s_instance s) = Some (s\<lparr>s_phase := Provisioning\<rparr>)"
    using assms(2) p by (simp add: session_of_def c(1) row_of_upd_where)
  show "instances_distinct (w_db w1)"
    using assms(3) by (simp add: instances_distinct_def keys_distinct_def c(1) keys_upd_where)
qed

text \<open>Whether the row of a session can be claimed for a start.\<close>

definition startable :: "string \<Rightarrow> session_db \<Rightarrow> bool" where
  "startable i db = list_ex (\<lambda>r. s_instance r = i \<and> s_phase r = Stopped) (sessions db)"

lemma startable_write:
  assumes "\<And>s. s_instance (f s) = s_instance s" "\<And>s. s_phase (f s) = s_phase s"
  shows "startable i (upd_session j f db) = startable i db"
proof -
  have "list_ex (\<lambda>r. s_instance r = i \<and> s_phase r = Stopped) (upd_row s_instance j f t) =
      list_ex (\<lambda>r. s_instance r = i \<and> s_phase r = Stopped) t" for t
    by (induction t) (simp_all add: assms)
  then show ?thesis by (simp add: startable_def upd_session_def)
qed

lemma startable_billing [simp]:
  "startable i (fst (set_storage_billed ok j a b t db)) = startable i db"
  "startable i (fst (clear_stopped ok j k db)) = startable i db"
  "startable i (fst (reset_billing ok j t db)) = startable i db"
  by (simp_all add: set_storage_billed_def clear_stopped_def reset_billing_def write_row_def startable_write)

lemma startable_claim:
  "claim_for_start ok i db = (db', r) \<Longrightarrow> \<not> startable i db \<Longrightarrow> db' = db \<and> r \<noteq> Some True"
  "claim_for_start ok i db = (db', Some True) \<Longrightarrow> \<not> startable i db'"
proof -
  assume c: "claim_for_start ok i db = (db', r)" and n: "\<not> startable i db"
  have "upd_where (\<lambda>s. s_instance s = i \<and> s_phase s = Stopped) f (sessions db) = sessions db" for f
    unfolding upd_where_def using n by (intro map_idI) (auto simp: startable_def list_ex_iff)
  then have same: "db\<lparr>sessions := upd_where (\<lambda>s. s_instance s = i \<and> s_phase s = Stopped) f (sessions db)\<rparr> = db" for f by simp
  have none: "\<not> (\<exists>s \<in> set (sessions db). s_instance s = i \<and> s_phase s = Stopped)"
    using n unfolding startable_def list_ex_iff .
  show "db' = db \<and> r \<noteq> Some True"
    using c unfolding claim_for_start_def same by (cases "ok SClaim i") (use none in auto)
next
  assume "claim_for_start ok i db = (db', Some True)"
  note rows = claimed_rows(1) [OF this]
  have "\<forall>r \<in> set (upd_where (\<lambda>s. s_instance s = i \<and> s_phase s = Stopped) (\<lambda>s. s\<lparr>s_phase := Provisioning\<rparr>) t). s_instance r = i \<longrightarrow> s_phase r \<noteq> Stopped"
    for t :: "session list" by (induction t) simp_all
  then have "\<forall>r \<in> set (sessions db'). s_instance r = i \<longrightarrow> s_phase r \<noteq> Stopped" unfolding rows .
  then show "\<not> startable i db'" unfolding startable_def list_ex_iff by blast
qed

lemma finish_start_not_startable:
  assumes "finish_start sv e s img w = (w', None)" "\<not> startable i (w_db w)"
  shows "\<not> startable i (w_db w')"
proof -
  obtain w5 where w5: "same_books w w5" "w' = fst (on_db (reset_billing (en_db e) (s_instance s) (en_now e))
      (fst (on_db (clear_stopped (en_db e) (s_instance s) 0) (settle_storage sv e s w5))))"
    using finish_start_cases [OF assms(1)]
  proof (elim disjE exE conjE)
    fix ws ms pref target w5 ok
    assume "same_books w w5" and c: "if ok then None = (None :: session_error option) \<and> w' = fst (on_db (reset_billing (en_db e) (s_instance s) (en_now e))
          (fst (on_db (clear_stopped (en_db e) (s_instance s) 0) (settle_storage sv e s w5))))
        else None = Some SClusterError \<and> w' = back_to_stopped e (s_instance s) w5"
    then show thesis using that [of w5] by (cases ok) simp_all
  qed simp
  have "startable i (w_db (settle_storage sv e s w5)) = startable i (w_db w5)"
    by (rule settle_storage_split [of s sv e w5]) simp_all
  then show ?thesis using assms(2) same_books_D(1) [OF w5(1)] by (simp add: w5(2))
qed

text \<open>C20: A session, container or physical, is started once. A start of a session whose row is not stopped is refused
  and changes nothing at all; the first half of a container's start, which reserves the place, leaves no row of the
  session stopped, and neither does a start that succeeds. So of two starts, one after the other or the second coming in
  after the first has reserved its place, the second is refused, as long as nothing puts the row back to stopped.\<close>

theorem start_claims_once:
  "(\<not> startable i (w_db w) \<longrightarrow> fst (start_op sv e i u w) = w \<and> snd (start_op sv e i u w) \<noteq> None) \<and>
   (snd (admit_start sv e s w) = None \<longrightarrow> \<not> startable (s_instance s) (w_db (fst (admit_start sv e s w)))) \<and>
   (snd (start_op sv e i u w) = None \<longrightarrow> \<not> startable i (w_db (fst (start_op sv e i u w))))"
proof (intro conjI impI)
  assume n: "\<not> startable i (w_db w)"
  obtain db q where q: "claim_for_start (en_db e) i (w_db w) = (db, q)" by fastforce
  have db: "db = w_db w" "q \<noteq> Some True" using startable_claim(1) [OF q n] by simp_all
  have same: "w\<lparr>w_db := w_db w\<rparr> = w" by simp
  have a: "fst (admit_start sv e r w) = w \<and> snd (admit_start sv e r w) \<noteq> None" if "s_instance r = i" for r
    using db(2) by (simp add: admit_start_def that q db(1) same split: option.split bool.split)
  have c: "fst (start_container sv e r w) = w \<and> snd (start_container sv e r w) \<noteq> None" if "s_instance r = i" for r
    using a [OF that] by (auto simp: start_container_def case_prod_beta split: option.split)
  have p: "fst (start_ssh sv e r w) = w \<and> snd (start_ssh sv e r w) \<noteq> None" if "s_instance r = i" for r
    using db(2) by (simp add: start_ssh_def that q db(1) same split: option.split bool.split)
  have "fst (start_op sv e i u w) = w \<and> snd (start_op sv e i u w) \<noteq> None"
    using c p get_session_row [of "en_db e" i u "w_db w"] by (auto simp: start_op_def split: option.split)
  then show "fst (start_op sv e i u w) = w" "snd (start_op sv e i u w) \<noteq> None" by blast+
next
  assume "snd (admit_start sv e s w) = None"
  then have "claim_for_start (en_db e) (s_instance s) (w_db w) = (w_db (fst (admit_start sv e s w)), Some True)"
    using admit_start_claims [of sv e s w "fst (admit_start sv e s w)"] by (metis prod.collapse)
  then show "\<not> startable (s_instance s) (w_db (fst (admit_start sv e s w)))" by (rule startable_claim(2))
next
  assume ok: "snd (start_op sv e i u w) = None"
  then obtain r where r: "get_session (en_db e) i u (w_db w) = Some r" by (auto simp: start_op_def split: option.splits)
  have i: "s_instance r = i" using get_session_row [OF r] by simp
  obtain w' where w': "start_op sv e i u w = (w', None)" using ok by (metis prod.collapse)
  show "\<not> startable i (w_db (fst (start_op sv e i u w)))"
  proof (cases "ssh_env r")
    case True
    then have run: "start_ssh sv e r w = (w', None)" using w' r by (simp add: start_op_def)
    then obtain db l where L: "claim_for_start (en_db e) i (w_db w) = (db, Some True)"
      "w' = fst (on_db (set_phase (en_db e) i Running)
              (fst (on_db (reset_billing (en_db e) i (en_now e)) (w\<lparr>w_db := db, w_leases := l\<rparr>))))"
      by (auto simp: start_ssh_def Let_def i split: option.splits prod.splits bool.splits if_splits) (metis fst_conv)
    have "\<not> startable i (fst (set_phase ok i Running d))" if "\<not> startable i d" for ok d
    proof -
      have "list_ex (\<lambda>x. s_instance x = i \<and> s_phase x = Stopped) (upd_row s_instance i (\<lambda>x. x\<lparr>s_phase := Running\<rparr>) t) \<longrightarrow>
          list_ex (\<lambda>x. s_instance x = i \<and> s_phase x = Stopped) t" for t
        by (induction t) auto
      then show ?thesis using that by (auto simp: set_phase_def write_row_def upd_session_def startable_def)
    qed
    then show ?thesis using startable_claim(2) [OF L(1)] by (simp add: w' L(2))
  next
    case False
    then have "start_container sv e r w = (w', None)" using w' r by (simp add: start_op_def)
    then obtain img w1 where f: "admit_start sv e r w = (w1, None)" "finish_start sv e r img w1 = (w', None)"
      by (auto simp: start_container_def split: option.splits prod.splits)
    have "\<not> startable i (w_db w1)" using startable_claim(2) [OF admit_start_claims [OF f(1)]] i by simp
    then show ?thesis using finish_start_not_startable [OF f(2)] by (simp add: w')
  qed
qed

text \<open>A session restarted with no node of its own (after a reallocation, or after its pod was last
  seen pending) can be taken for an orphan: if the reconciler runs between the admission of the start
  and the creation of the pod, it puts the row back to stopped, the start still succeeds, and a pod is
  left whose session is not listed as running, so that the biller and the reapers of running sessions
  never see it.\<close>

theorem start_raced_by_reconciler:
  assumes "instances_distinct (w_db w)" "session_of (w_db w) i = Some s" "\<not> ssh_env s"
    and pinned: "s_node s = []" "s_started s = Some t" "unschedulable_grace \<le> en_now e - t" "en_pod e i = PodMissing"
    and ok: "\<And>st k. en_db e st k"
    and run: "admit_start sv e s w = (w1, None)" "finish_start sv e s img (reconcile_once sv e w1) = (w3, None)"
  shows "w_pods w3 (namespace_of (sv_cfg sv) s, i) \<noteq> None \<and>
    (\<exists>r. session_of (w_db w3) i = Some r \<and> s_phase r = Stopped) \<and>
    (\<forall>r \<in> set (list_running (w_db w3)). s_instance r \<noteq> i)"
proof -
  have i: "s_instance s = i" using session_of_instance [OF assms(2)] .
  note a = admit_start_row [OF run(1) assms(2) [folded i] assms(1)]
  have "looks_orphaned e (s\<lparr>s_phase := Provisioning\<rparr>)"
    using pinned i assms(3) by (simp add: looks_orphaned_def ssh_env_def)
  then obtain r where r: "session_of (w_db (reconcile_once sv e w1)) i = Some r" "s_phase r = Stopped"
    using reconcile_stops_orphan [OF a(3) a(2) [unfolded i], of e sv] ok by auto
  obtain ws ms pref target w5 where f: "provision (sv_cfg sv) e (namespace_of (sv_cfg sv) s) s img ms pref target ws = (w5, True)"
    "same_books (reconcile_once sv e w1) w5"
    "w3 = fst (on_db (reset_billing (en_db e) i (en_now e))
             (fst (on_db (clear_stopped (en_db e) i 0) (settle_storage sv e s w5))))"
    using finish_start_cases [OF run(2)] i by (auto split: if_splits)
  have pod: "w_pods w3 (namespace_of (sv_cfg sv) s, i) \<noteq> None"
    using pods_provision [OF f(1)] i by (auto simp: f(3))
  have w5: "session_of (w_db w5) i = Some r" using r(1) same_books_D(1) [OF f(2)] by simp
  have "\<exists>r'. session_of (w_db (settle_storage sv e s w5)) i = Some r' \<and> s_phase r' = Stopped"
    by (rule settle_storage_split [of s sv e w5]) (use ok in \<open>simp_all add: i r(2) w5\<close>)
  then obtain r' where r': "session_of (w_db w3) i = Some r'" "s_phase r' = Stopped" using ok by (auto simp: f(3))
  have "map s_instance (sessions (w_db w3)) = map s_instance (sessions (w_db w1))"
    by (simp add: f(3) same_books_D(1) [OF f(2)] reconcile_once_instances)
  then have "instances_distinct (w_db w3)" using a(3) by (simp add: instances_distinct_def keys_distinct_def)
  then have "s_instance x \<noteq> i" if "x \<in> set (list_running (w_db w3))" for x
    using that r' session_of_member [of "w_db w3" x] by (auto simp: list_running_def)
  then show ?thesis using pod r' by blast
qed

lemma finish_start_succeeds:
  assumes "w_pods w (namespace_of sample_cfg s, s_instance s) = None" "session_dataset_ids (s_id s) (w_db w) = []"
  shows "\<exists>w'. finish_start sample_service sample_env s img w = (w', None)"
proof -
  define ns where "ns = namespace_of sample_cfg s"
  obtain w1 vols where m: "restart_mounts sample_env ns (s_user s) (s_id s) w = (w1, vols)" by fastforce
  have p1: "w_pods w1 (ns, s_instance s) = None"
    using pods_mount_all [OF m [unfolded restart_mounts_def]] assms(1) by (simp add: ns_def)
  have d1: "session_dataset_ids (s_id s) (w_db w1) = []"
    using same_books_D(1) [OF same_books_mount_all [OF m [unfolded restart_mounts_def]]] assms(2) by simp
  define wb where "wb = w1\<lparr>w_pvcs := insert (ns, user_home (s_user s)) (insert (ns, home_pvc (s_instance s)) (w_pvcs w1))\<rparr>"
  define pref where "pref = (case s_image s of None \<Rightarrow> [] | Some im \<Rightarrow> cached_nodes (en_cat sample_env) im)"
  define ms where "ms = vols @ [\<lparr>ms_pvc = home_pvc (s_instance s), ms_host = [], ms_empty = False, ms_path = home_mount, ms_ro = False\<rparr>,
    \<lparr>ms_pvc = user_home (s_user s), ms_host = [], ms_empty = False, ms_path = home_mount @ ''/nfs'', ms_ro = False\<rparr>]"
  have "w_pods wb (ns, s_instance s) = None" "en_k8s sample_env = (\<lambda>_. \<lambda>_. True)" by (simp_all add: wb_def p1)
  from provision_fresh [OF this(2,1), of sample_cfg img ms pref "[]"]
  obtain w3 where w3: "provision sample_cfg sample_env ns s img ms pref [] wb = (w3, True)" by auto
  then show ?thesis
    by (simp add: finish_start_def ns_def [symmetric] m ensure_session_home_def create_pvc_def shared_home_def ensure_home_def
        pick_dataset_node_def d1 wb_def ms_def pref_def Let_def)
qed

definition moved_session :: session where
  "moved_session = (sample_session ''ses-1'' 1 ''cpu'' [])\<lparr>s_env := ''container'', s_phase := Stopped, s_image := Some 1, s_node := [], s_started := Some 0\<rparr>"

definition moved_world :: "(unit, lease_db) world" where
  "moved_world = sample_world\<lparr>w_db := empty_sessions\<lparr>sessions := [moved_session]\<rparr>\<rparr>"

lemma moved_simps [simp]:
  "s_instance moved_session = ''ses-1''" "\<not> ssh_env moved_session" "s_phase moved_session = Stopped" "s_node moved_session = []"
  "s_started moved_session = Some 0" "s_env moved_session = ''container''"
  by (simp_all add: moved_session_def ssh_env_def sample_session_def)

lemma phase_updates [simp]: "ssh_env (s\<lparr>s_phase := p\<rparr>) = ssh_env s" "namespace_of cf (s\<lparr>s_phase := p\<rparr>) = namespace_of cf s"
  by (simp_all add: ssh_env_def namespace_of_def split: option.split)

lemma moved_admitted:
  "admit_start sample_service sample_env moved_session moved_world =
     (moved_world\<lparr>w_db := empty_sessions\<lparr>sessions := [moved_session\<lparr>s_phase := Provisioning\<rparr>]\<rparr>\<rparr>, None)"
proof -
  have cap: "check_capacity_cfg sample_cfg (w_db moved_world) moved_session [] = None"
    by (simp add: check_capacity_cfg_def check_capacity_on_def)
  have claim: "claim_for_start (\<lambda>_ _. True) ''ses-1'' (w_db moved_world) =
      (empty_sessions\<lparr>sessions := [moved_session\<lparr>s_phase := Provisioning\<rparr>]\<rparr>, Some True)"
    by (simp add: claim_for_start_def moved_world_def)
  show ?thesis by (simp add: admit_start_def cap claim)
qed

theorem start_claims_once_witness:
  "\<exists>w1. admit_start sample_service sample_env moved_session moved_world = (w1, None) \<and>
     fst (start_op sample_service sample_env ''ses-1'' 1 w1) = w1 \<and> snd (start_op sample_service sample_env ''ses-1'' 1 w1) \<noteq> None"
proof -
  obtain w1 where w1: "admit_start sample_service sample_env moved_session moved_world = (w1, None)" using moved_admitted by blast
  have "s_instance moved_session = ''ses-1''" by (simp add: moved_session_def sample_session_def)
  then have "\<not> startable ''ses-1'' (w_db w1)"
    using start_claims_once [of "''ses-1''" moved_world sample_service sample_env 1 moved_session, THEN conjunct2, THEN conjunct1] w1
    by simp
  then show ?thesis
    using start_claims_once [of "''ses-1''" w1 sample_service sample_env 1 moved_session, THEN conjunct1] w1 by blast
qed

theorem start_raced_by_reconciler_witness:
  "\<exists>w3. finish_start sample_service sample_env moved_session ''base:1.0''
      (reconcile_once sample_service sample_env (fst (admit_start sample_service sample_env moved_session moved_world))) = (w3, None) \<and>
    w_pods w3 (''giosk-grp-1'', ''ses-1'') \<noteq> None \<and> (\<exists>r. session_of (w_db w3) ''ses-1'' = Some r \<and> s_phase r = Stopped)"
proof -
  define w1 where "w1 = moved_world\<lparr>w_db := empty_sessions\<lparr>sessions := [moved_session\<lparr>s_phase := Provisioning\<rparr>]\<rparr>\<rparr>"
  let ?w2 = "reconcile_once sample_service sample_env w1"
  have rows: "list_active_container (w_db w1) = [moved_session\<lparr>s_phase := Provisioning\<rparr>]"
    by (simp add: w1_def list_active_container_def active_phase_def ssh_env_def)
  have orph: "looks_orphaned sample_env (moved_session\<lparr>s_phase := Provisioning\<rparr>)"
    by (simp add: looks_orphaned_def ssh_env_def sample_env_def)
  have w2: "?w2 = auto_stop sample_service sample_env ''session_orphaned'' (moved_session\<lparr>s_phase := Provisioning\<rparr>) w1"
    by (simp add: reconcile_once_def rows reconcile_one_orphan [OF orph])
  have ns: "namespace_of sample_cfg moved_session = ''giosk-grp-1''"
  proof -
    have "dec 1 = ''1''" by code_simp
    then show ?thesis by (simp add: namespace_of_def moved_session_def sample_session_def)
  qed
  have p2: "w_pods ?w2 (''giosk-grp-1'', ''ses-1'') = None" "session_dataset_ids (s_id moved_session) (w_db ?w2) = []"
    unfolding w2
    by (simp_all add: auto_stop_def settle_def Let_def case_prod_beta delete_pod_def set_phase_def mark_stopped_def write_row_def
        upd_session_def session_dataset_ids_def w1_def moved_world_def)
      (simp add: empty_sessions_def)
  obtain w3 where w3: "finish_start sample_service sample_env moved_session ''base:1.0'' ?w2 = (w3, None)"
    using finish_start_succeeds [of ?w2 moved_session "''base:1.0''"] p2 ns by auto
  have d: "instances_distinct (w_db moved_world)" "session_of (w_db moved_world) ''ses-1'' = Some moved_session"
    by (simp_all add: moved_world_def instances_distinct_def keys_distinct_def session_of_def)
  have "admit_start sample_service sample_env moved_session moved_world = (w1, None)" by (simp add: moved_admitted w1_def)
  note adm = this
  have now: "unschedulable_grace \<le> en_now sample_env - 0" "en_pod sample_env ''ses-1'' = PodMissing" by (simp_all add: sample_env_def)
  have "\<And>st k. en_db sample_env st k" by simp
  from start_raced_by_reconciler [OF d moved_simps(2,4,5) now this adm w3] w3
  show ?thesis by (auto simp: adm ns)
qed


section \<open>The pinned node and the pod\<close>

lemma pick_node_ok:
  assumes "pick_node ok cands \<noteq> []"
  shows "ok (pick_node ok cands)"
proof -
  obtain b m where bm: "pick_loop ok (\<lambda>_. 0) [] 0 cands = (b, m)" by fastforce
  have "m = 0 \<or> ok b" using pick_loop_leader [of 0 ok "[]" "\<lambda>_. 0" cands] bm by auto
  then show ?thesis using assms by (simp add: pick_node_def bm split: if_splits)
qed

text \<open>The node chosen for a session's cached datasets is one the scheduler accepts for the pod then
  built with that node as a hard requirement: it is ready, not cordoned, and satisfies the pod's node
  selector and every required affinity term, so the pin never leaves the pod without a node.\<close>

theorem pinned_pod_is_schedulable:
  assumes pick: "pick_dataset_node cache ids (Some nodes) running (s_gtype s) (s_mode s) (s_gpus s) = (target, pl)" "target \<noteq> []"
    and node: "nodes \<noteq> []" "distinct (map ln_name nodes)"
  shows "\<exists>n \<in> set nodes. ln_name n = target \<and> ln_ready n \<and> \<not> ln_cordoned n \<and>
    (\<forall>ls ct img ms pref. live_of_labels (cf_gpu_label cf) ls n \<longrightarrow>
       node_admits ls (build_pod (pod_spec_of cf ct (namespace_of cf s) s img ms pref target) (cf_gpu_label cf)))"
proof -
  obtain cands where t: "target = pick_node (pin_ok (Some nodes) running (s_gtype s) (s_mode s) (s_gpus s)) cands"
    using pick by (auto simp: pick_dataset_node_def Let_def split: option.splits if_splits)
  have "pin_ok (Some nodes) running (s_gtype s) (s_mode s) (s_gpus s) target" using pick_node_ok pick(2) unfolding t by blast
  then obtain n where n: "n \<in> set nodes" "ln_name n = target" "ln_ready n" "\<not> ln_cordoned n"
    "s_mode s = ''cpu'' \<or> s_gtype s = [] \<or> ln_gpu_type n = s_gtype s" "share_mode_allows (s_mode s) (ln_share_mode n)"
    using node(1) by (auto simp: pin_ok_def pinnable_nodes_def)
  have "node_admits ls (build_pod (pod_spec_of cf ct (namespace_of cf s) s img ms pref target) (cf_gpu_label cf))"
    if "live_of_labels (cf_gpu_label cf) ls n" for ls ct img ms pref
    using that n by (auto simp: build_pod_admits pod_spec_of_def live_of_labels_def)
  then show ?thesis using n by blast
qed

definition cache_on :: "string \<Rightarrow> int list \<Rightarrow> placement" where
  "cache_on node ids = \<lparr>pl_cached = map (\<lambda>d. (d, [node])) ids, pl_paths = map (\<lambda>d. (d, ''/cache'')) ids\<rparr>"

definition sample_node :: live_node where
  "sample_node = \<lparr>ln_name = ''n1'', ln_gpu_type = ''a'', ln_physical = False, ln_cordoned = False, ln_share_mode = [],
     ln_ready = True, ln_gpu_capacity = ''4'', ln_cpu = 32, ln_mem_gb = 128, ln_cuda = [], ln_cuda_min = [], ln_cuda_max = [],
     ln_gpu_mem = 24\<rparr>"

theorem pinned_pod_is_schedulable_witness:
  "node_admits [''gpu'' \<mapsto> ''a'', hostname_label \<mapsto> ''n1'']
     (build_pod (pod_spec_of sample_cfg sample_catalog (namespace_of sample_cfg (sample_session ''ses-1'' 1 ''exclusive'' ''a''))
        (sample_session ''ses-1'' 1 ''exclusive'' ''a'') ''base:1.0'' [] [] ''n1'') (cf_gpu_label sample_cfg))"
proof -
  let ?s = "sample_session ''ses-1'' 1 ''exclusive'' ''a''"
  have "pin_ok (Some [sample_node]) (Some []) (s_gtype ?s) (s_mode ?s) (s_gpus ?s) ''n1''" by code_simp
  then have p: "pick_dataset_node (Some (cache_on ''n1'')) [7] (Some [sample_node]) (Some []) (s_gtype ?s) (s_mode ?s) (s_gpus ?s) =
      (''n1'', Some (cache_on ''n1'' [7]))"
    by (simp add: pick_dataset_node_def cache_on_def pick_node_def Let_def)
  have l: "live_of_labels (cf_gpu_label sample_cfg) [''gpu'' \<mapsto> ''a'', hostname_label \<mapsto> ''n1''] sample_node"
    by (simp add: live_of_labels_def sample_node_def label_of_def sample_cfg_def hostname_label_def share_mode_label_def)
  show ?thesis using pinned_pod_is_schedulable [OF p, of sample_cfg] l by auto
qed

section \<open>Deleting and the other members of the team\<close>

lemma cleanup_volume_shrinks: "w_pvcs (cleanup_volume e ns u inst m w) \<subseteq> w_pvcs w" "w_db (cleanup_volume e ns u inst m w) = w_db w"
  by (auto simp: cleanup_volume_def delete_shared_pvc_def split: option.splits)

lemma cleanup_dataset_shrinks: "w_pvcs (cleanup_dataset e ns u inst d w) \<subseteq> w_pvcs w"
  by (auto simp: cleanup_dataset_def delete_shared_pvc_def)

lemma cleanup_fold_shrinks:
  "w_pvcs (fold (cleanup_volume e ns u inst) ms w) \<subseteq> w_pvcs w"
  "w_pvcs (fold (cleanup_dataset e ns u inst) ds w) \<subseteq> w_pvcs w"
proof -
  show "w_pvcs (fold (cleanup_volume e ns u inst) ms w) \<subseteq> w_pvcs w"
  proof (induction ms arbitrary: w)
    case (Cons m ms)
    have "w_pvcs (fold (cleanup_volume e ns u inst) ms (cleanup_volume e ns u inst m w)) \<subseteq> w_pvcs w"
      using Cons.IH cleanup_volume_shrinks(1) by (rule subset_trans)
    then show ?case by simp
  qed simp
  show "w_pvcs (fold (cleanup_dataset e ns u inst) ds w) \<subseteq> w_pvcs w"
  proof (induction ds arbitrary: w)
    case (Cons d ds)
    have "w_pvcs (fold (cleanup_dataset e ns u inst) ds (cleanup_dataset e ns u inst d w)) \<subseteq> w_pvcs w"
      using Cons.IH cleanup_dataset_shrinks by (rule subset_trans)
    then show ?case by simp
  qed simp
qed

lemma cleanup_fold_removes:
  assumes "m \<in> set ms" "volume_access (en_vols e) (vm_id m) u = Some acc" "va_ns acc \<noteq> ns"
    and "active_with_volume u (vm_id m) inst (w_db w) = 0" "en_k8s e KDelSharedPvc (''shared-'' @ dec (vm_id m))"
  shows "(ns, ''shared-'' @ dec (vm_id m)) \<notin> w_pvcs (fold (cleanup_volume e ns u inst) ms w)"
  using assms(1,4)
proof (induction ms arbitrary: w)
  case (Cons m' ms)
  let ?w = "cleanup_volume e ns u inst m' w"
  show ?case
  proof (cases "m' = m")
    case True
    then have "(ns, ''shared-'' @ dec (vm_id m)) \<notin> w_pvcs ?w"
      using assms Cons.prems by (simp add: cleanup_volume_def delete_shared_pvc_def)
    then show ?thesis using cleanup_fold_shrinks(1) [of e ns u inst ms ?w] by auto
  next
    case False
    then show ?thesis using Cons.IH [of ?w] Cons.prems by (simp add: cleanup_volume_shrinks)
  qed
qed simp

text \<open>Deleting a session removes the copy of a shared volume from the team's namespace although a
  running session of another member of the same team still mounts it: only the deleting user's own
  sessions are counted, while the copy is one per namespace.\<close>

theorem delete_pulls_teammates_volume:
  assumes s: "\<not> ssh_env s" "m \<in> set (session_volume_mounts (s_id s) (w_db w))"
    and acc: "volume_access (en_vols e) (vm_id m) (s_user s) = Some acc" "va_ns acc \<noteq> namespace_of (sv_cfg sv) s"
    and own: "active_with_volume (s_user s) (vm_id m) (s_instance s) (w_db w) = 0"
    and ok: "\<And>op n. en_k8s e op n" "s_phase s = Running" "sv_charger sv = None"
    and mate: "session_of (w_db w) j = Some s'" "s_instance s' = j" "j \<noteq> s_instance s" "s_group s' = s_group s" "s_group s \<noteq> None"
      "s_phase s' = Running" "m \<in> set (session_volume_mounts (s_id s') (w_db w))"
  shows "(namespace_of (sv_cfg sv) s', ''shared-'' @ dec (vm_id m)) \<notin> w_pvcs (fst (delete_session sv e s w)) \<and>
    session_of (w_db (fst (delete_session sv e s w))) j = Some s'"
proof -
  have ns: "namespace_of (sv_cfg sv) s' = namespace_of (sv_cfg sv) s" using mate(4,5) by (auto simp: namespace_of_def)
  let ?ns = "namespace_of (sv_cfg sv) s"
  have gone: "(?ns, ''shared-'' @ dec (vm_id m)) \<notin> w_pvcs (cleanup_shared_mounts e ?ns (s_user s) (s_id s) (s_instance s) v)"
    if "w_db v = w_db w" for v
  proof -
    let ?v = "fold (cleanup_volume e ?ns (s_user s) (s_instance s)) (session_volume_mounts (s_id s) (w_db v)) v"
    have "(?ns, ''shared-'' @ dec (vm_id m)) \<notin> w_pvcs ?v"
      by (rule cleanup_fold_removes) (use s(2) acc own ok(1) that in simp_all)
    then show ?thesis
      using cleanup_fold_shrinks(2) [of e ?ns "s_user s" "s_instance s" "session_dataset_ids (s_id s) (w_db v)" ?v]
      unfolding cleanup_shared_mounts_def by blast
  qed
  have "(?ns, ''shared-'' @ dec (vm_id m)) \<notin> w_pvcs (fst (delete_session sv e s w))"
    using s(1) ok gone [of "fst (delete_svc e ?ns (s_instance s) (fst (delete_pod e ?ns (s_instance s) w)))"]
    by (simp add: delete_session_def settle_def Let_def delete_pvc_def)
  then show ?thesis using delete_session_other [OF mate(3), of sv e w] mate(1) by (simp add: ns)
qed

definition team_session :: "string \<Rightarrow> int \<Rightarrow> int \<Rightarrow> session" where
  "team_session i n u = (sample_session i u ''cpu'' [])\<lparr>s_id := n, s_env := ''container'', s_phase := Running\<rparr>"

definition team_volumes :: volume_tables where
  "team_volumes = sample_volumes\<lparr>vt_shares := [\<lparr>sh_volume = 1, sh_user = None, sh_group = Some 1, sh_perm = ''ro''\<rparr>],
     vt_members := [(2, 1), (3, 1)]\<rparr>"

definition team_world :: "(unit, lease_db) world" where
  "team_world = sample_world\<lparr>w_db := empty_sessions\<lparr>sessions := [team_session ''ses-2'' 12 2, team_session ''ses-3'' 13 3],
       svols := [\<lparr>sv_session = 12, sv_volume = 1, sv_path = ''/data'', sv_perm = ''ro''\<rparr>,
                 \<lparr>sv_session = 13, sv_volume = 1, sv_path = ''/data'', sv_perm = ''ro''\<rparr>]\<rparr>,
     w_pvcs := {(''giosk-grp-1'', ''shared-1'')}\<rparr>"

theorem delete_pulls_teammates_volume_witness:
  "(''giosk-grp-1'', ''shared-1'') \<in> w_pvcs team_world \<and>
   (''giosk-grp-1'', ''shared-1'') \<notin> w_pvcs (fst (delete_session sample_service (sample_env\<lparr>en_vols := team_volumes\<rparr>) (team_session ''ses-2'' 12 2) team_world)) \<and>
   session_of (w_db (fst (delete_session sample_service (sample_env\<lparr>en_vols := team_volumes\<rparr>) (team_session ''ses-2'' 12 2) team_world))) ''ses-3''
     = Some (team_session ''ses-3'' 13 3)"
proof -
  let ?s = "team_session ''ses-2'' 12 2" and ?t = "team_session ''ses-3'' 13 3"
  define m where "m = \<lparr>vm_id = 1, vm_path = ''/data'', vm_perm = ''ro''\<rparr>"
  have f: "\<not> ssh_env ?s" "s_user ?s = 2" "s_id ?s = 12" "s_instance ?s = ''ses-2''" "s_phase ?s = Running" "s_group ?s = Some 1"
    "s_id ?t = 13" "s_instance ?t = ''ses-3''" "s_phase ?t = Running" "s_group ?t = Some 1"
    by (simp_all add: team_session_def sample_session_def ssh_env_def)
  have d1: "dec 1 = ''1''" by code_simp
  have ns: "namespace_of sample_cfg ?s = ''giosk-grp-1''" "namespace_of sample_cfg ?t = ''giosk-grp-1''"
    by (simp_all add: namespace_of_def f d1)
  have mounts: "session_volume_mounts 12 (w_db team_world) = [m]" "session_volume_mounts 13 (w_db team_world) = [m]"
    by (simp_all add: team_world_def session_volume_mounts_def m_def)
  have own: "active_with_volume 2 1 ''ses-2'' (w_db team_world) = 0" by code_simp
  have row: "session_of (w_db team_world) ''ses-3'' = Some ?t" by (simp add: team_world_def session_of_def f)
  obtain acc where acc: "volume_access team_volumes 1 2 = Some acc" "va_ns acc = ''ns-a''"
    by (simp add: volume_access_def team_volumes_def sample_volumes_def share_perms_def Let_def)
  have "(''giosk-grp-1'', ''shared-'' @ dec (vm_id m)) \<notin>
      w_pvcs (fst (delete_session sample_service (sample_env\<lparr>en_vols := team_volumes\<rparr>) ?s team_world)) \<and>
    session_of (w_db (fst (delete_session sample_service (sample_env\<lparr>en_vols := team_volumes\<rparr>) ?s team_world))) ''ses-3'' = Some ?t"
    using delete_pulls_teammates_volume [of ?s m team_world "sample_env\<lparr>en_vols := team_volumes\<rparr>" acc sample_service "''ses-3''" ?t]
    by (simp add: f ns mounts own row acc m_def)
  then show ?thesis by (simp add: m_def d1 team_world_def)
qed

end
