(* ===== verification/Session_Accounts.thy ===== *)
theory Session_Accounts
  imports Session_Reapers Wallet_Books
begin

text \<open>
  The session biller on the wallet service: the charger of \<open>internal/session\<close> is the one
  \<open>internal/credit\<close> provides, so what a session's row records as billed, what the ledger records as
  spent, and the phase of the session can be followed together through the ticks of the biller. The
  contract of a charger whose statements all go through extends the one of \<open>Credit_Store\<close>; the wallet
  service is interpreted as both.
\<close>

section \<open>A meter\<close>

text \<open>The abstract account of a running session: what it has been billed, what has been spent in its
  name, and whether it runs. One reading charges the difference to what is due by now, or stops the
  session when the funds do not cover it.\<close>

record meter =
  mt_billed :: int
  mt_spent :: int
  mt_running :: bool

definition meter_step :: "int \<Rightarrow> int \<Rightarrow> meter \<Rightarrow> meter" where
  "meter_step owed funds m =
     (if owed \<le> mt_billed m then m
      else if funds < owed - mt_billed m then m\<lparr>mt_running := False\<rparr>
      else m\<lparr>mt_billed := owed, mt_spent := mt_spent m + (owed - mt_billed m)\<rparr>)"

definition meter_of :: "('w \<Rightarrow> string \<Rightarrow> int) \<Rightarrow> ('w, 'l) world \<Rightarrow> string \<Rightarrow> meter" where
  "meter_of acct w i =
     \<lparr>mt_billed = billed_of (w_db w) i, mt_spent = acct (w_wallet w) i,
      mt_running = (case session_of (w_db w) i of None \<Rightarrow> False | Some s \<Rightarrow> s_phase s = Running)\<rparr>"

definition due_now :: "session \<Rightarrow> time \<Rightarrow> int" where
  "due_now s now = (if s_price s \<le> 0 then 0 else case s_started s of None \<Rightarrow> 0 | Some t \<Rightarrow> total_due (s_price s) t now)"

text \<open>Two sessions are paid from one wallet when they are of one user in one team; what a run of the
  biller charges for a session is what the ledger gains in its name.\<close>

definition same_wallet :: "session \<Rightarrow> session \<Rightarrow> bool" where
  "same_wallet x s \<longleftrightarrow> s_user x = s_user s \<and> gid_of x = gid_of s"

definition charged_for :: "('w \<Rightarrow> string \<Rightarrow> int) \<Rightarrow> ('w, 'l) world \<Rightarrow> ('w, 'l) world \<Rightarrow> session \<Rightarrow> int" where
  "charged_for acct before w s = acct (w_wallet w) (s_instance s) - acct (w_wallet before) (s_instance s)"

section \<open>A charger that answers\<close>

locale reliable_charging = charging +
  fixes funds :: "'a \<Rightarrow> int \<Rightarrow> int \<Rightarrow> int"
  assumes consume_exact: "ch_consume C u g n ref w = (w', c) \<Longrightarrow> 0 < n \<Longrightarrow>
      c = (if funds w u g < n then CInsufficient else COk)"
    and consume_funds: "ch_consume C u g n ref w = (w', c) \<Longrightarrow> 0 < n \<Longrightarrow> 0 < g \<Longrightarrow> 0 < g' \<Longrightarrow>
      funds w' u' g' = funds w u' g' - (if c = COk \<and> u' = u \<and> g' = g then n else 0)"
begin

lemma settle_meter:
  assumes C: "sv_charger sv = Some C" and row: "session_of (w_db w) (s_instance s) = Some s" "s_phase s = Running"
    and ok: "\<And>st i. en_db e st i" and b: "0 \<le> s_billed s"
  shows "meter_of acct (settle sv e s False w) (s_instance s) =
      meter_step (due_now s (en_now e)) (funds (w_wallet w) (s_user s) (gid_of s)) (meter_of acct w (s_instance s))"
proof -
  obtain wl r where c: "ch_consume C (s_user s) (gid_of s) (unsettled s (en_now e)) (s_instance s) (w_wallet w) = (wl, r)"
    by fastforce
  have u: "unsettled s (en_now e) \<le> 0 \<longleftrightarrow> due_now s (en_now e) \<le> s_billed s"
    "\<not> unsettled s (en_now e) \<le> 0 \<Longrightarrow> due_now s (en_now e) = s_billed s + unsettled s (en_now e)"
    using b by (auto simp: unsettled_def due_now_def split: option.splits)
  show ?thesis
  proof (cases "unsettled s (en_now e) \<le> 0")
    case True
    then show ?thesis using row u(1) by (simp add: settle_cases [OF C c] meter_step_def meter_of_def billed_of_def)
  next
    case False
    have r: "r = (if funds (w_wallet w) (s_user s) (gid_of s) < unsettled s (en_now e) then CInsufficient else COk)"
      using consume_exact [OF c] False by simp
    have acct: "acct wl (s_instance s) = acct (w_wallet w) (s_instance s) + (if r = COk then unsettled s (en_now e) else 0)"
      using consume_account [OF c, of "s_instance s"] False by simp
    note facts = False acct row ok u(2)
    show ?thesis
    proof (cases "funds (w_wallet w) (s_user s) (gid_of s) < unsettled s (en_now e)")
      case True
      then show ?thesis unfolding settle_cases [OF C c] r using facts
        by (auto simp: meter_step_def meter_of_def billed_of_def stop_for_billing_row Let_def r)
    next
      case enough: False
      then show ?thesis unfolding settle_cases [OF C c] r using facts
        by (auto simp: meter_step_def meter_of_def billed_of_def Let_def r)
    qed
  qed
qed

lemma settle_other_meter:
  assumes "sv_charger sv = Some C" "i \<noteq> s_instance s"
  shows "meter_of acct (settle sv e s f w) i = meter_of acct w i"
proof -
  obtain wl r where c: "ch_consume C (s_user s) (gid_of s) (unsettled s (en_now e)) (s_instance s) (w_wallet w) = (wl, r)"
    by fastforce
  have "acct (w_wallet (settle sv e s f w)) i = acct (w_wallet w) i"
    unfolding settle_cases [OF assms(1) c] using consume_account [OF c, of i] assms(2) by (cases r) (auto simp: Let_def)
  then show ?thesis by (simp add: meter_of_def billed_of_def settle_other_row [OF assms(2)])
qed

lemma settle_funds:
  assumes "sv_charger sv = Some C" "0 < gid_of s" "0 < g"
  shows "funds (w_wallet (settle sv e s f w)) u g = funds (w_wallet w) u g -
    (if s_user s = u \<and> gid_of s = g then acct (w_wallet (settle sv e s f w)) (s_instance s) - acct (w_wallet w) (s_instance s) else 0)"
proof -
  obtain wl r where c: "ch_consume C (s_user s) (gid_of s) (unsettled s (en_now e)) (s_instance s) (w_wallet w) = (wl, r)"
    by fastforce
  show ?thesis
  proof (cases "unsettled s (en_now e) \<le> 0")
    case True
    then show ?thesis by (simp add: settle_cases [OF assms(1) c])
  next
    case False
    then have "w_wallet (settle sv e s f w) = wl"
      unfolding settle_cases [OF assms(1) c] by (cases r) (auto simp: Let_def)
    then show ?thesis
      using False consume_funds [OF c _ assms(2,3), of u] consume_account [OF c, of "s_instance s"] by auto
  qed
qed

text \<open>The sessions billed before a session have taken their charges from its wallet when its turn comes.\<close>

lemma settle_fold_meter:
  assumes C: "sv_charger sv = Some C" and ok: "\<And>st i. en_db e st i"
    and s: "s_phase s = Running" "0 \<le> s_billed s" "0 < gid_of s"
  defines "run \<equiv> fold (\<lambda>s. settle sv e s False)"
  shows "rows_current (xs @ s # ys) (w_db w) \<Longrightarrow> \<forall>x \<in> set xs. 0 < gid_of x \<Longrightarrow>
      meter_of acct (run (xs @ s # ys) w) (s_instance s) =
        meter_step (due_now s (en_now e))
          (funds (w_wallet w) (s_user s) (gid_of s) -
           (\<Sum>x\<leftarrow>xs. if same_wallet x s then charged_for acct w (run (xs @ s # ys) w) x else 0))
          (meter_of acct w (s_instance s))"
proof (induction xs arbitrary: w)
  have rest: "meter_of acct (run zs v) i = meter_of acct v i" if "i \<notin> s_instance ` set zs" for v i zs
    using that unfolding run_def by (induction zs arbitrary: v) (auto simp: settle_other_meter [OF C])
  {
    case Nil
    have "session_of (w_db w) (s_instance s) = Some s"
      using Nil(1) unfolding rows_current_def append_Nil by (meson list.set_intros(1))
    moreover have "distinct (s_instance s # map s_instance ys)" using Nil(1) unfolding rows_current_def append_Nil list.map by blast
    ultimately show ?case
      using rest [of "s_instance s" ys "settle sv e s False w"] settle_meter [OF C _ s(1) ok s(2), of w] by (simp add: run_def)
  next
    case (Cons x xs)
    let ?w = "settle sv e x False w" and ?all = "xs @ s # ys"
    have cur: "rows_current ?all (w_db ?w)"
      by (rule rows_current_Cons [OF Cons.prems(1) [unfolded append_Cons]]) (rule settle_other_row)
    have "distinct (s_instance x # map s_instance ?all)"
      using Cons.prems(1) unfolding rows_current_def append_Cons list.map by blast
    then have new: "s_instance x \<notin> s_instance ` set ?all" by auto
    have step: "run ((x # xs) @ s # ys) w = run ?all ?w" by (simp add: run_def)
    have s_x: "s_instance s \<noteq> s_instance x" using new by auto
    have others: "charged_for acct ?w v y = charged_for acct w v y" if "y \<in> set xs" for v y
    proof -
      have "s_instance y \<noteq> s_instance x" using new that by (metis UnCI imageI set_append)
      then show ?thesis using settle_other_meter [OF C, of "s_instance y" x e False w] by (simp add: charged_for_def meter_of_def)
    qed
    have own: "acct (w_wallet (run ?all ?w)) (s_instance x) = acct (w_wallet ?w) (s_instance x)"
      using rest [OF new, of ?w] by (simp add: meter_of_def)
    have sums: "(\<Sum>y\<leftarrow>xs. if same_wallet y s then charged_for acct ?w v y else 0) =
        (\<Sum>y\<leftarrow>xs. if same_wallet y s then charged_for acct w v y else 0)" for v
      using others by (intro arg_cong [where f = sum_list] map_cong) auto
    have gx: "0 < gid_of x" "\<forall>x \<in> set xs. 0 < gid_of x" using Cons.prems(2) by simp_all
    show ?case
      unfolding step Cons.IH [OF cur gx(2)] sums settle_other_meter [OF C s_x]
      by (simp add: own settle_funds [OF C gx(1) s(3)] same_wallet_def charged_for_def algebra_simps)
  }
qed

lemma storage_tick_meter:
  assumes C: "sv_charger sv = Some C" and i: "\<And>j. home_pvc j \<noteq> i"
  shows "meter_of acct (storage_tick sv e s w) i = meter_of acct w i"
proof (cases "s_stopped_since s")
  case None
  then show ?thesis
    by (cases "session_of (w_db w) i") (auto simp: storage_tick_def meter_of_def billed_of_def)
next
  case (Some t)
  obtain wl r where c: "ch_consume C (s_user s) (gid_of s) (storage_unsettled (sv_cfg sv) s (en_now e))
      (home_pvc (s_instance s)) (w_wallet w) = (wl, r)" by fastforce
  have a: "acct wl i = acct (w_wallet w) i" using consume_account [OF c, of i] i [of "s_instance s"] by auto
  have eq: "storage_tick sv e s w = settle_storage sv e s w" using Some by (simp add: storage_tick_def)
  show ?thesis
    unfolding eq settle_storage_cases [OF Some C c] using a
    by (cases "session_of (w_db w) i") (auto simp: meter_of_def billed_of_def)
qed

lemma tick_meter:
  assumes C: "sv_charger sv = Some C" and ok: "\<And>st i. en_db e st i" and plain: "plain_instances (w_db w)"
    and s: "list_running (w_db w) = xs @ s # ys" "0 \<le> s_billed s" "\<forall>x \<in> set (xs @ [s]). 0 < gid_of x"
  shows "meter_of acct (bill_once sv e w) (s_instance s) =
      meter_step (due_now s (en_now e))
        (funds (w_wallet w) (s_user s) (gid_of s) -
         (\<Sum>x\<leftarrow>xs. if same_wallet x s then charged_for acct w (bill_once sv e w) x else 0))
        (meter_of acct w (s_instance s))"
proof -
  have d: "instances_distinct (w_db w)" using plain by (simp add: plain_instances_def)
  have r: "rows_current (list_running (w_db w)) (w_db w)" using rows_current_filter [OF d] by (simp only: list_running_def)
  have run: "s_phase x = Running" "x \<in> set (sessions (w_db w))" if "x \<in> set (xs @ s # ys)" for x
    using that unfolding s(1) [symmetric] by (simp_all add: list_running_def)
  have h: "home_pvc j \<noteq> s_instance x" if "x \<in> set (xs @ s # ys)" for j x by (rule plain_not_home [OF plain run(2) [OF that]])
  have tail: "meter_of acct (fold (storage_tick sv e) ss v) (s_instance x) = meter_of acct v (s_instance x)"
    if "x \<in> set (xs @ s # ys)" for ss v x
    by (induction ss arbitrary: v) (simp_all add: storage_tick_meter [OF C h [OF that]])
  define v where "v = fold (\<lambda>s. settle sv e s False) (xs @ s # ys) w"
  have after: "meter_of acct (bill_once sv e w) (s_instance x) = meter_of acct v (s_instance x)" if "x \<in> set (xs @ s # ys)" for x
    using tail [OF that] ok by (simp add: bill_once_def bill_stopped_eq s(1) v_def)
  have "charged_for acct w (bill_once sv e w) x = charged_for acct w v x" if "x \<in> set xs" for x
    using after [of x] that by (simp add: charged_for_def meter_of_def)
  then have sums: "(\<Sum>x\<leftarrow>xs. if same_wallet x s then charged_for acct w (bill_once sv e w) x else 0) =
      (\<Sum>x\<leftarrow>xs. if same_wallet x s then charged_for acct w v x else 0)"
    by (intro arg_cong [where f = sum_list] map_cong) auto
  have "meter_of acct v (s_instance s) =
      meter_step (due_now s (en_now e))
        (funds (w_wallet w) (s_user s) (gid_of s) - (\<Sum>x\<leftarrow>xs. if same_wallet x s then charged_for acct w v x else 0))
        (meter_of acct w (s_instance s))"
    unfolding v_def using run(1) [of s] r s(1,3) by (intro settle_fold_meter [OF C ok _ s(2)]) simp_all
  then show ?thesis unfolding sums using after [of s] by simp
qed

end

section \<open>The wallet service is such a charger\<close>

lemma consume_all_ok:
  assumes "consume (\<lambda>_. True) sv u g0 n ref s = (s', c)" "0 < n"
  shows "c = (if balance_of s u (resolve_group_id sv s u g0) < n then CInsufficient else COk)"
proof -
  let ?g = "resolve_group_id sv s u g0"
  obtain s1 r where w: "user_wallet_of (\<lambda>_. True) u ?g s = (s1, r)" by (cases "user_wallet_of (\<lambda>_. True) u ?g s")
  obtain wl where r: "r = Some wl" "u_balance wl = balance_of s u ?g"
    using user_wallet_of_effect(8,9) [OF w] by (cases r) auto
  show ?thesis
    using assms w r by (auto simp: consume_def apply_user_tx_def Let_def split: if_splits)
qed

interpretation wx: reliable_charging "wallet_charger (\<lambda>_ _. True) sv" spent "\<lambda>s u g. balance_of s u (resolve_group_id sv s u g)" for sv
proof (unfold_locales, goal_cases)
  case (1 u g n ref w w' c)
  then show ?case using consume_all_ok by (simp add: wallet_charger_def)
next
  case (2 u g n ref w w' c g' u')
  then have run: "consume (\<lambda>_. True) sv u g n ref w = (w', c)" by (simp add: wallet_charger_def)
  have "resolve_group_id sv v u' g' = g'" "resolve_group_id sv v u g = g" for v using 2 by (simp_all add: resolve_group_id_def)
  then show ?case using consume_effect(1) [OF run 2(2), of u' g'] by simp
qed


text \<open>C28: Over any number of ticks the ledger and the rows stay together, as long as the statements that
  record a charge go through: what is spent in a session's name grows by exactly what its row says was
  billed, and likewise for the homes of stopped sessions, whatever the wallets can pay and whatever
  other statements fail.\<close>

theorem charges_match_records:
  assumes "sv_charger sv = Some (wallet_charger dbs ws)" "\<forall>e \<in> set es. records_ok e" "plain_instances (w_db w)"
    and "\<not> has_prefix ''sh-'' i"
  shows "spent (w_wallet (fold (bill_once sv) es w)) i - spent (w_wallet w) i =
      billed_of (w_db (fold (bill_once sv) es w)) i - billed_of (w_db w) i \<and>
    spent (w_wallet (fold (bill_once sv) es w)) (home_pvc j) - spent (w_wallet w) (home_pvc j) =
      storage_billed_of (w_db (fold (bill_once sv) es w)) j - storage_billed_of (w_db w) j"
  using charging.bill_ticks_gap [OF wc.charging_axioms assms(1,4,2,3), of j]
  by (simp add: charging.gap_def [OF wc.charging_axioms] charging.home_gap_def [OF wc.charging_axioms])


section \<open>When recording a charge fails\<close>

text \<open>A charge whose record fails is charged again: if the statement storing the billed total fails
  after the wallet was debited, the next tick debits the whole amount a second time, and the ledger
  shows more than was ever due.\<close>

theorem unrecorded_charge_is_repeated:
  assumes sv: "sv_charger sv = Some (wallet_charger (\<lambda>_ _. True) ws)"
    and row: "session_of (w_db w) (s_instance s) = Some s" "0 < gid_of s"
    and fail: "\<not> en_db e SBilled (s_instance s)"
    and due: "0 < unsettled s (en_now e)" "unsettled s (en_now e) \<le> unsettled s (en_now e')"
    and funds: "unsettled s (en_now e) + unsettled s (en_now e') \<le> balance_of (w_wallet w) (s_user s) (gid_of s)"
    and later: "en_db e' SBilled (s_instance s)"
  defines "w1 \<equiv> settle sv e s False w" and "w2 \<equiv> settle sv e' s False (settle sv e s False w)"
  shows "session_of (w_db w1) (s_instance s) = Some s \<and>
    spent (w_wallet w2) (s_instance s) =
      spent (w_wallet w) (s_instance s) + unsettled s (en_now e) + unsettled s (en_now e') \<and>
    billed_of (w_db w2) (s_instance s) = s_billed s + unsettled s (en_now e')"
proof -
  let ?C = "wallet_charger (\<lambda>_ _. True) ws" and ?i = "s_instance s" and ?d = "unsettled s (en_now e)" and ?d' = "unsettled s (en_now e')"
  have g: "resolve_group_id ws v (s_user s) (gid_of s) = gid_of s" for v using row(2) by (simp add: resolve_group_id_def)
  obtain wl r where c: "ch_consume ?C (s_user s) (gid_of s) ?d ?i (w_wallet w) = (wl, r)" by fastforce
  have r: "r = COk" using wx.consume_exact [OF c due(1)] funds due by (simp add: g)
  have wl: "spent wl ?i = spent (w_wallet w) ?i + ?d" using wc.consume_account [OF c, of ?i] r due(1) by simp
  have bal: "balance_of wl (s_user s) (gid_of s) = balance_of (w_wallet w) (s_user s) (gid_of s) - ?d"
    using consume_effect(1) [of "\<lambda>_. True" ws "s_user s" "gid_of s" ?d ?i "w_wallet w" wl r "s_user s" "gid_of s"] c r due(1)
    by (simp add: wallet_charger_def g)
  have w1: "session_of (w_db w1) ?i = Some s" "w_wallet w1 = wl"
    unfolding w1_def settle_cases [OF sv c] using r due(1) row fail by (auto simp: Let_def)
  obtain wl' r' where c': "ch_consume ?C (s_user s) (gid_of s) ?d' ?i (w_wallet w1) = (wl', r')" by fastforce
  have r': "r' = COk" using wx.consume_exact [OF c'] funds due bal by (simp add: g w1)
  have "spent wl' ?i = spent wl ?i + ?d'" using wc.consume_account [OF c', of ?i] r' due by (simp add: w1)
  moreover have "w_wallet w2 = wl'" "session_of (w_db w2) ?i = Some (s\<lparr>s_billed := s_billed s + ?d'\<rparr>)"
    unfolding w2_def w1_def [symmetric] settle_cases [OF sv c'] using r' due w1(1) later by (auto simp: Let_def)
  ultimately show ?thesis using w1(1) wl by (simp add: billed_of_def)
qed

section \<open>The storage formula on machine integers\<close>

text \<open>On 64-bit integers the amount due for a stopped home is exact as long as ten times price times
  seconds stays below \<open>2^63\<close>: no product wraps, the result is not negative, and it grows with the time.\<close>

theorem storage_due_exact:
  assumes "0 \<le> secs" "0 \<le> price" "home_size_gib * price * secs < 2 ^ 63" "secs < 2 ^ 63" "price < 2 ^ 63"
  shows "sint (storage_due64 (word_of_int secs) (word_of_int price)) = storage_due_of secs price \<and>
    0 \<le> storage_due_of secs price \<and>
    (\<forall>earlier. 0 \<le> earlier \<longrightarrow> earlier \<le> secs \<longrightarrow> storage_due_of earlier price \<le> storage_due_of secs price)"
proof -
  have s: "sint (word_of_int n :: 64 word) = n" if "0 \<le> n" "n < 2 ^ 63" for n
    using that by (simp add: signed_of_int signed_take_bit_int_eq_self)
  have prod: "(word_of_int home_size_gib * word_of_int price * word_of_int secs :: 64 word) = word_of_int (home_size_gib * price * secs)"
    by simp
  have nonneg: "0 \<le> home_size_gib * price * secs" using assms by (simp add: home_size_gib_def)
  let ?q = "home_size_gib * price * secs div seconds_per_month"
  have q: "0 \<le> ?q" "?q \<le> home_size_gib * price * secs"
  proof -
    show "0 \<le> ?q" using nonneg by (simp add: seconds_per_month_def)
    show "?q \<le> home_size_gib * price * secs"
      using zdiv_mono2 [OF nonneg, of 1 seconds_per_month] by (simp add: seconds_per_month_def)
  qed
  have due: "storage_due_of n price = home_size_gib * price * n div seconds_per_month" if "0 \<le> n" for n
  proof -
    have "0 \<le> home_size_gib * price * n" using that assms(2) by (simp add: home_size_gib_def)
    then show ?thesis using that assms(2)
      by (cases "n = 0 \<or> price = 0") (auto simp: storage_due_of_def sdiv_nonneg seconds_per_month_def)
  qed
  have "storage_due_of earlier price \<le> storage_due_of secs price" if "0 \<le> earlier" "earlier \<le> secs" for earlier
  proof -
    have "home_size_gib * price * earlier \<le> home_size_gib * price * secs"
      using that assms(2) by (intro mult_left_mono) (simp_all add: home_size_gib_def)
    then show ?thesis using that assms(1) by (simp add: due zdiv_mono1 seconds_per_month_def)
  qed
  moreover have "sint (storage_due64 (word_of_int secs) (word_of_int price)) = ?q"
  proof (cases "secs = 0 \<or> price = 0")
    case True
    then show ?thesis by (auto simp: storage_due64_def)
  next
    case False
    then have pos: "\<not> (sint (word_of_int secs :: 64 word) \<le> 0 \<or> sint (word_of_int price :: 64 word) \<le> 0)"
      using assms(1,2) by (simp only: s [OF assms(1,4)] s [OF assms(2,5)]) linarith
    have lt: "?q < 2 ^ 63" using q(2) assms(3) by linarith
    have sd: "(home_size_gib * price * secs) sdiv seconds_per_month = ?q"
      by (rule sdiv_nonneg [OF nonneg]) (simp add: seconds_per_month_def)
    show ?thesis
      unfolding storage_due64_def if_not_P [OF pos] prod s [OF nonneg assms(3)] sd by (rule s [OF q(1) lt])
  qed
  ultimately show ?thesis using q(1) due [OF assms(1)] by simp
qed

theorem storage_due_exact_witness:
  "sint (storage_due64 (word_of_int 315360000) (word_of_int 1000)) = storage_due_of 315360000 1000 \<and> 0 \<le> storage_due_of 315360000 1000"
  using storage_due_exact [of 315360000 1000] by (simp only: home_size_gib_def) simp

section \<open>Samples\<close>

definition metered_session :: session where
  "metered_session = (sample_session ''ses-1'' 1 ''cpu'' [])\<lparr>s_env := ''container'', s_phase := Running, s_started := Some 0\<rparr>"

definition metered_world :: "int \<Rightarrow> (store, lease_db) world" where
  "metered_world n = \<lparr>w_db = empty_sessions\<lparr>sessions := [metered_session]\<rparr>,
     w_wallet = empty_store\<lparr>uwallets := [\<lparr>u_user = 1, u_group = 1, u_balance = n, u_reserved = 0, u_cap = 0, u_cycle = None,
        u_recurring = 0, u_interval = 0, u_carry = False\<rparr>]\<rparr>,
     w_leases = empty_leases, w_pods = Map.empty, w_svcs = [], w_pvcs = {}, w_policies = Map.empty, w_audit = []\<rparr>"

definition metered_service :: "(store, lease_db) session_svc" where
  "metered_service = \<lparr>sv_cfg = sample_cfg, sv_charger = Some (wallet_charger (\<lambda>_ _. True) (live_svc (\<lambda>_. True) None)), sv_leaser = None\<rparr>"

definition after :: "int \<Rightarrow> env" where
  "after hours = sample_env\<lparr>en_now := hours * hour\<rparr>"

lemma metered_simps [simp]:
  "s_instance metered_session = ''ses-1''" "s_user metered_session = 1" "gid_of metered_session = 1" "s_billed metered_session = 0"
  "s_price metered_session = 100" "s_started metered_session = Some 0" "en_now (after h) = h * hour" "en_db (after h) = (\<lambda>_ _. True)"
  "sv_charger metered_service = Some (wallet_charger (\<lambda>_ _. True) (live_svc (\<lambda>_. True) None))"
  "balance_of (w_wallet (metered_world n)) 1 1 = n"
  by (simp_all add: metered_session_def sample_session_def gid_of_def after_def metered_service_def metered_world_def balance_of_def u_key_def)

lemma metered_rows:
  "metered_session \<in> set (list_running (w_db (metered_world n)))" "plain_instances (w_db (metered_world n))"
  "session_of (w_db (metered_world n)) ''ses-1'' = Some metered_session"
  by (simp_all add: metered_world_def list_running_def plain_instances_def instances_distinct_def keys_distinct_def
      has_prefix_def session_of_def) (simp_all add: metered_session_def)

lemma metered_due: "due_now metered_session 3600000000000 = 100" "unsettled metered_session 3600000000000 = 100"
  "unsettled metered_session 7200000000000 = 200"
proof -
  have "total_due 100 0 3600000000000 = 100" "total_due 100 0 7200000000000 = 200" by code_simp+
  then show "due_now metered_session 3600000000000 = 100" "unsettled metered_session 3600000000000 = 100"
    "unsettled metered_session 7200000000000 = 200"
    by (simp_all add: due_now_def unsettled_def)
qed

text \<open>A second session of the same wallet, twice as dear and listed after the first.\<close>

definition second_session :: session where
  "second_session = metered_session\<lparr>s_instance := ''ses-2'', s_price := 200\<rparr>"

definition two_sessions :: "int \<Rightarrow> (store, lease_db) world" where
  "two_sessions n = (metered_world n)\<lparr>w_db := empty_sessions\<lparr>sessions := [metered_session, second_session]\<rparr>\<rparr>"

lemma second_simps [simp]:
  "s_instance second_session = ''ses-2''" "s_user second_session = 1" "gid_of second_session = 1" "s_billed second_session = 0"
  "same_wallet metered_session second_session" "w_wallet (two_sessions n) = w_wallet (metered_world n)"
  by (simp_all add: second_session_def same_wallet_def two_sessions_def gid_of_def) (simp_all add: metered_session_def sample_session_def)

lemma two_rows:
  "list_running (w_db (two_sessions n)) = [metered_session, second_session]" "plain_instances (w_db (two_sessions n))"
  by (simp_all add: two_sessions_def list_running_def plain_instances_def instances_distinct_def keys_distinct_def has_prefix_def)
    (simp_all add: metered_session_def second_session_def)

lemma second_due: "due_now second_session 3600000000000 = 200"
proof -
  have "total_due 200 0 3600000000000 = 200" by code_simp
  then show ?thesis by (simp add: due_now_def second_session_def)
qed

lemma two_meters:
  "meter_of spent (two_sessions n) ''ses-1'' = \<lparr>mt_billed = 0, mt_spent = 0, mt_running = True\<rparr>"
  "meter_of spent (two_sessions n) ''ses-2'' = \<lparr>mt_billed = 0, mt_spent = 0, mt_running = True\<rparr>"
proof -
  have "session_of (w_db (two_sessions n)) ''ses-1'' = Some metered_session" "session_of (w_db (two_sessions n)) ''ses-2'' = Some second_session"
    by (simp_all add: two_sessions_def session_of_def)
  moreover have "spent (w_wallet (metered_world n)) i = 0" for i by (simp add: metered_world_def spent_def empty_store_def)
  ultimately show "meter_of spent (two_sessions n) ''ses-1'' = \<lparr>mt_billed = 0, mt_spent = 0, mt_running = True\<rparr>"
    "meter_of spent (two_sessions n) ''ses-2'' = \<lparr>mt_billed = 0, mt_spent = 0, mt_running = True\<rparr>"
    by (simp_all add: meter_of_def billed_of_def) (simp_all add: metered_session_def second_session_def)
qed


theorem charges_match_records_witness:
  "spent (w_wallet (fold (bill_once metered_service) [after 1, after 2] (metered_world 250))) ''ses-1'' - spent (w_wallet (metered_world 250)) ''ses-1'' =
     billed_of (w_db (fold (bill_once metered_service) [after 1, after 2] (metered_world 250))) ''ses-1'' - billed_of (w_db (metered_world 250)) ''ses-1''"
  using charges_match_records [OF metered_simps(9) _ metered_rows(2), of "[after 1, after 2]" "''ses-1''" 250]
  by (simp add: records_ok_def has_prefix_def del: fold.simps)

theorem unrecorded_charge_is_repeated_witness:
  "\<exists>w :: (store, lease_db) world. spent (w_wallet w) ''ses-1'' = spent (w_wallet (metered_world 300)) ''ses-1'' + 300 \<and> billed_of (w_db w) ''ses-1'' = 200"
proof -
  let ?e = "(after 1)\<lparr>en_db := \<lambda>st _. st \<noteq> SBilled\<rparr>"
  have "\<not> en_db ?e SBilled ''ses-1''" "unsettled metered_session (en_now ?e) = 100" "unsettled metered_session (en_now (after 2)) = 200"
    by (simp_all add: metered_due)
  then have "spent (w_wallet (settle metered_service (after 2) metered_session False (settle metered_service ?e metered_session False (metered_world 300)))) ''ses-1''
      = spent (w_wallet (metered_world 300)) ''ses-1'' + 300 \<and>
    billed_of (w_db (settle metered_service (after 2) metered_session False (settle metered_service ?e metered_session False (metered_world 300)))) ''ses-1'' = 200"
    using unrecorded_charge_is_repeated [of metered_service "live_svc (\<lambda>_. True) None" "metered_world 300" metered_session ?e "after 2"] metered_rows(3)
    by simp
  then show ?thesis by blast
qed

end
