(* ===== verification/Gateway.thy ===== *)
theory Gateway
  imports Giosk_Prelude "HOL-Library.AList"
begin

text \<open>
  The access gateway (\<open>internal/gateway\<close>): the claims of an access token, signing and verifying
  them, the cache of used token identifiers, the web proxy (exchange of a link for a cookie, routing of a
  request by its cookie) and the SSH proxy up to the connection it opens to the session.

  AES-GCM, SHA-256 and the JSON encoding of the claims are the parameter \<open>codec\<close>; \<open>codec_ok\<close> states
  the part of their documentation the code relies on: opening undoes sealing under the same key and
  nonce, and decoding undoes encoding of claims made of ASCII strings. The unpadded URL alphabet
  of \<open>encoding/base64\<close> is defined here. One request is handled at one instant.
\<close>

section \<open>Claims\<close>

record claims =
  gc_iid :: string
  gc_ch :: string
  gc_ns :: string
  gc_port :: int
  gc_sub :: int
  gc_typ :: string
  gc_tgt :: string
  gc_host :: string
  gc_user :: string
  gc_secret :: string
  gc_exp :: int
  gc_jti :: string

definition service_host :: "claims \<Rightarrow> string" where
  "service_host c = gc_iid c @ ''.'' @ gc_ns c @ ''.svc.cluster.local''"

text \<open>\<open>Time.Unix\<close>: whole seconds, rounded down.\<close>

definition unix :: "time \<Rightarrow> int" where
  "unix t = t div second"

lemma unix_mono: "s \<le> t \<Longrightarrow> unix s \<le> unix t"
  by (simp add: unix_def zdiv_mono1)

section \<open>Unpadded URL-safe base64\<close>

definition b64_alphabet :: string where
  "b64_alphabet = ''ABCDEFGHIJKLMNOPQRSTUVWXYZabcdefghijklmnopqrstuvwxyz0123456789-_''"

definition b64_char :: "nat \<Rightarrow> char" where
  "b64_char i = b64_alphabet ! i"

definition b64_index :: "char \<Rightarrow> nat option" where
  "b64_index c =
     (let n = of_char c
      in if 65 \<le> n \<and> n \<le> 90 then Some (n - 65)
         else if 97 \<le> n \<and> n \<le> 122 then Some (n - 71)
         else if 48 \<le> n \<and> n \<le> 57 then Some (n + 4)
         else if n = 45 then Some 62
         else if n = 95 then Some 63 else None)"

fun b64_groups :: "nat list \<Rightarrow> nat list" where
  "b64_groups (a # b # c # r) =
     (a div 4) # ((a mod 4) * 16 + b div 16) # ((b mod 16) * 4 + c div 64) # (c mod 64) # b64_groups r"
| "b64_groups [a, b] = [a div 4, (a mod 4) * 16 + b div 16, (b mod 16) * 4]"
| "b64_groups [a] = [a div 4, (a mod 4) * 16]"
| "b64_groups [] = []"

definition b64_encode :: "string \<Rightarrow> string" where
  "b64_encode s = map b64_char (b64_groups (map of_char s))"

text \<open>The decoder skips line breaks and ignores the low bits of an incomplete last group.\<close>

fun b64_ungroup :: "nat list \<Rightarrow> nat list option" where
  "b64_ungroup (w # x # y # z # r) =
     map_option (\<lambda>bs. (w * 4 + x div 16) # ((x mod 16) * 16 + y div 4) # ((y mod 4) * 64 + z) # bs) (b64_ungroup r)"
| "b64_ungroup [w, x, y] = Some [w * 4 + x div 16, (x mod 16) * 16 + y div 4]"
| "b64_ungroup [w, x] = Some [w * 4 + x div 16]"
| "b64_ungroup [w] = None"
| "b64_ungroup [] = Some []"

fun b64_values :: "string \<Rightarrow> nat list option" where
  "b64_values [] = Some []"
| "b64_values (c # s) =
     (case b64_index c of None \<Rightarrow> None | Some i \<Rightarrow> map_option (\<lambda>is. i # is) (b64_values s))"

definition b64_decode :: "string \<Rightarrow> string option" where
  "b64_decode s =
     (case b64_values (filter (\<lambda>c. c \<noteq> CHR 0x0A \<and> c \<noteq> CHR 0x0D) s) of None \<Rightarrow> None
      | Some vs \<Rightarrow> map_option (map char_of) (b64_ungroup vs))"

lemma b64_alphabet_index: "map b64_index b64_alphabet = map Some [0..<64]"
  by (simp add: b64_alphabet_def b64_index_def upt_rec)

lemma b64_alphabet_plain: "list_all (\<lambda>c. c \<noteq> CHR 0x0A \<and> c \<noteq> CHR 0x0D) b64_alphabet"
  by (simp add: b64_alphabet_def)

lemma b64_length: "length b64_alphabet = 64"
  by (simp add: b64_alphabet_def)

lemma b64_index_char: "i < 64 \<Longrightarrow> b64_index (b64_char i) = Some i"
  using arg_cong [OF b64_alphabet_index, of "\<lambda>l. l ! i"] by (simp add: b64_char_def b64_length)

lemma b64_char_plain: "i < 64 \<Longrightarrow> b64_char i \<noteq> CHR 0x0A \<and> b64_char i \<noteq> CHR 0x0D"
  using b64_alphabet_plain by (simp add: b64_char_def b64_length list_all_length)

lemma digit_div: "q < (n::nat) \<Longrightarrow> (r * n + q) div n = r"
  and digit_mod: "q < (n::nat) \<Longrightarrow> (r * n + q) mod n = q"
  by simp_all

lemma byte_digits: "b < (256::nat) \<Longrightarrow> b div 16 < 16 \<and> b div 4 < 64 \<and> b div 64 < 4"
  by (simp add: less_mult_imp_div_less)

lemma digit_small: "r < m \<Longrightarrow> q < (n::nat) \<Longrightarrow> k = m * n \<Longrightarrow> r * n + q < k"
proof -
  assume "r < m" "q < n" "k = m * n"
  then have "r * n + q < Suc r * n" by simp
  moreover have "Suc r * n \<le> m * n" by (rule mult_le_mono1) (use \<open>r < m\<close> in simp)
  moreover note \<open>k = m * n\<close>
  ultimately show "r * n + q < k" by linarith
qed

lemma b64_groups_small: "\<forall>b \<in> set bs. b < 256 \<Longrightarrow> \<forall>v \<in> set (b64_groups bs). v < 64"
proof (induction bs rule: b64_groups.induct)
  case (1 a b c r)
  then have "a < 256" "b < 256" "c < 256" by simp_all
  then have "a div 4 < 64" "(a mod 4) * 16 + b div 16 < 64" "(b mod 16) * 4 + c div 64 < 64" "c mod 64 < 64"
    using byte_digits [of a] byte_digits [of b] byte_digits [of c]
    by (auto intro!: digit_small [where m = 4] digit_small [where m = 16])
  with 1 show ?case by simp
next
  case (2 a b)
  then have "a < 256" "b < 256" by simp_all
  then have "a div 4 < 64" "(a mod 4) * 16 + b div 16 < 64" "(b mod 16) * 4 < 64"
    using byte_digits [of a] byte_digits [of b] digit_small [of "b mod 16" 16 0 4 64]
    by (auto intro!: digit_small [where m = 4])
  then show ?case by simp
next
  case (3 a)
  then have "a < 256" by simp
  then have "a div 4 < 64" "(a mod 4) * 16 < 64"
    using byte_digits [of a] digit_small [of "a mod 4" 4 0 16 64] by auto
  then show ?case by simp
qed simp

lemma b64_ungroup_groups: "\<forall>b \<in> set bs. b < 256 \<Longrightarrow> b64_ungroup (b64_groups bs) = Some bs"
proof (induction bs rule: b64_groups.induct)
  case (1 a b c r)
  then have "b div 16 < 16" "c div 64 < 4" using byte_digits [of b] byte_digits [of c] by simp_all
  with 1 show ?case by (simp add: digit_div digit_mod)
next
  case (2 a b)
  then have "b div 16 < 16" using byte_digits [of b] by simp
  then show ?case by (simp add: digit_div digit_mod)
next
  case (3 a)
  then show ?case by simp
qed simp

lemma b64_values_chars: "\<forall>v \<in> set vs. v < 64 \<Longrightarrow> b64_values (map b64_char vs) = Some vs"
  by (induction vs) (simp_all add: b64_index_char)

lemma b64_decode_encode: "b64_decode (b64_encode s) = Some s"
proof -
  let ?vs = "b64_groups (map of_char s)"
  have bytes: "\<forall>b \<in> set (map of_char s). b < (256::nat)" by auto
  have small: "\<forall>v \<in> set ?vs. v < 64" by (rule b64_groups_small [OF bytes])
  have "filter (\<lambda>c. c \<noteq> CHR 0x0A \<and> c \<noteq> CHR 0x0D) (map b64_char ?vs) = map b64_char ?vs"
    using small b64_char_plain by (auto simp: filter_id_conv)
  then show ?thesis
    by (simp add: b64_decode_def b64_encode_def b64_values_chars [OF small] b64_ungroup_groups [OF bytes] comp_def map_idI)
qed
section \<open>Tokens\<close>

record codec =
  co_hash :: "string \<Rightarrow> string"
  co_seal :: "string \<Rightarrow> string \<Rightarrow> string \<Rightarrow> string"
  co_open :: "string \<Rightarrow> string \<Rightarrow> string \<Rightarrow> string option"
  co_marshal :: "claims \<Rightarrow> string"
  co_unmarshal :: "string \<Rightarrow> claims option"

definition ascii :: "string \<Rightarrow> bool" where
  "ascii s \<longleftrightarrow> list_all (\<lambda>c. (of_char c :: nat) < 128) s"

definition ascii_claims :: "claims \<Rightarrow> bool" where
  "ascii_claims c \<longleftrightarrow>
     list_all ascii [gc_iid c, gc_ch c, gc_ns c, gc_typ c, gc_tgt c, gc_host c, gc_user c, gc_secret c, gc_jti c]"

definition nonce_size :: nat where "nonce_size = 12"

definition codec_ok :: "codec \<Rightarrow> bool" where
  "codec_ok co \<longleftrightarrow>
     (\<forall>k n p. length n = nonce_size \<longrightarrow> co_open co k n (co_seal co k n p) = Some p) \<and>
     (\<forall>c. ascii_claims c \<longrightarrow> co_unmarshal co (co_marshal co c) = Some c)"

text \<open>The random source may fail; it yields the twelve bytes of the nonce.\<close>

definition sign :: "codec \<Rightarrow> string option \<Rightarrow> claims \<Rightarrow> string \<Rightarrow> string option" where
  "sign co rnd c secret =
     (case rnd of None \<Rightarrow> None
      | Some nonce \<Rightarrow> Some (b64_encode (nonce @ co_seal co (co_hash co secret) nonce (co_marshal co c))))"

datatype token_error = ErrToken | ErrExpired

definition verify :: "codec \<Rightarrow> string \<Rightarrow> string \<Rightarrow> time \<Rightarrow> token_error + claims" where
  "verify co tok secret now =
     (case b64_decode tok of None \<Rightarrow> Inl ErrToken
      | Some raw \<Rightarrow>
          if length raw < nonce_size then Inl ErrToken
          else (case co_open co (co_hash co secret) (take nonce_size raw) (drop nonce_size raw) of
                  None \<Rightarrow> Inl ErrToken
                | Some pt \<Rightarrow>
                    (case co_unmarshal co pt of None \<Rightarrow> Inl ErrToken
                     | Some c \<Rightarrow> if 0 < gc_exp c \<and> gc_exp c < unix now then Inl ErrExpired else Inr c)))"

section \<open>Used token identifiers\<close>

type_synonym nonces = "(string \<times> int) list"

definition nonce_use :: "string \<Rightarrow> int \<Rightarrow> time \<Rightarrow> nonces \<Rightarrow> nonces \<times> bool" where
  "nonce_use jti expires now seen =
     (if jti = [] then (seen, True)
      else if (case map_of seen jti of None \<Rightarrow> False | Some e \<Rightarrow> unix now < e) then (seen, False)
      else (let seen' = AList.update jti expires seen
            in (if 1024 < length seen' then filter (\<lambda>(k, e). \<not> e \<le> unix now) seen' else seen', True)))"

definition nonce_used :: "string \<Rightarrow> time \<Rightarrow> nonces \<Rightarrow> bool" where
  "nonce_used jti now seen =
     (jti \<noteq> [] \<and> (case map_of seen jti of None \<Rightarrow> False | Some e \<Rightarrow> unix now < e))"

section \<open>The web proxy\<close>

record gw_cfg =
  gw_domain :: string
  gw_secret :: string
  gw_cookie_ttl :: int
  gw_tls :: bool
  gw_client_key :: bool

record cookie =
  ck_name :: string
  ck_value :: string
  ck_path :: string
  ck_http_only :: bool
  ck_secure :: bool
  ck_max_age :: int

record request =
  rq_host :: string
  rq_access :: string
  rq_cookie :: "string option"
  rq_auth :: string

datatype denial = TokenInvalid | TokenMismatch | TokenUsed | NoCookie | BadCookie

datatype reply =
    UnknownHost
  | Denied denial
  | SignFailed
  | Exchanged (set_cookies: "cookie list")
  | Proxied (to_host: string) (to_port: int) (auth_header: string)

definition has_suffix :: "string \<Rightarrow> string \<Rightarrow> bool" where
  "has_suffix x s \<longleftrightarrow> has_prefix (rev x) (rev s)"

definition trim_suffix :: "string \<Rightarrow> string \<Rightarrow> string" where
  "trim_suffix x s = (if has_suffix x s then take (length s - length x) s else s)"

definition subdomain :: "gw_cfg \<Rightarrow> string \<Rightarrow> string option" where
  "subdomain cf host =
     (let host = trim_suffix ''.'' (takeWhile (\<lambda>c. c \<noteq> CHR '':'') host);
          suffix = ''.'' @ gw_domain cf
      in if \<not> has_suffix suffix host then None
         else (let sub = trim_suffix suffix host
               in if sub = [] \<or> CHR ''.'' \<in> set sub then None else Some sub))"

text \<open>The answer of the session's own login page: the cookies it sets, or no answer.\<close>

type_synonym login = "string \<Rightarrow> int \<Rightarrow> string \<Rightarrow> cookie list option"

definition prime_cookies :: "login \<Rightarrow> claims \<Rightarrow> cookie list" where
  "prime_cookies login c =
     (if gc_ch c \<noteq> ''vscode'' \<or> gc_secret c = [] then []
      else (case login (service_host c) (gc_port c) (gc_secret c) of None \<Rightarrow> []
            | Some cs \<Rightarrow> map (\<lambda>k. \<lparr>ck_name = ck_name k, ck_value = ck_value k, ck_path = ''/'',
                                   ck_http_only = ck_http_only k, ck_secure = False, ck_max_age = 0\<rparr>) cs))"

definition page_label :: "claims \<Rightarrow> string" where
  "page_label c = gc_iid c @ ''-'' @ gc_ch c"

definition cookie_claims :: "gw_cfg \<Rightarrow> time \<Rightarrow> claims \<Rightarrow> claims" where
  "cookie_claims cf now c =
     c\<lparr>gc_typ := ''cookie'', gc_jti := [], gc_exp := unix (now + gw_cookie_ttl cf * second)\<rparr>"

definition gw_cookie :: "gw_cfg \<Rightarrow> string \<Rightarrow> cookie" where
  "gw_cookie cf v =
     \<lparr>ck_name = ''gw_sess'', ck_value = v, ck_path = ''/'', ck_http_only = True, ck_secure = gw_tls cf,
      ck_max_age = gw_cookie_ttl cf\<rparr>"

definition exchange :: "codec \<Rightarrow> gw_cfg \<Rightarrow> login \<Rightarrow> time \<Rightarrow> string option \<Rightarrow> string \<Rightarrow> string \<Rightarrow> nonces \<Rightarrow> nonces \<times> reply" where
  "exchange co cf login now rnd sub tok seen =
     (case verify co tok (gw_secret cf) now of Inl _ \<Rightarrow> (seen, Denied TokenInvalid)
      | Inr c \<Rightarrow>
          if gc_typ c \<noteq> ''web'' \<or> sub \<noteq> page_label c then (seen, Denied TokenMismatch)
          else (case nonce_use (gc_jti c) (gc_exp c) now seen of
                  (seen', False) \<Rightarrow> (seen', Denied TokenUsed)
                | (seen', True) \<Rightarrow>
                    (case sign co rnd (cookie_claims cf now c) (gw_secret cf) of None \<Rightarrow> (seen', SignFailed)
                     | Some v \<Rightarrow> (seen', Exchanged (prime_cookies login c @ [gw_cookie cf v])))))"

definition inject_auth :: "claims \<Rightarrow> string \<Rightarrow> string" where
  "inject_auth c auth =
     (if gc_ch c = ''jupyter'' \<and> gc_secret c \<noteq> [] \<and> auth = [] then ''token '' @ gc_secret c else auth)"

definition reverse_proxy :: "claims \<Rightarrow> request \<Rightarrow> reply" where
  "reverse_proxy c rq = Proxied (service_host c) (gc_port c) (inject_auth c (rq_auth rq))"

definition serve :: "codec \<Rightarrow> gw_cfg \<Rightarrow> login \<Rightarrow> time \<Rightarrow> string option \<Rightarrow> request \<Rightarrow> nonces \<Rightarrow> nonces \<times> reply" where
  "serve co cf login now rnd rq seen =
     (case subdomain cf (rq_host rq) of None \<Rightarrow> (seen, UnknownHost)
      | Some sub \<Rightarrow>
          if rq_access rq \<noteq> [] then exchange co cf login now rnd sub (rq_access rq) seen
          else (case rq_cookie rq of None \<Rightarrow> (seen, Denied NoCookie)
                | Some v \<Rightarrow>
                    (case verify co v (gw_secret cf) now of Inl _ \<Rightarrow> (seen, Denied BadCookie)
                     | Inr c \<Rightarrow>
                         if gc_typ c \<noteq> ''cookie'' \<or> sub \<noteq> page_label c then (seen, Denied BadCookie)
                         else (seen, reverse_proxy c rq))))"

section \<open>The SSH proxy\<close>

text \<open>The callback of every authentication method; it consumes nothing, so that the two calls
  of a public-key login see the same cache.\<close>

definition ssh_auth :: "codec \<Rightarrow> gw_cfg \<Rightarrow> time \<Rightarrow> string \<Rightarrow> nonces \<Rightarrow> claims option" where
  "ssh_auth co cf now user seen =
     (case verify co user (gw_secret cf) now of Inl _ \<Rightarrow> None
      | Inr c \<Rightarrow> if gc_typ c \<noteq> ''ssh'' then None
                 else if nonce_used (gc_jti c) now seen then None else Some c)"

datatype ssh_end = Refused | Closed | NoClientKey | Dialled (ssh_host: string) (ssh_user: string)

definition dial_backend :: "gw_cfg \<Rightarrow> claims \<Rightarrow> ssh_end" where
  "dial_backend cf c =
     (if \<not> gw_client_key cf then NoClientKey
      else Dialled (if gc_tgt c = ''container'' then service_host c else gc_host c)
             (if gc_user c = [] then ''work'' else gc_user c))"

text \<open>A connection: the handshake runs the callback (twice for a public key) on the cache as it is
  then; the identifier is consumed afterwards, on the cache as it has become.\<close>

definition ssh_handle :: "codec \<Rightarrow> gw_cfg \<Rightarrow> time \<Rightarrow> string \<Rightarrow> nonces \<Rightarrow> time \<Rightarrow> nonces \<Rightarrow> nonces \<times> ssh_end" where
  "ssh_handle co cf t0 user seen0 t1 seen =
     (case ssh_auth co cf t0 user seen0 of None \<Rightarrow> (seen, Refused)
      | Some c \<Rightarrow>
          (case nonce_use (gc_jti c) (gc_exp c) t1 seen of
             (seen', False) \<Rightarrow> (seen', Closed)
           | (seen', True) \<Rightarrow> (seen', dial_backend cf c)))"

section \<open>Tokens are verified back\<close>

lemma verify_sign_facts:
  assumes "codec_ok co" "ascii_claims c" "length n = nonce_size" "sign co (Some n) c k = Some tok"
  shows "verify co tok k now = (if 0 < gc_exp c \<and> gc_exp c < unix now then Inl ErrExpired else Inr c)"
  using assms by (auto simp: sign_def verify_def b64_decode_encode codec_ok_def)

text \<open>A token signed by the API is verified by the gateway: up to the second it expires in it is
  verified back to exactly the claims signed, and from the next second on it is refused as expired,
  whatever the claims and whichever nonce was drawn.\<close>

theorem token_roundtrip:
  assumes "codec_ok co" "ascii_claims c" "length n = nonce_size" "0 < gc_exp c"
  shows "\<exists>tok. sign co (Some n) c k = Some tok \<and>
    (\<forall>now. verify co tok k now = (if unix now \<le> gc_exp c then Inr c else Inl ErrExpired))"
proof -
  obtain tok where tok: "sign co (Some n) c k = Some tok" by (simp add: sign_def)
  show ?thesis
    using verify_sign_facts [OF assms(1-3) tok] assms(4) tok by (intro exI [of _ tok]) (simp add: not_le)
qed

section \<open>Single use\<close>

lemma map_of_filter_value:
  "map_of xs k = Some e \<Longrightarrow> P e \<Longrightarrow> map_of (filter (\<lambda>(k, e). P e) xs) k = Some e"
  by (induction xs) (auto split: if_splits)

lemma nonce_use_first:
  assumes "nonce_use j e now seen = (seen', True)" "j \<noteq> []" "unix now < e"
  shows "map_of seen' j = Some e"
  using assms map_of_filter_value [of "AList.update j e seen" j e "\<lambda>e. \<not> e \<le> unix now"]
  by (auto simp: nonce_use_def Let_def update_conv' split: if_splits option.splits)

lemma nonce_use_blocks:
  "map_of seen j = Some e \<Longrightarrow> unix now < e \<Longrightarrow> j \<noteq> [] \<Longrightarrow> nonce_use j x now seen = (seen, False)"
  by (simp add: nonce_use_def)

lemma nonce_use_keeps:
  assumes "map_of seen j = Some e" "unix now < e"
  shows "map_of (fst (nonce_use i x now seen)) j = Some e"
proof (cases "i = j \<or> i = []")
  case True
  then show ?thesis using assms by (auto simp: nonce_use_def)
next
  case False
  then have "map_of (AList.update i x seen) j = Some e" using assms by (auto simp: update_conv')
  then show ?thesis
    using assms map_of_filter_value [of "AList.update i x seen" j e "\<lambda>e. \<not> e \<le> unix now"]
    by (auto simp: nonce_use_def Let_def split: option.splits)
qed

lemma exchange_keeps:
  "map_of seen j = Some e \<Longrightarrow> unix now < e \<Longrightarrow>
   map_of (fst (exchange co cf login now rnd sub tok seen)) j = Some e"
  using nonce_use_keeps [of seen j e now]
  by (auto simp: exchange_def split: sum.splits prod.splits bool.splits option.splits) (metis fst_conv)+

lemma serve_keeps:
  "map_of seen j = Some e \<Longrightarrow> unix now < e \<Longrightarrow>
   map_of (fst (serve co cf login now rnd rq seen)) j = Some e"
  using exchange_keeps [of seen j e now]
  by (auto simp: serve_def split: option.splits sum.splits)

definition is_exchange :: "reply \<Rightarrow> bool" where
  "is_exchange r \<longleftrightarrow> (\<exists>cs. r = Exchanged cs)"

lemma verify_same: "verify co tok k s = Inr c \<Longrightarrow> verify co tok k t = Inr d \<Longrightarrow> d = c"
  by (auto simp: verify_def split: option.splits if_splits)

lemma exchange_exchanged:
  assumes "is_exchange (snd (exchange co cf login now rnd sub tok seen))"
  shows "\<exists>c. verify co tok (gw_secret cf) now = Inr c \<and> gc_typ c = ''web'' \<and> sub = page_label c \<and>
    nonce_use (gc_jti c) (gc_exp c) now seen = (fst (exchange co cf login now rnd sub tok seen), True)"
proof (cases "verify co tok (gw_secret cf) now")
  case (Inl e)
  with assms show ?thesis by (simp add: exchange_def is_exchange_def)
next
  case (Inr c)
  obtain seen' b where n: "nonce_use (gc_jti c) (gc_exp c) now seen = (seen', b)" by force
  from assms Inr n show ?thesis
    by (cases b; cases "sign co rnd (cookie_claims cf now c) (gw_secret cf)")
      (auto simp: exchange_def is_exchange_def split: if_splits)
qed

lemma serve_exchanged:
  assumes "is_exchange (snd (serve co cf login now rnd rq seen))" "rq_access rq \<noteq> []"
    "verify co (rq_access rq) (gw_secret cf) t = Inr c"
  shows "\<exists>sub. verify co (rq_access rq) (gw_secret cf) now = Inr c \<and> gc_typ c = ''web'' \<and>
    subdomain cf (rq_host rq) = Some sub \<and> sub = page_label c \<and>
    nonce_use (gc_jti c) (gc_exp c) now seen = (fst (serve co cf login now rnd rq seen), True)"
proof (cases "subdomain cf (rq_host rq)")
  case None
  with assms show ?thesis by (simp add: serve_def is_exchange_def)
next
  case (Some sub)
  then have "serve co cf login now rnd rq seen = exchange co cf login now rnd sub (rq_access rq) seen"
    using assms(2) by (simp add: serve_def)
  then show ?thesis
    using exchange_exchanged [of co cf login now rnd sub "rq_access rq" seen] assms(1,3) Some
      verify_same [of co "rq_access rq" "gw_secret cf" t c now]
    by auto
qed

lemma verify_expiry: "verify co tok k now = Inr c \<Longrightarrow> 0 < gc_exp c \<Longrightarrow> unix now \<le> gc_exp c"
  by (auto simp: verify_def split: option.splits if_splits)

text \<open>The requests a gateway serves one after the other, each with its time and its random bytes.\<close>

type_synonym visit = "time \<times> string option \<times> request"

definition visit_step :: "codec \<Rightarrow> gw_cfg \<Rightarrow> login \<Rightarrow> nonces \<Rightarrow> visit \<Rightarrow> nonces" where
  "visit_step co cf login seen v = fst (serve co cf login (fst v) (fst (snd v)) (snd (snd v)) seen)"

definition cache_after :: "codec \<Rightarrow> gw_cfg \<Rightarrow> login \<Rightarrow> nonces \<Rightarrow> visit list \<Rightarrow> nonces" where
  "cache_after co cf login = foldl (visit_step co cf login)"

definition reply_at :: "codec \<Rightarrow> gw_cfg \<Rightarrow> login \<Rightarrow> nonces \<Rightarrow> visit list \<Rightarrow> nat \<Rightarrow> reply" where
  "reply_at co cf login seen vs i =
     snd (serve co cf login (fst (vs ! i)) (fst (snd (vs ! i))) (snd (snd (vs ! i))) (cache_after co cf login seen (take i vs)))"

lemma cache_after_keeps:
  "\<forall>v \<in> set vs. unix (fst v) < e \<Longrightarrow> map_of seen j = Some e \<Longrightarrow>
   map_of (cache_after co cf login seen vs) j = Some e"
  by (induction vs arbitrary: seen) (simp_all add: cache_after_def visit_step_def serve_keeps)

lemma cache_after_split:
  "i < j \<Longrightarrow> j \<le> length vs \<Longrightarrow>
   cache_after co cf login seen (take j vs) =
     cache_after co cf login (visit_step co cf login (cache_after co cf login seen (take i vs)) (vs ! i))
       (take (j - Suc i) (drop (Suc i) vs))"
proof -
  assume "i < j" "j \<le> length vs"
  then have "take j vs = take i vs @ vs ! i # take (j - Suc i) (drop (Suc i) vs)"
    by (metis Cons_nth_drop_Suc Suc_diff_Suc le_add_diff_inverse less_imp_le_nat less_le_trans take_Suc_Cons take_add)
  then show ?thesis by (simp add: cache_after_def)
qed

text \<open>C16: A link opens a session once: of the requests the gateway serves over time, no two exchange the
  same link, except that a link first exchanged is exchanged again in the single second it expires in.\<close>

theorem link_exchanged_once:
  assumes times: "sorted (map fst vs)" and ij: "i < j" "j < length vs"
    and link: "rq_access (snd (snd (vs ! i))) = tok" "rq_access (snd (snd (vs ! j))) = tok" "tok \<noteq> []"
    and claims: "verify co tok (gw_secret cf) t = Inr c" "gc_jti c \<noteq> []" "0 < gc_exp c"
    and both: "is_exchange (reply_at co cf login seen vs i)" "is_exchange (reply_at co cf login seen vs j)"
  shows "unix (fst (vs ! j)) = gc_exp c"
proof -
  let ?seen = "\<lambda>i. cache_after co cf login seen (take i vs)"
  note first = serve_exchanged [OF both(1) [unfolded reply_at_def], unfolded link(1), OF link(3) claims(1)]
  note second = serve_exchanged [OF both(2) [unfolded reply_at_def], unfolded link(2), OF link(3) claims(1)]
  have at: "unix (fst (vs ! j)) \<le> gc_exp c" using second verify_expiry claims(3) by blast
  have mono: "fst (vs ! k) \<le> fst (vs ! l)" if "k \<le> l" "l < length vs" for k l
    using sorted_nth_mono [OF times, of k l] that by simp
  show ?thesis
  proof (rule ccontr)
    assume "\<not> ?thesis"
    with at have early: "unix (fst (vs ! j)) < gc_exp c" by simp
    then have "unix (fst (vs ! i)) < gc_exp c"
      using unix_mono [OF mono [of i j]] ij by simp
    then have held: "map_of (visit_step co cf login (?seen i) (vs ! i)) (gc_jti c) = Some (gc_exp c)"
      using first claims(2) nonce_use_first by (auto simp: visit_step_def)
    have "unix (fst v) < gc_exp c" if "v \<in> set (take (j - Suc i) (drop (Suc i) vs))" for v
    proof -
      from that obtain k where "k < j - Suc i" "v = vs ! (Suc i + k)"
        using ij by (auto simp: in_set_conv_nth)
      then have "unix (fst v) \<le> unix (fst (vs ! j))" using ij by (auto intro!: unix_mono mono)
      with early show ?thesis by simp
    qed
    then have "map_of (?seen j) (gc_jti c) = Some (gc_exp c)"
      using ij held by (auto simp: cache_after_split [of i j] intro!: cache_after_keeps)
    then show False
      using second nonce_use_blocks [of "?seen j" "gc_jti c" "gc_exp c" "fst (vs ! j)" "gc_exp c"] early claims(2) by auto
  qed
qed

section \<open>The second of expiry\<close>

text \<open>A request for a link, on the page the link names.\<close>

definition link_visit :: "string \<Rightarrow> string \<Rightarrow> request" where
  "link_visit host tok = \<lparr>rq_host = host, rq_access = tok, rq_cookie = None, rq_auth = []\<rparr>"

lemma nonce_use_distinct: "distinct (map fst seen) \<Longrightarrow> distinct (map fst (fst (nonce_use j e now seen)))"
  by (simp add: nonce_use_def Let_def distinct_update distinct_map_filter)

lemma nonce_use_free: "snd (nonce_use j e now seen) \<longleftrightarrow> \<not> nonce_used j now seen"
  by (simp add: nonce_use_def nonce_used_def Let_def split: option.split)

lemma nonce_use_expired:
  assumes "e \<le> unix now" "distinct (map fst seen)" "\<not> nonce_used j now seen"
  shows "\<not> nonce_used j now (fst (nonce_use j e now seen))"
proof (cases "j = []")
  case False
  let ?up = "AList.update j e seen"
  have "distinct (map fst ?up)" using assms(2) by (rule distinct_update)
  then have late: "\<not> unix now < x" if "(j, x) \<in> set ?up" for x
    using map_of_is_SomeI [OF _ that] assms(1) by (simp add: update_conv')
  show ?thesis using False assms
    by (auto simp: nonce_use_def nonce_used_def Let_def update_conv' split: option.splits dest!: map_of_SomeD dest: late)
qed (simp add: nonce_used_def)

lemma exchange_ok:
  assumes "verify co tok (gw_secret cf) now = Inr c" "gc_typ c = ''web''" "sub = page_label c"
    "snd (nonce_use (gc_jti c) (gc_exp c) now seen)"
  shows "exchange co cf login now (Some n) sub tok seen =
    (fst (nonce_use (gc_jti c) (gc_exp c) now seen),
     Exchanged (prime_cookies login c @
       [gw_cookie cf (the (sign co (Some n) (cookie_claims cf now c) (gw_secret cf)))]))"
  using assms by (cases "nonce_use (gc_jti c) (gc_exp c) now seen") (simp add: exchange_def sign_def)

text \<open>In the second a link expires in it is no longer good for one use only: the verifier still takes it
  as valid while the cache already takes the recorded use as expired, so presenting it twice in that
  second opens the session twice.\<close>

theorem link_exchanged_twice:
  assumes "verify co tok (gw_secret cf) now = Inr c" "unix now = gc_exp c" "gc_typ c = ''web''" "tok \<noteq> []"
    and "subdomain cf host = Some (page_label c)" "\<not> nonce_used (gc_jti c) now seen"
    and "distinct (map fst seen)" "k < 2"
  shows "is_exchange (reply_at co cf login seen
      [(now, Some n, link_visit host tok), (now, Some m, link_visit host tok)] k)"
proof -
  note free = assms(6) nonce_use_expired [OF _ assms(7,6), of "gc_exp c"]
  have eq: "serve co cf login now rnd (link_visit host tok) s = exchange co cf login now rnd (page_label c) tok s" for rnd s
    using assms(4,5) by (simp add: serve_def link_visit_def)
  have "k = 0 \<or> k = 1" using assms(8) by linarith
  then show ?thesis
    using free assms(1-3)
    by (auto simp: reply_at_def cache_after_def visit_step_def eq exchange_ok nonce_use_free is_exchange_def)
qed

section \<open>A concrete codec\<close>

text \<open>An instance of the parameter, so that the statements about it can be seen to apply: fields with a
  unary length in front, sealed by putting the key in front.\<close>

definition put_field :: "string \<Rightarrow> string" where
  "put_field s = replicate (length s) CHR ''1'' @ CHR ''0'' # s"

fun get_fields :: "nat \<Rightarrow> string \<Rightarrow> string list" where
  "get_fields 0 x = []"
| "get_fields (Suc k) x =
     (let n = length (takeWhile (\<lambda>c. c = CHR ''1'') x); y = drop (Suc n) x
      in take n y # get_fields k (drop n y))"

definition plain_marshal :: "claims \<Rightarrow> string" where
  "plain_marshal c = concat (map put_field
     [gc_iid c, gc_ch c, gc_ns c, dec (gc_port c), dec (gc_sub c), gc_typ c, gc_tgt c, gc_host c, gc_user c,
      gc_secret c, dec (gc_exp c), gc_jti c])"

definition plain_unmarshal :: "string \<Rightarrow> claims option" where
  "plain_unmarshal x =
     (case get_fields 12 x of
        [a, b, c, d, e, f, g, h, i, j, k, l] \<Rightarrow>
          Some \<lparr>gc_iid = a, gc_ch = b, gc_ns = c, gc_port = the (signed_value d), gc_sub = the (signed_value e),
            gc_typ = f, gc_tgt = g, gc_host = h, gc_user = i, gc_secret = j, gc_exp = the (signed_value k), gc_jti = l\<rparr>
      | _ \<Rightarrow> None)"

definition plain_codec :: codec where
  "plain_codec =
     \<lparr>co_hash = rev, co_seal = (\<lambda>k n p. k @ n @ p),
      co_open = (\<lambda>k n x. if has_prefix (k @ n) x then Some (drop (length (k @ n)) x) else None),
      co_marshal = plain_marshal, co_unmarshal = plain_unmarshal\<rparr>"

lemma takeWhile_ones: "takeWhile (\<lambda>c. c = CHR ''1'') (replicate n CHR ''1'' @ CHR ''0'' # s) = replicate n CHR ''1''"
  by (induction n) simp_all

lemma get_fields_put: "get_fields (length fs) (concat (map put_field fs)) = fs"
  by (induction fs) (simp_all add: put_field_def takeWhile_ones Let_def)

lemma plain_unmarshal_marshal: "plain_unmarshal (plain_marshal c) = Some c"
  using get_fields_put [of "[gc_iid c, gc_ch c, gc_ns c, dec (gc_port c), dec (gc_sub c), gc_typ c, gc_tgt c,
      gc_host c, gc_user c, gc_secret c, dec (gc_exp c), gc_jti c]"]
  by (simp add: plain_unmarshal_def plain_marshal_def eval_nat_numeral del: get_fields.simps)

lemma plain_codec_ok: "codec_ok plain_codec"
  using has_prefix_append [of "k @ n" p for k n p]
  by (simp add: codec_ok_def plain_codec_def plain_unmarshal_marshal)

definition link_claims :: claims where
  "link_claims =
     \<lparr>gc_iid = ''ses-a1'', gc_ch = ''vscode'', gc_ns = ''giosk-user-7'', gc_port = 8080, gc_sub = 7, gc_typ = ''web'',
      gc_tgt = ''container'', gc_host = [], gc_user = [], gc_secret = ''pw'', gc_exp = 1180, gc_jti = ''j1''\<rparr>"

theorem token_roundtrip_witness:
  "\<exists>tok. sign plain_codec (Some ''0123456789ab'') link_claims ''key'' = Some tok \<and>
    verify plain_codec tok ''key'' (1180 * second) = Inr link_claims \<and>
    verify plain_codec tok ''key'' (1181 * second) = Inl ErrExpired"
proof -
  have "ascii_claims link_claims" by (simp add: ascii_claims_def ascii_def link_claims_def)
  moreover have "length ''0123456789ab'' = nonce_size" "0 < gc_exp link_claims"
    by (simp_all add: nonce_size_def link_claims_def)
  ultimately obtain tok where "sign plain_codec (Some ''0123456789ab'') link_claims ''key'' = Some tok"
    "\<And>now. verify plain_codec tok ''key'' now = (if unix now \<le> gc_exp link_claims then Inr link_claims else Inl ErrExpired)"
    using token_roundtrip [OF plain_codec_ok, of link_claims "''0123456789ab''" "''key''"] by blast
  then show ?thesis by (auto simp: unix_def link_claims_def)
qed

text \<open>A gateway, a link and its host.\<close>

definition sample_gw :: gw_cfg where
  "sample_gw = \<lparr>gw_domain = ''gw.local'', gw_secret = ''key'', gw_cookie_ttl = 28800, gw_tls = True, gw_client_key = True\<rparr>"

definition sample_tok :: string where
  "sample_tok = the (sign plain_codec (Some ''0123456789ab'') link_claims ''key'')"

definition sample_host :: string where
  "sample_host = ''ses-a1-vscode.gw.local:443''"

definition no_login :: login where
  "no_login h p pw = None"

lemma sample_tok_facts:
  shows "verify plain_codec sample_tok (gw_secret sample_gw) now =
      (if unix now \<le> 1180 then Inr link_claims else Inl ErrExpired)"
    and "sample_tok \<noteq> []"
    and "subdomain sample_gw sample_host = Some (page_label link_claims)"
proof -
  have a: "ascii_claims link_claims" by (simp add: ascii_claims_def ascii_def link_claims_def)
  have n: "length ''0123456789ab'' = nonce_size" by (simp add: nonce_size_def)
  have t: "sign plain_codec (Some ''0123456789ab'') link_claims ''key'' = Some sample_tok"
    by (simp add: sample_tok_def sign_def)
  show *: "verify plain_codec sample_tok (gw_secret sample_gw) now =
      (if unix now \<le> 1180 then Inr link_claims else Inl ErrExpired)" for now
    using verify_sign_facts [OF plain_codec_ok a n t] by (simp add: sample_gw_def link_claims_def not_le)
  have "verify plain_codec [] k now = Inl ErrToken" for k now
    by (simp add: verify_def b64_decode_def nonce_size_def)
  with * [of 0] show "sample_tok \<noteq> []" by (auto simp: unix_def)
  show "subdomain sample_gw sample_host = Some (page_label link_claims)"
    by (simp add: subdomain_def sample_gw_def sample_host_def page_label_def link_claims_def
        trim_suffix_def has_suffix_def has_prefix_def Let_def)
qed

lemma sample_claim_fields: "gc_typ link_claims = ''web''" "gc_jti link_claims = ''j1''" "gc_exp link_claims = 1180"
  by (simp_all add: link_claims_def)

lemma sample_visit:
  "unix now \<le> 1180 \<Longrightarrow> \<not> nonce_used ''j1'' now seen \<Longrightarrow>
   is_exchange (snd (serve plain_codec sample_gw no_login now (Some n) (link_visit sample_host sample_tok) seen)) \<and>
   fst (serve plain_codec sample_gw no_login now (Some n) (link_visit sample_host sample_tok) seen) =
     fst (nonce_use ''j1'' 1180 now seen)"
  by (simp add: serve_def link_visit_def sample_tok_facts exchange_ok nonce_use_free sample_claim_fields is_exchange_def)

theorem link_exchanged_twice_witness:
  "is_exchange (reply_at plain_codec sample_gw no_login []
      [(1180 * second, Some ''0123456789ab'', link_visit sample_host sample_tok),
       (1180 * second, Some ''ba9876543210'', link_visit sample_host sample_tok)] 1)"
  by (rule link_exchanged_twice [where c = link_claims])
    (simp_all add: sample_tok_facts sample_claim_fields unix_def nonce_used_def)

theorem link_exchanged_once_witness:
  "unix (fst ([(1000 * second, Some ''0123456789ab'', link_visit sample_host sample_tok),
       (1180 * second, Some ''ba9876543210'', link_visit sample_host sample_tok)] ! 1)) = gc_exp link_claims"
proof (rule link_exchanged_once [where i = 0 and co = plain_codec and cf = sample_gw and login = no_login
      and tok = sample_tok and t = 0 and seen = "[]"])
  let ?vs = "[(1000 * second, Some ''0123456789ab'', link_visit sample_host sample_tok),
    (1180 * second, Some ''ba9876543210'', link_visit sample_host sample_tok)]"
  have first: "\<not> nonce_used ''j1'' (1000 * second) []" by (simp add: nonce_used_def)
  have second: "\<not> nonce_used ''j1'' (1180 * second) (fst (nonce_use ''j1'' 1180 (1000 * second) []))"
    by (simp add: nonce_used_def nonce_use_def unix_def)
  show "is_exchange (reply_at plain_codec sample_gw no_login [] ?vs 0)"
    using sample_visit [OF _ first] by (simp add: reply_at_def cache_after_def unix_def)
  show "is_exchange (reply_at plain_codec sample_gw no_login [] ?vs 1)"
    using sample_visit [OF _ first] sample_visit [OF _ second]
    by (simp add: reply_at_def cache_after_def visit_step_def unix_def)
qed (simp_all add: sample_tok_facts sample_claim_fields unix_def link_visit_def)

end
