(* ===== verification/Session_Access.thy ===== *)
theory Session_Access
  imports Gateway Session_Lifecycle
begin

text \<open>
  How a user gets into a session (\<open>internal/session/service.go\<close>, from \<open>Connection\<close> to \<open>sshAccess\<close>): the
  addresses read from the cluster (\<open>internal/k8s/service.go\<close>), the direct addresses, the signed links and
  SSH commands for the gateway, and the traffic of links between the API, the gateway and whoever
  presents them. An access map of strings is a map; keys that are not set are \<open>None\<close>. The text of the
  entry \<open>pending\<close> is shortened to its ASCII part.
\<close>

section \<open>Addresses in the cluster\<close>

record live_svc =
  lv_ports :: "(string \<times> int) list"
  lv_ingress :: "string list"

record svc_access =
  sa_lb_ip :: string
  sa_node_port :: int
  sa_ssh_node_port :: int
  sa_ssh_lb_ip :: string

definition first_set :: "string list \<Rightarrow> string" where
  "first_set ips = (case filter (\<lambda>i. i \<noteq> []) ips of [] \<Rightarrow> [] | i # _ \<Rightarrow> i)"

definition ssh_port_of :: "(string \<times> int) list \<Rightarrow> int" where
  "ssh_port_of ps = (case map_of ps ''ssh'' of None \<Rightarrow> 0 | Some p \<Rightarrow> p)"

text \<open>The cluster's answer for a service: an error, not found, or the service as it is.\<close>

datatype svc_reply = SvcError | SvcMissing | SvcLive live_svc

definition session_service_access :: "bool \<Rightarrow> (string \<Rightarrow> svc_reply) \<Rightarrow> string \<Rightarrow> svc_access option" where
  "session_service_access available look name =
     (let none = \<lparr>sa_lb_ip = [], sa_node_port = 0, sa_ssh_node_port = 0, sa_ssh_lb_ip = []\<rparr>
      in if \<not> available then Some none
         else (case look name of SvcError \<Rightarrow> None | SvcMissing \<Rightarrow> Some none
               | SvcLive v \<Rightarrow>
                   (let out = none\<lparr>sa_node_port := (case lv_ports v of [] \<Rightarrow> 0 | p # _ \<Rightarrow> snd p),
                                   sa_ssh_node_port := ssh_port_of (lv_ports v),
                                   sa_lb_ip := first_set (lv_ingress v)\<rparr>
                    in Some (case look (ssh_svc_name name) of
                         SvcLive a \<Rightarrow> out\<lparr>sa_ssh_node_port := (if sa_ssh_node_port out = 0 then ssh_port_of (lv_ports a)
                                                                else sa_ssh_node_port out),
                                          sa_ssh_lb_ip := first_set (lv_ingress a)\<rparr>
                       | _ \<Rightarrow> out))))"

record cluster_node =
  cn_name :: string
  cn_control :: bool
  cn_addresses :: "(string \<times> string) list"

definition node_ip :: "bool \<Rightarrow> (string \<Rightarrow> cluster_node option) \<Rightarrow> string \<Rightarrow> string" where
  "node_ip available look node =
     (if \<not> available \<or> node = [] then node
      else (case look node of None \<Rightarrow> node
            | Some n \<Rightarrow> (case map_of (cn_addresses n) ''InternalIP'' of None \<Rightarrow> node | Some a \<Rightarrow> a)))"

definition first_node_ip :: "bool \<Rightarrow> cluster_node list option \<Rightarrow> string" where
  "first_node_ip available ns =
     (if \<not> available then []
      else (case ns of None \<Rightarrow> []
            | Some l \<Rightarrow>
                (case concat (map (\<lambda>n. if cn_control n then []
                        else map snd (filter (\<lambda>a. fst a = ''InternalIP'') (cn_addresses n))) l) of
                   [] \<Rightarrow> [] | a # _ \<Rightarrow> a)))"

text \<open>What a request for access sees of the cluster.\<close>

record view =
  vw_available :: bool
  vw_svc :: "string \<Rightarrow> string \<Rightarrow> svc_reply"
  vw_node :: "string \<Rightarrow> cluster_node option"
  vw_nodes :: "cluster_node list option"

definition access_of :: "view \<Rightarrow> string \<Rightarrow> string \<Rightarrow> svc_access option" where
  "access_of vw ns = session_service_access (vw_available vw) (vw_svc vw ns)"

abbreviation ip_of :: "view \<Rightarrow> string \<Rightarrow> string" where
  "ip_of vw \<equiv> node_ip (vw_available vw) (vw_node vw)"

abbreviation first_ip :: "view \<Rightarrow> string" where
  "first_ip vw \<equiv> first_node_ip (vw_available vw) (vw_nodes vw)"

section \<open>Gateway settings of the API\<close>

record access_cfg =
  ac_gateway :: string
  ac_secret :: string
  ac_host :: string
  ac_scheme :: string
  ac_ssh_port :: int

definition gateway_on :: "access_cfg \<Rightarrow> bool" where
  "gateway_on ac \<longleftrightarrow> ac_secret ac \<noteq> [] \<and> ac_gateway ac \<noteq> []"

definition gateway_host :: "access_cfg \<Rightarrow> string" where
  "gateway_host ac = (if ac_host ac \<noteq> [] then ac_host ac else ac_gateway ac)"

definition web_scheme :: "access_cfg \<Rightarrow> string" where
  "web_scheme ac = (if ac_scheme ac \<noteq> [] then ac_scheme ac else ''https'')"

section \<open>Direct addresses\<close>

type_synonym access_map = "string \<rightharpoonup> string"

definition channel_suffix :: "web_channel \<Rightarrow> string" where
  "channel_suffix ch = (if wc_name ch = ''jupyter'' then ''/lab?token='' @ wc_secret ch else ''/'')"

definition http_url :: "string \<Rightarrow> int \<Rightarrow> string \<Rightarrow> string" where
  "http_url host port suffix = ''http://'' @ host @ '':'' @ dec port @ suffix"

definition exposed_url :: "session_cfg \<Rightarrow> view \<Rightarrow> session \<Rightarrow> web_channel \<Rightarrow> access_map" where
  "exposed_url cf vw s ch =
     (let acc = (case access_of vw (namespace_of cf s) (s_instance s) of
                   None \<Rightarrow> \<lparr>sa_lb_ip = [], sa_node_port = 0, sa_ssh_node_port = 0, sa_ssh_lb_ip = []\<rparr> | Some a \<Rightarrow> a)
      in if expose_mode cf = ''loadbalancer''
         then (if sa_lb_ip acc \<noteq> [] then [''url'' \<mapsto> http_url (sa_lb_ip acc) (wc_port ch) (channel_suffix ch)]
               else [''pending'' \<mapsto> ''LoadBalancer IP''])
         else (if first_ip vw \<noteq> [] \<and> 0 < sa_node_port acc
               then [''url'' \<mapsto> http_url (first_ip vw) (sa_node_port acc) (channel_suffix ch)]
               else Map.empty))"

definition channel_access :: "access_cfg \<Rightarrow> session_cfg \<Rightarrow> view \<Rightarrow> session \<Rightarrow> web_channel \<Rightarrow> bool \<Rightarrow> access_map" where
  "channel_access ac cf vw s ch primary =
     (let m0 = (if wc_name ch = ''vscode'' then [''password'' \<mapsto> wc_secret ch] else Map.empty);
          m1 = (if primary then m0 ++ exposed_url cf vw s ch else m0)
      in if m1 ''url'' \<noteq> None then m1
         else if gateway_on ac
         then m1(''url'' \<mapsto> ''https://'' @ s_instance s @ ''.'' @ ac_gateway ac @ channel_suffix ch)
         else m1(''url'' \<mapsto> http_url ''localhost'' (wc_port ch) (channel_suffix ch),
                 ''localUrl'' \<mapsto> http_url ''localhost'' (wc_port ch) (channel_suffix ch)))"

definition container_ssh_access :: "session_cfg \<Rightarrow> view \<Rightarrow> session \<Rightarrow> access_map option" where
  "container_ssh_access cf vw s =
     (case access_of vw (namespace_of cf s) (s_instance s) of None \<Rightarrow> None
      | Some acc \<Rightarrow>
          if sa_ssh_lb_ip acc \<noteq> [] then Some [''direct'' \<mapsto> ''true'', ''cmd'' \<mapsto> ''ssh work@'' @ sa_ssh_lb_ip acc]
          else if sa_lb_ip acc \<noteq> [] then Some [''direct'' \<mapsto> ''true'', ''cmd'' \<mapsto> ''ssh work@'' @ sa_lb_ip acc]
          else if 0 < sa_ssh_node_port acc
          then (let ip0 = (if s_node s \<noteq> [] then ip_of vw (s_node s) else []);
                    ip = (if ip0 = [] \<or> ip0 = s_node s then first_ip vw else ip0)
                in if ip \<noteq> []
                   then Some [''direct'' \<mapsto> ''true'', ''cmd'' \<mapsto> ''ssh -p '' @ dec (sa_ssh_node_port acc) @ '' work@'' @ ip]
                   else None)
          else None)"

record connection =
  cx_vscode :: "access_map option"
  cx_jupyter :: "access_map option"
  cx_ssh :: "access_map option"
  cx_web :: "access_map option"

definition no_connection :: connection where
  "no_connection = \<lparr>cx_vscode = None, cx_jupyter = None, cx_ssh = None, cx_web = None\<rparr>"

definition put_channel :: "web_channel \<Rightarrow> access_map \<Rightarrow> connection \<Rightarrow> connection" where
  "put_channel ch m c =
     (if wc_name ch = ''vscode'' then c\<lparr>cx_vscode := Some m\<rparr>
      else if wc_name ch = ''jupyter'' then c\<lparr>cx_jupyter := Some m\<rparr>
      else c\<lparr>cx_web := Some m\<rparr>)"

definition connection_op ::
  "sdb_oracle \<Rightarrow> catalog \<Rightarrow> access_cfg \<Rightarrow> session_cfg \<Rightarrow> view \<Rightarrow> string \<Rightarrow> int \<Rightarrow> session_db \<Rightarrow> connection option" where
  "connection_op ok ct ac cf vw i u db =
     (case get_session ok i u db of None \<Rightarrow> None
      | Some s \<Rightarrow>
          if ssh_env s
          then Some (no_connection\<lparr>cx_ssh := Some [''cmd'' \<mapsto> ''ssh '' @ username_of ct u @ ''@'' @ ip_of vw (s_node s)]\<rparr>)
          else (let chs = session_channels ct (s_image s) (s_web_password s);
                    c = fold (\<lambda>(k, ch). put_channel ch (channel_access ac cf vw s ch (k = 0))) (enumerate 0 chs) no_connection
                in Some (if container_ssh cf
                         then (case container_ssh_access cf vw s of None \<Rightarrow> c | Some m \<Rightarrow> c\<lparr>cx_ssh := Some m\<rparr>)
                         else c)))"

section \<open>Signed links\<close>

abbreviation web_ttl :: duration where "web_ttl \<equiv> 3 * minute"
abbreviation ssh_ttl :: duration where "ssh_ttl \<equiv> 5 * minute"

definition web_claims :: "session_cfg \<Rightarrow> time \<Rightarrow> string \<Rightarrow> session \<Rightarrow> web_channel \<Rightarrow> int \<Rightarrow> claims" where
  "web_claims cf now jti s ch u =
     \<lparr>gc_iid = s_instance s, gc_ch = wc_name ch, gc_ns = namespace_of cf s, gc_port = wc_port ch, gc_sub = u,
      gc_typ = ''web'', gc_tgt = ''container'', gc_host = [], gc_user = [], gc_secret = wc_secret ch,
      gc_exp = unix (now + web_ttl), gc_jti = jti\<rparr>"

definition web_host :: "access_cfg \<Rightarrow> session \<Rightarrow> web_channel \<Rightarrow> string" where
  "web_host ac s ch = s_instance s @ ''-'' @ wc_name ch @ ''.'' @ ac_gateway ac"

text \<open>The random bytes and the identifier of a token are what the random source yields for it.\<close>

type_synonym draw = "string option \<times> string"

definition web_access ::
  "codec \<Rightarrow> access_cfg \<Rightarrow> session_cfg \<Rightarrow> view \<Rightarrow> time \<Rightarrow> draw \<Rightarrow> session \<Rightarrow> web_channel \<Rightarrow> int \<Rightarrow> access_map" where
  "web_access co ac cf vw now d s ch u =
     (if \<not> gateway_on ac then channel_access ac cf vw s ch True
      else (case sign co (fst d) (web_claims cf now (snd d) s ch u) (ac_secret ac) of
              None \<Rightarrow> Map.empty
            | Some tok \<Rightarrow> [''url'' \<mapsto> web_scheme ac @ ''://'' @ web_host ac s ch @ ''/?access='' @ tok]))"

definition ssh_claims :: "time \<Rightarrow> string \<Rightarrow> string \<Rightarrow> int \<Rightarrow> string \<Rightarrow> string \<Rightarrow> string \<Rightarrow> string \<Rightarrow> claims" where
  "ssh_claims now jti i u ns node tgt user =
     \<lparr>gc_iid = i, gc_ch = ''ssh'', gc_ns = ns, gc_port = 0, gc_sub = u, gc_typ = ''ssh'', gc_tgt = tgt, gc_host = node,
      gc_user = user, gc_secret = [], gc_exp = unix (now + ssh_ttl), gc_jti = jti\<rparr>"

definition ssh_access ::
  "codec \<Rightarrow> access_cfg \<Rightarrow> time \<Rightarrow> draw \<Rightarrow> string \<Rightarrow> int \<Rightarrow> string \<Rightarrow> string \<Rightarrow> string \<Rightarrow> string \<Rightarrow> access_map option" where
  "ssh_access co ac now d i u ns node tgt user =
     (if \<not> gateway_on ac
      then (if tgt = ''physical'' then Some [''cmd'' \<mapsto> ''ssh '' @ user @ ''@'' @ node, ''direct'' \<mapsto> ''true''] else None)
      else (case sign co (fst d) (ssh_claims now (snd d) i u ns node tgt user) (ac_secret ac) of
              None \<Rightarrow> None
            | Some tok \<Rightarrow>
                (let m = [''cmd'' \<mapsto> ''ssh -p '' @ dec (ac_ssh_port ac) @ '' '' @ tok @ ''@'' @ gateway_host ac,
                          ''user'' \<mapsto> user, ''host'' \<mapsto> gateway_host ac]
                 in Some (if tgt = ''physical'' \<and> node \<noteq> []
                          then m(''directCmd'' \<mapsto> ''ssh '' @ user @ ''@'' @ node) else m))))"

definition access_op ::
  "codec \<Rightarrow> sdb_oracle \<Rightarrow> catalog \<Rightarrow> access_cfg \<Rightarrow> session_cfg \<Rightarrow> view \<Rightarrow> time \<Rightarrow> (nat \<Rightarrow> draw) \<Rightarrow> string \<Rightarrow> int \<Rightarrow> session_db
   \<Rightarrow> (connection \<times> time) option" where
  "access_op co ok ct ac cf vw now d i u db =
     (case get_session ok i u db of None \<Rightarrow> None
      | Some s \<Rightarrow>
          if ssh_env s
          then Some (no_connection\<lparr>cx_ssh := ssh_access co ac now (d 0) (s_instance s) u [] (ip_of vw (s_node s))
                       ''physical'' (username_of ct u)\<rparr>, now + ssh_ttl)
          else (let chs = session_channels ct (s_image s) (s_web_password s);
                    c = fold (\<lambda>(k, ch). put_channel ch (web_access co ac cf vw now (d k) s ch u))
                          (enumerate 0 chs) no_connection
                in Some (if gateway_on ac \<and> container_ssh cf
                         then c\<lparr>cx_ssh := ssh_access co ac now (d (length chs)) (s_instance s) u (namespace_of cf s) []
                                  ''container'' ''work''\<rparr>
                         else c, now + web_ttl)))"

section \<open>The links lead to the gateway's pages\<close>

lemma has_suffix_append [simp]: "has_suffix x (y @ x)"
  by (simp add: has_suffix_def)

lemma trim_suffix_append [simp]: "trim_suffix x (y @ x) = y"
  by (simp add: trim_suffix_def)

text \<open>A label of a host name: not empty, and free of the characters a host name is cut at.\<close>

definition plain_label :: "string \<Rightarrow> bool" where
  "plain_label l \<longleftrightarrow> l \<noteq> [] \<and> CHR ''.'' \<notin> set l \<and> CHR '':'' \<notin> set l"

definition plain_domain :: "string \<Rightarrow> bool" where
  "plain_domain d \<longleftrightarrow> d \<noteq> [] \<and> CHR '':'' \<notin> set d \<and> last d \<noteq> CHR ''.''"

lemma takeWhile_all: "x \<notin> set l \<Longrightarrow> takeWhile (\<lambda>c. c \<noteq> x) l = l"
  by (auto simp: takeWhile_eq_all_conv)

lemma trim_dot: "h \<noteq> [] \<Longrightarrow> last h \<noteq> CHR ''.'' \<Longrightarrow> trim_suffix ''.'' h = h"
  by (cases h rule: rev_cases) (auto simp: trim_suffix_def has_suffix_def has_prefix_def)

lemma subdomain_host:
  assumes "plain_label l" "plain_domain (gw_domain cf)"
  shows "subdomain cf (l @ ''.'' @ gw_domain cf) = Some l"
proof -
  let ?h = "l @ ''.'' @ gw_domain cf"
  have cut: "takeWhile (\<lambda>c. c \<noteq> CHR '':'') ?h = ?h"
    using assms by (intro takeWhile_all) (auto simp: plain_label_def plain_domain_def)
  have "last ?h = last (gw_domain cf)" using assms(2) by (simp add: plain_domain_def)
  then have dot: "trim_suffix ''.'' ?h = ?h"
    using assms(2) by (intro trim_dot) (auto simp: plain_domain_def)
  have "has_suffix (''.'' @ gw_domain cf) ?h" "trim_suffix (''.'' @ gw_domain cf) ?h = l"
    using has_suffix_append [of "''.'' @ gw_domain cf" l] trim_suffix_append [of "''.'' @ gw_domain cf" l] by simp_all
  then show ?thesis
    using assms(1) by (simp add: subdomain_def cut dot Let_def plain_label_def del: append_Cons)
qed

lemma ascii_dec_nat: "ascii (dec_nat n)"
proof -
  have "of_char c < (128::nat)" if "is_digit c" for c using that by (simp add: is_digit_def)
  then show ?thesis using dec_nat_digits [of n] by (simp add: ascii_def list_all_iff)
qed

lemma ascii_append [simp]: "ascii (x @ y) \<longleftrightarrow> ascii x \<and> ascii y"
  by (simp add: ascii_def)

lemma ascii_Cons [simp]: "ascii (c # y) \<longleftrightarrow> (of_char c :: nat) < 128 \<and> ascii y"
  by (simp add: ascii_def)

lemma ascii_Nil [simp]: "ascii []"
  by (simp add: ascii_def)

lemma ascii_dec [simp]: "ascii (dec n)"
  by (simp add: dec_def ascii_dec_nat)

lemma ascii_namespace: "ascii (cf_ns_prefix cf) \<Longrightarrow> ascii (namespace_of cf s)"
  by (simp add: namespace_of_def split: option.split)

lemma web_claims_label: "page_label (web_claims cf now jti s ch u) = s_instance s @ ''-'' @ wc_name ch"
  by (simp add: page_label_def web_claims_def)

lemma web_claims_ascii:
  "ascii (s_instance s) \<Longrightarrow> ascii (wc_name ch) \<Longrightarrow> ascii (wc_secret ch) \<Longrightarrow> ascii (cf_ns_prefix cf) \<Longrightarrow> ascii jti \<Longrightarrow>
   ascii_claims (web_claims cf now jti s ch u)"
  by (simp add: ascii_claims_def web_claims_def ascii_namespace)

lemma cookie_claims_ascii: "ascii_claims c \<Longrightarrow> ascii_claims (cookie_claims cf now c)"
  by (simp add: ascii_claims_def cookie_claims_def)

lemma cookie_claims_simps [simp]:
  "gc_typ (cookie_claims cf now c) = ''cookie''" "gc_iid (cookie_claims cf now c) = gc_iid c"
  "gc_ch (cookie_claims cf now c) = gc_ch c" "gc_ns (cookie_claims cf now c) = gc_ns c"
  "gc_port (cookie_claims cf now c) = gc_port c" "gc_sub (cookie_claims cf now c) = gc_sub c"
  "gc_secret (cookie_claims cf now c) = gc_secret c"
  "gc_exp (cookie_claims cf now c) = unix (now + gw_cookie_ttl cf * second)"
  "page_label (cookie_claims cf now c) = page_label c" "service_host (cookie_claims cf now c) = service_host c"
  by (simp_all add: cookie_claims_def page_label_def service_host_def)

text \<open>A visit with a cookie.\<close>

definition page_visit :: "string \<Rightarrow> string \<Rightarrow> string \<Rightarrow> request" where
  "page_visit host v auth = \<lparr>rq_host = host, rq_access = [], rq_cookie = Some v, rq_auth = auth\<rparr>"

text \<open>The cookie a link is exchanged for carries the claims of the link on.\<close>

lemma link_opens_facts:
  assumes "codec_ok co" "ascii_claims c" "length n = nonce_size" "length m = nonce_size"
    and "sign co (Some n) c (gw_secret gw) = Some tok" "gc_typ c = ''web''" "0 < gc_exp c" "tok \<noteq> []"
    and "subdomain gw host = Some (page_label c)"
    and "unix t \<le> gc_exp c" "\<not> nonce_used (gc_jti c) t seen" "0 < unix (t + gw_cookie_ttl gw * second)"
  shows "\<exists>v cs. snd (serve co gw login t (Some m) (link_visit host tok) seen) = Exchanged cs \<and>
    gw_cookie gw v \<in> set cs \<and>
    (\<forall>t' seen' host' auth. snd (serve co gw login t' None (page_visit host' v auth) seen') =
       (case subdomain gw host' of None \<Rightarrow> UnknownHost
        | Some l \<Rightarrow> if l = page_label c \<and> unix t' \<le> unix (t + gw_cookie_ttl gw * second)
                    then Proxied (service_host c) (gc_port c) (inject_auth c auth) else Denied BadCookie))"
proof -
  let ?k = "cookie_claims gw t c"
  have ver: "verify co tok (gw_secret gw) t = Inr c"
    using verify_sign_facts [OF assms(1,2,3,5), of t] assms(10) by simp
  obtain v where v: "sign co (Some m) ?k (gw_secret gw) = Some v" by (simp add: sign_def)
  have verk: "verify co v (gw_secret gw) t' =
      (if unix t' \<le> unix (t + gw_cookie_ttl gw * second) then Inr ?k else Inl ErrExpired)" for t'
    using verify_sign_facts [OF assms(1) cookie_claims_ascii [OF assms(2)] assms(4) v, of t'] assms(12)
    by (simp add: not_le)
  have inj: "inject_auth ?k auth = inject_auth c auth" for auth by (simp add: inject_auth_def)
  have "serve co gw login t (Some m) (link_visit host tok) seen =
      exchange co gw login t (Some m) (page_label c) tok seen"
    using assms(8,9) by (simp add: serve_def link_visit_def)
  then have "snd (serve co gw login t (Some m) (link_visit host tok) seen) =
      Exchanged (prime_cookies login c @ [gw_cookie gw v])"
    using exchange_ok [OF ver assms(6) refl] v assms(11) by (simp add: nonce_use_free)
  moreover have "snd (serve co gw login t' None (page_visit host' v auth) seen') =
       (case subdomain gw host' of None \<Rightarrow> UnknownHost
        | Some l \<Rightarrow> if l = page_label c \<and> unix t' \<le> unix (t + gw_cookie_ttl gw * second)
                    then Proxied (service_host c) (gc_port c) (inject_auth c auth) else Denied BadCookie)"
    for t' seen' host' auth
    by (simp add: serve_def page_visit_def verk reverse_proxy_def inj split: option.split)
  ultimately show ?thesis by (intro exI [of _ v]) auto
qed

lemma verify_nil: "verify co [] k now = Inl ErrToken"
  by (simp add: verify_def b64_decode_def nonce_size_def)

lemma sign_verified:
  assumes "codec_ok co" "ascii_claims c" "length n = nonce_size" "sign co (Some n) c k = Some tok"
  shows "tok \<noteq> []"
proof
  assume "tok = []"
  then show False using verify_sign_facts [OF assms, of 0] by (simp add: verify_nil unix_def split: if_splits)
qed

lemma svc_ports_channel:
  "ch \<in> set (session_channels ct (s_image s) (s_web_password s)) \<Longrightarrow>
   wc_port ch \<in> sq_port ` set (se_ports (session_service (svc_spec_of cf ct ns s)))"
  by (simp add: session_service_def svc_spec_of_def svc_ports_def image_Un image_image)

text \<open>C15: The link the API hands out for a channel of a user's container session opens that session and
  nothing else: within three minutes and while unused it is exchanged for a cookie, with which, until
  the cookie expires, the gateway forwards requests to the page's host name to the session's own
  service, on a port that provisioning has put into that service; on any other host name the cookie is
  refused.\<close>

theorem access_link_opens_own_session:
  assumes "codec_ok co" "gateway_on ac" "second \<le> now" "0 \<le> gw_cookie_ttl gw"
    and gw: "gw_domain gw = ac_gateway ac" "gw_secret gw = ac_secret ac" "plain_domain (ac_gateway ac)"
    and own: "get_session ok i u db = Some s" "ch \<in> set (session_channels ct (s_image s) (s_web_password s))"
    and names: "plain_label (s_instance s @ ''-'' @ wc_name ch)" "ascii (s_instance s)" "ascii (wc_name ch)"
      "ascii (wc_secret ch)" "ascii (cf_ns_prefix cf)" "ascii jti"
    and draws: "length n = nonce_size" "length m = nonce_size"
    and visit: "now \<le> t" "unix t \<le> unix (now + web_ttl)" "\<not> nonce_used jti t seen"
  shows "\<exists>tok v cs. web_access co ac cf vw now (Some n, jti) s ch u =
      [''url'' \<mapsto> web_scheme ac @ ''://'' @ web_host ac s ch @ ''/?access='' @ tok] \<and>
    snd (serve co gw login t (Some m) (link_visit (web_host ac s ch) tok) seen) = Exchanged cs \<and>
    gw_cookie gw v \<in> set cs \<and> s_user s = u \<and>
    (\<forall>t' seen' auth. unix t' \<le> unix (t + gw_cookie_ttl gw * second) \<longrightarrow>
      (\<exists>a. snd (serve co gw login t' None (page_visit (web_host ac s ch) v auth) seen') =
        Proxied (se_name (session_service (svc_spec_of cf ct (namespace_of cf s) s)) @ ''.'' @ namespace_of cf s @ ''.svc.cluster.local'')
          (wc_port ch) a)) \<and>
    wc_port ch \<in> sq_port ` set (se_ports (session_service (svc_spec_of cf ct (namespace_of cf s) s))) \<and>
    (\<forall>host' t' seen' auth. subdomain gw host' \<noteq> Some (s_instance s @ ''-'' @ wc_name ch) \<longrightarrow>
      snd (serve co gw login t' None (page_visit host' v auth) seen') \<in> {UnknownHost, Denied BadCookie})"
proof -
  let ?c = "web_claims cf now jti s ch u"
  have asc: "ascii_claims ?c" using names by (intro web_claims_ascii)
  obtain tok where tok: "sign co (Some n) ?c (gw_secret gw) = Some tok" by (simp add: sign_def)
  have late: "0 < unix x" if "second \<le> x" for x
    using unix_mono [OF that] by (simp add: unix_def)
  have exp: "0 < gc_exp ?c" using assms(3) by (simp add: web_claims_def late)
  have fields: "gc_typ ?c = ''web''" "gc_exp ?c = unix (now + web_ttl)" "gc_jti ?c = jti" "gc_port ?c = wc_port ch"
    "service_host ?c = s_instance s @ ''.'' @ namespace_of cf s @ ''.svc.cluster.local''"
    by (simp_all add: web_claims_def service_host_def)
  have sub: "subdomain gw (web_host ac s ch) = Some (page_label ?c)"
    using subdomain_host [OF names(1), of gw] gw by (simp add: web_host_def web_claims_label)
  have mine: "s_user s = u" using own(1) by (auto simp: get_session_def find_Some_iff split: if_splits)
  have svc: "se_name (session_service (svc_spec_of cf ct (namespace_of cf s) s)) = s_instance s"
    by (simp add: session_service_def svc_spec_of_def)
  have ttl: "0 < unix (t + gw_cookie_ttl gw * second)"
    using assms(3,4) visit(1) by (intro late) (simp add: add_increasing2)
  from link_opens_facts [OF assms(1) asc draws tok fields(1) exp sign_verified [OF assms(1) asc draws(1) tok] sub _ _ ttl]
  obtain v cs where "snd (serve co gw login t (Some m) (link_visit (web_host ac s ch) tok) seen) = Exchanged cs"
    "gw_cookie gw v \<in> set cs"
    and page: "\<And>t' seen' host' auth. snd (serve co gw login t' None (page_visit host' v auth) seen') =
       (case subdomain gw host' of None \<Rightarrow> UnknownHost
        | Some l \<Rightarrow> if l = page_label ?c \<and> unix t' \<le> unix (t + gw_cookie_ttl gw * second)
                    then Proxied (service_host ?c) (gc_port ?c) (inject_auth ?c auth) else Denied BadCookie)"
    using visit fields by metis
  moreover have "web_access co ac cf vw now (Some n, jti) s ch u =
      [''url'' \<mapsto> web_scheme ac @ ''://'' @ web_host ac s ch @ ''/?access='' @ tok]"
    using tok assms(2) gw(2) by (simp add: web_access_def)
  ultimately show ?thesis
    using svc_ports_channel [OF own(2), of cf "namespace_of cf s"] sub
    by (intro exI [of _ tok] exI [of _ v] exI [of _ cs])
      (auto simp: page fields svc mine web_claims_label split: option.split)
qed

section \<open>Traffic\<close>

text \<open>
  What can happen around a gateway: a user asks the API for the links and SSH commands of a session, and
  anybody visits the gateway with whatever they have. \<open>A\<close> holds who asked for which channel of which
  session, \<open>I\<close> the tokens and cookies handed out. A visitor may present anything, but cannot make up a
  token the gateway's key opens (the integrity AES-GCM documents).
\<close>

definition unforged :: "codec \<Rightarrow> gw_cfg \<Rightarrow> string set \<Rightarrow> request \<Rightarrow> bool" where
  "unforged co gw I rq \<longleftrightarrow>
     (\<forall>tok \<in> insert (rq_access rq) (set_option (rq_cookie rq)).
        \<forall>now c. verify co tok (gw_secret gw) now = Inr c \<longrightarrow> tok \<in> I)"

definition own_cookie :: "reply \<Rightarrow> string set" where
  "own_cookie r = (case r of Exchanged cs \<Rightarrow> {ck_value (last cs)} | _ \<Rightarrow> {})"

inductive traffic ::
  "codec \<Rightarrow> gw_cfg \<Rightarrow> login \<Rightarrow> session_cfg \<Rightarrow> (int \<times> session \<times> web_channel) set \<Rightarrow> string set \<Rightarrow> nonces \<Rightarrow> bool"
  for co gw login cf where
  start: "traffic co gw login cf {} {} []"
| ask_web: "traffic co gw login cf A I seen \<Longrightarrow> get_session ok i u db = Some s \<Longrightarrow> \<not> ssh_env s \<Longrightarrow>
    ch \<in> set (session_channels ct (s_image s) (s_web_password s)) \<Longrightarrow>
    ascii_claims (web_claims cf now jti s ch u) \<Longrightarrow> length n = nonce_size \<Longrightarrow>
    sign co (Some n) (web_claims cf now jti s ch u) (gw_secret gw) = Some tok \<Longrightarrow>
    traffic co gw login cf (insert (u, s, ch) A) (insert tok I) seen"
| ask_ssh: "traffic co gw login cf A I seen \<Longrightarrow> get_session ok i u db = Some s \<Longrightarrow>
    ascii_claims (ssh_claims now jti i u ns node tgt user) \<Longrightarrow> length n = nonce_size \<Longrightarrow>
    sign co (Some n) (ssh_claims now jti i u ns node tgt user) (gw_secret gw) = Some tok \<Longrightarrow>
    traffic co gw login cf A (insert tok I) seen"
| visit: "traffic co gw login cf A I seen \<Longrightarrow> unforged co gw I rq \<Longrightarrow> (\<forall>n. rnd = Some n \<longrightarrow> length n = nonce_size) \<Longrightarrow>
    serve co gw login now rnd rq seen = (seen', r) \<Longrightarrow>
    traffic co gw login cf A (I \<union> own_cookie r) seen'"

text \<open>What a token that is out says: it is for SSH, or it leads to a channel somebody asked for.\<close>

definition leads_to :: "session_cfg \<Rightarrow> claims \<Rightarrow> int \<times> session \<times> web_channel \<Rightarrow> bool" where
  "leads_to cf c a \<longleftrightarrow>
     (case a of (u, s, ch) \<Rightarrow>
        s_user s = u \<and> gc_sub c = u \<and> gc_secret c = wc_secret ch \<and> page_label c = s_instance s @ ''-'' @ wc_name ch \<and>
        service_host c = s_instance s @ ''.'' @ namespace_of cf s @ ''.svc.cluster.local'' \<and> gc_port c = wc_port ch)"

definition good_claims :: "session_cfg \<Rightarrow> (int \<times> session \<times> web_channel) set \<Rightarrow> claims \<Rightarrow> bool" where
  "good_claims cf A c \<longleftrightarrow> ascii_claims c \<and> (gc_typ c = ''ssh'' \<or> (\<exists>a \<in> A. leads_to cf c a))"

definition tokens_good :: "codec \<Rightarrow> gw_cfg \<Rightarrow> session_cfg \<Rightarrow> (int \<times> session \<times> web_channel) set \<Rightarrow> string set \<Rightarrow> bool" where
  "tokens_good co gw cf A I \<longleftrightarrow>
     (\<forall>tok \<in> I. \<forall>now c. verify co tok (gw_secret gw) now = Inr c \<longrightarrow> good_claims cf A c)"

lemma good_claims_mono: "good_claims cf A c \<Longrightarrow> A \<subseteq> B \<Longrightarrow> good_claims cf B c"
  by (auto simp: good_claims_def)

lemma good_claims_cookie:
  "good_claims cf A c \<Longrightarrow> gc_typ c \<noteq> ''ssh'' \<Longrightarrow> good_claims cf A (cookie_claims gw now c)"
  by (auto simp: good_claims_def leads_to_def cookie_claims_ascii)

lemma tokens_good_insert:
  assumes "codec_ok co" "tokens_good co gw cf A I" "good_claims cf B c" "A \<subseteq> B"
    and "length n = nonce_size" "sign co (Some n) c (gw_secret gw) = Some tok"
  shows "tokens_good co gw cf B (insert tok I)"
proof -
  have "d = c" if "verify co tok (gw_secret gw) now = Inr d" for now d
    using verify_sign_facts [OF assms(1) _ assms(5,6), of now] assms(3) that
    by (auto simp: good_claims_def split: if_splits)
  then show ?thesis
    using assms(2,3) by (auto simp: tokens_good_def intro: good_claims_mono [OF _ assms(4)])
qed

lemma exchange_cookie:
  assumes "exchange co gw login now rnd sub tok seen = (seen', Exchanged cs)"
  shows "\<exists>c n. verify co tok (gw_secret gw) now = Inr c \<and> gc_typ c = ''web'' \<and> rnd = Some n \<and>
    sign co (Some n) (cookie_claims gw now c) (gw_secret gw) = Some (ck_value (last cs))"
  using assms
  by (auto simp: exchange_def gw_cookie_def sign_def split: sum.splits if_splits prod.splits bool.splits option.splits)

lemma serve_cookie:
  assumes "serve co gw login now rnd rq seen = (seen', r)" "v \<in> own_cookie r"
  shows "\<exists>c n. verify co (rq_access rq) (gw_secret gw) now = Inr c \<and> gc_typ c = ''web'' \<and> rnd = Some n \<and>
    sign co (Some n) (cookie_claims gw now c) (gw_secret gw) = Some v"
proof -
  from assms(2) obtain cs where r: "r = Exchanged cs" and v: "v = ck_value (last cs)"
    by (auto simp: own_cookie_def split: reply.splits)
  from assms(1) obtain sub where "exchange co gw login now rnd sub (rq_access rq) seen = (seen', Exchanged cs)"
    by (auto simp: serve_def r reverse_proxy_def split: option.splits sum.splits if_splits)
  from exchange_cookie [OF this] show ?thesis by (simp add: v)
qed

lemma traffic_tokens_good:
  assumes "codec_ok co" "traffic co gw login cf A I seen"
  shows "tokens_good co gw cf A I"
  using assms(2)
proof (induction rule: traffic.induct)
  case start
  show ?case by (simp add: tokens_good_def)
next
  case (ask_web A I seen ok i u db s ch ct now jti n tok)
  have "s_user s = u" using ask_web.hyps(2) by (auto simp: get_session_def find_Some_iff split: if_splits)
  then have "leads_to cf (web_claims cf now jti s ch u) (u, s, ch)"
    by (simp add: leads_to_def web_claims_label) (simp add: web_claims_def service_host_def)
  with ask_web.hyps(5) have "good_claims cf (insert (u, s, ch) A) (web_claims cf now jti s ch u)"
    by (auto simp: good_claims_def)
  from tokens_good_insert [OF assms(1) ask_web.IH this _ ask_web.hyps(6,7)] show ?case by auto
next
  case (ask_ssh A I seen ok i u db s now jti ns node tgt user n tok)
  from ask_ssh.hyps(3) have "good_claims cf A (ssh_claims now jti i u ns node tgt user)"
    by (simp add: good_claims_def ssh_claims_def)
  from tokens_good_insert [OF assms(1) ask_ssh.IH this _ ask_ssh.hyps(4,5)] show ?case by simp
next
  case (visit A I seen rq rnd now seen' r)
  show ?case
  proof (cases "own_cookie r = {}")
    case True
    then show ?thesis using visit.IH by simp
  next
    case False
    then obtain v where v: "own_cookie r = {v}" by (auto simp: own_cookie_def split: reply.splits)
    from serve_cookie [OF visit.hyps(4), of v] v obtain c n
      where c: "verify co (rq_access rq) (gw_secret gw) now = Inr c" "gc_typ c = ''web''" "rnd = Some n"
        and s: "sign co (Some n) (cookie_claims gw now c) (gw_secret gw) = Some v" by auto
    have "rq_access rq \<in> I" using visit.hyps(2) c(1) by (auto simp: unforged_def)
    then have "good_claims cf A (cookie_claims gw now c)"
      using visit.IH c by (auto simp: tokens_good_def intro: good_claims_cookie)
    from tokens_good_insert [OF assms(1) visit.IH this _ _ s] visit.hyps(3) c(3) v show ?thesis by simp
  qed
qed

text \<open>C10: Whatever visitors present, in whatever order the API and the gateway act: a request is forwarded only
  to the service and port of a channel the owner of that session asked a link for, and only when it is
  made on that channel's own host name.\<close>

theorem proxied_only_where_asked:
  assumes "codec_ok co" "traffic co gw login cf A I seen" "unforged co gw I rq"
    and "serve co gw login now rnd rq seen = (seen', Proxied h p a)"
  shows "\<exists>u s ch. (u, s, ch) \<in> A \<and> s_user s = u \<and>
    h = s_instance s @ ''.'' @ namespace_of cf s @ ''.svc.cluster.local'' \<and> p = wc_port ch \<and>
    subdomain gw (rq_host rq) = Some (s_instance s @ ''-'' @ wc_name ch)"
proof -
  have no: "exchange co gw login now rnd sub tok seen \<noteq> (seen', Proxied h p a)" for sub tok
    by (auto simp: exchange_def split: sum.splits prod.splits bool.splits option.splits)
  from assms(4) no obtain v c where v: "rq_cookie rq = Some v" "verify co v (gw_secret gw) now = Inr c"
    and c: "gc_typ c = ''cookie''" "subdomain gw (rq_host rq) = Some (page_label c)" "h = service_host c" "p = gc_port c"
    by (auto simp: serve_def reverse_proxy_def split: option.splits sum.splits if_splits)
  have "v \<in> I" using assms(3) v by (auto simp: unforged_def)
  then have "good_claims cf A c" using traffic_tokens_good [OF assms(1,2)] v(2) by (auto simp: tokens_good_def)
  then show ?thesis using c by (auto simp: good_claims_def leads_to_def)
qed

section \<open>Without the gateway\<close>

lemma put_channel_simps [simp]:
  "wc_name ch = ''vscode'' \<Longrightarrow> put_channel ch m c = c\<lparr>cx_vscode := Some m\<rparr>"
  "wc_name ch = ''jupyter'' \<Longrightarrow> put_channel ch m c = c\<lparr>cx_jupyter := Some m\<rparr>"
  by (simp_all add: put_channel_def)

text \<open>With the gateway off and node ports in use, the access call gives the second web channel of a session
  the node port of the first one: the link meant for Jupyter, token included, leads to the editor's port,
  while the connection call does not.\<close>

theorem second_channel_gets_first_port:
  assumes "\<not> gateway_on ac" "expose_mode cf = ''nodeport''" "get_session ok i u db = Some s" "\<not> ssh_env s"
    and "session_channels ct (s_image s) (s_web_password s) = [a, b]" "wc_name a = ''vscode''" "wc_name b = ''jupyter''"
    and "access_of vw (namespace_of cf s) (s_instance s) = Some acc" "0 < sa_node_port acc" "first_ip vw \<noteq> []"
  shows "\<exists>c till c'. access_op co ok ct ac cf vw now d i u db = Some (c, till) \<and>
    cx_vscode c = Some [''password'' \<mapsto> wc_secret a, ''url'' \<mapsto> http_url (first_ip vw) (sa_node_port acc) ''/''] \<and>
    cx_jupyter c = Some [''url'' \<mapsto> http_url (first_ip vw) (sa_node_port acc) (''/lab?token='' @ wc_secret b)] \<and>
    connection_op ok ct ac cf vw i u db = Some c' \<and>
    (\<exists>m. cx_jupyter c' = Some m \<and> m ''url'' = Some (http_url ''localhost'' (wc_port b) (''/lab?token='' @ wc_secret b)))"
proof -
  let ?url = "http_url (first_ip vw) (sa_node_port acc)"
  have exposed: "exposed_url cf vw s ch = [''url'' \<mapsto> ?url (channel_suffix ch)]" for ch
    using assms by (simp add: exposed_url_def)
  have web: "web_access co ac cf vw now dr s ch u = channel_access ac cf vw s ch True" for dr ch
    using assms(1) by (simp add: web_access_def)
  have suffix: "channel_suffix a = ''/''" "channel_suffix b = ''/lab?token='' @ wc_secret b"
    using assms(6,7) by (simp_all add: channel_suffix_def)
  have a: "channel_access ac cf vw s a True = [''password'' \<mapsto> wc_secret a, ''url'' \<mapsto> ?url ''/'']"
    and b: "channel_access ac cf vw s b True = [''url'' \<mapsto> ?url (''/lab?token='' @ wc_secret b)]"
    using assms(6,7) by (simp_all add: channel_access_def exposed suffix fun_eq_iff map_add_def)
  have bf: "channel_access ac cf vw s b False ''url'' = Some (http_url ''localhost'' (wc_port b) (''/lab?token='' @ wc_secret b))"
    using assms(1,7) by (simp add: channel_access_def suffix)
  have "access_op co ok ct ac cf vw now d i u db =
      Some (no_connection\<lparr>cx_vscode := Some (channel_access ac cf vw s a True),
        cx_jupyter := Some (channel_access ac cf vw s b True)\<rparr>, now + web_ttl)"
    using assms(1,3-7) by (simp add: access_op_def web Let_def)
  moreover have "\<exists>c'. connection_op ok ct ac cf vw i u db = Some c' \<and> cx_jupyter c' = Some (channel_access ac cf vw s b False)"
    using assms(3-7) by (simp add: connection_op_def Let_def split: option.split)
  ultimately show ?thesis using a b bf by auto
qed

section \<open>Samples\<close>

definition own_session :: session where
  "own_session = (sample_session ''ses-a1'' 7 ''exclusive'' ''a'')\<lparr>s_group := None\<rparr>"

definition own_db :: session_db where
  "own_db = empty_sessions\<lparr>sessions := [own_session]\<rparr>"

definition two_channels :: catalog where
  "two_channels = sample_catalog\<lparr>ct_channels := [(1, \<lparr>ic_vscode = True, ic_jupyter = True, ic_ssh = False, ic_web = None\<rparr>)]\<rparr>"

definition own_access :: "string \<Rightarrow> access_cfg" where
  "own_access secret = \<lparr>ac_gateway = ''gw.local'', ac_secret = secret, ac_host = [], ac_scheme = [], ac_ssh_port = 2222\<rparr>"

definition own_view :: view where
  "own_view = \<lparr>vw_available = True,
     vw_svc = (\<lambda>_ n. if n = ''ses-a1'' then SvcLive \<lparr>lv_ports = [(''web'', 30080), (''jupyter'', 30088)], lv_ingress = []\<rparr> else SvcMissing),
     vw_node = (\<lambda>_. None),
     vw_nodes = Some [\<lparr>cn_name = ''n1'', cn_control = False, cn_addresses = [(''InternalIP'', ''10.0.0.5'')]\<rparr>]\<rparr>"

lemma dec_seven: "dec 7 = ''7''"
  by code_simp

lemma own_facts:
  "get_session (\<lambda>_ _. True) ''ses-a1'' 7 own_db = Some own_session" "\<not> ssh_env own_session"
  "session_channels two_channels (s_image own_session) (s_web_password own_session) =
     [vscode_channel ''pw'', \<lparr>wc_name = ''jupyter'', wc_port = 8888, wc_env = ''JUPYTER_TOKEN'', wc_secret = ''pw''\<rparr>]"
  "web_claims sample_cfg (1000 * second) ''j1'' own_session (vscode_channel ''pw'') 7 = link_claims"
  "s_instance own_session = ''ses-a1''" "s_user own_session = 7"
  by (simp_all add: get_session_def own_db_def own_session_def sample_session_def ssh_env_def session_channels_def
      channels_of_def two_channels_def web_channels_for_def vscode_channel_def web_claims_def link_claims_def
      namespace_of_def sample_cfg_def unix_def dec_seven)

lemma own_ascii: "ascii_claims link_claims" "length ''0123456789ab'' = nonce_size" "length ''ba9876543210'' = nonce_size"
  by (simp_all add: ascii_claims_def link_claims_def nonce_size_def)

theorem access_link_opens_own_session_witness:
  "\<exists>tok cs. web_access plain_codec (own_access ''key'') sample_cfg own_view (1000 * second) (Some ''0123456789ab'', ''j1'')
       own_session (vscode_channel ''pw'') 7 = [''url'' \<mapsto> ''https://ses-a1-vscode.gw.local/?access='' @ tok] \<and>
     snd (serve plain_codec sample_gw no_login (1100 * second) (Some ''ba9876543210'')
       (link_visit ''ses-a1-vscode.gw.local'' tok) []) = Exchanged cs"
proof -
  have ac: "gateway_on (own_access ''key'')" "gw_domain sample_gw = ac_gateway (own_access ''key'')"
    "gw_secret sample_gw = ac_secret (own_access ''key'')" "plain_domain (ac_gateway (own_access ''key''))"
    "web_scheme (own_access ''key'') = ''https''" "0 \<le> gw_cookie_ttl sample_gw"
    by (simp_all add: gateway_on_def own_access_def sample_gw_def plain_domain_def web_scheme_def)
  have ch: "vscode_channel ''pw'' \<in> set (session_channels two_channels (s_image own_session) (s_web_password own_session))"
    by (simp add: own_facts)
  have names: "plain_label (s_instance own_session @ ''-'' @ wc_name (vscode_channel ''pw''))" "ascii (s_instance own_session)"
    "ascii (wc_name (vscode_channel ''pw''))" "ascii (wc_secret (vscode_channel ''pw''))" "ascii (cf_ns_prefix sample_cfg)" "ascii ''j1''"
    by (simp_all add: own_facts plain_label_def vscode_channel_def sample_cfg_def)
  have host: "web_host (own_access ''key'') own_session (vscode_channel ''pw'') = ''ses-a1-vscode.gw.local''"
    by (simp add: web_host_def own_facts vscode_channel_def own_access_def)
  have t: "1000 * second \<le> 1100 * second" "unix (1100 * second) \<le> unix (1000 * second + web_ttl)"
    "\<not> nonce_used ''j1'' (1100 * second) []" "second \<le> 1000 * second"
    by (simp_all add: unix_def nonce_used_def)
  show ?thesis
    using access_link_opens_own_session [OF plain_codec_ok ac(1) t(4) ac(6,2,3,4) own_facts(1) ch names own_ascii(2,3) t(1-3),
        of own_view no_login] ac(5) host by auto
qed

theorem proxied_only_where_asked_witness:
  "\<exists>I seen v. traffic plain_codec sample_gw no_login sample_cfg {(7, own_session, vscode_channel ''pw'')} I seen \<and>
     snd (serve plain_codec sample_gw no_login (1200 * second) None (page_visit ''ses-a1-vscode.gw.local'' v []) seen) =
       Proxied (service_host link_claims) 8080 [] \<and>
     (\<exists>u s ch. (u, s, ch) \<in> {(7::int, own_session, vscode_channel ''pw'')} \<and> s_user s = u \<and>
       service_host link_claims = s_instance s @ ''.'' @ namespace_of sample_cfg s @ ''.svc.cluster.local'' \<and> 8080 = wc_port ch \<and>
       subdomain sample_gw ''ses-a1-vscode.gw.local'' = Some (s_instance s @ ''-'' @ wc_name ch))"
proof -
  let ?A = "{(7::int, own_session, vscode_channel ''pw'')}" and ?h = "''ses-a1-vscode.gw.local''"
  have sign: "sign plain_codec (Some ''0123456789ab'') link_claims (gw_secret sample_gw) = Some sample_tok"
    by (simp add: sample_tok_def sample_gw_def sign_def)
  have asked: "traffic plain_codec sample_gw no_login sample_cfg ?A {sample_tok} []"
    using traffic.ask_web [OF traffic.start own_facts(1,2), of "vscode_channel ''pw''" two_channels sample_cfg
        "1000 * second" "''j1''" "''0123456789ab''" plain_codec sample_gw sample_tok no_login]
      own_facts own_ascii sign by simp
  have sub: "subdomain sample_gw ?h = Some (page_label link_claims)"
    by (simp add: subdomain_def sample_gw_def page_label_def link_claims_def trim_suffix_def has_suffix_def
        has_prefix_def Let_def)
  let ?k = "cookie_claims sample_gw (1100 * second) link_claims"
  obtain v where v: "sign plain_codec (Some ''ba9876543210'') ?k (gw_secret sample_gw) = Some v" by (simp add: sign_def)
  have ver: "verify plain_codec sample_tok (gw_secret sample_gw) (1100 * second) = Inr link_claims"
    by (simp add: sample_tok_facts unix_def)
  have unused: "snd (nonce_use (gc_jti link_claims) (gc_exp link_claims) (1100 * second) [])"
    by (simp add: nonce_use_free nonce_used_def)
  have "serve plain_codec sample_gw no_login (1100 * second) (Some ''ba9876543210'') (link_visit ?h sample_tok) [] =
      exchange plain_codec sample_gw no_login (1100 * second) (Some ''ba9876543210'') (page_label link_claims) sample_tok []"
    by (simp add: serve_def link_visit_def sub sample_tok_facts)
  also have "\<dots> = (fst (nonce_use (gc_jti link_claims) (gc_exp link_claims) (1100 * second) []),
      Exchanged (prime_cookies no_login link_claims @ [gw_cookie sample_gw v]))"
    using exchange_ok [OF ver sample_claim_fields(1) refl unused, of no_login "''ba9876543210''"] v by simp
  finally obtain seen where visit: "serve plain_codec sample_gw no_login (1100 * second) (Some ''ba9876543210'')
      (link_visit ?h sample_tok) [] = (seen, Exchanged (prime_cookies no_login link_claims @ [gw_cookie sample_gw v]))"
    by simp
  have un: "unforged plain_codec sample_gw {sample_tok} (link_visit ?h sample_tok)"
    by (simp add: unforged_def link_visit_def)
  from traffic.visit [OF asked un _ visit] own_ascii(3)
  have out: "traffic plain_codec sample_gw no_login sample_cfg ?A {sample_tok, v} seen"
    by (simp add: own_cookie_def gw_cookie_def insert_commute)
  define T where "T = 1200 * second"
  have verk: "verify plain_codec v (gw_secret sample_gw) T = Inr ?k"
    using verify_sign_facts [OF plain_codec_ok cookie_claims_ascii [OF own_ascii(1)] own_ascii(3) v, of T]
    by (simp add: unix_def sample_gw_def T_def)
  have fields: "gc_port link_claims = 8080" "gc_ch link_claims = ''vscode''" by (simp_all add: link_claims_def)
  have page: "serve plain_codec sample_gw no_login T None (page_visit ?h v []) seen =
      (seen, Proxied (service_host link_claims) 8080 [])"
    by (simp add: serve_def page_visit_def sub verk reverse_proxy_def inject_auth_def fields)
  have un': "unforged plain_codec sample_gw {sample_tok, v} (page_visit ?h v [])"
    by (simp add: unforged_def page_visit_def verify_nil)
  from proxied_only_where_asked [OF plain_codec_ok out un' page] out page show ?thesis
    by (intro exI [of _ "{sample_tok, v}"] exI [of _ seen] exI [of _ v]) (simp add: page_visit_def T_def)
qed

theorem second_channel_gets_first_port_witness:
  "\<exists>c till. access_op plain_codec (\<lambda>_ _. True) two_channels (own_access []) (sample_cfg\<lparr>cf_expose := ''nodeport''\<rparr>) own_view
       (1000 * second) (\<lambda>_. (None, [])) ''ses-a1'' 7 own_db = Some (c, till) \<and>
     cx_jupyter c = Some [''url'' \<mapsto> http_url ''10.0.0.5'' 30080 ''/lab?token=pw'']"
proof -
  let ?cf = "sample_cfg\<lparr>cf_expose := ''nodeport''\<rparr>"
  have "\<not> gateway_on (own_access [])" "expose_mode ?cf = ''nodeport''"
    by (simp_all add: gateway_on_def own_access_def expose_mode_def)
  moreover have "access_of own_view (namespace_of ?cf own_session) (s_instance own_session) =
      Some \<lparr>sa_lb_ip = [], sa_node_port = 30080, sa_ssh_node_port = 0, sa_ssh_lb_ip = []\<rparr>"
    by (simp add: access_of_def own_view_def session_service_access_def own_facts ssh_port_of_def first_set_def
        ssh_svc_name_def Let_def)
  moreover have "first_ip own_view = ''10.0.0.5''" by (simp add: own_view_def first_node_ip_def)
  ultimately show ?thesis
    using second_channel_gets_first_port [OF _ _ own_facts(1-3), where ac = "own_access []" and cf = ?cf and vw = own_view
        and co = plain_codec and now = "1000 * second" and d = "\<lambda>_. (None, [])"]
    by (auto simp: vscode_channel_def)
qed

end
