(* ===== verification/Volumes.thy ===== *)
theory Volumes
  imports Session_Mounts Wallet_Books
begin

text \<open>
  Shared volumes (\<open>internal/volume\<close>): the table with its statements (\<open>repo.go\<close>), creating, importing,
  sharing, moving between teams and deleting (\<open>service.go\<close>), the request handlers' part that decides who is
  asking (\<open>handler.go\<close>), and the biller of volume storage. The session side reads the same tables through
  \<open>VolumeAccess\<close> (\<open>Session_Mounts\<close>); \<open>tables_of\<close> is that reading. The charger is the contract of
  \<open>Credit_Store\<close>, met by the wallet service.
\<close>

section \<open>Table and statements\<close>

record volume =
  vo_id :: int
  vo_name :: string
  vo_kind :: string
  vo_owner :: "int option"
  vo_group :: "int option"
  vo_size :: int
  vo_pvc :: string
  vo_ns :: string
  vo_nfs_server :: string
  vo_nfs_path :: string
  vo_status :: string
  vo_billed :: int
  vo_created :: time

record volume_db =
  vd_volumes :: "volume list"
  vd_shares :: "share_row list"
  vd_next :: int

datatype vop = VCreate | VBound | VGet | VDelete | VGroup | VSum | VUnshare | VShare | VUser | VBillable | VBilled int

type_synonym vol_oracle = "vop \<Rightarrow> bool"

definition row_view :: "volume \<Rightarrow> volume_row" where
  "row_view v = \<lparr>vr_id = vo_id v, vr_pvc = vo_pvc v, vr_ns = vo_ns v, vr_owner = vo_owner v, vr_size = vo_size v\<rparr>"

definition tables_of :: "(int \<times> int) list \<Rightarrow> dataset_row list \<Rightarrow> volume_db \<Rightarrow> volume_tables" where
  "tables_of mems ds db =
     \<lparr>vt_volumes = map row_view (vd_volumes db), vt_shares = vd_shares db, vt_members = mems, vt_datasets = ds\<rparr>"

definition insert_volume :: "vol_oracle \<Rightarrow> time \<Rightarrow> volume \<Rightarrow> volume_db \<Rightarrow> volume_db \<times> volume option" where
  "insert_volume ok now v db =
     (if ok VCreate
      then (let v' = v\<lparr>vo_id := vd_next db, vo_created := now\<rparr>
            in (db\<lparr>vd_volumes := vd_volumes db @ [v'], vd_next := vd_next db + 1\<rparr>, Some v'))
      else (db, None))"

definition upd_volume :: "int \<Rightarrow> (volume \<Rightarrow> volume) \<Rightarrow> volume_db \<Rightarrow> volume_db" where
  "upd_volume i f db = db\<lparr>vd_volumes := upd_row vo_id i f (vd_volumes db)\<rparr>"

definition set_bound :: "vol_oracle \<Rightarrow> int \<Rightarrow> string \<Rightarrow> string \<Rightarrow> string \<Rightarrow> volume_db \<Rightarrow> volume_db \<times> bool" where
  "set_bound ok i pvc ns st db =
     (if ok VBound then (upd_volume i (\<lambda>v. v\<lparr>vo_pvc := pvc, vo_ns := ns, vo_status := st\<rparr>) db, True) else (db, False))"

datatype vol_error = QuotaExceeded | InsufficientCredit | VolNotFound | OwnerRequired | InvalidGroup | VolBody | VolDb

definition get_volume :: "vol_oracle \<Rightarrow> int \<Rightarrow> volume_db \<Rightarrow> vol_error + volume" where
  "get_volume ok i db =
     (if \<not> ok VGet then Inl VolDb
      else case row_of vo_id i (vd_volumes db) of None \<Rightarrow> Inl VolNotFound | Some v \<Rightarrow> Inr v)"

definition delete_volume_row :: "vol_oracle \<Rightarrow> int \<Rightarrow> volume_db \<Rightarrow> volume_db \<times> bool" where
  "delete_volume_row ok i db =
     (if ok VDelete then (db\<lparr>vd_volumes := filter (\<lambda>v. vo_id v \<noteq> i) (vd_volumes db)\<rparr>, True) else (db, False))"

definition set_volume_group :: "vol_oracle \<Rightarrow> int \<Rightarrow> int \<Rightarrow> volume_db \<Rightarrow> volume_db \<times> bool" where
  "set_volume_group ok i g db =
     (if ok VGroup then (upd_volume i (\<lambda>v. v\<lparr>vo_group := (if 0 < g then Some g else None)\<rparr>) db, True) else (db, False))"

text \<open>The sums; their errors are ignored by every caller, which then reads 0.\<close>

definition allocated_gib :: "vol_oracle \<Rightarrow> int \<Rightarrow> volume_db \<Rightarrow> int" where
  "allocated_gib ok u db =
     (if ok VSum then sum_list (map vo_size (filter (\<lambda>v. vo_owner v = Some u) (vd_volumes db))) else 0)"

definition allocated_in_team :: "vol_oracle \<Rightarrow> int \<Rightarrow> int \<Rightarrow> volume_db \<Rightarrow> int" where
  "allocated_in_team ok u g db =
     (if ok VSum
      then sum_list (map vo_size (filter (\<lambda>v. vo_owner v = Some u \<and> vo_group v = Some g) (vd_volumes db))) else 0)"

definition list_billable :: "vol_oracle \<Rightarrow> volume_db \<Rightarrow> volume list option" where
  "list_billable ok db =
     (if ok VBillable then Some (filter (\<lambda>v. vo_status v = ''bound'' \<and> vo_owner v \<noteq> None) (vd_volumes db)) else None)"

definition set_volume_billed :: "vol_oracle \<Rightarrow> int \<Rightarrow> int \<Rightarrow> volume_db \<Rightarrow> volume_db \<times> bool" where
  "set_volume_billed ok i n db =
     (if ok (VBilled i) then (upd_volume i (\<lambda>v. v\<lparr>vo_billed := n\<rparr>) db, True) else (db, False))"

definition add_share :: "vol_oracle \<Rightarrow> int \<Rightarrow> int option \<Rightarrow> int option \<Rightarrow> string \<Rightarrow> volume_db \<Rightarrow> volume_db \<times> bool" where
  "add_share ok i u g perm db =
     (let same = (\<lambda>h. sh_volume h = i \<and>
            (case u of Some _ \<Rightarrow> sh_user h = u | None \<Rightarrow> (case g of Some _ \<Rightarrow> sh_group h = g | None \<Rightarrow> True)))
      in if \<not> ok VUnshare then (db, False)
         else (let db1 = db\<lparr>vd_shares := filter (\<lambda>h. \<not> same h) (vd_shares db)\<rparr>
               in if \<not> ok VShare then (db1, False)
                  else (db1\<lparr>vd_shares := vd_shares db1 @ [\<lparr>sh_volume = i, sh_user = u, sh_group = g, sh_perm = perm\<rparr>]\<rparr>, True)))"

text \<open>\<open>ListShared\<close>: the volumes shared with a user, with the permission shown.\<close>

definition list_shared :: "(int \<times> int) list \<Rightarrow> int \<Rightarrow> volume_db \<Rightarrow> (volume \<times> string) list" where
  "list_shared mems u db =
     concat (map (\<lambda>v.
       (let ps = map sh_perm (filter (\<lambda>h. sh_volume h = vo_id v \<and>
               (sh_user h = Some u \<or> (case sh_group h of None \<Rightarrow> False | Some g \<Rightarrow> (u, g) \<in> set mems))) (vd_shares db))
        in if ps = [] \<or> vo_owner v = Some u then []
           else [(v, if 0 < length (filter (\<lambda>p. p = ''rw'') ps) then ''rw'' else ''ro'')])) (vd_volumes db))"

section \<open>Service\<close>

record 'w vol_svc =
  vs_ns_prefix :: string
  vs_total_gib :: int
  vs_limits :: "resolver option"
  vs_charger :: "'w charger option"
  vs_price :: int
  vs_homes :: "(int \<Rightarrow> int list) option"

record 'w vol_world =
  vw_db :: volume_db
  vw_pvcs :: "(string \<times> string) set"
  vw_wallet :: 'w

text \<open>What a call meets: which statements succeed, whether the cluster accepts the claim, the time, the
  table of user names.\<close>

record vol_env =
  ve_ok :: vol_oracle
  ve_k8s :: bool
  ve_now :: time
  ve_users :: "(string \<times> int) list"

definition monthly_cost :: "'w vol_svc \<Rightarrow> int \<Rightarrow> int" where
  "monthly_cost sv gib = gib * vs_price sv"

definition home_used_gib :: "'w vol_svc \<Rightarrow> int \<Rightarrow> int" where
  "home_used_gib sv u = (case vs_homes sv of None \<Rightarrow> 0 | Some f \<Rightarrow> sum_list (f u))"

definition quota_for :: "'w vol_svc \<Rightarrow> int \<Rightarrow> int" where
  "quota_for sv u =
     (case vs_limits sv of None \<Rightarrow> vs_total_gib sv
      | Some r \<Rightarrow> (let g = max_volume_gib (resolve r u) in if 0 < g then g else vs_total_gib sv))"

definition quota_for_team :: "'w vol_svc \<Rightarrow> int \<Rightarrow> int \<Rightarrow> int" where
  "quota_for_team sv u g =
     (case vs_limits sv of None \<Rightarrow> quota_for sv u
      | Some r \<Rightarrow>
          if 0 < g then (let n = max_volume_gib (resolve_group_by_id r g) in if 0 < n then n else quota_for sv u)
          else quota_for sv u)"

definition volume_ns :: "'w vol_svc \<Rightarrow> int \<Rightarrow> string" where
  "volume_ns sv u = vs_ns_prefix sv @ ''user-'' @ dec u"

definition volume_pvc :: "int \<Rightarrow> string" where
  "volume_pvc i = ''vol-'' @ dec i"

definition vol_provision :: "'w vol_svc \<Rightarrow> vol_env \<Rightarrow> int \<Rightarrow> volume \<Rightarrow> 'w vol_world \<Rightarrow> 'w vol_world \<times> bool" where
  "vol_provision sv e u v w =
     (let ns = volume_ns sv u;
          w1 = (if ve_k8s e then w\<lparr>vw_pvcs := insert (ns, volume_pvc (vo_id v)) (vw_pvcs w)\<rparr> else w);
          (db, ok) = set_bound (ve_ok e) (vo_id v) (volume_pvc (vo_id v)) ns (if ve_k8s e then ''bound'' else ''failed'') (vw_db w1)
      in (w1\<lparr>vw_db := db\<rparr>, ok))"

text \<open>What is counted against the quota of a new volume.\<close>

definition counted :: "'w vol_svc \<Rightarrow> vol_oracle \<Rightarrow> int \<Rightarrow> int \<Rightarrow> volume_db \<Rightarrow> int" where
  "counted sv ok u g db =
     (if 0 < g then allocated_in_team ok u g db else allocated_gib ok u db + home_used_gib sv u)"

definition vol_affordable :: "'w vol_svc \<Rightarrow> int \<Rightarrow> int \<Rightarrow> int \<Rightarrow> 'w \<Rightarrow> 'w \<times> bool" where
  "vol_affordable sv u g gib wl =
     (case vs_charger sv of None \<Rightarrow> (wl, True)
      | Some C \<Rightarrow>
          if \<not> 0 < vs_price sv then (wl, True)
          else (let (wl', b) = ch_balance C u g wl in (wl', \<not> b < monthly_cost sv gib sdiv 30)))"

definition new_volume :: "string \<Rightarrow> int \<Rightarrow> int \<Rightarrow> int \<Rightarrow> volume" where
  "new_volume name u g gib =
     \<lparr>vo_id = 0, vo_name = name, vo_kind = ''personal'', vo_owner = Some u, vo_group = (if 0 < g then Some g else None),
      vo_size = gib, vo_pvc = [], vo_ns = [], vo_nfs_server = [], vo_nfs_path = [], vo_status = ''pending'',
      vo_billed = 0, vo_created = 0\<rparr>"

definition vol_create ::
  "'w vol_svc \<Rightarrow> vol_env \<Rightarrow> int \<Rightarrow> int \<Rightarrow> string \<Rightarrow> int \<Rightarrow> 'w vol_world \<Rightarrow> 'w vol_world \<times> (vol_error + int)" where
  "vol_create sv e u g name gib w =
     (if quota_for_team sv u g < counted sv (ve_ok e) u g (vw_db w) + gib then (w, Inl QuotaExceeded)
      else case vol_affordable sv u g gib (vw_wallet w) of
        (wl, False) \<Rightarrow> (w\<lparr>vw_wallet := wl\<rparr>, Inl InsufficientCredit)
      | (wl, True) \<Rightarrow>
          (let w1 = w\<lparr>vw_wallet := wl\<rparr>
           in case insert_volume (ve_ok e) (ve_now e) (new_volume name u g gib) (vw_db w1) of
                (db, None) \<Rightarrow> (w1\<lparr>vw_db := db\<rparr>, Inl VolDb)
              | (db, Some v) \<Rightarrow>
                  (case vol_provision sv e u v (w1\<lparr>vw_db := db\<rparr>) of
                     (w2, False) \<Rightarrow> (w2, Inl VolDb) | (w2, True) \<Rightarrow> (w2, Inr (vo_id v)))))"

record import_req =
  ir_name :: string
  ir_owner :: "int option"
  ir_group :: "int option"
  ir_server :: string
  ir_path :: string
  ir_size :: int

definition admin_import :: "'w vol_svc \<Rightarrow> vol_env \<Rightarrow> import_req \<Rightarrow> 'w vol_world \<Rightarrow> 'w vol_world \<times> (vol_error + int)" where
  "admin_import sv e r w =
     (if ir_owner r = None \<and> ir_group r = None then (w, Inl OwnerRequired)
      else (let v = \<lparr>vo_id = 0, vo_name = ir_name r, vo_kind = (if ir_group r \<noteq> None then ''group'' else ''personal''),
                     vo_owner = ir_owner r, vo_group = ir_group r, vo_size = (if ir_size r < 1 then 1 else ir_size r),
                     vo_pvc = [], vo_ns = [], vo_nfs_server = ir_server r, vo_nfs_path = ir_path r, vo_status = ''pending'',
                     vo_billed = 0, vo_created = 0\<rparr>
            in case insert_volume (ve_ok e) (ve_now e) v (vw_db w) of
                 (db, None) \<Rightarrow> (w\<lparr>vw_db := db\<rparr>, Inl VolDb)
               | (db, Some v') \<Rightarrow>
                   (let ns = (case ir_owner r of None \<Rightarrow> vs_ns_prefix sv @ ''system'' | Some u \<Rightarrow> volume_ns sv u);
                        name = volume_pvc (vo_id v');
                        w1 = w\<lparr>vw_db := db, vw_pvcs := (if ve_k8s e then insert (ns, name) (vw_pvcs w) else vw_pvcs w)\<rparr>;
                        (db2, ok) = set_bound (ve_ok e) (vo_id v') name ns (if ve_k8s e then ''bound'' else ''failed'') (vw_db w1)
                    in (w1\<lparr>vw_db := db2\<rparr>, if ok then Inr (vo_id v') else Inl VolDb))))"

record share_req =
  sq_target :: string
  sq_value :: string
  sq_perm :: string

definition resolve_user_id :: "vol_env \<Rightarrow> string \<Rightarrow> vol_error + int" where
  "resolve_user_id e name =
     (if \<not> ve_ok e VUser then Inl VolDb
      else case map_of (ve_users e) name of None \<Rightarrow> Inl VolNotFound | Some i \<Rightarrow> if i = 0 then Inl VolNotFound else Inr i)"

definition vol_share :: "vol_env \<Rightarrow> int \<Rightarrow> share_req \<Rightarrow> 'w vol_world \<Rightarrow> 'w vol_world \<times> vol_error option" where
  "vol_share e i r w =
     (let perm = (if sq_perm r = [] then ''ro'' else sq_perm r);
          put = (\<lambda>u g. let (db, ok) = add_share (ve_ok e) i u g perm (vw_db w)
                        in (w\<lparr>vw_db := db\<rparr>, if ok then None else Some VolDb))
      in if sq_target r = ''group''
         then (case parse_int64 (sq_value r) of None \<Rightarrow> (w, Some InvalidGroup) | Some g \<Rightarrow> put None (Some g))
         else (case resolve_user_id e (sq_value r) of Inl err \<Rightarrow> (w, Some err) | Inr u \<Rightarrow> put (Some u) None))"

definition set_volume_team ::
  "'w vol_svc \<Rightarrow> vol_env \<Rightarrow> int \<Rightarrow> int \<Rightarrow> int \<Rightarrow> 'w vol_world \<Rightarrow> 'w vol_world \<times> vol_error option" where
  "set_volume_team sv e u i g w =
     (case get_volume (ve_ok e) i (vw_db w) of Inl err \<Rightarrow> (w, Some err)
      | Inr v \<Rightarrow>
          if vo_owner v \<noteq> Some u then (w, Some VolNotFound)
          else if 0 < g \<and> quota_for_team sv u g < allocated_in_team (ve_ok e) u g (vw_db w) + vo_size v
          then (w, Some QuotaExceeded)
          else (let (db, ok) = set_volume_group (ve_ok e) i g (vw_db w)
                in (w\<lparr>vw_db := db\<rparr>, if ok then None else Some VolDb)))"

definition vol_delete :: "vol_env \<Rightarrow> int \<Rightarrow> int \<Rightarrow> 'w vol_world \<Rightarrow> 'w vol_world \<times> vol_error option" where
  "vol_delete e i u w =
     (case get_volume (ve_ok e) i (vw_db w) of Inl err \<Rightarrow> (w, Some err)
      | Inr v \<Rightarrow>
          if vo_owner v \<noteq> Some u then (w, Some VolNotFound)
          else (let w1 = (if vo_pvc v \<noteq> [] \<and> ve_k8s e
                          then w\<lparr>vw_pvcs := vw_pvcs w - {(vo_ns v, vo_pvc v)}\<rparr> else w);
                    (db, ok) = delete_volume_row (ve_ok e) i (vw_db w1)
                in (w1\<lparr>vw_db := db\<rparr>, if ok then None else Some VolDb)))"

section \<open>Requests\<close>

text \<open>The caller is the user the token names; sharing does not look at the caller. The body of a create
  request must have a name and a size other than 0 (\<open>binding:"required"\<close>), which lets negative sizes through.\<close>

definition scope_group :: "string \<Rightarrow> int" where
  "scope_group header =
     (if has_prefix ''group:'' header then parse_id (drop (length ''group:'') header) else 0)"

datatype vol_request =
    CreateVol string string int
  | ShareVol int share_req
  | TeamVol int int
  | DeleteVol int

definition vol_handle :: "'w vol_svc \<Rightarrow> vol_env \<Rightarrow> int \<Rightarrow> vol_request \<Rightarrow> 'w vol_world \<Rightarrow> 'w vol_world \<times> vol_error option" where
  "vol_handle sv e caller rq w =
     (case rq of
        CreateVol header name gib \<Rightarrow>
          if name = [] \<or> gib = 0 then (w, Some VolBody)
          else (case vol_create sv e caller (scope_group header) name gib w of (w', r) \<Rightarrow> (w', case r of Inl err \<Rightarrow> Some err | Inr _ \<Rightarrow> None))
      | ShareVol i r \<Rightarrow> vol_share e i r w
      | TeamVol i g \<Rightarrow> set_volume_team sv e caller i g w
      | DeleteVol i \<Rightarrow> vol_delete e i caller w)"

section \<open>The biller\<close>

definition storage_total :: "'w vol_svc \<Rightarrow> volume \<Rightarrow> time \<Rightarrow> int" where
  "storage_total sv v now =
     trunc (fdiv (fmul (fl (monthly_cost sv (vo_size v))) (dur_hours (now - vo_created v))) (fl 720))"

definition bill_volume :: "'w vol_svc \<Rightarrow> vol_env \<Rightarrow> 'w charger \<Rightarrow> volume \<Rightarrow> 'w vol_world \<Rightarrow> 'w vol_world" where
  "bill_volume sv e C v w =
     (case vo_owner v of None \<Rightarrow> w
      | Some u \<Rightarrow>
          if dur_hours (ve_now e - vo_created v) \<le> 0 then w
          else (let total = storage_total sv v (ve_now e); owed = total - vo_billed v
                in if owed \<le> 0 then w
                   else case ch_consume C u (case vo_group v of None \<Rightarrow> 0 | Some g \<Rightarrow> g) owed (volume_pvc (vo_id v)) (vw_wallet w) of
                          (wl, COk) \<Rightarrow> w\<lparr>vw_wallet := wl, vw_db := fst (set_volume_billed (ve_ok e) (vo_id v) total (vw_db w))\<rparr>
                        | (wl, _) \<Rightarrow> w\<lparr>vw_wallet := wl\<rparr>))"

definition bill_storage_once :: "'w vol_svc \<Rightarrow> vol_env \<Rightarrow> 'w vol_world \<Rightarrow> 'w vol_world" where
  "bill_storage_once sv e w =
     (case vs_charger sv of None \<Rightarrow> w
      | Some C \<Rightarrow>
          if vs_price sv \<le> 0 then w
          else case list_billable (ve_ok e) (vw_db w) of None \<Rightarrow> w
               | Some vs \<Rightarrow> fold (bill_volume sv e C) vs w)"

section \<open>Sharing\<close>

text \<open>Every row of the share table names one user or one team.\<close>

definition shares_ok :: "volume_db \<Rightarrow> bool" where
  "shares_ok db \<longleftrightarrow> (\<forall>h \<in> set (vd_shares db). (sh_user h = None) \<noteq> (sh_group h = None))"

lemma row_of_view: "row_of vr_id i (map row_view vs) = map_option row_view (row_of vo_id i vs)"
  by (induction vs) (auto simp: row_view_def row_of_def)

lemma tables_of_simps [simp]:
  "vt_shares (tables_of ms ds db) = vd_shares db" "vt_members (tables_of ms ds db) = ms"
  "vt_volumes (tables_of ms ds db) = map row_view (vd_volumes db)"
  by (simp_all add: tables_of_def)

lemma add_share_done:
  assumes "add_share ok i u g perm db = (db', True)"
  shows "vd_volumes db' = vd_volumes db"
    and "u = Some x \<Longrightarrow> vd_shares db' = filter (\<lambda>h. \<not> (sh_volume h = i \<and> sh_user h = Some x)) (vd_shares db) @
      [\<lparr>sh_volume = i, sh_user = Some x, sh_group = g, sh_perm = perm\<rparr>]"
    and "u = None \<Longrightarrow> g = Some y \<Longrightarrow>
      vd_shares db' = filter (\<lambda>h. \<not> (sh_volume h = i \<and> sh_group h = Some y)) (vd_shares db) @
      [\<lparr>sh_volume = i, sh_user = None, sh_group = Some y, sh_perm = perm\<rparr>]"
  using assms by (auto simp: add_share_def Let_def split: if_splits)

lemma add_share_shares_ok:
  assumes "shares_ok db" "(u = None) \<noteq> (g = None)"
  shows "shares_ok (fst (add_share ok i u g perm db))"
  using assms by (auto simp: add_share_def Let_def shares_ok_def)

text \<open>What the shares of a table say about a user, teams and the user's own apart.\<close>

definition shared_to :: "volume_db \<Rightarrow> int \<Rightarrow> int \<Rightarrow> string \<Rightarrow> bool" where
  "shared_to db i u p \<longleftrightarrow> (\<exists>h \<in> set (vd_shares db). sh_volume h = i \<and> sh_user h = Some u \<and> sh_perm h = p)"

definition team_shared :: "(int \<times> int) list \<Rightarrow> volume_db \<Rightarrow> int \<Rightarrow> int \<Rightarrow> string \<Rightarrow> bool" where
  "team_shared ms db i u p \<longleftrightarrow>
     (\<exists>h \<in> set (vd_shares db). \<exists>g. sh_volume h = i \<and> sh_group h = Some g \<and> (u, g) \<in> set ms \<and> sh_perm h = p)"

lemma share_perms_split:
  "p \<in> set (share_perms (tables_of ms ds db) i u) \<longleftrightarrow> shared_to db i u p \<or> team_shared ms db i u p"
  by (auto simp: share_perms_set shared_to_def team_shared_def)

lemma user_share_effect:
  assumes "add_share ok i (Some u) None perm db = (db', True)" "shares_ok db"
  shows "shared_to db' j x p \<longleftrightarrow> (if j = i \<and> x = u then p = perm else shared_to db j x p)"
    and "team_shared ms db' j x p \<longleftrightarrow> team_shared ms db j x p"
proof -
  note s = add_share_done(2) [OF assms(1) refl]
  show "shared_to db' j x p \<longleftrightarrow> (if j = i \<and> x = u then p = perm else shared_to db j x p)"
    by (auto simp: shared_to_def s)
  show "team_shared ms db' j x p \<longleftrightarrow> team_shared ms db j x p"
    using assms(2) by (force simp: team_shared_def s shares_ok_def)
qed

definition owns :: "volume_db \<Rightarrow> int \<Rightarrow> int \<Rightarrow> bool" where
  "owns db i u \<longleftrightarrow> (\<exists>v. row_of vo_id i (vd_volumes db) = Some v \<and> vo_owner v = Some u)"

lemma may_by_shares:
  "may_write (tables_of ms ds db) i u \<longleftrightarrow> owns db i u \<or> shared_to db i u ''rw'' \<or> team_shared ms db i u ''rw''"
  "may_read (tables_of ms ds db) i u \<longleftrightarrow> owns db i u \<or> (\<exists>p. shared_to db i u p \<or> team_shared ms db i u p)"
proof -
  have o: "(\<exists>v. row_of vr_id i (vt_volumes (tables_of ms ds db)) = Some v \<and> vr_owner v = Some u) \<longleftrightarrow> owns db i u"
    by (auto simp: owns_def row_of_view row_view_def)
  show "may_write (tables_of ms ds db) i u \<longleftrightarrow> owns db i u \<or> shared_to db i u ''rw'' \<or> team_shared ms db i u ''rw''"
    unfolding may_write_def o by (auto simp: shared_to_def team_shared_def)
  show "may_read (tables_of ms ds db) i u \<longleftrightarrow> owns db i u \<or> (\<exists>p. shared_to db i u p \<or> team_shared ms db i u p)"
    unfolding may_read_def o by (auto simp: shared_to_def team_shared_def)
qed

lemma vol_share_user:
  assumes "vol_share e i r w = (w', None)" "sq_target r \<noteq> ''group''" "resolve_user_id e (sq_value r) = Inr u"
  shows "add_share (ve_ok e) i (Some u) None (if sq_perm r = [] then ''ro'' else sq_perm r) (vw_db w) = (vw_db w', True)"
  using assms by (auto simp: vol_share_def Let_def split: prod.splits if_splits)

text \<open>Sharing a volume with a user does what it says, downgrades included: afterwards that user may read
  it, and may write it exactly when the permission given is rw, the user owns it or a team of the user
  has it rw; what any other user may do with any volume, and what anybody may do with another volume, is
  as before.\<close>

theorem share_takes_effect:
  assumes "vol_share e i r w = (w', None)" "sq_target r \<noteq> ''group''" "resolve_user_id e (sq_value r) = Inr u"
    and "shares_ok (vw_db w)"
  shows "may_read (tables_of ms ds (vw_db w')) i u \<and>
    (may_write (tables_of ms ds (vw_db w')) i u \<longleftrightarrow>
      sq_perm r = ''rw'' \<or> owns (vw_db w) i u \<or> team_shared ms (vw_db w) i u ''rw'') \<and>
    ((j, x) \<noteq> (i, u) \<longrightarrow>
      may_read (tables_of ms ds (vw_db w')) j x = may_read (tables_of ms ds (vw_db w)) j x \<and>
      may_write (tables_of ms ds (vw_db w')) j x = may_write (tables_of ms ds (vw_db w)) j x) \<and>
    shares_ok (vw_db w')"
proof -
  note a = vol_share_user [OF assms(1-3)]
  note eff = user_share_effect [OF a assms(4)]
  have own: "owns (vw_db w') j x \<longleftrightarrow> owns (vw_db w) j x" for j x
    by (simp add: owns_def add_share_done(1) [OF a])
  have "shares_ok (vw_db w')" using add_share_shares_ok [OF assms(4), of "Some u" None] a by (metis fst_conv option.distinct(1))
  then show ?thesis by (auto simp: may_by_shares own eff)
qed

text \<open>Sharing does not ask who is asking: any user can give themselves any provisioned volume read-write,
  whoever owns it, by sharing it with their own name.\<close>

theorem anyone_can_take_a_volume:
  assumes "row_of vo_id i (vd_volumes (vw_db w)) = Some v" "vo_pvc v \<noteq> []" "vo_owner v \<noteq> Some caller"
    and "map_of (ve_users e) name = Some caller" "caller \<noteq> 0" "\<forall>st. ve_ok e st"
  shows "\<exists>w'. vol_handle sv e caller (ShareVol i \<lparr>sq_target = ''user'', sq_value = name, sq_perm = ''rw''\<rparr>) w = (w', None) \<and>
    volume_access (tables_of ms ds (vw_db w')) i caller =
      Some \<lparr>va_pvc = vo_pvc v, va_ns = vo_ns v, va_size = vo_size v, va_perm = ''rw''\<rparr>"
proof -
  let ?r = "\<lparr>sq_target = ''user'', sq_value = name, sq_perm = ''rw''\<rparr>"
  have u: "resolve_user_id e name = Inr caller" using assms(4-6) by (simp add: resolve_user_id_def)
  obtain w' where w': "vol_share e i ?r w = (w', None)"
    using assms(6) u by (simp add: vol_share_def add_share_def Let_def)
  note a = vol_share_user [OF w', simplified, OF u]
  have "''rw'' \<in> set (share_perms (tables_of ms ds (vw_db w')) i caller)"
    by (simp add: share_perms_split shared_to_def add_share_done(2) [OF a refl])
  moreover have "row_of vr_id i (vt_volumes (tables_of ms ds (vw_db w'))) = Some (row_view v)"
    using assms(1) add_share_done(1) [OF a] by (simp add: row_of_view)
  ultimately have "volume_access (tables_of ms ds (vw_db w')) i caller =
      Some \<lparr>va_pvc = vo_pvc v, va_ns = vo_ns v, va_size = vo_size v, va_perm = ''rw''\<rparr>"
    using assms(2,3) by (auto simp: volume_access_def row_view_def Let_def)
  then show ?thesis using w' by (simp add: vol_handle_def)
qed

section \<open>Quotas\<close>

lemma new_volume_simps [simp]:
  "vo_owner (new_volume n u g k) = Some u" "vo_size (new_volume n u g k) = k"
  "vo_group (new_volume n u g k) = (if 0 < g then Some g else None)"
  by (simp_all add: new_volume_def)

lemma filter_upd_row:
  assumes "\<And>v. P (f v) = P v" "\<And>v. h (f v) = h v" "\<And>v. key (f v) = key v"
  shows "sum_list (map h (filter P (upd_row key i f vs))) = sum_list (map (h :: 'a \<Rightarrow> int) (filter P vs))"
  using assms by (induction vs) (auto simp: upd_row_def)

lemma set_bound_sums:
  assumes "set_bound ok i pvc ns st db = (db', b)"
  shows "allocated_gib ok' u db' = allocated_gib ok' u db" "allocated_in_team ok' u g db' = allocated_in_team ok' u g db"
  using assms
  by (auto simp: set_bound_def upd_volume_def allocated_gib_def allocated_in_team_def intro!: filter_upd_row split: if_splits)

lemma provision_sums:
  assumes "vol_provision sv e u v w = (w', b)"
  shows "allocated_gib ok' x (vw_db w') = allocated_gib ok' x (vw_db w)"
    "allocated_in_team ok' x g (vw_db w') = allocated_in_team ok' x g (vw_db w)"
proof -
  let ?st = "if ve_k8s e then ''bound'' else ''failed''"
  obtain db ok where s: "set_bound (ve_ok e) (vo_id v) (volume_pvc (vo_id v)) (volume_ns sv u) ?st (vw_db w) = (db, ok)"
    by fastforce
  with assms have "vw_db w' = db" by (auto simp: vol_provision_def Let_def split: if_splits)
  then show "allocated_gib ok' x (vw_db w') = allocated_gib ok' x (vw_db w)"
    "allocated_in_team ok' x g (vw_db w') = allocated_in_team ok' x g (vw_db w)"
    using set_bound_sums [OF s] by simp_all
qed

lemma insert_sums:
  assumes "insert_volume ok now (new_volume n u g k) db = (db', Some v)" "ok VSum"
  shows "allocated_gib ok u db' = allocated_gib ok u db + k"
    "0 < g \<Longrightarrow> allocated_in_team ok u g db' = allocated_in_team ok u g db + k"
  using assms by (auto simp: insert_volume_def Let_def allocated_gib_def allocated_in_team_def split: if_splits)

lemma vol_create_stages:
  assumes "vol_create sv e u g name k w = (w', Inr i)"
  obtains db v where "insert_volume (ve_ok e) (ve_now e) (new_volume name u g k) (vw_db w) = (db, Some v)"
    "vo_id v = i" "counted sv (ve_ok e) u g (vw_db w) + k \<le> quota_for_team sv u g"
    "\<And>ok' x. allocated_gib ok' x (vw_db w') = allocated_gib ok' x db"
    "\<And>ok' x h. allocated_in_team ok' x h (vw_db w') = allocated_in_team ok' x h db"
proof -
  from assms obtain wl where q: "counted sv (ve_ok e) u g (vw_db w) + k \<le> quota_for_team sv u g"
    and a: "vol_affordable sv u g k (vw_wallet w) = (wl, True)"
    by (auto simp: vol_create_def Let_def split: if_splits prod.splits bool.splits)
  obtain db r where ins: "insert_volume (ve_ok e) (ve_now e) (new_volume name u g k) (vw_db w) = (db, r)" by fastforce
  with assms q a obtain v where r: "r = Some v" by (cases r) (auto simp: vol_create_def Let_def)
  obtain w2 b where p: "vol_provision sv e u v (w\<lparr>vw_wallet := wl, vw_db := db\<rparr>) = (w2, b)" by fastforce
  with assms q a ins r have "b" "w2 = w'" "vo_id v = i" by (auto simp: vol_create_def Let_def split: if_splits bool.splits)
  with that [of db v] ins r q provision_sums [OF p] show ?thesis by simp
qed

text \<open>Creating a volume keeps the quota it is counted against: a volume made for a team leaves what the
  user has in that team within the quota of the team, one made without a team leaves all of the user's
  volumes and session homes within the quota of the user; a refused request creates nothing.\<close>

theorem created_volume_within_quota:
  assumes "vol_create sv e u g name k w = (w', r)" "ve_ok e VSum"
  shows "case r of
      Inr i \<Rightarrow> (if 0 < g then allocated_in_team (ve_ok e) u g (vw_db w') \<le> quota_for_team sv u g
               else allocated_gib (ve_ok e) u (vw_db w') + home_used_gib sv u \<le> quota_for sv u)
    | Inl err \<Rightarrow> err \<in> {QuotaExceeded, InsufficientCredit} \<longrightarrow> vw_db w' = vw_db w \<and> vw_pvcs w' = vw_pvcs w"
proof (cases r)
  case (Inl err)
  then show ?thesis
    using assms(1) by (auto simp: vol_create_def Let_def split: if_splits prod.splits bool.splits option.splits)
next
  case (Inr i)
  from vol_create_stages [OF assms(1) [unfolded Inr]] obtain db v
    where s: "insert_volume (ve_ok e) (ve_now e) (new_volume name u g k) (vw_db w) = (db, Some v)"
      "counted sv (ve_ok e) u g (vw_db w) + k \<le> quota_for_team sv u g"
      "\<And>ok' x. allocated_gib ok' x (vw_db w') = allocated_gib ok' x db"
      "\<And>ok' x h. allocated_in_team ok' x h (vw_db w') = allocated_in_team ok' x h db" by metis
  from insert_sums [OF s(1) assms(2)] s(2-4) Inr show ?thesis
    by (auto simp: counted_def quota_for_team_def split: option.splits)
qed

lemma set_volume_group_sums:
  assumes "set_volume_group ok i g db = (db', b)"
  shows "allocated_gib ok' u db' = allocated_gib ok' u db"
  using assms
  by (auto simp: set_volume_group_def upd_volume_def allocated_gib_def intro!: filter_upd_row split: if_splits)

lemma set_bound_owner:
  "map_option vo_owner (row_of vo_id j (vd_volumes (fst (set_bound ok i pvc ns st db)))) =
   map_option vo_owner (row_of vo_id j (vd_volumes db))"
  by (simp add: set_bound_def upd_volume_def row_of_upd_row option.map_comp comp_def)

lemma provision_owner:
  assumes "vol_provision sv e u v w = (w', b)"
  shows "map_option vo_owner (row_of vo_id j (vd_volumes (vw_db w'))) = map_option vo_owner (row_of vo_id j (vd_volumes (vw_db w)))"
proof -
  let ?st = "if ve_k8s e then ''bound'' else ''failed''"
  have "vw_db w' = fst (set_bound (ve_ok e) (vo_id v) (volume_pvc (vo_id v)) (volume_ns sv u) ?st (vw_db w))"
    using assms by (auto simp: vol_provision_def Let_def split: prod.splits if_splits)
  then show ?thesis using set_bound_owner by simp
qed

text \<open>Identifiers are handed out in order.\<close>

definition fresh_ids :: "volume_db \<Rightarrow> bool" where
  "fresh_ids db \<longleftrightarrow> (\<forall>v \<in> set (vd_volumes db). vo_id v < vd_next db)"

lemma insert_row:
  assumes "insert_volume ok now (new_volume n u g k) db = (db', Some v)" "fresh_ids db"
  shows "row_of vo_id (vo_id v) (vd_volumes db') = Some v" "vo_owner v = Some u"
proof -
  from assms have v: "vo_id v = vd_next db" "vo_owner v = Some u" and db': "vd_volumes db' = vd_volumes db @ [v]"
    by (auto simp: insert_volume_def Let_def split: if_splits)
  then have "row_of vo_id (vo_id v) (vd_volumes db) = None"
    using assms(2) by (auto simp: row_of_None fresh_ids_def)
  then show "row_of vo_id (vo_id v) (vd_volumes db') = Some v" by (simp add: db' row_of_append)
  show "vo_owner v = Some u" by fact
qed

text \<open>The quota of a user can be gone around: a volume that is refused to the user can be made for any team
  whose quota has room (nothing asks whether the user is in the team) and then be taken out of the team,
  which is not checked; the user then holds it, above the quota.\<close>

theorem team_detour_beats_quota:
  assumes "vol_create sv e u g name k w = (w1, Inr i)" "0 < g" "\<forall>st. ve_ok e st" "fresh_ids (vw_db w)"
    and over: "quota_for sv u < allocated_gib (ve_ok e) u (vw_db w) + home_used_gib sv u + k"
  shows "vol_create sv e u 0 name k w = (w, Inl QuotaExceeded) \<and>
    (\<exists>w2. set_volume_team sv e u i 0 w1 = (w2, None) \<and>
      quota_for sv u < allocated_gib (ve_ok e) u (vw_db w2) + home_used_gib sv u)"
proof
  show "vol_create sv e u 0 name k w = (w, Inl QuotaExceeded)"
    using over by (simp add: vol_create_def counted_def quota_for_team_def split: option.split)
  obtain wl b where a: "vol_affordable sv u g k (vw_wallet w) = (wl, b)" by fastforce
  obtain db r where ins: "insert_volume (ve_ok e) (ve_now e) (new_volume name u g k) (vw_db w) = (db, r)" by fastforce
  with assms(1) a obtain v where r: "r = Some v"
    by (cases r) (auto simp: vol_create_def Let_def split: if_splits bool.splits)
  obtain wp bp where p: "vol_provision sv e u v (w\<lparr>vw_wallet := wl, vw_db := db\<rparr>) = (wp, bp)" by fastforce
  with assms(1) a ins r have "wp = w1" "vo_id v = i"
    by (auto simp: vol_create_def Let_def split: if_splits bool.splits)
  note v = insert_row [OF ins [unfolded r] assms(4)] and sums = insert_sums [OF ins [unfolded r]] provision_sums [OF p]
  have "map_option vo_owner (row_of vo_id i (vd_volumes (vw_db w1))) = Some (Some u)"
    using provision_owner [OF p, of i] v \<open>wp = w1\<close> \<open>vo_id v = i\<close> by simp
  then obtain v1 where row: "row_of vo_id i (vd_volumes (vw_db w1)) = Some v1" "vo_owner v1 = Some u" by auto
  obtain db2 where g: "set_volume_group (ve_ok e) i 0 (vw_db w1) = (db2, True)"
    using assms(3) by (simp add: set_volume_group_def)
  then have "set_volume_team sv e u i 0 w1 = (w1\<lparr>vw_db := db2\<rparr>, None)"
    using row assms(3) by (simp add: set_volume_team_def get_volume_def)
  moreover have "allocated_gib (ve_ok e) u db2 = allocated_gib (ve_ok e) u (vw_db w) + k"
    using set_volume_group_sums [OF g] sums assms(3) \<open>wp = w1\<close> by simp
  ultimately show "\<exists>w2. set_volume_team sv e u i 0 w1 = (w2, None) \<and>
      quota_for sv u < allocated_gib (ve_ok e) u (vw_db w2) + home_used_gib sv u" using over by simp
qed

lemma vol_create_free:
  assumes "vs_charger sv = None" "\<forall>st. ve_ok e st" "counted sv (ve_ok e) u g (vw_db w) + k \<le> quota_for_team sv u g"
    "fresh_ids (vw_db w)"
  shows "\<exists>w'. vol_create sv e u g name k w = (w', Inr (vd_next (vw_db w))) \<and> fresh_ids (vw_db w') \<and>
    allocated_gib (ve_ok e) u (vw_db w') = allocated_gib (ve_ok e) u (vw_db w) + k \<and>
    (ve_k8s e \<longrightarrow> (\<exists>v \<in> set (vd_volumes (vw_db w')). vo_owner v = Some u \<and> vo_size v = k \<and> vo_status v = ''bound''))"
proof -
  let ?v = "(new_volume name u g k)\<lparr>vo_id := vd_next (vw_db w), vo_created := ve_now e\<rparr>"
  have ins: "insert_volume (ve_ok e) (ve_now e) (new_volume name u g k) (vw_db w) =
      ((vw_db w)\<lparr>vd_volumes := vd_volumes (vw_db w) @ [?v], vd_next := vd_next (vw_db w) + 1\<rparr>, Some ?v)"
    using assms(2) by (simp add: insert_volume_def Let_def)
  have old: "upd_row vo_id (vd_next (vw_db w)) f (vd_volumes (vw_db w)) = vd_volumes (vw_db w)" for f
    using assms(4) by (auto simp: upd_row_def upd_where_def fresh_ids_def intro!: map_idI)
  have upd: "upd_row vo_id (vo_id ?v) f (vd_volumes (vw_db w) @ [?v]) = vd_volumes (vw_db w) @ [f ?v]" for f
    using old by (simp add: upd_row_append)
  from assms(1-3) ins show ?thesis
    using assms(4) upd
    by (auto simp: vol_create_def vol_affordable_def vol_provision_def set_bound_def upd_volume_def allocated_gib_def Let_def
        fresh_ids_def new_volume_def)
qed

text \<open>The size of a volume need not be positive: a request for a negative size is accepted, its row is kept
  although the cluster refuses the claim, and the sum the next requests are judged by is lower by that
  much; the user then gets a volume of any size, whatever their quota.\<close>

theorem negative_size_beats_quota:
  assumes "vs_charger sv = None" "\<forall>st. ve_ok e st" "fresh_ids (vw_db w)" "0 < n" "a \<noteq> []" "b \<noteq> []" "0 < k"
    and "allocated_gib (ve_ok e) u (vw_db w) + home_used_gib sv u \<le> quota_for sv u"
    and "allocated_gib (ve_ok e) u (vw_db w) + home_used_gib sv u + k - n \<le> quota_for sv u" "ve_k8s e"
  shows "\<exists>w1 w2. vol_handle sv (e\<lparr>ve_k8s := False\<rparr>) u (CreateVol [] a (- n)) w = (w1, None) \<and>
    vol_handle sv e u (CreateVol [] b k) w1 = (w2, None) \<and>
    (\<exists>v \<in> set (vd_volumes (vw_db w2)). vo_owner v = Some u \<and> vo_size v = k \<and> vo_status v = ''bound'')"
proof -
  let ?e = "e\<lparr>ve_k8s := False\<rparr>"
  have own: "scope_group [] = 0" by (simp add: scope_group_def has_prefix_def)
  have q: "quota_for_team sv u 0 = quota_for sv u" by (simp add: quota_for_team_def split: option.split)
  obtain w1 where w1: "vol_create sv ?e u 0 a (- n) w = (w1, Inr (vd_next (vw_db w)))" "fresh_ids (vw_db w1)"
    "allocated_gib (ve_ok e) u (vw_db w1) = allocated_gib (ve_ok e) u (vw_db w) - n"
    using vol_create_free [of sv ?e u 0 w "- n" a] assms by (auto simp: q counted_def)
  obtain w2 where "vol_create sv e u 0 b k w1 = (w2, Inr (vd_next (vw_db w1)))"
    "\<exists>v \<in> set (vd_volumes (vw_db w2)). vo_owner v = Some u \<and> vo_size v = k \<and> vo_status v = ''bound''"
    using vol_create_free [of sv e u 0 w1 k b] assms w1 by (auto simp: q counted_def)
  with w1(1) show ?thesis using assms(4-7) by (auto simp: vol_handle_def own)
qed

section \<open>Charges\<close>

definition vol_billed_of :: "volume_db \<Rightarrow> int \<Rightarrow> int" where
  "vol_billed_of db i = (case row_of vo_id i (vd_volumes db) of None \<Rightarrow> 0 | Some v \<Rightarrow> vo_billed v)"

definition volumes_current :: "volume list \<Rightarrow> volume_db \<Rightarrow> bool" where
  "volumes_current vs db \<longleftrightarrow> (\<forall>v \<in> set vs. row_of vo_id (vo_id v) (vd_volumes db) = Some v)"

lemma volume_pvc_inj [simp]: "volume_pvc i = volume_pvc j \<longleftrightarrow> i = j"
  by (simp add: volume_pvc_def)

context charging
begin

definition vol_gap :: "'w vol_world \<Rightarrow> int \<Rightarrow> int" where
  "vol_gap w i = acct (vw_wallet w) (volume_pvc i) - vol_billed_of (vw_db w) i"

lemma bill_volume_gap:
  assumes "row_of vo_id (vo_id v) (vd_volumes (vw_db w)) = Some v" "ve_ok e (VBilled (vo_id v))"
  shows "vol_gap (bill_volume sv e C v w) i = vol_gap w i"
proof (cases "vo_owner v")
  case (Some u)
  let ?total = "storage_total sv v (ve_now e)"
  let ?g = "case vo_group v of None \<Rightarrow> 0 | Some g \<Rightarrow> g"
  obtain wl c where c: "ch_consume C u ?g (?total - vo_billed v) (volume_pvc (vo_id v)) (vw_wallet w) = (wl, c)"
    by fastforce
  show ?thesis
    using assms Some c consume_account [OF c, of "volume_pvc i"]
    by (cases c) (auto simp: bill_volume_def vol_gap_def vol_billed_of_def Let_def set_volume_billed_def upd_volume_def
        row_of_upd_row)
qed (simp add: bill_volume_def)

lemma bill_volume_other:
  "vo_id v \<noteq> j \<Longrightarrow> row_of vo_id j (vd_volumes (vw_db (bill_volume sv e C v w))) = row_of vo_id j (vd_volumes (vw_db w))"
  by (auto simp: bill_volume_def Let_def set_volume_billed_def upd_volume_def row_of_upd_row
      split: option.split prod.split charge.split)

lemma bill_volumes_gap:
  assumes "distinct (map vo_id vs)" "volumes_current vs (vw_db w)" "\<And>i. ve_ok e (VBilled i)"
  shows "vol_gap (fold (bill_volume sv e C) vs w) i = vol_gap w i"
  using assms(1,2)
proof (induction vs arbitrary: w)
  case (Cons v vs)
  have "volumes_current vs (vw_db (bill_volume sv e C v w))"
    using Cons.prems bill_volume_other [of v _ sv e w] by (force simp: volumes_current_def)
  with Cons show ?case
    using bill_volume_gap [of v w e sv i] assms(3) by (simp add: volumes_current_def)
qed simp

lemma bill_volume_ids: "map vo_id (vd_volumes (vw_db (bill_volume sv e C v w))) = map vo_id (vd_volumes (vw_db w))"
  by (auto simp: bill_volume_def Let_def set_volume_billed_def upd_volume_def keys_upd_row
      split: option.split prod.split charge.split)

lemma bill_volumes_ids: "map vo_id (vd_volumes (vw_db (fold (bill_volume sv e C) vs w))) = map vo_id (vd_volumes (vw_db w))"
  by (induction vs arbitrary: w) (simp_all add: bill_volume_ids)

lemma bill_storage_gap:
  assumes "vs_charger sv = Some C" "keys_distinct vo_id (vd_volumes (vw_db w))" "\<And>i. ve_ok e (VBilled i)"
  shows "vol_gap (bill_storage_once sv e w) i = vol_gap w i"
    and "keys_distinct vo_id (vd_volumes (vw_db (bill_storage_once sv e w)))"
proof -
  let ?vs = "filter (\<lambda>v. vo_status v = ''bound'' \<and> vo_owner v \<noteq> None) (vd_volumes (vw_db w))"
  have d: "distinct (map vo_id ?vs)" and c: "volumes_current ?vs (vw_db w)"
    using assms(2) row_of_member [of vo_id "vd_volumes (vw_db w)"]
    by (auto simp: keys_distinct_def distinct_map_filter volumes_current_def)
  show "vol_gap (bill_storage_once sv e w) i = vol_gap w i"
    using bill_volumes_gap [OF d c assms(3), of sv i] assms(1)
    by (auto simp: bill_storage_once_def list_billable_def split: option.splits if_splits)
  show "keys_distinct vo_id (vd_volumes (vw_db (bill_storage_once sv e w)))"
    using assms(1,2) by (auto simp: bill_storage_once_def keys_distinct_def bill_volumes_ids split: option.split)
qed

lemma bill_storage_ticks:
  assumes "vs_charger sv = Some C" "keys_distinct vo_id (vd_volumes (vw_db w))" "\<forall>e \<in> set es. \<forall>i. ve_ok e (VBilled i)"
  shows "vol_gap (fold (bill_storage_once sv) es w) i = vol_gap w i"
  using assms(2,3)
proof (induction es arbitrary: w)
  case (Cons e es)
  then show ?case using bill_storage_gap [OF assms(1), of w e] by simp
qed simp

end

lemma bill_volume_billed:
  assumes "vol_billed_of (vw_db w) (vo_id v) = vo_billed v"
  shows "vol_billed_of (vw_db (bill_volume sv e C v w)) (vo_id v) \<in> {vo_billed v, max (vo_billed v) (storage_total sv v (ve_now e))}"
  using assms
  by (auto simp: bill_volume_def Let_def vol_billed_of_def set_volume_billed_def upd_volume_def row_of_upd_row
      split: option.splits prod.splits charge.splits)

text \<open>C24: Volume storage is charged once for every credit billed: over any number of ticks of the biller what the
  ledger says was spent under a volume grows by exactly what the volume's row says was billed, as long
  as the statements recording it go through, whatever the wallets can pay and whatever else fails.\<close>

theorem volume_charges_match_records:
  assumes "vs_charger sv = Some (wallet_charger dbs ws)" "keys_distinct vo_id (vd_volumes (vw_db w))"
    and "\<forall>e \<in> set es. \<forall>i. ve_ok e (VBilled i)"
  shows "spent (vw_wallet (fold (bill_storage_once sv) es w)) (volume_pvc i) - spent (vw_wallet w) (volume_pvc i) =
      vol_billed_of (vw_db (fold (bill_storage_once sv) es w)) i - vol_billed_of (vw_db w) i"
  using charging.bill_storage_ticks [OF wc.charging_axioms assms, of i]
  by (simp add: charging.vol_gap_def [OF wc.charging_axioms])

section \<open>Samples\<close>

definition ann_volume :: volume where
  "ann_volume = \<lparr>vo_id = 1, vo_name = ''data'', vo_kind = ''personal'', vo_owner = Some 1, vo_group = Some 1, vo_size = 100,
     vo_pvc = ''vol-1'', vo_ns = ''giosk-user-1'', vo_nfs_server = [], vo_nfs_path = [], vo_status = ''bound'', vo_billed = 0,
     vo_created = 0\<rparr>"

definition vol_sample :: "'w \<Rightarrow> 'w vol_world" where
  "vol_sample wl = \<lparr>vw_db = \<lparr>vd_volumes = [ann_volume], vd_shares = [], vd_next = 2\<rparr>,
     vw_pvcs = {(''giosk-user-1'', ''vol-1'')}, vw_wallet = wl\<rparr>"

definition vol_env_at :: "time \<Rightarrow> vol_env" where
  "vol_env_at t = \<lparr>ve_ok = (\<lambda>_. True), ve_k8s = True, ve_now = t, ve_users = [(''ann'', 1), (''bob'', 2)]\<rparr>"

definition vol_limits :: resolver where
  "vol_limits = \<lparr>r_user = (\<lambda>_. Some (no_limits\<lparr>l_volume := Some 50\<rparr>)), r_group = (\<lambda>_. Some (no_limits\<lparr>l_volume := Some 500\<rparr>)),
     r_org = (\<lambda>_. None), h_group_of_user = (\<lambda>_. None), h_org_of_user = (\<lambda>_. None), h_org_of_group = (\<lambda>_. None),
     r_global = None\<rparr>"

definition vol_svc_with :: "'w charger option \<Rightarrow> 'w vol_svc" where
  "vol_svc_with C = \<lparr>vs_ns_prefix = ''giosk-'', vs_total_gib = 300, vs_limits = Some vol_limits, vs_charger = C, vs_price = 7,
     vs_homes = None\<rparr>"

lemmas vol_sample_simps = vol_sample_def vol_env_at_def vol_svc_with_def ann_volume_def

lemma vol_quotas: "quota_for (vol_svc_with C) u = 50" "0 < g \<Longrightarrow> quota_for_team (vol_svc_with C) u g = 500"
  by (simp_all add: quota_for_def quota_for_team_def vol_svc_with_def vol_limits_def resolve_def layers_def no_limits_def
      global_as_limits_def global_def zero_resolved_def resolve_group_by_id_def resolve_group_def resolve_org_def
      apply_limits_def over_def Let_def)

theorem share_takes_effect_witness:
  "\<exists>w'. vol_share (vol_env_at 0) 1 \<lparr>sq_target = ''user'', sq_value = ''bob'', sq_perm = ''ro''\<rparr> (vol_sample ()) = (w', None) \<and>
    may_read (tables_of [] [] (vw_db w')) 1 2 \<and> \<not> may_write (tables_of [] [] (vw_db w')) 1 2"
proof -
  let ?r = "\<lparr>sq_target = ''user'', sq_value = ''bob'', sq_perm = ''ro''\<rparr>"
  have u: "resolve_user_id (vol_env_at 0) ''bob'' = Inr 2" by (simp add: resolve_user_id_def vol_env_at_def)
  then obtain w' where w': "vol_share (vol_env_at 0) 1 ?r (vol_sample ()) = (w', None)"
    by (simp add: vol_share_def add_share_def vol_env_at_def Let_def)
  have ok: "shares_ok (vw_db (vol_sample ()))" by (simp add: shares_ok_def vol_sample_def)
  have "\<not> owns (vw_db (vol_sample ())) 1 2" "\<not> team_shared [] (vw_db (vol_sample ())) 1 2 ''rw''"
    by (simp_all add: owns_def team_shared_def vol_sample_simps row_of_def)
  then show ?thesis using share_takes_effect [OF w' _ _ ok, of 2 "[]" "[]" 1 2] u w' by auto
qed

theorem anyone_can_take_a_volume_witness:
  "\<exists>w'. vol_handle (vol_svc_with None) (vol_env_at 0) 2
      (ShareVol 1 \<lparr>sq_target = ''user'', sq_value = ''bob'', sq_perm = ''rw''\<rparr>) (vol_sample ()) = (w', None) \<and>
    volume_access (tables_of [] [] (vw_db w')) 1 2 =
      Some \<lparr>va_pvc = ''vol-1'', va_ns = ''giosk-user-1'', va_size = 100, va_perm = ''rw''\<rparr>"
  using anyone_can_take_a_volume [of 1 "vol_sample ()" ann_volume 2 "vol_env_at 0" "''bob''" "vol_svc_with None" "[]" "[]"]
  by (simp add: vol_sample_simps row_of_def)

lemma bob_creates:
  "\<exists>w'. vol_create (vol_svc_with None) (vol_env_at 0) 2 9 ''d'' 100 (vol_sample ()) = (w', Inr 2)"
  using vol_quotas(2) [where C = "None :: unit charger option" and g = 9 and u = 2]
  by (simp add: vol_create_def counted_def allocated_in_team_def vol_affordable_def insert_volume_def vol_provision_def
      set_bound_def vol_sample_simps Let_def)

theorem created_volume_within_quota_witness:
  "\<exists>w'. vol_create (vol_svc_with None) (vol_env_at 0) 2 9 ''d'' 100 (vol_sample ()) = (w', Inr 2) \<and>
    allocated_in_team (\<lambda>_. True) 2 9 (vw_db w') \<le> 500"
proof -
  obtain w' where w': "vol_create (vol_svc_with None) (vol_env_at 0) 2 9 ''d'' 100 (vol_sample ()) = (w', Inr 2)"
    using bob_creates by blast
  have ok: "ve_ok (vol_env_at 0) = (\<lambda>_. True)" by (simp add: vol_env_at_def)
  show ?thesis using created_volume_within_quota [OF w'] w' by (simp add: ok vol_quotas)
qed

theorem team_detour_beats_quota_witness:
  "\<exists>w1 w2. vol_create (vol_svc_with None) (vol_env_at 0) 2 9 ''d'' 100 (vol_sample ()) = (w1, Inr 2) \<and>
    set_volume_team (vol_svc_with None) (vol_env_at 0) 2 2 0 w1 = (w2, None) \<and>
    50 < allocated_gib (\<lambda>_. True) 2 (vw_db w2)"
proof -
  obtain w' where w': "vol_create (vol_svc_with None) (vol_env_at 0) 2 9 ''d'' 100 (vol_sample ()) = (w', Inr 2)"
    using bob_creates by blast
  have ok: "ve_ok (vol_env_at 0) = (\<lambda>_. True)" by (simp add: vol_env_at_def)
  have fresh: "fresh_ids (vw_db (vol_sample ()))" by (simp add: fresh_ids_def vol_sample_simps)
  have none: "home_used_gib (vol_svc_with None) 2 = 0" "allocated_gib (\<lambda>_. True) 2 (vw_db (vol_sample ())) = 0"
    by (simp_all add: home_used_gib_def allocated_gib_def vol_sample_simps)
  show ?thesis
    using team_detour_beats_quota [OF w' _ _ fresh] w' by (auto simp: ok none vol_quotas)
qed

theorem negative_size_beats_quota_witness:
  "\<exists>w1 w2. vol_handle (vol_svc_with None) ((vol_env_at 0)\<lparr>ve_k8s := False\<rparr>) 2 (CreateVol [] ''a'' (- 1000)) (vol_sample ()) =
      (w1, None) \<and>
    vol_handle (vol_svc_with None) (vol_env_at 0) 2 (CreateVol [] ''b'' 1000) w1 = (w2, None) \<and>
    (\<exists>v \<in> set (vd_volumes (vw_db w2)). vo_owner v = Some 2 \<and> vo_size v = 1000 \<and> vo_status v = ''bound'') \<and>
    quota_for (vol_svc_with None :: unit vol_svc) 2 = 50"
proof -
  have ok: "ve_ok (vol_env_at 0) = (\<lambda>_. True)" by (simp add: vol_env_at_def)
  have fresh: "fresh_ids (vw_db (vol_sample ()))" by (simp add: fresh_ids_def vol_sample_simps)
  have none: "home_used_gib (vol_svc_with (None :: unit charger option)) 2 = 0" "allocated_gib (\<lambda>_. True) 2 (vw_db (vol_sample ())) = 0"
    by (simp_all add: home_used_gib_def allocated_gib_def vol_sample_simps)
  have "vs_charger (vol_svc_with (None :: unit charger option)) = None" "ve_k8s (vol_env_at 0)"
    by (simp_all add: vol_svc_with_def vol_env_at_def)
  then show ?thesis
    using negative_size_beats_quota [of "vol_svc_with (None :: unit charger option)" "vol_env_at 0" "vol_sample ()" 1000 "''a''" "''b''" 1000 2] fresh
    by (simp add: ok none vol_quotas)
qed

definition paying_store :: store where
  "paying_store = empty_store\<lparr>uwallets := [\<lparr>u_user = 1, u_group = 1, u_balance = 5000, u_reserved = 0, u_cap = 0,
     u_cycle = None, u_recurring = 0, u_interval = 0, u_carry = False\<rparr>]\<rparr>"

theorem volume_charges_match_records_witness:
  "let C = wallet_charger (\<lambda>_ _. True) (live_svc (\<lambda>_. True) None);
       w' = fold (bill_storage_once (vol_svc_with (Some C))) [vol_env_at (30 * day), vol_env_at (60 * day)] (vol_sample paying_store)
   in spent (vw_wallet w') ''vol-1'' - spent paying_store ''vol-1'' = vol_billed_of (vw_db w') 1"
proof -
  let ?C = "wallet_charger (\<lambda>_ _. True) (live_svc (\<lambda>_. True) None)"
  have "keys_distinct vo_id (vd_volumes (vw_db (vol_sample paying_store)))"
    by (simp add: keys_distinct_def vol_sample_simps)
  moreover have "vs_charger (vol_svc_with (Some ?C)) = Some ?C" by (simp add: vol_svc_with_def)
  moreover have "volume_pvc 1 = ''vol-1''" by code_simp
  moreover have "vol_billed_of (vw_db (vol_sample paying_store)) 1 = 0"
    by (simp add: vol_billed_of_def vol_sample_simps row_of_def)
  moreover have "vw_wallet (vol_sample paying_store) = paying_store" by (simp add: vol_sample_def)
  ultimately show ?thesis
    using volume_charges_match_records [of "vol_svc_with (Some ?C)" "\<lambda>_ _. True" "live_svc (\<lambda>_. True) None"
        "vol_sample paying_store" "[vol_env_at (30 * day), vol_env_at (60 * day)]" 1]
    by (simp add: vol_env_at_def Let_def)
qed

end
