(* ===== verification/Teams.thy ===== *)
theory Teams
  imports Authz Org Wallet_Books
begin

text \<open>
  Teams and their members (\<open>internal/group\<close>): the tables \<open>groups\<close>, \<open>memberships\<close> and
  \<open>group_join_requests\<close> with the statements of \<open>repo_impl.go\<close>, the service, and the handlers behind the
  guards the server registers them with (\<open>server.go\<close>): \<open>/groups/:id\<close> behind \<open>authz.GroupRole\<close>,
  \<open>/console/groups/:id\<close> behind \<open>authz.RequireManager\<close> and \<open>authz.RequireGroupInScope\<close>, \<open>/admin\<close> behind
  \<open>authz.RequireAdmin\<close>. The group service is what these guards read memberships from
  (\<open>authz.MembershipReader\<close>, \<open>authz.ScopeReader\<close>), so the theory closes the circle: the locale
  \<open>membership_reader\<close> says what the guards may rely on, and the tables meet it.
\<close>

section \<open>Tables\<close>

record grp =
  gr_id :: int
  gr_org :: int
  gr_name :: string
  gr_display :: string
  gr_accepts :: bool
  gr_status :: string

record membership =
  me_id :: int
  me_group :: int
  me_user :: int
  me_role :: string
  me_budget :: int
  me_consumed :: int
  me_status :: string

record join_row =
  jr_id :: int
  jr_user :: int
  jr_group :: int
  jr_status :: string

record account =
  ac_id :: int
  ac_name :: string
  ac_email :: string

record group_db =
  gd_orgs :: "int list"
  gd_groups :: "grp list"
  gd_members :: "membership list"
  gd_requests :: "join_row list"
  gd_users :: "account list"
  gd_next_group :: int
  gd_next_member :: int
  gd_next_request :: int

datatype gstmt = GResolve | GInsert | GUpdate | GArchive | GCount | GCancel | GFind | GRole | GUpsert | GRemove
  | GMoveFrom | GMoveTo | GSetRole | GSetBudget | GAccepts | GSetAccepts | GReqGet | GReqJoin | GReqMark | GReject
  | GPrimary | GManagers | GMine | GMembers int | GRequest | GOrgOf

type_synonym group_oracle = "gstmt \<Rightarrow> bool"

definition me_key :: "membership \<Rightarrow> int \<times> int" where
  "me_key m = (me_group m, me_user m)"

definition is_active :: "membership \<Rightarrow> bool" where
  "is_active m \<longleftrightarrow> me_status m = ''active''"

text \<open>The same tables as the organisation and wallet services read them.\<close>

definition org_view :: "group_db \<Rightarrow> store" where
  "org_view db = empty_store
     \<lparr>groups := map (\<lambda>r. \<lparr>g_id = gr_id r, g_org = gr_org r, g_status = gr_status r\<rparr>) (gd_groups db),
      members := map (\<lambda>m. \<lparr>m_id = me_id m, m_group = me_group m, m_user = me_user m, m_role = me_role m,
        m_consumed = me_consumed m, m_status = me_status m\<rparr>) (gd_members db)\<rparr>"

section \<open>Statements\<close>

definition upd_grp :: "int \<Rightarrow> (grp \<Rightarrow> grp) \<Rightarrow> group_db \<Rightarrow> group_db" where
  "upd_grp i f db = db\<lparr>gd_groups := upd_row gr_id i f (gd_groups db)\<rparr>"

definition upd_member :: "int \<Rightarrow> int \<Rightarrow> (membership \<Rightarrow> membership) \<Rightarrow> group_db \<Rightarrow> group_db" where
  "upd_member g u f db = db\<lparr>gd_members := upd_row me_key (g, u) f (gd_members db)\<rparr>"

text \<open>The unique key on organisation and name refuses a second team of that name.\<close>

definition insert_group :: "group_oracle \<Rightarrow> int \<Rightarrow> string \<Rightarrow> string \<Rightarrow> bool \<Rightarrow> group_db \<Rightarrow> group_db \<times> int option" where
  "insert_group ok org name disp accepts db =
     (if \<not> ok GInsert \<or> row_of (\<lambda>r. (gr_org r, gr_name r)) (org, name) (gd_groups db) \<noteq> None then (db, None)
      else (let i = gd_next_group db;
                r = \<lparr>gr_id = i, gr_org = org, gr_name = name, gr_display = disp, gr_accepts = accepts, gr_status = ''active''\<rparr>
            in (db\<lparr>gd_groups := gd_groups db @ [r], gd_next_group := i + 1\<rparr>, Some i)))"

definition update_group_row :: "group_oracle \<Rightarrow> int \<Rightarrow> string option \<Rightarrow> bool option \<Rightarrow> group_db \<Rightarrow> group_db \<times> bool" where
  "update_group_row ok i disp acc db =
     (if disp = None \<and> acc = None then (db, True)
      else if \<not> ok GUpdate then (db, False)
      else (upd_grp i (\<lambda>r. r\<lparr>gr_display := (case disp of None \<Rightarrow> gr_display r | Some d \<Rightarrow> d),
                             gr_accepts := (case acc of None \<Rightarrow> gr_accepts r | Some b \<Rightarrow> b)\<rparr>) db, True))"

definition archive_row :: "group_oracle \<Rightarrow> int \<Rightarrow> group_db \<Rightarrow> group_db \<times> bool" where
  "archive_row ok i db =
     (if ok GArchive then (upd_grp i (\<lambda>r. r\<lparr>gr_status := ''archived''\<rparr>) db, True) else (db, False))"

definition active_member_count :: "group_oracle \<Rightarrow> int \<Rightarrow> group_db \<Rightarrow> nat" where
  "active_member_count ok g db =
     (if ok GCount then length (filter (\<lambda>m. me_group m = g \<and> is_active m) (gd_members db)) else 0)"

definition cancel_join :: "group_oracle \<Rightarrow> int \<Rightarrow> int \<Rightarrow> group_db \<Rightarrow> group_db \<times> bool" where
  "cancel_join ok u i db =
     (if ok GCancel
      then (db\<lparr>gd_requests := filter (\<lambda>j. \<not> (jr_id j = i \<and> jr_user j = u \<and> jr_status j = ''pending'')) (gd_requests db)\<rparr>, True)
      else (db, False))"

datatype group_error = JoinClosed | UserUnknown | GroupUnknown | SameGroup | DefaultGroup | GroupHasMembers
  | GroupNotFound | BadGroupBody | GroupDenied denial | GroupDb

definition find_group :: "group_oracle \<Rightarrow> int \<Rightarrow> group_db \<Rightarrow> group_error + grp" where
  "find_group ok i db =
     (if \<not> ok GFind then Inl GroupDb
      else case row_of gr_id i (gd_groups db) of None \<Rightarrow> Inl GroupNotFound | Some r \<Rightarrow> Inr r)"

definition role_in_group :: "group_oracle \<Rightarrow> group_db \<Rightarrow> int \<Rightarrow> int \<Rightarrow> string option" where
  "role_in_group ok db u g =
     (if \<not> ok GRole then None
      else case row_of me_key (g, u) (gd_members db) of None \<Rightarrow> None
           | Some m \<Rightarrow> if is_active m \<and> me_role m \<noteq> [] then Some (me_role m) else None)"

text \<open>\<open>INSERT ... ON DUPLICATE KEY UPDATE\<close> on the unique key of the table: an active member with the given
  role, or the existing row updated by \<open>f\<close>.\<close>

definition put_member :: "int \<Rightarrow> int \<Rightarrow> string \<Rightarrow> string \<Rightarrow> (membership \<Rightarrow> membership) \<Rightarrow> group_db \<Rightarrow> group_db" where
  "put_member g u role st f db =
     (case row_of me_key (g, u) (gd_members db) of
        Some _ \<Rightarrow> upd_member g u f db
      | None \<Rightarrow> db\<lparr>gd_members := gd_members db @ [\<lparr>me_id = gd_next_member db, me_group = g, me_user = u, me_role = role,
                     me_budget = 0, me_consumed = 0, me_status = st\<rparr>],
                  gd_next_member := gd_next_member db + 1\<rparr>)"

definition upsert_membership :: "group_oracle \<Rightarrow> int \<Rightarrow> int \<Rightarrow> string \<Rightarrow> string \<Rightarrow> group_db \<Rightarrow> group_db \<times> bool" where
  "upsert_membership ok g u role st db =
     (if ok GUpsert then (put_member g u role st (\<lambda>m. m\<lparr>me_role := role, me_status := st\<rparr>) db, True) else (db, False))"

definition remove_member_row :: "group_oracle \<Rightarrow> int \<Rightarrow> int \<Rightarrow> group_db \<Rightarrow> group_db \<times> bool" where
  "remove_member_row ok g u db =
     (if ok GRemove then (upd_member g u (\<lambda>m. m\<lparr>me_status := ''removed''\<rparr>) db, True) else (db, False))"

text \<open>A transaction: when its second statement fails the first is undone.\<close>

definition move_member_tx :: "group_oracle \<Rightarrow> int \<Rightarrow> int \<Rightarrow> int \<Rightarrow> string \<Rightarrow> group_db \<Rightarrow> group_db \<times> group_error option" where
  "move_member_tx ok from to u role db =
     (if \<not> ok GMoveFrom then (db, Some GroupDb)
      else case row_of me_key (from, u) (gd_members db) of None \<Rightarrow> (db, Some GroupNotFound)
           | Some m \<Rightarrow>
               if \<not> is_active m then (db, Some GroupNotFound)
               else if \<not> ok GMoveTo then (db, Some GroupDb)
               else (put_member to u role ''active'' (\<lambda>m. m\<lparr>me_role := role, me_status := ''active''\<rparr>)
                       (upd_member from u (\<lambda>m. m\<lparr>me_status := ''removed''\<rparr>) db), None))"

definition set_role_row :: "group_oracle \<Rightarrow> int \<Rightarrow> int \<Rightarrow> string \<Rightarrow> group_db \<Rightarrow> group_db \<times> bool" where
  "set_role_row ok g u role db =
     (if ok GSetRole then (upd_member g u (\<lambda>m. m\<lparr>me_role := role\<rparr>) db, True) else (db, False))"

definition set_budget_row :: "group_oracle \<Rightarrow> int \<Rightarrow> int \<Rightarrow> int \<Rightarrow> group_db \<Rightarrow> group_db \<times> bool" where
  "set_budget_row ok g u n db =
     (if ok GSetBudget then (upd_member g u (\<lambda>m. m\<lparr>me_budget := n\<rparr>) db, True) else (db, False))"

text \<open>Scanning no row leaves Go's \<open>false\<close>.\<close>

definition get_accepts_join :: "group_oracle \<Rightarrow> int \<Rightarrow> group_db \<Rightarrow> bool option" where
  "get_accepts_join ok g db =
     (if \<not> ok GAccepts then None
      else case row_of gr_id g (gd_groups db) of None \<Rightarrow> Some False | Some r \<Rightarrow> Some (gr_accepts r))"

definition set_accepts_join :: "group_oracle \<Rightarrow> int \<Rightarrow> bool \<Rightarrow> group_db \<Rightarrow> group_db \<times> bool" where
  "set_accepts_join ok g v db =
     (if ok GSetAccepts then (upd_grp g (\<lambda>r. r\<lparr>gr_accepts := v\<rparr>) db, True) else (db, False))"

definition create_join_request :: "group_oracle \<Rightarrow> int \<Rightarrow> int \<Rightarrow> group_db \<Rightarrow> group_db \<times> bool" where
  "create_join_request ok u g db =
     (if ok GRequest
      then (db\<lparr>gd_requests := gd_requests db @ [\<lparr>jr_id = gd_next_request db, jr_user = u, jr_group = g, jr_status = ''pending''\<rparr>],
             gd_next_request := gd_next_request db + 1\<rparr>, True)
      else (db, False))"

definition pending_request :: "int \<Rightarrow> group_db \<Rightarrow> join_row option" where
  "pending_request i db =
     (case row_of jr_id i (gd_requests db) of None \<Rightarrow> None
      | Some j \<Rightarrow> if jr_status j = ''pending'' then Some j else None)"

definition approve_join_tx :: "group_oracle \<Rightarrow> int \<Rightarrow> group_db \<Rightarrow> group_db \<times> group_error option" where
  "approve_join_tx ok i db =
     (if \<not> ok GReqGet then (db, Some GroupDb)
      else case pending_request i db of None \<Rightarrow> (db, Some GroupNotFound)
           | Some j \<Rightarrow>
               if jr_user j = 0 then (db, Some GroupNotFound)
               else if \<not> ok GReqJoin \<or> \<not> ok GReqMark then (db, Some GroupDb)
               else (let db1 = put_member (jr_group j) (jr_user j) ''member'' ''active'' (\<lambda>m. m\<lparr>me_status := ''active''\<rparr>) db
                     in (db1\<lparr>gd_requests := upd_row jr_id i (\<lambda>j. j\<lparr>jr_status := ''approved''\<rparr>) (gd_requests db1)\<rparr>, None)))"

definition reject_join_row :: "group_oracle \<Rightarrow> int \<Rightarrow> group_db \<Rightarrow> group_db \<times> bool" where
  "reject_join_row ok i db =
     (if ok GReject
      then (db\<lparr>gd_requests := upd_where (\<lambda>j. jr_id j = i \<and> jr_status j = ''pending'') (\<lambda>j. j\<lparr>jr_status := ''rejected''\<rparr>)
              (gd_requests db)\<rparr>, True)
      else (db, False))"

definition resolve_account :: "group_oracle \<Rightarrow> string \<Rightarrow> group_db \<Rightarrow> group_error + int" where
  "resolve_account ok a db =
     (if \<not> ok GResolve then Inl GroupDb
      else case find (\<lambda>x. ac_name x = a \<or> ac_email x = a) (gd_users db) of
             None \<Rightarrow> Inl GroupNotFound | Some x \<Rightarrow> if ac_id x = 0 then Inl GroupNotFound else Inr (ac_id x))"

text \<open>MySQL's \<open>FIELD(role, ...)\<close>: the position in the list, 0 for a role that is not in it.\<close>

fun field_from :: "nat \<Rightarrow> string \<Rightarrow> string list \<Rightarrow> nat" where
  "field_from n r [] = 0"
| "field_from n r (x # xs) = (if r = x then n else field_from (Suc n) r xs)"

definition field_rank :: "string \<Rightarrow> string list \<Rightarrow> nat" where
  "field_rank r xs = field_from 1 r xs"

text \<open>The join of memberships with their team and its organisation.\<close>

definition joined :: "int \<Rightarrow> group_db \<Rightarrow> (membership \<times> grp) list" where
  "joined u db = concat (map (\<lambda>m.
       case row_of gr_id (me_group m) (gd_groups db) of None \<Rightarrow> []
       | Some r \<Rightarrow> if gr_org r \<in> set (gd_orgs db) then [(m, r)] else [])
     (filter (\<lambda>m. me_user m = u \<and> is_active m) (gd_members db)))"

definition primary_membership :: "group_oracle \<Rightarrow> group_db \<Rightarrow> int \<Rightarrow> (membership \<times> grp) option" where
  "primary_membership ok db u =
     (if \<not> ok GPrimary then None
      else case sort_key (\<lambda>x. field_rank (me_role (fst x))
                  [''org_admin'', ''project_admin'', ''billing_admin'', ''member'', ''guest'']) (joined u db) of
             [] \<Rightarrow> None | x # _ \<Rightarrow> if me_role (fst x) = [] then None else Some x)"

definition manager_memberships :: "group_oracle \<Rightarrow> group_db \<Rightarrow> int \<Rightarrow> (membership \<times> grp) list option" where
  "manager_memberships ok db u =
     (if \<not> ok GManagers then None
      else Some (sort_key (\<lambda>x. field_rank (me_role (fst x)) [''org_admin'', ''project_admin''])
             (sort_key (\<lambda>x. gr_org (snd x)) (sort_key (\<lambda>x. gr_id (snd x))
               (filter (\<lambda>x. me_role (fst x) \<in> {''org_admin'', ''project_admin''}) (joined u db))))))"

definition my_groups :: "group_oracle \<Rightarrow> group_db \<Rightarrow> int \<Rightarrow> grp list option" where
  "my_groups ok db u = (if ok GMine then Some (sort_key gr_id (map snd (joined u db))) else None)"

definition list_members :: "group_oracle \<Rightarrow> group_db \<Rightarrow> int \<Rightarrow> (membership \<times> account) list option" where
  "list_members ok db g =
     (if \<not> ok (GMembers g) then None
      else Some (concat (map (\<lambda>m. case row_of ac_id (me_user m) (gd_users db) of None \<Rightarrow> [] | Some a \<Rightarrow> [(m, a)])
             (filter (\<lambda>m. me_group m = g \<and> me_status m \<noteq> ''removed'') (gd_members db)))))"

section \<open>The service\<close>

text \<open>The wallet service's seeder (\<open>GroupWalletSeeder\<close>), when credits are on.\<close>

record 'w seeder =
  sd_credit :: "int \<Rightarrow> int \<Rightarrow> 'w \<Rightarrow> 'w \<times> bool"
  sd_refill :: "int \<Rightarrow> int \<Rightarrow> int \<Rightarrow> bool \<Rightarrow> 'w \<Rightarrow> 'w \<times> bool"

record create_group_req =
  cg_org :: int
  cg_name :: string
  cg_display :: string
  cg_admin :: string
  cg_credit :: int
  cg_recurring :: int
  cg_interval :: int
  cg_carry :: bool

text \<open>\<open>errors.Is(err, ErrNotFound)\<close> turned into \<open>ErrUserUnknown\<close>.\<close>

definition known_account :: "group_oracle \<Rightarrow> string \<Rightarrow> group_db \<Rightarrow> group_error + int" where
  "known_account ok a db =
     (case resolve_account ok a db of Inr u \<Rightarrow> Inr u
      | Inl e \<Rightarrow> Inl (if e = GroupNotFound then UserUnknown else e))"

definition seed_wallet :: "'w seeder option \<Rightarrow> int \<Rightarrow> create_group_req \<Rightarrow> 'w \<Rightarrow> 'w \<times> bool" where
  "seed_wallet sd g r w =
     (case sd of None \<Rightarrow> (w, True)
      | Some s \<Rightarrow>
          (case (if 0 < cg_credit r then sd_credit s g (cg_credit r) w else (w, True)) of
             (w1, False) \<Rightarrow> (w1, False)
           | (w1, True) \<Rightarrow> if 0 < cg_recurring r then sd_refill s g (cg_recurring r) (cg_interval r) (cg_carry r) w1
                           else (w1, True)))"

text \<open>\<open>Create\<close>: what comes after the insert does not undo it.\<close>

definition create_group ::
  "group_oracle \<Rightarrow> 'w seeder option \<Rightarrow> create_group_req \<Rightarrow> group_db \<times> 'w \<Rightarrow> (group_db \<times> 'w) \<times> (group_error + int)" where
  "create_group ok sd r st =
     (case st of (db, w) \<Rightarrow>
       (case (if cg_admin r = [] then Inr 0 else known_account ok (cg_admin r) db) of
          Inl e \<Rightarrow> ((db, w), Inl e)
        | Inr admin \<Rightarrow>
            (case insert_group ok (cg_org r) (cg_name r) (or_default (cg_display r) (cg_name r)) True db of
               (db1, None) \<Rightarrow> ((db1, w), Inl GroupDb)
             | (db1, Some g) \<Rightarrow>
                 (case (if 0 < admin then upsert_membership ok g admin ''project_admin'' ''active'' db1 else (db1, True)) of
                    (db2, False) \<Rightarrow> ((db2, w), Inl GroupDb)
                  | (db2, True) \<Rightarrow>
                      (case seed_wallet sd g r w of
                         (w1, False) \<Rightarrow> ((db2, w1), Inl GroupDb) | (w1, True) \<Rightarrow> ((db2, w1), Inr g))))))"

text \<open>The bootstrapper of \<open>org.Service\<close>.\<close>

definition resolve_admin :: "group_oracle \<Rightarrow> string \<Rightarrow> group_db \<Rightarrow> group_error option" where
  "resolve_admin ok a db = (case known_account ok a db of Inl e \<Rightarrow> Some e | Inr _ \<Rightarrow> None)"

definition create_org_admin_group :: "group_oracle \<Rightarrow> int \<Rightarrow> string \<Rightarrow> group_db \<Rightarrow> group_db \<times> group_error option" where
  "create_org_admin_group ok org a db =
     (case (if a = [] then Inr 0 else known_account ok a db) of Inl e \<Rightarrow> (db, Some e)
      | Inr u \<Rightarrow>
          (case insert_group ok org ''general'' ''general'' False db of (db1, None) \<Rightarrow> (db1, Some GroupDb)
           | (db1, Some g) \<Rightarrow>
               if u = 0 then (db1, None)
               else (case upsert_membership ok g u ''org_admin'' ''active'' db1 of
                       (db2, b) \<Rightarrow> (db2, if b then None else Some GroupDb))))"

definition archive_group :: "group_oracle \<Rightarrow> int \<Rightarrow> group_db \<Rightarrow> group_db \<times> group_error option" where
  "archive_group ok i db =
     (case find_group ok i db of Inl e \<Rightarrow> (db, Some e)
      | Inr r \<Rightarrow>
          if gr_name r = ''general'' then (db, Some DefaultGroup)
          else if 0 < active_member_count ok i db then (db, Some GroupHasMembers)
          else (case archive_row ok i db of (db', b) \<Rightarrow> (db', if b then None else Some GroupDb)))"

definition add_member :: "group_oracle \<Rightarrow> int \<Rightarrow> string \<Rightarrow> string \<Rightarrow> group_db \<Rightarrow> group_db \<times> group_error option" where
  "add_member ok g a role db =
     (case known_account ok a db of Inl e \<Rightarrow> (db, Some e)
      | Inr u \<Rightarrow> (case upsert_membership ok g u (or_default role ''member'') ''active'' db of
                   (db', b) \<Rightarrow> (db', if b then None else Some GroupDb)))"

definition move_member :: "group_oracle \<Rightarrow> int \<Rightarrow> int \<Rightarrow> int \<Rightarrow> string \<Rightarrow> group_db \<Rightarrow> group_db \<times> group_error option" where
  "move_member ok from to u role db =
     (if from = to then (db, Some SameGroup)
      else case find_group ok to db of Inl _ \<Rightarrow> (db, Some GroupUnknown)
           | Inr _ \<Rightarrow>
               move_member_tx ok from to u
                 (if role = [] then (case role_in_group ok db u from of Some r \<Rightarrow> r | None \<Rightarrow> ''member'') else role) db)"

definition request_join :: "group_oracle \<Rightarrow> int \<Rightarrow> int \<Rightarrow> group_db \<Rightarrow> group_db \<times> group_error option" where
  "request_join ok u g db =
     (case get_accepts_join ok g db of None \<Rightarrow> (db, Some GroupDb)
      | Some False \<Rightarrow> (db, Some JoinClosed)
      | Some True \<Rightarrow> (case create_join_request ok u g db of (db', b) \<Rightarrow> (db', if b then None else Some GroupDb)))"

text \<open>\<open>ScopeReader\<close>: what the guards are told of a user.\<close>

definition scope_of :: "membership \<times> grp \<Rightarrow> scope" where
  "scope_of x =
     (if me_role (fst x) = ''org_admin''
      then \<lparr>sc_level = OrgLevel, sc_org = gr_org (snd x), sc_group = gr_id (snd x)\<rparr>
      else \<lparr>sc_level = GroupLevel, sc_org = gr_org (snd x), sc_group = gr_id (snd x)\<rparr>)"

definition manager_scopes :: "group_oracle \<Rightarrow> group_db \<Rightarrow> int \<Rightarrow> scope list" where
  "manager_scopes ok db u = (case manager_memberships ok db u of None \<Rightarrow> [] | Some xs \<Rightarrow> map scope_of xs)"

definition primary_scope :: "group_oracle \<Rightarrow> group_db \<Rightarrow> int \<Rightarrow> (string \<times> int \<times> int) option" where
  "primary_scope ok db u =
     (case primary_membership ok db u of None \<Rightarrow> None
      | Some (m, r) \<Rightarrow>
          Some (if me_role m = ''org_admin'' then ''org'' else if me_role m = ''project_admin'' then ''group'' else ''member'',
                gr_org r, gr_id r))"

definition map_console :: "string \<Rightarrow> string \<times> string" where
  "map_console role =
     (if role = ''org_admin'' then (''org_admin'', ''org'')
      else if role = ''project_admin'' then (''group_admin'', ''group'')
      else (''member'', ''user''))"

text \<open>\<open>ShareTargets\<close>: the caller's teams and the active members of these teams, each user once.\<close>

definition targets_of :: "(membership \<times> account) list \<Rightarrow> int set \<times> account list \<Rightarrow> int set \<times> account list" where
  "targets_of ms acc =
     fold (\<lambda>(m, a) (seen, out). if me_user m \<in> seen \<or> me_status m \<noteq> ''active'' then (seen, out)
                                 else (insert (me_user m) seen, out @ [a])) ms acc"

definition share_targets :: "group_oracle \<Rightarrow> group_db \<Rightarrow> int \<Rightarrow> (grp list \<times> account list) option" where
  "share_targets ok db u =
     (case my_groups ok db u of None \<Rightarrow> None
      | Some gs \<Rightarrow>
          Some (gs, snd (fold (\<lambda>r acc. case list_members ok db (gr_id r) of None \<Rightarrow> acc | Some ms \<Rightarrow> targets_of ms acc)
                           gs ({u}, []))))"

section \<open>Requests\<close>

text \<open>Handlers of the routes under a team, with the conditions the bodies must meet to be bound; identifiers
  in the path are read with \<open>ParseInt\<close> and its error ignored.\<close>

datatype team_request =
    AddMember string string
  | SetMemberRole string string
  | SetMemberBudget string int
  | RemoveMember string
  | SetJoinPolicy bool
  | ApproveJoin string
  | RejectJoin string

definition db_error :: "group_db \<times> bool \<Rightarrow> group_db \<times> group_error option" where
  "db_error r = (fst r, if snd r then None else Some GroupDb)"

definition h_add_member :: "group_oracle \<Rightarrow> string \<Rightarrow> string \<Rightarrow> string \<Rightarrow> group_db \<Rightarrow> group_db \<times> group_error option" where
  "h_add_member ok p a role db = (if a = [] then (db, Some BadGroupBody) else add_member ok (parse_id p) a role db)"

definition h_set_role :: "group_oracle \<Rightarrow> string \<Rightarrow> string \<Rightarrow> string \<Rightarrow> group_db \<Rightarrow> group_db \<times> group_error option" where
  "h_set_role ok p u role db =
     (if role = [] then (db, Some BadGroupBody) else db_error (set_role_row ok (parse_id p) (parse_id u) role db))"

definition h_set_budget :: "group_oracle \<Rightarrow> string \<Rightarrow> string \<Rightarrow> int \<Rightarrow> group_db \<Rightarrow> group_db \<times> group_error option" where
  "h_set_budget ok p u n db = db_error (set_budget_row ok (parse_id p) (parse_id u) n db)"

definition h_remove_member :: "group_oracle \<Rightarrow> string \<Rightarrow> string \<Rightarrow> group_db \<Rightarrow> group_db \<times> group_error option" where
  "h_remove_member ok p u db = db_error (remove_member_row ok (parse_id p) (parse_id u) db)"

definition h_set_join_policy :: "group_oracle \<Rightarrow> string \<Rightarrow> bool \<Rightarrow> group_db \<Rightarrow> group_db \<times> group_error option" where
  "h_set_join_policy ok p v db = db_error (set_accepts_join ok (parse_id p) v db)"

definition h_approve_join :: "group_oracle \<Rightarrow> string \<Rightarrow> group_db \<Rightarrow> group_db \<times> group_error option" where
  "h_approve_join ok i db = approve_join_tx ok (parse_id i) db"

definition h_reject_join :: "group_oracle \<Rightarrow> string \<Rightarrow> group_db \<Rightarrow> group_db \<times> group_error option" where
  "h_reject_join ok i db = db_error (reject_join_row ok (parse_id i) db)"

text \<open>The handlers of both trees of team routes.\<close>

definition team_op :: "group_oracle \<Rightarrow> string \<Rightarrow> team_request \<Rightarrow> group_db \<Rightarrow> group_db \<times> group_error option" where
  "team_op ok p op db =
     (case op of
        AddMember a role \<Rightarrow> h_add_member ok p a role db
      | SetMemberRole u role \<Rightarrow> h_set_role ok p u role db
      | SetMemberBudget u n \<Rightarrow> h_set_budget ok p u n db
      | RemoveMember u \<Rightarrow> h_remove_member ok p u db
      | SetJoinPolicy v \<Rightarrow> h_set_join_policy ok p v db
      | ApproveJoin i \<Rightarrow> h_approve_join ok i db
      | RejectJoin i \<Rightarrow> h_reject_join ok i db)"

lemmas team_op_defs = team_op_def h_add_member_def h_set_role_def h_set_budget_def h_remove_member_def h_set_join_policy_def
  h_approve_join_def h_reject_join_def db_error_def

definition h_update_group :: "group_oracle \<Rightarrow> string \<Rightarrow> string option \<Rightarrow> bool option \<Rightarrow> group_db \<Rightarrow> group_db \<times> group_error option" where
  "h_update_group ok p d a = (\<lambda>db. db_error (update_group_row ok (parse_id p) d a db))"

definition h_delete_group :: "group_oracle \<Rightarrow> string \<Rightarrow> group_db \<Rightarrow> group_db \<times> group_error option" where
  "h_delete_group ok p = archive_group ok (parse_id p)"

definition h_move_member :: "group_oracle \<Rightarrow> string \<Rightarrow> string \<Rightarrow> int \<Rightarrow> string \<Rightarrow> group_db \<Rightarrow> group_db \<times> group_error option" where
  "h_move_member ok p u to role db =
     (if to = 0 then (db, Some BadGroupBody) else move_member ok (parse_id p) to (parse_id u) role db)"

definition h_create_join_request :: "group_oracle \<Rightarrow> caller \<Rightarrow> int \<Rightarrow> group_db \<Rightarrow> group_db \<times> group_error option" where
  "h_create_join_request ok c g db = (if g = 0 then (db, Some BadGroupBody) else request_join ok (c_id c) g db)"

definition h_cancel_join_request :: "group_oracle \<Rightarrow> caller \<Rightarrow> string \<Rightarrow> group_db \<Rightarrow> group_db \<times> group_error option" where
  "h_cancel_join_request ok c i db = db_error (cancel_join ok (c_id c) (parse_id i) db)"

text \<open>The three trees of routes: \<open>/groups/:id\<close>, \<open>/console\<close> with the scope header, and what any signed-in user
  may do. Creating a team takes the organisation of an organisation administrator's scope.\<close>

datatype group_request =
    TeamRoute string team_request
  | ConsoleRoute string string team_request
  | ConsoleUpdate string string "string option" "bool option"
  | ConsoleDelete string string
  | ConsoleCreate string create_group_req
  | AdminMove string string int string
  | JoinRequest int
  | CancelRequest string

definition og_of :: "group_oracle \<Rightarrow> group_db \<Rightarrow> int \<Rightarrow> int option" where
  "og_of ok db = org_of_group (\<lambda>_. ok GOrgOf) (org_view db)"

definition guarded :: "'a verdict \<Rightarrow> ('a \<Rightarrow> group_db \<times> group_error option) \<Rightarrow> group_db \<Rightarrow> group_db \<times> group_error option" where
  "guarded v k db = (case v of Deny d \<Rightarrow> (db, Some (GroupDenied d)) | Pass a \<Rightarrow> k a)"

definition console_scope :: "group_oracle \<Rightarrow> group_db \<Rightarrow> caller \<Rightarrow> string \<Rightarrow> scope verdict" where
  "console_scope ok db c h = require_manager (manager_scopes ok db) (Some (og_of ok db)) (Some c) h"

definition in_console ::
  "group_oracle \<Rightarrow> caller \<Rightarrow> string \<Rightarrow> string \<Rightarrow> (group_db \<Rightarrow> group_db \<times> group_error option) \<Rightarrow> group_db
   \<Rightarrow> group_db \<times> group_error option" where
  "in_console ok c h p k db =
     guarded (console_scope ok db c h) (\<lambda>s. guarded (require_group_in_scope (og_of ok db) s p) (\<lambda>_. k db) db) db"

text \<open>Creation goes through to the wallet service; everything else stays in these tables.\<close>

definition console_create ::
  "group_oracle \<Rightarrow> 'w seeder option \<Rightarrow> caller \<Rightarrow> string \<Rightarrow> create_group_req \<Rightarrow> group_db \<times> 'w
   \<Rightarrow> (group_db \<times> 'w) \<times> group_error option" where
  "console_create ok sd c h r st =
     (case console_scope ok (fst st) c h of Deny d \<Rightarrow> (st, Some (GroupDenied d))
      | Pass s \<Rightarrow>
          if cg_org r = 0 \<or> cg_name r = [] then (st, Some BadGroupBody)
          else if sc_level s = GroupLevel then (st, Some (GroupDenied Forbidden))
          else (case create_group ok sd (if sc_level s = OrgLevel then r\<lparr>cg_org := sc_org s\<rparr> else r) st of
                  (st', Inl e) \<Rightarrow> (st', Some e) | (st', Inr _) \<Rightarrow> (st', None)))"

definition group_handle ::
  "group_oracle \<Rightarrow> 'w seeder option \<Rightarrow> caller \<Rightarrow> group_request \<Rightarrow> group_db \<times> 'w \<Rightarrow> (group_db \<times> 'w) \<times> group_error option" where
  "group_handle ok sd c rq st =
     (let db = fst st; tables = (\<lambda>r. ((fst r, snd st), snd r))
      in case rq of
        TeamRoute p op \<Rightarrow>
          tables (guarded (group_role (role_in_group ok db) ''project_admin'' (Some c) p) (\<lambda>_. team_op ok p op db) db)
      | ConsoleRoute h p op \<Rightarrow> tables (in_console ok c h p (team_op ok p op) db)
      | ConsoleUpdate h p d a \<Rightarrow> tables (in_console ok c h p (h_update_group ok p d a) db)
      | ConsoleDelete h p \<Rightarrow> tables (in_console ok c h p (h_delete_group ok p) db)
      | ConsoleCreate h r \<Rightarrow> console_create ok sd c h r st
      | AdminMove p u to role \<Rightarrow>
          tables (guarded (require_admin (Some c))
            (\<lambda>_. h_move_member ok p u to role db) db)
      | JoinRequest g \<Rightarrow> tables (h_create_join_request ok c g db)
      | CancelRequest i \<Rightarrow> tables (h_cancel_join_request ok c i db))"

lemmas group_handle_defs = group_handle_def h_update_group_def h_delete_group_def h_move_member_def h_create_join_request_def
  h_cancel_join_request_def Let_def

section \<open>What the guards may rely on\<close>

locale membership_reader =
  fixes scopes :: "int \<Rightarrow> scope list"
    and role :: "int \<Rightarrow> int \<Rightarrow> string option"
    and org_of :: "int \<Rightarrow> int option"
    and runs :: "int \<Rightarrow> int \<Rightarrow> bool"
  assumes not_platform: "s \<in> set (scopes u) \<Longrightarrow> sc_level s \<noteq> Platform"
    and group_scope: "s \<in> set (scopes u) \<Longrightarrow> sc_level s = GroupLevel \<Longrightarrow> runs u (sc_group s)"
    and org_scope: "s \<in> set (scopes u) \<Longrightarrow> sc_level s = OrgLevel \<Longrightarrow> org_of g = Some (sc_org s) \<Longrightarrow> runs u g"
    and role_runs: "role u g = Some r \<Longrightarrow> 2 \<le> group_role_rank r \<Longrightarrow> runs u g"
begin

lemma team_route:
  assumes "\<not> c_admin c" "group_role role ''project_admin'' (Some c) p = Pass ()"
  shows "runs (c_id c) (parse_id p)"
  using assms role_runs [of "c_id c"]
  by (auto simp: group_role_def group_role_rank_def parse_id_valid split: option.splits if_splits)

lemma console_route:
  assumes "\<not> c_admin c" "require_manager scopes og (Some c) h = Pass s" "require_group_in_scope org_of s p = Pass ()"
  shows "runs (c_id c) (parse_id p)"
proof -
  have s: "s \<in> set (scopes (c_id c))" using assms(1,2) by (rule require_manager_held)
  then have "sc_level s \<noteq> Platform" by (rule not_platform)
  then show ?thesis
    using assms(3) group_scope [OF s] org_scope [OF s]
    by (cases "sc_level s") (auto simp: require_group_in_scope_def parse_id_valid split: option.splits if_splits)
qed

end

text \<open>Who runs a team: its administrators and the administrators of its organisation.\<close>

definition runs :: "group_db \<Rightarrow> int \<Rightarrow> int \<Rightarrow> bool" where
  "runs db u g \<longleftrightarrow>
     (\<exists>m \<in> set (gd_members db). me_user m = u \<and> is_active m \<and>
        (me_group m = g \<and> me_role m \<in> {''project_admin'', ''org_admin''} \<or>
         me_role m = ''org_admin'' \<and>
           (\<exists>r r'. row_of gr_id (me_group m) (gd_groups db) = Some r \<and> row_of gr_id g (gd_groups db) = Some r' \<and>
              gr_org r = gr_org r')))"

lemma joined_iff:
  "(m, r) \<in> set (joined u db) \<longleftrightarrow>
     m \<in> set (gd_members db) \<and> me_user m = u \<and> is_active m \<and> row_of gr_id (me_group m) (gd_groups db) = Some r \<and>
     gr_org r \<in> set (gd_orgs db)"
  by (auto simp: joined_def split: option.splits if_splits)

lemma manager_scopes_iff:
  "s \<in> set (manager_scopes ok db u) \<longleftrightarrow>
     ok GManagers \<and> (\<exists>m r. (m, r) \<in> set (joined u db) \<and> me_role m \<in> {''org_admin'', ''project_admin''} \<and> s = scope_of (m, r))"
  by (auto simp: manager_scopes_def manager_memberships_def image_iff)

lemma org_view_groups:
  "row_of g_id g (groups (org_view db)) =
     map_option (\<lambda>r. \<lparr>g_id = gr_id r, g_org = gr_org r, g_status = gr_status r\<rparr>) (row_of gr_id g (gd_groups db))"
proof -
  have "row_of g_id g (map (\<lambda>r. \<lparr>g_id = gr_id r, g_org = gr_org r, g_status = gr_status r\<rparr>) rs) =
      map_option (\<lambda>r. \<lparr>g_id = gr_id r, g_org = gr_org r, g_status = gr_status r\<rparr>) (row_of gr_id g rs)" for rs
    by (induction rs) auto
  then show ?thesis by (simp add: org_view_def)
qed

lemma og_of_iff: "og_of ok db g = Some i \<longleftrightarrow> ok GOrgOf \<and> 0 < i \<and> (\<exists>r. row_of gr_id g (gd_groups db) = Some r \<and> gr_org r = i)"
  by (cases "row_of gr_id g (gd_groups db)")
    (auto simp: og_of_def org_of_group_def org_view_groups positive_def)

lemma role_in_group_Some:
  "role_in_group ok db u g = Some r \<Longrightarrow>
     \<exists>m \<in> set (gd_members db). me_group m = g \<and> me_user m = u \<and> is_active m \<and> me_role m = r"
  by (auto simp: role_in_group_def me_key_def split: option.splits if_splits dest!: row_of_Some)

interpretation gm: membership_reader "manager_scopes ok db" "role_in_group ok db" "og_of ok db" "runs db" for ok db
proof (unfold_locales, goal_cases)
  case (1 s u)
  then show ?case by (auto simp: manager_scopes_iff scope_of_def)
next
  case (2 s u)
  then show ?case
    by (force simp: manager_scopes_iff joined_iff scope_of_def runs_def dest: row_of_Some split: if_splits)
next
  case (3 s u g)
  then show ?case by (fastforce simp: manager_scopes_iff joined_iff scope_of_def runs_def og_of_iff split: if_splits)
next
  case (4 u g r)
  then have "r \<in> {''project_admin'', ''org_admin''}" by (auto simp: group_role_rank_def split: if_splits)
  with role_in_group_Some [OF 4(1)] show ?case by (auto simp: runs_def)
qed

section \<open>What the operations change\<close>

lemma upd_grp_frame [frame, simp]:
  "gd_members (upd_grp i f db) = gd_members db" "gd_requests (upd_grp i f db) = gd_requests db"
  "gd_groups (upd_grp i f db) = upd_row gr_id i f (gd_groups db)" "gd_orgs (upd_grp i f db) = gd_orgs db"
  "gd_next_group (upd_grp i f db) = gd_next_group db" "gd_next_request (upd_grp i f db) = gd_next_request db"
  by (simp_all add: upd_grp_def)

lemma upd_member_frame [frame, simp]:
  "gd_groups (upd_member g u f db) = gd_groups db" "gd_requests (upd_member g u f db) = gd_requests db"
  "gd_members (upd_member g u f db) = upd_row me_key (g, u) f (gd_members db)" "gd_orgs (upd_member g u f db) = gd_orgs db"
  "gd_next_group (upd_member g u f db) = gd_next_group db" "gd_next_request (upd_member g u f db) = gd_next_request db"
  by (simp_all add: upd_member_def)

lemma me_key_upd [simp]:
  "me_key (m\<lparr>me_role := a\<rparr>) = me_key m" "me_key (m\<lparr>me_status := b\<rparr>) = me_key m" "me_key (m\<lparr>me_budget := n\<rparr>) = me_key m"
  by (simp_all add: me_key_def)

lemma put_member_frame [frame, simp]:
  "gd_groups (put_member g u a b f db) = gd_groups db" "gd_requests (put_member g u a b f db) = gd_requests db"
  "gd_orgs (put_member g u a b f db) = gd_orgs db" "gd_next_group (put_member g u a b f db) = gd_next_group db"
  "gd_next_request (put_member g u a b f db) = gd_next_request db"
  by (simp_all add: put_member_def split: option.split)

lemma put_member_row:
  assumes "\<And>m. me_key (f m) = me_key m"
  shows "row_of me_key k (gd_members (put_member g u role st f db)) =
    (if k = (g, u)
     then Some (case row_of me_key k (gd_members db) of Some m \<Rightarrow> f m
                | None \<Rightarrow> \<lparr>me_id = gd_next_member db, me_group = g, me_user = u, me_role = role, me_budget = 0, me_consumed = 0,
                          me_status = st\<rparr>)
     else row_of me_key k (gd_members db))"
proof (cases "row_of me_key (g, u) (gd_members db)")
  case None
  then show ?thesis by (auto simp: put_member_def row_of_append me_key_def split: option.split)
next
  case (Some m)
  then show ?thesis by (auto simp: put_member_def row_of_upd_row assms)
qed

lemma put_member_keys:
  assumes "\<And>m. me_key (f m) = me_key m" "keys_distinct me_key (gd_members db)"
  shows "keys_distinct me_key (gd_members (put_member g u role st f db))"
proof (cases "row_of me_key (g, u) (gd_members db)")
  case None
  then have "(g, u) \<notin> me_key ` set (gd_members db)" by (simp add: row_of_None)
  with None assms(2) show ?thesis by (auto simp: put_member_def keys_distinct_def me_key_def)
next
  case (Some m)
  then show ?thesis using assms by (simp add: put_member_def keys_distinct_upd_row)
qed

text \<open>An operation touches the members of one team only.\<close>

definition same_members :: "int \<Rightarrow> group_db \<Rightarrow> group_db \<Rightarrow> bool" where
  "same_members g db db' \<longleftrightarrow> (\<forall>h u. h \<noteq> g \<longrightarrow> row_of me_key (h, u) (gd_members db') = row_of me_key (h, u) (gd_members db))"

lemma same_members_refl [simp]: "same_members g db db"
  by (simp add: same_members_def)

lemma same_members_upd:
  "(\<And>m. me_key (f m) = me_key m) \<Longrightarrow> same_members g db (upd_member g u f db)"
  "(\<And>m. me_key (f m) = me_key m) \<Longrightarrow> same_members g db (put_member g u a b f db)"
  by (simp_all add: same_members_def row_of_upd_row put_member_row)

lemma same_members_eq: "gd_members db' = gd_members db \<Longrightarrow> same_members g db db'"
  by (simp add: same_members_def)

lemma team_op_members:
  assumes "\<nexists>i. op = ApproveJoin i"
  shows "same_members (parse_id p) db (fst (team_op ok p op db))"
  using assms
  by (cases op) (auto simp: team_op_defs add_member_def upsert_membership_def set_role_row_def set_budget_row_def
      remove_member_row_def set_accepts_join_def reject_join_row_def db_error_def same_members_upd same_members_eq
      split: sum.split)

lemma approve_members:
  assumes "row_of me_key (g, u) (gd_members (fst (approve_join_tx ok i db))) \<noteq> row_of me_key (g, u) (gd_members db)"
  shows "\<exists>j. pending_request i db = Some j \<and> jr_group j = g \<and> jr_user j = u"
  using assms by (auto simp: approve_join_tx_def Let_def put_member_row split: option.splits if_splits)

section \<open>Who changes whose memberships\<close>

lemma in_console_cases:
  assumes "in_console ok c h p k db = (db', e)" "\<not> c_admin c"
  shows "db' = db \<or> (k db = (db', e) \<and> runs db (c_id c) (parse_id p))"
  using assms gm.console_route [OF assms(2)]
  by (auto simp: in_console_def guarded_def console_scope_def split: verdict.splits)

lemma team_route_cases:
  assumes "guarded (group_role (role_in_group ok db) ''project_admin'' (Some c) p) (\<lambda>_. k) db = (db', e)" "\<not> c_admin c"
  shows "db' = db \<or> (k = (db', e) \<and> runs db (c_id c) (parse_id p))"
  using assms gm.team_route [OF assms(2)]
  by (auto simp: guarded_def split: verdict.splits)

lemma in_console_keeps: "gd_members (fst (k db)) = gd_members db \<Longrightarrow> gd_members (fst (in_console ok c h p k db)) = gd_members db"
  by (simp add: in_console_def guarded_def split: verdict.split)

lemma update_archive_members:
  "gd_members (fst (db_error (update_group_row ok i d a db))) = gd_members db"
  "gd_members (fst (archive_group ok i db)) = gd_members db"
  by (auto simp: db_error_def update_group_row_def archive_group_def archive_row_def split: sum.split)

lemma create_group_members:
  assumes "create_group ok sd r (db, w) = ((db', w'), res)"
  shows "same_members (gd_next_group db) db db'"
proof -
  have "same_members (gd_next_group db) db (put_member (gd_next_group db) u a b f db1)"
    if "gd_members db1 = gd_members db" "\<And>m. me_key (f m) = me_key m" for u a b f db1
    using that by (simp add: same_members_def put_member_row)
  then show ?thesis
    using assms
    by (auto simp: create_group_def insert_group_def upsert_membership_def Let_def same_members_eq
        split: sum.splits if_splits prod.splits option.splits bool.splits)
qed

definition approval :: "group_request \<Rightarrow> (string \<times> int) option" where
  "approval rq =
     (case rq of TeamRoute p (ApproveJoin i) \<Rightarrow> Some (p, parse_id i)
      | ConsoleRoute h p (ApproveJoin i) \<Rightarrow> Some (p, parse_id i) | _ \<Rightarrow> None)"

lemma team_op_effect:
  assumes "team_op ok p op db = (db', e)" "runs db v (parse_id p)"
    and "row_of me_key (g, u) (gd_members db') \<noteq> row_of me_key (g, u) (gd_members db)"
  shows "runs db v g \<or>
    (\<exists>i j. op = ApproveJoin i \<and> pending_request (parse_id i) db = Some j \<and> jr_group j = g \<and> jr_user j = u)"
proof (cases "\<exists>i. op = ApproveJoin i")
  case True
  then obtain i where i: "op = ApproveJoin i" by blast
  with assms(1,3) have "row_of me_key (g, u) (gd_members (fst (approve_join_tx ok (parse_id i) db))) \<noteq>
      row_of me_key (g, u) (gd_members db)" by (simp add: team_op_defs)
  from approve_members [OF this] i show ?thesis by blast
next
  case False
  then have "same_members (parse_id p) db db'" using team_op_members [of op p db ok] assms(1) by simp
  then show ?thesis using assms(2,3) by (metis same_members_def)
qed

text \<open>C4: The members of a team are changed only by those who run it: when a request of anybody but a platform
  administrator changes a membership, the caller holds an active administrator membership of that team or
  of its organisation, or the team is the one the request creates, or the request approves a pending join
  request of that user for that team and the caller runs the team named in the path.\<close>

theorem members_changed_by_managers:
  assumes "\<not> c_admin c" "group_handle ok sd c rq (db, w) = ((db', w'), e)"
    and "row_of me_key (g, u) (gd_members db') \<noteq> row_of me_key (g, u) (gd_members db)"
  shows "runs db (c_id c) g \<or> g = gd_next_group db \<or>
    (\<exists>p i j. approval rq = Some (p, i) \<and> runs db (c_id c) (parse_id p) \<and>
      pending_request i db = Some j \<and> jr_group j = g \<and> jr_user j = u)"
proof -
  have changed: "runs db (c_id c) (parse_id p) \<Longrightarrow> same_members (parse_id p) db db' \<Longrightarrow> runs db (c_id c) g" for p
    using assms(3) by (metis same_members_def)
  show ?thesis
  proof (cases rq)
    case (TeamRoute p op)
    with assms(2) have "guarded (group_role (role_in_group ok db) ''project_admin'' (Some c) p) (\<lambda>_. team_op ok p op db) db = (db', e)"
      by (auto simp: group_handle_defs)
    from team_route_cases [OF this assms(1)] assms(3) have t: "team_op ok p op db = (db', e)" "runs db (c_id c) (parse_id p)"
      by auto
    from team_op_effect [OF this assms(3)] t(2) TeamRoute show ?thesis by (auto simp: approval_def)
  next
    case (ConsoleRoute h p op)
    with assms(2) have "in_console ok c h p (team_op ok p op) db = (db', e)" by (auto simp: group_handle_defs)
    from in_console_cases [OF this assms(1)] assms(3) have t: "team_op ok p op db = (db', e)" "runs db (c_id c) (parse_id p)"
      by auto
    from team_op_effect [OF this assms(3)] t(2) ConsoleRoute show ?thesis by (auto simp: approval_def)
  next
    case (ConsoleUpdate h p d a)
    with assms(2,3) show ?thesis by (auto simp: group_handle_defs in_console_keeps update_archive_members)
  next
    case (ConsoleDelete h p)
    with assms(2,3) show ?thesis by (auto simp: group_handle_defs in_console_keeps update_archive_members)
  next
    case (ConsoleCreate h r)
    with assms(2,3) show ?thesis
      using create_group_members [of ok sd _ db w db' w']
      by (auto simp: group_handle_defs console_create_def same_members_def
          split: verdict.splits if_splits prod.splits sum.splits)
  next
    case (AdminMove p v to role)
    with assms show ?thesis by (auto simp: group_handle_defs guarded_def require_admin_def)
  next
    case (JoinRequest h)
    with assms(2,3) show ?thesis
      by (auto simp: group_handle_defs request_join_def create_join_request_def
          split: if_splits option.splits bool.splits prod.splits)
  next
    case (CancelRequest i)
    with assms(2,3) show ?thesis
      by (auto simp: group_handle_defs cancel_join_def db_error_def split: if_splits)
  qed
qed

section \<open>Invariants of the tables\<close>

definition org_name :: "grp \<Rightarrow> int \<times> string" where
  "org_name r = (gr_org r, gr_name r)"

definition teams_ok :: "grp list \<Rightarrow> int \<Rightarrow> bool" where
  "teams_ok rs n \<longleftrightarrow> keys_distinct gr_id rs \<and> keys_distinct org_name rs \<and> (\<forall>r \<in> set rs. gr_id r < n) \<and>
     (\<forall>r \<in> set rs. gr_name r = ''general'' \<longrightarrow> gr_status r = ''active'')"

definition requests_ok :: "join_row list \<Rightarrow> int \<Rightarrow> bool" where
  "requests_ok js n \<longleftrightarrow> keys_distinct jr_id js \<and> (\<forall>j \<in> set js. jr_id j < n)"

definition tables_ok :: "group_db \<Rightarrow> bool" where
  "tables_ok db \<longleftrightarrow> keys_distinct me_key (gd_members db) \<and> teams_ok (gd_groups db) (gd_next_group db) \<and>
     requests_ok (gd_requests db) (gd_next_request db)"

lemma upd_row_set: "r \<in> set (upd_row key k f t) \<Longrightarrow> \<exists>x \<in> set t. r = (if key x = k then f x else x)"
  by (auto simp: upd_row_def upd_where_def)

lemma teams_ok_upd:
  assumes "teams_ok rs n" "\<And>r. gr_id (f r) = gr_id r" "\<And>r. org_name (f r) = org_name r"
    and "\<And>r. r \<in> set rs \<Longrightarrow> gr_id r = i \<Longrightarrow> gr_name r = ''general'' \<Longrightarrow> gr_status r = ''active'' \<Longrightarrow> gr_status (f r) = ''active''"
  shows "teams_ok (upd_row gr_id i f rs) n"
proof -
  have "gr_name (f r) = gr_name r" for r using assms(3) [of r] by (simp add: org_name_def)
  moreover have "keys_distinct org_name (upd_row gr_id i f rs)"
    using assms(1,3) by (simp add: teams_ok_def keys_distinct_def upd_row_def keys_upd_where)
  ultimately show ?thesis
    using assms(1,2,4) unfolding teams_ok_def
    by (auto simp: keys_distinct_upd_row dest!: upd_row_set split: if_splits)
qed

lemma teams_ok_insert:
  assumes "teams_ok rs n" "row_of org_name (org, name) rs = None"
  shows "teams_ok (rs @ [\<lparr>gr_id = n, gr_org = org, gr_name = name, gr_display = d, gr_accepts = a, gr_status = ''active''\<rparr>]) (n + 1)"
proof -
  have "(org, name) \<notin> org_name ` set rs" using assms(2) by (simp add: row_of_None)
  then show ?thesis using assms(1) by (auto simp: teams_ok_def keys_distinct_def org_name_def)
qed

lemma requests_ok_upd:
  assumes "requests_ok js n" "\<And>j. jr_id (f j) = jr_id j"
  shows "requests_ok (upd_where P f js) n"
proof -
  have "j \<in> set (upd_where P f js) \<Longrightarrow> \<exists>x \<in> set js. jr_id j = jr_id x" for j
    using assms(2) by (auto simp: upd_where_def)
  then show ?thesis using assms by (fastforce simp: requests_ok_def keys_distinct_def keys_upd_where)
qed

lemma requests_ok_filter: "requests_ok js n \<Longrightarrow> requests_ok (filter P js) n"
  by (auto simp: requests_ok_def keys_distinct_def distinct_map_filter)

lemma requests_ok_insert:
  "requests_ok js n \<Longrightarrow> requests_ok (js @ [\<lparr>jr_id = n, jr_user = u, jr_group = g, jr_status = st\<rparr>]) (n + 1)"
  by (auto simp: requests_ok_def keys_distinct_def)

lemma tables_ok_upd_member: "(\<And>m. me_key (f m) = me_key m) \<Longrightarrow> tables_ok db \<Longrightarrow> tables_ok (upd_member g u f db)"
  by (simp add: tables_ok_def keys_distinct_upd_row)

lemma tables_ok_put_member: "(\<And>m. me_key (f m) = me_key m) \<Longrightarrow> tables_ok db \<Longrightarrow> tables_ok (put_member g u a b f db)"
  by (simp add: tables_ok_def put_member_keys)

lemmas tables_keep = tables_ok_upd_member tables_ok_put_member

lemma insert_group_ok: "tables_ok db \<Longrightarrow> insert_group ok org n d a db = (db', r) \<Longrightarrow> tables_ok db'"
proof -
  have e: "row_of (\<lambda>r. (gr_org r, gr_name r)) k rs = row_of org_name k rs" for k rs
    by (simp add: row_of_def org_name_def)
  show "tables_ok db \<Longrightarrow> insert_group ok org n d a db = (db', r) \<Longrightarrow> tables_ok db'"
    by (auto simp: insert_group_def Let_def e tables_ok_def teams_ok_insert split: if_splits)
qed

lemma upsert_ok: "upsert_membership ok g u a b db = (db', r) \<Longrightarrow> tables_ok db \<Longrightarrow> tables_ok db'"
  by (auto simp: upsert_membership_def tables_keep split: if_splits)

lemma create_group_ok:
  assumes "tables_ok db" "create_group ok sd r (db, w) = ((db', w'), res)"
  shows "tables_ok db'"
proof -
  obtain db1 g where ins: "insert_group ok (cg_org r) (cg_name r) (or_default (cg_display r) (cg_name r)) True db = (db1, g)"
    by fastforce
  note t1 = insert_group_ok [OF assms(1) ins]
  show ?thesis
    using assms ins t1 upsert_ok [OF _ t1]
    by (auto simp: create_group_def split: sum.splits option.splits if_splits prod.splits bool.splits)
qed

lemma create_org_admin_group_ok:
  assumes "tables_ok db" "create_org_admin_group ok org a db = (db', e)"
  shows "tables_ok db'"
proof -
  obtain db1 g where ins: "insert_group ok org ''general'' ''general'' False db = (db1, g)" by fastforce
  note t1 = insert_group_ok [OF assms(1) ins]
  show ?thesis
    using assms ins t1 upsert_ok [OF _ t1]
    by (auto simp: create_org_admin_group_def split: sum.splits option.splits if_splits prod.splits)
qed

lemma archive_group_ok: "tables_ok db \<Longrightarrow> tables_ok (fst (archive_group ok i db))"
proof (cases "find_group ok i db")
  case (Inr r)
  assume t: "tables_ok db"
  from Inr have r: "row_of gr_id i (gd_groups db) = Some r" by (auto simp: find_group_def split: if_splits option.splits)
  show ?thesis
  proof (cases "gr_name r = ''general''")
    case False
    have "x = r" if "x \<in> set (gd_groups db)" "gr_id x = i" for x
      using t r that row_of_member [of gr_id "gd_groups db" x] by (simp add: tables_ok_def teams_ok_def)
    then have "teams_ok (upd_row gr_id i (\<lambda>r. r\<lparr>gr_status := ''archived''\<rparr>) (gd_groups db)) (gd_next_group db)"
      using t False by (intro teams_ok_upd) (auto simp: tables_ok_def org_name_def)
    then show ?thesis using t Inr by (simp add: archive_group_def archive_row_def tables_ok_def)
  qed (use t Inr in \<open>simp add: archive_group_def\<close>)
qed (simp add: archive_group_def)

lemma team_op_ok: "tables_ok db \<Longrightarrow> tables_ok (fst (team_op ok p op db))"
proof -
  assume t: "tables_ok db"
  have "tables_ok (fst (approve_join_tx ok i db))" for i
    using t by (auto simp: approve_join_tx_def Let_def tables_ok_def upd_row_def requests_ok_upd put_member_keys
        split: option.split)
  moreover have "tables_ok (fst (set_accepts_join ok i v db))" for i v
    using t by (simp add: set_accepts_join_def tables_ok_def teams_ok_upd org_name_def)
  moreover have "tables_ok (fst (reject_join_row ok i db))" for i
    using t by (simp add: reject_join_row_def tables_ok_def requests_ok_upd)
  moreover have "tables_ok (fst (add_member ok g a r db))" for g a r
    using t upsert_ok [OF _ t] by (auto simp: add_member_def split: sum.split prod.split)
  ultimately show ?thesis
    using t by (cases op)
      (auto simp: team_op_defs set_role_row_def set_budget_row_def remove_member_row_def tables_keep)
qed

lemma in_console_fst: "fst (in_console ok c h p k db) = db \<or> fst (in_console ok c h p k db) = fst (k db)"
  by (auto simp: in_console_def guarded_def split: verdict.split)

lemma guarded_fst: "fst (guarded v (\<lambda>_. k) db) = db \<or> fst (guarded v (\<lambda>_. k) db) = fst k"
  by (auto simp: guarded_def split: verdict.split)

lemma move_member_ok: "tables_ok db \<Longrightarrow> tables_ok (fst (move_member ok from to u role db))"
  by (auto simp: move_member_def move_member_tx_def tables_keep split: option.split sum.split)

lemma group_handle_ok:
  assumes "tables_ok db"
  shows "tables_ok (fst (fst (group_handle ok sd c rq (db, w))))"
proof (cases rq)
  case (TeamRoute p op)
  then show ?thesis
    using guarded_fst [of "group_role (role_in_group ok db) ''project_admin'' (Some c) p" "team_op ok p op db" db]
      team_op_ok [OF assms] assms by (auto simp: group_handle_defs)
next
  case (ConsoleRoute h p op)
  then show ?thesis
    using in_console_fst [of ok c h p "team_op ok p op" db] team_op_ok [OF assms] assms by (auto simp: group_handle_defs)
next
  case (ConsoleUpdate h p d a)
  have "tables_ok (fst (db_error (update_group_row ok i d a db)))" for i
    using assms by (auto simp: db_error_def update_group_row_def tables_ok_def teams_ok_upd org_name_def)
  with ConsoleUpdate show ?thesis
    using in_console_fst [of ok c h p "\<lambda>db. db_error (update_group_row ok (parse_id p) d a db)" db] assms
    by (auto simp: group_handle_defs)
next
  case (ConsoleDelete h p)
  then show ?thesis
    using in_console_fst [of ok c h p "archive_group ok (parse_id p)" db] archive_group_ok [OF assms] assms
    by (auto simp: group_handle_defs)
next
  case (ConsoleCreate h r)
  then show ?thesis
    using create_group_ok [OF assms] assms
    by (auto simp: group_handle_defs console_create_def split: verdict.split prod.split sum.split)
next
  case (AdminMove p v to role)
  then show ?thesis
    using assms move_member_ok [OF assms] by (auto simp: group_handle_defs guarded_def split: verdict.split)
next
  case (JoinRequest g)
  then show ?thesis
    using assms by (auto simp: group_handle_defs request_join_def create_join_request_def tables_ok_def requests_ok_insert
        split: option.split bool.split)
next
  case (CancelRequest i)
  then show ?thesis
    using assms by (simp add: group_handle_defs db_error_def cancel_join_def tables_ok_def requests_ok_filter)
qed

text \<open>Everything that happens to the tables: requests of anybody, meeting any database errors, and new
  organisations.\<close>

inductive group_run :: "group_db \<times> 'w \<Rightarrow> group_db \<times> 'w \<Rightarrow> bool" where
  start: "group_run st st"
| request: "group_run st st' \<Longrightarrow> group_handle ok sd c rq st' = (st'', e) \<Longrightarrow> group_run st st''"
| organisation: "group_run st (db, w) \<Longrightarrow> create_org_admin_group ok org a db = (db', e) \<Longrightarrow> group_run st (db', w)"

lemma group_run_ok: "group_run st st' \<Longrightarrow> tables_ok (fst st) \<Longrightarrow> tables_ok (fst st')"
proof (induction rule: group_run.induct)
  case (request st st' ok sd c rq st'' e)
  then show ?case using group_handle_ok [of "fst st'" ok sd c rq "snd st'"] by simp
next
  case (organisation st db w ok org a db' e)
  then show ?case using create_org_admin_group_ok by fastforce
qed

text \<open>C23: Whatever requests arrive and whatever statements fail, a user has one membership per team, no two teams
  of an organisation have the same name, identifiers are unique, and the general team of an organisation is
  never archived.\<close>

theorem group_tables_invariant:
  assumes "group_run st st'" "tables_ok (fst st)"
  shows "keys_distinct me_key (gd_members (fst st')) \<and> keys_distinct org_name (gd_groups (fst st')) \<and>
    keys_distinct gr_id (gd_groups (fst st')) \<and> keys_distinct jr_id (gd_requests (fst st')) \<and>
    (\<forall>r \<in> set (gd_groups (fst st')). gr_name r = ''general'' \<longrightarrow> gr_status r = ''active'')"
  using group_run_ok [OF assms] by (simp add: tables_ok_def teams_ok_def requests_ok_def)

section \<open>Join requests\<close>

text \<open>A reviewed request is final.\<close>

definition reviewed :: "int \<Rightarrow> group_db \<Rightarrow> join_row option" where
  "reviewed i db =
     (case row_of jr_id i (gd_requests db) of None \<Rightarrow> None
      | Some j \<Rightarrow> if jr_status j = ''pending'' then None else Some j)"

lemma row_of_filter: "row_of key k t = Some r \<Longrightarrow> P r \<Longrightarrow> row_of key k (filter P t) = row_of key k t \<or> \<not> keys_distinct key t"
  by (induction t) (auto simp: keys_distinct_def row_of_None dest: row_of_Some)

lemma reviewed_upd:
  assumes "reviewed i db = Some j" "\<And>x. jr_id (f x) = jr_id x" "\<And>x. P x \<Longrightarrow> jr_status x = ''pending'' \<or> jr_id x \<noteq> i"
    and "gd_requests db' = upd_where P f (gd_requests db)"
  shows "reviewed i db' = Some j"
  using assms(1,3) row_of_Some [of jr_id i "gd_requests db"]
  by (auto simp: reviewed_def assms(2,4) row_of_upd_where split: option.splits if_splits)

lemma team_op_reviewed:
  assumes "reviewed i db = Some j"
  shows "reviewed i (fst (team_op ok p op db)) = Some j"
proof -
  have "reviewed i (fst (approve_join_tx ok k db)) = Some j" for k
  proof (cases "pending_request k db")
    case None
    then show ?thesis using assms by (simp add: approve_join_tx_def)
  next
    case (Some x)
    then have "k \<noteq> i" using assms by (auto simp: pending_request_def reviewed_def split: option.splits if_splits)
    then show ?thesis
      using assms Some reviewed_upd [OF assms, of "\<lambda>j. j\<lparr>jr_status := ''approved''\<rparr>" "\<lambda>j. jr_id j = k"]
      by (auto simp: approve_join_tx_def Let_def upd_row_def)
  qed
  moreover have "reviewed i (fst (reject_join_row ok k db)) = Some j" for k
    using assms reviewed_upd [OF assms, of "\<lambda>j. j\<lparr>jr_status := ''rejected''\<rparr>" "\<lambda>j. jr_id j = k \<and> jr_status j = ''pending''"]
    by (simp add: reject_join_row_def)
  moreover have "gd_requests (fst (add_member ok g a r db)) = gd_requests db" for g a r
    by (simp add: add_member_def upsert_membership_def split: sum.split prod.split)
  ultimately show ?thesis
    using assms by (cases op)
      (auto simp: team_op_defs set_role_row_def set_budget_row_def remove_member_row_def set_accepts_join_def
        reviewed_def)
qed

lemma create_group_requests:
  assumes "create_group ok sd r (db, w) = ((db', w'), res)"
  shows "gd_requests db' = gd_requests db"
  using assms
  by (auto simp: create_group_def insert_group_def upsert_membership_def Let_def
      split: sum.splits option.splits if_splits prod.splits bool.splits)

lemma in_console_requests:
  "gd_requests (fst (k db)) = gd_requests db \<Longrightarrow> gd_requests (fst (in_console ok c h p k db)) = gd_requests db"
  by (simp add: in_console_def guarded_def split: verdict.split)

lemma org_group_requests:
  assumes "create_org_admin_group ok org a db = (db', e)"
  shows "gd_requests db' = gd_requests db"
  using assms
  by (auto simp: create_org_admin_group_def insert_group_def upsert_membership_def Let_def
      split: sum.splits option.splits if_splits prod.splits)

lemma group_handle_reviewed:
  assumes "reviewed i db = Some j" "tables_ok db"
  shows "reviewed i (fst (fst (group_handle ok sd c rq (db, w)))) = Some j"
proof (cases rq)
  case (TeamRoute p op)
  then show ?thesis
    using guarded_fst [of "group_role (role_in_group ok db) ''project_admin'' (Some c) p" "team_op ok p op db" db]
      team_op_reviewed [OF assms(1)] assms by (auto simp: group_handle_defs)
next
  case (ConsoleRoute h p op)
  then show ?thesis
    using in_console_fst [of ok c h p "team_op ok p op" db] team_op_reviewed [OF assms(1)] assms
    by (auto simp: group_handle_defs)
next
  case (ConsoleUpdate h p d a)
  have "gd_requests (fst (db_error (update_group_row ok (parse_id p) d a db))) = gd_requests db"
    by (simp add: db_error_def update_group_row_def)
  with ConsoleUpdate show ?thesis
    using assms by (simp add: group_handle_defs reviewed_def in_console_requests)
next
  case (ConsoleDelete h p)
  have "gd_requests (fst (archive_group ok (parse_id p) db)) = gd_requests db"
    by (auto simp: archive_group_def archive_row_def split: sum.split)
  with ConsoleDelete show ?thesis
    using assms by (simp add: group_handle_defs reviewed_def in_console_requests)
next
  case (ConsoleCreate h r)
  then show ?thesis
    using create_group_requests [of ok sd _ db w] assms
    by (auto simp: group_handle_defs console_create_def reviewed_def split: verdict.split prod.split sum.split)
next
  case (AdminMove p v to role)
  have "gd_requests (fst (move_member ok f to (parse_id v) role db)) = gd_requests db" for f
    by (auto simp: move_member_def move_member_tx_def split: option.split sum.split)
  with AdminMove show ?thesis
    using assms by (auto simp: group_handle_defs guarded_def reviewed_def split: verdict.split)
next
  case (JoinRequest g)
  then show ?thesis
    using assms by (auto simp: group_handle_defs request_join_def create_join_request_def reviewed_def row_of_append
        split: option.splits bool.split)
next
  case (CancelRequest k)
  from assms have r: "row_of jr_id i (gd_requests db) = Some j" "jr_status j \<noteq> ''pending''" "keys_distinct jr_id (gd_requests db)"
    by (auto simp: reviewed_def tables_ok_def requests_ok_def split: option.splits if_splits)
  from CancelRequest show ?thesis
    using row_of_filter [OF r(1), of "\<lambda>x. \<not> (jr_id x = parse_id k \<and> jr_user x = c_id c \<and> jr_status x = ''pending'')"] r assms(1)
    by (auto simp: group_handle_defs db_error_def cancel_join_def reviewed_def)
qed

text \<open>A join request is reviewed once: after it has been approved or rejected no later request of anybody
  changes or removes it.\<close>

theorem reviewed_requests_are_final:
  assumes "group_run st st'" "tables_ok (fst st)" "reviewed i (fst st) = Some j"
  shows "reviewed i (fst st') = Some j"
  using assms
proof (induction rule: group_run.induct)
  case (request st st' ok sd c rq st'' e)
  then have "tables_ok (fst st')" using group_run_ok by blast
  with request show ?case using group_handle_reviewed [of i "fst st'" j ok sd c rq "snd st'"] by simp
next
  case (organisation st db w ok org a db' e)
  then show ?case using org_group_requests by (simp add: reviewed_def)
qed

section \<open>Moving a member\<close>

text \<open>Moving a user between teams is all or nothing: if it fails nothing has changed; if it succeeds the old
  membership is kept as removed with its budget and usage, the user is an active member of the new team with
  the role asked for (or the role of the old team when none is asked for), what the new team already recorded
  of the user is kept, and no other membership, team or request is touched.\<close>

theorem move_member_exact:
  assumes "move_member ok from to u role db = (db', e)"
  shows "case e of Some err \<Rightarrow> db' = db
    | None \<Rightarrow>
        (\<exists>m n. row_of me_key (from, u) (gd_members db) = Some m \<and> is_active m \<and>
          row_of me_key (from, u) (gd_members db') = Some (m\<lparr>me_status := ''removed''\<rparr>) \<and>
          row_of me_key (to, u) (gd_members db') = Some n \<and> is_active n \<and>
          me_role n = (if role \<noteq> [] then role else case role_in_group ok db u from of Some r \<Rightarrow> r | None \<Rightarrow> ''member'') \<and>
          (me_budget n, me_consumed n) =
            (case row_of me_key (to, u) (gd_members db) of None \<Rightarrow> (0, 0) | Some x \<Rightarrow> (me_budget x, me_consumed x))) \<and>
        (\<forall>k. k \<notin> {(from, u), (to, u)} \<longrightarrow> row_of me_key k (gd_members db') = row_of me_key k (gd_members db)) \<and>
        gd_groups db' = gd_groups db \<and> gd_requests db' = gd_requests db"
  using assms
  by (auto simp: move_member_def move_member_tx_def put_member_row row_of_upd_row is_active_def
      split: option.splits sum.splits if_splits)

section \<open>What the guards miss\<close>

text \<open>An administrator of a team can make itself administrator of the organisation: the role in the request
  is not compared with the caller's, so after one request the guards let it manage every team of the
  organisation and the organisation itself.\<close>

theorem team_admin_promotes_itself:
  assumes "role_in_group ok db (c_id c) g = Some ''project_admin''" "\<forall>st. ok st"
    and "row_of gr_id g (gd_groups db) = Some r" "gr_org r \<in> set (gd_orgs db)" "0 < gr_org r"
    and "in_int64 g" "in_int64 (c_id c)" "in_int64 h" "in_int64 (gr_org r)"
    and "row_of gr_id h (gd_groups db) = Some r'" "gr_org r' = gr_org r"
  shows "\<exists>db' s. group_handle ok sd c (TeamRoute (dec g) (SetMemberRole (dec (c_id c)) ''org_admin'')) (db, w) = ((db', w), None) \<and>
    s \<in> set (manager_scopes ok db' (c_id c)) \<and> require_group_in_scope (og_of ok db') s (dec h) = Pass () \<and>
    require_org_in_scope s (dec (gr_org r)) = Pass ()"
proof -
  let ?db = "upd_member g (c_id c) (\<lambda>m. m\<lparr>me_role := ''org_admin''\<rparr>) db"
  let ?s = "\<lparr>sc_level = OrgLevel, sc_org = gr_org r, sc_group = gr_id r\<rparr>"
  from assms(1) obtain m where m: "row_of me_key (g, c_id c) (gd_members db) = Some m" "is_active m"
    by (auto simp: role_in_group_def split: option.splits if_splits)
  have "group_role (role_in_group ok db) ''project_admin'' (Some c) (dec g) = Pass ()"
    using assms(1,6) by (simp add: group_role_def parse_int64_dec group_role_rank_def)
  then have run: "group_handle ok sd c (TeamRoute (dec g) (SetMemberRole (dec (c_id c)) ''org_admin'')) (db, w) = ((?db, w), None)"
    using assms(2,6,7) by (simp add: group_handle_defs guarded_def team_op_defs set_role_row_def parse_id_dec)
  have "row_of me_key (g, c_id c) (gd_members ?db) = Some (m\<lparr>me_role := ''org_admin''\<rparr>)" using m by (simp add: row_of_upd_row)
  then have "(m\<lparr>me_role := ''org_admin''\<rparr>, r) \<in> set (joined (c_id c) ?db)"
    using m assms(3,4) by (auto simp: joined_iff is_active_def me_key_def dest: row_of_Some)
  then have "?s \<in> set (manager_scopes ok ?db (c_id c))"
    using assms(2) by (force simp: manager_scopes_iff scope_of_def)
  moreover have "og_of ok ?db h = Some (gr_org r)" using assms(2,5,10,11) by (simp add: og_of_iff)
  then have "require_group_in_scope (og_of ok ?db) ?s (dec h) = Pass ()"
    using assms(8) by (simp add: require_group_in_scope_def parse_int64_dec)
  moreover have "require_org_in_scope ?s (dec (gr_org r)) = Pass ()"
    using assms(9) by (simp add: require_org_in_scope_def parse_int64_dec)
  ultimately show ?thesis using run by blast
qed

text \<open>Join requests are approved by whoever runs some team, not by those who run the team asked for: an
  administrator of one team can let anybody into any other team that has a pending request.\<close>

theorem foreign_join_request_approved:
  assumes "role_in_group ok db (c_id c) g = Some ''project_admin''" "\<forall>st. ok st" "in_int64 g" "in_int64 i"
    and "pending_request i db = Some j" "jr_user j \<noteq> 0" "\<not> runs db (c_id c) (jr_group j)" "\<not> c_admin c"
  shows "\<exists>db' m. group_handle ok sd c (TeamRoute (dec g) (ApproveJoin (dec i))) (db, w) = ((db', w), None) \<and>
    row_of me_key (jr_group j, jr_user j) (gd_members db') = Some m \<and> is_active m"
proof -
  have "group_role (role_in_group ok db) ''project_admin'' (Some c) (dec g) = Pass ()"
    using assms(1,3) by (simp add: group_role_def parse_int64_dec group_role_rank_def)
  then show ?thesis
    using assms(2,4-6)
    by (auto simp: group_handle_defs guarded_def team_op_defs parse_id_dec approve_join_tx_def put_member_row is_active_def
        split: option.split)
qed

text \<open>CX: A removed administrator who asks to join again is an administrator again as soon as anybody approves
  the request: approving sets the status of the old membership and leaves its role.\<close>

theorem rejoined_admin_is_admin:
  assumes "row_of me_key (g, u) (gd_members db) = Some m" "me_role m \<in> {''project_admin'', ''org_admin''}"
    and "pending_request i db = Some j" "jr_user j = u" "jr_group j = g" "u \<noteq> 0" "\<forall>st. ok st"
  shows "\<exists>db'. approve_join_tx ok i db = (db', None) \<and> role_in_group ok db' u g = Some (me_role m) \<and> runs db' u g"
proof -
  let ?db = "fst (approve_join_tx ok i db)"
  have row: "row_of me_key (g, u) (gd_members ?db) = Some (m\<lparr>me_status := ''active''\<rparr>)"
    using assms by (simp add: approve_join_tx_def Let_def put_member_row)
  then have "m\<lparr>me_status := ''active''\<rparr> \<in> set (gd_members ?db)" by (auto dest: row_of_Some)
  moreover have "me_user m = u" "me_group m = g" using assms(1) by (auto simp: me_key_def dest: row_of_Some)
  ultimately have "runs ?db u g" using assms(2) by (auto simp: runs_def is_active_def intro!: bexI [of _ "m\<lparr>me_status := ''active''\<rparr>"])
  moreover have "role_in_group ok ?db u g = Some (me_role m)"
    using row assms(2,7) by (auto simp: role_in_group_def is_active_def)
  moreover have "approve_join_tx ok i db = (?db, None)"
    using assms by (simp add: approve_join_tx_def Let_def)
  ultimately show ?thesis by blast
qed

section \<open>Samples\<close>

definition two_teams :: group_db where
  "two_teams = \<lparr>gd_orgs = [1, 2],
     gd_groups = [\<lparr>gr_id = 1, gr_org = 1, gr_name = ''general'', gr_display = ''general'', gr_accepts = False, gr_status = ''active''\<rparr>,
       \<lparr>gr_id = 2, gr_org = 1, gr_name = ''vision'', gr_display = ''Vision'', gr_accepts = True, gr_status = ''active''\<rparr>,
       \<lparr>gr_id = 3, gr_org = 2, gr_name = ''speech'', gr_display = ''Speech'', gr_accepts = True, gr_status = ''active''\<rparr>],
     gd_members = [\<lparr>me_id = 1, me_group = 2, me_user = 5, me_role = ''project_admin'', me_budget = 0, me_consumed = 40, me_status = ''active''\<rparr>,
       \<lparr>me_id = 2, me_group = 3, me_user = 6, me_role = ''project_admin'', me_budget = 0, me_consumed = 0, me_status = ''removed''\<rparr>],
     gd_requests = [\<lparr>jr_id = 1, jr_user = 7, jr_group = 3, jr_status = ''pending''\<rparr>,
       \<lparr>jr_id = 2, jr_user = 6, jr_group = 3, jr_status = ''pending''\<rparr>,
       \<lparr>jr_id = 3, jr_user = 8, jr_group = 2, jr_status = ''rejected''\<rparr>],
     gd_users = [\<lparr>ac_id = 9, ac_name = ''kim'', ac_email = ''kim@x''\<rparr>], gd_next_group = 4, gd_next_member = 3, gd_next_request = 4\<rparr>"

definition team_admin :: caller where
  "team_admin = \<lparr>c_id = 5, c_admin = False\<rparr>"

abbreviation all_well :: group_oracle where
  "all_well \<equiv> \<lambda>_. True"

lemma two_teams_ok: "tables_ok two_teams"
  by (auto simp: tables_ok_def teams_ok_def requests_ok_def keys_distinct_def two_teams_def me_key_def org_name_def)

lemma team_admin_role: "role_in_group all_well two_teams (c_id team_admin) 2 = Some ''project_admin''"
  by (simp add: role_in_group_def two_teams_def me_key_def team_admin_def is_active_def)

theorem team_admin_promotes_itself_witness:
  "\<exists>db' s. group_handle all_well (None :: unit seeder option) team_admin (TeamRoute ''2'' (SetMemberRole ''5'' ''org_admin'')) (two_teams, ()) =
      ((db', ()), None) \<and>
    s \<in> set (manager_scopes all_well db' 5) \<and> require_group_in_scope (og_of all_well db') s ''1'' = Pass ()"
proof -
  have d: "dec 2 = ''2''" "dec 5 = ''5''" "dec 1 = ''1''" by code_simp+
  show ?thesis
    using team_admin_promotes_itself [OF team_admin_role, of "\<lparr>gr_id = 2, gr_org = 1, gr_name = ''vision'', gr_display = ''Vision'',
        gr_accepts = True, gr_status = ''active''\<rparr>" 1 "\<lparr>gr_id = 1, gr_org = 1, gr_name = ''general'', gr_display = ''general'',
        gr_accepts = False, gr_status = ''active''\<rparr>" "None :: unit seeder option" "()"]
    by (auto simp: team_admin_def two_teams_def in_int64_def d)
qed

lemma foreign_runs: "\<not> runs two_teams 5 3"
  by (auto simp: runs_def two_teams_def)

theorem foreign_join_request_approved_witness:
  "\<exists>db' m. group_handle all_well (None :: unit seeder option) team_admin (TeamRoute ''2'' (ApproveJoin ''1'')) (two_teams, ()) =
      ((db', ()), None) \<and> row_of me_key (3, 7) (gd_members db') = Some m \<and> is_active m"
proof -
  have d: "dec 2 = ''2''" "dec 1 = ''1''" by code_simp+
  have "pending_request 1 two_teams = Some \<lparr>jr_id = 1, jr_user = 7, jr_group = 3, jr_status = ''pending''\<rparr>"
    by (simp add: pending_request_def two_teams_def)
  then show ?thesis
    using foreign_join_request_approved [OF team_admin_role, of 1 "\<lparr>jr_id = 1, jr_user = 7, jr_group = 3, jr_status = ''pending''\<rparr>"
        "None :: unit seeder option" "()"] foreign_runs
    by (simp add: d in_int64_def team_admin_def)
qed

theorem rejoined_admin_is_admin_witness:
  "\<exists>db'. approve_join_tx all_well 2 two_teams = (db', None) \<and> role_in_group all_well db' 6 3 = Some ''project_admin'' \<and> runs db' 6 3"
  using rejoined_admin_is_admin [of 3 6 two_teams "\<lparr>me_id = 2, me_group = 3, me_user = 6, me_role = ''project_admin'', me_budget = 0,
      me_consumed = 0, me_status = ''removed''\<rparr>" 2 "\<lparr>jr_id = 2, jr_user = 6, jr_group = 3, jr_status = ''pending''\<rparr>" all_well]
  by (simp add: two_teams_def me_key_def pending_request_def)

theorem move_member_exact_witness:
  "\<exists>db' m n. move_member all_well 2 3 5 [] two_teams = (db', None) \<and>
     row_of me_key (2, 5) (gd_members db') = Some (m\<lparr>me_status := ''removed''\<rparr>) \<and>
     row_of me_key (3, 5) (gd_members db') = Some n \<and> me_role n = ''project_admin''"
proof -
  have "snd (move_member all_well 2 3 5 [] two_teams) = None"
    by (simp add: move_member_def find_group_def move_member_tx_def two_teams_def me_key_def is_active_def)
  then obtain db' where m: "move_member all_well 2 3 5 [] two_teams = (db', None)" by (metis prod.collapse)
  then show ?thesis using move_member_exact [OF m] team_admin_role by (auto simp: team_admin_def)
qed

theorem members_changed_by_managers_witness:
  "\<exists>db' e. group_handle all_well (None :: unit seeder option) team_admin (TeamRoute ''2'' (AddMember ''kim'' [])) (two_teams, ()) =
      ((db', ()), e) \<and> row_of me_key (2, 9) (gd_members db') \<noteq> row_of me_key (2, 9) (gd_members two_teams) \<and>
    runs two_teams 5 2"
proof -
  let ?rq = "TeamRoute ''2'' (AddMember ''kim'' [])"
  obtain db' e where h: "group_handle all_well (None :: unit seeder option) team_admin ?rq (two_teams, ()) = ((db', ()), e)"
    by (metis old.unit.exhaust prod.collapse)
  have p: "parse_int64 ''2'' = Some 2" by code_simp
  have "gd_members db' \<noteq> [] \<and> row_of me_key (2, 9) (gd_members db') \<noteq> row_of me_key (2, 9) (gd_members two_teams)"
    using h team_admin_role
    by (auto simp: group_handle_defs guarded_def group_role_def p parse_id_valid [OF p] group_role_rank_def team_op_defs
        add_member_def known_account_def resolve_account_def upsert_membership_def put_member_def me_key_def two_teams_def
        team_admin_def or_default_def split: verdict.splits)
  then show ?thesis
    using members_changed_by_managers [OF _ h, of 2 9] h by (auto simp: team_admin_def two_teams_def approval_def)
qed

lemma join_run: "\<exists>st' :: group_db \<times> unit. group_run (two_teams, ()) st' \<and> st' \<noteq> (two_teams, ())"
proof -
  let ?st = "fst (group_handle all_well (None :: unit seeder option) team_admin (JoinRequest 3) (two_teams, ()))"
  have "group_run (two_teams, ()) ?st" by (rule group_run.request [OF group_run.start prod.collapse [symmetric]])
  moreover have "?st \<noteq> (two_teams, ())"
    by (simp add: group_handle_defs request_join_def get_accepts_join_def create_join_request_def two_teams_def)
  ultimately show ?thesis by blast
qed

theorem group_tables_invariant_witness:
  "\<exists>st' :: group_db \<times> unit. group_run (two_teams, ()) st' \<and> st' \<noteq> (two_teams, ()) \<and> keys_distinct me_key (gd_members (fst st'))"
proof -
  obtain st' :: "group_db \<times> unit" where run: "group_run (two_teams, ()) st'" "st' \<noteq> (two_teams, ())"
    using join_run by blast
  show ?thesis using run group_tables_invariant [OF run(1)] two_teams_ok by (intro exI [of _ st']) simp
qed

theorem reviewed_requests_are_final_witness:
  "\<exists>st' :: group_db \<times> unit. group_run (two_teams, ()) st' \<and> st' \<noteq> (two_teams, ()) \<and>
    reviewed 3 (fst st') = Some \<lparr>jr_id = 3, jr_user = 8, jr_group = 2, jr_status = ''rejected''\<rparr>"
proof -
  obtain st' :: "group_db \<times> unit" where run: "group_run (two_teams, ()) st'" "st' \<noteq> (two_teams, ())"
    using join_run by blast
  have "reviewed 3 two_teams = Some \<lparr>jr_id = 3, jr_user = 8, jr_group = 2, jr_status = ''rejected''\<rparr>"
    by (simp add: reviewed_def two_teams_def)
  then show ?thesis using run reviewed_requests_are_final [OF run(1)] two_teams_ok by (intro exI [of _ st']) simp
qed

end
