(* ===== verification/Settings.thy ===== *)
theory Settings
  imports Giosk_Prelude
begin

text \<open>
  Run-time settings (\<open>internal/systemconfig\<close>): the key-value store with its own printing and reading of
  machine integers (\<open>itoa\<close>, \<open>atoiOr\<close>), the update handler of the administrator, and the effective
  configuration every client reads: the values of the installation with the stored ones on top. Go's
  \<open>int\<close> is a \<open>64 word\<close>.
\<close>

section \<open>Printing and reading\<close>

text \<open>The loop of \<open>itoa\<close> fills a buffer of 20 bytes from its end. \<open>None\<close> stands for a write before the
  buffer, which panics, and for not returning. On the positive numbers it runs on, signed and unsigned
  division agree.\<close>

partial_function (option) itoa_loop :: "64 word \<Rightarrow> nat \<Rightarrow> string \<Rightarrow> (nat \<times> string) option" where
  "itoa_loop n i b =
     (if 0 <s n then (if i = 0 then None else itoa_loop (n div 10) (i - 1) (b[i - 1 := digit_char (unat (n mod 10))]))
      else Some (i, b))"

definition itoa :: "64 word \<Rightarrow> string option" where
  "itoa n =
     (if n = 0 then Some ''0''
      else (let neg = n <s 0
            in case itoa_loop (if neg then - n else n) 20 (replicate 20 (char_of (0 :: nat))) of None \<Rightarrow> None
               | Some (i, b) \<Rightarrow>
                   if neg then (if i = 0 then None else Some (drop (i - 1) (b[i - 1 := CHR ''-''])))
                   else Some (drop i b)))"

fun atoi_digits :: "string \<Rightarrow> 64 word \<Rightarrow> 64 word option" where
  "atoi_digits [] n = Some n"
| "atoi_digits (c # s) n = (if is_digit c then atoi_digits s (n * 10 + of_nat (of_char c - 48)) else None)"

definition atoi_or :: "string \<Rightarrow> 64 word \<Rightarrow> 64 word" where
  "atoi_or s d =
     (let sign = (if s \<noteq> [] \<and> hd s = CHR ''-'' then - 1 else 1); r = (if s \<noteq> [] \<and> hd s = CHR ''-'' then tl s else s)
      in if r = [] then d else case atoi_digits r 0 of None \<Rightarrow> d | Some n \<Rightarrow> n * sign)"

section \<open>The store\<close>

datatype cfg_key = IdleTimeoutMin | StoragePrice | StoppedTTLDays | RechargeEnabled | RechargeAmount | RechargeIntervalDays
  | RechargeReset | RechargeCarryover | QuotaMaxGpu | QuotaMaxVram | QuotaMaxVol | QuotaMaxSessions | QuotaMaxStopped
  | QuotaMaxEphemeral | BrandName | BrandAccent | BrandSubtitle | BrandIcon | BrandIconUrl | SignupRequest | DatasetRegister
  | WorkloadAlerts | GroupJoinRequest | CreditRequest

text \<open>The keys as the table has them; they are distinct, so the model uses the constants themselves.\<close>

fun key_name :: "cfg_key \<Rightarrow> string" where
  "key_name IdleTimeoutMin = ''idle_timeout_min''"
| "key_name StoragePrice = ''storage_price_gib_month''"
| "key_name StoppedTTLDays = ''stopped_ttl_days''"
| "key_name RechargeEnabled = ''credit_recharge_enabled''"
| "key_name RechargeAmount = ''credit_recharge_amount''"
| "key_name RechargeIntervalDays = ''credit_recharge_interval_days''"
| "key_name RechargeReset = ''credit_recharge_reset''"
| "key_name RechargeCarryover = ''credit_recharge_carryover''"
| "key_name QuotaMaxGpu = ''quota_max_gpu''"
| "key_name QuotaMaxVram = ''quota_max_vram_gb''"
| "key_name QuotaMaxVol = ''quota_max_volume_gib''"
| "key_name QuotaMaxSessions = ''quota_max_concurrent_sessions''"
| "key_name QuotaMaxStopped = ''quota_max_stopped_sessions''"
| "key_name QuotaMaxEphemeral = ''quota_max_ephemeral_gib''"
| "key_name BrandName = ''brand_name''"
| "key_name BrandAccent = ''brand_accent''"
| "key_name BrandSubtitle = ''brand_subtitle''"
| "key_name BrandIcon = ''brand_icon''"
| "key_name BrandIconUrl = ''brand_icon_url''"
| "key_name SignupRequest = ''feature_signup_request''"
| "key_name DatasetRegister = ''feature_dataset_register''"
| "key_name WorkloadAlerts = ''feature_workload_alerts''"
| "key_name GroupJoinRequest = ''feature_group_join''"
| "key_name CreditRequest = ''feature_credit_request''"

definition all_keys :: "cfg_key list" where
  "all_keys = [IdleTimeoutMin, StoragePrice, StoppedTTLDays, RechargeEnabled, RechargeAmount, RechargeIntervalDays, RechargeReset,
     RechargeCarryover, QuotaMaxGpu, QuotaMaxVram, QuotaMaxVol, QuotaMaxSessions, QuotaMaxStopped, QuotaMaxEphemeral, BrandName,
     BrandAccent, BrandSubtitle, BrandIcon, BrandIconUrl, SignupRequest, DatasetRegister, WorkloadAlerts, GroupJoinRequest,
     CreditRequest]"

lemma key_names_distinct: "distinct (map key_name all_keys)"
  by code_simp

lemma all_keys: "k \<in> set all_keys"
  by (cases k) (simp_all add: all_keys_def)

lemma key_name_inj: "key_name j = key_name k \<longleftrightarrow> j = k"
  using key_names_distinct all_keys [of j] all_keys [of k] by (auto simp: distinct_map inj_on_def)

type_synonym runtime = "cfg_key \<Rightarrow> string option"

definition set_kv :: "(cfg_key \<Rightarrow> bool) \<Rightarrow> cfg_key \<Rightarrow> string \<Rightarrow> runtime \<Rightarrow> runtime" where
  "set_kv ok k v rt = (if ok k then rt(k \<mapsto> v) else rt)"

text \<open>A missing key reads as the empty string, in \<open>Get\<close>, \<open>IntOr\<close> and through \<open>All\<close>.\<close>

definition get_kv :: "runtime \<Rightarrow> cfg_key \<Rightarrow> string" where
  "get_kv rt k = (case rt k of None \<Rightarrow> [] | Some v \<Rightarrow> v)"

definition int_or :: "runtime \<Rightarrow> cfg_key \<Rightarrow> 64 word \<Rightarrow> 64 word" where
  "int_or rt k d = atoi_or (get_kv rt k) d"

section \<open>Update and effective configuration\<close>

record branding =
  br_name :: string
  br_accent :: string
  br_subtitle :: string
  br_icon :: string
  br_icon_url :: string

record features =
  ft_signup :: bool
  ft_dataset :: bool
  ft_alerts :: bool
  ft_join :: bool
  ft_credit :: bool

text \<open>What the installation fixes, as far as it can be overridden.\<close>

record install =
  in_idle :: "64 word"
  in_price :: "64 word"
  in_ttl :: "64 word"
  in_branding :: branding
  in_features :: features

record effective =
  ef_idle :: "64 word"
  ef_price :: "64 word"
  ef_ttl :: "64 word"
  ef_branding :: branding
  ef_recharge :: bool
  ef_interval :: "64 word"
  ef_carryover :: bool
  ef_features :: features

definition feat :: "runtime \<Rightarrow> cfg_key \<Rightarrow> bool \<Rightarrow> bool" where
  "feat rt k d = (case rt k of None \<Rightarrow> d | Some v \<Rightarrow> v = ''true'')"

definition or_stored :: "runtime \<Rightarrow> cfg_key \<Rightarrow> string \<Rightarrow> string" where
  "or_stored rt k d = (case rt k of None \<Rightarrow> d | Some v \<Rightarrow> v)"

definition effective_config :: "install \<Rightarrow> runtime \<Rightarrow> effective" where
  "effective_config cfg rt =
     \<lparr>ef_idle = atoi_or (get_kv rt IdleTimeoutMin) (in_idle cfg),
      ef_price = atoi_or (get_kv rt StoragePrice) (in_price cfg),
      ef_ttl = atoi_or (get_kv rt StoppedTTLDays) (in_ttl cfg),
      ef_branding = \<lparr>br_name = (if get_kv rt BrandName \<noteq> [] then get_kv rt BrandName else br_name (in_branding cfg)),
        br_accent = or_stored rt BrandAccent (br_accent (in_branding cfg)),
        br_subtitle = or_stored rt BrandSubtitle (br_subtitle (in_branding cfg)),
        br_icon = or_stored rt BrandIcon (br_icon (in_branding cfg)),
        br_icon_url = or_stored rt BrandIconUrl (br_icon_url (in_branding cfg))\<rparr>,
      ef_recharge = (get_kv rt RechargeEnabled = ''true''),
      ef_interval = atoi_or (get_kv rt RechargeIntervalDays) 30,
      ef_carryover = (get_kv rt RechargeCarryover = ''true''),
      ef_features = \<lparr>ft_signup = feat rt SignupRequest (ft_signup (in_features cfg)),
        ft_dataset = feat rt DatasetRegister (ft_dataset (in_features cfg)),
        ft_alerts = feat rt WorkloadAlerts (ft_alerts (in_features cfg)),
        ft_join = feat rt GroupJoinRequest (ft_join (in_features cfg)),
        ft_credit = feat rt CreditRequest (ft_credit (in_features cfg))\<rparr>\<rparr>"

record update_req =
  up_idle :: "64 word option"
  up_price :: "64 word option"
  up_ttl :: "64 word option"
  up_recharge :: "bool option"
  up_interval :: "64 word option"
  up_carryover :: "bool option"
  up_name :: "string option"
  up_accent :: "string option"
  up_subtitle :: "string option"
  up_icon :: "string option"
  up_icon_url :: "string option"
  up_features :: "(string \<times> bool) list"

definition bool_str :: "bool \<Rightarrow> string" where
  "bool_str b = (if b then ''true'' else ''false'')"

definition feature_key :: "string \<Rightarrow> cfg_key option" where
  "feature_key k =
     (if k = ''signupRequest'' then Some SignupRequest
      else if k = ''datasetRegister'' then Some DatasetRegister
      else if k = ''workloadAlerts'' then Some WorkloadAlerts
      else if k = ''groupJoinRequest'' then Some GroupJoinRequest
      else if k = ''creditRequest'' then Some CreditRequest else None)"

text \<open>One optional field of the request: stored when it is given and allowed. A number that could not be
  printed would not return from the handler; \<open>itoa_prints\<close> shows that none is.\<close>

definition save_int ::
  "(cfg_key \<Rightarrow> bool) \<Rightarrow> cfg_key \<Rightarrow> (64 word \<Rightarrow> bool) \<Rightarrow> 64 word option \<Rightarrow> runtime option \<Rightarrow> runtime option" where
  "save_int ok k allowed v st =
     (case st of None \<Rightarrow> None
      | Some rt \<Rightarrow>
          (case v of None \<Rightarrow> Some rt
           | Some n \<Rightarrow> if allowed n then (case itoa n of None \<Rightarrow> None | Some s \<Rightarrow> Some (set_kv ok k s rt)) else Some rt))"

definition save_string :: "(cfg_key \<Rightarrow> bool) \<Rightarrow> cfg_key \<Rightarrow> string option \<Rightarrow> runtime \<Rightarrow> runtime" where
  "save_string ok k v rt = (case v of None \<Rightarrow> rt | Some s \<Rightarrow> set_kv ok k s rt)"

definition save_feature :: "(cfg_key \<Rightarrow> bool) \<Rightarrow> string \<times> bool \<Rightarrow> runtime \<Rightarrow> runtime" where
  "save_feature ok kv rt = (case feature_key (fst kv) of None \<Rightarrow> rt | Some k \<Rightarrow> set_kv ok k (bool_str (snd kv)) rt)"

definition update_config :: "(cfg_key \<Rightarrow> bool) \<Rightarrow> update_req \<Rightarrow> runtime \<Rightarrow> runtime option" where
  "update_config ok r rt =
     (let r1 = save_int ok IdleTimeoutMin (\<lambda>n. 0 <s n) (up_idle r) (Some rt);
          r2 = save_int ok StoragePrice (\<lambda>n. 0 \<le>s n) (up_price r) r1;
          r3 = save_int ok StoppedTTLDays (\<lambda>n. 0 \<le>s n) (up_ttl r) r2;
          r4 = map_option (save_string ok RechargeEnabled (map_option bool_str (up_recharge r))) r3;
          r5 = save_int ok RechargeIntervalDays (\<lambda>n. 0 <s n) (up_interval r) r4;
          r6 = map_option (save_string ok RechargeCarryover (map_option bool_str (up_carryover r))) r5;
          r7 = map_option (\<lambda>rt. save_string ok BrandIconUrl (up_icon_url r) (save_string ok BrandIcon (up_icon r)
                 (save_string ok BrandSubtitle (up_subtitle r) (save_string ok BrandAccent (up_accent r)
                 (save_string ok BrandName (up_name r) rt))))) r6
      in map_option (fold (save_feature ok) (up_features r)) r7)"

section \<open>Printing is total and exact\<close>

lemma dec_nat_rec: "10 \<le> n \<Longrightarrow> dec_nat n = dec_nat (n div 10) @ [digit_char (n mod 10)]"
  by (simp add: dec_nat.simps [of n])

lemma dec_nat_digit: "n < 10 \<Longrightarrow> dec_nat n = [digit_char n]"
  by (simp add: dec_nat.simps [of n])

lemma length_dec_nat: "0 < m \<Longrightarrow> n < 10 ^ m \<Longrightarrow> length (dec_nat n) \<le> m"
proof (induction m arbitrary: n)
  case (Suc m)
  show ?case
  proof (cases "n < 10")
    case False
    then have "m \<noteq> 0" using Suc.prems(2) by (cases m) auto
    moreover have "n div 10 < 10 ^ m" using Suc.prems(2) by simp
    ultimately show ?thesis using Suc.IH [of "n div 10"] False by (simp add: dec_nat_rec)
  qed (simp add: dec_nat_digit)
qed simp

lemma uint_of_sint: "uint (n :: 64 word) = (if sint n < 0 then sint n + 2 ^ 64 else sint n)"
proof -
  have u: "uint n = sint n mod 2 ^ 64" by (simp add: uint_sint take_bit_eq_mod)
  have b: "- (2 ^ 63) \<le> sint n" "sint n < 2 ^ 63" using sint_ge [of n] sint_lt [of n] by simp_all
  show ?thesis
  proof (cases "sint n < 0")
    case True
    have "sint n mod 2 ^ 64 = (sint n + 2 ^ 64) mod 2 ^ 64" by simp
    also have "\<dots> = sint n + 2 ^ 64" using True b by (intro mod_pos_pos_trivial) auto
    finally show ?thesis using u True by simp
  qed (use u b in simp)
qed

lemma sint_range: "- (2 ^ 63) \<le> sint (n :: 64 word)" "sint (n :: 64 word) < 2 ^ 63"
  using sint_ge [of n] sint_lt [of n] by simp_all

lemma positive_word: "0 <s (n :: 64 word) \<longleftrightarrow> 0 < unat n \<and> unat n < 2 ^ 63"
proof -
  have "unat n = nat (if sint n < 0 then sint n + 2 ^ 64 else sint n)" by (simp add: unat_eq_nat_uint uint_of_sint)
  then show ?thesis using sint_range [of n] unfolding word_sless_alt by (auto split: if_splits)
qed

lemma itoa_loop_fills:
  assumes "0 < unat n" "unat n < 2 ^ 63" "length (dec_nat (unat n)) \<le> i" "i \<le> length b"
  shows "itoa_loop n i b =
    Some (i - length (dec_nat (unat n)),
      take (i - length (dec_nat (unat n))) b @ dec_nat (unat n) @ drop i b)"
  using assms
proof (induction "unat n" arbitrary: n i b rule: less_induct)
  case less
  have pos: "0 <s n" using less.prems(1,2) by (simp add: positive_word)
  have i: "i \<noteq> 0" using less.prems(3) by (cases i) auto
  have q: "unat (n div 10) = unat n div 10" "unat (n mod 10) = unat n mod 10"
    by (simp_all add: unat_div unat_mod)
  let ?b = "b[i - 1 := digit_char (unat n mod 10)]"
  have drop: "drop (i - 1) ?b = digit_char (unat n mod 10) # drop i b"
    using i less.prems(4) by (simp add: Cons_nth_drop_Suc [symmetric])
  show ?case
  proof (cases "unat n < 10")
    case True
    then have "unat (n div 10) = 0" by (simp add: q)
    then have "itoa_loop (n div 10) (i - 1) ?b = Some (i - 1, ?b)"
      by (subst itoa_loop.simps) (simp add: positive_word)
    moreover have "?b = take (i - 1) b @ digit_char (unat n) # drop i b"
      using i less.prems(4) True by (simp add: upd_conv_take_nth_drop)
    ultimately show ?thesis
      using pos i True by (subst itoa_loop.simps) (simp add: q dec_nat_digit)
  next
    case False
    let ?d = "dec_nat (unat n div 10)"
    have d: "dec_nat (unat n) = ?d @ [digit_char (unat n mod 10)]" using False by (simp add: dec_nat_rec)
    have "itoa_loop (n div 10) (i - 1) ?b = Some (i - 1 - length ?d, take (i - 1 - length ?d) ?b @ ?d @ drop (i - 1) ?b)"
      using less.hyps [of "n div 10" "i - 1" ?b] less.prems False d by (simp add: q)
    then show ?thesis
      using pos i by (subst itoa_loop.simps) (simp add: q d drop [simplified])
  qed
qed

lemma pow10_63: "(2 :: nat) ^ 63 < 10 ^ 19" by simp

lemma itoa_positive:
  assumes "0 < unat m" "unat m < 2 ^ 63"
  shows "itoa_loop m 20 (replicate 20 z) =
      Some (20 - length (dec_nat (unat m)), replicate (20 - length (dec_nat (unat m))) z @ dec_nat (unat m))"
    and "length (dec_nat (unat m)) \<le> 19"
proof -
  show l: "length (dec_nat (unat m)) \<le> 19" using assms(2) pow10_63 by (intro length_dec_nat) linarith+
  show "itoa_loop m 20 (replicate 20 z) =
      Some (20 - length (dec_nat (unat m)), replicate (20 - length (dec_nat (unat m))) z @ dec_nat (unat m))"
    using itoa_loop_fills [OF assms, of 20 "replicate 20 z"] l by simp
qed

lemma unat_sint: "0 \<le> sint n \<Longrightarrow> unat (n :: 64 word) = nat (sint n)"
  using uint_of_sint [of n] by (simp add: unat_eq_nat_uint)

lemma sint_minus:
  assumes "sint (n :: 64 word) \<noteq> - (2 ^ 63)"
  shows "sint (- n) = - sint n"
proof -
  have "sint (- n) = signed_take_bit 63 (- sint n)" by (simp add: sint_word_minus)
  also have "\<dots> = - sint n" using sint_range [of n] assms by (intro signed_take_bit_int_eq_self) linarith+
  finally show ?thesis .
qed

text \<open>The one number that is its own negation is printed without its digits.\<close>

definition printed :: "64 word \<Rightarrow> string" where
  "printed n = (if sint n = - (2 ^ 63) then ''-'' else dec (sint n))"

lemma itoa_exact: "itoa n = Some (printed n)" and printed_length: "length (printed n) \<le> 20"
proof -
  have z: "n = 0 \<longleftrightarrow> sint n = 0" by (metis signed_0 signed_eq_0_iff)
  have neg: "n <s 0 \<longleftrightarrow> sint n < 0" by (simp add: word_sless_alt)
  consider "sint n = 0" | "0 < sint n" | "sint n = - (2 ^ 63)" | "sint n < 0" "sint n \<noteq> - (2 ^ 63)" by linarith
  then have "itoa n = Some (printed n) \<and> length (printed n) \<le> 20"
  proof cases
    case 1
    have "digit_char 0 = CHR ''0''" by code_simp
    with 1 show ?thesis by (simp add: itoa_def z printed_def dec_def dec_nat_digit)
  next
    case 2
    then have u: "unat n = nat (sint n)" by (simp add: unat_sint)
    have r: "0 < unat n" "unat n < 2 ^ 63" using 2 sint_range [of n] by (simp_all add: u nat_less_iff)
    show ?thesis
      using 2 itoa_positive(1) [OF r, of "char_of (0 :: nat)"] itoa_positive(2) [OF r] by (simp add: itoa_def z neg printed_def dec_def u)
  next
    case 3
    have "n = word_of_int (sint n)" by simp
    then have n: "n = - 9223372036854775808" unfolding 3 by simp
    have m: "- n = n" unfolding n by simp
    have "itoa_loop (- n) 20 b = Some (20, b)" for b
      unfolding m using 3 by (subst itoa_loop.simps) (simp add: word_sless_alt)
    then show ?thesis using 3 by (simp add: itoa_def z neg printed_def list_update_append upd_conv_take_nth_drop)
  next
    case 4
    have m: "sint (- n) = - sint n" using 4(2) by (rule sint_minus)
    then have u: "unat (- n) = nat (- sint n)" using 4 unat_sint [of "- n"] by simp
    have r: "0 < unat (- n)" "unat (- n) < 2 ^ 63" using 4 sint_range [of n] by (simp_all add: u nat_less_iff)
    let ?d = "dec_nat (nat (- sint n))"
    have l: "length ?d \<le> 19" using itoa_positive(2) [OF r] u by simp
    have "itoa n = Some (drop (19 - length ?d) ((replicate (20 - length ?d) (char_of (0 :: nat)) @ ?d)[19 - length ?d := CHR ''-'']))"
      using 4 l itoa_positive(1) [OF r, of "char_of (0 :: nat)"] by (simp add: itoa_def z neg u)
    also have "\<dots> = Some (CHR ''-'' # ?d)"
    proof -
      have "drop k ((replicate (Suc k) z @ d)[k := c]) = c # d" for k and z c :: char and d
        by (induction k) auto
      moreover have "20 - length ?d = Suc (19 - length ?d)" using l by simp
      ultimately show ?thesis by simp
    qed
    finally show ?thesis using 4 l by (simp add: printed_def dec_def)
  qed
  then show "itoa n = Some (printed n)" "length (printed n) \<le> 20" by simp_all
qed

text \<open>C39: \<open>itoa\<close> returns on every 64-bit integer and never writes outside its buffer of 20 bytes: its loop ends
  with at most 19 digits, and the result is the number in decimal, except for the least integer, whose
  negation overflows and which is printed as a lone sign.\<close>

theorem itoa_prints:
  "itoa n = Some (if sint n = - (2 ^ 63) then ''-'' else dec (sint n)) \<and> length (printed n) \<le> 20"
  using itoa_exact [of n] printed_length [of n] by (simp add: printed_def)

section \<open>Reading back\<close>

lemma atoi_digits_value: "list_all is_digit s \<Longrightarrow> atoi_digits s (of_nat a) = Some (of_nat (foldl undec_step a s))"
proof (induction s arbitrary: a)
  case (Cons c s)
  have "(of_nat a :: 64 word) * 10 + of_nat (of_char c - 48) = of_nat (undec_step a c)"
    by (simp add: undec_step_def mult.commute)
  with Cons show ?case by simp
qed simp

lemma atoi_dec_nat: "atoi_digits (dec_nat k) 0 = Some (of_nat k)"
  using atoi_digits_value [of "dec_nat k" 0] dec_nat_digits [of k] by (simp add: list_all_iff undec_dec_nat)

lemma dec_nat_no_sign: "hd (dec_nat k) \<noteq> CHR ''-''"
proof -
  have "is_digit (hd (dec_nat k))" using dec_nat_digits [of k] by simp
  then show ?thesis by (auto simp: is_digit_def)
qed

lemma atoi_printed: "atoi_or (printed n) d = (if sint n = - (2 ^ 63) then d else n)"
proof -
  have w: "word_of_int (sint n) = n" by simp
  consider "sint n = - (2 ^ 63)" | "0 \<le> sint n" | "sint n < 0" "sint n \<noteq> - (2 ^ 63)" by linarith
  then show ?thesis
  proof cases
    case 1
    then show ?thesis by (simp add: printed_def atoi_or_def)
  next
    case 2
    then have "(of_nat (nat (sint n)) :: 64 word) = n" using w by (metis int_nat_eq of_int_of_nat_eq)
    with 2 show ?thesis by (simp add: printed_def dec_def atoi_or_def dec_nat_no_sign atoi_dec_nat Let_def)
  next
    case 3
    then have "(of_nat (nat (- sint n)) :: 64 word) = - n"
      using w by (metis int_nat_eq neg_le_0_iff_le not_le of_int_minus of_int_of_nat_eq order_less_imp_le)
    with 3 show ?thesis by (simp add: printed_def dec_def atoi_or_def atoi_dec_nat Let_def)
  qed
qed

section \<open>Saved settings are what everybody reads\<close>

definition chosen :: "('a \<Rightarrow> bool) \<Rightarrow> 'a option \<Rightarrow> 'a \<Rightarrow> 'a" where
  "chosen allowed v old = (case v of None \<Rightarrow> old | Some n \<Rightarrow> if allowed n then n else old)"

definition put_int :: "cfg_key \<Rightarrow> (64 word \<Rightarrow> bool) \<Rightarrow> 64 word option \<Rightarrow> runtime \<Rightarrow> runtime" where
  "put_int k allowed v rt = (case v of None \<Rightarrow> rt | Some n \<Rightarrow> if allowed n then rt(k \<mapsto> printed n) else rt)"

lemma save_int_Some: "save_int (\<lambda>_. True) k allowed v (Some rt) = Some (put_int k allowed v rt)"
  by (simp add: save_int_def itoa_exact put_int_def set_kv_def split: option.split)

lemma read_back:
  "put_int k allowed v rt j =
     (if j = k then (case v of None \<Rightarrow> rt k | Some n \<Rightarrow> if allowed n then Some (printed n) else rt k) else rt j)"
  "save_string (\<lambda>_. True) k s rt j = (if j = k then (case s of None \<Rightarrow> rt k | Some x \<Rightarrow> Some x) else rt j)"
  by (auto simp: put_int_def save_string_def set_kv_def split: option.split)

lemma bool_str_true [simp]: "bool_str b = ''true'' \<longleftrightarrow> b"
  by (simp add: bool_str_def)

lemma int_shown:
  assumes "rt' k = (case v of None \<Rightarrow> rt k | Some n \<Rightarrow> if allowed n then Some (printed n) else rt k)"
    and "\<And>n. allowed n \<Longrightarrow> 0 \<le>s n"
  shows "atoi_or (get_kv rt' k) d = chosen allowed v (atoi_or (get_kv rt k) d)"
proof (cases v)
  case (Some n)
  have "allowed n \<Longrightarrow> sint n \<noteq> - (2 ^ 63)" using assms(2) [of n] by (auto simp: word_sle_eq)
  then show ?thesis using assms(1) Some by (simp add: get_kv_def chosen_def atoi_printed)
qed (use assms(1) in \<open>simp add: get_kv_def chosen_def\<close>)

text \<open>The features of a request are given for distinct names, in any order.\<close>

lemma save_features:
  assumes "distinct (map fst fs)"
  shows "fold (save_feature (\<lambda>_. True)) fs rt k =
    (case find (\<lambda>kv. feature_key (fst kv) = Some k) fs of None \<Rightarrow> rt k | Some kv \<Rightarrow> Some (bool_str (snd kv)))"
  using assms
proof (induction fs arbitrary: rt)
  case (Cons kv fs)
  have inj: "feature_key a = Some k \<Longrightarrow> feature_key b = Some k \<Longrightarrow> a = b" for a b
    by (auto simp: feature_key_def split: if_splits)
  show ?case
  proof (cases "feature_key (fst kv) = Some k")
    case True
    then have "find (\<lambda>kv. feature_key (fst kv) = Some k) fs = None"
      using Cons.prems inj [OF True] unfolding find_None_iff by (metis distinct.simps(2) image_eqI list.simps(9) set_map)
    with Cons True show ?thesis by (simp add: save_feature_def set_kv_def)
  next
    case False
    then have "save_feature (\<lambda>_. True) kv rt k = rt k"
      by (auto simp: save_feature_def set_kv_def split: option.split)
    then show ?thesis using Cons False by (cases "find (\<lambda>kv. feature_key (fst kv) = Some k) fs") simp_all
  qed
qed simp

definition feature_keys :: "cfg_key set" where
  "feature_keys = {SignupRequest, DatasetRegister, WorkloadAlerts, GroupJoinRequest,
     CreditRequest}"

lemma feature_key_range: "feature_key x = Some k \<Longrightarrow> k \<in> feature_keys"
  by (auto simp: feature_key_def feature_keys_def split: if_splits)

lemma other_keys_kept:
  assumes "k \<notin> feature_keys"
  shows "fold (save_feature (\<lambda>_. True)) fs rt k = rt k"
proof (induction fs arbitrary: rt)
  case (Cons kv fs)
  have "save_feature (\<lambda>_. True) kv rt k = rt k"
    using assms feature_key_range [of "fst kv"] by (cases "feature_key (fst kv)") (auto simp: save_feature_def set_kv_def)
  with Cons show ?case by simp
qed simp

lemma feature_shown:
  assumes "distinct (map fst fs)" "\<And>x. feature_key x = Some k \<longleftrightarrow> x = name"
  shows "feat (fold (save_feature (\<lambda>_. True)) fs rt) k d = chosen (\<lambda>_. True) (map_of fs name) (feat rt k d)"
proof -
  have "find (\<lambda>kv. feature_key (fst kv) = Some k) fs = (case map_of fs name of None \<Rightarrow> None | Some b \<Rightarrow> Some (name, b))"
    by (induction fs) (auto simp: assms(2))
  then show ?thesis
    by (cases "map_of fs name") (simp_all add: feat_def chosen_def save_features [OF assms(1)])
qed

lemma features_shown:
  fixes cfg :: install
  assumes "distinct (map fst fs)" "\<And>k. k \<in> feature_keys \<Longrightarrow> rt' k = rt k"
  defines "new \<equiv> ef_features (effective_config cfg (fold (save_feature (\<lambda>_. True)) fs rt'))"
    and "old \<equiv> ef_features (effective_config cfg rt)"
  shows "ft_signup new = chosen (\<lambda>_. True) (map_of fs ''signupRequest'') (ft_signup old)"
    "ft_dataset new = chosen (\<lambda>_. True) (map_of fs ''datasetRegister'') (ft_dataset old)"
    "ft_alerts new = chosen (\<lambda>_. True) (map_of fs ''workloadAlerts'') (ft_alerts old)"
    "ft_join new = chosen (\<lambda>_. True) (map_of fs ''groupJoinRequest'') (ft_join old)"
    "ft_credit new = chosen (\<lambda>_. True) (map_of fs ''creditRequest'') (ft_credit old)"
proof -
  have k: "feat rt' k d = feat rt k d" if "k \<in> feature_keys" for k d
    using assms(2) [OF that] by (simp add: feat_def)
  note f = feature_shown [OF assms(1), of _ _ rt']
  show "ft_signup new = chosen (\<lambda>_. True) (map_of fs ''signupRequest'') (ft_signup old)"
    using f [of SignupRequest "''signupRequest''"] k [of SignupRequest]
    by (simp add: new_def old_def effective_config_def feature_key_def feature_keys_def split: if_splits)
  show "ft_dataset new = chosen (\<lambda>_. True) (map_of fs ''datasetRegister'') (ft_dataset old)"
    using f [of DatasetRegister "''datasetRegister''"] k [of DatasetRegister]
    by (simp add: new_def old_def effective_config_def feature_key_def feature_keys_def split: if_splits)
  show "ft_alerts new = chosen (\<lambda>_. True) (map_of fs ''workloadAlerts'') (ft_alerts old)"
    using f [of WorkloadAlerts "''workloadAlerts''"] k [of WorkloadAlerts]
    by (simp add: new_def old_def effective_config_def feature_key_def feature_keys_def split: if_splits)
  show "ft_join new = chosen (\<lambda>_. True) (map_of fs ''groupJoinRequest'') (ft_join old)"
    using f [of GroupJoinRequest "''groupJoinRequest''"] k [of GroupJoinRequest]
    by (simp add: new_def old_def effective_config_def feature_key_def feature_keys_def split: if_splits)
  show "ft_credit new = chosen (\<lambda>_. True) (map_of fs ''creditRequest'') (ft_credit old)"
    using f [of CreditRequest "''creditRequest''"] k [of CreditRequest]
    by (simp add: new_def old_def effective_config_def feature_key_def feature_keys_def split: if_splits)
qed

text \<open>What everybody should be shown after a request: each field that is given and allowed in place of the old.\<close>

definition shown_after :: "install \<Rightarrow> update_req \<Rightarrow> effective \<Rightarrow> effective" where
  "shown_after cfg r old =
     \<lparr>ef_idle = chosen (\<lambda>n. 0 <s n) (up_idle r) (ef_idle old),
      ef_price = chosen (\<lambda>n. 0 \<le>s n) (up_price r) (ef_price old),
      ef_ttl = chosen (\<lambda>n. 0 \<le>s n) (up_ttl r) (ef_ttl old),
      ef_branding = \<lparr>
        br_name = (if up_name r = Some [] then br_name (in_branding cfg) else chosen (\<lambda>_. True) (up_name r) (br_name (ef_branding old))),
        br_accent = chosen (\<lambda>_. True) (up_accent r) (br_accent (ef_branding old)),
        br_subtitle = chosen (\<lambda>_. True) (up_subtitle r) (br_subtitle (ef_branding old)),
        br_icon = chosen (\<lambda>_. True) (up_icon r) (br_icon (ef_branding old)),
        br_icon_url = chosen (\<lambda>_. True) (up_icon_url r) (br_icon_url (ef_branding old))\<rparr>,
      ef_recharge = chosen (\<lambda>_. True) (up_recharge r) (ef_recharge old),
      ef_interval = chosen (\<lambda>n. 0 <s n) (up_interval r) (ef_interval old),
      ef_carryover = chosen (\<lambda>_. True) (up_carryover r) (ef_carryover old),
      ef_features = \<lparr>
        ft_signup = chosen (\<lambda>_. True) (map_of (up_features r) ''signupRequest'') (ft_signup (ef_features old)),
        ft_dataset = chosen (\<lambda>_. True) (map_of (up_features r) ''datasetRegister'') (ft_dataset (ef_features old)),
        ft_alerts = chosen (\<lambda>_. True) (map_of (up_features r) ''workloadAlerts'') (ft_alerts (ef_features old)),
        ft_join = chosen (\<lambda>_. True) (map_of (up_features r) ''groupJoinRequest'') (ft_join (ef_features old)),
        ft_credit = chosen (\<lambda>_. True) (map_of (up_features r) ''creditRequest'') (ft_credit (ef_features old))\<rparr>\<rparr>"

text \<open>C27: What an administrator saves is what every client is then shown, when every statement of the save
  succeeds: each of the numbers, brand fields and switches of the request that is given and allowed (timeouts and
  intervals positive, prices and days not negative) replaces the effective value, exactly, and every field of the
  effective configuration that is not given or not allowed is shown as before; an empty brand name is the
  exception, it restores the installation's.\<close>

theorem saved_settings_are_shown:
  assumes "distinct (map fst (up_features r))"
  shows "\<exists>rt'. update_config (\<lambda>_. True) r rt = Some rt' \<and>
    effective_config cfg rt' = shown_after cfg r (effective_config cfg rt)"
proof -
  define rt1 where "rt1 = put_int StoppedTTLDays (\<lambda>n. 0 \<le>s n) (up_ttl r) (put_int StoragePrice (\<lambda>n. 0 \<le>s n)
    (up_price r) (put_int IdleTimeoutMin (\<lambda>n. 0 <s n) (up_idle r) rt))"
  define rt2 where "rt2 = save_string (\<lambda>_. True) RechargeCarryover (map_option bool_str (up_carryover r))
    (put_int RechargeIntervalDays (\<lambda>n. 0 <s n) (up_interval r)
      (save_string (\<lambda>_. True) RechargeEnabled (map_option bool_str (up_recharge r)) rt1))"
  define rt3 where "rt3 = save_string (\<lambda>_. True) BrandIconUrl (up_icon_url r) (save_string (\<lambda>_. True) BrandIcon (up_icon r)
    (save_string (\<lambda>_. True) BrandSubtitle (up_subtitle r) (save_string (\<lambda>_. True) BrandAccent (up_accent r)
    (save_string (\<lambda>_. True) BrandName (up_name r) rt2))))"
  note rts = rt1_def rt2_def rt3_def
  let ?rt = "fold (save_feature (\<lambda>_. True)) (up_features r) rt3"
  have saved: "update_config (\<lambda>_. True) r rt = Some ?rt"
    by (simp add: update_config_def Let_def save_int_Some rts)
  have "ef_idle (effective_config cfg ?rt) = chosen (\<lambda>n. 0 <s n) (up_idle r) (ef_idle (effective_config cfg rt))"
    unfolding effective_config_def effective.simps
    by (rule int_shown) (simp_all add: rts other_keys_kept feature_keys_def read_back signed.less_imp_le cong: option.case_cong if_cong)
  moreover have "ef_price (effective_config cfg ?rt) = chosen (\<lambda>n. 0 \<le>s n) (up_price r) (ef_price (effective_config cfg rt))"
    unfolding effective_config_def effective.simps
    by (rule int_shown) (simp_all add: rts other_keys_kept feature_keys_def read_back cong: option.case_cong if_cong)
  moreover have "ef_ttl (effective_config cfg ?rt) = chosen (\<lambda>n. 0 \<le>s n) (up_ttl r) (ef_ttl (effective_config cfg rt))"
    unfolding effective_config_def effective.simps
    by (rule int_shown) (simp_all add: rts other_keys_kept feature_keys_def read_back cong: option.case_cong if_cong)
  moreover have "ef_interval (effective_config cfg ?rt) = chosen (\<lambda>n. 0 <s n) (up_interval r) (ef_interval (effective_config cfg rt))"
    unfolding effective_config_def effective.simps
    by (rule int_shown) (simp_all add: rts other_keys_kept feature_keys_def read_back signed.less_imp_le cong: option.case_cong if_cong)
  moreover have "ef_recharge (effective_config cfg ?rt) = chosen (\<lambda>_. True) (up_recharge r) (ef_recharge (effective_config cfg rt))"
    "ef_carryover (effective_config cfg ?rt) = chosen (\<lambda>_. True) (up_carryover r) (ef_carryover (effective_config cfg rt))"
    by (auto simp: effective_config_def get_kv_def rts other_keys_kept feature_keys_def read_back chosen_def split: option.split)
  moreover have "br_name (ef_branding (effective_config cfg ?rt)) =
      (if up_name r = Some [] then br_name (in_branding cfg)
       else chosen (\<lambda>_. True) (up_name r) (br_name (ef_branding (effective_config cfg rt))))"
    by (auto simp: effective_config_def get_kv_def rts other_keys_kept feature_keys_def read_back chosen_def
        split: option.split)
  moreover have "br_accent (ef_branding (effective_config cfg ?rt)) = chosen (\<lambda>_. True) (up_accent r) (br_accent (ef_branding (effective_config cfg rt)))"
    "br_subtitle (ef_branding (effective_config cfg ?rt)) = chosen (\<lambda>_. True) (up_subtitle r) (br_subtitle (ef_branding (effective_config cfg rt)))"
    "br_icon (ef_branding (effective_config cfg ?rt)) = chosen (\<lambda>_. True) (up_icon r) (br_icon (ef_branding (effective_config cfg rt)))"
    "br_icon_url (ef_branding (effective_config cfg ?rt)) = chosen (\<lambda>_. True) (up_icon_url r) (br_icon_url (ef_branding (effective_config cfg rt)))"
    by (simp_all add: effective_config_def or_stored_def rts other_keys_kept feature_keys_def read_back chosen_def split: option.split)
  moreover have same: "rt3 k = rt k" if "k \<in> feature_keys" for k
    using that by (auto simp: rts read_back feature_keys_def)
  note feats = features_shown [where cfg = cfg, OF assms same]
  ultimately have "effective_config cfg ?rt = shown_after cfg r (effective_config cfg rt)"
    by (intro effective.equality branding.equality features.equality) (simp_all add: shown_after_def feats)
  with saved show ?thesis by blast
qed

section \<open>Samples\<close>

definition sample_install :: install where
  "sample_install = \<lparr>in_idle = 60, in_price = 0, in_ttl = 14,
     in_branding = \<lparr>br_name = ''giosk'', br_accent = [], br_subtitle = [], br_icon = [], br_icon_url = []\<rparr>,
     in_features = \<lparr>ft_signup = True, ft_dataset = False, ft_alerts = True, ft_join = True, ft_credit = False\<rparr>\<rparr>"

definition sample_update :: update_req where
  "sample_update = \<lparr>up_idle = Some 30, up_price = Some (- 1), up_ttl = Some 0, up_recharge = None, up_interval = None,
     up_carryover = None, up_name = Some [], up_accent = None, up_subtitle = None, up_icon = None, up_icon_url = None,
     up_features = [(''datasets'', True), (''groupJoinRequest'', False)]\<rparr>"

theorem saved_settings_are_shown_witness:
  "\<exists>rt'. update_config (\<lambda>_. True) sample_update (\<lambda>_. None) = Some rt' \<and>
    ef_idle (effective_config sample_install rt') = 30 \<and> ef_price (effective_config sample_install rt') = 0 \<and>
    ef_ttl (effective_config sample_install rt') = 0 \<and> br_name (ef_branding (effective_config sample_install rt')) = ''giosk'' \<and>
    \<not> ft_join (ef_features (effective_config sample_install rt'))"
proof -
  have d: "distinct (map fst (up_features sample_update))" by (simp add: sample_update_def)
  have old: "ef_price (effective_config sample_install (\<lambda>_. None)) = 0"
    by (simp add: effective_config_def get_kv_def atoi_or_def sample_install_def)
  have "0 <s (30 :: 64 word)" "\<not> 0 \<le>s (- 1 :: 64 word)" "0 \<le>s (0 :: 64 word)" by code_simp+
  then show ?thesis
    using saved_settings_are_shown [OF d, of "\<lambda>_. None" sample_install] old
    by (auto simp: sample_update_def chosen_def shown_after_def sample_install_def)
qed

end
