(* ===== verification/Datasets.thy ===== *)
theory Datasets
  imports Session_Mounts
begin

text \<open>
  Registered datasets (\<open>internal/dataset\<close>): requests and their approval, direct registration by administrators,
  the loading and caching jobs with the reconciler that follows them, node caches, deletion, and the progress
  shown while a job runs. The cluster is the table of jobs (\<open>dw_jobs\<close>, with status and log, which the
  environment advances) and the set of claims; the API server's mount of the dataset NFS is the set of its
  files, each a list of path segments. The session side reads the rows through \<open>DatasetMount\<close>
  (\<open>Session_Mounts\<close>).
\<close>

section \<open>Tables\<close>

record dataset =
  ds_id :: int
  ds_name :: string
  ds_scope :: string
  ds_owner :: string
  ds_owner_user :: int
  ds_class :: string
  ds_gb :: int
  ds_bytes :: int
  ds_hash :: string
  ds_desc :: string
  ds_status :: string
  ds_load :: string
  ds_url :: string
  ds_pvc :: string
  ds_pvc_ns :: string

record ds_request =
  rq_id :: int
  rq_name :: string
  rq_user :: int
  rq_class :: string
  rq_gb :: int
  rq_bytes :: int
  rq_hash :: string
  rq_url :: string
  rq_scope :: string
  rq_status :: string

record cache_row =
  cr_set :: int
  cr_node :: string
  cr_status :: string

record ds_db =
  dd_sets :: "dataset list"
  dd_reqs :: "ds_request list"
  dd_caches :: "cache_row list"
  dd_next :: int
  dd_next_req :: int

datatype dstmt = DNameTaken | DCreateReq | DSetReqSize | DGetReq | DMark | DCreate | DGet | DDelete | DSetPVC | DSetLoad
  | DSetHash | DSetSize | DSetDesc | DSetClass | DLoading | DCacheStatus | DCacheUpsert | DCacheDelete | DCaching
  | DCacheNodes | DCacheDeleteAll

type_synonym ds_oracle = "dstmt \<Rightarrow> bool"

datatype ds_error = DsNotFound | NameTaken | UploadDisabled | BadName | NoInboxFile | NotReady | CacheOff | DsBody | DsDb | DsJob | NoDirectory

definition cache_key :: "cache_row \<Rightarrow> int \<times> string" where
  "cache_key c = (cr_set c, cr_node c)"

definition upd_set :: "int \<Rightarrow> (dataset \<Rightarrow> dataset) \<Rightarrow> ds_db \<Rightarrow> ds_db" where
  "upd_set i f db = db\<lparr>dd_sets := upd_row ds_id i f (dd_sets db)\<rparr>"

text \<open>A failed count reads as 0, so the name counts as free.\<close>

definition name_taken :: "ds_oracle \<Rightarrow> string \<Rightarrow> ds_db \<Rightarrow> bool" where
  "name_taken ok n db \<longleftrightarrow>
     ok DNameTaken \<and> ((\<exists>d \<in> set (dd_sets db). ds_name d = n) \<or> (\<exists>r \<in> set (dd_reqs db). rq_name r = n \<and> rq_status r = ''pending''))"

definition create_request :: "ds_oracle \<Rightarrow> ds_request \<Rightarrow> ds_db \<Rightarrow> ds_db \<times> int option" where
  "create_request ok r db =
     (if ok DCreateReq
      then (db\<lparr>dd_reqs := dd_reqs db @ [r\<lparr>rq_id := dd_next_req db\<rparr>], dd_next_req := dd_next_req db + 1\<rparr>, Some (dd_next_req db))
      else (db, None))"

definition set_request_size :: "ds_oracle \<Rightarrow> int \<Rightarrow> int \<Rightarrow> ds_db \<Rightarrow> ds_db" where
  "set_request_size ok i n db = (if ok DSetReqSize then db\<lparr>dd_reqs := upd_row rq_id i (\<lambda>r. r\<lparr>rq_bytes := n\<rparr>) (dd_reqs db)\<rparr> else db)"

definition get_request :: "ds_oracle \<Rightarrow> int \<Rightarrow> ds_db \<Rightarrow> ds_error + ds_request" where
  "get_request ok i db =
     (if \<not> ok DGetReq then Inl DsDb else case row_of rq_id i (dd_reqs db) of None \<Rightarrow> Inl DsNotFound | Some r \<Rightarrow> Inr r)"

definition mark_request :: "ds_oracle \<Rightarrow> int \<Rightarrow> string \<Rightarrow> ds_db \<Rightarrow> ds_db \<times> bool" where
  "mark_request ok i st db =
     (if ok DMark
      then (db\<lparr>dd_reqs := upd_where (\<lambda>r. rq_id r = i \<and> rq_status r = ''pending'') (\<lambda>r. r\<lparr>rq_status := st\<rparr>) (dd_reqs db)\<rparr>, True)
      else (db, False))"

definition insert_set :: "ds_oracle \<Rightarrow> dataset \<Rightarrow> ds_db \<Rightarrow> ds_db \<times> dataset option" where
  "insert_set ok d db =
     (if ok DCreate
      then (let d' = d\<lparr>ds_id := dd_next db\<rparr> in (db\<lparr>dd_sets := dd_sets db @ [d'], dd_next := dd_next db + 1\<rparr>, Some d'))
      else (db, None))"

definition get_set :: "ds_oracle \<Rightarrow> int \<Rightarrow> ds_db \<Rightarrow> ds_error + dataset" where
  "get_set ok i db =
     (if \<not> ok DGet then Inl DsDb else case row_of ds_id i (dd_sets db) of None \<Rightarrow> Inl DsNotFound | Some d \<Rightarrow> Inr d)"

definition delete_set :: "ds_oracle \<Rightarrow> int \<Rightarrow> ds_db \<Rightarrow> ds_db \<times> bool" where
  "delete_set ok i db = (if ok DDelete then (db\<lparr>dd_sets := filter (\<lambda>d. ds_id d \<noteq> i) (dd_sets db)\<rparr>, True) else (db, False))"

definition set_pvc :: "ds_oracle \<Rightarrow> int \<Rightarrow> string \<Rightarrow> string \<Rightarrow> ds_db \<Rightarrow> ds_db" where
  "set_pvc ok i n ns db = (if ok DSetPVC then upd_set i (\<lambda>d. d\<lparr>ds_pvc := n, ds_pvc_ns := ns\<rparr>) db else db)"

definition set_load :: "ds_oracle \<Rightarrow> int \<Rightarrow> string \<Rightarrow> ds_db \<Rightarrow> ds_db" where
  "set_load ok i st db = (if ok DSetLoad then upd_set i (\<lambda>d. d\<lparr>ds_load := st\<rparr>) db else db)"

definition set_hash :: "ds_oracle \<Rightarrow> int \<Rightarrow> string \<Rightarrow> ds_db \<Rightarrow> ds_db" where
  "set_hash ok i h db = (if h \<noteq> [] \<and> ok DSetHash then upd_set i (\<lambda>d. d\<lparr>ds_hash := h\<rparr>) db else db)"

definition set_size :: "ds_oracle \<Rightarrow> int \<Rightarrow> int \<Rightarrow> ds_db \<Rightarrow> ds_db" where
  "set_size ok i n db = (if 0 < n \<and> ok DSetSize then upd_set i (\<lambda>d. d\<lparr>ds_bytes := n\<rparr>) db else db)"

definition update_meta :: "ds_oracle \<Rightarrow> int \<Rightarrow> string \<Rightarrow> string \<Rightarrow> ds_db \<Rightarrow> ds_db \<times> bool" where
  "update_meta ok i desc cls db =
     (if \<not> ok DSetDesc then (db, False)
      else (let db1 = upd_set i (\<lambda>d. d\<lparr>ds_desc := desc\<rparr>) db
            in if cls = [] then (db1, True)
               else if ok DSetClass then (upd_set i (\<lambda>d. d\<lparr>ds_class := cls\<rparr>) db1, True) else (db1, False)))"

definition list_loading :: "ds_oracle \<Rightarrow> ds_db \<Rightarrow> dataset list" where
  "list_loading ok db = (if ok DLoading then filter (\<lambda>d. ds_load d = ''loading'') (dd_sets db) else [])"

definition cache_status :: "ds_oracle \<Rightarrow> int \<Rightarrow> string \<Rightarrow> ds_db \<Rightarrow> string option" where
  "cache_status ok i node db =
     (if \<not> ok DCacheStatus then None
      else case row_of cache_key (i, node) (dd_caches db) of None \<Rightarrow> None
           | Some c \<Rightarrow> if cr_status c = [] then None else Some (cr_status c))"

definition cache_upsert :: "ds_oracle \<Rightarrow> int \<Rightarrow> string \<Rightarrow> string \<Rightarrow> ds_db \<Rightarrow> ds_db \<times> bool" where
  "cache_upsert ok i node st db =
     (if \<not> ok DCacheUpsert then (db, False)
      else (db\<lparr>dd_caches := (case row_of cache_key (i, node) (dd_caches db) of
                 None \<Rightarrow> dd_caches db @ [\<lparr>cr_set = i, cr_node = node, cr_status = st\<rparr>]
               | Some _ \<Rightarrow> upd_row cache_key (i, node) (\<lambda>c. c\<lparr>cr_status := st\<rparr>) (dd_caches db))\<rparr>, True))"

definition cache_delete :: "ds_oracle \<Rightarrow> int \<Rightarrow> string \<Rightarrow> ds_db \<Rightarrow> ds_db" where
  "cache_delete ok i node db =
     (if ok DCacheDelete then db\<lparr>dd_caches := filter (\<lambda>c. cache_key c \<noteq> (i, node)) (dd_caches db)\<rparr> else db)"

definition list_caching :: "ds_oracle \<Rightarrow> ds_db \<Rightarrow> cache_row list" where
  "list_caching ok db = (if ok DCaching then filter (\<lambda>c. cr_status c = ''caching'') (dd_caches db) else [])"

definition cached_nodes_of :: "ds_oracle \<Rightarrow> int \<Rightarrow> ds_db \<Rightarrow> string list" where
  "cached_nodes_of ok i db =
     (if ok DCacheNodes then map cr_node (filter (\<lambda>c. cr_set c = i \<and> cr_status c = ''cached'') (dd_caches db)) else [])"

definition all_cache_nodes_of :: "ds_oracle \<Rightarrow> int \<Rightarrow> ds_db \<Rightarrow> string list" where
  "all_cache_nodes_of ok i db = (if ok DCacheNodes then map cr_node (filter (\<lambda>c. cr_set c = i) (dd_caches db)) else [])"

definition cache_delete_all :: "ds_oracle \<Rightarrow> int \<Rightarrow> ds_db \<Rightarrow> ds_db" where
  "cache_delete_all ok i db = (if ok DCacheDeleteAll then db\<lparr>dd_caches := filter (\<lambda>c. cr_set c \<noteq> i) (dd_caches db)\<rparr> else db)"

section \<open>Paths\<close>

text \<open>\<open>filepath.Join\<close> on a cleaned absolute path: the segments of the rest are resolved one by one, so \<open>..\<close>
  climbs, out of the mount too.\<close>

fun split_when :: "(char \<Rightarrow> bool) \<Rightarrow> string \<Rightarrow> string list" where
  "split_when sep [] = [[]]"
| "split_when sep (c # s) =
     (if sep c then [] # split_when sep s
      else case split_when sep s of [] \<Rightarrow> [[c]] | x # xs \<Rightarrow> (c # x) # xs)"

definition segments :: "string \<Rightarrow> string list" where
  "segments = split_when (\<lambda>c. c = CHR ''/'')"

definition words_of :: "string \<Rightarrow> string list" where
  "words_of s = filter (\<lambda>x. x \<noteq> []) (split_when is_space s)"

definition clean_step :: "string \<Rightarrow> string list \<Rightarrow> string list" where
  "clean_step seg st = (if seg = [] \<or> seg = ''.'' then st else if seg = ''..'' then tl st else seg # st)"

definition join :: "string list \<Rightarrow> string list \<Rightarrow> string list" where
  "join base elems = rev (fold clean_step (concat (map segments elems)) (rev base))"

text \<open>\<open>filepath.Base\<close> of a path whose backslashes are slashes, trimmed.\<close>

definition base_name :: "string \<Rightarrow> string" where
  "base_name s =
     (if s = [] then ''.''
      else case filter (\<lambda>x. x \<noteq> []) (segments s) of [] \<Rightarrow> ''/'' | xs \<Rightarrow> last xs)"

definition safe_archive_name :: "string \<Rightarrow> string" where
  "safe_archive_name fn =
     (let base = trim_space (base_name (map (\<lambda>c. if c = CHR 0x5C then CHR ''/'' else c) fn))
      in if base = [] \<or> base = ''.'' \<or> base = ''..'' then ''upload.bin'' else base)"

fun contains :: "string \<Rightarrow> string \<Rightarrow> bool" where
  "contains p [] \<longleftrightarrow> p = []"
| "contains p (c # s) \<longleftrightarrow> has_prefix p (c # s) \<or> contains p s"

definition valid_name :: "string \<Rightarrow> bool" where
  "valid_name n \<longleftrightarrow> n \<noteq> [] \<and> CHR ''/'' \<notin> set n \<and> CHR 0x5C \<notin> set n \<and> \<not> contains ''..'' n"

definition under_path :: "string list \<Rightarrow> string list \<Rightarrow> bool" where
  "under_path p f \<longleftrightarrow> take (length p) f = p"

definition remove_all :: "string list \<Rightarrow> string list set \<Rightarrow> string list set" where
  "remove_all p fs = {f \<in> fs. \<not> under_path p f}"

section \<open>The service\<close>

datatype job = Fetch string string | Extract string | CopyTo string string | RemoveFrom string string

datatype job_status = JobRunning | JobSucceeded | JobFailed

record job_row =
  jb_kind :: job
  jb_status :: job_status
  jb_log :: string

record ds_world =
  dw_db :: ds_db
  dw_jobs :: "string \<Rightarrow> job_row option"
  dw_pvcs :: "(string \<times> string) set"
  dw_files :: "string list set"

record ds_svc =
  dv_cluster :: bool
  dv_ns :: string
  dv_server :: string
  dv_base :: string
  dv_cache :: string
  dv_mount :: "string list option"

text \<open>Moving a file out of the inbox: renamed; or copied, the original removed or not; or refused, a copy begun or not.\<close>

datatype move_result = Renamed | Copied bool | Refused bool

text \<open>What a call meets: which statements, jobs and claims succeed, the size behind a URL, sizes of files, whether a
  directory can be made.\<close>

record ds_env =
  de_ok :: ds_oracle
  de_job :: "job \<Rightarrow> bool"
  de_pvc :: bool
  de_status :: "string \<Rightarrow> bool"
  de_remote :: "string \<Rightarrow> int"
  de_size :: "string list \<Rightarrow> int"
  de_mkdir :: bool
  de_move :: move_result

definition canonical :: "ds_svc \<Rightarrow> bool" where
  "canonical sv \<longleftrightarrow> dv_cluster sv \<and> dv_server sv \<noteq> [] \<and> dv_base sv \<noteq> []"

definition upload_enabled :: "ds_svc \<Rightarrow> bool" where
  "upload_enabled sv \<longleftrightarrow> canonical sv \<and> dv_mount sv \<noteq> None"

definition load_job :: "int \<Rightarrow> string" where
  "load_job i = ''dl-ds-'' @ dec i"

definition cache_job :: "int \<Rightarrow> string \<Rightarrow> string" where
  "cache_job i node = ''dc-'' @ dec i @ ''-'' @ node"

definition ds_claim :: "int \<Rightarrow> string" where
  "ds_claim i = ''ds-'' @ dec i"

text \<open>The jobs are created anew under their name: a previous one is deleted first.\<close>

definition run_job :: "ds_env \<Rightarrow> string \<Rightarrow> job \<Rightarrow> ds_world \<Rightarrow> ds_world \<times> bool" where
  "run_job e name k w =
     (if de_job e k then (w\<lparr>dw_jobs := (dw_jobs w)(name \<mapsto> \<lparr>jb_kind = k, jb_status = JobRunning, jb_log = []\<rparr>)\<rparr>, True)
      else (w, False))"

definition delete_job :: "string \<Rightarrow> ds_world \<Rightarrow> ds_world" where
  "delete_job name w = w\<lparr>dw_jobs := (dw_jobs w)(name := None)\<rparr>"

text \<open>\<open>BuildJobStatus\<close>: no job of that name counts as failed; \<open>None\<close> when the cluster cannot be asked.\<close>

definition build_job_status :: "ds_env \<Rightarrow> string \<Rightarrow> ds_world \<Rightarrow> job_status option" where
  "build_job_status e name w =
     (if \<not> de_status e name then None
      else Some (case dw_jobs w name of None \<Rightarrow> JobFailed | Some j \<Rightarrow> jb_status j))"

definition build_logs :: "string \<Rightarrow> ds_world \<Rightarrow> string" where
  "build_logs name w = (case dw_jobs w name of None \<Rightarrow> [] | Some j \<Rightarrow> jb_log j)"

definition pvc_size_gi :: "dataset \<Rightarrow> int" where
  "pvc_size_gi d = (if 1 \<le> ds_gb d then ds_gb d else ds_bytes d div 2 ^ 30 + 1)"

definition dw_upd :: "(ds_db \<Rightarrow> ds_db) \<Rightarrow> ds_world \<Rightarrow> ds_world" where
  "dw_upd f w = w\<lparr>dw_db := f (dw_db w)\<rparr>"

definition ensure_storage :: "ds_svc \<Rightarrow> ds_env \<Rightarrow> dataset \<Rightarrow> ds_world \<Rightarrow> ds_world" where
  "ensure_storage sv e d w =
     (if \<not> dv_cluster sv \<or> ds_pvc d \<noteq> [] then w
      else if \<not> de_pvc e then w
      else dw_upd (set_pvc (de_ok e) (ds_id d) (ds_claim (ds_id d)) (dv_ns sv))
             (w\<lparr>dw_pvcs := insert (dv_ns sv, ds_claim (ds_id d)) (dw_pvcs w)\<rparr>))"

record register_req =
  rr_name :: string
  rr_class :: string
  rr_gb :: int
  rr_hash :: string
  rr_url :: string
  rr_scope :: string

definition register :: "ds_env \<Rightarrow> int \<Rightarrow> register_req \<Rightarrow> ds_world \<Rightarrow> ds_world \<times> ds_error option" where
  "register e u r w =
     (if name_taken (de_ok e) (rr_name r) (dw_db w) then (w, Some NameTaken)
      else case create_request (de_ok e)
               \<lparr>rq_id = 0, rq_name = rr_name r, rq_user = u, rq_class = rr_class r, rq_gb = rr_gb r, rq_bytes = 0, rq_hash = rr_hash r,
                rq_url = rr_url r, rq_scope = or_default (rr_scope r) ''personal'', rq_status = ''pending''\<rparr> (dw_db w) of
             (db, None) \<Rightarrow> (w\<lparr>dw_db := db\<rparr>, Some DsDb)
           | (db, Some _) \<Rightarrow> (w\<lparr>dw_db := db\<rparr>, None))"

text \<open>The size of the source is measured in the background and stored when it is known.\<close>

definition measured :: "ds_env \<Rightarrow> int \<Rightarrow> string \<Rightarrow> ds_world \<Rightarrow> ds_world" where
  "measured e i url w =
     (if url \<noteq> [] \<and> 0 < de_remote e url then dw_upd (set_request_size (de_ok e) i (de_remote e url)) w else w)"

definition new_set :: "string \<Rightarrow> string \<Rightarrow> string \<Rightarrow> int \<Rightarrow> string \<Rightarrow> int \<Rightarrow> string \<Rightarrow> dataset" where
  "new_set name scope owner u url bytes cls =
     (let sc = or_default scope ''global''
      in \<lparr>ds_id = 0, ds_name = name, ds_scope = sc, ds_owner = owner, ds_owner_user = u, ds_class = cls, ds_gb = 0, ds_bytes = bytes,
          ds_hash = [], ds_desc = [], ds_status = (if sc = ''personal'' then ''private'' else ''active''), ds_load = ''loading'',
          ds_url = url, ds_pvc = [], ds_pvc_ns = []\<rparr>)"

text \<open>A job that cannot be created marks the dataset failed.\<close>

definition load_with :: "ds_env \<Rightarrow> (dataset \<Rightarrow> job) \<Rightarrow> dataset \<Rightarrow> ds_world \<Rightarrow> ds_world" where
  "load_with e k d w =
     (case run_job e (load_job (ds_id d)) (k d) w of (w', True) \<Rightarrow> w'
      | (w', False) \<Rightarrow> dw_upd (set_load (de_ok e) (ds_id d) ''failed'') w')"

definition create_loading_and_extract ::
  "ds_env \<Rightarrow> int \<Rightarrow> string \<Rightarrow> string \<Rightarrow> string \<Rightarrow> string \<Rightarrow> int \<Rightarrow> ds_world \<Rightarrow> ds_world \<times> ds_error option" where
  "create_loading_and_extract e u name scope owner cls bytes w =
     (case insert_set (de_ok e) (new_set name scope owner u [] bytes cls) (dw_db w) of
        (db, None) \<Rightarrow> (w\<lparr>dw_db := db\<rparr>, Some DsDb)
      | (db, Some d) \<Rightarrow> (load_with e (\<lambda>d. Extract (ds_name d)) d (w\<lparr>dw_db := db\<rparr>), None))"

definition inbox_dir :: "string list \<Rightarrow> string list" where
  "inbox_dir m = join m [''dataset-inbox'']"

definition dataset_dir :: "string list \<Rightarrow> string \<Rightarrow> string list" where
  "dataset_dir m name = join m [''dataset'', name]"

definition move_file :: "ds_env \<Rightarrow> string list \<Rightarrow> string list \<Rightarrow> ds_world \<Rightarrow> ds_world \<times> bool" where
  "move_file e src dst w =
     (case de_move e of
        Renamed \<Rightarrow> (w\<lparr>dw_files := insert dst (dw_files w - {src})\<rparr>, True)
      | Copied gone \<Rightarrow> (w\<lparr>dw_files := insert dst (if gone then dw_files w - {src} else dw_files w)\<rparr>, True)
      | Refused begun \<Rightarrow> (w\<lparr>dw_files := (if begun then insert dst (dw_files w) else dw_files w)\<rparr>, False))"

definition register_nfs ::
  "ds_svc \<Rightarrow> ds_env \<Rightarrow> int \<Rightarrow> string \<Rightarrow> string \<Rightarrow> string \<Rightarrow> string \<Rightarrow> string \<Rightarrow> ds_world \<Rightarrow> ds_world \<times> ds_error option" where
  "register_nfs sv e u name scope owner file cls w =
     (if \<not> upload_enabled sv then (w, Some UploadDisabled)
      else if \<not> valid_name name then (w, Some BadName)
      else if name_taken (de_ok e) name (dw_db w) then (w, Some NameTaken)
      else (let m = the (dv_mount sv); src = join (inbox_dir m) [safe_archive_name file];
                dst = join (dataset_dir m name) [safe_archive_name file]
            in if src \<notin> dw_files w then (w, Some NoInboxFile)
               else if \<not> de_mkdir e then (w, Some NoDirectory)
               else case move_file e src dst w of
                      (w', False) \<Rightarrow> (w', Some NoInboxFile)
                    | (w', True) \<Rightarrow> create_loading_and_extract e u name scope owner cls (de_size e src) w'))"

definition register_url ::
  "ds_svc \<Rightarrow> ds_env \<Rightarrow> int \<Rightarrow> string \<Rightarrow> string \<Rightarrow> string \<Rightarrow> string \<Rightarrow> string \<Rightarrow> ds_world \<Rightarrow> ds_world \<times> ds_error option" where
  "register_url sv e u name scope owner url cls w =
     (if \<not> canonical sv then (w, Some UploadDisabled)
      else if \<not> valid_name name then (w, Some BadName)
      else if name_taken (de_ok e) name (dw_db w) then (w, Some NameTaken)
      else case insert_set (de_ok e) (new_set name scope owner u url (if url = [] then 0 else de_remote e url) cls) (dw_db w) of
             (db, None) \<Rightarrow> (w\<lparr>dw_db := db\<rparr>, Some DsDb)
           | (db, Some d) \<Rightarrow> (load_with e (\<lambda>d. Fetch (ds_name d) url) d (w\<lparr>dw_db := db\<rparr>), None))"

definition set_of_request :: "ds_svc \<Rightarrow> ds_env \<Rightarrow> ds_request \<Rightarrow> string \<Rightarrow> dataset" where
  "set_of_request sv e r owner =
     \<lparr>ds_id = 0, ds_name = rq_name r, ds_scope = rq_scope r, ds_owner = owner, ds_owner_user = rq_user r, ds_class = rq_class r,
      ds_gb = rq_gb r, ds_bytes = (if rq_bytes r = 0 \<and> rq_url r \<noteq> [] then de_remote e (rq_url r) else rq_bytes r),
      ds_hash = rq_hash r, ds_desc = [], ds_status = (if rq_scope r = ''personal'' then ''private'' else ''active''),
      ds_load = (if canonical sv then ''loading'' else ''ready''), ds_url = rq_url r, ds_pvc = [], ds_pvc_ns = []\<rparr>"

definition approve :: "ds_svc \<Rightarrow> ds_env \<Rightarrow> int \<Rightarrow> string \<Rightarrow> ds_world \<Rightarrow> ds_world \<times> ds_error option" where
  "approve sv e i owner w =
     (case get_request (de_ok e) i (dw_db w) of Inl err \<Rightarrow> (w, Some err)
      | Inr r \<Rightarrow>
          (case insert_set (de_ok e) (set_of_request sv e r owner) (dw_db w) of
             (db, None) \<Rightarrow> (w\<lparr>dw_db := db\<rparr>, Some DsDb)
           | (db, Some d) \<Rightarrow>
               (let w1 = (if canonical sv then load_with e (\<lambda>d. Fetch (ds_name d) (ds_url d)) d (w\<lparr>dw_db := db\<rparr>)
                          else ensure_storage sv e d (w\<lparr>dw_db := db\<rparr>));
                    (db', b) = mark_request (de_ok e) i ''approved'' (dw_db w1)
                in (w1\<lparr>dw_db := db'\<rparr>, if b then None else Some DsDb))))"

definition reject :: "ds_env \<Rightarrow> int \<Rightarrow> ds_world \<Rightarrow> ds_world \<times> ds_error option" where
  "reject e i w = (case mark_request (de_ok e) i ''rejected'' (dw_db w) of (db, b) \<Rightarrow> (w\<lparr>dw_db := db\<rparr>, if b then None else Some DsDb))"

section \<open>Following the jobs\<close>

text \<open>Markers in the log of a job: the last number, or pair of numbers, after a key.\<close>

fun last_marker :: "string \<Rightarrow> string list \<Rightarrow> int option \<Rightarrow> int option" where
  "last_marker key (a # b # ts) v =
     last_marker key (b # ts) (if a = key then case parse_int64 b of None \<Rightarrow> v | Some n \<Rightarrow> Some n else v)"
| "last_marker key _ v = v"

fun last_pair :: "string \<Rightarrow> string list \<Rightarrow> (int \<times> int) option \<Rightarrow> (int \<times> int) option" where
  "last_pair key (a # b # c # ts) v =
     last_pair key (b # c # ts)
       (if a = key then case (parse_int64 b, parse_int64 c) of (Some x, Some y) \<Rightarrow> Some (x, y) | _ \<Rightarrow> v else v)"
| "last_pair key _ v = v"

fun parse_hash_of :: "string list \<Rightarrow> string \<Rightarrow> string" where
  "parse_hash_of (a # b # ts) h = parse_hash_of (b # ts) (if a = ''HASH'' \<and> b \<noteq> [] then b else h)"
| "parse_hash_of _ h = h"

definition parse_hash :: "string \<Rightarrow> string" where
  "parse_hash logs = parse_hash_of (words_of logs) []"

definition parse_extracted :: "string \<Rightarrow> int" where
  "parse_extracted logs = (case last_marker ''EXTRACTED'' (words_of logs) None of None \<Rightarrow> 0 | Some n \<Rightarrow> n)"

definition reconcile_set :: "ds_svc \<Rightarrow> ds_env \<Rightarrow> dataset \<Rightarrow> ds_world \<Rightarrow> ds_world" where
  "reconcile_set sv e d w =
     (let jb = load_job (ds_id d); ok = de_ok e
      in case build_job_status e jb w of
           None \<Rightarrow> w
         | Some JobRunning \<Rightarrow> w
         | Some JobFailed \<Rightarrow> dw_upd (set_load ok (ds_id d) ''failed'') w
         | Some JobSucceeded \<Rightarrow>
             if \<not> de_pvc e then w
             else (let logs = build_logs jb w;
                       w1 = w\<lparr>dw_pvcs := insert (dv_ns sv, ds_claim (ds_id d)) (dw_pvcs w)\<rparr>;
                       w2 = dw_upd (set_pvc ok (ds_id d) (ds_claim (ds_id d)) (dv_ns sv)) w1;
                       w3 = (if ds_hash d = [] then dw_upd (set_hash ok (ds_id d) (parse_hash logs)) w2 else w2);
                       w4 = dw_upd (set_size ok (ds_id d) (parse_extracted logs)) w3;
                       w5 = dw_upd (set_load ok (ds_id d) ''ready'') w4
                   in delete_job jb w5))"

definition reconcile_cache :: "ds_env \<Rightarrow> cache_row \<Rightarrow> ds_world \<Rightarrow> ds_world" where
  "reconcile_cache e c w =
     (let jb = cache_job (cr_set c) (cr_node c)
      in case build_job_status e jb w of
           None \<Rightarrow> w
         | Some JobRunning \<Rightarrow> w
         | Some JobFailed \<Rightarrow> dw_upd (\<lambda>db. fst (cache_upsert (de_ok e) (cr_set c) (cr_node c) ''failed'' db)) w
         | Some JobSucceeded \<Rightarrow>
             delete_job jb (dw_upd (\<lambda>db. fst (cache_upsert (de_ok e) (cr_set c) (cr_node c) ''cached'' db)) w))"

definition ds_reconcile_once :: "ds_svc \<Rightarrow> ds_env \<Rightarrow> ds_world \<Rightarrow> ds_world" where
  "ds_reconcile_once sv e w =
     (let w1 = fold (reconcile_set sv e) (list_loading (de_ok e) (dw_db w)) w
      in fold (reconcile_cache e) (list_caching (de_ok e) (dw_db w1)) w1)"

text \<open>The reconciler is started in canonical mode only.\<close>

definition reconciler_tick :: "ds_svc \<Rightarrow> ds_env \<Rightarrow> ds_world \<Rightarrow> ds_world" where
  "reconciler_tick sv e w = (if canonical sv then ds_reconcile_once sv e w else w)"

section \<open>Deletion and node caches\<close>

definition uncache_job :: "ds_env \<Rightarrow> int \<Rightarrow> string \<Rightarrow> string \<Rightarrow> ds_world \<Rightarrow> ds_world" where
  "uncache_job e i name node w =
     fst (run_job e (''rm-'' @ cache_job i node) (RemoveFrom node name) (delete_job (cache_job i node) w))"

definition delete_dataset :: "ds_svc \<Rightarrow> ds_env \<Rightarrow> int \<Rightarrow> ds_world \<Rightarrow> ds_world \<times> ds_error option" where
  "delete_dataset sv e i w =
     (let w' = (case get_set (de_ok e) i (dw_db w) of Inl _ \<Rightarrow> w
                | Inr d \<Rightarrow>
                    (let w1 = (if dv_cluster sv then delete_job (load_job i) w else w);
                         w2 = (if dv_cluster sv \<and> dv_cache sv \<noteq> []
                               then fold (uncache_job e i (ds_name d)) (all_cache_nodes_of (de_ok e) i (dw_db w1)) w1 else w1);
                         w3 = dw_upd (cache_delete_all (de_ok e) i) w2
                     in case dv_mount sv of None \<Rightarrow> w3
                        | Some m \<Rightarrow> if ds_name d = [] then w3
                                    else w3\<lparr>dw_files := remove_all (dataset_dir m (ds_name d)) (dw_files w3)\<rparr>));
          (db, b) = delete_set (de_ok e) i (dw_db w')
      in (w'\<lparr>dw_db := db\<rparr>, if b then None else Some DsDb))"

definition toggle_cache :: "ds_svc \<Rightarrow> ds_env \<Rightarrow> int \<Rightarrow> string \<Rightarrow> ds_world \<Rightarrow> ds_world \<times> ds_error option" where
  "toggle_cache sv e i node w =
     (case get_set (de_ok e) i (dw_db w) of Inl err \<Rightarrow> (w, Some err)
      | Inr d \<Rightarrow>
          (case cache_status (de_ok e) i node (dw_db w) of
             Some _ \<Rightarrow>
               (let w1 = dw_upd (cache_delete (de_ok e) i node) w
                in (if dv_cluster sv \<and> dv_cache sv \<noteq> [] then uncache_job e i (ds_name d) node w1 else w1, None))
           | None \<Rightarrow>
               if ds_load d \<noteq> ''ready'' then (w, Some NotReady)
               else if \<not> dv_cluster sv \<or> dv_cache sv = [] \<or> \<not> canonical sv then (w, Some CacheOff)
               else (case cache_upsert (de_ok e) i node ''caching'' (dw_db w) of
                       (db, False) \<Rightarrow> (w\<lparr>dw_db := db\<rparr>, Some DsDb)
                     | (db, True) \<Rightarrow>
                         (case run_job e (cache_job i node) (CopyTo node (ds_name d)) (w\<lparr>dw_db := db\<rparr>) of
                            (w', b) \<Rightarrow> (w', if b then None else Some DsJob)))))"

section \<open>Progress\<close>

definition cap_pct :: "int \<Rightarrow> int" where
  "cap_pct v = (if 99 < v then 99 else if v < 0 then 0 else v)"

text \<open>The percentages are computed on \<open>int64\<close>: the product with 100 wraps.\<close>

definition wrap64 :: "int \<Rightarrow> int" where
  "wrap64 n = sint (word_of_int n :: 64 word)"

definition percent :: "int \<Rightarrow> int \<Rightarrow> int" where
  "percent part whole = cap_pct (wrap64 (part * 100) sdiv whole)"

fun progress_values :: "string list \<Rightarrow> int list" where
  "progress_values (a # b # ts) =
     (if a = ''PROGRESS'' then case parse_int64 b of None \<Rightarrow> [] | Some n \<Rightarrow> [n] else []) @ progress_values (b # ts)"
| "progress_values _ = []"

record ds_progress =
  pg_phase :: string
  pg_pct :: int
  pg_eta :: int
  pg_got :: int

definition at_phase :: "string \<Rightarrow> int \<Rightarrow> ds_progress" where
  "at_phase ph p = \<lparr>pg_phase = ph, pg_pct = p, pg_eta = 0, pg_got = 0\<rparr>"

definition interval_sec :: int where
  "interval_sec = 2"

definition eta_of :: "int \<Rightarrow> int list \<Rightarrow> int" where
  "eta_of whole vals =
     (if length vals < 2 then 0
      else (let elapsed = fmul (fl (int (length vals) - 1)) (fl interval_sec);
                rate = fdiv (fl (wrap64 (last vals - hd vals))) elapsed
            in if 0 < rate then max 0 (trunc (fdiv (fl (wrap64 (whole - last vals))) rate)) else 0))"

text \<open>The part both jobs share: the extraction phase, recognised from the log.\<close>

definition extract_phase :: "string \<Rightarrow> int option" where
  "extract_phase logs =
     (if contains ''EXTRACT DONE'' logs then Some 99
      else case last_pair ''EXPROGRESS'' (words_of logs) None of
             Some (ex, whole) \<Rightarrow> Some (if 0 < whole then percent ex whole else 0)
           | None \<Rightarrow> if contains ''EXTRACT'' logs \<or> contains ''EXTOTAL'' logs then Some 0 else None)"

definition load_progress :: "ds_svc \<Rightarrow> int \<Rightarrow> int \<Rightarrow> ds_world \<Rightarrow> ds_progress" where
  "load_progress sv i whole w =
     (if \<not> dv_cluster sv then at_phase [] 0
      else (let logs = build_logs (load_job i) w
            in if logs = [] then at_phase ''download'' 0
               else case extract_phase logs of Some p \<Rightarrow> at_phase ''extract'' p
                    | None \<Rightarrow>
                        if whole \<le> 0 then at_phase ''download'' 0
                        else (let vals = progress_values (words_of logs)
                              in if vals = [] then at_phase ''download'' 0
                                 else \<lparr>pg_phase = ''download'', pg_pct = percent (last vals) whole, pg_eta = eta_of whole vals,
                                       pg_got = last vals\<rparr>)))"

definition cache_progress :: "ds_svc \<Rightarrow> int \<Rightarrow> string \<Rightarrow> ds_world \<Rightarrow> string \<times> int" where
  "cache_progress sv i node w =
     (if \<not> dv_cluster sv then ([], 0)
      else (let logs = build_logs (cache_job i node) w
            in if logs = [] then (''copy'', 0)
               else case extract_phase logs of Some p \<Rightarrow> (''extract'', p)
                    | None \<Rightarrow>
                        (case last_pair ''PROGRESS'' (words_of logs) None of
                           None \<Rightarrow> (''copy'', 0)
                         | Some (cur, whole) \<Rightarrow>
                             if whole \<le> 0 then (''copy'', 0) else (''copy'', percent (min cur whole) whole))))"

section \<open>Requests\<close>

text \<open>What the session side reads: the rows, and where each dataset is cached.\<close>

definition mount_row :: "dataset \<Rightarrow> dataset_row" where
  "mount_row d = \<lparr>dr_id = ds_id d, dr_name = ds_name d, dr_pvc = ds_pvc d, dr_ns = ds_pvc_ns d, dr_scope = ds_scope d,
     dr_status = ds_status d, dr_load = ds_load d\<rparr>"

definition cache_placement :: "ds_svc \<Rightarrow> ds_env \<Rightarrow> int list \<Rightarrow> ds_world \<Rightarrow> placement" where
  "cache_placement sv e ids w =
     (if dv_cache sv = [] then \<lparr>pl_cached = [], pl_paths = []\<rparr>
      else (let known = List.map_filter (\<lambda>i. case get_set (de_ok e) i (dw_db w) of Inl _ \<Rightarrow> None | Inr d \<Rightarrow> Some (i, ds_name d)) (remdups ids)
            in \<lparr>pl_cached = map (\<lambda>(i, _). (i, cached_nodes_of (de_ok e) i (dw_db w))) known,
                pl_paths = map (\<lambda>(i, n). (i, dv_cache sv @ ''/'' @ n)) known\<rparr>))"

text \<open>The HTTP requests. Those of the second group are routed for platform administrators only; a body that
  does not parse is \<open>None\<close>; a path id that is no number reads as 0.\<close>

datatype ds_op =
    RegisterSet "register_req option"
  | DeleteSet string
  | RegisterNfs "(string \<times> string \<times> string \<times> string) option"
  | RegisterUrl "(string \<times> string \<times> string \<times> string) option"
  | DescribeSet string "(string \<times> string) option"
  | ApproveSet string
  | RejectSet string
  | ToggleSet string "string option"

definition ds_handle :: "ds_svc \<Rightarrow> ds_env \<Rightarrow> int \<Rightarrow> string \<Rightarrow> ds_op \<Rightarrow> ds_world \<Rightarrow> ds_world \<times> ds_error option" where
  "ds_handle sv e u uname op w =
     (case op of
        RegisterSet b \<Rightarrow>
          (case b of None \<Rightarrow> (w, Some DsBody) | Some r \<Rightarrow> if rr_name r = [] then (w, Some DsBody) else register e u r w)
      | DeleteSet i \<Rightarrow> delete_dataset sv e (parse_id i) w
      | RegisterNfs b \<Rightarrow>
          (case b of None \<Rightarrow> (w, Some DsBody)
           | Some (n, f, sc, cls) \<Rightarrow> if n = [] \<or> f = [] then (w, Some DsBody) else register_nfs sv e u n sc uname f cls w)
      | RegisterUrl b \<Rightarrow>
          (case b of None \<Rightarrow> (w, Some DsBody)
           | Some (n, url, sc, cls) \<Rightarrow> if n = [] \<or> url = [] then (w, Some DsBody) else register_url sv e u n sc uname url cls w)
      | DescribeSet i b \<Rightarrow>
          (case b of None \<Rightarrow> (w, Some DsBody)
           | Some (desc, cls) \<Rightarrow>
               (case update_meta (de_ok e) (parse_id i) desc cls (dw_db w) of
                  (db, ok) \<Rightarrow> (w\<lparr>dw_db := db\<rparr>, if ok then None else Some DsDb)))
      | ApproveSet i \<Rightarrow> approve sv e (parse_id i) uname w
      | RejectSet i \<Rightarrow> reject e (parse_id i) w
      | ToggleSet i b \<Rightarrow> (case b of None \<Rightarrow> (w, Some DsBody) | Some n \<Rightarrow> if n = [] then (w, Some DsBody) else toggle_cache sv e (parse_id i) n w))"

definition user_op :: "ds_op \<Rightarrow> bool" where
  "user_op op = (case op of RegisterSet _ \<Rightarrow> True | DeleteSet _ \<Rightarrow> True | _ \<Rightarrow> False)"

text \<open>The background measurement of a registration, the reconciler's tick, and what the jobs do meanwhile.\<close>

inductive ds_run :: "ds_svc \<Rightarrow> (int \<Rightarrow> bool) \<Rightarrow> (ds_env \<Rightarrow> bool) \<Rightarrow> ds_world \<Rightarrow> ds_world \<Rightarrow> bool" for sv adm good where
  stay: "ds_run sv adm good w w"
| request: "ds_run sv adm good w w1 \<Longrightarrow> good e \<Longrightarrow> user_op op \<or> adm u \<Longrightarrow> ds_handle sv e u n op w1 = (w2, r) \<Longrightarrow> ds_run sv adm good w w2"
| measure: "ds_run sv adm good w w1 \<Longrightarrow> good e \<Longrightarrow> ds_run sv adm good w (measured e i url w1)"
| tick: "ds_run sv adm good w w1 \<Longrightarrow> good e \<Longrightarrow> ds_run sv adm good w (reconciler_tick sv e w1)"
| jobs: "ds_run sv adm good w w1 \<Longrightarrow> (\<And>k. js k = None \<longleftrightarrow> dw_jobs w1 k = None) \<Longrightarrow> ds_run sv adm good w (w1\<lparr>dw_jobs := js\<rparr>)"

section \<open>Deletion and the files\<close>

lemma split_when_none: "\<forall>c \<in> set s. \<not> sep c \<Longrightarrow> split_when sep s = [s]"
  by (induction s) auto

lemma dataset_dir_valid:
  assumes "valid_name n" "n \<noteq> ''.''"
  shows "dataset_dir m n = m @ [''dataset'', n]"
proof -
  have "segments n = [n]" using assms by (auto simp: valid_name_def segments_def intro!: split_when_none)
  moreover have "n \<noteq> ''..''" using assms by (auto simp: valid_name_def has_prefix_def)
  moreover have "segments ''dataset'' = [''dataset'']" by (simp add: segments_def)
  ultimately show ?thesis using assms by (simp add: dataset_dir_def join_def clean_step_def valid_name_def)
qed

lemma dataset_dir_up: "dataset_dir m ''..'' = m"
  by (simp add: dataset_dir_def join_def clean_step_def segments_def)

lemma dw_upd_sel [simp]:
  "dw_files (dw_upd f w) = dw_files w" "dw_pvcs (dw_upd f w) = dw_pvcs w" "dw_jobs (dw_upd f w) = dw_jobs w"
  "dw_db (dw_upd f w) = f (dw_db w)"
  by (simp_all add: dw_upd_def)

lemma run_job_sel [simp]:
  "dw_files (fst (run_job e n k w)) = dw_files w" "dw_pvcs (fst (run_job e n k w)) = dw_pvcs w"
  "dw_db (fst (run_job e n k w)) = dw_db w"
  by (simp_all add: run_job_def)

lemma delete_job_sel [simp]:
  "dw_files (delete_job n w) = dw_files w" "dw_pvcs (delete_job n w) = dw_pvcs w" "dw_db (delete_job n w) = dw_db w"
  by (simp_all add: delete_job_def)

lemma uncache_sel [simp]:
  "dw_files (uncache_job e i n node w) = dw_files w" "dw_pvcs (uncache_job e i n node w) = dw_pvcs w"
  "dw_db (uncache_job e i n node w) = dw_db w"
  by (simp_all add: uncache_job_def)

lemma fold_uncache_sel [simp]:
  "dw_files (fold (uncache_job e i n) xs w) = dw_files w" "dw_pvcs (fold (uncache_job e i n) xs w) = dw_pvcs w"
  "dw_db (fold (uncache_job e i n) xs w) = dw_db w"
  by (induction xs arbitrary: w) simp_all

lemma cache_delete_all_sel [simp]:
  "dd_sets (cache_delete_all ok i db) = dd_sets db" "dd_reqs (cache_delete_all ok i db) = dd_reqs db"
  "dd_next (cache_delete_all ok i db) = dd_next db" "dd_next_req (cache_delete_all ok i db) = dd_next_req db"
  by (simp_all add: cache_delete_all_def)

lemma delete_dataset_files:
  "dw_files (fst (delete_dataset sv e i w)) =
     (case (get_set (de_ok e) i (dw_db w), dv_mount sv) of
        (Inr d, Some m) \<Rightarrow> if ds_name d = [] then dw_files w else remove_all (dataset_dir m (ds_name d)) (dw_files w)
      | _ \<Rightarrow> dw_files w)"
  by (simp add: delete_dataset_def delete_set_def Let_def split: sum.split option.split prod.split)

lemma delete_dataset_sets:
  "dd_sets (dw_db (fst (delete_dataset sv e i w))) = filter (\<lambda>d. ds_id d \<noteq> i \<or> \<not> de_ok e DDelete) (dd_sets (dw_db w))"
  "dd_reqs (dw_db (fst (delete_dataset sv e i w))) = dd_reqs (dw_db w)"
  "dd_next (dw_db (fst (delete_dataset sv e i w))) = dd_next (dw_db w)"
  "dw_pvcs (fst (delete_dataset sv e i w)) = dw_pvcs w"
  by (simp_all add: delete_dataset_def delete_set_def Let_def split: sum.split option.split prod.split)

text \<open>C3: deleting a dataset whose name is a plain path segment removes the files under its own directory
  and no others: every file of the mount outside \<open>dataset/<name>\<close>, in particular every file of another
  dataset, is still there, and no other dataset row goes.\<close>

theorem delete_stays_in_dataset:
  assumes d: "row_of ds_id i (dd_sets (dw_db w)) = Some d" and n: "valid_name (ds_name d)" "ds_name d \<noteq> ''.''"
    and m: "dv_mount sv = Some m" and ok: "de_ok e DGet"
    and r: "delete_dataset sv e i w = (w', r)"
  shows "dw_files w' = {f \<in> dw_files w. take (length m + 2) f \<noteq> m @ [''dataset'', ds_name d]} \<and>
    (\<forall>d' \<in> set (dd_sets (dw_db w)). ds_id d' \<noteq> i \<longrightarrow> d' \<in> set (dd_sets (dw_db w')) \<and>
       (valid_name (ds_name d') \<and> ds_name d' \<noteq> ''.'' \<and> ds_name d' \<noteq> ds_name d \<longrightarrow>
          (\<forall>f \<in> dw_files w. under_path (dataset_dir m (ds_name d')) f \<longrightarrow> f \<in> dw_files w')))"
proof -
  have f: "dw_files w' = {f \<in> dw_files w. take (length m + 2) f \<noteq> m @ [''dataset'', ds_name d]}"
    using delete_dataset_files [of sv e i w] d m ok n r
    by (auto simp: get_set_def valid_name_def remove_all_def under_path_def dataset_dir_valid [OF n])
  moreover have "f \<in> dw_files w'"
    if "f \<in> dw_files w" "valid_name x" "x \<noteq> ''.''" "x \<noteq> ds_name d" "under_path (dataset_dir m x) f" for f x
    using that unfolding f by (simp add: under_path_def dataset_dir_valid)
  moreover have "d' \<in> set (dd_sets (dw_db w'))" if "d' \<in> set (dd_sets (dw_db w))" "ds_id d' \<noteq> i" for d'
    using delete_dataset_sets(1) [of sv e i w] r that by simp
  ultimately show ?thesis by blast
qed

lemma load_with_sel [simp]:
  "dw_files (load_with e k d w) = dw_files w" "dw_pvcs (load_with e k d w) = dw_pvcs w"
  by (auto simp: load_with_def run_job_def)

lemma load_with_db:
  "dw_db (load_with e k d w) = (if de_job e (k d) then dw_db w else set_load (de_ok e) (ds_id d) ''failed'' (dw_db w))"
  by (simp add: load_with_def run_job_def)

lemma upd_set_sel [simp]:
  "dd_reqs (upd_set i f db) = dd_reqs db" "dd_next (upd_set i f db) = dd_next db"
  "dd_next_req (upd_set i f db) = dd_next_req db" "dd_caches (upd_set i f db) = dd_caches db"
  "dd_sets (upd_set i f db) = upd_row ds_id i f (dd_sets db)"
  by (simp_all add: upd_set_def)

lemma set_load_sel [simp]:
  "dd_reqs (set_load ok i st db) = dd_reqs db" "dd_next (set_load ok i st db) = dd_next db"
  by (simp_all add: set_load_def)

lemma ensure_storage_sel:
  "dw_files (ensure_storage sv e d w) = dw_files w" "dd_reqs (dw_db (ensure_storage sv e d w)) = dd_reqs (dw_db w)"
  "dd_next (dw_db (ensure_storage sv e d w)) = dd_next (dw_db w)"
  by (simp_all add: ensure_storage_def set_pvc_def)

text \<open>The row of a fresh dataset after its approval, whatever became of the job or the claim.\<close>

lemma named_row_upd:
  "row_of ds_id i t = Some d \<Longrightarrow> (\<And>x. ds_id (f x) = ds_id x) \<Longrightarrow> (\<And>x. ds_name (f x) = ds_name x) \<Longrightarrow>
     \<exists>d'. row_of ds_id i (upd_row ds_id k f t) = Some d' \<and> ds_name d' = ds_name d"
  by (induction t) auto

lemma approve_makes_row:
  assumes r: "row_of rq_id i (dd_reqs (dw_db w)) = Some r" and ok: "\<And>s. de_ok e s"
    and fr: "\<forall>d \<in> set (dd_sets (dw_db w)). ds_id d < dd_next (dw_db w)"
  shows "\<exists>w' d. approve sv e i owner w = (w', None) \<and> dw_files w' = dw_files w \<and>
    row_of ds_id (dd_next (dw_db w)) (dd_sets (dw_db w')) = Some d \<and> ds_name d = rq_name r \<and>
    set (dd_sets (dw_db w)) \<subseteq> set (dd_sets (dw_db w'))"
proof -
  let ?i = "dd_next (dw_db w)" and ?d = "(set_of_request sv e r owner)\<lparr>ds_id := dd_next (dw_db w)\<rparr>"
  let ?w = "w\<lparr>dw_db := (dw_db w)\<lparr>dd_sets := dd_sets (dw_db w) @ [?d], dd_next := ?i + 1\<rparr>\<rparr>"
  let ?w1 = "if canonical sv then load_with e (\<lambda>d. Fetch (ds_name d) (ds_url d)) ?d ?w else ensure_storage sv e ?d ?w"
  have absent: "row_of ds_id ?i (dd_sets (dw_db w)) = None" using fr by (auto simp: row_of_None)
  then have row: "row_of ds_id ?i (dd_sets (dw_db ?w)) = Some ?d" by (simp add: row_of_append)
  have "\<exists>d. row_of ds_id ?i (dd_sets (dw_db ?w1)) = Some d \<and> ds_name d = ds_name ?d"
    using row named_row_upd [OF row, of "\<lambda>d. d\<lparr>ds_load := ''failed''\<rparr>" ?i]
      named_row_upd [OF row, of "\<lambda>d. d\<lparr>ds_pvc := ds_claim ?i, ds_pvc_ns := dv_ns sv\<rparr>" ?i]
    by (simp add: load_with_db set_load_def ensure_storage_def set_pvc_def ok)
  moreover have "dw_files ?w1 = dw_files w" by (simp add: ensure_storage_sel)
  moreover have "set (dd_sets (dw_db w)) \<subseteq> set (dd_sets (dw_db ?w1))"
    by (auto simp: load_with_db set_load_def ensure_storage_def set_pvc_def ok upd_row_append upd_row_absent [OF absent])
  moreover have "fst (approve sv e i owner w) =
      ?w1\<lparr>dw_db := fst (mark_request (de_ok e) i ''approved'' (dw_db ?w1))\<rparr>" "snd (approve sv e i owner w) = None"
    using r by (simp_all add: approve_def get_request_def insert_set_def mark_request_def ok Let_def)
  ultimately show ?thesis
    by (cases "approve sv e i owner w") (auto simp: mark_request_def ok set_of_request_def)
qed

text \<open>C9: a registration is not checked for a sound name and a deletion not for ownership: any user registers
  \<open>..\<close>, an administrator approves the request, and any other user deletes the dataset: no file is left under
  the mount of the dataset storage.\<close>

theorem anyone_wipes_storage:
  assumes ok: "\<And>s. de_ok e s" and m: "dv_mount sv = Some m" and free: "\<not> name_taken (de_ok e) ''..'' (dw_db w)"
    and fr: "\<forall>d \<in> set (dd_sets (dw_db w)). ds_id d < dd_next (dw_db w)"
      "\<forall>r \<in> set (dd_reqs (dw_db w)). rq_id r < dd_next_req (dw_db w)"
    and ids: "in_int64 (dd_next (dw_db w))" "in_int64 (dd_next_req (dw_db w))"
    and name: "rr_name r = ''..''"
  shows "\<exists>w1 w2 w3. ds_handle sv e u un (RegisterSet (Some r)) w = (w1, None) \<and>
    ds_handle sv e a an (ApproveSet (dec (dd_next_req (dw_db w)))) w1 = (w2, None) \<and>
    ds_handle sv e v vn (DeleteSet (dec (dd_next (dw_db w)))) w2 = (w3, None) \<and>
    user_op (RegisterSet (Some r)) \<and> user_op (DeleteSet (dec (dd_next (dw_db w)))) \<and> {f \<in> dw_files w3. under_path m f} = {}"
proof -
  let ?q = "\<lparr>rq_id = dd_next_req (dw_db w), rq_name = ''..'', rq_user = u, rq_class = rr_class r, rq_gb = rr_gb r, rq_bytes = 0,
    rq_hash = rr_hash r, rq_url = rr_url r, rq_scope = or_default (rr_scope r) ''personal'', rq_status = ''pending''\<rparr>"
  let ?w1 = "w\<lparr>dw_db := (dw_db w)\<lparr>dd_reqs := dd_reqs (dw_db w) @ [?q], dd_next_req := dd_next_req (dw_db w) + 1\<rparr>\<rparr>"
  have r1: "ds_handle sv e u un (RegisterSet (Some r)) w = (?w1, None)"
    using free by (simp add: ds_handle_def register_def create_request_def ok name)
  have "row_of rq_id (dd_next_req (dw_db w)) (dd_reqs (dw_db w)) = None" using fr by (auto simp: row_of_None)
  then have row: "row_of rq_id (dd_next_req (dw_db w)) (dd_reqs (dw_db ?w1)) = Some ?q" by (simp add: row_of_append)
  obtain w2 d where w2: "approve sv e (dd_next_req (dw_db w)) an ?w1 = (w2, None)"
    and d: "row_of ds_id (dd_next (dw_db w)) (dd_sets (dw_db w2)) = Some d" "ds_name d = ''..''"
    using approve_makes_row [OF row, of e sv an] ok fr by auto
  obtain w3 e3 where w3: "delete_dataset sv e (dd_next (dw_db w)) w2 = (w3, e3)" by fastforce
  then have "e3 = None" by (auto simp: delete_dataset_def delete_set_def ok Let_def)
  moreover have "dw_files w3 = remove_all m (dw_files w2)"
    using delete_dataset_files [of sv e "dd_next (dw_db w)" w2] w3 d ok m by (simp add: get_set_def dataset_dir_up)
  ultimately show ?thesis using r1 w2 w3
    by (intro exI [of _ ?w1] exI [of _ w2] exI [of _ w3])
      (simp add: ds_handle_def parse_id_dec ids user_op_def remove_all_def)
qed

section \<open>Names\<close>

text \<open>The name decides the directory, so no two datasets share one and no waiting request asks for a used one.\<close>

definition pending_names :: "ds_request list \<Rightarrow> string list" where
  "pending_names rs = map rq_name (filter (\<lambda>r. rq_status r = ''pending'') rs)"

definition names_unique :: "ds_db \<Rightarrow> bool" where
  "names_unique db \<longleftrightarrow> distinct (map ds_name (dd_sets db) @ pending_names (dd_reqs db)) \<and> keys_distinct rq_id (dd_reqs db) \<and>
     (\<forall>r \<in> set (dd_reqs db). rq_id r < dd_next_req db)"

lemma map_upd_row_same: "(\<And>x. g (f x) = g x) \<Longrightarrow> map g (upd_row k i f t) = map g t"
  by (induction t) auto

lemma pending_upd_same:
  "(\<And>x. rq_name (f x) = rq_name x) \<Longrightarrow> (\<And>x. rq_status (f x) = rq_status x) \<Longrightarrow> pending_names (upd_row k i f t) = pending_names t"
  by (induction t) (auto simp: pending_names_def)

definition same_names :: "ds_db \<Rightarrow> ds_db \<Rightarrow> bool" where
  "same_names db db' \<longleftrightarrow> map ds_name (dd_sets db') = map ds_name (dd_sets db) \<and> dd_reqs db' = dd_reqs db \<and>
     dd_next_req db' = dd_next_req db"

lemma same_names_unique: "same_names db db' \<Longrightarrow> names_unique db' = names_unique db"
  by (auto simp: same_names_def names_unique_def)

lemma same_names_refl [simp]: "same_names db db"
  by (simp add: same_names_def)

lemma same_names_trans: "same_names a b \<Longrightarrow> same_names b c \<Longrightarrow> same_names a c"
  by (simp add: same_names_def)

lemma same_names_upd:
  "(\<And>x. ds_name (f x) = ds_name x) \<Longrightarrow> same_names db (upd_set i f db)"
  by (simp add: same_names_def map_upd_row_same)

lemma same_names_set [simp]:
  "same_names db (set_load ok i st db)" "same_names db (set_pvc ok i n ns db)" "same_names db (set_hash ok i h db)"
  "same_names db (set_size ok i k db)"
  by (simp_all add: set_load_def set_pvc_def set_hash_def set_size_def same_names_upd)

lemma same_names_caches [simp]:
  "same_names db (fst (cache_upsert ok i node st db))" "same_names db (cache_delete ok i node db)"
  by (simp_all add: cache_upsert_def cache_delete_def same_names_def)

lemma update_meta_names: "same_names db (fst (update_meta ok i desc cls db))"
  by (auto simp: update_meta_def Let_def intro!: same_names_upd intro: same_names_trans [OF same_names_upd same_names_upd])

lemma load_with_names: "same_names (dw_db w) (dw_db (load_with e k d w))"
  by (simp add: load_with_db)

lemma ensure_storage_names: "same_names (dw_db w) (dw_db (ensure_storage sv e d w))"
  by (simp add: ensure_storage_def)

lemma toggle_cache_names: "same_names (dw_db w) (dw_db (fst (toggle_cache sv e i node w)))"
  by (auto simp: toggle_cache_def Let_def cache_upsert_def run_job_def same_names_def cache_delete_def
      split: sum.split option.split)

text \<open>A new row with a free name.\<close>

lemma insert_set_unique:
  assumes "names_unique db" "insert_set ok d db = (db', x)" "ds_name d \<notin> set (map ds_name (dd_sets db) @ pending_names (dd_reqs db))"
  shows "names_unique db'"
proof -
  have "distinct (map ds_name (dd_sets db) @ ds_name d # pending_names (dd_reqs db))"
    using assms(1,3) by (auto simp: names_unique_def)
  then show ?thesis using assms(1,2) by (auto simp: insert_set_def names_unique_def Let_def disjoint_iff split: if_splits)
qed

lemma name_free:
  "\<not> name_taken ok n db \<Longrightarrow> ok DNameTaken \<Longrightarrow> n \<notin> set (map ds_name (dd_sets db) @ pending_names (dd_reqs db))"
  by (auto simp: name_taken_def pending_names_def)

lemma loaded_set_unique:
  assumes "names_unique (dw_db w)" "insert_set ok d (dw_db w) = (db, Some d')"
    "ds_name d \<notin> set (map ds_name (dd_sets (dw_db w)) @ pending_names (dd_reqs (dw_db w)))"
  shows "names_unique (dw_db (load_with e k d' (w\<lparr>dw_db := db\<rparr>)))"
  using same_names_unique [OF load_with_names [of "w\<lparr>dw_db := db\<rparr>" e k d']] insert_set_unique [OF assms] by simp

lemma pending_after_mark:
  "st \<noteq> ''pending'' \<Longrightarrow>
     pending_names (upd_where (\<lambda>r. rq_id r = i \<and> rq_status r = ''pending'') (\<lambda>r. r\<lparr>rq_status := st\<rparr>) rs) =
     map rq_name (filter (\<lambda>r. rq_id r \<noteq> i) (filter (\<lambda>r. rq_status r = ''pending'') rs))"
  by (induction rs) (auto simp: pending_names_def)

lemma pending_marked:
  fixes i :: int
  assumes "distinct (xs @ pending_names rs)" "st \<noteq> ''pending''"
  defines "rs' \<equiv> upd_where (\<lambda>r. rq_id r = i \<and> rq_status r = ''pending'') (\<lambda>r. r\<lparr>rq_status := st\<rparr>) rs"
  shows "distinct (xs @ pending_names rs')"
    and "r \<in> set rs \<Longrightarrow> rq_id r = i \<Longrightarrow> rq_status r = ''pending'' \<Longrightarrow> distinct (xs @ rq_name r # pending_names rs')"
proof -
  have d: "distinct xs" "distinct (pending_names rs)" "set xs \<inter> set (pending_names rs) = {}" using assms(1) by auto
  have e: "pending_names rs' = map rq_name (filter (\<lambda>r. rq_id r \<noteq> i) (filter (\<lambda>r. rq_status r = ''pending'') rs))"
    unfolding rs'_def by (rule pending_after_mark [OF assms(2)])
  have s: "set (pending_names rs') \<subseteq> set (pending_names rs)" unfolding e by (auto simp: pending_names_def)
  have d': "distinct (pending_names rs')" unfolding e using distinct_map_filter d(2) unfolding pending_names_def by blast
  show "distinct (xs @ pending_names rs')" using d s d' by auto
  assume r: "r \<in> set rs" "rq_id r = i" "rq_status r = ''pending''"
  have "inj_on rq_name {r \<in> set rs. rq_status r = ''pending''}" using d(2) by (simp add: pending_names_def distinct_map)
  then have "rq_name r \<notin> set (pending_names rs')" using r unfolding e by (auto dest: inj_onD)
  moreover have "rq_name r \<in> set (pending_names rs)" using r by (auto simp: pending_names_def)
  ultimately show "distinct (xs @ rq_name r # pending_names rs')" using d s d' by auto
qed

lemma mark_keys: "keys_distinct rq_id (dd_reqs (fst (mark_request ok i st db))) = keys_distinct rq_id (dd_reqs db)"
  by (simp add: mark_request_def keys_distinct_def keys_upd_where)

lemma mark_ids:
  "(\<forall>r \<in> set (dd_reqs (fst (mark_request ok i st db))). rq_id r < n) = (\<forall>r \<in> set (dd_reqs db). rq_id r < n)"
proof -
  have "map rq_id (dd_reqs (fst (mark_request ok i st db))) = map rq_id (dd_reqs db)"
    by (simp add: mark_request_def keys_upd_where)
  then have "(\<forall>k \<in> set (map rq_id (dd_reqs (fst (mark_request ok i st db)))). k < n) = (\<forall>k \<in> set (map rq_id (dd_reqs db)). k < n)"
    by simp
  then show ?thesis by simp
qed

lemma mark_unique:
  assumes "names_unique db" "st \<noteq> ''pending''"
  shows "names_unique (fst (mark_request ok i st db))"
  using assms mark_keys [of ok i st db] mark_ids [of ok i st db "dd_next_req db"] pending_marked(1) [of "map ds_name (dd_sets db)" "dd_reqs db" st i]
  by (auto simp: names_unique_def mark_request_def split: if_splits)

lemma create_request_unique:
  assumes "names_unique db" "create_request ok r db = (db', x)" "rq_status r = ''pending''"
    "rq_name r \<notin> set (map ds_name (dd_sets db) @ pending_names (dd_reqs db))"
  shows "names_unique db'"
proof (cases "ok DCreateReq")
  case True
  let ?q = "r\<lparr>rq_id := dd_next_req db\<rparr>"
  have "distinct (map ds_name (dd_sets db) @ pending_names (dd_reqs db @ [?q]))"
    using assms(1,3,4) by (simp add: names_unique_def pending_names_def)
  moreover have "keys_distinct rq_id (dd_reqs db @ [?q])"
    using assms(1) by (auto simp: names_unique_def keys_distinct_def)
  moreover have "\<forall>q \<in> set (dd_reqs db @ [?q]). rq_id q < dd_next_req db + 1"
    using assms(1) by (auto simp: names_unique_def)
  moreover have "db' = db\<lparr>dd_reqs := dd_reqs db @ [?q], dd_next_req := dd_next_req db + 1\<rparr>"
    using assms(2) True by (simp add: create_request_def)
  ultimately show ?thesis by (simp add: names_unique_def)
qed (use assms in \<open>simp add: create_request_def\<close>)

lemma register_unique:
  assumes "names_unique (dw_db w)" "de_ok e DNameTaken"
  shows "names_unique (dw_db (fst (register e u r w)))"
  using assms name_free [of "de_ok e" "rr_name r" "dw_db w"]
  by (auto simp: register_def split: prod.split option.split intro: create_request_unique)

lemma register_url_unique:
  assumes "names_unique (dw_db w)" "de_ok e DNameTaken"
  shows "names_unique (dw_db (fst (register_url sv e u n sc owner url cls w)))"
  using assms name_free [of "de_ok e" n "dw_db w"]
  by (auto simp: register_url_def new_set_def Let_def split: prod.split option.split intro: insert_set_unique loaded_set_unique)

lemma move_file_db: "move_file e src dst w = (w', b) \<Longrightarrow> dw_db w' = dw_db w \<and> dw_pvcs w' = dw_pvcs w"
  by (auto simp: move_file_def split: move_result.splits)

lemma create_loading_unique:
  assumes "names_unique (dw_db w)" "n \<notin> set (map ds_name (dd_sets (dw_db w)) @ pending_names (dd_reqs (dw_db w)))"
  shows "names_unique (dw_db (fst (create_loading_and_extract e u n sc owner cls b w)))"
  using assms
  by (auto simp: create_loading_and_extract_def new_set_def Let_def split: prod.split option.split intro: insert_set_unique loaded_set_unique)

lemma register_nfs_unique:
  assumes "names_unique (dw_db w)" "de_ok e DNameTaken"
  shows "names_unique (dw_db (fst (register_nfs sv e u n sc owner file cls w)))"
proof (cases "upload_enabled sv \<and> valid_name n \<and> \<not> name_taken (de_ok e) n (dw_db w)")
  case True
  then have free: "n \<notin> set (map ds_name (dd_sets (dw_db w)) @ pending_names (dd_reqs (dw_db w)))"
    using name_free assms(2) by blast
  show ?thesis
    using True assms(1) free move_file_db [of e _ _ w]
    by (auto simp: register_nfs_def Let_def split: prod.split bool.split intro!: create_loading_unique)
qed (auto simp: register_nfs_def assms(1))

lemma approve_unique:
  assumes u: "names_unique (dw_db w)" and ok: "de_ok e DMark"
    and p: "\<And>r. row_of rq_id i (dd_reqs (dw_db w)) = Some r \<Longrightarrow> rq_status r = ''pending''"
  shows "names_unique (dw_db (fst (approve sv e i owner w)))"
proof (cases "get_request (de_ok e) i (dw_db w)")
  case (Inl a)
  then show ?thesis using u by (simp add: approve_def)
next
  case (Inr r)
  then have r: "row_of rq_id i (dd_reqs (dw_db w)) = Some r" by (auto simp: get_request_def split: if_splits option.splits)
  obtain db x where ins: "insert_set (de_ok e) (set_of_request sv e r owner) (dw_db w) = (db, x)" by fastforce
  show ?thesis
  proof (cases x)
    case None
    then show ?thesis using u ins Inr by (auto simp: approve_def insert_set_def Let_def split: if_splits)
  next
    case (Some d)
    let ?w1 = "if canonical sv then load_with e (\<lambda>d. Fetch (ds_name d) (ds_url d)) d (w\<lparr>dw_db := db\<rparr>)
      else ensure_storage sv e d (w\<lparr>dw_db := db\<rparr>)"
    have "same_names db (dw_db ?w1)"
      using load_with_names [of "w\<lparr>dw_db := db\<rparr>"] ensure_storage_names [of "w\<lparr>dw_db := db\<rparr>"] by simp
    then have n: "map ds_name (dd_sets (dw_db ?w1)) = map ds_name (dd_sets (dw_db w)) @ [rq_name r]"
        "dd_reqs (dw_db ?w1) = dd_reqs (dw_db w)" "dd_next_req (dw_db ?w1) = dd_next_req (dw_db w)"
      using ins Some by (auto simp: same_names_def insert_set_def set_of_request_def Let_def split: if_splits)
    have k: "keys_distinct rq_id (dd_reqs (dw_db w))" "\<forall>r \<in> set (dd_reqs (dw_db w)). rq_id r < dd_next_req (dw_db w)"
      and d: "distinct (map ds_name (dd_sets (dw_db w)) @ pending_names (dd_reqs (dw_db w)))"
      using u by (simp_all add: names_unique_def)
    have "distinct (map ds_name (dd_sets (dw_db w)) @ rq_name r #
        pending_names (upd_where (\<lambda>r. rq_id r = i \<and> rq_status r = ''pending'') (\<lambda>r. r\<lparr>rq_status := ''approved''\<rparr>) (dd_reqs (dw_db w))))"
      using pending_marked(2) [OF d, of "''approved''" r i] row_of_Some [OF r] p [OF r] by simp
    then have "names_unique (fst (mark_request (de_ok e) i ''approved'' (dw_db ?w1)))"
      using k mark_keys [of "de_ok e" i "''approved''" "dw_db ?w1"] mark_ids [of "de_ok e" i "''approved''" "dw_db ?w1"] n ok
      by (simp add: names_unique_def mark_request_def)
    moreover have "dw_db (fst (approve sv e i owner w)) = fst (mark_request (de_ok e) i ''approved'' (dw_db ?w1))"
      using Inr ins Some by (simp add: approve_def Let_def split: prod.split)
    ultimately show ?thesis by simp
  qed
qed

lemma delete_unique:
  assumes "names_unique (dw_db w)"
  shows "names_unique (dw_db (fst (delete_dataset sv e i w)))"
proof -
  have "dd_next_req (dw_db (fst (delete_dataset sv e i w))) = dd_next_req (dw_db w)"
    by (simp add: delete_dataset_def delete_set_def Let_def split: sum.split option.split prod.split)
  then show ?thesis
    using assms by (auto simp: names_unique_def delete_dataset_sets distinct_map_filter)
qed

text \<open>C22: dataset names stay unique, over the datasets and the waiting requests, under every request of users and
  administrators whose statements that look for the name and that mark a request do not fail, as long as only
  waiting requests are approved. Names are compared as text: they need not be names of distinct directories.\<close>

theorem names_stay_unique:
  assumes "names_unique (dw_db w)" "de_ok e DNameTaken" "de_ok e DMark"
    and "\<And>s r. op = ApproveSet s \<Longrightarrow> row_of rq_id (parse_id s) (dd_reqs (dw_db w)) = Some r \<Longrightarrow> rq_status r = ''pending''"
  shows "names_unique (dw_db (fst (ds_handle sv e u un op w)))"
proof (cases op)
  case (RegisterSet b)
  then show ?thesis using assms register_unique by (auto simp: ds_handle_def split: option.split)
next
  case (DeleteSet i)
  then show ?thesis using assms delete_unique by (simp add: ds_handle_def)
next
  case (RegisterNfs b)
  then show ?thesis using assms register_nfs_unique by (auto simp: ds_handle_def split: option.split)
next
  case (RegisterUrl b)
  then show ?thesis using assms register_url_unique by (auto simp: ds_handle_def split: option.split)
next
  case (DescribeSet i b)
  then show ?thesis using assms same_names_unique [OF update_meta_names [of "dw_db w" "de_ok e" "parse_id i"]]
    by (simp add: ds_handle_def split: option.split prod.split) (metis fst_conv)
next
  case (ApproveSet i)
  then show ?thesis using assms approve_unique [of w e "parse_id i"] by (simp add: ds_handle_def)
next
  case (RejectSet i)
  then show ?thesis using mark_unique [OF assms(1), of "''rejected''" "de_ok e" "parse_id i"]
    by (simp add: ds_handle_def reject_def split: prod.split) (metis fst_conv)
next
  case (ToggleSet i b)
  then show ?thesis using assms(1) same_names_unique [OF toggle_cache_names] by (simp add: ds_handle_def split: option.split)
qed

text \<open>approving is not confined to waiting requests. Approved once more, a request yields a second dataset
  of the same name; whoever deletes that one removes every file of the first, whose row stays.\<close>

theorem second_approval_shares_directory:
  assumes ok: "\<And>s. de_ok e s" and m: "dv_mount sv = Some m" and i: "in_int64 i" "in_int64 (dd_next (dw_db w))"
    and r: "row_of rq_id i (dd_reqs (dw_db w)) = Some r" "rq_status r = ''approved''" "rq_name r \<noteq> []"
    and d: "d \<in> set (dd_sets (dw_db w))" "ds_name d = rq_name r"
    and fr: "\<forall>d \<in> set (dd_sets (dw_db w)). ds_id d < dd_next (dw_db w)"
  shows "\<exists>w1 w2. ds_handle sv e a an (ApproveSet (dec i)) w = (w1, None) \<and>
    ds_handle sv e v vn (DeleteSet (dec (dd_next (dw_db w)))) w1 = (w2, None) \<and>
    d \<in> set (dd_sets (dw_db w2)) \<and> {f \<in> dw_files w2. under_path (dataset_dir m (ds_name d)) f} = {}"
proof -
  obtain w1 c where w1: "approve sv e i an w = (w1, None)"
    and c: "row_of ds_id (dd_next (dw_db w)) (dd_sets (dw_db w1)) = Some c" "ds_name c = rq_name r"
    and keep: "set (dd_sets (dw_db w)) \<subseteq> set (dd_sets (dw_db w1))"
    using approve_makes_row [OF r(1), of e sv an] ok fr by auto
  obtain w2 e2 where w2: "delete_dataset sv e (dd_next (dw_db w)) w1 = (w2, e2)" by fastforce
  then have "e2 = None" by (auto simp: delete_dataset_def delete_set_def ok Let_def)
  moreover have "d \<in> set (dd_sets (dw_db w2))"
    using delete_dataset_sets(1) [of sv e "dd_next (dw_db w)" w1] w2 d fr keep by auto
  moreover have "dw_files w2 = remove_all (dataset_dir m (rq_name r)) (dw_files w1)"
    using delete_dataset_files [of sv e "dd_next (dw_db w)" w1] w2 c ok m r(3) by (simp add: get_set_def)
  ultimately show ?thesis using w1 w2 d(2)
    by (intro exI [of _ w1] exI [of _ w2]) (simp add: ds_handle_def parse_id_dec i remove_all_def)
qed

section \<open>Ready datasets and their claims\<close>

definition claim_ok :: "ds_svc \<Rightarrow> (string \<times> string) set \<Rightarrow> dataset \<Rightarrow> bool" where
  "claim_ok sv pvcs d \<longleftrightarrow> ds_load d \<noteq> ''ready'' \<or>
     (ds_pvc d = ds_claim (ds_id d) \<and> ds_pvc_ns d = dv_ns sv \<and> (dv_ns sv, ds_claim (ds_id d)) \<in> pvcs)"

definition claims_bound :: "ds_svc \<Rightarrow> ds_world \<Rightarrow> bool" where
  "claims_bound sv w \<longleftrightarrow> (\<forall>d \<in> set (dd_sets (dw_db w)). claim_ok sv (dw_pvcs w) d)"

lemma all_upd_row:
  "(\<forall>d \<in> set t. P d) \<Longrightarrow> (\<And>x. P x \<Longrightarrow> key x = k \<Longrightarrow> P (f x)) \<Longrightarrow> \<forall>d \<in> set (upd_row key k f t). P d"
  by (induction t) auto

lemma claims_upd:
  assumes "claims_bound sv w" "\<And>x. claim_ok sv (dw_pvcs w) x \<Longrightarrow> claim_ok sv (dw_pvcs w) (f x)"
  shows "claims_bound sv (dw_upd (upd_set i f) w)"
  using assms by (auto simp: claims_bound_def intro: all_upd_row [rule_format])

lemma claims_same_rows:
  "claims_bound sv w \<Longrightarrow> set (dd_sets (dw_db w')) \<subseteq> set (dd_sets (dw_db w)) \<Longrightarrow> dw_pvcs w' = dw_pvcs w \<Longrightarrow> claims_bound sv w'"
  by (auto simp: claims_bound_def)

lemma claims_failed: "claims_bound sv w \<Longrightarrow> claims_bound sv (dw_upd (set_load ok i ''failed'') w)"
  using claims_upd [of sv w "\<lambda>d. d\<lparr>ds_load := ''failed''\<rparr>" i]
  by (cases "ok DSetLoad") (simp_all add: set_load_def claim_ok_def dw_upd_def)

lemma claims_load_with: "claims_bound sv w \<Longrightarrow> claims_bound sv (load_with e k d w)"
  using claims_failed [of sv w]
  by (auto simp: load_with_def run_job_def claims_bound_def)

lemma claims_insert:
  assumes "claims_bound sv w" "insert_set ok d (dw_db w) = (db, x)" "ds_load d = ''loading''"
  shows "claims_bound sv (w\<lparr>dw_db := db\<rparr>)"
  using assms by (auto simp: insert_set_def claims_bound_def claim_ok_def Let_def split: if_splits)

lemma claims_new_set:
  assumes "claims_bound sv w" "insert_set ok (new_set n sc ow u url b cls) (dw_db w) = (db, Some d)"
  shows "claims_bound sv (load_with e k d (w\<lparr>dw_db := db\<rparr>))"
  using claims_insert [OF assms] by (simp add: new_set_def Let_def claims_load_with)

lemma claims_no_set:
  "claims_bound sv w \<Longrightarrow> insert_set ok d (dw_db w) = (db, None) \<Longrightarrow> claims_bound sv (w\<lparr>dw_db := db\<rparr>)"
  by (auto simp: insert_set_def Let_def split: if_splits)

lemma move_file_claims: "claims_bound sv w \<Longrightarrow> move_file e src dst w = (w', b) \<Longrightarrow> claims_bound sv w'"
  using move_file_db [of e src dst w w' b] by (auto intro: claims_same_rows)

lemma claims_create_loading:
  "claims_bound sv w \<Longrightarrow> claims_bound sv (fst (create_loading_and_extract e u n sc ow cls b w))"
  by (auto simp: create_loading_and_extract_def split: prod.split option.split intro: claims_new_set claims_no_set)

lemma claims_approve:
  assumes c: "claims_bound sv w" and k: "canonical sv"
  shows "claims_bound sv (fst (approve sv e i owner w))"
proof (cases "get_request (de_ok e) i (dw_db w)")
  case (Inr r)
  obtain db x where ins: "insert_set (de_ok e) (set_of_request sv e r owner) (dw_db w) = (db, x)" by fastforce
  have i: "claims_bound sv (w\<lparr>dw_db := db\<rparr>)" using claims_insert [OF c ins] k by (simp add: set_of_request_def)
  show ?thesis using claims_load_with [OF i] k Inr ins i
    by (cases x) (auto simp: approve_def mark_request_def Let_def claims_bound_def)
qed (simp add: approve_def c)

lemma claims_request:
  assumes c: "claims_bound sv w" and k: "canonical sv"
  shows "claims_bound sv (fst (ds_handle sv e u un op w))"
proof (cases op)
  case (RegisterSet b)
  then show ?thesis using c
    by (auto simp: ds_handle_def register_def create_request_def claims_bound_def split: option.split)
next
  case (DeleteSet i)
  then show ?thesis using claims_same_rows [OF c, of "fst (delete_dataset sv e (parse_id i) w)"]
    by (auto simp: ds_handle_def delete_dataset_sets)
next
  case (RegisterNfs b)
  then show ?thesis using c
    by (auto simp: ds_handle_def register_nfs_def Let_def split: option.split prod.split bool.split
        intro!: claims_create_loading intro: move_file_claims)
next
  case (RegisterUrl b)
  then show ?thesis using c
    by (auto simp: ds_handle_def register_url_def split: option.split prod.split intro: claims_new_set claims_no_set)
next
  case (DescribeSet i b)
  show ?thesis
  proof (cases b)
    case (Some p)
    obtain desc cls where p: "p = (desc, cls)" by fastforce
    have 1: "claims_bound sv (dw_upd (upd_set (parse_id i) (\<lambda>d. d\<lparr>ds_desc := desc\<rparr>)) w)"
      by (rule claims_upd [OF c]) (simp add: claim_ok_def)
    have 2: "claims_bound sv (dw_upd (upd_set (parse_id i) (\<lambda>d. d\<lparr>ds_class := cls\<rparr>)) (dw_upd (upd_set (parse_id i) (\<lambda>d. d\<lparr>ds_desc := desc\<rparr>)) w))"
      by (rule claims_upd [OF 1]) (simp add: claim_ok_def)
    show ?thesis using c 1 2 DescribeSet Some p by (auto simp: ds_handle_def update_meta_def dw_upd_def Let_def)
  qed (simp add: ds_handle_def DescribeSet c)
next
  case (ApproveSet i)
  then show ?thesis using claims_approve [OF c k] by (simp add: ds_handle_def)
next
  case (RejectSet i)
  then show ?thesis using c by (auto simp: ds_handle_def reject_def mark_request_def claims_bound_def)
next
  case (ToggleSet i b)
  have "set (dd_sets (dw_db (fst (toggle_cache sv e j n w)))) \<subseteq> set (dd_sets (dw_db w)) \<and>
      dw_pvcs (fst (toggle_cache sv e j n w)) = dw_pvcs w" for j n
    by (auto simp: toggle_cache_def Let_def cache_upsert_def run_job_def cache_delete_def split: sum.split option.split)
  then show ?thesis using claims_same_rows [OF c] c ToggleSet by (simp add: ds_handle_def split: option.split)
qed

lemma claims_reconcile_set:
  assumes c: "claims_bound sv w" and ok: "de_ok e DSetPVC"
  shows "claims_bound sv (reconcile_set sv e d w)"
proof (cases "build_job_status e (load_job (ds_id d)) w = Some JobSucceeded \<and> de_pvc e")
  case True
  let ?i = "ds_id d"
  let ?w1 = "w\<lparr>dw_pvcs := insert (dv_ns sv, ds_claim ?i) (dw_pvcs w)\<rparr>"
  let ?P = "\<lambda>x. claim_ok sv (dw_pvcs ?w1) x \<and> (ds_id x = ?i \<longrightarrow> claim_ok sv (dw_pvcs ?w1) (x\<lparr>ds_load := ''ready''\<rparr>))"
  let ?w2 = "dw_upd (set_pvc (de_ok e) ?i (ds_claim ?i) (dv_ns sv)) ?w1"
  have "\<forall>x \<in> set (dd_sets (dw_db w)). claim_ok sv (dw_pvcs ?w1) x" using c by (auto simp: claims_bound_def claim_ok_def)
  then have 2: "\<forall>x \<in> set (dd_sets (dw_db ?w2)). ?P x"
    by (auto simp: set_pvc_def ok claim_ok_def upd_row_def upd_where_def)
  let ?w3 = "if ds_hash d = [] then dw_upd (set_hash (de_ok e) ?i (parse_hash (build_logs (load_job ?i) w))) ?w2 else ?w2"
  have 3: "\<forall>x \<in> set (dd_sets (dw_db ?w3)). ?P x"
    using all_upd_row [OF 2, of ds_id ?i "\<lambda>x. x\<lparr>ds_hash := parse_hash (build_logs (load_job ?i) w)\<rparr>"] 2
    by (auto simp: set_hash_def claim_ok_def)
  let ?w4 = "dw_upd (set_size (de_ok e) ?i (parse_extracted (build_logs (load_job ?i) w))) ?w3"
  have 4: "\<forall>x \<in> set (dd_sets (dw_db ?w4)). ?P x"
    using all_upd_row [OF 3, of ds_id ?i "\<lambda>x. x\<lparr>ds_bytes := parse_extracted (build_logs (load_job ?i) w)\<rparr>"] 3
    by (auto simp: set_size_def claim_ok_def)
  have "\<forall>x \<in> set (dd_sets (dw_db (dw_upd (set_load (de_ok e) ?i ''ready'') ?w4))). claim_ok sv (dw_pvcs ?w1) x"
    using 4 by (auto simp: set_load_def upd_row_def upd_where_def)
  then show ?thesis using True by (simp add: reconcile_set_def Let_def claims_bound_def)
next
  case False
  then show ?thesis using c claims_failed [OF c]
    by (auto simp: reconcile_set_def Let_def split: option.split job_status.split)
qed

lemma claims_reconcile_cache: "claims_bound sv w \<Longrightarrow> claims_bound sv (reconcile_cache e c w)"
  by (auto simp: reconcile_cache_def Let_def claims_bound_def cache_upsert_def split: option.split job_status.split)

lemma claims_tick:
  assumes "claims_bound sv w" "de_ok e DSetPVC"
  shows "claims_bound sv (reconciler_tick sv e w)"
proof -
  have "claims_bound sv (fold (reconcile_set sv e) xs v)" if "claims_bound sv v" for xs v
    using that by (induction xs arbitrary: v) (simp_all add: claims_reconcile_set assms(2))
  moreover have "claims_bound sv (fold (reconcile_cache e) ys v)" if "claims_bound sv v" for ys v
    using that by (induction ys arbitrary: v) (simp_all add: claims_reconcile_cache)
  ultimately show ?thesis using assms(1) by (simp add: reconciler_tick_def ds_reconcile_once_def Let_def)
qed

text \<open>in every run of requests, background measurements, reconciler ticks and job progress, a dataset that is
  marked ready has its claim: the claim exists in the dataset namespace and the row names it, so sessions can
  mount it. This holds as long as the statement that records the claim succeeds.\<close>

theorem ready_datasets_have_claims:
  assumes "canonical sv" "ds_run sv adm (\<lambda>e. de_ok e DSetPVC) w w'" "claims_bound sv w"
    and "d \<in> set (dd_sets (dw_db w'))" "ds_load d = ''ready''"
  shows "ds_pvc d = ds_claim (ds_id d) \<and> (ds_pvc_ns d, ds_pvc d) \<in> dw_pvcs w' \<and>
    (row_of ds_id (ds_id d) (dd_sets (dw_db w')) = Some d \<longrightarrow>
      dataset_mount_row \<lparr>vt_volumes = vs, vt_shares = sh, vt_members = ms, vt_datasets = map mount_row (dd_sets (dw_db w'))\<rparr> (ds_id d) =
        Some (mount_row d))"
proof -
  have "claims_bound sv w'"
    using assms(2,3)
  proof (induction rule: ds_run.induct)
    case (request w w1 e op u n w2 r)
    then show ?case using claims_request [OF _ assms(1), of w1 e u n op] by simp
  next
    case (measure w w1 e i url)
    then show ?case by (auto simp: measured_def claims_bound_def set_request_size_def)
  next
    case (tick w w1 e)
    then show ?case using claims_tick by blast
  qed (simp_all add: claims_bound_def)
  then have "claim_ok sv (dw_pvcs w') d" using assms(4) by (simp add: claims_bound_def)
  then have c: "ds_pvc d = ds_claim (ds_id d)" "(ds_pvc_ns d, ds_pvc d) \<in> dw_pvcs w'"
    using assms(5) by (auto simp: claim_ok_def)
  have "row_of dr_id i (map mount_row t) = map_option mount_row (row_of ds_id i t)" for i t
    by (induction t) (auto simp: mount_row_def)
  then show ?thesis using c by (simp add: dataset_mount_row_def mount_row_def ds_claim_def)
qed

section \<open>The reconciler settles what the jobs decided\<close>

definition none_running :: "ds_world \<Rightarrow> bool" where
  "none_running w \<longleftrightarrow> (\<forall>k j. dw_jobs w k = Some j \<longrightarrow> jb_status j \<noteq> JobRunning)"

definition loading_ids :: "ds_world \<Rightarrow> int list" where
  "loading_ids w = map ds_id (filter (\<lambda>d. ds_load d = ''loading'') (dd_sets (dw_db w)))"

definition caching_keys :: "ds_world \<Rightarrow> (int \<times> string) list" where
  "caching_keys w = map cache_key (filter (\<lambda>c. cr_status c = ''caching'') (dd_caches (dw_db w)))"

lemma none_running_steps:
  assumes "none_running w"
  shows "none_running (reconcile_set sv e d w)" "none_running (reconcile_cache e c w)"
  using assms by (auto simp: none_running_def reconcile_set_def reconcile_cache_def delete_job_def Let_def
      split: option.split job_status.split)

lemma reconcile_set_caches: "dd_caches (dw_db (reconcile_set sv e d w)) = dd_caches (dw_db w)"
  by (simp add: reconcile_set_def Let_def set_load_def set_size_def set_hash_def set_pvc_def split: option.split job_status.split)

lemma reconcile_cache_sets: "dd_sets (dw_db (reconcile_cache e c w)) = dd_sets (dw_db w)"
  by (simp add: reconcile_cache_def Let_def cache_upsert_def split: option.split job_status.split)

lemma keys_settled:
  "(\<And>x. P (f x) = False) \<Longrightarrow> map key (filter P (upd_row key k f t)) = filter (\<lambda>j. j \<noteq> k) (map key (filter P t))"
  by (induction t) auto

lemma keys_kept:
  "(\<And>x. P (f x) = P x) \<Longrightarrow> (\<And>x. key (f x) = key x) \<Longrightarrow> map key (filter P (upd_row key k f t)) = map key (filter P t)"
  by (induction t) auto

lemma reconcile_set_settles:
  assumes "none_running w" "de_pvc e" "\<And>s. de_ok e s" "\<And>n. de_status e n"
  shows "loading_ids (reconcile_set sv e d w) = filter (\<lambda>j. j \<noteq> ds_id d) (loading_ids w)"
proof -
  let ?st = "build_job_status e (load_job (ds_id d)) w"
  have "?st \<noteq> Some JobRunning" "?st \<noteq> None"
    using assms by (auto simp: build_job_status_def none_running_def split: option.split)
  then consider "?st = Some JobFailed" | "?st = Some JobSucceeded" by (metis job_status.exhaust option.exhaust)
  then show ?thesis
    using assms(2,3)
    by cases (simp_all add: reconcile_set_def Let_def loading_ids_def set_load_def set_pvc_def set_hash_def set_size_def
      keys_settled keys_kept)
qed

lemma cache_settles:
  assumes "none_running w" "\<And>s. de_ok e s" "\<And>n. de_status e n"
  shows "caching_keys (reconcile_cache e c w) = filter (\<lambda>j. j \<noteq> cache_key c) (caching_keys w)"
proof -
  let ?st = "build_job_status e (cache_job (cr_set c) (cr_node c)) w"
  have u: "map cache_key (filter (\<lambda>c. cr_status c = ''caching'') (dd_caches (fst (cache_upsert ok (cr_set c) (cr_node c) st db)))) =
      filter (\<lambda>j. j \<noteq> cache_key c) (map cache_key (filter (\<lambda>c. cr_status c = ''caching'') (dd_caches db)))"
    if "ok DCacheUpsert" "st \<noteq> ''caching''" for ok st db
  proof (cases "row_of cache_key (cr_set c, cr_node c) (dd_caches db)")
    case None
    then have "filter (\<lambda>j. j \<noteq> cache_key c) (map cache_key (filter P (dd_caches db))) = map cache_key (filter P (dd_caches db))" for P
      by (intro filter_True) (auto simp: row_of_None cache_key_def image_iff)
    then show ?thesis using that None by (simp add: cache_upsert_def)
  next
    case (Some a)
    then show ?thesis using that by (simp add: cache_upsert_def keys_settled cache_key_def [of c])
  qed
  have "?st \<noteq> Some JobRunning" "?st \<noteq> None"
    using assms by (auto simp: build_job_status_def none_running_def split: option.split)
  then consider "?st = Some JobFailed" | "?st = Some JobSucceeded" by (metis job_status.exhaust option.exhaust)
  then show ?thesis using assms(2)
    by cases (simp_all add: reconcile_cache_def Let_def caching_keys_def u)
qed

lemma fold_settles:
  assumes "\<And>x v. none_running v \<Longrightarrow> none_running (f x v)" "\<And>x v. none_running v \<Longrightarrow> ids (f x v) = filter (\<lambda>j. j \<noteq> key x) (ids v)"
    and "none_running v"
  shows "set (ids (fold f xs v)) = set (ids v) - key ` set xs \<and> none_running (fold f xs v)"
  using assms(3)
proof (induction xs arbitrary: v)
  case (Cons x xs)
  show ?case using Cons.IH [OF assms(1) [OF Cons.prems]] assms(2) [OF Cons.prems, of x] by auto
qed simp

text \<open>No job of a finished kind is left behind by a tick.\<close>

lemma tick_leaves_none:
  assumes "canonical sv" "none_running w" "de_pvc e" "\<And>s. de_ok e s" "\<And>n. de_status e n"
  shows "(\<forall>d \<in> set (dd_sets (dw_db (reconciler_tick sv e w))). ds_load d \<noteq> ''loading'') \<and>
    (\<forall>c \<in> set (dd_caches (dw_db (reconciler_tick sv e w))). cr_status c \<noteq> ''caching'')"
proof -
  let ?w1 = "fold (reconcile_set sv e) (list_loading (de_ok e) (dw_db w)) w"
  let ?w2 = "fold (reconcile_cache e) (list_caching (de_ok e) (dw_db ?w1)) ?w1"
  have 1: "set (loading_ids ?w1) = set (loading_ids w) - ds_id ` set (list_loading (de_ok e) (dw_db w)) \<and> none_running ?w1"
    by (rule fold_settles [of "reconcile_set sv e" loading_ids ds_id, OF none_running_steps(1)
          reconcile_set_settles [OF _ assms(3-5)] assms(2)])
  then have n: "none_running ?w1" ..
  have 2: "set (caching_keys ?w2) = set (caching_keys ?w1) - cache_key ` set (list_caching (de_ok e) (dw_db ?w1)) \<and> none_running ?w2"
    by (rule fold_settles [of "reconcile_cache e" caching_keys cache_key, OF none_running_steps(2)
          cache_settles [OF _ assms(4,5)] n])
  have "dd_sets (dw_db (fold (reconcile_cache e) cs v)) = dd_sets (dw_db v)" for cs v
    by (induction cs arbitrary: v) (simp_all add: reconcile_cache_sets)
  then have "loading_ids ?w2 = loading_ids ?w1" by (simp only: loading_ids_def)
  moreover have "set (loading_ids w) = ds_id ` set (list_loading (de_ok e) (dw_db w))"
    using assms(4) by (simp only: loading_ids_def list_loading_def if_True set_map)
  ultimately have "set (loading_ids ?w2) = {}" using 1 by simp
  moreover have "set (caching_keys ?w1) = cache_key ` set (list_caching (de_ok e) (dw_db ?w1))"
    using assms(4) by (simp only: caching_keys_def list_caching_def if_True set_map)
  then have "set (caching_keys ?w2) = {}" using 2 by simp
  moreover have "reconciler_tick sv e w = ?w2" using assms(1) by (simp add: reconciler_tick_def ds_reconcile_once_def Let_def)
  moreover have "\<forall>d \<in> set (dd_sets (dw_db v)). ds_load d \<noteq> ''loading''" if "set (loading_ids v) = {}" for v
    using that by (simp add: loading_ids_def filter_empty_conv)
  moreover have "\<forall>c \<in> set (dd_caches (dw_db v)). cr_status c \<noteq> ''caching''" if "set (caching_keys v) = {}" for v
    using that by (simp add: caching_keys_def filter_empty_conv)
  ultimately show ?thesis by metis
qed

text \<open>The names of jobs tell datasets and copies apart.\<close>

lemma load_job_inj [simp]: "load_job i = load_job j \<longleftrightarrow> i = j"
  by (simp add: load_job_def)

lemma load_job_no_cache [simp]: "load_job i \<noteq> cache_job j n" "cache_job j n \<noteq> load_job i"
  by (simp_all add: load_job_def cache_job_def)

lemma dash_parted:
  assumes "CHR ''-'' \<notin> set xs" "CHR ''-'' \<notin> set ys" "xs @ CHR ''-'' # a = ys @ CHR ''-'' # b"
  shows "xs = ys \<and> a = b"
  using assms
proof (induction xs arbitrary: ys)
  case Nil
  then show ?case by (cases ys) auto
next
  case (Cons x xs)
  then obtain y zs where ys: "ys = y # zs" by (cases ys) auto
  show ?case using Cons.IH [of zs] Cons.prems unfolding ys by simp
qed

lemma dec_dash:
  assumes "dec i @ CHR ''-'' # a = dec j @ CHR ''-'' # b"
  shows "i = j \<and> a = b"
proof -
  have d: "CHR ''-'' \<notin> set (dec_nat n)" for n
    using dec_nat_digits [of n] by (auto simp: is_digit_def)
  have h: "dec_nat n \<noteq> [] \<and> hd (dec_nat n @ c) \<noteq> CHR ''-''" for n c
    using d [of n] by (cases "dec_nat n") (auto simp: dec_nat.simps [of n] split: if_splits)
  consider "i < 0" "j < 0" | "\<not> i < 0" "\<not> j < 0" | "(i < 0) \<noteq> (j < 0)" by blast
  then show ?thesis
  proof cases
    case 1
    then have "dec_nat (nat (- i)) @ CHR ''-'' # a = dec_nat (nat (- j)) @ CHR ''-'' # b" using assms by (simp add: dec_def)
    from dash_parted [OF d d this] show ?thesis using 1 by (simp add: dec_nat_inj eq_nat_nat_iff)
  next
    case 2
    then have "dec_nat (nat i) @ CHR ''-'' # a = dec_nat (nat j) @ CHR ''-'' # b" using assms by (simp add: dec_def)
    from dash_parted [OF d d this] show ?thesis using 2 by (simp add: dec_nat_inj eq_nat_nat_iff)
  next
    case 3
    then show ?thesis using arg_cong [OF assms, of hd] h by (auto simp: dec_def) metis+
  qed
qed

lemma cache_job_inj [simp]: "cache_job i n = cache_job j m \<longleftrightarrow> i = j \<and> n = m"
  using dec_dash [of i n j m] by (auto simp: cache_job_def)

text \<open>What a job decides: ready or cached when it succeeded, failed when it failed or is gone, and nothing as long as
  it runs.\<close>

definition settled :: "job_row option \<Rightarrow> string \<Rightarrow> string \<Rightarrow> string" where
  "settled j success now =
     (case j of None \<Rightarrow> ''failed''
      | Some r \<Rightarrow> (case jb_status r of JobRunning \<Rightarrow> now | JobSucceeded \<Rightarrow> success | JobFailed \<Rightarrow> ''failed''))"

definition load_of :: "ds_world \<Rightarrow> int \<Rightarrow> string option" where
  "load_of w i = map_option ds_load (row_of ds_id i (dd_sets (dw_db w)))"

definition copy_of :: "ds_world \<Rightarrow> int \<times> string \<Rightarrow> string option" where
  "copy_of w k = map_option cr_status (row_of cache_key k (dd_caches (dw_db w)))"

definition load_in :: "ds_db \<Rightarrow> int \<Rightarrow> string option" where
  "load_in db i = map_option ds_load (row_of ds_id i (dd_sets db))"

lemma load_of_in: "load_of w i = load_in (dw_db w) i"
  by (simp add: load_of_def load_in_def)

lemma load_in_keep:
  assumes "\<And>d. ds_id (f d) = ds_id d" "\<And>d. ds_load (f d) = ds_load d"
  shows "load_in (upd_set j f db) i = load_in db i"
  using assms by (simp add: load_in_def upd_set_def row_of_upd_row option.map_comp comp_def)

lemma load_in_steps:
  "\<lbrakk>\<And>s. ok s\<rbrakk> \<Longrightarrow> load_in (set_load ok j st db) i = (if i = j then map_option (\<lambda>_. st) (load_in db i) else load_in db i)"
  "load_in (set_size ok j n db) i = load_in db i" "load_in (set_hash ok j h db) i = load_in db i"
  "load_in (set_pvc ok j p ns db) i = load_in db i"
  by (simp_all add: set_size_def set_hash_def set_pvc_def load_in_keep)
    (simp add: set_load_def load_in_def upd_set_def row_of_upd_row option.map_comp comp_def)

lemma settled_running: "j = Some r \<Longrightarrow> jb_status r = JobRunning \<Longrightarrow> settled j s now = now"
  and settled_failed: "case_option True (\<lambda>r. jb_status r = JobFailed) j \<Longrightarrow> settled j s now = ''failed''"
  and settled_success: "j = Some r \<Longrightarrow> jb_status r = JobSucceeded \<Longrightarrow> settled j s now = s"
  by (simp_all add: settled_def split: option.splits)

lemma map_option_keep: "(\<And>x. f x = x) \<Longrightarrow> map_option f m = m"
  by (cases m) auto

lemma reconcile_set_step:
  assumes "de_pvc e" "\<And>s. de_ok e s" "\<And>n. de_status e n"
  shows "load_of (reconcile_set sv e d w) i =
      (if i = ds_id d then map_option (settled (dw_jobs w (load_job i)) ''ready'') (load_of w i) else load_of w i)"
    and "n \<noteq> load_job (ds_id d) \<Longrightarrow> dw_jobs (reconcile_set sv e d w) n = dw_jobs w n"
proof -
  let ?j = "dw_jobs w (load_job (ds_id d))"
  note steps = load_in_steps(1) [of "de_ok e", OF assms(2)] load_in_steps(2-4)
  show "load_of (reconcile_set sv e d w) i =
      (if i = ds_id d then map_option (settled (dw_jobs w (load_job i)) ''ready'') (load_of w i) else load_of w i)"
  proof (cases "build_job_status e (load_job (ds_id d)) w")
    case None
    then show ?thesis using assms(3) by (simp add: build_job_status_def)
  next
    case (Some st)
    show ?thesis
    proof (cases st)
      case JobRunning
      then obtain r where r: "?j = Some r" "jb_status r = JobRunning"
        using Some assms(3) by (auto simp: build_job_status_def split: option.splits)
      have "map_option (settled ?j ''ready'') m = m" for m by (rule map_option_keep) (rule settled_running [OF r])
      then show ?thesis using Some JobRunning by (simp add: reconcile_set_def Let_def)
    next
      case JobSucceeded
      then obtain r where r: "?j = Some r" "jb_status r = JobSucceeded"
        using Some assms(3) by (auto simp: build_job_status_def split: option.splits)
      have "settled ?j ''ready'' = (\<lambda>_. ''ready'')" using settled_success [OF r] by (simp add: fun_eq_iff)
      then show ?thesis using Some JobSucceeded assms(1)
        by (simp add: reconcile_set_def Let_def load_of_in delete_job_def dw_upd_def steps)
    next
      case JobFailed
      then have "case_option True (\<lambda>r. jb_status r = JobFailed) ?j"
        using Some assms(3) by (auto simp: build_job_status_def split: option.splits)
      then have "settled ?j ''ready'' = (\<lambda>_. ''failed'')" using settled_failed by (simp add: fun_eq_iff)
      then show ?thesis using Some JobFailed
        by (simp add: reconcile_set_def Let_def load_of_in dw_upd_def steps)
    qed
  qed
  show "n \<noteq> load_job (ds_id d) \<Longrightarrow> dw_jobs (reconcile_set sv e d w) n = dw_jobs w n"
    by (simp add: reconcile_set_def Let_def dw_upd_def delete_job_def split: option.split job_status.split)
qed

lemma reconcile_sets_settle:
  assumes "de_pvc e" "\<And>s. de_ok e s" "\<And>n. de_status e n"
  shows "distinct (map ds_id ds) \<Longrightarrow> load_of (fold (reconcile_set sv e) ds w) i =
      (if i \<in> ds_id ` set ds then map_option (settled (dw_jobs w (load_job i)) ''ready'') (load_of w i) else load_of w i)"
    and "n \<notin> load_job ` ds_id ` set ds \<Longrightarrow> dw_jobs (fold (reconcile_set sv e) ds w) n = dw_jobs w n"
proof (induction ds arbitrary: w)
  case (Cons d ds)
  {
    case 1
    then show ?case using Cons.IH(1) [of "reconcile_set sv e d w"] reconcile_set_step [OF assms]
      by (auto simp: image_iff)
  next
    case 2
    then show ?case using Cons.IH(2) [of "reconcile_set sv e d w"] reconcile_set_step(2) [OF assms] by simp
  }
qed simp_all

definition copy_in :: "ds_db \<Rightarrow> int \<times> string \<Rightarrow> string option" where
  "copy_in db k = map_option cr_status (row_of cache_key k (dd_caches db))"

lemma copy_of_in: "copy_of w k = copy_in (dw_db w) k"
  by (simp add: copy_of_def copy_in_def)

lemma copy_in_upsert:
  assumes "ok DCacheUpsert" "copy_in db (i, node) \<noteq> None"
  shows "copy_in (fst (cache_upsert ok i node st db)) k = (if k = (i, node) then map_option (\<lambda>_. st) (copy_in db k) else copy_in db k)"
proof -
  have key: "cache_key (r\<lparr>cr_status := st\<rparr>) = cache_key r" for r by (simp add: cache_key_def)
  obtain r where "row_of cache_key (i, node) (dd_caches db) = Some r" using assms(2) by (auto simp: copy_in_def)
  then show ?thesis using assms(1) by (simp add: cache_upsert_def copy_in_def row_of_upd_row key option.map_comp comp_def)
qed

lemma reconcile_cache_step:
  assumes "\<And>s. de_ok e s" "\<And>n. de_status e n" "copy_of w (cache_key c) \<noteq> None"
  shows "copy_of (reconcile_cache e c w) k =
      (if k = cache_key c then map_option (settled (dw_jobs w (cache_job (fst k) (snd k))) ''cached'') (copy_of w k) else copy_of w k)"
    and "n \<noteq> cache_job (cr_set c) (cr_node c) \<Longrightarrow> dw_jobs (reconcile_cache e c w) n = dw_jobs w n"
proof -
  let ?j = "dw_jobs w (cache_job (cr_set c) (cr_node c))"
  have c: "cache_key c = (cr_set c, cr_node c)" by (simp add: cache_key_def)
  have u: "copy_in (fst (cache_upsert (de_ok e) (cr_set c) (cr_node c) st (dw_db w))) k =
      (if k = (cr_set c, cr_node c) then map_option (\<lambda>_. st) (copy_in (dw_db w) k) else copy_in (dw_db w) k)" for st
    using assms(1,3) unfolding c copy_of_in by (rule copy_in_upsert)
  show "copy_of (reconcile_cache e c w) k =
      (if k = cache_key c then map_option (settled (dw_jobs w (cache_job (fst k) (snd k))) ''cached'') (copy_of w k) else copy_of w k)"
  proof (cases "build_job_status e (cache_job (cr_set c) (cr_node c)) w")
    case None
    then show ?thesis using assms(2) by (simp add: build_job_status_def)
  next
    case (Some st)
    show ?thesis
    proof (cases st)
      case JobRunning
      then obtain r where r: "?j = Some r" "jb_status r = JobRunning"
        using Some assms(2) by (auto simp: build_job_status_def split: option.splits)
      have "map_option (settled ?j ''cached'') m = m" for m by (rule map_option_keep) (rule settled_running [OF r])
      then show ?thesis using Some JobRunning by (simp add: reconcile_cache_def Let_def c)
    next
      case JobSucceeded
      then obtain r where r: "?j = Some r" "jb_status r = JobSucceeded"
        using Some assms(2) by (auto simp: build_job_status_def split: option.splits)
      have "settled ?j ''cached'' = (\<lambda>_. ''cached'')" using settled_success [OF r] by (simp add: fun_eq_iff)
      then show ?thesis using Some JobSucceeded
        by (simp add: reconcile_cache_def Let_def copy_of_in delete_job_def dw_upd_def u c)
    next
      case JobFailed
      then have "case_option True (\<lambda>r. jb_status r = JobFailed) ?j"
        using Some assms(2) by (auto simp: build_job_status_def split: option.splits)
      then have "settled ?j ''cached'' = (\<lambda>_. ''failed'')" using settled_failed by (simp add: fun_eq_iff)
      then show ?thesis using Some JobFailed
        by (simp add: reconcile_cache_def Let_def copy_of_in dw_upd_def u c)
    qed
  qed
  show "n \<noteq> cache_job (cr_set c) (cr_node c) \<Longrightarrow> dw_jobs (reconcile_cache e c w) n = dw_jobs w n"
    by (simp add: reconcile_cache_def Let_def dw_upd_def delete_job_def split: option.split job_status.split)
qed

lemma reconcile_caches_settle:
  assumes "\<And>s. de_ok e s" "\<And>n. de_status e n"
  shows "distinct (map cache_key cs) \<Longrightarrow> \<forall>c \<in> set cs. copy_of w (cache_key c) \<noteq> None \<Longrightarrow>
    copy_of (fold (reconcile_cache e) cs w) k =
      (if k \<in> cache_key ` set cs then map_option (settled (dw_jobs w (cache_job (fst k) (snd k))) ''cached'') (copy_of w k) else copy_of w k)"
proof (induction cs arbitrary: w)
  case (Cons c cs)
  let ?w = "reconcile_cache e c w"
  have c: "copy_of w (cache_key c) \<noteq> None" using Cons.prems(2) by simp
  note step = reconcile_cache_step [OF assms c]
  have "\<forall>x \<in> set cs. copy_of ?w (cache_key x) \<noteq> None" using Cons.prems(2) step(1) by auto
  moreover have "distinct (map cache_key cs)" using Cons.prems(1) by simp
  moreover have "dw_jobs ?w (cache_job (fst k) (snd k)) = dw_jobs w (cache_job (fst k) (snd k))" if "k \<noteq> cache_key c"
    using that by (intro step(2)) (cases k, simp add: cache_key_def)
  ultimately show ?case using Cons.IH [of ?w] step(1) Cons.prems(1) by (auto simp: image_iff)
qed simp

lemma copies_same: "dd_caches (dw_db v) = dd_caches (dw_db w) \<Longrightarrow> copy_of v = copy_of w"
  by (simp add: copy_of_def fun_eq_iff)

lemma loads_same: "dd_sets (dw_db v) = dd_sets (dw_db w) \<Longrightarrow> load_of v = load_of w"
  by (simp add: load_of_def fun_eq_iff)

text \<open>C30: a tick of the reconciler, when every statement, status query and claim of it succeeds, settles exactly
  what the jobs have decided: a dataset that is loading becomes ready when its job has succeeded, failed when the
  job failed or is gone, and goes on loading while it runs, and a cache copy likewise; all others keep their
  state. So once no job runs any more, no dataset is left loading and no copy pending.\<close>

theorem tick_settles_everything:
  assumes "canonical sv" "de_pvc e" "\<And>s. de_ok e s" "\<And>n. de_status e n"
    and "keys_distinct ds_id (dd_sets (dw_db w))" "keys_distinct cache_key (dd_caches (dw_db w))"
  shows "load_of (reconciler_tick sv e w) i =
      (if load_of w i = Some ''loading'' then Some (settled (dw_jobs w (load_job i)) ''ready'' ''loading'') else load_of w i) \<and>
    copy_of (reconciler_tick sv e w) (i, n) =
      (if copy_of w (i, n) = Some ''caching'' then Some (settled (dw_jobs w (cache_job i n)) ''cached'' ''caching'') else copy_of w (i, n)) \<and>
    (none_running w \<longrightarrow>
      (\<forall>d \<in> set (dd_sets (dw_db (reconciler_tick sv e w))). ds_load d \<noteq> ''loading'') \<and>
      (\<forall>c \<in> set (dd_caches (dw_db (reconciler_tick sv e w))). cr_status c \<noteq> ''caching''))"
proof -
  let ?ds = "list_loading (de_ok e) (dw_db w)"
  let ?w1 = "fold (reconcile_set sv e) ?ds w"
  let ?cs = "list_caching (de_ok e) (dw_db ?w1)"
  have tick: "reconciler_tick sv e w = fold (reconcile_cache e) ?cs ?w1"
    using assms(1) by (simp add: reconciler_tick_def ds_reconcile_once_def Let_def)
  have sets: "dd_sets (dw_db (fold (reconcile_cache e) cs v)) = dd_sets (dw_db v)" for cs v
    by (induction cs arbitrary: v) (simp_all add: reconcile_cache_sets)
  have caches: "dd_caches (dw_db (fold (reconcile_set sv e) ds v)) = dd_caches (dw_db v)" for ds v
    by (induction ds arbitrary: v) (simp_all add: reconcile_set_caches)
  have ds: "distinct (map ds_id ?ds)" "i \<in> ds_id ` set ?ds \<longleftrightarrow> load_of w i = Some ''loading''"
    using assms(3,5) row_of_member [OF assms(5)] row_of_Some [of ds_id i "dd_sets (dw_db w)"]
    by (auto simp: list_loading_def keys_distinct_def distinct_map_filter load_of_def)
  have cs: "distinct (map cache_key ?cs)" "(i, n) \<in> cache_key ` set ?cs \<longleftrightarrow> copy_of ?w1 (i, n) = Some ''caching''"
    "\<forall>c \<in> set ?cs. copy_of ?w1 (cache_key c) \<noteq> None"
    using assms(3,6) row_of_member [OF assms(6)] row_of_Some [of cache_key "(i, n)" "dd_caches (dw_db w)"]
    by (auto simp: list_caching_def keys_distinct_def distinct_map_filter copy_of_def caches intro: image_eqI [OF sym])
  have jobs: "dw_jobs ?w1 (cache_job i n) = dw_jobs w (cache_job i n)"
    by (rule reconcile_sets_settle(2) [OF assms(2-4)]) auto
  have 1: "load_of (reconciler_tick sv e w) i =
      (if load_of w i = Some ''loading'' then Some (settled (dw_jobs w (load_job i)) ''ready'' ''loading'') else load_of w i)"
    unfolding tick loads_same [OF sets] reconcile_sets_settle(1) [OF assms(2-4) ds(1)] ds(2) by simp
  have 2: "copy_of (reconciler_tick sv e w) (i, n) =
      (if copy_of w (i, n) = Some ''caching'' then Some (settled (dw_jobs w (cache_job i n)) ''cached'' ''caching'') else copy_of w (i, n))"
    unfolding tick reconcile_caches_settle [OF assms(3,4) cs(1,3)] cs(2) fst_conv snd_conv jobs copies_same [OF caches] by simp
  show ?thesis using 1 2 tick_leaves_none [OF assms(1) _ assms(2-4)] by blast
qed

section \<open>Progress stays in range\<close>

lemma cap_pct_range: "0 \<le> cap_pct v \<and> cap_pct v \<le> 99"
  by (simp add: cap_pct_def)

lemma percent_range [simp]: "0 \<le> percent a b" "percent a b \<le> 99"
  by (simp_all add: percent_def cap_pct_range)

lemma wrap64_small: "- (2 ^ 63) \<le> n \<Longrightarrow> n < 2 ^ 63 \<Longrightarrow> wrap64 n = n"
  by (simp add: wrap64_def signed_take_bit_int_eq_self sint_sbintrunc')

lemma percent_exact:
  assumes "0 \<le> a" "a < 2 ^ 63 div 100" "0 < b"
  shows "percent a b = min 99 (a * 100 div b)"
proof -
  have "a * 100 < 2 ^ 63" using assms(2) by simp
  then have "wrap64 (a * 100) = a * 100" using assms(1) by (intro wrap64_small) auto
  then show ?thesis using assms(1,3) by (simp add: percent_def cap_pct_def sdiv_nonneg pos_imp_zdiv_neg_iff)
qed

lemma extract_phase_range: "extract_phase logs = Some p \<Longrightarrow> 0 \<le> p \<and> p \<le> 99"
  by (auto simp: extract_phase_def split: if_splits option.splits)

lemma eta_nonneg: "0 \<le> eta_of whole vals"
  by (simp add: eta_of_def Let_def)

text \<open>whatever a job writes to its log, even numbers at which the \<open>int64\<close> product wraps around, the progress
  shown is a percentage from 0 to 99 and the remaining time is not negative; while a download is under way the
  percentage is the share received, rounded down.\<close>

theorem progress_in_range:
  "0 \<le> pg_pct (load_progress sv i whole w) \<and> pg_pct (load_progress sv i whole w) \<le> 99 \<and>
   0 \<le> pg_eta (load_progress sv i whole w) \<and>
   0 \<le> snd (cache_progress sv i node w) \<and> snd (cache_progress sv i node w) \<le> 99 \<and>
   (pg_got (load_progress sv i whole w) \<in> {1..<2 ^ 63 div 100} \<longrightarrow>
      pg_pct (load_progress sv i whole w) = min 99 (pg_got (load_progress sv i whole w) * 100 div whole))"
proof -
  have "0 \<le> pg_pct (load_progress sv i whole w) \<and> pg_pct (load_progress sv i whole w) \<le> 99"
    by (auto simp: load_progress_def at_phase_def Let_def extract_phase_range split: option.split)
  moreover have "0 \<le> pg_eta (load_progress sv i whole w)"
    by (auto simp: load_progress_def at_phase_def Let_def eta_nonneg split: option.split)
  moreover have "0 \<le> snd (cache_progress sv i node w) \<and> snd (cache_progress sv i node w) \<le> 99"
    by (auto simp: cache_progress_def Let_def extract_phase_range split: option.split)
  moreover have "pg_pct (load_progress sv i whole w) = min 99 (pg_got (load_progress sv i whole w) * 100 div whole)"
    if "pg_got (load_progress sv i whole w) \<in> {1..<2 ^ 63 div 100}"
    using that by (auto simp: load_progress_def at_phase_def Let_def percent_exact split: if_splits option.splits)
  ultimately show ?thesis by blast
qed

section \<open>Sample runs\<close>

definition ds_svc0 :: ds_svc where
  "ds_svc0 = \<lparr>dv_cluster = True, dv_ns = ''giosk-datasets'', dv_server = ''nfs'', dv_base = ''/export'', dv_cache = ''/cache'',
     dv_mount = Some [''mnt'']\<rparr>"

definition ds_env0 :: ds_env where
  "ds_env0 = \<lparr>de_ok = (\<lambda>_. True), de_job = (\<lambda>_. True), de_pvc = True, de_status = (\<lambda>_. True), de_remote = (\<lambda>_. 0),
     de_size = (\<lambda>_. 0), de_mkdir = True, de_move = Renamed\<rparr>"

definition ds_row0 :: "int \<Rightarrow> string \<Rightarrow> string \<Rightarrow> dataset" where
  "ds_row0 i n ld = \<lparr>ds_id = i, ds_name = n, ds_scope = ''global'', ds_owner = ''root'', ds_owner_user = 1, ds_class = [], ds_gb = 4,
     ds_bytes = 0, ds_hash = [], ds_desc = [], ds_status = ''active'', ds_load = ld, ds_url = [], ds_pvc = [], ds_pvc_ns = []\<rparr>"

definition ds_req0 :: "string \<Rightarrow> ds_request" where
  "ds_req0 st = \<lparr>rq_id = 1, rq_name = ''mnist'', rq_user = 7, rq_class = [], rq_gb = 1, rq_bytes = 0, rq_hash = [], rq_url = [],
     rq_scope = ''global'', rq_status = st\<rparr>"

definition ds_world0 :: ds_world where
  "ds_world0 = \<lparr>dw_db = \<lparr>dd_sets = [ds_row0 1 ''mnist'' ''loading'', ds_row0 2 ''coco'' ''failed''], dd_reqs = [ds_req0 ''approved''],
       dd_caches = [\<lparr>cr_set = 2, cr_node = ''n1'', cr_status = ''caching''\<rparr>], dd_next = 3, dd_next_req = 2\<rparr>,
     dw_jobs = [''dl-ds-1'' \<mapsto> \<lparr>jb_kind = Extract ''mnist'', jb_status = JobSucceeded, jb_log = ''PROGRESS 50 ''\<rparr>],
     dw_pvcs = {}, dw_files = {[''mnt'', ''dataset'', ''mnist'', ''a''], [''mnt'', ''dataset'', ''coco'', ''b''], [''mnt'', ''home'']}\<rparr>"

lemmas ds_samples = ds_svc0_def ds_env0_def ds_row0_def ds_req0_def ds_world0_def

lemma plain_names: "valid_name ''mnist''" "valid_name ''coco''"
  by (simp_all add: valid_name_def has_prefix_def)

theorem delete_stays_in_dataset_witness:
  "\<exists>w' r. delete_dataset ds_svc0 ds_env0 1 ds_world0 = (w', r) \<and>
     [''mnt'', ''dataset'', ''coco'', ''b''] \<in> dw_files w' \<and> [''mnt'', ''dataset'', ''mnist'', ''a''] \<notin> dw_files w'"
proof -
  obtain w' r where r: "delete_dataset ds_svc0 ds_env0 1 ds_world0 = (w', r)" by fastforce
  let ?d = "ds_row0 1 ''mnist'' ''loading''"
  have h: "row_of ds_id 1 (dd_sets (dw_db ds_world0)) = Some ?d" "valid_name (ds_name ?d)" "ds_name ?d \<noteq> ''.''"
    "dv_mount ds_svc0 = Some [''mnt'']" "de_ok ds_env0 DGet"
    using plain_names by (simp_all add: ds_samples)
  have "dw_files w' = {f \<in> dw_files ds_world0. take (length [''mnt''] + 2) f \<noteq> [''mnt''] @ [''dataset'', ds_name ?d]}"
    using delete_stays_in_dataset [OF h r] by blast
  then show ?thesis using r by (simp add: ds_samples)
qed

lemma ds_ids: "dd_next (dw_db ds_world0) = 3" "dd_next_req (dw_db ds_world0) = 2" "in_int64 3" "in_int64 2" "in_int64 1"
  by (simp_all add: ds_world0_def in_int64_def)

theorem anyone_wipes_storage_witness:
  "\<exists>w1 w2 w3. ds_handle ds_svc0 ds_env0 7 ''u'' (RegisterSet (Some \<lparr>rr_name = ''..'', rr_class = [], rr_gb = 0, rr_hash = [], rr_url = [], rr_scope = []\<rparr>)) ds_world0 = (w1, None) \<and>
    ds_handle ds_svc0 ds_env0 1 ''root'' (ApproveSet (dec 2)) w1 = (w2, None) \<and>
    ds_handle ds_svc0 ds_env0 8 ''v'' (DeleteSet (dec 3)) w2 = (w3, None) \<and> {f \<in> dw_files w3. under_path [''mnt''] f} = {}"
proof -
  let ?r = "\<lparr>rr_name = ''..'', rr_class = [], rr_gb = 0, rr_hash = [], rr_url = [], rr_scope = []\<rparr>"
  have h: "\<And>s. de_ok ds_env0 s" "dv_mount ds_svc0 = Some [''mnt'']" "\<not> name_taken (de_ok ds_env0) ''..'' (dw_db ds_world0)"
    "\<forall>d \<in> set (dd_sets (dw_db ds_world0)). ds_id d < dd_next (dw_db ds_world0)"
    "\<forall>r \<in> set (dd_reqs (dw_db ds_world0)). rq_id r < dd_next_req (dw_db ds_world0)"
    "in_int64 (dd_next (dw_db ds_world0))" "in_int64 (dd_next_req (dw_db ds_world0))" "rr_name ?r = ''..''"
    by (simp_all add: ds_samples name_taken_def in_int64_def)
  show ?thesis using anyone_wipes_storage [OF h, of 7 "''u''" 1 "''root''" 8 "''v''"] unfolding ds_ids by blast
qed

theorem names_stay_unique_witness:
  "names_unique (dw_db (fst (ds_handle ds_svc0 ds_env0 1 ''root'' (ApproveSet ''1'')
     (ds_world0\<lparr>dw_db := (dw_db ds_world0)\<lparr>dd_sets := [], dd_reqs := [ds_req0 ''pending'']\<rparr>\<rparr>))))"
  by (rule names_stay_unique)
    (auto simp: ds_samples names_unique_def pending_names_def keys_distinct_def parse_id_def split: if_splits)

theorem second_approval_shares_directory_witness:
  "\<exists>w1 w2. ds_handle ds_svc0 ds_env0 1 ''root'' (ApproveSet (dec 1)) ds_world0 = (w1, None) \<and>
    ds_handle ds_svc0 ds_env0 8 ''v'' (DeleteSet (dec 3)) w1 = (w2, None) \<and>
    ds_row0 1 ''mnist'' ''loading'' \<in> set (dd_sets (dw_db w2)) \<and> {f \<in> dw_files w2. under_path (dataset_dir [''mnt''] ''mnist'') f} = {}"
  using second_approval_shares_directory [of ds_env0 ds_svc0 "[''mnt'']" 1 ds_world0 "ds_req0 ''approved''" "ds_row0 1 ''mnist'' ''loading''"
      1 "''root''" 8 "''v''"]
  by (simp add: ds_samples in_int64_def)

theorem tick_settles_everything_witness:
  "load_of ds_world0 1 = Some ''loading'' \<and> load_of (reconciler_tick ds_svc0 ds_env0 ds_world0) 1 = Some ''ready'' \<and>
   load_of (reconciler_tick ds_svc0 ds_env0 (ds_world0\<lparr>dw_jobs := Map.empty\<rparr>)) 1 = Some ''failed''"
proof -
  let ?gone = "ds_world0\<lparr>dw_jobs := Map.empty\<rparr>"
  have h: "canonical ds_svc0" "de_pvc ds_env0" "\<And>s. de_ok ds_env0 s" "\<And>n. de_status ds_env0 n"
    by (simp_all add: ds_samples canonical_def)
  have k: "keys_distinct ds_id (dd_sets (dw_db ds_world0))" "keys_distinct cache_key (dd_caches (dw_db ds_world0))"
    "keys_distinct ds_id (dd_sets (dw_db ?gone))" "keys_distinct cache_key (dd_caches (dw_db ?gone))"
    by (simp_all add: ds_samples keys_distinct_def)
  have l: "load_of ds_world0 1 = Some ''loading''" "load_of ?gone 1 = Some ''loading''"
    by code_simp+
  have j: "settled (dw_jobs ds_world0 (load_job 1)) ''ready'' ''loading'' = ''ready''" by code_simp
  show ?thesis
    using tick_settles_everything [OF h k(1,2), of 1] tick_settles_everything [OF h k(3,4), of 1] l j
    by (simp add: settled_def)
qed

lemma tick_makes_ready:
  "\<exists>d \<in> set (dd_sets (dw_db (reconciler_tick ds_svc0 ds_env0 ds_world0))). ds_load d = ''ready''"
proof -
  have "list_ex (\<lambda>d. ds_load d = ''ready'') (dd_sets (dw_db (reconciler_tick ds_svc0 ds_env0 ds_world0)))" by code_simp
  then show ?thesis by (simp only: list_ex_iff)
qed

theorem ready_datasets_have_claims_witness:
  "\<exists>d w'. ds_run ds_svc0 (\<lambda>_. False) (\<lambda>e. de_ok e DSetPVC) ds_world0 w' \<and> d \<in> set (dd_sets (dw_db w')) \<and>
     ds_load d = ''ready'' \<and> (ds_pvc_ns d, ds_pvc d) \<in> dw_pvcs w'"
proof -
  let ?w = "reconciler_tick ds_svc0 ds_env0 ds_world0"
  obtain d where d: "d \<in> set (dd_sets (dw_db ?w))" "ds_load d = ''ready''" using tick_makes_ready by blast
  have r: "ds_run ds_svc0 (\<lambda>_. False) (\<lambda>e. de_ok e DSetPVC) ds_world0 ?w"
    by (rule ds_run.tick [OF ds_run.stay]) (simp add: ds_env0_def)
  have "canonical ds_svc0" "claims_bound ds_svc0 ds_world0"
    by (simp_all add: canonical_def ds_svc0_def claims_bound_def ds_world0_def claim_ok_def ds_row0_def)
  then have "(ds_pvc_ns d, ds_pvc d) \<in> dw_pvcs ?w" using ready_datasets_have_claims [OF _ r _ d] by blast
  then show ?thesis using r d by blast
qed

theorem progress_in_range_witness:
  "pg_got (load_progress ds_svc0 1 200 ds_world0) = 50 \<and> pg_pct (load_progress ds_svc0 1 200 ds_world0) = 25"
proof -
  have "load_job 1 = ''dl-ds-1''" by code_simp
  moreover have "extract_phase ''PROGRESS 50 '' = None" "progress_values (words_of ''PROGRESS 50 '') = [50]" by code_simp+
  ultimately have g: "pg_got (load_progress ds_svc0 1 200 ds_world0) = 50"
    by (simp add: load_progress_def ds_samples build_logs_def Let_def)
  show ?thesis using progress_in_range [of ds_svc0 1 200 ds_world0 "''n1''"] by (simp add: g)
qed

end
