(* ===== verification/Notify.thy ===== *)
theory Notify
  imports Giosk_Prelude
begin

text \<open>
  Alert rules and their engine (\<open>internal/notify\<close>) with the two places an alert ends in: the event history
  of the monitoring wall (\<open>internal/alertlog\<close>) and the users' inbox (\<open>internal/usernotify\<close>). The engine
  keeps, per rule, the time of its last alert in memory; a tick happens at one instant. What the
  rules measure (Prometheus, node states, wallets, session usage) is the environment of a tick.
\<close>

section \<open>Rules and channels\<close>

record notify_rule =
  nr_id :: int
  nr_scope :: string
  nr_owner :: int
  nr_metric :: string
  nr_op :: string
  nr_value :: int
  nr_channel :: string
  nr_enabled :: bool
  nr_target :: string

record notify_chan =
  nc_id :: int
  nc_scope :: string
  nc_owner :: int
  nc_kind :: string
  nc_target :: string

record notify_config =
  cf_rules :: "notify_rule list"
  cf_emails :: "string list"
  cf_webhooks :: "string list"

record notify_db =
  nd_rules :: "notify_rule list"
  nd_chans :: "notify_chan list"
  nd_next :: int
  nd_next_chan :: int

datatype nstmt = NRules | NChans | NReplace | NUserRules | NNote | NEvent | NMarkRead | NMarkAll

definition plain_rule :: "string \<Rightarrow> string \<Rightarrow> int \<Rightarrow> string \<Rightarrow> bool \<Rightarrow> notify_rule" where
  "plain_rule metric op val ch on = \<lparr>nr_id = 0, nr_scope = [], nr_owner = 0, nr_metric = metric, nr_op = op, nr_value = val,
     nr_channel = ch, nr_enabled = on, nr_target = []\<rparr>"

definition default_rules :: "string \<Rightarrow> notify_rule list" where
  "default_rules scope =
     (if scope = ''admin''
      then [plain_rule ''node_down'' ''gte'' 1 ''email'' True, plain_rule ''disk_usage'' ''gte'' 85 ''email'' True,
            plain_rule ''volume_usage'' ''gte'' 85 ''email'' True, plain_rule ''capacity'' ''gte'' 85 ''webhook'' False,
            plain_rule ''node_idle'' ''lte'' 5 ''webhook'' False, plain_rule ''gpu_temp'' ''gte'' 82 ''webhook'' True,
            plain_rule ''gpu_util'' ''gte'' 95 ''webhook'' False]
      else [plain_rule ''budget_pct'' ''gte'' 80 ''email'' True, plain_rule ''credit_balance'' ''lte'' 50 ''email'' True,
            plain_rule ''session_idle'' ''gte'' 30 ''webhook'' False])"

definition rule_of :: "string \<Rightarrow> int \<Rightarrow> notify_rule \<Rightarrow> bool" where
  "rule_of scope owner r \<longleftrightarrow> nr_scope r = scope \<and> nr_owner r = owner"

definition chan_of :: "string \<Rightarrow> int \<Rightarrow> notify_chan \<Rightarrow> bool" where
  "chan_of scope owner c \<longleftrightarrow> nc_scope c = scope \<and> nc_owner c = owner"

definition get_config :: "(nstmt \<Rightarrow> bool) \<Rightarrow> string \<Rightarrow> int \<Rightarrow> notify_db \<Rightarrow> notify_config option" where
  "get_config ok scope owner db =
     (if \<not> ok NRules then None
      else (let rs = sort_key nr_id (filter (rule_of scope owner) (nd_rules db))
            in if \<not> ok NChans then None
               else (let cs = sort_key nc_id (filter (chan_of scope owner) (nd_chans db))
                     in Some \<lparr>cf_rules = (if rs = [] then default_rules scope else rs),
                          cf_emails = map nc_target (filter (\<lambda>c. nc_kind c \<noteq> ''webhook'') cs),
                          cf_webhooks = map nc_target (filter (\<lambda>c. nc_kind c = ''webhook'') cs)\<rparr>)))"

definition enabled_user_rules :: "(nstmt \<Rightarrow> bool) \<Rightarrow> notify_db \<Rightarrow> notify_rule list option" where
  "enabled_user_rules ok db =
     (if \<not> ok NUserRules then None
      else Some (sort_key nr_owner (sort_key nr_id (filter (\<lambda>r. nr_scope r = ''user'' \<and> nr_enabled r) (nd_rules db)))))"

text \<open>Replacing is one transaction: a failing statement undoes all of it.\<close>

definition insert_rule :: "string \<Rightarrow> int \<Rightarrow> notify_rule \<Rightarrow> notify_db \<Rightarrow> notify_db" where
  "insert_rule scope owner r db =
     db\<lparr>nd_rules := nd_rules db @ [r\<lparr>nr_id := nd_next db, nr_scope := scope, nr_owner := owner\<rparr>], nd_next := nd_next db + 1\<rparr>"

definition insert_chan :: "string \<Rightarrow> int \<Rightarrow> string \<Rightarrow> string \<Rightarrow> notify_db \<Rightarrow> notify_db" where
  "insert_chan scope owner kind target db =
     (if target = [] then db
      else db\<lparr>nd_chans := nd_chans db @ [\<lparr>nc_id = nd_next_chan db, nc_scope = scope, nc_owner = owner, nc_kind = kind, nc_target = target\<rparr>],
             nd_next_chan := nd_next_chan db + 1\<rparr>)"

definition replace_config :: "(nstmt \<Rightarrow> bool) \<Rightarrow> string \<Rightarrow> int \<Rightarrow> notify_config \<Rightarrow> notify_db \<Rightarrow> notify_db \<times> bool" where
  "replace_config ok scope owner cf db =
     (if \<not> ok NReplace then (db, False)
      else (let db1 = db\<lparr>nd_rules := filter (\<lambda>r. \<not> rule_of scope owner r) (nd_rules db),
                         nd_chans := filter (\<lambda>c. \<not> chan_of scope owner c) (nd_chans db)\<rparr>;
                db2 = fold (insert_rule scope owner) (cf_rules cf) db1;
                db3 = fold (insert_chan scope owner ''email'') (cf_emails cf) db2
            in (fold (insert_chan scope owner ''webhook'') (cf_webhooks cf) db3, True)))"

section \<open>The inbox\<close>

record user_note =
  no_id :: int
  no_user :: int
  no_severity :: string
  no_metric :: string
  no_value :: rat
  no_threshold :: int
  no_target :: string
  no_read :: "time option"
  no_at :: time

record inbox =
  ib_notes :: "user_note list"
  ib_next :: int

definition record_note :: "(nstmt \<Rightarrow> bool) \<Rightarrow> time \<Rightarrow> int \<Rightarrow> string \<Rightarrow> string \<Rightarrow> rat \<Rightarrow> int \<Rightarrow> string \<Rightarrow> inbox \<Rightarrow> inbox" where
  "record_note ok now u sev metric v th target ib =
     (if ok NNote
      then \<lparr>ib_notes = ib_notes ib @ [\<lparr>no_id = ib_next ib, no_user = u, no_severity = sev, no_metric = metric, no_value = v,
              no_threshold = th, no_target = target, no_read = None, no_at = now\<rparr>], ib_next = ib_next ib + 1\<rparr>
      else ib)"

definition list_notes :: "int \<Rightarrow> inbox \<Rightarrow> user_note list" where
  "list_notes u ib = take 100 (rev (sort_key no_id (filter (\<lambda>n. no_user n = u) (ib_notes ib))))"

definition unread_count :: "int \<Rightarrow> inbox \<Rightarrow> nat" where
  "unread_count u ib = length (filter (\<lambda>n. no_user n = u \<and> no_read n = None) (ib_notes ib))"

definition mark_read :: "(nstmt \<Rightarrow> bool) \<Rightarrow> time \<Rightarrow> int \<Rightarrow> int \<Rightarrow> inbox \<Rightarrow> inbox" where
  "mark_read ok now i u ib =
     (if ok NMarkRead
      then ib\<lparr>ib_notes := upd_where (\<lambda>n. no_id n = i \<and> no_user n = u) (\<lambda>n. n\<lparr>no_read := Some now\<rparr>) (ib_notes ib)\<rparr> else ib)"

definition mark_all_read :: "(nstmt \<Rightarrow> bool) \<Rightarrow> time \<Rightarrow> int \<Rightarrow> inbox \<Rightarrow> inbox" where
  "mark_all_read ok now u ib =
     (if ok NMarkAll
      then ib\<lparr>ib_notes := upd_where (\<lambda>n. no_user n = u \<and> no_read n = None) (\<lambda>n. n\<lparr>no_read := Some now\<rparr>) (ib_notes ib)\<rparr> else ib)"

text \<open>The handler of the list counts the unread ones among those it shows.\<close>

definition inbox_page :: "int \<Rightarrow> inbox \<Rightarrow> user_note list \<times> nat" where
  "inbox_page u ib = (let items = list_notes u ib in (items, length (filter (\<lambda>n. no_read n = None) items)))"

section \<open>The engine\<close>

record team_balance =
  tb_group :: int
  tb_name :: string
  tb_balance :: int
  tb_active :: bool

datatype infra_query = DiskMax | GpuAvg | GpuTempMax | NodeIdleMin | BusyShare | VolumeMax

datatype alert = InfraAlert notify_rule rat | UserAlert notify_rule rat | TeamAlert notify_rule team_balance

record alert_event =
  av_source :: string
  av_severity :: string
  av_type :: string
  av_at :: time
  av_alert :: alert

record notify_world =
  nw_db :: notify_db
  nw_inbox :: inbox
  nw_last :: "string \<Rightarrow> time option"
  nw_fired :: "(alert \<times> time) list"
  nw_events :: "alert_event list"
  nw_mails :: "(string list \<times> alert) list"
  nw_hooks :: "(string \<times> alert) list"

record notify_env =
  ne_now :: time
  ne_ok :: "nstmt \<Rightarrow> bool"
  ne_scalar :: "infra_query \<Rightarrow> rat option"
  ne_nodes_down :: "int option"
  ne_user :: "string \<Rightarrow> (int \<Rightarrow> rat option) option"
  ne_session :: "string \<Rightarrow> string \<Rightarrow> rat option"
  ne_teams :: "int \<Rightarrow> team_balance list"

text \<open>Which of the optional parts are wired in.\<close>

record notify_svc =
  ns_metrics :: bool
  ns_nodes :: bool
  ns_mailer :: bool
  ns_inbox :: bool
  ns_user :: bool
  ns_session :: bool
  ns_credit :: bool

definition cooldown :: duration where
  "cooldown = 10 * 60 * 1000000000"

definition rule_key :: "notify_rule \<Rightarrow> string \<Rightarrow> string" where
  "rule_key r extra = nr_scope r @ ''|'' @ dec (nr_owner r) @ ''|'' @ nr_metric r @ ''|'' @ nr_op r @ ''|'' @ dec (nr_value r) @ ''|'' @
     nr_target r @ ''|'' @ extra"

definition cooling :: "notify_env \<Rightarrow> string \<Rightarrow> notify_world \<Rightarrow> notify_world \<times> bool" where
  "cooling e k w =
     (case nw_last w k of
        Some t \<Rightarrow> if ne_now e - t < cooldown then (w, True) else (w\<lparr>nw_last := (nw_last w)(k \<mapsto> ne_now e)\<rparr>, False)
      | None \<Rightarrow> (w\<lparr>nw_last := (nw_last w)(k \<mapsto> ne_now e)\<rparr>, False))"

definition breached :: "string \<Rightarrow> rat \<Rightarrow> rat \<Rightarrow> bool" where
  "breached op v th =
     (if op = ''gte'' then v \<ge> th else if op = ''gt'' then v > th else if op = ''lte'' then v \<le> th
      else if op = ''lt'' then v < th else if op = ''eq'' then v = th else False)"

definition severity_of :: "string \<Rightarrow> string" where
  "severity_of m = (if m \<in> set [''node_down'', ''gpu_temp'', ''volume_usage''] then ''err'' else ''warn'')"

definition user_severity :: "string \<Rightarrow> string" where
  "user_severity m = (if m = ''credit_balance'' \<or> m = ''volume_usage'' then ''err'' else ''warn'')"

definition query_of :: "string \<Rightarrow> infra_query option" where
  "query_of m =
     (if m = ''disk_usage'' then Some DiskMax else if m = ''gpu_util'' then Some GpuAvg else if m = ''gpu_temp'' then Some GpuTempMax
      else if m = ''node_idle'' then Some NodeIdleMin else if m = ''capacity'' then Some BusyShare
      else if m = ''volume_usage'' then Some VolumeMax else None)"

definition eval_metric :: "notify_svc \<Rightarrow> notify_env \<Rightarrow> string \<Rightarrow> rat option" where
  "eval_metric sv e m =
     (case query_of m of
        Some q \<Rightarrow> if ns_metrics sv then ne_scalar e q else None
      | None \<Rightarrow> if m = ''node_down'' \<and> ns_nodes sv then map_option fl (ne_nodes_down e) else None)"

text \<open>Every alert is written to the process log (\<open>nw_fired\<close>).\<close>

definition fire :: "notify_env \<Rightarrow> alert \<Rightarrow> notify_world \<Rightarrow> notify_world" where
  "fire e a w = w\<lparr>nw_fired := nw_fired w @ [(a, ne_now e)]\<rparr>"

definition deliver :: "notify_svc \<Rightarrow> notify_env \<Rightarrow> notify_config \<Rightarrow> notify_rule \<Rightarrow> rat \<Rightarrow> notify_world \<Rightarrow> notify_world" where
  "deliver sv e cf r v w =
     (let a = InfraAlert r v;
          w1 = fire e a w;
          w2 = (if ne_ok e NEvent
                then w1\<lparr>nw_events := nw_events w1 @ [\<lparr>av_source = ''infra'', av_severity = severity_of (nr_metric r), av_type = nr_metric r,
                          av_at = ne_now e, av_alert = a\<rparr>]\<rparr>
                else w1)
      in if nr_channel r = ''webhook'' then w2\<lparr>nw_hooks := nw_hooks w2 @ map (\<lambda>u. (u, a)) (cf_webhooks cf)\<rparr>
         else if nr_channel r = ''email'' \<and> ns_mailer sv \<and> cf_emails cf \<noteq> [] then w2\<lparr>nw_mails := nw_mails w2 @ [(cf_emails cf, a)]\<rparr>
         else w2)"

definition admin_rule :: "notify_svc \<Rightarrow> notify_env \<Rightarrow> notify_config \<Rightarrow> notify_rule \<Rightarrow> notify_world \<Rightarrow> notify_world" where
  "admin_rule sv e cf r w =
     (if \<not> nr_enabled r then w
      else case eval_metric sv e (nr_metric r) of None \<Rightarrow> w
           | Some v \<Rightarrow>
               if \<not> breached (nr_op r) v (fl (nr_value r)) then w
               else (case cooling e (rule_key r []) w of (w', True) \<Rightarrow> w' | (w', False) \<Rightarrow> deliver sv e cf r v w'))"

definition to_inbox :: "notify_env \<Rightarrow> notify_rule \<Rightarrow> rat \<Rightarrow> string \<Rightarrow> notify_world \<Rightarrow> notify_world" where
  "to_inbox e r v target w =
     w\<lparr>nw_inbox := record_note (ne_ok e) (ne_now e) (nr_owner r) (user_severity (nr_metric r)) (nr_metric r) v (nr_value r) target (nw_inbox w)\<rparr>"

text \<open>Credit balances are judged team by team.\<close>

definition team_credit :: "notify_rule \<Rightarrow> bool" where
  "team_credit r \<longleftrightarrow> nr_metric r = ''credit_balance'' \<and> nr_target r = []"

definition team_rule :: "notify_env \<Rightarrow> notify_rule \<Rightarrow> team_balance \<Rightarrow> notify_world \<Rightarrow> notify_world" where
  "team_rule e r tb w =
     (if \<not> tb_active tb then w
      else if \<not> breached (nr_op r) (fl (tb_balance tb)) (fl (nr_value r)) then w
      else case cooling e (rule_key r (dec (tb_group tb))) w of (w', True) \<Rightarrow> w'
           | (w', False) \<Rightarrow> fire e (TeamAlert r tb) (to_inbox e r (fl (tb_balance tb)) (tb_name tb) w'))"

definition credit_tick :: "notify_svc \<Rightarrow> notify_env \<Rightarrow> notify_rule list \<Rightarrow> notify_world \<Rightarrow> notify_world" where
  "credit_tick sv e rules w =
     (if \<not> ns_inbox sv \<or> \<not> ns_credit sv then w
      else fold (\<lambda>r. fold (team_rule e r) (ne_teams e (nr_owner r))) (filter team_credit rules) w)"

text \<open>The other user rules. A metric of the whole user is evaluated once per tick: \<open>cache\<close> holds the
  answers, \<open>asked\<close> the metrics that were evaluated.\<close>

type_synonym metric_cache = "string \<Rightarrow> (int \<Rightarrow> rat option) option option"

definition ask_user :: "notify_env \<Rightarrow> string \<Rightarrow> metric_cache \<times> string list \<Rightarrow> (metric_cache \<times> string list) \<times> (int \<Rightarrow> rat option) option" where
  "ask_user e m c =
     (case c of (cache, asked) \<Rightarrow>
        (case cache m of Some a \<Rightarrow> (c, a) | None \<Rightarrow> ((cache(m \<mapsto> ne_user e m), asked @ [m]), ne_user e m)))"

definition judge_user :: "notify_env \<Rightarrow> notify_rule \<Rightarrow> rat \<Rightarrow> notify_world \<Rightarrow> notify_world" where
  "judge_user e r v w =
     (if \<not> breached (nr_op r) v (fl (nr_value r)) then w
      else case cooling e (rule_key r []) w of (w', True) \<Rightarrow> w'
           | (w', False) \<Rightarrow> fire e (UserAlert r v) (to_inbox e r v (nr_target r) w'))"

definition user_rule ::
  "notify_svc \<Rightarrow> notify_env \<Rightarrow> notify_rule \<Rightarrow> notify_world \<times> metric_cache \<times> string list \<Rightarrow> notify_world \<times> metric_cache \<times> string list" where
  "user_rule sv e r st =
     (case st of (w, c) \<Rightarrow>
        if team_credit r then (w, c)
        else if nr_target r \<noteq> []
        then (if \<not> ns_session sv then (w, c)
              else case ne_session e (nr_target r) (nr_metric r) of None \<Rightarrow> (w, c) | Some v \<Rightarrow> (judge_user e r v w, c))
        else (case ask_user e (nr_metric r) c of
                (c', None) \<Rightarrow> (w, c')
              | (c', Some vals) \<Rightarrow> (case vals (nr_owner r) of None \<Rightarrow> (w, c') | Some v \<Rightarrow> (judge_user e r v w, c'))))"

definition user_loop :: "notify_svc \<Rightarrow> notify_env \<Rightarrow> notify_rule list \<Rightarrow> notify_world \<Rightarrow> notify_world \<times> metric_cache \<times> string list" where
  "user_loop sv e rules w = fold (user_rule sv e) rules (w, (\<lambda>_. None), [])"

definition user_tick :: "notify_svc \<Rightarrow> notify_env \<Rightarrow> notify_world \<Rightarrow> notify_world" where
  "user_tick sv e w =
     (if \<not> ns_inbox sv \<or> \<not> ns_user sv then w
      else case enabled_user_rules (ne_ok e) (nw_db w) of None \<Rightarrow> w
           | Some rules \<Rightarrow> if rules = [] then w else fst (user_loop sv e rules (credit_tick sv e rules w)))"

definition engine_tick :: "notify_svc \<Rightarrow> notify_env \<Rightarrow> notify_world \<Rightarrow> notify_world" where
  "engine_tick sv e w =
     (case get_config (ne_ok e) ''admin'' 0 (nw_db w) of None \<Rightarrow> w
      | Some cf \<Rightarrow> user_tick sv e (fold (admin_rule sv e cf) (cf_rules cf) w))"

section \<open>Requests\<close>

text \<open>A user's settings and inbox, and the administrators' settings; \<open>None\<close> is a body that does not parse.\<close>

datatype notify_op = PutUser "notify_config option" | PutAdmin "notify_config option" | ReadNote string | ReadAll

definition notify_handle :: "(nstmt \<Rightarrow> bool) \<Rightarrow> time \<Rightarrow> int \<Rightarrow> notify_op \<Rightarrow> notify_world \<Rightarrow> notify_world \<times> bool" where
  "notify_handle ok now u op w =
     (case op of
        PutUser None \<Rightarrow> (w, False)
      | PutUser (Some cf) \<Rightarrow> (case replace_config ok ''user'' u cf (nw_db w) of (db, b) \<Rightarrow> (w\<lparr>nw_db := db\<rparr>, b))
      | PutAdmin None \<Rightarrow> (w, False)
      | PutAdmin (Some cf) \<Rightarrow> (case replace_config ok ''admin'' 0 cf (nw_db w) of (db, b) \<Rightarrow> (w\<lparr>nw_db := db\<rparr>, b))
      | ReadNote i \<Rightarrow> (w\<lparr>nw_inbox := mark_read ok now (parse_id i) u (nw_inbox w)\<rparr>, ok NMarkRead)
      | ReadAll \<Rightarrow> (w\<lparr>nw_inbox := mark_all_read ok now u (nw_inbox w)\<rparr>, ok NMarkAll))"

inductive notify_run :: "notify_svc \<Rightarrow> notify_world \<Rightarrow> notify_world \<Rightarrow> bool" for sv where
  idle: "notify_run sv w w"
| tick: "notify_run sv w w1 \<Longrightarrow> notify_run sv w (engine_tick sv e w1)"
| request: "notify_run sv w w1 \<Longrightarrow> notify_handle ok now u op w1 = (w2, b) \<Longrightarrow> notify_run sv w w2"

section \<open>Alerts are spaced\<close>

definition alert_key :: "alert \<Rightarrow> string" where
  "alert_key a =
     (case a of InfraAlert r _ \<Rightarrow> rule_key r [] | UserAlert r _ \<Rightarrow> rule_key r [] | TeamAlert r tb \<Rightarrow> rule_key r (dec (tb_group tb)))"

definition spaced :: "notify_world \<Rightarrow> bool" where
  "spaced w \<longleftrightarrow>
     sorted_wrt (\<lambda>(a, s) (b, t). alert_key a = alert_key b \<longrightarrow> s + cooldown \<le> t) (nw_fired w) \<and>
     (\<forall>(a, s) \<in> set (nw_fired w). \<exists>t. nw_last w (alert_key a) = Some t \<and> s \<le> t)"

text \<open>Two alerts are of the same rule when the rules agree in what they watch: scope, owner, metric,
  comparison, threshold and target, whatever identifiers, channels and switches they are stored with. The
  alerts of a balance rule are told apart by team.\<close>

definition same_rule :: "notify_rule \<Rightarrow> notify_rule \<Rightarrow> bool" where
  "same_rule r q \<longleftrightarrow> r\<lparr>nr_id := nr_id q, nr_channel := nr_channel q, nr_enabled := nr_enabled q\<rparr> = q"

fun same_alert :: "alert \<Rightarrow> alert \<Rightarrow> bool" where
  "same_alert (InfraAlert r _) (InfraAlert q _) = same_rule r q"
| "same_alert (UserAlert r _) (UserAlert q _) = same_rule r q"
| "same_alert (TeamAlert r t) (TeamAlert q u) = (same_rule r q \<and> tb_group t = tb_group u)"
| "same_alert _ _ = False"

lemma same_rule_key: "same_rule r q \<Longrightarrow> rule_key r x = rule_key q x"
  unfolding same_rule_def rule_key_def by (elim subst) simp

lemma same_alert_key: "same_alert a b \<Longrightarrow> alert_key a = alert_key b"
  by (induction a b rule: same_alert.induct) (simp_all add: alert_key_def same_rule_key)

lemma spaced_same: "nw_fired w' = nw_fired w \<Longrightarrow> nw_last w' = nw_last w \<Longrightarrow> spaced w' = spaced w"
  by (simp add: spaced_def)

lemma cooldown_nonneg: "0 \<le> cooldown"
  by (simp add: cooldown_def)

lemma cooling_world: "cooling e k w = (w', c) \<Longrightarrow> nw_fired w' = nw_fired w \<and> nw_inbox w' = nw_inbox w \<and> nw_db w' = nw_db w"
  by (auto simp: cooling_def split: option.splits if_splits)

lemma cooling_suppresses: "cooling e k w = (w', True) \<Longrightarrow> w' = w"
  by (auto simp: cooling_def split: option.splits if_splits)

lemma cooling_passes:
  assumes "cooling e k w = (w', False)"
  shows "nw_last w' = (nw_last w)(k \<mapsto> ne_now e) \<and> (\<forall>t. nw_last w k = Some t \<longrightarrow> t + cooldown \<le> ne_now e)"
  using assms by (auto simp: cooling_def split: option.splits if_splits)

lemma spaced_fire:
  assumes "spaced w" "cooling e k w = (w', False)" "alert_key a = k" "nw_last v = nw_last w'" "nw_fired v = nw_fired w @ [(a, ne_now e)]"
  shows "spaced v"
proof -
  have c: "nw_last w' = (nw_last w)(k \<mapsto> ne_now e)" "\<And>t. nw_last w k = Some t \<Longrightarrow> t + cooldown \<le> ne_now e"
    using cooling_passes [OF assms(2)] by simp_all
  have old: "s + cooldown \<le> ne_now e" if "(b, s) \<in> set (nw_fired w)" "alert_key b = k" for b s
    using assms(1) that c(2) by (fastforce simp: spaced_def)
  have "\<exists>t. nw_last v (alert_key b) = Some t \<and> s \<le> t" if "(b, s) \<in> set (nw_fired v)" for b s
  proof (cases "alert_key b = k")
    case True
    then show ?thesis using that old assms(3-5) c(1) cooldown_nonneg by fastforce
  next
    case False
    then show ?thesis using that assms c(1) by (auto simp: spaced_def)
  qed
  moreover have "sorted_wrt (\<lambda>(a, s) (b, t). alert_key a = alert_key b \<longrightarrow> s + cooldown \<le> t) (nw_fired v)"
    using assms(1,3,5) old by (auto simp: spaced_def sorted_wrt_append)
  ultimately show ?thesis by (auto simp: spaced_def)
qed

lemma deliver_sel:
  "nw_fired (deliver sv e cf r v w) = nw_fired w @ [(InfraAlert r v, ne_now e)]" "nw_last (deliver sv e cf r v w) = nw_last w"
  "nw_inbox (deliver sv e cf r v w) = nw_inbox w" "nw_db (deliver sv e cf r v w) = nw_db w"
  by (simp_all add: deliver_def fire_def Let_def)

lemma inbox_fire_sel:
  "nw_fired (fire e a (to_inbox e r v t w)) = nw_fired w @ [(a, ne_now e)]" "nw_last (fire e a (to_inbox e r v t w)) = nw_last w"
  "nw_db (fire e a (to_inbox e r v t w)) = nw_db w"
  by (simp_all add: fire_def to_inbox_def)

lemma spaced_attempt:
  assumes "spaced w" "alert_key a = k" "\<And>v. nw_fired (g v) = nw_fired v @ [(a, ne_now e)]" "\<And>v. nw_last (g v) = nw_last v"
  shows "spaced (case cooling e k w of (w', True) \<Rightarrow> w' | (w', False) \<Rightarrow> g w')"
proof (cases "cooling e k w")
  case (Pair w' c)
  then show ?thesis
  proof (cases c)
    case True
    then show ?thesis using assms(1) Pair cooling_suppresses by auto
  next
    case False
    then have p: "cooling e k w = (w', False)" using Pair by simp
    have "spaced (g w')"
      by (rule spaced_fire [OF assms(1) p assms(2) assms(4)]) (simp add: assms(3) cooling_world [OF p])
    then show ?thesis using p by simp
  qed
qed

lemma spaced_admin: "spaced w \<Longrightarrow> spaced (admin_rule sv e cf r w)"
  by (auto simp: admin_rule_def alert_key_def deliver_sel split: option.split intro!: spaced_attempt [where a = "InfraAlert r y" for y])

lemma spaced_team: "spaced w \<Longrightarrow> spaced (team_rule e r tb w)"
  by (simp add: team_rule_def spaced_attempt [where a = "TeamAlert r tb"] alert_key_def inbox_fire_sel)

lemma spaced_judge: "spaced w \<Longrightarrow> spaced (judge_user e r v w)"
  by (simp add: judge_user_def spaced_attempt [where a = "UserAlert r v"] alert_key_def inbox_fire_sel)

lemma spaced_user: "spaced (fst st) \<Longrightarrow> spaced (fst (user_rule sv e r st))"
  by (auto simp: user_rule_def spaced_judge split: prod.split option.split)

lemma fold_invariant: "(\<And>x s. P s \<Longrightarrow> P (f x s)) \<Longrightarrow> P s \<Longrightarrow> P (fold f xs s)"
  by (induction xs arbitrary: s) auto

lemma spaced_tick:
  assumes "spaced w"
  shows "spaced (engine_tick sv e w)"
proof -
  have c: "spaced (credit_tick sv e rules v)" if "spaced v" for rules v
    using that unfolding credit_tick_def by (auto intro!: fold_invariant [where P = spaced] spaced_team)
  have u: "spaced (fst (user_loop sv e rules v))" if "spaced v" for rules v
    unfolding user_loop_def by (rule fold_invariant [where P = "\<lambda>st. spaced (fst st)"]) (simp_all add: spaced_user that)
  have "spaced (fold (admin_rule sv e cf) rules v)" if "spaced v" for cf rules v
    using that by (auto intro!: fold_invariant [where P = spaced] spaced_admin)
  then show ?thesis using assms c u by (auto simp: engine_tick_def user_tick_def split: option.split)
qed

text \<open>C12: an engine that starts with no alert sent never repeats one within the cooldown: in every run of
  ticks and requests, the settings saved again in between and the rules thereby under new identifiers, two alerts
  of rules that agree in scope, owner, metric, comparison, threshold and target (and team) are at least ten minutes
  apart. The built-in default rules carry no scope, so their first saved copies are other rules.\<close>

theorem alerts_respect_cooldown:
  assumes "notify_run sv w w'" "nw_fired w = []"
  shows "sorted_wrt (\<lambda>(a, s) (b, t). same_alert a b \<longrightarrow> s + cooldown \<le> t) (nw_fired w')"
proof -
  have "spaced w" using assms(2) by (simp add: spaced_def)
  with assms(1) have "spaced w'"
  proof (induction rule: notify_run.induct)
    case (request w w1 ok now u op w2 b)
    then show ?case
      by (cases op) (auto simp: notify_handle_def spaced_def split: option.splits prod.splits)
  qed (simp_all add: spaced_tick)
  then have "sorted_wrt (\<lambda>(a, s) (b, t). alert_key a = alert_key b \<longrightarrow> s + cooldown \<le> t) (nw_fired w')"
    by (simp add: spaced_def)
  then show ?thesis by (rule sorted_wrt_mono_rel [rotated]) (auto dest: same_alert_key)
qed

section \<open>Users do not see each other\<close>

text \<open>A key is parted at its first bars, so different owners have different keys.\<close>

lemma take_upto: "c \<notin> set xs \<Longrightarrow> takeWhile (\<lambda>x. x \<noteq> c) (xs @ c # ys) = xs"
  by (induction xs) auto

lemma parted: "c \<notin> set xs \<Longrightarrow> c \<notin> set xs' \<Longrightarrow> xs @ c # ys = xs' @ c # ys' \<Longrightarrow> xs = xs' \<and> ys = ys'"
  using take_upto [of c xs ys] take_upto [of c xs' ys'] by auto

lemma dec_no_bar: "CHR ''|'' \<notin> set (dec i)"
proof -
  have "\<forall>c \<in> set (dec_nat n). c \<noteq> CHR ''|''" for n
    using dec_nat_digits [of n] by (auto simp: is_digit_def)
  then show ?thesis by (auto simp: dec_def)
qed

lemma rule_key_owner:
  assumes "rule_key r x = rule_key q y" "nr_scope r \<in> {''user'', ''admin''}" "nr_scope q \<in> {''user'', ''admin''}"
  shows "nr_scope r = nr_scope q \<and> nr_owner r = nr_owner q"
proof -
  have "CHR ''|'' \<notin> set (nr_scope r)" "CHR ''|'' \<notin> set (nr_scope q)" using assms(2,3) by auto
  moreover have "nr_scope r @ CHR ''|'' # dec (nr_owner r) @ CHR ''|'' # a = nr_scope q @ CHR ''|'' # dec (nr_owner q) @ CHR ''|'' # b \<Longrightarrow>
      nr_scope r = nr_scope q \<and> dec (nr_owner r) = dec (nr_owner q)" for a b
    using calculation dec_no_bar parted by metis
  ultimately show ?thesis using assms(1) by (simp add: rule_key_def)
qed

definition note_content :: "user_note \<Rightarrow> string \<times> string \<times> rat \<times> int \<times> string \<times> time" where
  "note_content n = (no_severity n, no_metric n, no_value n, no_threshold n, no_target n, no_at n)"

definition inbox_of :: "int \<Rightarrow> notify_world \<Rightarrow> (string \<times> string \<times> rat \<times> int \<times> string \<times> time) list" where
  "inbox_of u w = map note_content (filter (\<lambda>n. no_user n = u) (ib_notes (nw_inbox w)))"

definition same_for :: "int \<Rightarrow> notify_world \<Rightarrow> notify_world \<Rightarrow> bool" where
  "same_for u w v \<longleftrightarrow> inbox_of u w = inbox_of u v \<and>
     (\<forall>r x. nr_scope r = ''user'' \<and> nr_owner r = u \<longrightarrow> nw_last w (rule_key r x) = nw_last v (rule_key r x))"

lemma to_inbox_other: "nr_owner r \<noteq> u \<Longrightarrow> inbox_of u (fire e a (to_inbox e r v t w)) = inbox_of u w"
  by (simp add: inbox_of_def fire_def to_inbox_def record_note_def)

lemma to_inbox_own:
  "inbox_of u w = inbox_of u w' \<Longrightarrow> inbox_of u (fire e a (to_inbox e r v t w)) = inbox_of u (fire e a (to_inbox e r v t w'))"
  by (auto simp: inbox_of_def fire_def to_inbox_def record_note_def note_content_def)

definition cools :: "notify_env \<Rightarrow> string \<Rightarrow> notify_world \<Rightarrow> bool" where
  "cools e k w = (case nw_last w k of None \<Rightarrow> False | Some t \<Rightarrow> ne_now e - t < cooldown)"

lemma cooling_cases:
  "cooling e k w = (if cools e k w then (w, True) else (w\<lparr>nw_last := (nw_last w)(k \<mapsto> ne_now e)\<rparr>, False))"
  by (auto simp: cooling_def cools_def split: option.split)

lemma same_for_cooled:
  assumes "same_for u w v"
  shows "same_for u (w\<lparr>nw_last := (nw_last w)(k \<mapsto> t)\<rparr>) (v\<lparr>nw_last := (nw_last v)(k \<mapsto> t)\<rparr>)"
  using assms by (auto simp: same_for_def inbox_of_def)

text \<open>One alert attempt, of a rule of \<open>u\<close> on both sides or of another owner's rule on one.\<close>

lemma attempt_own:
  assumes s: "same_for u w v" and r: "nr_scope r = ''user''" "nr_owner r = u"
  shows "same_for u
    (case cooling e (rule_key r x) w of (w', True) \<Rightarrow> w' | (w', False) \<Rightarrow> fire e a (to_inbox e r y t w'))
    (case cooling e (rule_key r x) v of (w', True) \<Rightarrow> w' | (w', False) \<Rightarrow> fire e a (to_inbox e r y t w'))"
proof -
  let ?k = "rule_key r x"
  let ?w = "w\<lparr>nw_last := (nw_last w)(?k \<mapsto> ne_now e)\<rparr>" and ?v = "v\<lparr>nw_last := (nw_last v)(?k \<mapsto> ne_now e)\<rparr>"
  have "cools e ?k w = cools e ?k v" using s r by (simp add: same_for_def cools_def)
  moreover have "same_for u (fire e a (to_inbox e r y t ?w)) (fire e a (to_inbox e r y t ?v))"
    using same_for_cooled [OF s, of ?k "ne_now e"] to_inbox_own [of u ?w ?v]
    by (simp add: same_for_def inbox_fire_sel)
  ultimately show ?thesis using s by (simp add: cooling_cases)
qed

lemma attempt_other:
  assumes s: "same_for u w v" and r: "nr_scope r = ''user''" "nr_owner r \<noteq> u"
  shows "same_for u (case cooling e (rule_key r x) w of (w', True) \<Rightarrow> w' | (w', False) \<Rightarrow> fire e a (to_inbox e r y t w')) v"
proof -
  let ?w = "w\<lparr>nw_last := (nw_last w)(rule_key r x \<mapsto> ne_now e)\<rparr>"
  have "rule_key q z \<noteq> rule_key r x" if "nr_scope q = ''user''" "nr_owner q = u" for q z
    using rule_key_owner [of q z r x] that r by auto
  moreover have "inbox_of u ?w = inbox_of u v" using s by (simp add: same_for_def inbox_of_def)
  ultimately have "same_for u (fire e a (to_inbox e r y t ?w)) v"
    using s r(2) by (simp add: same_for_def inbox_fire_sel to_inbox_other)
  then show ?thesis using s by (simp add: cooling_cases)
qed

text \<open>A fold over all rules on one side, over the rules of \<open>u\<close> on the other.\<close>

lemma fold_filtered:
  assumes "\<And>x s t. x \<in> set xs \<Longrightarrow> P x \<Longrightarrow> R s t \<Longrightarrow> R (f x s) (f x t)" "\<And>x s t. x \<in> set xs \<Longrightarrow> \<not> P x \<Longrightarrow> R s t \<Longrightarrow> R (f x s) t"
  shows "R s t \<Longrightarrow> R (fold f xs s) (fold f (filter P xs) t)"
  using assms by (induction xs arbitrary: s t) auto

lemma fold_both: "(\<And>x s t. R s t \<Longrightarrow> R (f x s) (f x t)) \<Longrightarrow> R s t \<Longrightarrow> R (fold f xs s) (fold f xs t)"
  by (induction xs arbitrary: s t) auto

lemma team_rule_own:
  "same_for u w v \<Longrightarrow> nr_scope r = ''user'' \<Longrightarrow> nr_owner r = u \<Longrightarrow> same_for u (team_rule e r tb w) (team_rule e r tb v)"
  using attempt_own [where x = "dec (tb_group tb)"] by (simp add: team_rule_def)

lemma team_rule_other: "same_for u w v \<Longrightarrow> nr_scope r = ''user'' \<Longrightarrow> nr_owner r \<noteq> u \<Longrightarrow> same_for u (team_rule e r tb w) v"
  using attempt_other [where x = "dec (tb_group tb)"] by (simp add: team_rule_def)

lemma credit_tick_own:
  assumes "same_for u w v" "\<forall>r \<in> set rules. nr_scope r = ''user''"
  shows "same_for u (credit_tick sv e rules w) (credit_tick sv e (filter (\<lambda>r. nr_owner r = u) rules) v)"
proof -
  let ?f = "\<lambda>r. fold (team_rule e r) (ne_teams e (nr_owner r))"
  have "same_for u (fold ?f (filter team_credit rules) w) (fold ?f (filter (\<lambda>r. nr_owner r = u) (filter team_credit rules)) v)"
  proof (rule fold_filtered [where R = "same_for u" and P = "\<lambda>r. nr_owner r = u", OF _ _ assms(1)])
    fix r s t assume r: "r \<in> set (filter team_credit rules)" and st: "same_for u s t"
    have sc: "nr_scope r = ''user''" using r assms(2) by auto
    show "same_for u (?f r s) (?f r t)" if "nr_owner r = u"
      using st by (intro fold_both [where R = "same_for u"] team_rule_own [OF _ sc that])
    show "same_for u (?f r s) t" if "nr_owner r \<noteq> u"
      using st by (intro fold_invariant [where P = "\<lambda>s. same_for u s t"] team_rule_other [OF _ sc that])
  qed
  moreover have "filter team_credit (filter (\<lambda>r. nr_owner r = u) rules) = filter (\<lambda>r. nr_owner r = u) (filter team_credit rules)"
    by (simp add: conj_commute)
  ultimately show ?thesis using assms(1) by (simp add: credit_tick_def)
qed

section \<open>The cache of a tick\<close>

text \<open>The loop without the cache.\<close>

definition user_rule_ref :: "notify_svc \<Rightarrow> notify_env \<Rightarrow> notify_rule \<Rightarrow> notify_world \<Rightarrow> notify_world" where
  "user_rule_ref sv e r w =
     (if team_credit r then w
      else case (if nr_target r \<noteq> [] then if ns_session sv then ne_session e (nr_target r) (nr_metric r) else None
                 else case ne_user e (nr_metric r) of None \<Rightarrow> None | Some vals \<Rightarrow> vals (nr_owner r)) of
             None \<Rightarrow> w | Some v \<Rightarrow> judge_user e r v w)"

definition cache_right :: "notify_env \<Rightarrow> metric_cache \<times> string list \<Rightarrow> bool" where
  "cache_right e c \<longleftrightarrow> (\<forall>m a. fst c m = Some a \<longrightarrow> a = ne_user e m) \<and> (\<forall>m. m \<in> set (snd c) \<longleftrightarrow> fst c m \<noteq> None) \<and> distinct (snd c)"

lemma ask_user_right:
  assumes "cache_right e c"
  shows "cache_right e (fst (ask_user e m c)) \<and> snd (ask_user e m c) = ne_user e m"
  using assms by (cases c) (auto simp: ask_user_def cache_right_def split: option.split)

lemma user_rule_right:
  assumes "cache_right e c"
  shows "fst (user_rule sv e r (w, c)) = user_rule_ref sv e r w \<and> cache_right e (snd (user_rule sv e r (w, c)))"
  using ask_user_right [OF assms, of "nr_metric r"] assms
  by (auto simp: user_rule_def user_rule_ref_def split: option.split prod.split)

lemma user_loop_right:
  "cache_right e c \<Longrightarrow> fst (fold (user_rule sv e) rules (w, c)) = fold (user_rule_ref sv e) rules w \<and>
     cache_right e (snd (fold (user_rule sv e) rules (w, c)))"
proof (induction rules arbitrary: w c)
  case (Cons r rules)
  obtain w1 c1 where 1: "user_rule sv e r (w, c) = (w1, c1)" by (metis surj_pair)
  then show ?case using user_rule_right [OF Cons.prems, of sv r w] Cons.IH [of c1 w1] by simp
qed simp

text \<open>C26: the loop over the user rules with its per-metric cache sends the alerts that evaluating each rule on its
  own would send, and it evaluates no metric twice in a tick, however many users watch it.\<close>

theorem metric_cache_transparent:
  "fst (user_loop sv e rules w) = fold (user_rule_ref sv e) rules w \<and> distinct (snd (snd (user_loop sv e rules w)))"
proof -
  have "cache_right e (\<lambda>_. None, [])" by (simp add: cache_right_def)
  then show ?thesis using user_loop_right [of e "(\<lambda>_. None, [])" sv rules w] by (simp add: user_loop_def cache_right_def)
qed

lemma judge_user_own:
  "same_for u w v \<Longrightarrow> nr_scope r = ''user'' \<Longrightarrow> nr_owner r = u \<Longrightarrow> same_for u (judge_user e r y w) (judge_user e r y v)"
  using attempt_own [where x = "[]"] by (simp add: judge_user_def)

lemma judge_user_other:
  "same_for u w v \<Longrightarrow> nr_scope r = ''user'' \<Longrightarrow> nr_owner r \<noteq> u \<Longrightarrow> same_for u (judge_user e r y w) v"
  using attempt_other [where x = "[]"] by (simp add: judge_user_def)

lemma user_rule_ref_own:
  "same_for u w v \<Longrightarrow> nr_scope r = ''user'' \<Longrightarrow> nr_owner r = u \<Longrightarrow> same_for u (user_rule_ref sv e r w) (user_rule_ref sv e r v)"
  unfolding user_rule_ref_def by (simp add: judge_user_own split: option.split)

lemma user_rule_ref_other:
  "same_for u w v \<Longrightarrow> nr_scope r = ''user'' \<Longrightarrow> nr_owner r \<noteq> u \<Longrightarrow> same_for u (user_rule_ref sv e r w) v"
  unfolding user_rule_ref_def by (simp add: judge_user_other split: option.split)

text \<open>The rules of one user, whatever the others have saved.\<close>

definition only_rules_of :: "int \<Rightarrow> notify_world \<Rightarrow> notify_world" where
  "only_rules_of u w = w\<lparr>nw_db := (nw_db w)\<lparr>nd_rules := filter (\<lambda>r. nr_scope r = ''user'' \<and> nr_owner r = u) (nd_rules (nw_db w))\<rparr>\<rparr>"

lemma sorted_user_rules:
  "sort_key nr_owner (sort_key nr_id (filter (\<lambda>r. nr_scope r = ''user'' \<and> nr_enabled r) (filter (\<lambda>r. nr_scope r = ''user'' \<and> nr_owner r = u) rs))) =
   filter (\<lambda>r. nr_owner r = u) (sort_key nr_owner (sort_key nr_id (filter (\<lambda>r. nr_scope r = ''user'' \<and> nr_enabled r) rs)))"
proof -
  have "filter (\<lambda>r. nr_scope r = ''user'' \<and> nr_enabled r) (filter (\<lambda>r. nr_scope r = ''user'' \<and> nr_owner r = u) rs) =
      filter (\<lambda>r. nr_owner r = u) (filter (\<lambda>r. nr_scope r = ''user'' \<and> nr_enabled r) rs)"
    by (induction rs) auto
  then show ?thesis by (simp only: filter_sort)
qed

lemma user_tick_loop:
  "ns_inbox sv \<Longrightarrow> ns_user sv \<Longrightarrow> enabled_user_rules (ne_ok e) (nw_db w) = Some rs \<Longrightarrow>
     user_tick sv e w = fst (user_loop sv e rs (credit_tick sv e rs w))"
  by (simp add: user_tick_def user_loop_def credit_tick_def)

lemma enabled_only:
  "ok NUserRules \<Longrightarrow> enabled_user_rules ok (nw_db (only_rules_of u w)) =
     Some (filter (\<lambda>r. nr_owner r = u) (sort_key nr_owner (sort_key nr_id (filter (\<lambda>r. nr_scope r = ''user'' \<and> nr_enabled r) (nd_rules (nw_db w))))))"
  using sorted_user_rules [of u "nd_rules (nw_db w)"] by (simp add: enabled_user_rules_def only_rules_of_def)

lemma inbox_own_rules:
  "inbox_of u (user_tick sv e w) = inbox_of u (user_tick sv e (only_rules_of u w))"
proof (cases "ns_inbox sv \<and> ns_user sv \<and> ne_ok e NUserRules")
  case True
  let ?rs = "sort_key nr_owner (sort_key nr_id (filter (\<lambda>r. nr_scope r = ''user'' \<and> nr_enabled r) (nd_rules (nw_db w))))"
  let ?own = "filter (\<lambda>r. nr_owner r = u) ?rs"
  let ?v = "only_rules_of u w"
  have sc: "\<forall>r \<in> set ?rs. nr_scope r = ''user''" by auto
  have s: "same_for u w ?v" by (simp add: same_for_def inbox_of_def only_rules_of_def)
  have c: "same_for u (credit_tick sv e ?rs w) (credit_tick sv e ?own ?v)" by (rule credit_tick_own [OF s sc])
  have "same_for u (fold (user_rule_ref sv e) ?rs (credit_tick sv e ?rs w)) (fold (user_rule_ref sv e) ?own (credit_tick sv e ?own ?v))"
  proof (rule fold_filtered [where R = "same_for u" and P = "\<lambda>r. nr_owner r = u", OF _ _ c])
    fix r s t assume r: "r \<in> set ?rs" and st: "same_for u s t"
    show "same_for u (user_rule_ref sv e r s) (user_rule_ref sv e r t)" if "nr_owner r = u"
      by (rule user_rule_ref_own [OF st bspec [OF sc r] that])
    show "same_for u (user_rule_ref sv e r s) t" if "nr_owner r \<noteq> u"
      by (rule user_rule_ref_other [OF st bspec [OF sc r] that])
  qed
  moreover have loop: "fst (user_loop sv e rs x) = fold (user_rule_ref sv e) rs x" for rs x
    using user_loop_right [of e "(\<lambda>_. None, [])" sv rs x] by (simp only: user_loop_def) (simp add: cache_right_def)
  ultimately have "same_for u (fst (user_loop sv e ?rs (credit_tick sv e ?rs w))) (fst (user_loop sv e ?own (credit_tick sv e ?own ?v)))"
    by simp
  moreover have "user_tick sv e w = fst (user_loop sv e ?rs (credit_tick sv e ?rs w))"
    using True by (intro user_tick_loop) (simp_all add: enabled_user_rules_def)
  moreover have "user_tick sv e ?v = fst (user_loop sv e ?own (credit_tick sv e ?own ?v))"
    using True by (intro user_tick_loop) (simp_all only: enabled_only)
  ultimately show ?thesis by (simp only: same_for_def)
next
  case False
  then have "user_tick sv e x = x" for x by (auto simp: user_tick_def enabled_user_rules_def)
  moreover have "inbox_of u (only_rules_of u w) = inbox_of u w" by (simp add: inbox_of_def only_rules_of_def)
  ultimately show ?thesis by (simp only:)
qed

text \<open>what a tick puts into a user's inbox depends on that user's own rules alone: with every other rule gone,
  and whatever the others have set off before, the same alerts arrive with the same figures. Above all no
  rule of another user can use up the cooldown of one's own, since the keys of different owners differ.\<close>

theorem alerts_depend_on_own_rules:
  "inbox_of u (user_tick sv e w) = inbox_of u (user_tick sv e (only_rules_of u w))"
  by (rule inbox_own_rules)

section \<open>Settings are kept\<close>

definition saved_as :: "string \<Rightarrow> int \<Rightarrow> notify_rule \<Rightarrow> notify_rule" where
  "saved_as scope owner r = r\<lparr>nr_id := 0, nr_scope := scope, nr_owner := owner\<rparr>"

lemma insert_rules:
  "\<exists>new. nd_rules (fold (insert_rule sc ow) rs db) = nd_rules db @ new \<and> map (\<lambda>r. r\<lparr>nr_id := 0\<rparr>) new = map (saved_as sc ow) rs \<and>
     sorted (map nr_id new) \<and> (\<forall>r \<in> set new. nd_next db \<le> nr_id r \<and> rule_of sc ow r) \<and>
     nd_chans (fold (insert_rule sc ow) rs db) = nd_chans db"
proof (induction rs arbitrary: db)
  case (Cons r rs)
  let ?r = "r\<lparr>nr_id := nd_next db, nr_scope := sc, nr_owner := ow\<rparr>" and ?db = "insert_rule sc ow r db"
  obtain new where n: "nd_rules (fold (insert_rule sc ow) rs ?db) = nd_rules ?db @ new"
    "map (\<lambda>r. r\<lparr>nr_id := 0\<rparr>) new = map (saved_as sc ow) rs" "sorted (map nr_id new)"
    "\<forall>r \<in> set new. nd_next ?db \<le> nr_id r \<and> rule_of sc ow r" "nd_chans (fold (insert_rule sc ow) rs ?db) = nd_chans ?db"
    using Cons.IH [of ?db] by blast
  show ?case
    by (rule exI [of _ "?r # new"]) (use n in \<open>auto simp: insert_rule_def [of sc ow r db] saved_as_def rule_of_def\<close>)
qed simp

lemma insert_chans:
  "\<exists>new. nd_chans (fold (insert_chan sc ow k) ts db) = nd_chans db @ new \<and> map nc_target new = filter (\<lambda>t. t \<noteq> []) ts \<and>
     sorted (map nc_id new) \<and> (\<forall>c \<in> set new. nd_next_chan db \<le> nc_id c \<and> nc_id c < nd_next_chan (fold (insert_chan sc ow k) ts db) \<and>
       chan_of sc ow c \<and> nc_kind c = k) \<and>
     nd_rules (fold (insert_chan sc ow k) ts db) = nd_rules db \<and> nd_next_chan db \<le> nd_next_chan (fold (insert_chan sc ow k) ts db)"
proof (induction ts arbitrary: db)
  case (Cons t ts)
  let ?c = "\<lparr>nc_id = nd_next_chan db, nc_scope = sc, nc_owner = ow, nc_kind = k, nc_target = t\<rparr>" and ?db = "insert_chan sc ow k t db"
  obtain new where n: "nd_chans (fold (insert_chan sc ow k) ts ?db) = nd_chans ?db @ new"
    "map nc_target new = filter (\<lambda>t. t \<noteq> []) ts" "sorted (map nc_id new)"
    "\<forall>c \<in> set new. nd_next_chan ?db \<le> nc_id c \<and> nc_id c < nd_next_chan (fold (insert_chan sc ow k) ts ?db) \<and> chan_of sc ow c \<and> nc_kind c = k"
    "nd_rules (fold (insert_chan sc ow k) ts ?db) = nd_rules ?db" "nd_next_chan ?db \<le> nd_next_chan (fold (insert_chan sc ow k) ts ?db)"
    using Cons.IH [of ?db] by blast
  show ?case
    by (rule exI [of _ "if t = [] then new else ?c # new"]) (use n in \<open>auto simp: insert_chan_def [of sc ow k t db] chan_of_def\<close>)
qed simp

lemma filter_none: "(\<And>x. x \<in> set xs \<Longrightarrow> \<not> P x) \<Longrightarrow> filter P xs = []"
  by (induction xs) auto

lemma filter_all: "(\<And>x. x \<in> set xs \<Longrightarrow> P x) \<Longrightarrow> filter P xs = xs"
  by (induction xs) auto

lemma filter_replaced: "filter (rule_of a b) (filter (\<lambda>r. \<not> rule_of a b r) rs) = []"
  by (rule filter_none) simp

lemma filter_others:
  "(a, b) \<noteq> (c, d) \<Longrightarrow> filter (rule_of a b) (filter (\<lambda>r. \<not> rule_of c d r) rs) = filter (rule_of a b) rs"
  "(a, b) \<noteq> (c, d) \<Longrightarrow> filter (chan_of a b) (filter (\<lambda>x. \<not> chan_of c d x) cs) = filter (chan_of a b) cs"
  by (auto simp: rule_of_def chan_of_def intro!: filter_cong)

lemma other_rules: "(a, b) \<noteq> (c, d) \<Longrightarrow> rule_of c d r \<Longrightarrow> \<not> rule_of a b r"
  by (auto simp: rule_of_def)

lemma other_chans: "(a, b) \<noteq> (c, d) \<Longrightarrow> chan_of c d x \<Longrightarrow> \<not> chan_of a b x"
  by (auto simp: chan_of_def)

text \<open>saved alert settings come back as they were saved, in order and without the empty addresses, and
  nobody else's settings change. Saving an empty list of rules is the exception: it brings the default rules back.\<close>

theorem saved_settings_returned:
  assumes r: "replace_config ok sc ow cf db = (db', True)" and ok: "ok NRules" "ok NChans"
  shows "(\<exists>c. get_config ok sc ow db' = Some c \<and>
      (if cf_rules cf = [] then cf_rules c = default_rules sc
       else map (\<lambda>r. r\<lparr>nr_id := 0\<rparr>) (cf_rules c) = map (saved_as sc ow) (cf_rules cf)) \<and>
      cf_emails c = filter (\<lambda>t. t \<noteq> []) (cf_emails cf) \<and> cf_webhooks c = filter (\<lambda>t. t \<noteq> []) (cf_webhooks cf)) \<and>
    (\<forall>sc' ow'. (sc', ow') \<noteq> (sc, ow) \<longrightarrow> get_config ok sc' ow' db' = get_config ok sc' ow' db)"
proof -
  let ?db1 = "db\<lparr>nd_rules := filter (\<lambda>r. \<not> rule_of sc ow r) (nd_rules db), nd_chans := filter (\<lambda>c. \<not> chan_of sc ow c) (nd_chans db)\<rparr>"
  let ?db2 = "fold (insert_rule sc ow) (cf_rules cf) ?db1"
  let ?db3 = "fold (insert_chan sc ow ''email'') (cf_emails cf) ?db2"
  let ?db4 = "fold (insert_chan sc ow ''webhook'') (cf_webhooks cf) ?db3"
  have db': "db' = ?db4" using r by (simp add: replace_config_def Let_def split: if_splits)
  obtain new where n: "nd_rules ?db2 = filter (\<lambda>r. \<not> rule_of sc ow r) (nd_rules db) @ new"
    "map (\<lambda>r. r\<lparr>nr_id := 0\<rparr>) new = map (saved_as sc ow) (cf_rules cf)" "sorted (map nr_id new)"
    "\<forall>r \<in> set new. rule_of sc ow r" "nd_chans ?db2 = filter (\<lambda>c. \<not> chan_of sc ow c) (nd_chans db)"
    using insert_rules [of sc ow "cf_rules cf" ?db1] by auto
  obtain em where e: "nd_chans ?db3 = nd_chans ?db2 @ em" "map nc_target em = filter (\<lambda>t. t \<noteq> []) (cf_emails cf)" "sorted (map nc_id em)"
    "\<forall>c \<in> set em. nc_id c < nd_next_chan ?db3 \<and> chan_of sc ow c \<and> nc_kind c = ''email''" "nd_rules ?db3 = nd_rules ?db2"
    using insert_chans [of sc ow "''email''" "cf_emails cf" ?db2] by auto
  obtain wh where w: "nd_chans ?db4 = nd_chans ?db3 @ wh" "map nc_target wh = filter (\<lambda>t. t \<noteq> []) (cf_webhooks cf)" "sorted (map nc_id wh)"
    "\<forall>c \<in> set wh. nd_next_chan ?db3 \<le> nc_id c \<and> chan_of sc ow c \<and> nc_kind c = ''webhook''" "nd_rules ?db4 = nd_rules ?db3"
    using insert_chans [of sc ow "''webhook''" "cf_webhooks cf" ?db3] by auto
  have rules: "nd_rules db' = filter (\<lambda>r. \<not> rule_of sc ow r) (nd_rules db) @ new" using n(1) e(5) w(5) db' by simp
  have chans: "nd_chans db' = filter (\<lambda>c. \<not> chan_of sc ow c) (nd_chans db) @ em @ wh" using n(5) e(1) w(1) db' by simp
  have own_r: "filter (rule_of sc ow) (nd_rules db') = new"
    using n(4) unfolding rules by (simp add: filter_none filter_all)
  have own_c: "filter (chan_of sc ow) (nd_chans db') = em @ wh"
    using e(4) w(4) unfolding chans by (simp add: filter_none filter_all)
  have "sorted (map nc_id (em @ wh))" using e(3,4) w(3,4) by (fastforce simp: sorted_append)
  then have c: "get_config ok sc ow db' = Some \<lparr>cf_rules = (if new = [] then default_rules sc else new),
      cf_emails = map nc_target em, cf_webhooks = map nc_target wh\<rparr>"
    using ok n(3) e(4) w(4) by (simp add: get_config_def own_r own_c sort_key_id_if_sorted filter_none filter_all Let_def)
  have "new = [] \<longleftrightarrow> cf_rules cf = []" using n(2) by (metis map_is_Nil_conv)
  then have 1: "\<exists>c. get_config ok sc ow db' = Some c \<and>
      (if cf_rules cf = [] then cf_rules c = default_rules sc
       else map (\<lambda>r. r\<lparr>nr_id := 0\<rparr>) (cf_rules c) = map (saved_as sc ow) (cf_rules cf)) \<and>
      cf_emails c = filter (\<lambda>t. t \<noteq> []) (cf_emails cf) \<and> cf_webhooks c = filter (\<lambda>t. t \<noteq> []) (cf_webhooks cf)"
    using c n(2) e(2) w(2) by simp
  have "get_config ok a b db' = get_config ok a b db" if d: "(a, b) \<noteq> (sc, ow)" for a b
  proof -
    have "filter (rule_of a b) new = []" using n(4) other_rules [OF d] by (intro filter_none) blast
    then have "filter (rule_of a b) (nd_rules db') = filter (rule_of a b) (nd_rules db)"
      unfolding rules using filter_others(1) [OF d] by (simp del: filter_filter)
    moreover have "filter (chan_of a b) (em @ wh) = []" using e(4) w(4) other_chans [OF d] by (intro filter_none) auto
    then have "filter (chan_of a b) (nd_chans db') = filter (chan_of a b) (nd_chans db)"
      unfolding chans using filter_others(2) [OF d] by (simp del: filter_filter)
    ultimately show ?thesis by (simp only: get_config_def)
  qed
  with 1 show ?thesis by blast
qed

section \<open>Deleted rules come back\<close>

lemma mails_grow:
  "set (nw_mails w) \<subseteq> set (nw_mails (admin_rule sv e cf r w))"
  by (auto simp: admin_rule_def deliver_def fire_def cooling_cases Let_def split: option.split)

lemma mails_user:
  "nw_mails (team_rule e r tb w) = nw_mails w" "nw_mails (judge_user e r v w) = nw_mails w"
  by (auto simp: team_rule_def judge_user_def fire_def to_inbox_def cooling_cases)

lemma fold_keeps: "(\<And>x s. g (f x s) = g s) \<Longrightarrow> g (fold f xs s) = g s"
  by (induction xs arbitrary: s) auto

lemma mails_user_tick: "nw_mails (user_tick sv e w) = nw_mails w"
proof -
  have "nw_mails (credit_tick sv e rs w) = nw_mails w" for rs w
    by (simp add: credit_tick_def fold_keeps [where g = nw_mails] mails_user)
  moreover have "nw_mails (fst (user_rule sv e r st)) = nw_mails (fst st)" for r st
    by (cases st) (auto simp: user_rule_def mails_user split: prod.split option.split)
  then have "nw_mails (fst (user_loop sv e rs w)) = nw_mails w" for rs w
    by (simp add: user_loop_def fold_keeps [where g = "\<lambda>st. nw_mails (fst st)"])
  ultimately show ?thesis by (simp add: user_tick_def split: option.split)
qed

text \<open>an administrator who deletes all alert rules switches nothing off: the default rules apply again, and the
  next tick with a node down mails the saved addresses by a rule that is stored nowhere.\<close>

theorem deleted_rules_come_back:
  assumes h: "notify_handle ok now u (PutAdmin (Some \<lparr>cf_rules = [], cf_emails = [m], cf_webhooks = []\<rparr>)) w = (w1, True)"
    and m: "m \<noteq> []" and sv: "ns_nodes sv" "ns_mailer sv" and e: "ne_ok e NRules" "ne_ok e NChans" "ne_nodes_down e = Some n"
    and n: "1 \<le> n" and fresh: "nw_last w1 (rule_key (plain_rule ''node_down'' ''gte'' 1 ''email'' True) []) = None"
  shows "filter (rule_of ''admin'' 0) (nd_rules (nw_db w1)) = [] \<and>
    (\<exists>r v. ([m], InfraAlert r v) \<in> set (nw_mails (engine_tick sv e w1)) \<and> nr_metric r = ''node_down'')"
proof -
  let ?cf = "\<lparr>cf_rules = [], cf_emails = [m], cf_webhooks = []\<rparr>" and ?r = "plain_rule ''node_down'' ''gte'' 1 ''email'' True"
  let ?c = "\<lparr>cf_rules = default_rules ''admin'', cf_emails = [m], cf_webhooks = []\<rparr>"
  have db: "nw_db w1 = insert_chan ''admin'' 0 ''email'' m
      ((nw_db w)\<lparr>nd_rules := filter (\<lambda>r. \<not> rule_of ''admin'' 0 r) (nd_rules (nw_db w)),
                nd_chans := filter (\<lambda>c. \<not> chan_of ''admin'' 0 c) (nd_chans (nw_db w))\<rparr>)"
    using h by (auto simp: notify_handle_def replace_config_def Let_def split: if_splits prod.splits)
  have none: "filter (rule_of ''admin'' 0) (nd_rules (nw_db w1)) = []"
    using m by (simp add: db insert_chan_def filter_none)
  have "filter (chan_of ''admin'' 0) (nd_chans (nw_db w1)) =
      [\<lparr>nc_id = nd_next_chan (nw_db w), nc_scope = ''admin'', nc_owner = 0, nc_kind = ''email'', nc_target = m\<rparr>]"
    using m by (simp add: db insert_chan_def filter_none) (simp add: chan_of_def)
  then have cf: "get_config (ne_ok e) ''admin'' 0 (nw_db w1) = Some ?c"
    using none e by (simp add: get_config_def)
  have "fl 1 \<le> fl n" using n by (rule fl_mono)
  then have "([m], InfraAlert ?r (fl n)) \<in> set (nw_mails (admin_rule sv e ?c ?r w1))"
    using sv e(3) fresh
    by (simp add: admin_rule_def eval_metric_def query_of_def plain_rule_def breached_def cooling_cases cools_def deliver_def fire_def Let_def)
  moreover have "set (nw_mails x) \<subseteq> set (nw_mails (fold (admin_rule sv e ?c) rs x))" for rs x
    using mails_grow by (induction rs arbitrary: x) (auto, blast)
  moreover obtain rest where "default_rules ''admin'' = ?r # rest" by (simp add: default_rules_def)
  ultimately have "([m], InfraAlert ?r (fl n)) \<in> set (nw_mails (engine_tick sv e w1))"
    using cf by (simp add: engine_tick_def mails_user_tick) blast
  then show ?thesis using none by (auto simp: plain_rule_def)
qed

section \<open>Reading\<close>

text \<open>Reading marks the caller's own alerts, once: the others' stay as they are, and nothing is left unread.\<close>

theorem reading_is_personal:
  assumes "notify_handle ok now u op w = (w', b)" "v \<noteq> u"
  shows "filter (\<lambda>n. no_user n = v) (ib_notes (nw_inbox w')) = filter (\<lambda>n. no_user n = v) (ib_notes (nw_inbox w)) \<and>
    (op = ReadAll \<and> b \<longrightarrow> unread_count u (nw_inbox w') = 0)"
proof -
  have f: "filter (\<lambda>n. no_user n = v) (upd_where P (\<lambda>n. n\<lparr>no_read := Some now\<rparr>) ns) = filter (\<lambda>n. no_user n = v) ns"
    if "\<And>n. P n \<Longrightarrow> no_user n = u" for P ns
    using that assms(2) by (induction ns) auto
  have f1: "filter (\<lambda>n. no_user n = v) (upd_where (\<lambda>n. no_id n = i \<and> no_user n = u) (\<lambda>n. n\<lparr>no_read := Some now\<rparr>) ns) =
      filter (\<lambda>n. no_user n = v) ns" for i ns by (rule f) simp
  have f2: "filter (\<lambda>n. no_user n = v) (upd_where (\<lambda>n. no_user n = u \<and> no_read n = None) (\<lambda>n. n\<lparr>no_read := Some now\<rparr>) ns) =
      filter (\<lambda>n. no_user n = v) ns" for ns by (rule f) simp
  have "filter (\<lambda>n. no_user n = u \<and> no_read n = None) (upd_where (\<lambda>n. no_user n = u \<and> no_read n = None) (\<lambda>n. n\<lparr>no_read := Some now\<rparr>) ns) = []" for ns
    by (induction ns) auto
  with assms(1) f1 f2 show ?thesis
    by (cases op) (auto simp: notify_handle_def mark_read_def mark_all_read_def unread_count_def split: option.splits prod.splits if_splits)
qed

section \<open>Sample runs\<close>

definition alert_svc :: notify_svc where
  "alert_svc = \<lparr>ns_metrics = True, ns_nodes = True, ns_mailer = True, ns_inbox = True, ns_user = True, ns_session = True, ns_credit = True\<rparr>"

definition alert_env :: "time \<Rightarrow> notify_env" where
  "alert_env now = \<lparr>ne_now = now, ne_ok = (\<lambda>_. True), ne_scalar = (\<lambda>_. None), ne_nodes_down = Some 2, ne_user = (\<lambda>_. None),
     ne_session = (\<lambda>_ _. Some 3), ne_teams = (\<lambda>_. [])\<rparr>"

definition alert_world :: notify_world where
  "alert_world = \<lparr>nw_db = \<lparr>nd_rules = [\<lparr>nr_id = 1, nr_scope = ''admin'', nr_owner = 0, nr_metric = ''gpu_temp'', nr_op = ''gte'', nr_value = 82,
       nr_channel = ''email'', nr_enabled = True, nr_target = []\<rparr>], nd_chans = [], nd_next = 2, nd_next_chan = 1\<rparr>,
     nw_inbox = \<lparr>ib_notes = [], ib_next = 1\<rparr>, nw_last = (\<lambda>_. None), nw_fired = [], nw_events = [], nw_mails = [], nw_hooks = []\<rparr>"

lemmas alert_samples = alert_svc_def alert_env_def alert_world_def

definition no_rules :: notify_config where
  "no_rules = \<lparr>cf_rules = [], cf_emails = [''ops''], cf_webhooks = []\<rparr>"

lemma no_rules_saved:
  "\<exists>w. notify_handle (\<lambda>_. True) 0 1 (PutAdmin (Some no_rules)) alert_world = (w, True) \<and> nw_last w = (\<lambda>_. None) \<and> nw_fired w = []"
  by (simp add: notify_handle_def replace_config_def no_rules_def insert_chan_def Let_def alert_world_def)

theorem deleted_rules_come_back_witness:
  "\<exists>w. notify_handle (\<lambda>_. True) 0 1 (PutAdmin (Some no_rules)) alert_world = (w, True) \<and>
     (\<exists>r v. ([''ops''], InfraAlert r v) \<in> set (nw_mails (engine_tick alert_svc (alert_env 0) w)) \<and> nr_metric r = ''node_down'')"
proof -
  obtain w where w: "notify_handle (\<lambda>_. True) 0 1 (PutAdmin (Some no_rules)) alert_world = (w, True)" "nw_last w = (\<lambda>_. None)"
    using no_rules_saved by blast
  show ?thesis
    using deleted_rules_come_back [OF w(1) [unfolded no_rules_def], of alert_svc "alert_env 0" 2] w
    by (simp add: alert_svc_def alert_env_def no_rules_def) 
qed

text \<open>A rule is saved, fires, is saved again under a new identifier, is held back five minutes later and
  fires again after ten.\<close>

definition down_rule :: notify_config where
  "down_rule = \<lparr>cf_rules = [plain_rule ''node_down'' ''gte'' 1 ''email'' True], cf_emails = [''ops''], cf_webhooks = []\<rparr>"

definition save_rule :: "notify_world \<Rightarrow> notify_world" where
  "save_rule w = fst (notify_handle (\<lambda>_. True) 0 1 (PutAdmin (Some down_rule)) w)"

definition saved_twice :: notify_world where
  "saved_twice = engine_tick alert_svc (alert_env 600000000000) (engine_tick alert_svc (alert_env 300000000000)
     (save_rule (engine_tick alert_svc (alert_env 0) (save_rule alert_world))))"

definition infra_rule :: "alert \<Rightarrow> notify_rule option" where
  "infra_rule a = (case a of InfraAlert r _ \<Rightarrow> Some r | _ \<Rightarrow> None)"

lemma saved_twice_alerts:
  "map (\<lambda>(a, t). (infra_rule a, t)) (nw_fired saved_twice) =
     (let r = (plain_rule ''node_down'' ''gte'' 1 ''email'' True)\<lparr>nr_scope := ''admin''\<rparr>
      in [(Some (r\<lparr>nr_id := 2\<rparr>), 0), (Some (r\<lparr>nr_id := 3\<rparr>), 600000000000)])"
  by code_simp

lemma saved_twice_run: "notify_run alert_svc alert_world saved_twice"
proof -
  have "notify_run alert_svc w (save_rule v)" if "notify_run alert_svc w v" for w v
    using notify_run.request [OF that, of "\<lambda>_. True" 0 1 "PutAdmin (Some down_rule)"] unfolding save_rule_def
    by (metis prod.collapse)
  then show ?thesis unfolding saved_twice_def by (blast intro: notify_run.intros)
qed

theorem alerts_respect_cooldown_witness:
  "\<exists>a b. map fst (nw_fired saved_twice) = [a, b] \<and> same_alert a b \<and> infra_rule a \<noteq> infra_rule b \<and>
     sorted_wrt (\<lambda>(a, s) (b, t). same_alert a b \<longrightarrow> s + cooldown \<le> t) (nw_fired saved_twice)"
proof -
  let ?r = "(plain_rule ''node_down'' ''gte'' 1 ''email'' True)\<lparr>nr_scope := ''admin''\<rparr>"
  obtain a b where f: "map fst (nw_fired saved_twice) = [a, b]" "infra_rule a = Some (?r\<lparr>nr_id := 2\<rparr>)" "infra_rule b = Some (?r\<lparr>nr_id := 3\<rparr>)"
    using saved_twice_alerts unfolding Let_def by (auto simp: map_eq_Cons_conv)
  then have "same_alert a b" "infra_rule a \<noteq> infra_rule b"
    by (auto simp: infra_rule_def same_rule_def plain_rule_def split: alert.splits)
  moreover have "sorted_wrt (\<lambda>(a, s) (b, t). same_alert a b \<longrightarrow> s + cooldown \<le> t) (nw_fired saved_twice)"
    by (rule alerts_respect_cooldown [OF saved_twice_run]) (simp add: alert_world_def)
  ultimately show ?thesis using f(1) by (intro exI [of _ a] exI [of _ b] conjI)
qed

definition one_rule :: notify_config where
  "one_rule = \<lparr>cf_rules = [plain_rule ''session_gpu'' ''lte'' 5 ''email'' True], cf_emails = [''a'', []], cf_webhooks = []\<rparr>"

theorem saved_settings_returned_witness:
  "\<exists>db c. replace_config (\<lambda>_. True) ''user'' 7 one_rule (nw_db alert_world) = (db, True) \<and>
     get_config (\<lambda>_. True) ''user'' 7 db = Some c \<and> length (cf_rules c) = 1 \<and> cf_emails c = [''a''] \<and>
     get_config (\<lambda>_. True) ''admin'' 0 db = get_config (\<lambda>_. True) ''admin'' 0 (nw_db alert_world)"
proof -
  obtain db where r: "replace_config (\<lambda>_. True) ''user'' 7 one_rule (nw_db alert_world) = (db, True)"
    by (simp add: replace_config_def Let_def)
  note s = saved_settings_returned [OF r TrueI TrueI]
  have one: "cf_rules one_rule \<noteq> []" "length (cf_rules one_rule) = 1" "filter (\<lambda>t. t \<noteq> []) (cf_emails one_rule) = [''a'']"
    by (simp_all add: one_rule_def)
  obtain c where c: "get_config (\<lambda>_. True) ''user'' 7 db = Some c"
    "map (\<lambda>r. r\<lparr>nr_id := 0\<rparr>) (cf_rules c) = map (saved_as ''user'' 7) (cf_rules one_rule)" "cf_emails c = [''a'']"
    using conjunct1 [OF s] unfolding one(3) using one(1) by (elim exE conjE) (simp only: if_False)
  have "length (cf_rules c) = 1" using arg_cong [OF c(2), of length] one(2) by (simp only: length_map)
  moreover have "get_config (\<lambda>_. True) ''admin'' 0 db = get_config (\<lambda>_. True) ''admin'' 0 (nw_db alert_world)"
    using conjunct2 [OF s] by (elim allE [of _ "''admin''"] allE [of _ 0] impE) simp_all
  ultimately show ?thesis using r c(1,3) by (intro exI [of _ db] exI [of _ c] conjI)
qed

end
