(* ===== verification/Session_Usage.thy ===== *)
theory Session_Usage
  imports Session_Model Notify "HOL-Library.AList" "HOL-Library.Multiset"
begin

text \<open>
  What sessions really use: the current figures (\<open>internal/session/usage.go\<close>) and their history
  (\<open>history.go\<close>). Prometheus is the environment: one function per query, whose answers are the
  values per pod or per node, and for ranges the list of points. Figures that cannot be measured are
  \<open>None\<close>. The alert engine reads a session's figures through \<open>session_metric\<close>.
\<close>

section \<open>Current figures\<close>

datatype gpu_source = Dcgm | Hami | NoSource

datatype gpu_reason = NoReason | CpuOnly | Physical | Timeslice | Unavailable

record usage =
  us_id :: string
  us_cpu :: "rat option"
  us_cpu_limit :: int
  us_mem :: "rat option"
  us_mem_limit :: int
  us_gpu :: "rat option"
  us_vram :: "rat option"
  us_vram_total :: int
  us_source :: gpu_source
  us_reason :: gpu_reason

text \<open>The answers: per pod, per node, and whether the vGPU monitor reports any host card.\<close>

record usage_env =
  ue_enabled :: bool
  ue_cpu :: "string \<Rightarrow> rat option"
  ue_mem :: "string \<Rightarrow> rat option"
  ue_node_util :: "string \<Rightarrow> rat option"
  ue_node_used :: "string \<Rightarrow> rat option"
  ue_node_total :: "string \<Rightarrow> rat option"
  ue_pod_util :: "string \<Rightarrow> rat option"
  ue_pod_used :: "string \<Rightarrow> rat option"
  ue_pod_limit :: "string \<Rightarrow> rat option"
  ue_monitor :: bool

type_synonym usage_map = "string \<Rightarrow> usage option"

definition mib :: rat where
  "mib = 1048576"

definition blank_usage :: "session \<Rightarrow> usage" where
  "blank_usage s = \<lparr>us_id = s_instance s, us_cpu = None, us_cpu_limit = s_cpu s, us_mem = None, us_mem_limit = s_mem s * 1024,
     us_gpu = None, us_vram = None, us_vram_total = s_vram s, us_source = NoSource, us_reason = NoReason\<rparr>"

definition first_usage :: "session \<Rightarrow> usage" where
  "first_usage s =
     (let u = blank_usage s
      in if ssh_env s then u\<lparr>us_reason := Physical\<rparr>
         else if s_mode s = ''cpu'' then u\<lparr>us_reason := CpuOnly\<rparr>
         else if s_mode s = ''shared'' then u\<lparr>us_source := Hami\<rparr>
         else if s_mode s = ''timeslice'' then u\<lparr>us_reason := Timeslice\<rparr>
         else u\<lparr>us_source := Dcgm\<rparr>)"

definition usage_pods :: "session list \<Rightarrow> string list" where
  "usage_pods rows = map s_instance (filter (\<lambda>s. \<not> ssh_env s) rows)"

definition hami_pods :: "session list \<Rightarrow> string list" where
  "hami_pods rows = map s_instance (filter (\<lambda>s. us_source (first_usage s) = Hami) rows)"

definition dcgm_nodes :: "session list \<Rightarrow> string \<Rightarrow> string option" where
  "dcgm_nodes rows = map_of (rev (map (\<lambda>s. (s_instance s, s_node s)) (filter (\<lambda>s. us_source (first_usage s) = Dcgm) rows)))"

text \<open>The answers of a query on the named pods, written into the entries.\<close>

definition fill :: "string list \<Rightarrow> (string \<Rightarrow> rat option) \<Rightarrow> (rat \<Rightarrow> usage \<Rightarrow> usage) \<Rightarrow> usage_map \<Rightarrow> usage_map" where
  "fill pods q f out = (\<lambda>p. if p \<in> set pods then (case q p of None \<Rightarrow> out p | Some v \<Rightarrow> map_option (f v) (out p)) else out p)"

definition fill_opt :: "(rat \<Rightarrow> usage \<Rightarrow> usage) \<Rightarrow> rat option \<Rightarrow> usage \<Rightarrow> usage" where
  "fill_opt f v u = (case v of None \<Rightarrow> u | Some x \<Rightarrow> f x u)"

definition fill_dcgm :: "usage_env \<Rightarrow> (string \<Rightarrow> string option) \<Rightarrow> usage_map \<Rightarrow> usage_map" where
  "fill_dcgm e nodes out =
     (\<lambda>p. case nodes p of None \<Rightarrow> out p
          | Some n \<Rightarrow>
              if n = [] then out p
              else map_option (\<lambda>u. fill_opt (\<lambda>v u. if us_vram_total u = 0 then u\<lparr>us_vram_total := trunc v\<rparr> else u) (ue_node_total e n)
                     (fill_opt (\<lambda>v u. u\<lparr>us_vram := Some v\<rparr>) (ue_node_used e n)
                       (fill_opt (\<lambda>v u. u\<lparr>us_gpu := Some v\<rparr>) (ue_node_util e n) u))) (out p))"

definition need_idle :: "string list \<Rightarrow> usage_map \<Rightarrow> bool" where
  "need_idle pods out \<longleftrightarrow> list_ex (\<lambda>p. case out p of None \<Rightarrow> False | Some u \<Rightarrow> us_gpu u = None) pods"

definition idle_entry :: "usage \<Rightarrow> usage" where
  "idle_entry u = (if us_gpu u = None then u\<lparr>us_gpu := Some 0, us_vram := (case us_vram u of None \<Rightarrow> Some 0 | Some v \<Rightarrow> Some v)\<rparr> else u)"

definition fill_hami :: "usage_env \<Rightarrow> string list \<Rightarrow> usage_map \<Rightarrow> usage_map" where
  "fill_hami e pods out =
     (let o1 = fill pods (ue_pod_util e) (\<lambda>v u. u\<lparr>us_gpu := Some v\<rparr>) out;
          o2 = fill pods (ue_pod_used e) (\<lambda>v u. u\<lparr>us_vram := Some (fdiv v mib)\<rparr>) o1;
          o3 = fill pods (ue_pod_limit e) (\<lambda>v u. if us_vram_total u = 0 then u\<lparr>us_vram_total := trunc (fdiv v mib)\<rparr> else u) o2
      in if need_idle pods o3 \<and> ue_monitor e then (\<lambda>p. if p \<in> set pods then map_option idle_entry (o3 p) else o3 p) else o3)"

definition mark_unavailable :: "usage \<Rightarrow> usage" where
  "mark_unavailable u =
     (if us_source u \<noteq> NoSource \<and> us_gpu u = None \<and> us_vram u = None then u\<lparr>us_source := NoSource, us_reason := Unavailable\<rparr> else u)"

definition usage_of :: "usage_env \<Rightarrow> session list \<Rightarrow> usage_map" where
  "usage_of e rows =
     (let out = map_of (rev (map (\<lambda>s. (s_instance s, first_usage s)) rows));
          pods = usage_pods rows
      in if pods = [] \<or> \<not> ue_enabled e then map_option mark_unavailable \<circ> out
         else (let o1 = fill pods (ue_cpu e) (\<lambda>v u. u\<lparr>us_cpu := Some v\<rparr>) out;
                   o2 = fill pods (ue_mem e) (\<lambda>v u. u\<lparr>us_mem := Some (fdiv v mib)\<rparr>) o1;
                   o3 = fill_dcgm e (dcgm_nodes rows) o2
               in map_option mark_unavailable \<circ> fill_hami e (hami_pods rows) o3))"

definition own_usage :: "sdb_oracle \<Rightarrow> usage_env \<Rightarrow> string \<Rightarrow> int \<Rightarrow> session_db \<Rightarrow> usage option" where
  "own_usage ok e i u db = (case get_session ok i u db of None \<Rightarrow> None | Some s \<Rightarrow> usage_of e [s] i)"

definition my_usage :: "usage_env \<Rightarrow> int \<Rightarrow> session_db \<Rightarrow> usage_map" where
  "my_usage e u db = usage_of e (filter (\<lambda>s. s_phase s = Running) (list_by_user u 0 db))"

definition admin_usage :: "usage_env \<Rightarrow> session_db \<Rightarrow> usage_map" where
  "admin_usage e db = usage_of e (list_running db)"

text \<open>One figure of one session, for the alert engine. Nothing asks who wants to know.\<close>

definition percent_of :: "rat \<Rightarrow> int \<Rightarrow> rat" where
  "percent_of v limit = fmul (fdiv v (fl limit)) 100"

definition session_metric :: "sdb_oracle \<Rightarrow> usage_env \<Rightarrow> session_db \<Rightarrow> string \<Rightarrow> string \<Rightarrow> rat option" where
  "session_metric ok e db i m =
     (case get_by_instance ok i db of None \<Rightarrow> None
      | Some s \<Rightarrow>
          if s_phase s \<noteq> Running then None
          else case usage_of e [s] i of None \<Rightarrow> None
               | Some u \<Rightarrow>
                   if m = ''session_gpu'' then us_gpu u
                   else if m = ''session_cpu''
                   then (case us_cpu u of None \<Rightarrow> None | Some v \<Rightarrow> if us_cpu_limit u = 0 then None else Some (percent_of v (us_cpu_limit u)))
                   else if m = ''session_vram''
                   then (case us_vram u of None \<Rightarrow> None | Some v \<Rightarrow> if us_vram_total u = 0 then None else Some (percent_of v (us_vram_total u)))
                   else None)"

section \<open>History\<close>

record hist_point =
  hp_t :: int
  hp_cpu :: int
  hp_mem :: int
  hp_gpu :: int
  hp_vram :: int

record hist_insights =
  hi_hours :: int
  hi_avg_gpu :: int
  hi_peak_gpu :: int
  hi_idle :: int
  hi_avg_cpu :: int
  hi_avg_mem :: int
  hi_peak_vram :: int
  hi_samples :: int
  hi_source :: gpu_source
  hi_reason :: gpu_reason

datatype hist_query = PodCpu string | PodMem string | NodeGpu string | NodeVram string | PodGpu string | PodVram string

text \<open>A range query: the window, the step, and the points (seconds and value) when it succeeds.\<close>

type_synonym prom_range = "hist_query \<Rightarrow> time \<Rightarrow> time \<Rightarrow> duration \<Rightarrow> (rat \<times> rat) list option"

definition gpu_source_of :: "session \<Rightarrow> gpu_source \<times> gpu_reason" where
  "gpu_source_of s =
     (if ssh_env s then (NoSource, Physical)
      else if s_mode s = ''cpu'' then (NoSource, CpuOnly)
      else if s_mode s = ''timeslice'' then (NoSource, Timeslice)
      else if s_mode s = ''shared'' then (Hami, NoReason) else (Dcgm, NoReason))"

definition hour_ns :: duration where
  "hour_ns = 3600 * 1000000000"

definition minute_ns :: duration where
  "minute_ns = 60 * 1000000000"

definition hist_hours :: "int \<Rightarrow> int" where
  "hist_hours h = (if h \<le> 0 then 24 else h)"

text \<open>The window: the last hours, cut to the time the session ran.\<close>

definition hist_window :: "time \<Rightarrow> int \<Rightarrow> session \<Rightarrow> (time \<times> time) option" where
  "hist_window now hours s =
     (let st0 = now - hours * hour_ns;
          st = (case s_started s of None \<Rightarrow> st0 | Some t \<Rightarrow> if st0 < t then t else st0);
          en = (case s_stopped_since s of None \<Rightarrow> now | Some t \<Rightarrow> if t < now then t else now)
      in if st < en then Some (st, en) else None)"

definition hist_step :: "time \<Rightarrow> time \<Rightarrow> duration" where
  "hist_step st en = max minute_ns ((en - st) div 120)"

definition range_map :: "prom_range \<Rightarrow> hist_query \<Rightarrow> time \<Rightarrow> time \<Rightarrow> duration \<Rightarrow> (int \<times> rat) list" where
  "range_map pr q st en step =
     (case pr q st en step of None \<Rightarrow> [] | Some pts \<Rightarrow> fold (\<lambda>(t, v). AList.update (trunc t) v) pts [])"

text \<open>The insertion sort, swap by swap.\<close>

fun sift :: "nat \<Rightarrow> int list \<Rightarrow> int list" where
  "sift 0 xs = xs"
| "sift (Suc j) xs = (if xs ! j > xs ! Suc j then sift j (xs[j := xs ! Suc j, Suc j := xs ! j]) else xs)"

definition sort_hist :: "int list \<Rightarrow> int list" where
  "sort_hist xs = fold sift [1..<length xs] xs"

definition go_round :: "rat \<Rightarrow> int" where
  "go_round x = (if 0 \<le> x then \<lfloor>x + 1 / 2\<rfloor> else - \<lfloor>- x + 1 / 2\<rfloor>)"

definition clamp_pct :: "rat \<Rightarrow> int" where
  "clamp_pct v = (let r = go_round v in if r < 0 then 0 else if 100 < r then 100 else r)"

record hist_acc =
  ha_points :: "hist_point list"
  ha_gpu :: rat
  ha_cpu :: rat
  ha_mem :: rat
  ha_peak_gpu :: int
  ha_peak_vram :: int
  ha_idle :: int
  ha_n :: int

definition cpu_point :: "session \<Rightarrow> rat \<Rightarrow> int" where
  "cpu_point s c = (if 0 < fl (s_cpu s) then clamp_pct (fmul (fdiv c (fl (s_cpu s))) 100) else go_round (fmul c 100))"

definition mem_point :: "session \<Rightarrow> rat \<Rightarrow> int" where
  "mem_point s m =
     (let mb = fdiv m mib; lim = fl (s_mem s * 1024)
      in if 0 < lim then clamp_pct (fmul (fdiv mb lim) 100) else go_round mb)"

definition hist_add ::
  "session \<Rightarrow> (int \<times> rat) list \<Rightarrow> (int \<times> rat) list \<Rightarrow> (int \<times> rat) list \<Rightarrow> (int \<times> rat) list \<Rightarrow> int \<Rightarrow> hist_acc \<Rightarrow> hist_acc" where
  "hist_add s cpu mem gpu vram t a =
     (let c = (case map_of cpu t of None \<Rightarrow> 0 | Some v \<Rightarrow> cpu_point s v);
          m = (case map_of mem t of None \<Rightarrow> 0 | Some v \<Rightarrow> mem_point s v);
          g = (case map_of gpu t of None \<Rightarrow> 0 | Some v \<Rightarrow> clamp_pct v);
          x = (case map_of vram t of None \<Rightarrow> None | Some v \<Rightarrow>
                 if 0 < fl (s_vram s) then Some (clamp_pct (fmul (fdiv v (fl (s_vram s))) 100)) else None);
          a1 = (case map_of gpu t of None \<Rightarrow> a
                | Some v \<Rightarrow> a\<lparr>ha_n := ha_n a + 1, ha_gpu := fadd (ha_gpu a) v, ha_peak_gpu := (if ha_peak_gpu a < g then g else ha_peak_gpu a),
                             ha_idle := (if v < 5 then ha_idle a + 1 else ha_idle a)\<rparr>);
          a2 = (case x of None \<Rightarrow> a1 | Some p \<Rightarrow> a1\<lparr>ha_peak_vram := (if ha_peak_vram a1 < p then p else ha_peak_vram a1)\<rparr>)
      in a2\<lparr>ha_cpu := fadd (ha_cpu a2) (fl c), ha_mem := fadd (ha_mem a2) (fl m),
            ha_points := ha_points a2 @ [\<lparr>hp_t = t, hp_cpu = c, hp_mem = m, hp_gpu = g, hp_vram = (case x of None \<Rightarrow> 0 | Some p \<Rightarrow> p)\<rparr>]\<rparr>)"

definition empty_insights :: "int \<Rightarrow> session \<Rightarrow> hist_insights" where
  "empty_insights hours s = \<lparr>hi_hours = hours, hi_avg_gpu = 0, hi_peak_gpu = 0, hi_idle = 0, hi_avg_cpu = 0, hi_avg_mem = 0,
     hi_peak_vram = 0, hi_samples = 0, hi_source = fst (gpu_source_of s), hi_reason = snd (gpu_source_of s)\<rparr>"

definition insights :: "int \<Rightarrow> session \<Rightarrow> hist_acc \<Rightarrow> hist_insights" where
  "insights hours s a =
     (let n = int (length (ha_points a));
          i0 = (empty_insights hours s)\<lparr>hi_samples := n\<rparr>;
          i1 = (if 0 < n then i0\<lparr>hi_avg_cpu := go_round (fdiv (ha_cpu a) (fl n)), hi_avg_mem := go_round (fdiv (ha_mem a) (fl n)),
                               hi_peak_vram := ha_peak_vram a\<rparr> else i0);
          i2 = (if 0 < ha_n a then i1\<lparr>hi_avg_gpu := go_round (fdiv (ha_gpu a) (fl (ha_n a))), hi_peak_gpu := ha_peak_gpu a,
                               hi_idle := go_round (fmul (fdiv (fl (ha_idle a)) (fl (ha_n a))) 100)\<rparr> else i1)
      in if hi_source i2 \<noteq> NoSource \<and> ha_n a = 0 then i2\<lparr>hi_source := NoSource, hi_reason := Unavailable\<rparr> else i2)"

text \<open>The times of all series, sorted. The keys are collected from a map, so their first order is arbitrary.\<close>

definition hist_times :: "(int \<times> rat) list list \<Rightarrow> int list" where
  "hist_times ms = sort_hist (remdups (concat (map (map fst) ms)))"

definition hist_series :: "prom_range \<Rightarrow> session \<Rightarrow> time \<Rightarrow> time \<Rightarrow> (int \<times> rat) list list" where
  "hist_series pr s st en =
     (let step = hist_step st en; pod = s_instance s; q = (\<lambda>x. range_map pr x st en step)
      in [q (PodCpu pod), q (PodMem pod),
          (case fst (gpu_source_of s) of Dcgm \<Rightarrow> q (NodeGpu (s_node s)) | Hami \<Rightarrow> q (PodGpu pod) | NoSource \<Rightarrow> []),
          (case fst (gpu_source_of s) of Dcgm \<Rightarrow> q (NodeVram (s_node s))
           | Hami \<Rightarrow> map (\<lambda>(t, v). (t, fdiv v mib)) (q (PodVram pod)) | NoSource \<Rightarrow> [])])"

definition hist_fold :: "session \<Rightarrow> (int \<times> rat) list list \<Rightarrow> hist_acc" where
  "hist_fold s ms =
     fold (hist_add s (ms ! 0) (ms ! 1) (ms ! 2) (ms ! 3)) (hist_times ms)
       \<lparr>ha_points = [], ha_gpu = 0, ha_cpu = 0, ha_mem = 0, ha_peak_gpu = 0, ha_peak_vram = 0, ha_idle = 0, ha_n = 0\<rparr>"

definition history :: "prom_range \<Rightarrow> bool \<Rightarrow> time \<Rightarrow> int \<Rightarrow> session \<Rightarrow> hist_point list \<times> hist_insights" where
  "history pr enabled now h s =
     (let hours = hist_hours h
      in if \<not> enabled \<or> ssh_env s then ([], empty_insights hours s)
         else case hist_window now hours s of None \<Rightarrow> ([], empty_insights hours s)
              | Some (st, en) \<Rightarrow> (let a = hist_fold s (hist_series pr s st en) in (ha_points a, insights hours s a)))"

definition user_history :: "sdb_oracle \<Rightarrow> prom_range \<Rightarrow> bool \<Rightarrow> time \<Rightarrow> string \<Rightarrow> int \<Rightarrow> int \<Rightarrow> session_db \<Rightarrow> (hist_point list \<times> hist_insights) option" where
  "user_history ok pr enabled now i u h db = map_option (history pr enabled now h) (get_session ok i u db)"

definition admin_history :: "sdb_oracle \<Rightarrow> prom_range \<Rightarrow> bool \<Rightarrow> time \<Rightarrow> string \<Rightarrow> int \<Rightarrow> session_db \<Rightarrow> (hist_point list \<times> hist_insights) option" where
  "admin_history ok pr enabled now i h db = map_option (history pr enabled now h) (get_by_instance ok i db)"

section \<open>The sort\<close>

lemma sift_shift:
  "sorted ys \<Longrightarrow> sift (length ys) (ys @ x # zs) = filter (\<lambda>y. y \<le> x) ys @ x # filter (\<lambda>y. x < y) ys @ zs"
proof (induction ys arbitrary: zs rule: rev_induct)
  case (snoc y ys)
  have s: "sorted ys" "\<forall>a \<in> set ys. a \<le> y" using snoc.prems by (auto simp: sorted_append)
  have at: "((ys @ [y]) @ x # zs) ! length ys = y" "((ys @ [y]) @ x # zs) ! Suc (length ys) = x"
    "((ys @ [y]) @ x # zs)[length ys := x, Suc (length ys) := y] = ys @ x # y # zs"
    by (simp_all add: nth_append list_update_append)
  show ?case
  proof (cases "x < y")
    case True
    then show ?thesis using snoc.IH [OF s(1), of "y # zs"] at by simp
  next
    case False
    then have "filter (\<lambda>a. a \<le> x) ys = ys" "filter (\<lambda>a. x < a) ys = []" using s(2) by (auto simp: filter_id_conv filter_empty_conv)
    then show ?thesis using False at by simp
  qed
qed simp

lemma sift_insorts:
  assumes "sorted ys"
  shows "sift (length ys) (ys @ x # zs) = sort (ys @ [x]) @ zs"
proof -
  have "sorted (filter (\<lambda>y. y \<le> x) ys @ x # filter (\<lambda>y. x < y) ys)"
    using assms by (auto simp: sorted_append sorted_filter [where f = "\<lambda>y. y", simplified])
  moreover have "mset (filter (\<lambda>y. y \<le> x) ys @ x # filter (\<lambda>y. x < y) ys) = mset (ys @ [x])"
    by (induction ys) auto
  ultimately have "sort (ys @ [x]) = filter (\<lambda>y. y \<le> x) ys @ x # filter (\<lambda>y. x < y) ys"
    by (intro properties_for_sort) auto
  then show ?thesis using sift_shift [OF assms] by simp
qed

lemma sort_steps: "k \<le> length xs \<Longrightarrow> 0 < k \<Longrightarrow> fold sift [1..<k] xs = sort (take k xs) @ drop k xs"
proof (induction k)
  case (Suc k)
  show ?case
  proof (cases "k = 0")
    case True
    then show ?thesis using Suc.prems by (cases xs) auto
  next
    case False
    then have "fold sift [1..<Suc k] xs = sift k (sort (take k xs) @ drop k xs)"
      using Suc by (simp add: upt_Suc_append)
    also have "drop k xs = xs ! k # drop (Suc k) xs" using Suc.prems by (simp add: Cons_nth_drop_Suc)
    also have "sift k (sort (take k xs) @ xs ! k # drop (Suc k) xs) = sort (sort (take k xs) @ [xs ! k]) @ drop (Suc k) xs"
      using sift_insorts [of "sort (take k xs)" "xs ! k"] Suc.prems by simp
    also have "sort (sort (take k xs) @ [xs ! k]) = sort (take (Suc k) xs)"
      using Suc.prems by (intro properties_for_sort) (simp_all add: take_Suc_conv_app_nth)
    finally show ?thesis .
  qed
qed simp

text \<open>the hand-written sort of the sample times, swap by swap on indices, is sorting: the result is ordered,
  a permutation of the input, and the same as the library's.\<close>

theorem sort_hist_sorts: "sort_hist xs = sort xs \<and> sorted (sort_hist xs) \<and> mset (sort_hist xs) = mset xs"
proof -
  have "sort_hist xs = sort xs"
  proof (cases xs)
    case (Cons x ys)
    then show ?thesis using sort_steps [of "length xs" xs] by (simp add: sort_hist_def)
  qed (simp add: sort_hist_def)
  then show ?thesis by simp
qed

section \<open>A batch gives each session its own figures\<close>

text \<open>The figures of one session, on their own.\<close>

definition pod_fills :: "usage_env \<Rightarrow> string \<Rightarrow> usage \<Rightarrow> usage" where
  "pod_fills e p u =
     fill_opt (\<lambda>v u. u\<lparr>us_mem := Some (fdiv v mib)\<rparr>) (ue_mem e p) (fill_opt (\<lambda>v u. u\<lparr>us_cpu := Some v\<rparr>) (ue_cpu e p) u)"

definition dcgm_fills :: "usage_env \<Rightarrow> string \<Rightarrow> usage \<Rightarrow> usage" where
  "dcgm_fills e n u =
     (if n = [] then u
      else fill_opt (\<lambda>v u. if us_vram_total u = 0 then u\<lparr>us_vram_total := trunc v\<rparr> else u) (ue_node_total e n)
             (fill_opt (\<lambda>v u. u\<lparr>us_vram := Some v\<rparr>) (ue_node_used e n) (fill_opt (\<lambda>v u. u\<lparr>us_gpu := Some v\<rparr>) (ue_node_util e n) u)))"

definition hami_fills :: "usage_env \<Rightarrow> string \<Rightarrow> usage \<Rightarrow> usage" where
  "hami_fills e p u =
     (let u' = fill_opt (\<lambda>v u. if us_vram_total u = 0 then u\<lparr>us_vram_total := trunc (fdiv v mib)\<rparr> else u) (ue_pod_limit e p)
                 (fill_opt (\<lambda>v u. u\<lparr>us_vram := Some (fdiv v mib)\<rparr>) (ue_pod_used e p)
                   (fill_opt (\<lambda>v u. u\<lparr>us_gpu := Some v\<rparr>) (ue_pod_util e p) u))
      in if ue_monitor e then idle_entry u' else u')"

definition usage_ref :: "usage_env \<Rightarrow> session \<Rightarrow> usage" where
  "usage_ref e s =
     (let u = first_usage s
      in mark_unavailable
           (if ssh_env s \<or> \<not> ue_enabled e then u
            else (let u1 = pod_fills e (s_instance s) u
                  in case us_source u of Dcgm \<Rightarrow> dcgm_fills e (s_node s) u1 | Hami \<Rightarrow> hami_fills e (s_instance s) u1 | NoSource \<Rightarrow> u1)))"

lemma fill_at:
  "fill pods q f out p = (if p \<in> set pods then map_option (fill_opt f (q p)) (out p) else out p)"
  by (cases "out p") (auto simp: fill_def fill_opt_def split: option.split)

lemma first_usage_source: "us_source (first_usage s) = (if ssh_env s then NoSource else fst (gpu_source_of s))"
  by (simp add: first_usage_def gpu_source_of_def blank_usage_def Let_def)

lemma instance_unique: "distinct (map s_instance rows) \<Longrightarrow> s \<in> set rows \<Longrightarrow> t \<in> set rows \<Longrightarrow> s_instance s = s_instance t \<Longrightarrow> s = t"
  by (auto simp: distinct_map dest: inj_onD)

lemma in_named:
  "distinct (map s_instance rows) \<Longrightarrow> s \<in> set rows \<Longrightarrow> s_instance s \<in> set (map s_instance (filter P rows)) \<longleftrightarrow> P s"
  by (auto dest: instance_unique)

lemma map_of_named:
  assumes "distinct (map s_instance rows)" "s \<in> set rows"
  shows "map_of (rev (map (\<lambda>s. (s_instance s, f s)) (filter P rows))) (s_instance s) = (if P s then Some (f s) else None)"
proof -
  have d: "distinct (map fst (rev (map (\<lambda>s. (s_instance s, f s)) (filter P rows))))"
    using assms(1) by (simp add: rev_map [symmetric] comp_def distinct_map_filter)
  show ?thesis
  proof (cases "P s")
    case True
    then have "(s_instance s, f s) \<in> set (rev (map (\<lambda>s. (s_instance s, f s)) (filter P rows)))" using assms(2) by auto
    then show ?thesis using d True by (simp add: map_of_is_SomeI)
  next
    case False
    then have "s_instance s \<notin> fst ` set (rev (map (\<lambda>s. (s_instance s, f s)) (filter P rows)))"
      using assms by (auto dest: instance_unique)
    then show ?thesis using False by (simp add: map_of_eq_None_iff)
  qed
qed

lemma fill_dcgm_at:
  "fill_dcgm e nodes out p = (case nodes p of None \<Rightarrow> out p | Some n \<Rightarrow> map_option (dcgm_fills e n) (out p))"
  by (cases "out p") (auto simp: fill_dcgm_def dcgm_fills_def split: option.split)

lemma fill_hami_at:
  assumes "out p = Some u"
  shows "fill_hami e pods out p = Some (if p \<in> set pods then hami_fills e p u else u)"
proof -
  let ?o3 = "fill pods (ue_pod_limit e) (\<lambda>v u. if us_vram_total u = 0 then u\<lparr>us_vram_total := trunc (fdiv v mib)\<rparr> else u)
      (fill pods (ue_pod_used e) (\<lambda>v u. u\<lparr>us_vram := Some (fdiv v mib)\<rparr>) (fill pods (ue_pod_util e) (\<lambda>v u. u\<lparr>us_gpu := Some v\<rparr>) out))"
  have "us_gpu x \<noteq> None" if "\<not> need_idle pods ?o3" "p \<in> set pods" "?o3 p = Some x" for x
    using that by (auto simp: need_idle_def list_ex_iff)
  then show ?thesis using assms
    by (auto simp: fill_hami_def hami_fills_def fill_at Let_def idle_entry_def)
qed

lemma usage_of_ref:
  assumes d: "distinct (map s_instance rows)" and s: "s \<in> set rows"
  shows "usage_of e rows (s_instance s) = Some (usage_ref e s)"
proof -
  let ?p = "s_instance s"
  have out: "map_of (rev (map (\<lambda>s. (s_instance s, first_usage s)) rows)) ?p = Some (first_usage s)"
    using map_of_named [OF d s, of first_usage "\<lambda>_. True"] by simp
  have pod: "?p \<in> set (usage_pods rows) \<longleftrightarrow> \<not> ssh_env s" unfolding usage_pods_def by (rule in_named [OF d s])
  have hami: "?p \<in> set (hami_pods rows) \<longleftrightarrow> us_source (first_usage s) = Hami" unfolding hami_pods_def by (rule in_named [OF d s])
  have dcgm: "dcgm_nodes rows ?p = (if us_source (first_usage s) = Dcgm then Some (s_node s) else None)"
    unfolding dcgm_nodes_def by (rule map_of_named [OF d s])
  have ssh: "ssh_env s \<Longrightarrow> us_source (first_usage s) = NoSource" by (simp add: first_usage_source)
  show ?thesis
  proof (cases "usage_pods rows = [] \<or> \<not> ue_enabled e")
    case True
    then have "ssh_env s \<or> \<not> ue_enabled e" using pod by auto
    then show ?thesis using True out by (simp add: usage_of_def usage_ref_def Let_def)
  next
    case False
    let ?o3 = "fill_dcgm e (dcgm_nodes rows) (fill (usage_pods rows) (ue_mem e) (\<lambda>v u. u\<lparr>us_mem := Some (fdiv v mib)\<rparr>)
      (fill (usage_pods rows) (ue_cpu e) (\<lambda>v u. u\<lparr>us_cpu := Some v\<rparr>) (map_of (rev (map (\<lambda>s. (s_instance s, first_usage s)) rows)))))"
    let ?u1 = "if ssh_env s then first_usage s else pod_fills e ?p (first_usage s)"
    have "?o3 ?p = Some (if us_source (first_usage s) = Dcgm then dcgm_fills e (s_node s) ?u1 else ?u1)"
      using out pod dcgm by (simp add: fill_dcgm_at fill_at pod_fills_def)
    from fill_hami_at [where out = ?o3, OF this] show ?thesis
      using False hami ssh by (cases "us_source (first_usage s)") (auto simp: usage_of_def usage_ref_def Let_def)
  qed
qed

text \<open>the batched queries give every session the figures it would get if it were asked for alone, and a
  session whose mode cannot be measured (CPU only, time-sliced, a rented machine) never shows GPU figures,
  whatever Prometheus holds; the history judges the source by the same rule.\<close>

theorem batch_gives_own_figures:
  assumes "distinct (map s_instance rows)" "s \<in> set rows"
  shows "usage_of e rows (s_instance s) = usage_of e [s] (s_instance s) \<and>
    (\<forall>u. usage_of e rows (s_instance s) = Some u \<longrightarrow>
       (fst (gpu_source_of s) = NoSource \<longrightarrow> us_gpu u = None \<and> us_vram u = None \<and> us_reason u = snd (gpu_source_of s)) \<and>
       us_source u \<in> {fst (gpu_source_of s), NoSource})"
proof -
  have 1: "usage_of e rows (s_instance s) = Some (usage_ref e s)" by (rule usage_of_ref [OF assms])
  moreover have "usage_of e [s] (s_instance s) = Some (usage_ref e s)" by (rule usage_of_ref) simp_all
  moreover have "us_source (pod_fills e p u) = us_source u" "us_reason (pod_fills e p u) = us_reason u"
    "us_gpu (pod_fills e p u) = us_gpu u" "us_vram (pod_fills e p u) = us_vram u" for p u
    by (simp_all add: pod_fills_def fill_opt_def split: option.split)
  moreover have "us_source (dcgm_fills e n u) = us_source u" for n u
    by (simp add: dcgm_fills_def fill_opt_def split: option.split)
  moreover have "us_source (hami_fills e p u) = us_source u" for p u
    by (simp add: hami_fills_def fill_opt_def idle_entry_def Let_def split: option.split)
  moreover have "us_gpu (first_usage s) = None" "us_vram (first_usage s) = None" "us_source (first_usage s) = fst (gpu_source_of s)"
    "us_reason (first_usage s) = snd (gpu_source_of s)"
    by (simp_all add: first_usage_def gpu_source_of_def blank_usage_def Let_def)
  ultimately show ?thesis
    by (cases "fst (gpu_source_of s)") (simp_all add: usage_ref_def mark_unavailable_def Let_def)
qed

section \<open>The points of a history\<close>

lemma clamp_range [simp]: "0 \<le> clamp_pct v" "clamp_pct v \<le> 100"
  by (simp_all add: clamp_pct_def Let_def)

lemma go_round_range: "0 \<le> x \<Longrightarrow> x \<le> of_int n \<Longrightarrow> 0 \<le> go_round x \<and> go_round x \<le> n"
  unfolding go_round_def by (auto simp: floor_le_iff)

lemma hist_add_point:
  "\<exists>c m g v. ha_points (hist_add s cpu mem gpu vram t a) = ha_points a @ [\<lparr>hp_t = t, hp_cpu = c, hp_mem = m, hp_gpu = g, hp_vram = v\<rparr>] \<and>
     ha_cpu (hist_add s cpu mem gpu vram t a) = fadd (ha_cpu a) (fl c) \<and> ha_mem (hist_add s cpu mem gpu vram t a) = fadd (ha_mem a) (fl m) \<and>
     0 \<le> g \<and> g \<le> 100 \<and> 0 \<le> v \<and> v \<le> 100 \<and> (0 < fl (s_cpu s) \<longrightarrow> 0 \<le> c \<and> c \<le> 100) \<and> (0 < fl (s_mem s * 1024) \<longrightarrow> 0 \<le> m \<and> m \<le> 100)"
  by (simp add: hist_add_def Let_def cpu_point_def mem_point_def split: option.split)

lemma hist_add_counts:
  fixes s :: session and cpu mem gpu vram :: "(int \<times> rat) list" and t :: int
  assumes "0 \<le> ha_idle a" "ha_idle a \<le> ha_n a" "0 \<le> ha_peak_gpu a" "ha_peak_gpu a \<le> 100" "0 \<le> ha_peak_vram a" "ha_peak_vram a \<le> 100"
    "ha_n a \<le> int (length (ha_points a))"
  defines "b \<equiv> hist_add s cpu mem gpu vram t a"
  shows "0 \<le> ha_idle b \<and> ha_idle b \<le> ha_n b \<and> 0 \<le> ha_peak_gpu b \<and> ha_peak_gpu b \<le> 100 \<and> 0 \<le> ha_peak_vram b \<and> ha_peak_vram b \<le> 100 \<and>
    ha_n b \<le> int (length (ha_points b))"
  using assms(1-7) unfolding b_def by (auto simp: hist_add_def Let_def split: option.split)

definition point_ok :: "session \<Rightarrow> hist_point \<Rightarrow> bool" where
  "point_ok s p \<longleftrightarrow> 0 \<le> hp_gpu p \<and> hp_gpu p \<le> 100 \<and> 0 \<le> hp_vram p \<and> hp_vram p \<le> 100 \<and>
     (0 < fl (s_cpu s) \<longrightarrow> 0 \<le> hp_cpu p \<and> hp_cpu p \<le> 100) \<and> (0 < fl (s_mem s * 1024) \<longrightarrow> 0 \<le> hp_mem p \<and> hp_mem p \<le> 100)"

text \<open>Sums of percentages stay below a hundred per point, in floats too as long as they are exact.\<close>

definition sums_ok :: "session \<Rightarrow> hist_acc \<Rightarrow> bool" where
  "sums_ok s a \<longleftrightarrow>
     (0 < fl (s_cpu s) \<longrightarrow> 0 \<le> ha_cpu a \<and> ha_cpu a \<le> of_int (100 * int (length (ha_points a)))) \<and>
     (0 < fl (s_mem s * 1024) \<longrightarrow> 0 \<le> ha_mem a \<and> ha_mem a \<le> of_int (100 * int (length (ha_points a))))"

lemma fadd_bound:
  assumes "0 \<le> x" "x \<le> of_int (100 * k)" "0 \<le> c" "c \<le> 100" "100 * (k + 1) \<le> 2 ^ 53" "0 \<le> k"
  shows "0 \<le> fadd x (fl c) \<and> fadd x (fl c) \<le> of_int (100 * (k + 1))"
proof -
  have "fl c = of_int c" using assms(3,4) by (intro fl_of_small) simp
  then have "x + fl c \<le> of_int (100 * k) + of_int c" using assms(2) by simp
  also have "\<dots> \<le> of_int (100 * (k + 1))" using assms(4) by simp
  finally have "x + fl c \<le> of_int (100 * (k + 1))" .
  then have "fadd x (fl c) \<le> of_int (100 * (k + 1))"
    unfolding fadd_def using assms(5,6) by (intro f64_le_of_int) simp_all
  moreover have "0 \<le> fadd x (fl c)" unfolding fadd_def using assms(1,3) by simp
  ultimately show ?thesis by simp
qed

definition acc_ok :: "session \<Rightarrow> hist_acc \<Rightarrow> bool" where
  "acc_ok s a \<longleftrightarrow> (\<forall>p \<in> set (ha_points a). point_ok s p) \<and> sums_ok s a \<and> 0 \<le> ha_idle a \<and> ha_idle a \<le> ha_n a \<and>
     0 \<le> ha_peak_gpu a \<and> ha_peak_gpu a \<le> 100 \<and> 0 \<le> ha_peak_vram a \<and> ha_peak_vram a \<le> 100 \<and> ha_n a \<le> int (length (ha_points a))"

lemma hist_add_ok:
  assumes "acc_ok s a" "100 * (int (length (ha_points a)) + 1) \<le> 2 ^ 53"
  shows "acc_ok s (hist_add s cpu mem gpu vram t a)"
proof -
  let ?b = "hist_add s cpu mem gpu vram t a"
  obtain c m g v where p: "ha_points ?b = ha_points a @ [\<lparr>hp_t = t, hp_cpu = c, hp_mem = m, hp_gpu = g, hp_vram = v\<rparr>]"
    "ha_cpu ?b = fadd (ha_cpu a) (fl c)" "ha_mem ?b = fadd (ha_mem a) (fl m)" "0 \<le> g" "g \<le> 100" "0 \<le> v" "v \<le> 100"
    "0 < fl (s_cpu s) \<longrightarrow> 0 \<le> c \<and> c \<le> 100" "0 < fl (s_mem s * 1024) \<longrightarrow> 0 \<le> m \<and> m \<le> 100"
    using hist_add_point [of s cpu mem gpu vram t a] by blast
  have len: "int (length (ha_points ?b)) = int (length (ha_points a)) + 1" by (simp add: p(1))
  have "sums_ok s ?b"
    unfolding sums_ok_def len p(2,3)
  proof (intro conjI impI)
    have s: "sums_ok s a" using assms(1) by (simp add: acc_ok_def)
    show "0 \<le> fadd (ha_cpu a) (fl c)" "fadd (ha_cpu a) (fl c) \<le> of_int (100 * (int (length (ha_points a)) + 1))" if "0 < fl (s_cpu s)"
      using fadd_bound [of "ha_cpu a" "int (length (ha_points a))" c] s p(8) assms(2) that by (auto simp: sums_ok_def)
    show "0 \<le> fadd (ha_mem a) (fl m)" "fadd (ha_mem a) (fl m) \<le> of_int (100 * (int (length (ha_points a)) + 1))" if "0 < fl (s_mem s * 1024)"
      using fadd_bound [of "ha_mem a" "int (length (ha_points a))" m] s p(9) assms(2) that by (auto simp: sums_ok_def)
  qed
  moreover have "point_ok s \<lparr>hp_t = t, hp_cpu = c, hp_mem = m, hp_gpu = g, hp_vram = v\<rparr>" using p by (simp add: point_ok_def)
  moreover have "0 \<le> ha_idle ?b \<and> ha_idle ?b \<le> ha_n ?b \<and> 0 \<le> ha_peak_gpu ?b \<and> ha_peak_gpu ?b \<le> 100 \<and> 0 \<le> ha_peak_vram ?b \<and>
      ha_peak_vram ?b \<le> 100 \<and> ha_n ?b \<le> int (length (ha_points ?b))"
    using assms(1) by (intro hist_add_counts) (simp_all add: acc_ok_def)
  ultimately show ?thesis using assms(1) p(1) by (simp add: acc_ok_def)
qed

lemma hist_fold_points:
  "map hp_t (ha_points (fold (hist_add s cpu mem gpu vram) ts a)) = map hp_t (ha_points a) @ ts"
proof (induction ts arbitrary: a)
  case (Cons t ts)
  obtain c m g v where "ha_points (hist_add s cpu mem gpu vram t a) = ha_points a @ [\<lparr>hp_t = t, hp_cpu = c, hp_mem = m, hp_gpu = g, hp_vram = v\<rparr>]"
    using hist_add_point by blast
  then show ?case using Cons.IH by simp
qed simp

lemma hist_fold_ok:
  "acc_ok s a \<Longrightarrow> 100 * (int (length (ha_points a)) + int (length ts)) \<le> 2 ^ 53 \<Longrightarrow> acc_ok s (fold (hist_add s cpu mem gpu vram) ts a)"
proof (induction ts arbitrary: a)
  case (Cons t ts)
  obtain c m g v where "ha_points (hist_add s cpu mem gpu vram t a) = ha_points a @ [\<lparr>hp_t = t, hp_cpu = c, hp_mem = m, hp_gpu = g, hp_vram = v\<rparr>]"
    using hist_add_point by blast
  then show ?case using Cons.IH [of "hist_add s cpu mem gpu vram t a"] hist_add_ok [of s a] Cons.prems by simp
qed simp

lemma average_range:
  assumes "0 \<le> x" "x \<le> of_int (100 * n)" "0 < n" "100 * n \<le> 2 ^ 53"
  shows "0 \<le> go_round (fdiv x (fl n)) \<and> go_round (fdiv x (fl n)) \<le> 100"
proof -
  have n: "fl n = of_int n" using assms(3,4) by (intro fl_of_small) simp
  have "x / fl n \<le> of_int 100" using assms(2,3) by (simp add: n divide_le_eq)
  then have "fdiv x (fl n) \<le> of_int 100" unfolding fdiv_def by (intro f64_le_of_int) simp_all
  moreover have "0 \<le> fdiv x (fl n)" unfolding fdiv_def using assms(1,3) by (simp add: n)
  ultimately show ?thesis by (rule go_round_range [rotated])
qed

text \<open>The sum of the GPU samples is not clamped: it stays below a hundred per sample when the samples do.\<close>

lemma hist_add_gpu:
  "ha_gpu (hist_add s cpu mem gpu vram t a) = (case map_of gpu t of None \<Rightarrow> ha_gpu a | Some v \<Rightarrow> fadd (ha_gpu a) v)"
  "ha_n (hist_add s cpu mem gpu vram t a) = (case map_of gpu t of None \<Rightarrow> ha_n a | Some v \<Rightarrow> ha_n a + 1)"
  by (simp_all add: hist_add_def Let_def split: option.split)

lemma fadd_sample:
  assumes "0 \<le> x" "x \<le> of_int (100 * k)" "0 \<le> v" "v \<le> 100" "100 * (k + 1) \<le> 2 ^ 53" "0 \<le> k"
  shows "0 \<le> fadd x v \<and> fadd x v \<le> of_int (100 * (k + 1))"
proof -
  have "x + v \<le> of_int (100 * (k + 1))" using assms(2,4) by simp
  then have "fadd x v \<le> of_int (100 * (k + 1))" unfolding fadd_def using assms(5,6) by (intro f64_le_of_int) simp_all
  moreover have "0 \<le> fadd x v" unfolding fadd_def using assms(1,3) by simp
  ultimately show ?thesis by simp
qed

lemma gpu_sum_range:
  assumes "\<forall>(t, v) \<in> set gpu. 0 \<le> v \<and> v \<le> 100"
  shows "0 \<le> ha_gpu a \<Longrightarrow> ha_gpu a \<le> of_int (100 * ha_n a) \<Longrightarrow> 0 \<le> ha_n a \<Longrightarrow> 100 * (ha_n a + int (length ts)) \<le> 2 ^ 53 \<Longrightarrow>
    0 \<le> ha_gpu (fold (hist_add s cpu mem gpu vram) ts a) \<and>
    ha_gpu (fold (hist_add s cpu mem gpu vram) ts a) \<le> of_int (100 * ha_n (fold (hist_add s cpu mem gpu vram) ts a))"
proof (induction ts arbitrary: a)
  case (Cons t ts)
  let ?b = "hist_add s cpu mem gpu vram t a"
  have v: "0 \<le> v \<and> v \<le> 100" if "map_of gpu t = Some v" for v
    using assms map_of_SomeD [OF that] by blast
  have "0 \<le> ha_gpu ?b \<and> ha_gpu ?b \<le> of_int (100 * ha_n ?b) \<and> 0 \<le> ha_n ?b \<and> 100 * (ha_n ?b + int (length ts)) \<le> 2 ^ 53"
  proof (cases "map_of gpu t")
    case None
    then show ?thesis using Cons.prems by (simp add: hist_add_gpu)
  next
    case (Some w)
    then have "0 \<le> fadd (ha_gpu a) w \<and> fadd (ha_gpu a) w \<le> of_int (100 * (ha_n a + 1))"
      using Cons.prems v by (intro fadd_sample) auto
    then show ?thesis using Cons.prems Some by (simp add: hist_add_gpu)
  qed
  then show ?case using Cons.IH [of ?b] by simp
qed simp

lemma share_range:
  assumes "0 \<le> i" "i \<le> n" "0 < n" "n \<le> 2 ^ 53"
  shows "0 \<le> go_round (fmul (fdiv (fl i) (fl n)) 100) \<and> go_round (fmul (fdiv (fl i) (fl n)) 100) \<le> 100"
proof -
  have e: "fl n = of_int n" "fl i = of_int i" using assms by (auto intro!: fl_of_small)
  have "fl i / fl n \<le> of_int 1" using assms by (simp add: e divide_le_eq)
  then have d: "fdiv (fl i) (fl n) \<le> of_int 1" unfolding fdiv_def by (intro f64_le_of_int) simp_all
  have d0: "0 \<le> fdiv (fl i) (fl n)" unfolding fdiv_def using assms by (simp add: e)
  have "fmul (fdiv (fl i) (fl n)) 100 \<le> of_int 100" unfolding fmul_def using d by (intro f64_le_of_int) simp_all
  moreover have "0 \<le> fmul (fdiv (fl i) (fl n)) 100" unfolding fmul_def using d0 by simp
  ultimately show ?thesis by (rule go_round_range [rotated])
qed

text \<open>The samples lie in the window when Prometheus answers for the range it was asked for.\<close>

definition prom_in_range :: "prom_range \<Rightarrow> bool" where
  "prom_in_range pr \<longleftrightarrow> (\<forall>q st en step pts. pr q st en step = Some pts \<longrightarrow>
     (\<forall>(t, v) \<in> set pts. of_int (st div 1000000000) \<le> t \<and> t \<le> of_int (en div 1000000000)))"

lemma update_keys: "fst ` set (fold (\<lambda>(t, v). AList.update (trunc t) v) pts al) = trunc ` fst ` set pts \<union> fst ` set al"
  by (induction pts arbitrary: al) (auto simp: AList.dom_update simp flip: dom_map_of_conv_image_fst simp: AList.update_conv')

lemma range_map_window:
  assumes "prom_in_range pr" "t \<in> fst ` set (range_map pr q st en step)"
  shows "st div 1000000000 \<le> t \<and> t \<le> en div 1000000000"
proof -
  obtain pts where pts: "pr q st en step = Some pts" "t \<in> trunc ` fst ` set pts"
    using assms(2) by (cases "pr q st en step") (simp_all add: range_map_def update_keys)
  then obtain x v where x: "t = trunc x" "(x, v) \<in> set pts" by auto
  then have "of_int (st div 1000000000) \<le> x" "x \<le> of_int (en div 1000000000)" using assms(1) pts(1) by (fastforce simp: prom_in_range_def)+
  then show ?thesis using trunc_mono trunc_of_int x(1) by metis
qed

lemma hist_times_set: "set (hist_times ms) = (\<Union>m \<in> set ms. fst ` set m)"
  using sort_hist_sorts [of "remdups (concat (map (map fst) ms))"] by (auto simp: hist_times_def)

lemma hist_times_sorted: "sorted (hist_times ms)" "distinct (hist_times ms)"
  using sort_hist_sorts [of "remdups (concat (map (map fst) ms))"] by (simp_all add: hist_times_def)

lemma series_window:
  assumes "prom_in_range pr" "m \<in> set (hist_series pr s st en)" "t \<in> fst ` set m"
  shows "st div 1000000000 \<le> t \<and> t \<le> en div 1000000000"
proof -
  obtain q where "t \<in> fst ` set (range_map pr q st en (hist_step st en))"
    using assms(2,3) by (auto simp: hist_series_def Let_def image_image split: gpu_source.splits) (force simp: image_iff)+
  then show ?thesis by (rule range_map_window [OF assms(1)])
qed

lemma window_cut:
  assumes "hist_window now hours s = Some (st, en)"
  shows "st < en \<and> (\<forall>a. s_started s = Some a \<longrightarrow> a \<le> st) \<and> (\<forall>b. s_stopped_since s = Some b \<longrightarrow> en \<le> b) \<and> en \<le> now"
  using assms by (auto simp: hist_window_def Let_def split: option.splits if_splits)

lemma hist_fold_sound:
  assumes "100 * int (length (ha_points (hist_fold s ms))) \<le> 2 ^ 53"
  shows "acc_ok s (hist_fold s ms) \<and> map hp_t (ha_points (hist_fold s ms)) = hist_times ms"
proof -
  have t: "map hp_t (ha_points (hist_fold s ms)) = hist_times ms" by (simp add: hist_fold_def hist_fold_points)
  then have "length (hist_times ms) = length (ha_points (hist_fold s ms))" by (metis length_map)
  then have n: "100 * int (length (hist_times ms)) \<le> 2 ^ 53" using assms by simp
  have "acc_ok s (hist_fold s ms)"
    unfolding hist_fold_def by (rule hist_fold_ok) (use n in \<open>simp_all add: acc_ok_def sums_ok_def\<close>)
  with t show ?thesis by simp
qed

text \<open>The GPU samples a history averages.\<close>

definition gpu_samples :: "prom_range \<Rightarrow> time \<Rightarrow> int \<Rightarrow> session \<Rightarrow> (int \<times> rat) list" where
  "gpu_samples pr now hh s = (case hist_window now (hist_hours hh) s of None \<Rightarrow> [] | Some (st, en) \<Rightarrow> hist_series pr s st en ! 2)"

text \<open>C19: the history of a session that has a start time shows its own life only. When Prometheus answers within the
  range asked for, every point lies between the start of the session and the moment it was stopped, and the
  points are in strictly increasing order of time. For a session with positive CPU and memory limits every
  percentage of a point is between 0 and 100, and so are the averages of CPU and memory, the peaks and the idle
  share; the average of the GPU is when every GPU sample is, as its samples are not clamped.\<close>

theorem history_shows_own_life:
  assumes p: "prom_in_range pr" and a: "s_started s = Some a" and h: "history pr enabled now hh s = (pts, ins)"
    and n: "100 * int (length pts) \<le> 2 ^ 53" and lim: "0 < fl (s_cpu s)" "0 < fl (s_mem s * 1024)"
  shows "sorted_wrt (<) (map hp_t pts) \<and>
    (\<forall>x \<in> set pts. a div 1000000000 \<le> hp_t x \<and> (\<forall>b. s_stopped_since s = Some b \<longrightarrow> hp_t x \<le> b div 1000000000) \<and>
       {hp_cpu x, hp_mem x, hp_gpu x, hp_vram x} \<subseteq> {0..100}) \<and>
    {hi_avg_cpu ins, hi_avg_mem ins, hi_peak_gpu ins, hi_peak_vram ins, hi_idle ins} \<subseteq> {0..100} \<and>
    ((\<forall>(t, v) \<in> set (gpu_samples pr now hh s). 0 \<le> v \<and> v \<le> 100) \<longrightarrow> hi_avg_gpu ins \<in> {0..100})"
proof (cases "\<not> enabled \<or> ssh_env s \<or> hist_window now (hist_hours hh) s = None")
  case True
  then have "pts = [] \<and> ins = empty_insights (hist_hours hh) s" using h by (auto simp: history_def Let_def split: if_splits)
  then show ?thesis by (simp add: empty_insights_def)
next
  case False
  then obtain st en where w: "hist_window now (hist_hours hh) s = Some (st, en)" by auto
  let ?ms = "hist_series pr s st en" and ?acc = "hist_fold s (hist_series pr s st en)"
  have e: "pts = ha_points ?acc" "ins = insights (hist_hours hh) s ?acc" using h w False by (simp_all add: history_def Let_def)
  have ok: "acc_ok s ?acc" and t: "map hp_t pts = hist_times ?ms"
    using hist_fold_sound [of s ?ms] n e(1) by auto
  have "sorted_wrt (<) (map hp_t pts)" unfolding t using hist_times_sorted by (simp add: strict_sorted_iff)
  moreover have "a div 1000000000 \<le> hp_t x \<and> (\<forall>b. s_stopped_since s = Some b \<longrightarrow> hp_t x \<le> b div 1000000000)" if "x \<in> set pts" for x
  proof -
    have "hp_t x \<in> set (hist_times ?ms)" using that by (simp flip: t)
    then obtain m where "m \<in> set ?ms" "hp_t x \<in> fst ` set m" unfolding hist_times_set by blast
    then have "st div 1000000000 \<le> hp_t x \<and> hp_t x \<le> en div 1000000000" by (rule series_window [OF p])
    moreover have "a \<le> st" "\<And>b. s_stopped_since s = Some b \<Longrightarrow> en \<le> b" using window_cut [OF w] a by auto
    ultimately show ?thesis by (meson order_trans zdiv_mono1 zero_less_numeral)
  qed
  moreover have "{hp_cpu x, hp_mem x, hp_gpu x, hp_vram x} \<subseteq> {0..100}" if "x \<in> set pts" for x
    using ok that lim by (auto simp: acc_ok_def point_ok_def e(1))
  moreover have "{hi_avg_cpu ins, hi_avg_mem ins, hi_peak_gpu ins, hi_peak_vram ins, hi_idle ins} \<subseteq> {0..100}"
  proof -
    let ?n = "int (length (ha_points ?acc))"
    have sums: "0 \<le> ha_cpu ?acc" "ha_cpu ?acc \<le> of_int (100 * ?n)" "0 \<le> ha_mem ?acc" "ha_mem ?acc \<le> of_int (100 * ?n)"
      using ok lim by (auto simp: acc_ok_def sums_ok_def)
    have n': "100 * ?n \<le> 2 ^ 53" using n e(1) by simp
    have avg: "0 < ?n \<Longrightarrow> {go_round (fdiv (ha_cpu ?acc) (fl ?n)), go_round (fdiv (ha_mem ?acc) (fl ?n))} \<subseteq> {0..100}"
      using average_range [OF sums(1,2) _ n'] average_range [OF sums(3,4) _ n'] by auto
    have idle: "0 < ha_n ?acc \<Longrightarrow> go_round (fmul (fdiv (fl (ha_idle ?acc)) (fl (ha_n ?acc))) 100) \<in> {0..100}"
      using share_range [of "ha_idle ?acc" "ha_n ?acc"] ok n' by (auto simp: acc_ok_def)
    show ?thesis using avg idle ok unfolding e(2)
      by (auto simp: insights_def empty_insights_def acc_ok_def Let_def)
  qed
  moreover have "hi_avg_gpu ins \<in> {0..100}" if g: "\<forall>(t, v) \<in> set (gpu_samples pr now hh s). 0 \<le> v \<and> v \<le> 100"
  proof -
    have "length (hist_times ?ms) = length pts" using arg_cong [OF t, of length] by (simp add: e(1))
    then have len: "100 * int (length (hist_times ?ms)) \<le> 2 ^ 53" using n by simp
    have "\<forall>(t, v) \<in> set (?ms ! 2). 0 \<le> v \<and> v \<le> 100" using g by (simp add: gpu_samples_def w)
    then have "0 \<le> ha_gpu ?acc \<and> ha_gpu ?acc \<le> of_int (100 * ha_n ?acc)"
      unfolding hist_fold_def by (rule gpu_sum_range) (use len in simp_all)
    moreover have "100 * ha_n ?acc \<le> 2 ^ 53" using ok n e(1) by (simp add: acc_ok_def)
    ultimately have "0 < ha_n ?acc \<Longrightarrow> go_round (fdiv (ha_gpu ?acc) (fl (ha_n ?acc))) \<in> {0..100}"
      using average_range [of "ha_gpu ?acc" "ha_n ?acc"] by auto
    then show ?thesis unfolding e(2) by (auto simp: insights_def empty_insights_def Let_def)
  qed
  ultimately show ?thesis by blast
qed

section \<open>Anyone can watch a session\<close>

lemma only_rule_loop:
  assumes "nr_target r \<noteq> []" "ns_session sv" "ne_session e (nr_target r) (nr_metric r) = Some v"
  shows "fst (user_loop sv e [r] (credit_tick sv e [r] w)) = judge_user e r v w"
  using assms by (simp add: user_loop_def credit_tick_def user_rule_def team_credit_def)

text \<open>alert rules name any session. A user who saves a rule with the instance name of somebody else's running
  session receives that session's figures in the own inbox at the next tick; no step compares the owner.\<close>

theorem foreign_session_watched:
  assumes s: "session_of db i = Some s" "s_phase s = Running" "s_user s \<noteq> u" "i \<noteq> []"
    and v: "session_metric ok ue db i m = Some v" "0 \<le> v" and m: "m \<noteq> ''credit_balance''"
    and h: "notify_handle nok now u (PutUser (Some \<lparr>cf_rules = [\<lparr>nr_id = 0, nr_scope = [], nr_owner = 0, nr_metric = m, nr_op = ''gte'',
        nr_value = 0, nr_channel = ''email'', nr_enabled = True, nr_target = i\<rparr>], cf_emails = [], cf_webhooks = []\<rparr>)) w = (w1, True)"
    and sv: "ns_inbox sv" "ns_user sv" "ns_session sv" and e: "ne_session e = session_metric ok ue db" "\<And>x. ne_ok e x"
    and fresh: "nw_last w1 = (\<lambda>_. None)"
  shows "(user_severity m, m, v, 0, i, ne_now e) \<in> set (inbox_of u (user_tick sv e w1))"
proof -
  let ?r = "\<lparr>nr_id = nd_next (nw_db w), nr_scope = ''user'', nr_owner = u, nr_metric = m, nr_op = ''gte'',
        nr_value = 0, nr_channel = ''email'', nr_enabled = True, nr_target = i\<rparr>"
  let ?w1 = "only_rules_of u w1"
  have "nd_rules (nw_db w1) = filter (\<lambda>r. \<not> rule_of ''user'' u r) (nd_rules (nw_db w)) @ [?r]"
    using h by (auto simp: notify_handle_def replace_config_def insert_rule_def Let_def split: if_splits)
  moreover have "filter (\<lambda>r. nr_scope r = ''user'' \<and> nr_owner r = u) (filter (\<lambda>r. \<not> rule_of ''user'' u r) (nd_rules (nw_db w))) = []"
    by (rule filter_none) (simp add: rule_of_def)
  ultimately have "nd_rules (nw_db ?w1) = [?r]" by (simp add: only_rules_of_def del: filter_filter)
  then have "enabled_user_rules (ne_ok e) (nw_db ?w1) = Some [?r]" using e(2) by (simp add: enabled_user_rules_def)
  then have "user_tick sv e ?w1 = fst (user_loop sv e [?r] (credit_tick sv e [?r] ?w1))" by (rule user_tick_loop [OF sv(1,2)])
  also have "\<dots> = judge_user e ?r v ?w1" using s(4) sv(3) v(1) e(1) by (intro only_rule_loop) simp_all
  also have "\<dots> = fire e (UserAlert ?r v) (to_inbox e ?r v i (?w1\<lparr>nw_last := [rule_key ?r [] \<mapsto> ne_now e]\<rparr>))"
    using v(2) fresh by (simp add: judge_user_def breached_def cooling_def only_rules_of_def)
  finally have "(user_severity m, m, v, 0, i, ne_now e) \<in> set (inbox_of u (user_tick sv e ?w1))"
    using e(2) by (simp add: fire_def to_inbox_def record_note_def inbox_of_def note_content_def)
  then show ?thesis by (simp only: inbox_own_rules [of u sv e w1])
qed

section \<open>Sample figures\<close>

definition watched :: session where
  "watched = \<lparr>s_id = 1, s_instance = ''ses-1'', s_user = 7, s_group = None, s_name = ''a'', s_env = ''jupyter'', s_mode = ''timeslice'',
     s_offering = None, s_image = None, s_vram = 0, s_core = 0, s_cpu = 4, s_mem = 8, s_home = None, s_gpus = 1, s_gtype = [],
     s_node = ''n1'', s_ip = [], s_phase = Running, s_created = 0, s_price = 0, s_started = Some 60000000000, s_billed = 0,
     s_extensions = 0, s_stopped_secs = 0, s_storage_billed = 0, s_stopped_since = None, s_web_password = []\<rparr>"

definition busy_env :: usage_env where
  "busy_env = \<lparr>ue_enabled = True, ue_cpu = (\<lambda>_. Some 2), ue_mem = (\<lambda>_. Some 1048576), ue_node_util = (\<lambda>_. Some 90), ue_node_used = (\<lambda>_. None),
     ue_node_total = (\<lambda>_. None), ue_pod_util = (\<lambda>_. None), ue_pod_used = (\<lambda>_. None), ue_pod_limit = (\<lambda>_. None), ue_monitor = True\<rparr>"

theorem batch_gives_own_figures_witness:
  "\<exists>u. usage_of busy_env [watched, watched\<lparr>s_instance := ''ses-2'', s_mode := ''exclusive''\<rparr>] ''ses-1'' = Some u \<and> us_gpu u = None \<and>
     usage_of busy_env [watched] ''ses-1'' = Some u"
proof -
  let ?rows = "[watched, watched\<lparr>s_instance := ''ses-2'', s_mode := ''exclusive''\<rparr>]"
  have h: "distinct (map s_instance ?rows)" "watched \<in> set ?rows" by (simp_all add: watched_def)
  have i: "s_instance watched = ''ses-1''" "fst (gpu_source_of watched) = NoSource" by (simp_all add: watched_def gpu_source_of_def ssh_env_def)
  obtain u where "usage_of busy_env ?rows ''ses-1'' = Some u" using usage_of_ref [OF h, of busy_env] i by auto
  moreover note batch_gives_own_figures [OF h, of busy_env, unfolded i]
  ultimately show ?thesis by metis
qed

definition one_sample :: prom_range where
  "one_sample = (\<lambda>q st en step. case q of PodCpu _ \<Rightarrow> Some [(of_int (en div 1000000000), 2)] | _ \<Rightarrow> None)"

lemma one_sample_in_range:
  "prom_in_range (\<lambda>q st en step. if st \<le> en then one_sample q st en step else None)"
  by (auto simp: prom_in_range_def one_sample_def zdiv_mono1 split: if_splits hist_query.splits)

definition sampled :: "hist_point list \<times> hist_insights" where
  "sampled = history (\<lambda>q st en step. if st \<le> en then one_sample q st en step else None) True 120000000000 1 watched"

lemma hist_add_times: "map hp_t (ha_points (hist_add s cpu mem gpu vram t a)) = map hp_t (ha_points a) @ [t]"
  using hist_fold_points [of s cpu mem gpu vram "[t]" a] by simp

lemma sampled_times: "map hp_t (fst sampled) = [120]"
  by (simp add: sampled_def history_def hist_hours_def hist_window_def hour_ns_def ssh_env_def hist_fold_def hist_add_times hist_times_def
      sort_hist_def hist_series_def range_map_def one_sample_def gpu_source_of_def watched_def trunc_def Let_def)

theorem history_shows_own_life_witness:
  "\<exists>x. fst sampled = [x] \<and> 60 \<le> hp_t x \<and> hp_cpu x \<le> 100"
proof -
  obtain x where x: "fst sampled = [x]" using sampled_times by auto
  have h: "history (\<lambda>q st en step. if st \<le> en then one_sample q st en step else None) True 120000000000 1 watched = (fst sampled, snd sampled)"
    by (simp add: sampled_def)
  have a: "s_started watched = Some 60000000000" by (simp add: watched_def)
  have l: "0 < fl (s_cpu watched)" "0 < fl (s_mem watched * 1024)" by (simp_all add: watched_def fl_of_small)
  have n: "100 * int (length (fst sampled)) \<le> 2 ^ 53" by (simp add: x)
  have "60000000000 div 1000000000 \<le> hp_t x \<and> hp_cpu x \<in> {0..100}"
    using history_shows_own_life [OF one_sample_in_range a h n l] x by simp
  then show ?thesis using x by simp
qed

definition watch_rule :: notify_config where
  "watch_rule = \<lparr>cf_rules = [\<lparr>nr_id = 0, nr_scope = [], nr_owner = 0, nr_metric = ''session_cpu'', nr_op = ''gte'', nr_value = 0,
     nr_channel = ''email'', nr_enabled = True, nr_target = ''ses-1''\<rparr>], cf_emails = [], cf_webhooks = []\<rparr>"

definition watched_db :: session_db where
  "watched_db = \<lparr>sessions = [watched], svols = [], sdsets = [], usage = [], next_id = 2\<rparr>"

lemma watched_metric: "session_metric (\<lambda>_ _. True) busy_env watched_db ''ses-1'' ''session_cpu'' = Some (percent_of 2 4)"
proof -
  have "usage_of busy_env [watched] (s_instance watched) = Some (usage_ref busy_env watched)" by (rule usage_of_ref) simp_all
  then have "usage_of busy_env [watched] ''ses-1'' = Some (usage_ref busy_env watched)" by (simp add: watched_def)
  moreover have "us_cpu (usage_ref busy_env watched) = Some 2" "us_cpu_limit (usage_ref busy_env watched) = 4"
    by (simp_all add: usage_ref_def first_usage_def blank_usage_def watched_def busy_env_def ssh_env_def pod_fills_def fill_opt_def
        mark_unavailable_def Let_def)
  moreover have "get_by_instance (\<lambda>_ _. True) ''ses-1'' watched_db = Some watched" "s_phase watched = Running"
    by (simp_all add: get_by_instance_def session_of_def watched_db_def watched_def)
  ultimately show ?thesis by (simp add: session_metric_def)
qed

lemma watched_percent: "0 \<le> percent_of 2 4"
  by (simp add: percent_of_def fmul_def fdiv_def)

theorem foreign_session_watched_witness:
  "\<exists>w1. notify_handle (\<lambda>_. True) 0 9 (PutUser (Some watch_rule)) alert_world = (w1, True) \<and> s_user watched = 7 \<and>
     (''warn'', ''session_cpu'', percent_of 2 4, 0, ''ses-1'', 0) \<in>
       set (inbox_of 9 (user_tick alert_svc ((alert_env 0)\<lparr>ne_session := session_metric (\<lambda>_ _. True) busy_env watched_db\<rparr>) w1))"
proof -
  let ?e = "(alert_env 0)\<lparr>ne_session := session_metric (\<lambda>_ _. True) busy_env watched_db\<rparr>"
  obtain w1 where w1: "notify_handle (\<lambda>_. True) 0 9 (PutUser (Some watch_rule)) alert_world = (w1, True)" "nw_last w1 = (\<lambda>_. None)"
    by (simp add: notify_handle_def replace_config_def watch_rule_def insert_rule_def Let_def alert_world_def)
  have s: "session_of watched_db ''ses-1'' = Some watched" "s_phase watched = Running" "s_user watched \<noteq> 9" "''ses-1'' \<noteq> []"
    by (simp_all add: session_of_def watched_db_def watched_def)
  have "(user_severity ''session_cpu'', ''session_cpu'', percent_of 2 4, 0, ''ses-1'', ne_now ?e) \<in> set (inbox_of 9 (user_tick alert_svc ?e w1))"
    by (rule foreign_session_watched [OF s watched_metric watched_percent _ w1(1) [unfolded watch_rule_def] _ _ _ _ _ w1(2)])
      (simp_all add: alert_svc_def alert_env_def)
  then show ?thesis using w1(1) by (auto simp: user_severity_def alert_env_def watched_def)
qed

end
