(* ===== verification/Images.thy ===== *)
theory Images
  imports Datasets "HOL-Library.AList"
begin

text \<open>
  The image catalogue and its build pipeline (\<open>internal/image\<close>) with the jobs it runs
  (\<open>internal/k8s/build.go\<close>): guided builds, rebuilds, the reconciler that takes an image through building,
  vulnerability scan and signature, registration of external images, and the prefetching of images onto nodes.
  The cluster is the table of jobs, the table of prefetch pods and the set of signing keys, which the environment
  advances; every statement and every call to the cluster may fail (\<open>xe_ok\<close>, \<open>xe_call\<close>). Text is ASCII.
\<close>

section \<open>Tables\<close>

text \<open>The channels of an image are a JSON column, which may be missing or malformed.\<close>

datatype json = JNull | JBool bool | JNum rat | JStr string | JArr "json list" | JObj "(string \<times> json) list"

datatype raw_json = NoJson | BadJson string | Json json

record img_row =
  im_id :: int
  im_name :: string
  im_tag :: string
  im_base :: string
  im_docker :: string
  im_desc :: string
  im_channels :: raw_json
  im_tags :: raw_json
  im_gpu :: bool
  im_scan :: string
  im_signed :: bool
  im_status :: string

record prefetch_row =
  pf_image :: int
  pf_node :: string
  pf_status :: string

record img_db =
  xd_images :: "img_row list"
  xd_caches :: "prefetch_row list"
  xd_next :: int

datatype istmt = ICreate | ISave | IGet | IBuilding | IResult | IScan | ISigned | IStatus | IDelete
  | ICacheSet | ICacheDelete | ICacheRead

type_synonym img_oracle = "istmt \<Rightarrow> bool"

definition img_upd :: "int \<Rightarrow> (img_row \<Rightarrow> img_row) \<Rightarrow> img_db \<Rightarrow> img_db" where
  "img_upd i f db = db\<lparr>xd_images := upd_row im_id i f (xd_images db)\<rparr>"

definition img_create :: "img_oracle \<Rightarrow> img_row \<Rightarrow> img_db \<Rightarrow> img_db \<times> img_row option" where
  "img_create ok r db =
     (if ok ICreate
      then (let r' = r\<lparr>im_id := xd_next db\<rparr> in (db\<lparr>xd_images := xd_images db @ [r'], xd_next := xd_next db + 1\<rparr>, Some r'))
      else (db, None))"

text \<open>\<open>Save\<close> writes every column, and inserts the row when there is none of its id.\<close>

definition img_save :: "img_oracle \<Rightarrow> img_row \<Rightarrow> img_db \<Rightarrow> img_db \<times> bool" where
  "img_save ok r db =
     (if \<not> ok ISave then (db, False)
      else case row_of im_id (im_id r) (xd_images db) of
             Some _ \<Rightarrow> (img_upd (im_id r) (\<lambda>_. r) db, True)
           | None \<Rightarrow>
               (let r' = (if im_id r = 0 then r\<lparr>im_id := xd_next db\<rparr> else r)
                in (db\<lparr>xd_images := xd_images db @ [r'], xd_next := max (xd_next db) (im_id r' + 1)\<rparr>, True)))"

definition img_get :: "img_oracle \<Rightarrow> int \<Rightarrow> img_db \<Rightarrow> img_row option" where
  "img_get ok i db = (if ok IGet then row_of im_id i (xd_images db) else None)"

definition img_list :: "bool \<Rightarrow> img_db \<Rightarrow> img_row list" where
  "img_list active_only db = filter (\<lambda>r. active_only \<longrightarrow> im_status r = ''active'') (xd_images db)"

definition list_building :: "img_oracle \<Rightarrow> img_db \<Rightarrow> img_row list option" where
  "list_building ok db = (if ok IBuilding then Some (filter (\<lambda>r. im_status r = ''building'') (xd_images db)) else None)"

definition set_build_result :: "img_oracle \<Rightarrow> int \<Rightarrow> string \<Rightarrow> string \<Rightarrow> img_db \<Rightarrow> img_db" where
  "set_build_result ok i st scan db = (if ok IResult then img_upd i (\<lambda>r. r\<lparr>im_status := st, im_scan := scan\<rparr>) db else db)"

definition set_scan_status :: "img_oracle \<Rightarrow> int \<Rightarrow> string \<Rightarrow> img_db \<Rightarrow> img_db" where
  "set_scan_status ok i scan db = (if ok IScan then img_upd i (\<lambda>r. r\<lparr>im_scan := scan\<rparr>) db else db)"

definition set_signed :: "img_oracle \<Rightarrow> int \<Rightarrow> bool \<Rightarrow> img_db \<Rightarrow> img_db" where
  "set_signed ok i b db = (if ok ISigned then img_upd i (\<lambda>r. r\<lparr>im_signed := b\<rparr>) db else db)"

definition img_set_status :: "img_oracle \<Rightarrow> int \<Rightarrow> string \<Rightarrow> img_db \<Rightarrow> img_db \<times> bool" where
  "img_set_status ok i st db = (if ok IStatus then (img_upd i (\<lambda>r. r\<lparr>im_status := st\<rparr>) db, True) else (db, False))"

definition img_delete :: "img_oracle \<Rightarrow> int \<Rightarrow> img_db \<Rightarrow> img_db \<times> bool" where
  "img_delete ok i db = (if ok IDelete then (db\<lparr>xd_images := filter (\<lambda>r. im_id r \<noteq> i) (xd_images db)\<rparr>, True) else (db, False))"

definition pf_key :: "prefetch_row \<Rightarrow> int \<times> string" where
  "pf_key c = (pf_image c, pf_node c)"

definition img_cache_set :: "img_oracle \<Rightarrow> int \<Rightarrow> string \<Rightarrow> string \<Rightarrow> img_db \<Rightarrow> img_db \<times> bool" where
  "img_cache_set ok i node st db =
     (if \<not> ok ICacheSet then (db, False)
      else (db\<lparr>xd_caches := (case row_of pf_key (i, node) (xd_caches db) of
                 None \<Rightarrow> xd_caches db @ [\<lparr>pf_image = i, pf_node = node, pf_status = st\<rparr>]
               | Some _ \<Rightarrow> upd_row pf_key (i, node) (\<lambda>c. c\<lparr>pf_status := st\<rparr>) (xd_caches db))\<rparr>, True))"

definition img_cache_delete :: "img_oracle \<Rightarrow> int \<Rightarrow> string \<Rightarrow> img_db \<Rightarrow> img_db \<times> bool" where
  "img_cache_delete ok i node db =
     (if ok ICacheDelete then (db\<lparr>xd_caches := filter (\<lambda>c. pf_key c \<noteq> (i, node)) (xd_caches db)\<rparr>, True) else (db, False))"

definition cache_pulling :: "img_oracle \<Rightarrow> img_db \<Rightarrow> prefetch_row list" where
  "cache_pulling ok db = (if ok ICacheRead then filter (\<lambda>c. pf_status c = ''pulling'') (xd_caches db) else [])"

definition cached_nodes_map :: "img_oracle \<Rightarrow> img_db \<Rightarrow> int \<Rightarrow> string list" where
  "cached_nodes_map ok db i =
     (if ok ICacheRead then map pf_node (filter (\<lambda>c. pf_image c = i \<and> pf_status c = ''cached'') (xd_caches db)) else [])"

section \<open>The cluster\<close>

text \<open>A job is one container with its arguments, on the control-plane nodes; its build context is a config map.\<close>

record img_job =
  xj_container :: string
  xj_args :: "string list"
  xj_master :: bool
  xj_status :: job_status
  xj_log :: string

datatype pull_state = Unscheduled | Waiting string | Started | Ended

record img_pod =
  xp_image :: string
  xp_node :: string
  xp_state :: pull_state

record img_world =
  xw_db :: img_db
  xw_jobs :: "string \<Rightarrow> img_job option"
  xw_ctx :: "string \<Rightarrow> string option"
  xw_pods :: "string \<Rightarrow> img_pod option"
  xw_keys :: "string set"

datatype icall = XNamespace | XCtx string | XJob string | XDropJob string | XDropCtx string | XGetJob string
  | XSecret | XRole | XBinding | XPod string | XDropPod string | XGetPod string

record img_env =
  xe_ok :: img_oracle
  xe_call :: "icall \<Rightarrow> bool"

record img_svc =
  xv_cluster :: bool
  xv_ns :: string
  xv_registry :: string
  xv_cosign :: string

definition xw_upd :: "(img_db \<Rightarrow> img_db) \<Rightarrow> img_world \<Rightarrow> img_world" where
  "xw_upd f w = w\<lparr>xw_db := f (xw_db w)\<rparr>"

text \<open>Deleting ignores failures, and a job that is still there when the new one is created counts as created.\<close>

definition delete_build_job :: "img_svc \<Rightarrow> img_env \<Rightarrow> string \<Rightarrow> img_world \<Rightarrow> img_world" where
  "delete_build_job sv e n w =
     (if \<not> xv_cluster sv then w
      else (let w1 = (if xe_call e (XDropJob n) then w\<lparr>xw_jobs := (xw_jobs w)(n := None)\<rparr> else w)
            in if xe_call e (XDropCtx n) then w1\<lparr>xw_ctx := (xw_ctx w1)(n @ ''-ctx'' := None)\<rparr> else w1))"

definition create_job :: "img_env \<Rightarrow> string \<Rightarrow> string \<Rightarrow> string list \<Rightarrow> bool \<Rightarrow> img_world \<Rightarrow> img_world \<times> bool" where
  "create_job e n container args master w =
     (if \<not> xe_call e (XJob n) then (w, False)
      else case xw_jobs w n of Some _ \<Rightarrow> (w, True)
           | None \<Rightarrow>
               (w\<lparr>xw_jobs := (xw_jobs w)(n \<mapsto> \<lparr>xj_container = container, xj_args = args, xj_master = master,
                                              xj_status = JobRunning, xj_log = []\<rparr>)\<rparr>, True))"

definition kaniko_args :: "string \<Rightarrow> string \<Rightarrow> string list" where
  "kaniko_args registry ref =
     [''--dockerfile=/workspace/Dockerfile'', ''--context=dir:///workspace'', ''--destination='' @ ref, ''--cache=false''] @
     (if registry \<noteq> [] then [''--insecure-registry='' @ registry, ''--skip-tls-verify-registry='' @ registry] else [])"

definition run_build_job :: "img_svc \<Rightarrow> img_env \<Rightarrow> string \<Rightarrow> string \<Rightarrow> string \<Rightarrow> img_world \<Rightarrow> img_world \<times> bool" where
  "run_build_job sv e n ref docker w =
     (if \<not> xv_cluster sv \<or> \<not> xe_call e XNamespace then (w, False)
      else (let w1 = delete_build_job sv e n w
            in if \<not> xe_call e (XCtx n) then (w1, False)
               else (let w2 = (case xw_ctx w1 (n @ ''-ctx'') of Some _ \<Rightarrow> w1
                               | None \<Rightarrow> w1\<lparr>xw_ctx := (xw_ctx w1)(n @ ''-ctx'' \<mapsto> docker)\<rparr>)
                     in create_job e n ''gcr.io/kaniko-project/executor:latest'' (kaniko_args (xv_registry sv) ref) True w2)))"

definition scan_args :: "string \<Rightarrow> string \<Rightarrow> string list" where
  "scan_args registry ref =
     [''image'', ''--severity'', ''HIGH,CRITICAL'', ''--exit-code'', ''1'', ''--quiet'', ''--timeout'', ''10m'', ''--no-progress''] @
     (if registry \<noteq> [] then [''--insecure''] else []) @ [ref]"

definition run_scan_job :: "img_svc \<Rightarrow> img_env \<Rightarrow> string \<Rightarrow> string \<Rightarrow> img_world \<Rightarrow> img_world \<times> bool" where
  "run_scan_job sv e n ref w =
     (if \<not> xv_cluster sv \<or> \<not> xe_call e XNamespace then (w, False)
      else create_job e n ''aquasec/trivy:latest'' (scan_args (xv_registry sv) ref) True (delete_build_job sv e n w))"

definition sign_args :: "string \<Rightarrow> string \<Rightarrow> string list" where
  "sign_args registry ref =
     [''sign'', ''--key'', ''/keys/cosign.key'', ''--yes'', ''--tlog-upload=false''] @
     (if registry \<noteq> [] then [''--allow-insecure-registry'', ''--allow-http-registry''] else []) @ [ref]"

definition run_sign_job :: "img_svc \<Rightarrow> img_env \<Rightarrow> string \<Rightarrow> string \<Rightarrow> img_world \<Rightarrow> img_world \<times> bool" where
  "run_sign_job sv e n ref w =
     (if \<not> xv_cluster sv \<or> \<not> xe_call e XNamespace then (w, False)
      else create_job e n ''gcr.io/projectsigstore/cosign:v2.2.4'' (sign_args (xv_registry sv) ref) True (delete_build_job sv e n w))"

definition keygen_name :: "string \<Rightarrow> string" where "keygen_name secret = ''cosign-keygen-'' @ secret"

text \<open>The signing key: \<open>Some True\<close> when it is there, \<open>Some False\<close> while a job makes it, \<open>None\<close> on an error.\<close>

definition ensure_cosign_key :: "img_svc \<Rightarrow> img_env \<Rightarrow> string \<Rightarrow> img_world \<Rightarrow> img_world \<times> bool option" where
  "ensure_cosign_key sv e secret w =
     (if \<not> xv_cluster sv \<or> \<not> xe_call e XNamespace \<or> \<not> xe_call e XSecret then (w, None)
      else if secret \<in> xw_keys w then (w, Some True)
      else if \<not> xe_call e XRole \<or> \<not> xe_call e XBinding then (w, None)
      else case create_job e (keygen_name secret) ''gcr.io/projectsigstore/cosign:v2.2.4''
                  [''generate-key-pair'', ''k8s://'' @ xv_ns sv @ ''/'' @ secret] False w of
             (w', ok) \<Rightarrow> (w', if ok then Some False else None))"

definition img_job_status :: "img_svc \<Rightarrow> img_env \<Rightarrow> string \<Rightarrow> img_world \<Rightarrow> job_status option" where
  "img_job_status sv e n w =
     (if \<not> xv_cluster sv \<or> \<not> xe_call e (XGetJob n) then None
      else Some (case xw_jobs w n of None \<Rightarrow> JobFailed | Some j \<Rightarrow> xj_status j))"

definition img_build_logs :: "img_svc \<Rightarrow> string \<Rightarrow> img_world \<Rightarrow> string" where
  "img_build_logs sv n w = (if \<not> xv_cluster sv then [] else case xw_jobs w n of None \<Rightarrow> [] | Some j \<Rightarrow> xj_log j)"

definition ensure_prefetch_pod :: "img_svc \<Rightarrow> img_env \<Rightarrow> string \<Rightarrow> string \<Rightarrow> string \<Rightarrow> img_world \<Rightarrow> img_world \<times> bool" where
  "ensure_prefetch_pod sv e n node ref w =
     (if \<not> xv_cluster sv \<or> \<not> xe_call e XNamespace then (w, False)
      else (let w1 = (if xe_call e (XDropPod n) then w\<lparr>xw_pods := (xw_pods w)(n := None)\<rparr> else w)
            in if \<not> xe_call e (XPod n) then (w1, False)
               else case xw_pods w1 n of Some _ \<Rightarrow> (w1, True)
                    | None \<Rightarrow> (w1\<lparr>xw_pods := (xw_pods w1)(n \<mapsto> \<lparr>xp_image = ref, xp_node = node, xp_state = Unscheduled\<rparr>)\<rparr>, True)))"

definition prefetch_status :: "img_svc \<Rightarrow> img_env \<Rightarrow> string \<Rightarrow> img_world \<Rightarrow> string" where
  "prefetch_status sv e n w =
     (if \<not> xv_cluster sv \<or> \<not> xe_call e (XGetPod n) then ''pulling''
      else case xw_pods w n of None \<Rightarrow> ''pulling''
           | Some p \<Rightarrow>
               (case xp_state p of
                  Waiting r \<Rightarrow> if r = ''ImagePullBackOff'' \<or> r = ''ErrImagePull'' then ''failed'' else ''pulling''
                | Started \<Rightarrow> ''cached''
                | Ended \<Rightarrow> ''cached''
                | Unscheduled \<Rightarrow> ''pulling''))"

definition delete_prefetch_pod :: "img_svc \<Rightarrow> img_env \<Rightarrow> string \<Rightarrow> img_world \<Rightarrow> img_world" where
  "delete_prefetch_pod sv e n w =
     (if xv_cluster sv \<and> xe_call e (XDropPod n) then w\<lparr>xw_pods := (xw_pods w)(n := None)\<rparr> else w)"

section \<open>Text\<close>

definition lower_char :: "char \<Rightarrow> char" where
  "lower_char c = (if 65 \<le> (of_char c :: nat) \<and> (of_char c :: nat) \<le> 90 then char_of ((of_char c :: nat) + 32) else c)"

definition port_char :: "char \<Rightarrow> bool" where
  "port_char c \<longleftrightarrow> 97 \<le> (of_char c :: nat) \<and> (of_char c :: nat) \<le> 122 \<or> is_digit c \<or> c = CHR ''-''"

definition trim_dashes :: "string \<Rightarrow> string" where
  "trim_dashes s = rev (dropWhile (\<lambda>c. c = CHR ''-'') (rev (dropWhile (\<lambda>c. c = CHR ''-'') s)))"

definition sanitize_port_name :: "string \<Rightarrow> string" where
  "sanitize_port_name s =
     (let out = trim_dashes (filter port_char (map lower_char (trim_space s)))
      in if 15 < length out then trim_dashes (take 15 out) else out)"

text \<open>The web channel an image declares: its port is a JSON number cut to an integer.\<close>

definition json_object :: "json option \<Rightarrow> (string \<times> json) list option" where
  "json_object j = (case j of Some (JObj ob) \<Rightarrow> Some ob | _ \<Rightarrow> None)"

definition json_port :: "json option \<Rightarrow> int" where
  "json_port j = (case j of Some (JNum x) \<Rightarrow> trunc x | _ \<Rightarrow> 0)"

definition json_name :: "json option \<Rightarrow> string" where
  "json_name j = (case j of Some (JStr s) \<Rightarrow> s | _ \<Rightarrow> [])"

definition normalize_channels :: "raw_json \<Rightarrow> raw_json option" where
  "normalize_channels raw =
     (case raw of Json (JObj m) \<Rightarrow>
        (case json_object (map_of m ''web'') of None \<Rightarrow> Some raw
         | Some web \<Rightarrow>
             if json_port (map_of web ''port'') \<le> 0 then None
             else (let name = or_default (sanitize_port_name (json_name (map_of web ''name''))) ''web''
                   in Some (Json (JObj (AList.update ''web'' (JObj (AList.update ''name'' (JStr name) web)) m)))))
      | _ \<Rightarrow> Some raw)"

text \<open>\<open>splitRef\<close>: a colon is a tag's only behind the last slash.\<close>

definition last_index :: "char \<Rightarrow> string \<Rightarrow> int" where
  "last_index c s = int (length s) - 1 - int (length (takeWhile (\<lambda>x. x \<noteq> c) (rev s)))"

definition split_ref :: "string \<Rightarrow> string \<times> string" where
  "split_ref ref =
     (let slash = last_index (CHR ''/'') ref; colon = last_index (CHR '':'') ref
      in if slash < colon then (take (nat colon) ref, drop (nat colon + 1) ref) else (ref, ''latest''))"

definition pkg_sep :: "char \<Rightarrow> bool" where
  "pkg_sep c \<longleftrightarrow> c \<in> set [CHR '' '', CHR '','', CHR 0x0A, CHR 0x09, CHR 0x0D]"

definition pkgs :: "string \<Rightarrow> string list" where
  "pkgs s = filter (\<lambda>f. f \<noteq> []) (split_when pkg_sep s)"

fun with_spaces :: "string list \<Rightarrow> string" where
  "with_spaces [] = []"
| "with_spaces [x] = x"
| "with_spaces (x # xs) = x @ '' '' @ with_spaces xs"

definition gen_dockerfile :: "string \<Rightarrow> string \<Rightarrow> string \<Rightarrow> string" where
  "gen_dockerfile base apt pip =
     ''FROM '' @ base @ [CHR 0x0A] @
     (if pkgs apt \<noteq> []
      then ''RUN apt-get update && apt-get install -y --no-install-recommends '' @ with_spaces (pkgs apt) @
           '' && rm -rf /var/lib/apt/lists/*'' @ [CHR 0x0A] else []) @
     (if pkgs pip \<noteq> [] then ''RUN pip install --no-cache-dir '' @ with_spaces (pkgs pip) @ [CHR 0x0A] else [])"

definition bump_tag :: "string \<Rightarrow> string" where
  "bump_tag t = (case parse_int64 t of None \<Rightarrow> ''1'' | Some n \<Rightarrow> dec (wrap64 (n + 1)))"

definition prefetch_name :: "int \<Rightarrow> string \<Rightarrow> string" where
  "prefetch_name i node =
     ''prefetch-'' @ dec i @ ''-'' @ map (\<lambda>c. if port_char c then c else CHR ''-'') node"

definition build_name :: "int \<Rightarrow> string" where "build_name i = ''build-'' @ dec i"
definition scan_name :: "int \<Rightarrow> string" where "scan_name i = ''scan-'' @ dec i"
definition sign_name :: "int \<Rightarrow> string" where "sign_name i = ''sign-'' @ dec i"

definition img_ref :: "img_row \<Rightarrow> string" where
  "img_ref r = im_name r @ '':'' @ im_tag r"

section \<open>The service\<close>

datatype img_error = BuildOff | NotBuildable | NoImage | BadRef | BadPort | ImgBody | ImgDb | ImgCluster

record build_req =
  br_name :: string
  br_desc :: string
  br_base :: string
  br_apt :: string
  br_pip :: string
  br_channels :: raw_json
  br_gpu :: bool

record external_req =
  xr_ref :: string
  xr_desc :: string
  xr_channels :: raw_json
  xr_gpu :: bool

definition launch :: "img_svc \<Rightarrow> img_env \<Rightarrow> img_row \<Rightarrow> img_world \<Rightarrow> img_world \<times> img_error option" where
  "launch sv e r w =
     (case run_build_job sv e (build_name (im_id r)) (img_ref r) (im_docker r) w of (w', ok) \<Rightarrow> (w', if ok then None else Some ImgCluster))"

definition new_build :: "img_svc \<Rightarrow> build_req \<Rightarrow> img_row" where
  "new_build sv q =
     \<lparr>im_id = 0, im_name = xv_registry sv @ ''/'' @ br_name q, im_tag = ''1'', im_base = br_base q,
      im_docker = gen_dockerfile (br_base q) (br_apt q) (br_pip q), im_desc = trim_space (br_desc q), im_channels = br_channels q,
      im_tags = NoJson, im_gpu = br_gpu q, im_scan = ''building'', im_signed = False, im_status = ''building''\<rparr>"

definition build_image :: "img_svc \<Rightarrow> img_env \<Rightarrow> build_req \<Rightarrow> img_world \<Rightarrow> img_world \<times> img_error option" where
  "build_image sv e q w =
     (if xv_registry sv = [] then (w, Some BuildOff)
      else case img_create (xe_ok e) (new_build sv q) (xw_db w) of
             (db, None) \<Rightarrow> (w\<lparr>xw_db := db\<rparr>, Some ImgDb)
           | (db, Some r) \<Rightarrow> launch sv e r (w\<lparr>xw_db := db\<rparr>))"

definition rebuild_image :: "img_svc \<Rightarrow> img_env \<Rightarrow> int \<Rightarrow> img_world \<Rightarrow> img_world \<times> img_error option" where
  "rebuild_image sv e i w =
     (if xv_registry sv = [] then (w, Some BuildOff)
      else case img_get (xe_ok e) i (xw_db w) of None \<Rightarrow> (w, Some NoImage)
           | Some r \<Rightarrow>
               if trim_space (im_docker r) = [] then (w, Some NotBuildable)
               else (let r' = r\<lparr>im_tag := bump_tag (im_tag r), im_scan := ''building'', im_status := ''building''\<rparr>
                     in case img_save (xe_ok e) r' (xw_db w) of
                          (db, False) \<Rightarrow> (w\<lparr>xw_db := db\<rparr>, Some ImgDb)
                        | (db, True) \<Rightarrow> launch sv e r' (w\<lparr>xw_db := db\<rparr>)))"

definition register_external :: "img_env \<Rightarrow> external_req \<Rightarrow> img_world \<Rightarrow> img_world \<times> img_error option" where
  "register_external e q w =
     (case split_ref (trim_space (xr_ref q)) of (name, tag) \<Rightarrow>
        if name = [] then (w, Some BadRef)
        else case normalize_channels (xr_channels q) of None \<Rightarrow> (w, Some BadPort)
             | Some ch \<Rightarrow>
                 (case img_create (xe_ok e)
                         \<lparr>im_id = 0, im_name = name, im_tag = tag, im_base = xr_ref q, im_docker = [], im_desc = trim_space (xr_desc q),
                          im_channels = ch, im_tags = NoJson, im_gpu = xr_gpu q, im_scan = ''pass'', im_signed = False,
                          im_status = ''active''\<rparr> (xw_db w) of
                    (db, r) \<Rightarrow> (w\<lparr>xw_db := db\<rparr>, if r = None then Some ImgDb else None)))"

definition cache_on_node :: "img_svc \<Rightarrow> img_env \<Rightarrow> int \<Rightarrow> string \<Rightarrow> img_world \<Rightarrow> img_world \<times> img_error option" where
  "cache_on_node sv e i node w =
     (case img_get (xe_ok e) i (xw_db w) of None \<Rightarrow> (w, Some NoImage)
      | Some r \<Rightarrow>
          (case ensure_prefetch_pod sv e (prefetch_name i node) node (img_ref r) w of
             (w1, False) \<Rightarrow> (w1, Some ImgCluster)
           | (w1, True) \<Rightarrow>
               (case img_cache_set (xe_ok e) i node ''pulling'' (xw_db w1) of
                  (db, b) \<Rightarrow> (w1\<lparr>xw_db := db\<rparr>, if b then None else Some ImgDb))))"

definition uncache_node :: "img_svc \<Rightarrow> img_env \<Rightarrow> int \<Rightarrow> string \<Rightarrow> img_world \<Rightarrow> img_world \<times> img_error option" where
  "uncache_node sv e i node w =
     (let w1 = delete_prefetch_pod sv e (prefetch_name i node) w
      in case img_cache_delete (xe_ok e) i node (xw_db w1) of (db, b) \<Rightarrow> (w1\<lparr>xw_db := db\<rparr>, if b then None else Some ImgDb))"

definition image_logs :: "img_svc \<Rightarrow> int \<Rightarrow> img_world \<Rightarrow> string" where
  "image_logs sv i w =
     (if trim_space (img_build_logs sv (scan_name i) w) \<noteq> [] then img_build_logs sv (scan_name i) w
      else if trim_space (img_build_logs sv (build_name i) w) \<noteq> [] then img_build_logs sv (build_name i) w
      else [])"

definition reconcile_prefetch :: "img_svc \<Rightarrow> img_env \<Rightarrow> prefetch_row \<Rightarrow> img_world \<Rightarrow> img_world" where
  "reconcile_prefetch sv e c w =
     (let n = prefetch_name (pf_image c) (pf_node c); st = prefetch_status sv e n w
      in if st = ''pulling'' then w
         else delete_prefetch_pod sv e n (xw_upd (\<lambda>db. fst (img_cache_set (xe_ok e) (pf_image c) (pf_node c) st db)) w))"

text \<open>The four stages of an image in the pipeline, chosen by its scan status.\<close>

definition scan_stage :: "img_svc \<Rightarrow> img_env \<Rightarrow> int \<Rightarrow> img_world \<Rightarrow> img_world" where
  "scan_stage sv e i w =
     (case img_job_status sv e (scan_name i) w of
        Some JobFailed \<Rightarrow> xw_upd (set_build_result (xe_ok e) i ''draft'' ''high'') w
      | Some JobSucceeded \<Rightarrow>
          (let w1 = delete_build_job sv e (scan_name i) w
           in if xv_cosign sv \<noteq> [] then xw_upd (set_scan_status (xe_ok e) i ''signpending'') w1
              else xw_upd (set_build_result (xe_ok e) i ''draft'' ''pass'') w1)
      | _ \<Rightarrow> w)"

definition key_stage :: "img_svc \<Rightarrow> img_env \<Rightarrow> int \<Rightarrow> string \<Rightarrow> img_world \<Rightarrow> img_world" where
  "key_stage sv e i ref w =
     (case ensure_cosign_key sv e (xv_cosign sv) w of
        (w1, Some True) \<Rightarrow> xw_upd (set_scan_status (xe_ok e) i ''signing'') (fst (run_sign_job sv e (sign_name i) ref w1))
      | (w1, _) \<Rightarrow> w1)"

definition sign_stage :: "img_svc \<Rightarrow> img_env \<Rightarrow> int \<Rightarrow> img_world \<Rightarrow> img_world" where
  "sign_stage sv e i w =
     (case img_job_status sv e (sign_name i) w of
        Some JobFailed \<Rightarrow> xw_upd (set_build_result (xe_ok e) i ''draft'' ''pass'') (delete_build_job sv e (sign_name i) w)
      | Some JobSucceeded \<Rightarrow>
          xw_upd (set_build_result (xe_ok e) i ''draft'' ''pass'')
            (xw_upd (set_signed (xe_ok e) i True) (delete_build_job sv e (sign_name i) w))
      | _ \<Rightarrow> w)"

definition build_stage :: "img_svc \<Rightarrow> img_env \<Rightarrow> int \<Rightarrow> string \<Rightarrow> img_world \<Rightarrow> img_world" where
  "build_stage sv e i ref w =
     (case img_job_status sv e (build_name i) w of
        Some JobFailed \<Rightarrow> xw_upd (set_build_result (xe_ok e) i ''failed'' ''fail'') w
      | Some JobSucceeded \<Rightarrow>
          xw_upd (set_scan_status (xe_ok e) i ''scanning'')
            (fst (run_scan_job sv e (scan_name i) ref (delete_build_job sv e (build_name i) w)))
      | _ \<Rightarrow> w)"

definition reconcile_image :: "img_svc \<Rightarrow> img_env \<Rightarrow> img_row \<Rightarrow> img_world \<Rightarrow> img_world" where
  "reconcile_image sv e r w =
     (if im_scan r = ''scanning'' then scan_stage sv e (im_id r) w
      else if im_scan r = ''signpending'' then key_stage sv e (im_id r) (img_ref r) w
      else if im_scan r = ''signing'' then sign_stage sv e (im_id r) w
      else build_stage sv e (im_id r) (img_ref r) w)"

definition img_reconcile_once :: "img_svc \<Rightarrow> img_env \<Rightarrow> img_world \<Rightarrow> img_world" where
  "img_reconcile_once sv e w =
     (let w1 = fold (reconcile_prefetch sv e) (cache_pulling (xe_ok e) (xw_db w)) w
      in case list_building (xe_ok e) (xw_db w1) of None \<Rightarrow> w1 | Some rs \<Rightarrow> fold (reconcile_image sv e) rs w1)"

text \<open>The requests, all of them but the list for platform administrators.\<close>

datatype img_op =
    BuildImage "build_req option"
  | RegisterExternal "external_req option"
  | SaveImage string "img_row option"
  | RebuildImage string
  | SetImageStatus string "string option"
  | CacheOn string "string option"
  | CacheOff string string
  | DeleteImage string

definition img_handle :: "img_svc \<Rightarrow> img_env \<Rightarrow> img_op \<Rightarrow> img_world \<Rightarrow> img_world \<times> img_error option" where
  "img_handle sv e op w =
     (let stored = (\<lambda>(db, b). (w\<lparr>xw_db := db\<rparr>, if b then None else Some ImgDb))
      in case op of
        BuildImage b \<Rightarrow>
          (case b of None \<Rightarrow> (w, Some ImgBody)
           | Some q \<Rightarrow> if br_name q = [] \<or> br_base q = [] then (w, Some ImgBody) else build_image sv e q w)
      | RegisterExternal b \<Rightarrow>
          (case b of None \<Rightarrow> (w, Some ImgBody) | Some q \<Rightarrow> if xr_ref q = [] then (w, Some ImgBody) else register_external e q w)
      | SaveImage i b \<Rightarrow>
          (case b of None \<Rightarrow> (w, Some ImgBody) | Some r \<Rightarrow> stored (img_save (xe_ok e) (r\<lparr>im_id := parse_id i\<rparr>) (xw_db w)))
      | RebuildImage i \<Rightarrow> rebuild_image sv e (parse_id i) w
      | SetImageStatus i b \<Rightarrow>
          (case b of None \<Rightarrow> (w, Some ImgBody)
           | Some st \<Rightarrow> if st = [] then (w, Some ImgBody) else stored (img_set_status (xe_ok e) (parse_id i) st (xw_db w)))
      | CacheOn i b \<Rightarrow>
          (case b of None \<Rightarrow> (w, Some ImgBody) | Some n \<Rightarrow> if n = [] then (w, Some ImgBody) else cache_on_node sv e (parse_id i) n w)
      | CacheOff i n \<Rightarrow> if n = [] then (w, Some ImgBody) else uncache_node sv e (parse_id i) n w
      | DeleteImage i \<Rightarrow> stored (img_delete (xe_ok e) (parse_id i) (xw_db w)))"

definition img_list_request :: "img_env \<Rightarrow> string \<Rightarrow> img_world \<Rightarrow> (img_row \<times> string list) list" where
  "img_list_request e active w =
     map (\<lambda>r. (r, cached_nodes_map (xe_ok e) (xw_db w) (im_id r))) (img_list (active = ''true'') (xw_db w))"

end
