(* ===== verification/Image_Pipeline.thy ===== *)
theory Image_Pipeline
  imports Images
begin

text \<open>
  Properties of the image catalogue: what the pipeline makes of an image once its jobs are done, whatever other
  images are in the pipeline; what a rebuild keeps; the names of web ports and the references of external images;
  and the prefetching of images onto nodes.
\<close>

section \<open>The pipeline of one image\<close>

text \<open>What the reconciler reads and writes for image \<open>i\<close>, with the ids of all images and the signing keys.\<close>

definition img_view :: "int \<Rightarrow> img_world \<Rightarrow> _" where
  "img_view i w = (row_of im_id i (xd_images (xw_db w)), map im_id (xd_images (xw_db w)), xw_jobs w (build_name i),
     xw_jobs w (scan_name i), xw_jobs w (sign_name i), xw_keys w)"

lemma job_names [simp]:
  "build_name i = build_name j \<longleftrightarrow> i = j" "scan_name i = scan_name j \<longleftrightarrow> i = j" "sign_name i = sign_name j \<longleftrightarrow> i = j"
  "build_name i \<noteq> scan_name j" "build_name i \<noteq> sign_name j" "scan_name i \<noteq> sign_name j"
  "scan_name i \<noteq> build_name j" "sign_name i \<noteq> build_name j" "sign_name i \<noteq> scan_name j"
  "keygen_name s \<noteq> build_name i" "keygen_name s \<noteq> scan_name i" "keygen_name s \<noteq> sign_name i"
  by (simp_all add: build_name_def scan_name_def sign_name_def keygen_name_def)

lemma img_view_upd [simp]:
  "(\<And>r. im_id (f r) = im_id r) \<Longrightarrow> k \<noteq> i \<Longrightarrow> img_view i (xw_upd (img_upd k f) w) = img_view i w"
  by (simp add: img_view_def xw_upd_def img_upd_def row_of_upd_row keys_upd_row)

lemma img_view_db [simp]:
  assumes "k \<noteq> i"
  shows "img_view i (xw_upd (set_build_result ok k st sc) w) = img_view i w"
    and "img_view i (xw_upd (set_scan_status ok k sc) w) = img_view i w"
    and "img_view i (xw_upd (set_signed ok k b) w) = img_view i w"
  using assms by (simp_all add: set_build_result_def set_scan_status_def set_signed_def xw_upd_def)
   (simp_all add: img_view_def img_upd_def row_of_upd_row keys_upd_row)

lemma img_view_jobs:
  assumes "n \<noteq> build_name i" "n \<noteq> scan_name i" "n \<noteq> sign_name i"
  shows "img_view i (delete_build_job sv e n w) = img_view i w"
    and "img_view i (fst (create_job e n c args m w)) = img_view i w"
  using assms by (auto simp: img_view_def delete_build_job_def create_job_def Let_def split: option.split)

lemma img_view_runs:
  assumes "n \<noteq> build_name i" "n \<noteq> scan_name i" "n \<noteq> sign_name i"
  shows "img_view i (fst (run_scan_job sv e n ref w)) = img_view i w"
    and "img_view i (fst (run_sign_job sv e n ref w)) = img_view i w"
  using assms by (simp_all add: run_scan_job_def run_sign_job_def img_view_jobs)

lemma img_view_keygen:
  "img_view i (fst (create_job e (keygen_name k) c args m w)) = img_view i w"
  by (rule img_view_jobs) simp_all

lemma img_view_key: "img_view i (fst (ensure_cosign_key sv e k w)) = img_view i w"
  unfolding ensure_cosign_key_def using img_view_keygen [of i e k] by (simp split: prod.split) (metis fst_conv)

lemma img_view_stages:
  assumes "k \<noteq> i"
  shows "img_view i (scan_stage sv e k w) = img_view i w" (is ?scan)
    and "img_view i (key_stage sv e k ref w) = img_view i w" (is ?key)
    and "img_view i (sign_stage sv e k w) = img_view i w" (is ?sign)
    and "img_view i (build_stage sv e k ref w) = img_view i w" (is ?build)
proof -
  show ?scan using assms by (simp add: scan_stage_def Let_def img_view_jobs split: option.split job_status.split)
  show ?sign using assms by (simp add: sign_stage_def img_view_jobs split: option.split job_status.split)
  show ?build using assms by (simp add: build_stage_def img_view_jobs img_view_runs split: option.split job_status.split)
  obtain w1 x where k: "ensure_cosign_key sv e (xv_cosign sv) w = (w1, x)" by fastforce
  then have "img_view i w1 = img_view i w" using img_view_key [of i sv e "xv_cosign sv" w] by simp
  then show ?key using assms k by (simp add: key_stage_def img_view_runs split: option.split bool.split)
qed

lemma img_view_other: "im_id r \<noteq> i \<Longrightarrow> img_view i (reconcile_image sv e r w) = img_view i w"
  by (simp add: reconcile_image_def img_view_stages)

lemma img_view_prefetch: "img_view i (reconcile_prefetch sv e c w) = img_view i w"
  by (simp add: reconcile_prefetch_def Let_def img_view_def delete_prefetch_pod_def xw_upd_def img_cache_set_def)

lemma img_view_prefetches: "img_view i (fold (reconcile_prefetch sv e) cs w) = img_view i w"
  by (induction cs arbitrary: w) (simp_all add: img_view_prefetch)

lemma img_view_others:
  "\<forall>r \<in> set rs. im_id r \<noteq> i \<Longrightarrow> img_view i (fold (reconcile_image sv e) rs w) = img_view i w"
  by (induction rs arbitrary: w) (simp_all add: img_view_other)

text \<open>A tick acts on the view of \<open>i\<close> like the step of its own row, if that row is in the pipeline.\<close>

lemma fold_own_step:
  assumes "distinct (map im_id rs)" "r \<in> set rs"
  obtains v where "img_view (im_id r) v = img_view (im_id r) w"
    "img_view (im_id r) (fold (reconcile_image sv e) rs w) = img_view (im_id r) (reconcile_image sv e r v)"
proof -
  obtain xs ys where rs: "rs = xs @ r # ys" using assms(2) by (meson split_list)
  have "\<forall>x \<in> set xs. im_id x \<noteq> im_id r" "\<forall>x \<in> set ys. im_id x \<noteq> im_id r" using assms(1) rs by (auto simp: image_iff eq_commute)
  then show thesis
    by (intro that [of "fold (reconcile_image sv e) xs w"]) (simp_all add: rs img_view_others)
qed

lemma tick_view:
  assumes ok: "\<And>s. xe_ok e s" and view: "img_view i w = (Some r, ids, b, s, g, ks)" and d: "distinct ids"
  shows "if im_status r = ''building''
    then \<exists>v. img_view i v = img_view i w \<and> img_view i (img_reconcile_once sv e w) = img_view i (reconcile_image sv e r v)
    else img_view i (img_reconcile_once sv e w) = img_view i w"
proof -
  let ?w1 = "fold (reconcile_prefetch sv e) (cache_pulling (xe_ok e) (xw_db w)) w"
  let ?rs = "filter (\<lambda>r. im_status r = ''building'') (xd_images (xw_db ?w1))"
  have v1: "img_view i ?w1 = img_view i w" by (rule img_view_prefetches)
  have row: "row_of im_id i (xd_images (xw_db ?w1)) = Some r" and ids: "map im_id (xd_images (xw_db ?w1)) = ids"
    using v1 view by (simp_all add: img_view_def)
  have i: "im_id r = i" and mem: "r \<in> set (xd_images (xw_db ?w1))" using row_of_Some [OF row] by auto
  have ds: "distinct (map im_id ?rs)" using d ids by (metis distinct_map_filter)
  have tick: "img_reconcile_once sv e w = fold (reconcile_image sv e) ?rs ?w1"
    by (simp add: img_reconcile_once_def list_building_def ok Let_def)
  show ?thesis
  proof (cases "im_status r = ''building''")
    case True
    then have "r \<in> set ?rs" using mem by simp
    from fold_own_step [OF ds this, of ?w1 sv e] obtain v where
      "img_view i v = img_view i ?w1" "img_view i (fold (reconcile_image sv e) ?rs ?w1) = img_view i (reconcile_image sv e r v)"
      unfolding i .
    then show ?thesis using True tick v1 by auto
  next
    case False
    have "im_id x \<noteq> i" if "x \<in> set ?rs" for x
    proof
      assume "im_id x = i"
      then have "x = r" using that mem i d ids by (auto simp: distinct_map inj_on_def)
      then show False using that False by simp
    qed
    then have "img_view i (fold (reconcile_image sv e) ?rs ?w1) = img_view i ?w1" by (intro img_view_others) blast
    then show ?thesis using False tick v1 by simp
  qed
qed

text \<open>Between two ticks the jobs that run end, \<open>out\<close> telling which succeed.\<close>

definition ended :: "(string \<Rightarrow> bool) \<Rightarrow> string \<Rightarrow> img_job option \<Rightarrow> img_job option" where
  "ended out n jb = map_option (\<lambda>j. if xj_status j = JobRunning
     then j\<lparr>xj_status := (if out n then JobSucceeded else JobFailed)\<rparr> else j) jb"

definition jobs_end :: "(string \<Rightarrow> bool) \<Rightarrow> img_world \<Rightarrow> img_world" where
  "jobs_end out w = w\<lparr>xw_jobs := (\<lambda>n. ended out n (xw_jobs w n))\<rparr>"

definition img_round :: "img_svc \<Rightarrow> img_env \<Rightarrow> (string \<Rightarrow> bool) \<Rightarrow> img_world \<Rightarrow> img_world" where
  "img_round sv e out w = img_reconcile_once sv e (jobs_end out w)"

lemma view_jobs_end:
  "img_view i w = (r, ids, b, s, g, ks) \<Longrightarrow>
   img_view i (jobs_end out w) = (r, ids, ended out (build_name i) b, ended out (scan_name i) s, ended out (sign_name i) g, ks)"
  by (simp add: img_view_def jobs_end_def)

definition done_status :: "(string \<Rightarrow> bool) \<Rightarrow> string \<Rightarrow> job_status" where
  "done_status out n = (if out n then JobSucceeded else JobFailed)"

text \<open>A call succeeds when the cluster is there; then the four stages are these.\<close>

definition calm :: "img_svc \<Rightarrow> img_env \<Rightarrow> bool" where
  "calm sv e \<longleftrightarrow> xv_cluster sv \<and> (\<forall>s. xe_ok e s) \<and> (\<forall>c. xe_call e c)"

lemma calmD: "calm sv e \<Longrightarrow> xv_cluster sv" "calm sv e \<Longrightarrow> xe_ok e s" "calm sv e \<Longrightarrow> xe_call e c"
  by (simp_all add: calm_def)

lemma own_row: "img_view i w = (Some r, ids, b, s, g, ks) \<Longrightarrow> im_id r = i"
  by (auto simp: img_view_def dest: row_of_Some)

lemma view_upd:
  assumes "img_view i w = (Some r, ids, b, s, g, ks)" "\<And>r. im_id (f r) = im_id r"
  shows "img_view i (xw_upd (img_upd i f) w) = (Some (f r), ids, b, s, g, ks)"
  using assms by (simp add: img_view_def xw_upd_def img_upd_def row_of_upd_row keys_upd_row)

lemma calm_upd:
  assumes "calm sv e"
  shows "set_scan_status (xe_ok e) i sc = img_upd i (\<lambda>r. r\<lparr>im_scan := sc\<rparr>)"
    and "set_build_result (xe_ok e) i st sc = img_upd i (\<lambda>r. r\<lparr>im_status := st, im_scan := sc\<rparr>)"
    and "set_signed (xe_ok e) i x = img_upd i (\<lambda>r. r\<lparr>im_signed := x\<rparr>)"
  using calmD(2) [OF assms] by (simp_all add: fun_eq_iff set_scan_status_def set_build_result_def set_signed_def)

lemma view_drop:
  assumes "calm sv e" "img_view i w = (r, ids, b, s, g, ks)"
  shows "img_view i (delete_build_job sv e (build_name i) w) = (r, ids, None, s, g, ks)"
    and "img_view i (delete_build_job sv e (scan_name i) w) = (r, ids, b, None, g, ks)"
    and "img_view i (delete_build_job sv e (sign_name i) w) = (r, ids, b, s, None, ks)"
  using assms by (simp_all add: img_view_def delete_build_job_def calm_def)

lemma view_run:
  assumes "calm sv e" "img_view i w = (r, ids, b, s, g, ks)"
  shows "\<exists>j. xj_status j = JobRunning \<and> img_view i (fst (run_build_job sv e (build_name i) ref d w)) = (r, ids, Some j, s, g, ks)"
    and "\<exists>j. xj_status j = JobRunning \<and> img_view i (fst (run_scan_job sv e (scan_name i) ref w)) = (r, ids, b, Some j, g, ks)"
    and "\<exists>j. xj_status j = JobRunning \<and> img_view i (fst (run_sign_job sv e (sign_name i) ref w)) = (r, ids, b, s, Some j, ks)"
  using assms by (simp_all add: img_view_def run_build_job_def run_scan_job_def run_sign_job_def create_job_def
      delete_build_job_def calm_def Let_def split: option.split)

lemma view_status:
  assumes "calm sv e" "img_view i w = (r, ids, b, s, g, ks)"
  shows "img_job_status sv e (build_name i) w = Some (case b of None \<Rightarrow> JobFailed | Some j \<Rightarrow> xj_status j)"
    and "img_job_status sv e (scan_name i) w = Some (case s of None \<Rightarrow> JobFailed | Some j \<Rightarrow> xj_status j)"
    and "img_job_status sv e (sign_name i) w = Some (case g of None \<Rightarrow> JobFailed | Some j \<Rightarrow> xj_status j)"
  using assms by (simp_all add: img_view_def img_job_status_def calm_def)

lemma running_ends [simp]:
  "xj_status j = JobRunning \<Longrightarrow> ended out n (Some j) = Some (j\<lparr>xj_status := (if out n then JobSucceeded else JobFailed)\<rparr>)"
  by (simp add: ended_def)

text \<open>One round at each of the stages.\<close>

lemma round_own:
  assumes c: "calm sv e" and w: "img_view i w = (Some r, ids, b, s, g, ks)" and d: "distinct ids" and r: "im_status r = ''building''"
  obtains v where
    "img_view i v = (Some r, ids, ended out (build_name i) b, ended out (scan_name i) s, ended out (sign_name i) g, ks)"
    "img_view i (img_round sv e out w) = img_view i (reconcile_image sv e r v)"
  using tick_view [OF calmD(2) [OF c] view_jobs_end [OF w, of out] d, of sv] r view_jobs_end [OF w, of out] that
  unfolding img_round_def by auto

lemma round_idle:
  assumes c: "calm sv e" and w: "img_view i w = (Some r, ids, b, s, g, ks)" and d: "distinct ids" and r: "im_status r \<noteq> ''building''"
  shows "img_view i (img_round sv e out w) =
    (Some r, ids, ended out (build_name i) b, ended out (scan_name i) s, ended out (sign_name i) g, ks)"
  using tick_view [OF calmD(2) [OF c] view_jobs_end [OF w, of out] d, of sv] r view_jobs_end [OF w, of out]
  unfolding img_round_def by auto

lemma round_build:
  assumes c: "calm sv e" and w: "img_view i w = (Some r, ids, Some j, s, g, ks)" and d: "distinct ids"
    and r: "im_status r = ''building''" "im_scan r = ''building''" and j: "xj_status j = JobRunning"
  shows "out (build_name i) \<Longrightarrow> \<exists>b' j' g'. xj_status j' = JobRunning \<and>
      img_view i (img_round sv e out w) = (Some (r\<lparr>im_scan := ''scanning''\<rparr>), ids, b', Some j', g', ks)"
    and "\<not> out (build_name i) \<Longrightarrow> \<exists>b' s' g'.
      img_view i (img_round sv e out w) = (Some (r\<lparr>im_status := ''failed'', im_scan := ''fail''\<rparr>), ids, b', s', g', ks)"
proof -
  obtain v where v: "img_view i v = (Some r, ids, ended out (build_name i) (Some j), ended out (scan_name i) s, ended out (sign_name i) g, ks)"
    and eq: "img_view i (img_round sv e out w) = img_view i (reconcile_image sv e r v)"
    by (rule round_own [OF c w d r(1)])
  have i: "im_id r = i" by (rule own_row [OF w])
  show "\<exists>b' j' g'. xj_status j' = JobRunning \<and>
      img_view i (img_round sv e out w) = (Some (r\<lparr>im_scan := ''scanning''\<rparr>), ids, b', Some j', g', ks)" if o: "out (build_name i)"
  proof -
    let ?v1 = "delete_build_job sv e (build_name i) v"
    obtain j' where j': "xj_status j' = JobRunning"
      "img_view i (fst (run_scan_job sv e (scan_name i) (img_ref r) ?v1)) = (Some r, ids, None, Some j', ended out (sign_name i) g, ks)"
      using view_run(2) [OF c view_drop(1) [OF c v], of "img_ref r"] by blast
    show ?thesis
      using view_upd [OF j'(2), of "\<lambda>r. r\<lparr>im_scan := ''scanning''\<rparr>"] eq o j r i j'(1)
      by (simp add: reconcile_image_def build_stage_def view_status(1) [OF c v] calm_upd [OF c])
  qed
  show "\<exists>b' s' g'. img_view i (img_round sv e out w) =
      (Some (r\<lparr>im_status := ''failed'', im_scan := ''fail''\<rparr>), ids, b', s', g', ks)" if "\<not> out (build_name i)"
    using view_upd [OF v, of "\<lambda>r. r\<lparr>im_status := ''failed'', im_scan := ''fail''\<rparr>"] eq j r i that
    by (simp add: reconcile_image_def build_stage_def view_status(1) [OF c v] calm_upd [OF c])
qed

lemma round_scan:
  assumes c: "calm sv e" and w: "img_view i w = (Some r, ids, b, Some j, g, ks)" and d: "distinct ids"
    and r: "im_status r = ''building''" "im_scan r = ''scanning''" and j: "xj_status j = JobRunning"
  shows "\<exists>b' s' g'. img_view i (img_round sv e out w) =
    (Some (if \<not> out (scan_name i) then r\<lparr>im_status := ''draft'', im_scan := ''high''\<rparr>
           else if xv_cosign sv \<noteq> [] then r\<lparr>im_scan := ''signpending''\<rparr>
           else r\<lparr>im_status := ''draft'', im_scan := ''pass''\<rparr>), ids, b', s', g', ks)"
proof -
  obtain v where v: "img_view i v = (Some r, ids, ended out (build_name i) b, ended out (scan_name i) (Some j), ended out (sign_name i) g, ks)"
    and eq: "img_view i (img_round sv e out w) = img_view i (reconcile_image sv e r v)"
    by (rule round_own [OF c w d r(1)])
  have i: "im_id r = i" by (rule own_row [OF w])
  note v' = view_drop(2) [OF c v]
  show ?thesis
    using view_upd [OF v, of "\<lambda>r. r\<lparr>im_status := ''draft'', im_scan := ''high''\<rparr>"]
      view_upd [OF v', of "\<lambda>r. r\<lparr>im_scan := ''signpending''\<rparr>"]
      view_upd [OF v', of "\<lambda>r. r\<lparr>im_status := ''draft'', im_scan := ''pass''\<rparr>"] eq j r i
    by (simp add: reconcile_image_def scan_stage_def Let_def view_status(2) [OF c v] calm_upd [OF c])
qed

lemma round_key:
  assumes c: "calm sv e" and w: "img_view i w = (Some r, ids, b, s, g, ks)" and d: "distinct ids"
    and r: "im_status r = ''building''" "im_scan r = ''signpending''" and k: "xv_cosign sv \<in> ks"
  shows "\<exists>b' s' j'. xj_status j' = JobRunning \<and>
    img_view i (img_round sv e out w) = (Some (r\<lparr>im_scan := ''signing''\<rparr>), ids, b', s', Some j', ks)"
proof -
  obtain v where v: "img_view i v = (Some r, ids, ended out (build_name i) b, ended out (scan_name i) s, ended out (sign_name i) g, ks)"
    and eq: "img_view i (img_round sv e out w) = img_view i (reconcile_image sv e r v)"
    by (rule round_own [OF c w d r(1)])
  have i: "im_id r = i" by (rule own_row [OF w])
  have "xw_keys v = ks" using v by (simp add: img_view_def)
  then have key: "ensure_cosign_key sv e (xv_cosign sv) v = (v, Some True)" using k calmD [OF c] by (simp add: ensure_cosign_key_def)
  obtain j' where j': "xj_status j' = JobRunning"
    "img_view i (fst (run_sign_job sv e (sign_name i) (img_ref r) v)) =
      (Some r, ids, ended out (build_name i) b, ended out (scan_name i) s, Some j', ks)"
    using view_run(3) [OF c v, of "img_ref r"] by blast
  show ?thesis
    using view_upd [OF j'(2), of "\<lambda>r. r\<lparr>im_scan := ''signing''\<rparr>"] eq r i j'(1)
    by (simp add: reconcile_image_def key_stage_def key calm_upd [OF c])
qed

lemma round_sign:
  assumes c: "calm sv e" and w: "img_view i w = (Some r, ids, b, s, Some j, ks)" and d: "distinct ids"
    and r: "im_status r = ''building''" "im_scan r = ''signing''" and j: "xj_status j = JobRunning"
  shows "\<exists>b' s' g'. img_view i (img_round sv e out w) =
    (Some (r\<lparr>im_status := ''draft'', im_scan := ''pass'', im_signed := im_signed r \<or> out (sign_name i)\<rparr>), ids, b', s', g', ks)"
proof -
  obtain v where v: "img_view i v = (Some r, ids, ended out (build_name i) b, ended out (scan_name i) s, ended out (sign_name i) (Some j), ks)"
    and eq: "img_view i (img_round sv e out w) = img_view i (reconcile_image sv e r v)"
    by (rule round_own [OF c w d r(1)])
  have i: "im_id r = i" by (rule own_row [OF w])
  note v' = view_drop(3) [OF c v]
  have v2: "img_view i (xw_upd (img_upd i (\<lambda>r. r\<lparr>im_signed := True\<rparr>)) (delete_build_job sv e (sign_name i) v)) =
      (Some (r\<lparr>im_signed := True\<rparr>), ids, ended out (build_name i) b, ended out (scan_name i) s, None, ks)"
    by (rule view_upd [OF v']) simp
  have keep: "r\<lparr>im_status := ''draft'', im_scan := ''pass'', im_signed := im_signed r\<rparr> = r\<lparr>im_status := ''draft'', im_scan := ''pass''\<rparr>"
    by simp
  show ?thesis
    using view_upd [OF v', of "\<lambda>r. r\<lparr>im_status := ''draft'', im_scan := ''pass''\<rparr>"]
      view_upd [OF v2, of "\<lambda>r. r\<lparr>im_status := ''draft'', im_scan := ''pass''\<rparr>"] eq j r i
    by (cases "out (sign_name i)") (simp_all add: reconcile_image_def sign_stage_def view_status(3) [OF c v] calm_upd [OF c] keep)
qed

text \<open>Where the pipeline takes a row.\<close>

definition pipeline_outcome :: "string \<Rightarrow> (string \<Rightarrow> bool) \<Rightarrow> img_row \<Rightarrow> img_row" where
  "pipeline_outcome key out r =
     (if \<not> out (build_name (im_id r)) then r\<lparr>im_status := ''failed'', im_scan := ''fail''\<rparr>
      else if \<not> out (scan_name (im_id r)) then r\<lparr>im_status := ''draft'', im_scan := ''high''\<rparr>
      else r\<lparr>im_status := ''draft'', im_scan := ''pass'', im_signed := im_signed r \<or> (key \<noteq> [] \<and> out (sign_name (im_id r)))\<rparr>)"

lemma idle_rounds:
  assumes c: "calm sv e" and w: "\<exists>b s g. img_view i w = (Some r, ids, b, s, g, ks)" and d: "distinct ids" and r: "im_status r \<noteq> ''building''"
  shows "\<exists>b s g. img_view i ((img_round sv e out ^^ n) w) = (Some r, ids, b, s, g, ks)"
  using w
proof (induction n)
  case (Suc n)
  then show ?case using round_idle [OF c _ d r] by (simp del: funpow.simps add: funpow.simps(2)) blast
qed simp

lemma four_rounds:
  assumes c: "calm sv e" and w: "img_view i w = (Some r, ids, Some j, s, g, ks)" and d: "distinct ids"
    and r: "im_status r = ''building''" "im_scan r = ''building''" and j: "xj_status j = JobRunning"
    and k: "xv_cosign sv = [] \<or> xv_cosign sv \<in> ks"
  shows "row_of im_id i (xd_images (xw_db ((img_round sv e out ^^ 4) w))) = Some (pipeline_outcome (xv_cosign sv) out r)"
proof -
  let ?R = "img_round sv e out"
  have fin: "row_of im_id i (xd_images (xw_db ((?R ^^ 4) w))) = Some r'"
    if v: "\<exists>b s g. img_view i ((?R ^^ m) w) = (Some r', ids, b, s, g, ks)" "im_status r' \<noteq> ''building''" and m: "n + m = 4" for r' n m
    using idle_rounds [where out = out and n = n, OF c v(1) d v(2)] unfolding m [symmetric] funpow_add by (auto simp: img_view_def)
  have i: "im_id r = i" by (rule own_row [OF w])
  show ?thesis
  proof (cases "out (build_name i)")
    case False
    show ?thesis by (rule fin [of 1 _ 3]) (use round_build(2) [where out = out, OF c w d r j False] False i in \<open>simp_all add: pipeline_outcome_def\<close>)
  next
    case b: True
    obtain b1 j1 g1 where 1: "xj_status j1 = JobRunning" "img_view i (?R w) = (Some (r\<lparr>im_scan := ''scanning''\<rparr>), ids, b1, Some j1, g1, ks)"
      using round_build(1) [where out = out, OF c w d r j b] by blast
    note 2 = round_scan [OF c 1(2) d _ _ 1(1), of out]
    show ?thesis
    proof (cases "out (scan_name i) \<and> xv_cosign sv \<noteq> []")
      case False
      show ?thesis by (rule fin [of 2 _ 2]) (use 2 b False i r in \<open>auto simp: pipeline_outcome_def numeral_2_eq_2\<close>)
    next
      case True
      obtain b2 s2 g2 where v2: "img_view i (?R (?R w)) = (Some (r\<lparr>im_scan := ''signpending''\<rparr>), ids, b2, s2, g2, ks)"
        using 2 True r by auto
      obtain b3 s3 j3 where v3: "xj_status j3 = JobRunning"
        "img_view i (?R (?R (?R w))) = (Some (r\<lparr>im_scan := ''signing''\<rparr>), ids, b3, s3, Some j3, ks)"
        using round_key [OF c v2 d, of out] True k r by auto
      show ?thesis
        by (rule fin [of 4 _ 0])
          (use round_sign [OF c v3(2) d _ _ v3(1), of out] b True i r in \<open>auto simp: pipeline_outcome_def numeral_eq_Suc\<close>)
    qed
  qed
qed

text \<open>C37: a build that was accepted comes to its end within four rounds of its jobs ending and a tick, when every
  statement and call succeeds and the signing key is there already, or signing is not configured: failed when the
  build job failed, else a draft that is marked \<open>high\<close> when the scan found something, or \<open>pass\<close>, and signed exactly
  when signing is configured and the signature succeeded. Other images may be in the pipeline, and jobs of their
  names may be left over. Without its key an image waits for it, as \<open>signpending\<close>, for as long as the key takes.\<close>

theorem pipeline_settles:
  assumes "calm sv e" "build_image sv e q w = (w1, None)" "xv_cosign sv = [] \<or> xv_cosign sv \<in> xw_keys w"
    and "distinct (map im_id (xd_images (xw_db w)))" "\<forall>r \<in> set (xd_images (xw_db w)). im_id r < xd_next (xw_db w)"
  shows "row_of im_id (xd_next (xw_db w)) (xd_images (xw_db ((img_round sv e out ^^ 4) w1))) =
    Some (pipeline_outcome (xv_cosign sv) out (new_build sv q\<lparr>im_id := xd_next (xw_db w)\<rparr>))"
proof -
  let ?i = "xd_next (xw_db w)"
  let ?r = "new_build sv q\<lparr>im_id := ?i\<rparr>"
  let ?w0 = "w\<lparr>xw_db := (xw_db w)\<lparr>xd_images := xd_images (xw_db w) @ [?r], xd_next := ?i + 1\<rparr>\<rparr>"
  have w1: "w1 = fst (run_build_job sv e (build_name ?i) (img_ref ?r) (im_docker ?r) ?w0)"
    using assms(2) calmD(2) [OF assms(1)]
    by (simp add: build_image_def img_create_def Let_def launch_def split: if_splits prod.splits)
  have fresh: "row_of im_id ?i (xd_images (xw_db w)) = None" using assms(5) by (auto simp: row_of_None)
  have v: "img_view ?i ?w0 = (Some ?r, map im_id (xd_images (xw_db w)) @ [?i], xw_jobs w (build_name ?i), xw_jobs w (scan_name ?i),
      xw_jobs w (sign_name ?i), xw_keys w)"
    by (simp add: img_view_def row_of_append fresh)
  obtain j where j: "xj_status j = JobRunning"
    "img_view ?i w1 = (Some ?r, map im_id (xd_images (xw_db w)) @ [?i], Some j, xw_jobs w (scan_name ?i), xw_jobs w (sign_name ?i), xw_keys w)"
    using view_run(1) [OF assms(1) v, of "img_ref ?r" "im_docker ?r"] unfolding w1 by blast
  have d: "distinct (map im_id (xd_images (xw_db w)) @ [?i])" using assms(4,5) by auto
  show ?thesis by (rule four_rounds [OF assms(1) j(2) d _ _ j(1) assms(3)]) (simp_all add: new_build_def)
qed

lemma keys_replace: "key x = k \<Longrightarrow> map key (upd_row key k (\<lambda>_. x) t) = map key t"
  by (induction t) auto

lemma row_replace: "row_of key k t = Some r \<Longrightarrow> key x = k \<Longrightarrow> row_of key k (upd_row key k (\<lambda>_. x) t) = Some x"
  by (induction t) (auto split: if_splits)

text \<open>C38: a rebuild does not reset the signature of an image: a signed image whose new content fails the
  vulnerability scan ends as a draft marked \<open>high\<close> that is still shown as signed, though its new tag never was.\<close>

theorem rebuilt_image_stays_signed:
  assumes "calm sv e" "xv_cosign sv = [] \<or> xv_cosign sv \<in> xw_keys w" "distinct (map im_id (xd_images (xw_db w)))"
    and "row_of im_id i (xd_images (xw_db w)) = Some r" "im_signed r"
    and "rebuild_image sv e i w = (w1, None)" "out (build_name i)" "\<not> out (scan_name i)"
  shows "\<exists>r'. row_of im_id i (xd_images (xw_db ((img_round sv e out ^^ 4) w1))) = Some r' \<and> im_signed r' \<and>
    im_scan r' = ''high'' \<and> im_status r' = ''draft'' \<and> im_tag r' = bump_tag (im_tag r)"
proof -
  let ?r = "r\<lparr>im_tag := bump_tag (im_tag r), im_scan := ''building'', im_status := ''building''\<rparr>"
  let ?w0 = "xw_upd (img_upd i (\<lambda>_. ?r)) w"
  have i: "im_id r = i" using row_of_Some [OF assms(4)] by simp
  have w1: "w1 = fst (run_build_job sv e (build_name i) (img_ref ?r) (im_docker ?r) ?w0)"
    using assms(4,6) calmD(2) [OF assms(1)] i
    by (simp add: rebuild_image_def img_get_def img_save_def launch_def xw_upd_def Let_def split: if_splits prod.splits)
  have rows: "map im_id (upd_row im_id i (\<lambda>_. ?r) (xd_images (xw_db w))) = map im_id (xd_images (xw_db w))"
    using i by (intro keys_replace) simp
  have row: "row_of im_id i (upd_row im_id i (\<lambda>_. ?r) (xd_images (xw_db w))) = Some ?r"
    using i by (intro row_replace [OF assms(4)]) simp
  have v: "img_view i ?w0 = (Some ?r, map im_id (xd_images (xw_db w)), xw_jobs w (build_name i), xw_jobs w (scan_name i),
      xw_jobs w (sign_name i), xw_keys w)"
    by (simp add: img_view_def xw_upd_def img_upd_def rows row)
  obtain j where j: "xj_status j = JobRunning"
    "img_view i w1 = (Some ?r, map im_id (xd_images (xw_db w)), Some j, xw_jobs w (scan_name i), xw_jobs w (sign_name i), xw_keys w)"
    using view_run(1) [OF assms(1) v, of "img_ref ?r" "im_docker ?r"] unfolding w1 by blast
  have "row_of im_id i (xd_images (xw_db ((img_round sv e out ^^ 4) w1))) = Some (pipeline_outcome (xv_cosign sv) out ?r)"
    by (rule four_rounds [OF assms(1) j(2) assms(3) _ _ j(1) assms(2)]) simp_all
  then show ?thesis using assms(5,7,8) i by (simp add: pipeline_outcome_def)
qed

section \<open>Names of ports and references\<close>

lemma last_dropWhile: "dropWhile P xs \<noteq> [] \<Longrightarrow> last (dropWhile P xs) = last xs"
  by (induction xs) auto

lemma trim_dashes_ends:
  assumes "trim_dashes s \<noteq> []"
  shows "hd (trim_dashes s) \<noteq> CHR ''-''" and "last (trim_dashes s) \<noteq> CHR ''-''"
proof -
  define a where "a = dropWhile (\<lambda>c. c = CHR ''-'') s"
  define b where "b = dropWhile (\<lambda>c. c = CHR ''-'') (rev a)"
  have t: "trim_dashes s = rev b" by (simp add: trim_dashes_def a_def b_def)
  have b: "b \<noteq> []" using assms t by simp
  then have a: "a \<noteq> []" by (auto simp: b_def)
  have "hd a \<noteq> CHR ''-''" using hd_dropWhile a unfolding a_def by fast
  moreover have "last b = hd a" using last_dropWhile b unfolding b_def by (metis last_rev)
  ultimately show "hd (trim_dashes s) \<noteq> CHR ''-''" by (simp add: t hd_rev)
  have "hd b \<noteq> CHR ''-''" using hd_dropWhile b unfolding b_def by fast
  then show "last (trim_dashes s) \<noteq> CHR ''-''" by (simp add: t last_rev)
qed

lemma trim_dashes_length: "length (trim_dashes s) \<le> length s"
  unfolding trim_dashes_def length_rev by (metis length_dropWhile_le length_rev le_trans)

lemma trim_dashes_set: "set (trim_dashes s) \<subseteq> set s"
  unfolding trim_dashes_def set_rev by (metis set_dropWhileD set_rev subsetI)

lemma sanitize_cases:
  obtains x where "sanitize_port_name s = trim_dashes x" "set x \<subseteq> {c. port_char c}" "length (trim_dashes x) \<le> 15"
proof -
  define y where "y = filter port_char (map lower_char (trim_space s))"
  have y: "set (trim_dashes y) \<subseteq> {c. port_char c}" using trim_dashes_set [of y] by (auto simp: y_def)
  show thesis
  proof (cases "15 < length (trim_dashes y)")
    case True
    then have "sanitize_port_name s = trim_dashes (take 15 (trim_dashes y))" by (simp add: sanitize_port_name_def Let_def y_def)
    moreover have "set (take 15 (trim_dashes y)) \<subseteq> {c. port_char c}" using y set_take_subset by fast
    moreover have "length (trim_dashes (take 15 (trim_dashes y))) \<le> 15"
      by (rule le_trans [OF trim_dashes_length]) simp
    ultimately show thesis by (rule that)
  next
    case False
    then have "sanitize_port_name s = trim_dashes y" by (simp add: sanitize_port_name_def Let_def y_def)
    then show thesis using False by (intro that [of y]) (auto simp: y_def)
  qed
qed

text \<open>C40: the name given to the web port of an external image has 1 to 15 characters, all of them small letters,
  digits or dashes, and neither begins nor ends with a dash.\<close>

theorem web_port_name_well_formed:
  "or_default (sanitize_port_name s) ''web'' \<noteq> [] \<and> length (or_default (sanitize_port_name s) ''web'') \<le> 15 \<and>
   set (or_default (sanitize_port_name s) ''web'') \<subseteq> {c. port_char c} \<and>
   hd (or_default (sanitize_port_name s) ''web'') \<noteq> CHR ''-'' \<and> last (or_default (sanitize_port_name s) ''web'') \<noteq> CHR ''-''"
proof (cases "sanitize_port_name s = []")
  case True
  then show ?thesis by (simp add: or_default_def port_char_def)
next
  case False
  obtain x where x: "sanitize_port_name s = trim_dashes x" "set x \<subseteq> {c. port_char c}" "length (trim_dashes x) \<le> 15"
    by (rule sanitize_cases)
  then show ?thesis using False trim_dashes_ends [of x] trim_dashes_set [of x] by (auto simp: or_default_def)
qed

text \<open>A container port also needs a letter, and no two dashes in a row; these names pass, and the pods of
  the image are refused.\<close>

definition valid_container_port :: "string \<Rightarrow> bool" where
  "valid_container_port n \<longleftrightarrow> n \<noteq> [] \<and> length n \<le> 15 \<and> list_all port_char n \<and> hd n \<noteq> CHR ''-'' \<and> last n \<noteq> CHR ''-'' \<and>
     \<not> contains ''--'' n \<and> list_ex (\<lambda>c. \<not> is_digit c \<and> c \<noteq> CHR ''-'') n"

theorem refused_port_names:
  "sanitize_port_name '' 8080 '' = ''8080'' \<and> \<not> valid_container_port ''8080'' \<and>
   sanitize_port_name ''a--B'' = ''a--b'' \<and> \<not> valid_container_port ''a--b''"
  by code_simp

lemma last_index_split:
  assumes "0 \<le> last_index c s"
  shows "take (nat (last_index c s)) s @ [c] @ drop (nat (last_index c s) + 1) s = s"
proof -
  let ?t = "takeWhile (\<lambda>x. x \<noteq> c) (rev s)"
  have l: "length ?t < length s" using assms by (simp add: last_index_def)
  then have n: "nat (last_index c s) = length s - 1 - length ?t" by (simp add: last_index_def)
  have "rev s ! length ?t = c" using nth_length_takeWhile [of "\<lambda>x. x \<noteq> c" "rev s"] l by simp
  then have "s ! nat (last_index c s) = c" using l by (simp add: rev_nth n)
  moreover have "nat (last_index c s) < length s" using l n by simp
  ultimately show ?thesis using id_take_nth_drop [of "nat (last_index c s)" s] by simp
qed

lemma last_index_ge: "- 1 \<le> last_index c s"
  using length_takeWhile_le [of "\<lambda>x. x \<noteq> c" "rev s"] by (simp add: last_index_def)

lemma split_ref_join:
  "fst (split_ref s) @ '':'' @ snd (split_ref s) = (if last_index (CHR ''/'') s < last_index (CHR '':'') s then s else s @ '':latest'')"
  using last_index_split [of "CHR '':''" s] last_index_ge [of "CHR ''/''" s] by (simp add: split_ref_def Let_def)

text \<open>an external image is stored as a new active image, to be pulled by exactly the reference given, with
  \<open>latest\<close> when its last segment has no tag; and it can never be rebuilt.\<close>

theorem external_reference_kept:
  assumes "register_external e q w = (w', None)" "xe_ok e IGet" "xv_registry sv \<noteq> []"
    and "\<forall>r \<in> set (xd_images (xw_db w)). im_id r < xd_next (xw_db w)"
  shows "\<exists>r. xd_images (xw_db w') = xd_images (xw_db w) @ [r] \<and> im_status r = ''active'' \<and>
    img_ref r = trim_space (xr_ref q) @
      (if last_index (CHR ''/'') (trim_space (xr_ref q)) < last_index (CHR '':'') (trim_space (xr_ref q)) then [] else '':latest'') \<and>
    rebuild_image sv e (im_id r) w' = (w', Some NotBuildable)"
proof -
  obtain n t where s: "split_ref (trim_space (xr_ref q)) = (n, t)" by fastforce
  obtain r where r: "xd_images (xw_db w') = xd_images (xw_db w) @ [r]" "im_id r = xd_next (xw_db w)" "im_name r = n" "im_tag r = t"
    "im_status r = ''active''" "im_docker r = []"
    using assms(1) s by (auto simp: register_external_def img_create_def Let_def split: if_splits option.splits)
  have "row_of im_id (im_id r) (xd_images (xw_db w)) = None" using assms(4) r(2) by (auto simp: row_of_None)
  then have "row_of im_id (im_id r) (xd_images (xw_db w')) = Some r" by (simp add: r(1) row_of_append)
  then have "rebuild_image sv e (im_id r) w' = (w', Some NotBuildable)"
    using assms(2,3) r(6) by (simp add: rebuild_image_def img_get_def trim_space_def)
  moreover have "img_ref r = n @ '':'' @ t" using r by (simp add: img_ref_def)
  ultimately show ?thesis using r split_ref_join [of "trim_space (xr_ref q)"] s by auto
qed

section \<open>Prefetching\<close>

definition pf_view :: "img_world \<Rightarrow> prefetch_row list \<times> (string \<Rightarrow> img_pod option)" where
  "pf_view w = (xd_caches (xw_db w), xw_pods w)"

lemma pf_view_db [simp]:
  "pf_view (xw_upd (set_build_result ok i st sc) w) = pf_view w" "pf_view (xw_upd (set_scan_status ok i sc) w) = pf_view w"
  "pf_view (xw_upd (set_signed ok i b) w) = pf_view w"
  by (simp_all add: pf_view_def xw_upd_def set_build_result_def set_scan_status_def set_signed_def img_upd_def)

lemma pf_view_jobs [simp]:
  "pf_view (delete_build_job sv e n w) = pf_view w" "pf_view (fst (create_job e n c args m w)) = pf_view w"
  by (simp_all add: pf_view_def delete_build_job_def create_job_def Let_def split: option.split)

lemma pf_view_runs [simp]:
  "pf_view (fst (run_scan_job sv e n ref w)) = pf_view w" "pf_view (fst (run_sign_job sv e n ref w)) = pf_view w"
  by (simp_all add: run_scan_job_def run_sign_job_def)

lemma pf_view_key: "pf_view (fst (ensure_cosign_key sv e k w)) = pf_view w"
proof -
  let ?args = "[''generate-key-pair'', ''k8s://'' @ xv_ns sv @ ''/'' @ k]"
  obtain w1 x where c: "create_job e (keygen_name k) ''gcr.io/projectsigstore/cosign:v2.2.4'' ?args False w = (w1, x)" by fastforce
  then have "pf_view w1 = pf_view w" using pf_view_jobs(2) by (metis fst_conv)
  then show ?thesis unfolding ensure_cosign_key_def c by simp
qed

lemma pf_view_stages [simp]:
  "pf_view (scan_stage sv e k w) = pf_view w" "pf_view (sign_stage sv e k w) = pf_view w" "pf_view (build_stage sv e k ref w) = pf_view w"
  by (simp_all add: scan_stage_def sign_stage_def build_stage_def Let_def split: option.split job_status.split)

lemma pf_view_key_stage [simp]: "pf_view (key_stage sv e k ref w) = pf_view w"
proof -
  obtain w1 x where "ensure_cosign_key sv e (xv_cosign sv) w = (w1, x)" by fastforce
  then show ?thesis using pf_view_key [of sv e "xv_cosign sv" w]
    by (simp add: key_stage_def split: option.split bool.split)
qed

lemma pf_view_images [simp]: "pf_view (fold (reconcile_image sv e) rs w) = pf_view w"
  by (induction rs arbitrary: w) (simp_all add: reconcile_image_def)

definition pulled :: "string \<Rightarrow> img_world \<Rightarrow> img_world" where
  "pulled n w = w\<lparr>xw_pods := (xw_pods w)(n := map_option (\<lambda>p. p\<lparr>xp_state := Started\<rparr>) (xw_pods w n))\<rparr>"

text \<open>nodes whose names differ only in a dot and a dash share a prefetch pod. Caching an image on both
  leaves one pod, on the second node; when it has pulled, the first node, which never saw the image, is recorded
  as cached, the pod is removed, and the second node stays \<open>pulling\<close>.\<close>

theorem prefetch_pods_collide:
  assumes "calm sv e" "img_get (xe_ok e) i (xw_db w) = Some r" "prefetch_name i a = prefetch_name i b" "a \<noteq> b"
    and "\<forall>c \<in> set (xd_caches (xw_db w)). pf_status c \<noteq> ''pulling'' \<and> pf_key c \<noteq> (i, a) \<and> pf_key c \<noteq> (i, b)"
  shows "\<exists>w1 w2 w3 p. cache_on_node sv e i a w = (w1, None) \<and> cache_on_node sv e i b w1 = (w2, None) \<and>
    xw_pods w2 (prefetch_name i a) = Some p \<and> xp_node p = b \<and>
    img_reconcile_once sv e (pulled (prefetch_name i b) w2) = w3 \<and>
    row_of pf_key (i, a) (xd_caches (xw_db w3)) = Some \<lparr>pf_image = i, pf_node = a, pf_status = ''cached''\<rparr> \<and>
    row_of pf_key (i, b) (xd_caches (xw_db w3)) = Some \<lparr>pf_image = i, pf_node = b, pf_status = ''pulling''\<rparr> \<and>
    xw_pods w3 (prefetch_name i b) = None"
proof -
  let ?n = "prefetch_name i b"
  let ?cs = "xd_caches (xw_db w)"
  let ?row = "\<lambda>n. \<lparr>pf_image = i, pf_node = n, pf_status = ''pulling''\<rparr>"
  let ?pod = "\<lambda>n. \<lparr>xp_image = img_ref r, xp_node = n, xp_state = Unscheduled\<rparr>"
  have ab: "row_of pf_key (i, a) ?cs = None" "row_of pf_key (i, b) ?cs = None" using assms(5) by (auto simp: row_of_None)
  let ?w1 = "w\<lparr>xw_pods := (xw_pods w)(?n \<mapsto> ?pod a), xw_db := (xw_db w)\<lparr>xd_caches := ?cs @ [?row a]\<rparr>\<rparr>"
  let ?w2 = "w\<lparr>xw_pods := (xw_pods w)(?n \<mapsto> ?pod b), xw_db := (xw_db w)\<lparr>xd_caches := ?cs @ [?row a, ?row b]\<rparr>\<rparr>"
  have 1: "cache_on_node sv e i a w = (?w1, None)"
    using ab assms(2) calmD [OF assms(1)]
    by (simp add: cache_on_node_def ensure_prefetch_pod_def img_cache_set_def assms(3))
  have 2: "cache_on_node sv e i b ?w1 = (?w2, None)"
    using ab assms(2,4) calmD [OF assms(1)]
    by (simp add: cache_on_node_def ensure_prefetch_pod_def img_cache_set_def img_get_def row_of_append pf_key_def [of "?row a"])
  let ?w2p = "pulled ?n ?w2"
  let ?w2c = "w\<lparr>xw_pods := (xw_pods w)(?n := None),
      xw_db := (xw_db w)\<lparr>xd_caches := ?cs @ [?row a\<lparr>pf_status := ''cached''\<rparr>, ?row b]\<rparr>\<rparr>"
  have none: "filter (\<lambda>c. pf_status c = ''pulling'') ?cs = []" using assms(5) by (auto simp: filter_empty_conv)
  have lst: "cache_pulling (xe_ok e) (xw_db ?w2p) = [?row a, ?row b]"
    using none calmD(2) [OF assms(1)] by (simp add: cache_pulling_def pulled_def)
  have upd: "upd_row pf_key (i, a) f ?cs = ?cs" for f by (rule upd_row_absent [OF ab(1)])
  have 3: "reconcile_prefetch sv e (?row a) ?w2p = ?w2c"
    using calmD [OF assms(1)] ab assms(4)
    by (simp add: reconcile_prefetch_def Let_def prefetch_status_def pulled_def delete_prefetch_pod_def xw_upd_def img_cache_set_def
        row_of_append upd_row_append upd assms(3) pf_key_def)
  have 4: "reconcile_prefetch sv e (?row b) ?w2c = ?w2c"
    using calmD [OF assms(1)] by (simp add: reconcile_prefetch_def Let_def prefetch_status_def)
  let ?w3 = "img_reconcile_once sv e ?w2p"
  have "pf_view ?w3 = pf_view ?w2c"
    using 3 4 by (simp add: img_reconcile_once_def lst Let_def split: option.split)
  then have "xd_caches (xw_db ?w3) = ?cs @ [?row a\<lparr>pf_status := ''cached''\<rparr>, ?row b]" "xw_pods ?w3 ?n = None"
    by (simp_all add: pf_view_def)
  then show ?thesis
    using 1 2 ab assms(4) by (intro exI [of _ ?w1] exI [of _ ?w2] exI [of _ ?w3] exI [of _ "?pod b"])
      (simp add: row_of_append pf_key_def assms(3))
qed

text \<open>A rebuild leaves the record of the nodes an image is cached on, though its new tag is on none of them.\<close>

theorem rebuild_keeps_cache_record:
  "rebuild_image sv e i w = (w', x) \<Longrightarrow> cached_nodes_map ok (xw_db w') = cached_nodes_map ok (xw_db w)"
  by (auto simp: rebuild_image_def launch_def run_build_job_def create_job_def delete_build_job_def img_save_def img_upd_def
      cached_nodes_map_def fun_eq_iff Let_def split: option.splits if_splits prod.splits bool.splits)

text \<open>An image is published whatever its scan said; and whoever leaves out the query parameter of the
  catalogue is shown the drafts too.\<close>

theorem high_image_published:
  assumes "\<And>s. xe_ok e s" "row_of im_id i (xd_images (xw_db w)) = Some r" "in_int64 i"
  shows "\<exists>w'. img_handle sv e (SetImageStatus (dec i) (Some ''active'')) w = (w', None) \<and>
    row_of im_id i (xd_images (xw_db w')) = Some (r\<lparr>im_status := ''active''\<rparr>)"
  using assms by (simp add: img_handle_def img_set_status_def img_upd_def parse_id_dec row_of_upd_row)

theorem drafts_listed: "map fst (img_list_request e [] w) = xd_images (xw_db w)"
  by (simp add: img_list_request_def img_list_def o_def)

section \<open>Witnesses\<close>

definition img_svc0 :: img_svc where
  "img_svc0 = \<lparr>xv_cluster = True, xv_ns = ''build'', xv_registry = ''reg:5000'', xv_cosign = ''key''\<rparr>"

definition img_env0 :: img_env where
  "img_env0 = \<lparr>xe_ok = (\<lambda>_. True), xe_call = (\<lambda>_. True)\<rparr>"

definition img_row0 :: img_row where
  "img_row0 = \<lparr>im_id = 1, im_name = ''reg:5000/torch'', im_tag = ''1'', im_base = ''ubuntu'', im_docker = ''FROM ubuntu'',
     im_desc = [], im_channels = NoJson, im_tags = NoJson, im_gpu = True, im_scan = ''pass'', im_signed = True, im_status = ''active''\<rparr>"

definition img_world0 :: img_world where
  "img_world0 = \<lparr>xw_db = \<lparr>xd_images = [img_row0], xd_caches = [], xd_next = 2\<rparr>, xw_jobs = Map.empty, xw_ctx = Map.empty,
     xw_pods = Map.empty, xw_keys = {''key''}\<rparr>"

definition build_req0 :: build_req where
  "build_req0 = \<lparr>br_name = ''jax'', br_desc = [], br_base = ''ubuntu'', br_apt = ''git'', br_pip = [], br_channels = NoJson, br_gpu = True\<rparr>"

definition external_req0 :: external_req where
  "external_req0 = \<lparr>xr_ref = ''codercom/code-server'', xr_desc = [], xr_channels = NoJson, xr_gpu = False\<rparr>"

lemmas img_samples = img_svc0_def img_env0_def img_row0_def img_world0_def

lemma calm0: "calm img_svc0 img_env0"
  by (simp add: calm_def img_samples)

lemma launch_calm: "calm sv e \<Longrightarrow> snd (launch sv e r w) = None"
  by (simp add: launch_def run_build_job_def create_job_def delete_build_job_def calm_def Let_def split: option.split)

lemma build_accepted: "calm sv e \<Longrightarrow> xv_registry sv \<noteq> [] \<Longrightarrow> snd (build_image sv e q w) = None"
  by (simp add: build_image_def img_create_def Let_def launch_calm calmD)

lemma rebuild_accepted:
  "calm sv e \<Longrightarrow> xv_registry sv \<noteq> [] \<Longrightarrow> row_of im_id i (xd_images (xw_db w)) = Some r \<Longrightarrow> trim_space (im_docker r) \<noteq> [] \<Longrightarrow>
   snd (rebuild_image sv e i w) = None"
  using row_of_Some [of im_id i "xd_images (xw_db w)" r]
  by (simp add: rebuild_image_def img_get_def img_save_def Let_def launch_calm calmD)

theorem pipeline_settles_witness:
  "\<exists>w1. build_image img_svc0 img_env0 build_req0 img_world0 = (w1, None) \<and>
    row_of im_id 2 (xd_images (xw_db ((img_round img_svc0 img_env0 (\<lambda>n. n \<noteq> scan_name 2) ^^ 4) w1))) =
      Some (new_build img_svc0 build_req0\<lparr>im_id := 2, im_status := ''draft'', im_scan := ''high''\<rparr>)"
proof -
  obtain w1 x where b: "build_image img_svc0 img_env0 build_req0 img_world0 = (w1, x)" by fastforce
  have "x = None" using b build_accepted [OF calm0, of build_req0 img_world0] by (simp add: img_svc0_def)
  then have b': "build_image img_svc0 img_env0 build_req0 img_world0 = (w1, None)" using b by simp
  have n: "xd_next (xw_db img_world0) = 2" by (simp add: img_samples)
  have h: "xv_cosign img_svc0 = [] \<or> xv_cosign img_svc0 \<in> xw_keys img_world0" "distinct (map im_id (xd_images (xw_db img_world0)))"
    "\<forall>r \<in> set (xd_images (xw_db img_world0)). im_id r < xd_next (xw_db img_world0)"
    by (simp_all add: img_samples)
  show ?thesis
    using b' pipeline_settles [OF calm0 b' h, of "\<lambda>n. n \<noteq> scan_name 2"] unfolding n by (simp add: pipeline_outcome_def)
qed

theorem rebuilt_image_stays_signed_witness:
  "\<exists>w1 r'. rebuild_image img_svc0 img_env0 1 img_world0 = (w1, None) \<and>
    row_of im_id 1 (xd_images (xw_db ((img_round img_svc0 img_env0 (\<lambda>n. n \<noteq> scan_name 1) ^^ 4) w1))) = Some r' \<and> im_signed r' \<and>
    im_scan r' = ''high''"
proof -
  have r0: "row_of im_id 1 (xd_images (xw_db img_world0)) = Some img_row0" by (simp add: img_samples)
  have d0: "trim_space (im_docker img_row0) \<noteq> []" unfolding img_row0_def by code_simp
  obtain w1 x where b: "rebuild_image img_svc0 img_env0 1 img_world0 = (w1, x)" by fastforce
  have "x = None"
    using b rebuild_accepted [OF calm0 _ r0 d0] by (simp add: img_svc0_def)
  then have b': "rebuild_image img_svc0 img_env0 1 img_world0 = (w1, None)" using b by simp
  have h: "xv_cosign img_svc0 = [] \<or> xv_cosign img_svc0 \<in> xw_keys img_world0" "distinct (map im_id (xd_images (xw_db img_world0)))"
    "row_of im_id 1 (xd_images (xw_db img_world0)) = Some img_row0" "im_signed img_row0"
    by (simp_all add: img_samples)
  show ?thesis
    using b' rebuilt_image_stays_signed [OF calm0 h b', of "\<lambda>n. n \<noteq> scan_name 1"] by auto
qed

theorem external_reference_kept_witness:
  "\<exists>w' r. register_external img_env0 external_req0 img_world0 = (w', None) \<and> xd_images (xw_db w') = [img_row0, r] \<and>
    img_ref r = ''codercom/code-server:latest''"
proof -
  obtain w' x where b: "register_external img_env0 external_req0 img_world0 = (w', x)" by fastforce
  have "trim_space ''codercom/code-server'' = ''codercom/code-server''"
    "last_index (CHR ''/'') ''codercom/code-server'' = 8" "last_index (CHR '':'') ''codercom/code-server'' = -1" by code_simp+
  note t = this
  have "x = None"
    using b by (simp add: register_external_def external_req0_def t split_ref_def normalize_channels_def img_create_def img_env0_def Let_def)
  then have b': "register_external img_env0 external_req0 img_world0 = (w', None)" using b by simp
  have h: "xe_ok img_env0 IGet" "xv_registry img_svc0 \<noteq> []" "\<forall>r \<in> set (xd_images (xw_db img_world0)). im_id r < xd_next (xw_db img_world0)"
    by (simp_all add: img_samples)
  have i: "xd_images (xw_db img_world0) = [img_row0]" by (simp add: img_world0_def)
  have "xr_ref external_req0 = ''codercom/code-server''" by (simp add: external_req0_def)
  then show ?thesis using b' external_reference_kept [OF b' h] unfolding i by (auto simp: t)
qed

theorem prefetch_pods_collide_witness:
  "\<exists>w1 w2. cache_on_node img_svc0 img_env0 1 ''gpu.1'' img_world0 = (w1, None) \<and>
    cache_on_node img_svc0 img_env0 1 ''gpu-1'' w1 = (w2, None) \<and>
    row_of pf_key (1, ''gpu.1'') (xd_caches (xw_db (img_reconcile_once img_svc0 img_env0 (pulled (prefetch_name 1 ''gpu-1'') w2)))) =
      Some \<lparr>pf_image = 1, pf_node = ''gpu.1'', pf_status = ''cached''\<rparr>"
proof -
  have h: "img_get (xe_ok img_env0) 1 (xw_db img_world0) = Some img_row0" "(''gpu.1'' :: string) \<noteq> ''gpu-1''"
    "\<forall>c \<in> set (xd_caches (xw_db img_world0)). pf_status c \<noteq> ''pulling'' \<and> pf_key c \<noteq> (1, ''gpu.1'') \<and> pf_key c \<noteq> (1, ''gpu-1'')"
    by (simp_all add: img_samples img_get_def)
  have n: "prefetch_name 1 ''gpu.1'' = prefetch_name 1 ''gpu-1''" by code_simp
  show ?thesis using prefetch_pods_collide [OF calm0 h(1) n h(2,3)] by blast
qed

end
