(* ===== verification/Accounts.thy ===== *)
theory Accounts
  imports Teams
begin

text \<open>
  Accounts and sign-in: \<open>internal/auth\<close> (login, sign-up, the session keys the middleware reads, SSH keys,
  passwords, the first administrator) and \<open>internal/users\<close> (the administrators' list, status changes and creation
  of accounts). Hashing of passwords and parsing of SSH keys are golang.org/x/crypto: \<open>pw_hash\<close>, \<open>pw_match\<close> and
  \<open>parse_key\<close> are arguments, with the laws \<open>bcrypt_ok\<close> and \<open>one_line\<close> where a property needs them. Memberships and
  join requests are the tables of \<open>Teams\<close>. Names are compared exactly.
\<close>

section \<open>Tables\<close>

record user_row =
  us_id :: int
  us_name :: string
  us_hash :: string
  us_email :: string
  us_first :: string
  us_last :: string
  us_first_en :: string
  us_last_en :: string
  us_sponsor :: string
  us_key :: string
  us_role :: string
  us_status :: string
  us_signup :: "int option"
  us_terms :: "time option"

record auth_session =
  as_key :: string
  as_user :: int
  as_created :: time
  as_expires :: time

record acc_db =
  ab_users :: "user_row list"
  ab_sessions :: "auth_session list"
  ab_team :: group_db
  ab_next :: int
  ab_synced :: "int list"

datatype astmt = AFindName | AFindId | ACreate | AKey | APassword | AJoin | ASession | AFindSession | ADropSession
  | AStatus | AMember | AMark | AClear | AInsert | ASelect | AInsertMember

type_synonym acc_oracle = "astmt \<Rightarrow> bool"

datatype acc_error = InvalidCredentials | PendingApproval | Suspended | Rejected | UsernameTaken | WeakPassword
  | BadPublicKey | AccNotFound | AccBody | AccHash | AccDb | AccDuplicate | NoAuth

record crypt =
  pw_hash :: "string \<Rightarrow> string \<Rightarrow> string option"
  pw_match :: "string \<Rightarrow> string \<Rightarrow> bool"
  parse_key :: "string \<Rightarrow> (string \<times> string) option"

definition bcrypt_ok :: "crypt \<Rightarrow> bool" where
  "bcrypt_ok c \<longleftrightarrow> (\<forall>salt p h. pw_hash c salt p = Some h \<longrightarrow> pw_match c h p)"

text \<open>What a call meets: the statements that succeed, the time, and random data (a salt, a session key, key pairs).\<close>

record acc_env =
  ae_ok :: acc_oracle
  ae_now :: time
  ae_salt :: string
  ae_token :: string
  ae_pair :: "(string \<times> string) option"

section \<open>Statements\<close>

text \<open>A lookup of one row: \<open>Inl None\<close> when there is none, \<open>Inl (Some _)\<close> on a database error.\<close>

definition first_user :: "bool \<Rightarrow> (user_row \<Rightarrow> bool) \<Rightarrow> acc_db \<Rightarrow> acc_error + user_row" where
  "first_user ok P db = (if \<not> ok then Inl AccDb else case find P (ab_users db) of None \<Rightarrow> Inl AccNotFound | Some u \<Rightarrow> Inr u)"

definition find_user_by_username :: "acc_oracle \<Rightarrow> string \<Rightarrow> acc_db \<Rightarrow> acc_error + user_row" where
  "find_user_by_username ok n db = first_user (ok AFindName) (\<lambda>u. us_name u = n) db"

definition find_user_by_id :: "acc_oracle \<Rightarrow> int \<Rightarrow> acc_db \<Rightarrow> acc_error + user_row" where
  "find_user_by_id ok i db = first_user (ok AFindId) (\<lambda>u. us_id u = i) db"

text \<open>The unique key refuses a second row of a name.\<close>

definition insert_user :: "bool \<Rightarrow> user_row \<Rightarrow> acc_db \<Rightarrow> acc_db \<times> int option" where
  "insert_user ok u db =
     (if \<not> ok \<or> (\<exists>v \<in> set (ab_users db). us_name v = us_name u) then (db, None)
      else (db\<lparr>ab_users := ab_users db @ [u\<lparr>us_id := ab_next db\<rparr>], ab_next := ab_next db + 1\<rparr>, Some (ab_next db)))"

definition upd_account :: "int \<Rightarrow> (user_row \<Rightarrow> user_row) \<Rightarrow> acc_db \<Rightarrow> acc_db" where
  "upd_account i f db = db\<lparr>ab_users := upd_row us_id i f (ab_users db)\<rparr>"

definition update_ssh_key :: "acc_oracle \<Rightarrow> int \<Rightarrow> string \<Rightarrow> acc_db \<Rightarrow> acc_db \<times> bool" where
  "update_ssh_key ok i k db = (if ok AKey then (upd_account i (\<lambda>u. u\<lparr>us_key := k\<rparr>) db, True) else (db, False))"

definition update_password :: "acc_oracle \<Rightarrow> int \<Rightarrow> string \<Rightarrow> acc_db \<Rightarrow> acc_db \<times> bool" where
  "update_password ok i h db = (if ok APassword then (upd_account i (\<lambda>u. u\<lparr>us_hash := h\<rparr>) db, True) else (db, False))"

definition signup_join_request :: "acc_oracle \<Rightarrow> int \<Rightarrow> int \<Rightarrow> acc_db \<Rightarrow> acc_db \<times> bool" where
  "signup_join_request ok u g db =
     (let (t, b) = create_join_request (\<lambda>_. ok AJoin) u g (ab_team db) in (db\<lparr>ab_team := t\<rparr>, b))"

definition insert_session :: "acc_oracle \<Rightarrow> auth_session \<Rightarrow> acc_db \<Rightarrow> acc_db \<times> bool" where
  "insert_session ok s db =
     (if \<not> ok ASession \<or> row_of as_key (as_key s) (ab_sessions db) \<noteq> None then (db, False)
      else (db\<lparr>ab_sessions := ab_sessions db @ [s]\<rparr>, True))"

definition find_session :: "acc_oracle \<Rightarrow> time \<Rightarrow> string \<Rightarrow> acc_db \<Rightarrow> acc_error + auth_session" where
  "find_session ok now k db =
     (if \<not> ok AFindSession then Inl AccDb
      else case find (\<lambda>s. as_key s = k \<and> now < as_expires s) (ab_sessions db) of None \<Rightarrow> Inl AccNotFound | Some s \<Rightarrow> Inr s)"

definition delete_auth_session :: "acc_oracle \<Rightarrow> string \<Rightarrow> acc_db \<Rightarrow> acc_db" where
  "delete_auth_session ok k db =
     (if ok ADropSession then db\<lparr>ab_sessions := filter (\<lambda>s. as_key s \<noteq> k) (ab_sessions db)\<rparr> else db)"

section \<open>Signing in\<close>

definition login_status :: "string \<Rightarrow> acc_error option" where
  "login_status st =
     (if st = ''approved'' then None
      else if st = ''pending'' then Some PendingApproval
      else if st = ''suspended'' then Some Suspended
      else if st = ''rejected'' then Some Rejected
      else Some InvalidCredentials)"

definition min_password_len :: nat where
  "min_password_len = 8"

definition issue_session :: "duration \<Rightarrow> acc_env \<Rightarrow> user_row \<Rightarrow> acc_db \<Rightarrow> acc_db \<times> (acc_error + string \<times> user_row)" where
  "issue_session ttl e u db =
     (case insert_session (ae_ok e) \<lparr>as_key = ae_token e, as_user = us_id u, as_created = ae_now e, as_expires = ae_now e + ttl\<rparr> db of
        (db', True) \<Rightarrow> (db', Inr (ae_token e, u))
      | (db', False) \<Rightarrow> (db', Inl AccDb))"

definition login_user :: "crypt \<Rightarrow> duration \<Rightarrow> acc_env \<Rightarrow> string \<Rightarrow> string \<Rightarrow> acc_db \<Rightarrow> acc_db \<times> (acc_error + string \<times> user_row)" where
  "login_user c ttl e name pw db =
     (case find_user_by_username (ae_ok e) name db of
        Inl err \<Rightarrow> (db, Inl (if err = AccNotFound then InvalidCredentials else err))
      | Inr u \<Rightarrow>
          (case login_status (us_status u) of
             Some err \<Rightarrow> (db, Inl err)
           | None \<Rightarrow> if \<not> pw_match c (us_hash u) pw then (db, Inl InvalidCredentials) else issue_session ttl e u db))"

record signup_req =
  sg_name :: string
  sg_password :: string
  sg_email :: string
  sg_first :: string
  sg_last :: string
  sg_first_en :: string
  sg_last_en :: string
  sg_sponsor :: string
  sg_group :: "int option"
  sg_terms :: bool

definition new_pending_user :: "time \<Rightarrow> signup_req \<Rightarrow> string \<Rightarrow> user_row" where
  "new_pending_user now q h =
     \<lparr>us_id = 0, us_name = sg_name q, us_hash = h, us_email = sg_email q, us_first = sg_first q, us_last = sg_last q,
      us_first_en = sg_first_en q, us_last_en = sg_last_en q, us_sponsor = sg_sponsor q, us_key = [], us_role = ''member'',
      us_status = ''pending'', us_signup = sg_group q, us_terms = (if sg_terms q then Some now else None)\<rparr>"

definition signup :: "crypt \<Rightarrow> acc_env \<Rightarrow> signup_req \<Rightarrow> acc_db \<Rightarrow> acc_db \<times> acc_error option" where
  "signup c e q db =
     (if length (sg_password q) < min_password_len then (db, Some WeakPassword)
      else case find_user_by_username (ae_ok e) (sg_name q) db of
             Inr _ \<Rightarrow> (db, Some UsernameTaken)
           | Inl err \<Rightarrow>
               if err \<noteq> AccNotFound then (db, Some err)
               else (case pw_hash c (ae_salt e) (sg_password q) of None \<Rightarrow> (db, Some AccHash)
                     | Some h \<Rightarrow>
                         (case insert_user (ae_ok e ACreate) (new_pending_user (ae_now e) q h) db of
                            (db1, None) \<Rightarrow> (db1, Some AccDb)
                          | (db1, Some i) \<Rightarrow>
                              (case sg_group q of None \<Rightarrow> (db1, None)
                               | Some g \<Rightarrow>
                                   (case signup_join_request (ae_ok e) i g db1 of (db2, b) \<Rightarrow> (db2, if b then None else Some AccDb))))))"

definition authenticate :: "acc_env \<Rightarrow> string \<Rightarrow> acc_db \<Rightarrow> acc_error + user_row" where
  "authenticate e k db =
     (case find_session (ae_ok e) (ae_now e) k db of Inl err \<Rightarrow> Inl err
      | Inr s \<Rightarrow> find_user_by_id (ae_ok e) (as_user s) db)"

section \<open>The middleware\<close>

definition bearer :: "string \<Rightarrow> string" where
  "bearer h =
     (if h = [] then []
      else if has_prefix ''Bearer '' h then trim_space (trim_prefix ''Bearer '' h) else trim_space h)"

definition require_auth :: "acc_env \<Rightarrow> string \<Rightarrow> string \<Rightarrow> acc_db \<Rightarrow> user_row option" where
  "require_auth e header access_token db =
     (let key = (if bearer header = [] then trim_space access_token else bearer header)
      in if key = [] then None else case authenticate e key db of Inl _ \<Rightarrow> None | Inr u \<Rightarrow> Some u)"

text \<open>What the authorisation middleware sees of a caller.\<close>

definition caller_of :: "user_row \<Rightarrow> caller" where
  "caller_of u = \<lparr>c_id = us_id u, c_admin = (us_role u = ''admin'')\<rparr>"

section \<open>Keys and passwords\<close>

definition is_newline :: "char \<Rightarrow> bool" where
  "is_newline c \<longleftrightarrow> c = CHR 0x0A \<or> c = CHR 0x0D"

definition normalize_public_key :: "crypt \<Rightarrow> string \<Rightarrow> acc_error + string" where
  "normalize_public_key c raw =
     (let s = trim_space raw
      in if s = [] then Inr []
         else (let s1 = (if \<exists>x \<in> set s. is_newline x then trim_space (takeWhile (\<lambda>x. \<not> is_newline x) s) else s)
               in case parse_key c s1 of None \<Rightarrow> Inl BadPublicKey
                  | Some (key, comment) \<Rightarrow> Inr (trim_space key @ (if comment \<noteq> [] then '' '' @ comment else []))))"

definition sync_keys :: "int \<Rightarrow> acc_db \<Rightarrow> acc_db" where
  "sync_keys i db = db\<lparr>ab_synced := ab_synced db @ [i]\<rparr>"

definition set_ssh_key :: "crypt \<Rightarrow> acc_env \<Rightarrow> int \<Rightarrow> string \<Rightarrow> acc_db \<Rightarrow> acc_db \<times> acc_error option" where
  "set_ssh_key c e i raw db =
     (case normalize_public_key c raw of Inl err \<Rightarrow> (db, Some err)
      | Inr k \<Rightarrow> (case update_ssh_key (ae_ok e) i k db of (db', True) \<Rightarrow> (sync_keys i db', None) | (db', False) \<Rightarrow> (db', Some AccDb)))"

text \<open>A generated pair is the marshalled public key and the private one; the public key gets the comment.\<close>

definition generate_ssh_key :: "acc_env \<Rightarrow> int \<Rightarrow> string \<Rightarrow> acc_db \<Rightarrow> acc_db \<times> (acc_error + string)" where
  "generate_ssh_key e i comment db =
     (case ae_pair e of None \<Rightarrow> (db, Inl AccHash)
      | Some (pub, priv) \<Rightarrow>
          (case update_ssh_key (ae_ok e) i (trim_space pub @ (if comment \<noteq> [] then '' '' @ comment else [])) db of
             (db', True) \<Rightarrow> (sync_keys i db', Inr priv)
           | (db', False) \<Rightarrow> (db', Inl AccDb)))"

definition change_password :: "crypt \<Rightarrow> acc_env \<Rightarrow> int \<Rightarrow> string \<Rightarrow> string \<Rightarrow> acc_db \<Rightarrow> acc_db \<times> acc_error option" where
  "change_password c e i cur nxt db =
     (case find_user_by_id (ae_ok e) i db of Inl err \<Rightarrow> (db, Some err)
      | Inr u \<Rightarrow>
          if \<not> pw_match c (us_hash u) cur then (db, Some InvalidCredentials)
          else if length nxt < min_password_len then (db, Some WeakPassword)
          else (case pw_hash c (ae_salt e) nxt of None \<Rightarrow> (db, Some AccHash)
                | Some h \<Rightarrow> (case update_password (ae_ok e) i h db of (db', b) \<Rightarrow> (db', if b then None else Some AccDb))))"

definition blank_user :: user_row where
  "blank_user = \<lparr>us_id = 0, us_name = [], us_hash = [], us_email = [], us_first = [], us_last = [], us_first_en = [], us_last_en = [],
     us_sponsor = [], us_key = [], us_role = [], us_status = [], us_signup = None, us_terms = None\<rparr>"

definition ensure_admin :: "crypt \<Rightarrow> acc_env \<Rightarrow> string \<Rightarrow> string \<Rightarrow> acc_db \<Rightarrow> acc_db \<times> acc_error option" where
  "ensure_admin c e name pw db =
     (if name = [] \<or> pw = [] then (db, None)
      else case find_user_by_username (ae_ok e) name db of
             Inr _ \<Rightarrow> (db, None)
           | Inl err \<Rightarrow>
               if err \<noteq> AccNotFound then (db, Some err)
               else (case pw_hash c (ae_salt e) pw of None \<Rightarrow> (db, Some AccHash)
                     | Some h \<Rightarrow>
                         (case insert_user (ae_ok e ACreate)
                                 (blank_user\<lparr>us_name := name, us_hash := h, us_role := ''admin'', us_status := ''approved''\<rparr>) db of
                            (db', r) \<Rightarrow> (db', if r = None then Some AccDb else None))))"

section \<open>Administration of accounts\<close>

text \<open>Approval turns the team chosen at sign-up into a membership, in one transaction; the last two statements'
  errors are ignored.\<close>

definition set_user_status :: "acc_oracle \<Rightarrow> int \<Rightarrow> string \<Rightarrow> acc_db \<Rightarrow> acc_db \<times> bool" where
  "set_user_status ok i st db =
     (if \<not> ok AStatus then (db, False)
      else (let db1 = upd_account i (\<lambda>u. u\<lparr>us_status := st\<rparr>) db
            in if st \<noteq> ''approved'' then (db1, True)
               else case (if ok ASelect then Option.bind (row_of us_id i (ab_users db1)) us_signup else None) of
                      None \<Rightarrow> (db1, True)
                    | Some g \<Rightarrow>
                        if g \<le> 0 then (db1, True)
                        else if \<not> ok AMember then (db, False)
                        else (let t = put_member g i ''member'' ''active'' (\<lambda>m. m\<lparr>me_status := ''active''\<rparr>) (ab_team db1);
                                  t' = (if ok AMark
                                        then t\<lparr>gd_requests := upd_where (\<lambda>j. jr_user j = i \<and> jr_group j = g \<and> jr_status j = ''pending'')
                                                (\<lambda>j. j\<lparr>jr_status := ''approved''\<rparr>) (gd_requests t)\<rparr>
                                        else t);
                                  db2 = db1\<lparr>ab_team := t'\<rparr>
                              in (if ok AClear then upd_account i (\<lambda>u. u\<lparr>us_signup := None\<rparr>) db2 else db2, True))))"

record create_user_req =
  cq_name :: string
  cq_password :: string
  cq_email :: string
  cq_first :: string
  cq_last :: string
  cq_role :: string
  cq_group :: "int option"

definition default_password :: string where
  "default_password = ''giosk123''"

text \<open>One transaction too; the membership is inserted plainly, so an existing one is an error.\<close>

definition create_user :: "crypt \<Rightarrow> acc_env \<Rightarrow> create_user_req \<Rightarrow> acc_db \<Rightarrow> acc_db \<times> (acc_error + int)" where
  "create_user c e q db =
     (case pw_hash c (ae_salt e) (or_default (cq_password q) default_password) of None \<Rightarrow> (db, Inl AccHash)
      | Some h \<Rightarrow>
          (case insert_user (ae_ok e AInsert)
                  (blank_user\<lparr>us_name := cq_name q, us_hash := h, us_email := cq_email q, us_first := cq_first q, us_last := cq_last q,
                              us_role := or_default (cq_role q) ''member'', us_status := ''approved''\<rparr>) db of
             (_, None) \<Rightarrow> (db, Inl (if ae_ok e AInsert then AccDuplicate else AccDb))
           | (db1, Some i) \<Rightarrow>
               if \<not> ae_ok e ASelect then (db, Inl AccDb)
               else (case cq_group q of None \<Rightarrow> (db1, Inr i)
                     | Some g \<Rightarrow>
                         if \<not> ae_ok e AInsertMember \<or> row_of me_key (g, i) (gd_members (ab_team db1)) \<noteq> None then (db, Inl AccDb)
                         else (db1\<lparr>ab_team := put_member g i ''member'' ''active'' id (ab_team db1)\<rparr>, Inr i))))"

fun bulk_create :: "crypt \<Rightarrow> acc_env list \<Rightarrow> create_user_req list \<Rightarrow> acc_db \<Rightarrow> acc_db \<times> nat \<times> nat" where
  "bulk_create c (e # es) (q # qs) db =
     (case create_user c e q db of
        (db1, Inl _) \<Rightarrow> (case bulk_create c es qs db1 of (db2, made, failed) \<Rightarrow> (db2, made, Suc failed))
      | (db1, Inr _) \<Rightarrow> (case bulk_create c es qs db1 of (db2, made, failed) \<Rightarrow> (db2, Suc made, failed)))"
| "bulk_create c _ _ db = (db, 0, 0)"

section \<open>The list of users\<close>

text \<open>The representative membership of a user: an active one, by the order of roles.\<close>

record user_summary =
  sm_user :: user_row
  sm_member :: "membership option"
  sm_group :: "grp option"
  sm_org :: "int option"
  sm_badges :: "(membership \<times> grp) list"

definition representative :: "group_db \<Rightarrow> int \<Rightarrow> membership option" where
  "representative t u =
     (case sort_key (\<lambda>m. field_rank (me_role m) [''org_admin'', ''project_admin'', ''billing_admin'', ''member'', ''guest''])
             (filter (\<lambda>m. me_user m = u \<and> is_active m) (gd_members t)) of [] \<Rightarrow> None | m # _ \<Rightarrow> Some m)"

definition role_badges :: "group_db \<Rightarrow> int \<Rightarrow> (membership \<times> grp) list" where
  "role_badges t u = sort_key (\<lambda>x. field_rank (me_role (fst x)) [''org_admin'', ''project_admin''])
     (sort_key (\<lambda>x. gr_id (snd x)) (filter (\<lambda>x. me_role (fst x) \<in> {''org_admin'', ''project_admin''}) (joined u t)))"

definition summary_of :: "group_db \<Rightarrow> user_row \<Rightarrow> user_summary" where
  "summary_of t u =
     (let m = representative t (us_id u);
          g = Option.bind m (\<lambda>m. row_of gr_id (me_group m) (gd_groups t));
          o1 = Option.bind g (\<lambda>g. if gr_org g \<in> set (gd_orgs t) then Some (gr_org g) else None)
      in \<lparr>sm_user = u, sm_member = m, sm_group = g, sm_org = o1, sm_badges = role_badges t (us_id u)\<rparr>)"

record list_filter =
  lf_q :: string
  lf_status :: string
  lf_group :: string
  lf_org :: string
  lf_org_id :: int
  lf_group_id :: int
  lf_user_id :: int
  lf_limit :: int
  lf_offset :: int

text \<open>The texts a search looks at, the pattern match of the database and the display names of organisations are
  arguments.\<close>

definition matches_filter :: "(string \<Rightarrow> string \<Rightarrow> bool) \<Rightarrow> (int \<Rightarrow> string) \<Rightarrow> list_filter \<Rightarrow> user_summary \<Rightarrow> bool" where
  "matches_filter like oname f s =
     (let u = sm_user s; q = trim_space (lf_q f)
      in (q \<noteq> [] \<longrightarrow> like q (us_name u) \<or> like q (us_email u) \<or> like q (trim_space (us_last u @ us_first u))) \<and>
         (lf_status f \<noteq> [] \<longrightarrow> us_status u = lf_status f) \<and>
         (lf_group f \<noteq> [] \<longrightarrow> map_option gr_display (sm_group s) = Some (lf_group f)) \<and>
         (lf_org f \<noteq> [] \<longrightarrow> map_option oname (sm_org s) = Some (lf_org f)) \<and>
         (0 < lf_org_id f \<longrightarrow> map_option gr_org (sm_group s) = Some (lf_org_id f)) \<and>
         (0 < lf_group_id f \<longrightarrow> map_option gr_id (sm_group s) = Some (lf_group_id f)) \<and>
         (0 < lf_user_id f \<longrightarrow> us_id u = lf_user_id f))"

definition list_users :: "(string \<Rightarrow> string \<Rightarrow> bool) \<Rightarrow> (int \<Rightarrow> string) \<Rightarrow> list_filter \<Rightarrow> acc_db \<Rightarrow> user_summary list \<times> nat" where
  "list_users like oname f db =
     (let all = filter (matches_filter like oname f) (map (summary_of (ab_team db)) (sort_key us_id (ab_users db)))
      in (if 0 < lf_limit f then take (nat (lf_limit f)) (drop (nat (lf_offset f)) all) else all, length all))"

definition user_by_id :: "(string \<Rightarrow> string \<Rightarrow> bool) \<Rightarrow> (int \<Rightarrow> string) \<Rightarrow> int \<Rightarrow> acc_db \<Rightarrow> user_summary option" where
  "user_by_id like oname i db =
     (case fst (list_users like oname \<lparr>lf_q = [], lf_status = [], lf_group = [], lf_org = [], lf_org_id = 0, lf_group_id = 0,
                  lf_user_id = i, lf_limit = 1, lf_offset = 0\<rparr> db) of [] \<Rightarrow> None | s # _ \<Rightarrow> Some s)"

definition atoi_default :: "string \<Rightarrow> int \<Rightarrow> int" where
  "atoi_default s d = (if s = [] then d else case parse_int64 s of None \<Rightarrow> d | Some n \<Rightarrow> n)"

definition default_page_size :: int where "default_page_size = 50"
definition max_page_size :: int where "max_page_size = 200"

definition page_of :: "string \<Rightarrow> int" where
  "page_of s = (let p = atoi_default s 1 in if p < 1 then 1 else p)"

definition page_size :: "string \<Rightarrow> int" where
  "page_size s = (let n = atoi_default s default_page_size in if n < 1 \<or> max_page_size < n then default_page_size else n)"

record list_query =
  lq_q :: string
  lq_status :: string
  lq_group :: string
  lq_org :: string
  lq_page :: string
  lq_size :: string

definition query_filter :: "list_query \<Rightarrow> list_filter" where
  "query_filter q = \<lparr>lf_q = lq_q q, lf_status = lq_status q, lf_group = lq_group q, lf_org = lq_org q, lf_org_id = 0, lf_group_id = 0,
     lf_user_id = 0, lf_limit = page_size (lq_size q), lf_offset = (page_of (lq_page q) - 1) * page_size (lq_size q)\<rparr>"

definition in_scope :: "scope \<Rightarrow> list_filter \<Rightarrow> list_filter" where
  "in_scope s f = (case sc_level s of Platform \<Rightarrow> f | OrgLevel \<Rightarrow> f\<lparr>lf_org_id := sc_org s\<rparr> | GroupLevel \<Rightarrow> f\<lparr>lf_group_id := sc_group s\<rparr>)"

definition list_scoped :: "(string \<Rightarrow> string \<Rightarrow> bool) \<Rightarrow> (int \<Rightarrow> string) \<Rightarrow> scope \<Rightarrow> list_query \<Rightarrow> acc_db \<Rightarrow> user_summary list \<times> nat" where
  "list_scoped like oname s q db = list_users like oname (in_scope s (query_filter q)) db"

section \<open>The requests\<close>

text \<open>The first group anybody may send, the second whoever is signed in, the third platform administrators.\<close>

datatype acc_op =
    Login "(string \<times> string) option"
  | Signup "signup_req option"
  | Logout string
  | SetKey string string "string option"
  | GenerateKey string string
  | ChangePassword string string "(string \<times> string) option"
  | SetUserStatus string "string option"
  | CreateUser "create_user_req option"

definition self_service :: "acc_op \<Rightarrow> bool" where
  "self_service op = (case op of SetUserStatus _ _ \<Rightarrow> False | CreateUser _ \<Rightarrow> False | _ \<Rightarrow> True)"

definition as_user_of :: "acc_env \<Rightarrow> string \<Rightarrow> string \<Rightarrow> acc_db \<Rightarrow> (user_row \<Rightarrow> acc_db \<times> acc_error option) \<Rightarrow> acc_db \<times> acc_error option" where
  "as_user_of e header tok db h = (case require_auth e header tok db of None \<Rightarrow> (db, Some NoAuth) | Some u \<Rightarrow> h u)"

definition acc_handle :: "crypt \<Rightarrow> duration \<Rightarrow> acc_env \<Rightarrow> acc_op \<Rightarrow> acc_db \<Rightarrow> acc_db \<times> acc_error option" where
  "acc_handle c ttl e op db =
     (case op of
        Login b \<Rightarrow>
          (case b of None \<Rightarrow> (db, Some AccBody)
           | Some (n, p) \<Rightarrow>
               if n = [] \<or> p = [] then (db, Some AccBody)
               else (case login_user c ttl e n p db of (db', Inl err) \<Rightarrow> (db', Some err) | (db', Inr _) \<Rightarrow> (db', None)))
      | Signup b \<Rightarrow>
          (case b of None \<Rightarrow> (db, Some AccBody)
           | Some q \<Rightarrow>
               if sg_name q = [] \<or> sg_password q = [] \<or> sg_email q = [] \<or> sg_last q = [] then (db, Some AccBody) else signup c e q db)
      | Logout header \<Rightarrow> (delete_auth_session (ae_ok e) (bearer header) db, None)
      | SetKey header tok b \<Rightarrow>
          as_user_of e header tok db (\<lambda>u. case b of None \<Rightarrow> (db, Some AccBody) | Some k \<Rightarrow> set_ssh_key c e (us_id u) k db)
      | GenerateKey header tok \<Rightarrow>
          as_user_of e header tok db (\<lambda>u. case generate_ssh_key e (us_id u) (''giosk-'' @ us_name u) db of
            (db', Inl err) \<Rightarrow> (db', Some err) | (db', Inr _) \<Rightarrow> (db', None))
      | ChangePassword header tok b \<Rightarrow>
          as_user_of e header tok db
            (\<lambda>u. case b of None \<Rightarrow> (db, Some AccBody) | Some (cur, nxt) \<Rightarrow> change_password c e (us_id u) cur nxt db)
      | SetUserStatus i b \<Rightarrow>
          (case b of None \<Rightarrow> (db, Some AccBody)
           | Some st \<Rightarrow> if st = [] then (db, Some AccBody)
                        else (case set_user_status (ae_ok e) (parse_id i) st db of (db', ok) \<Rightarrow> (db', if ok then None else Some AccDb)))
      | CreateUser b \<Rightarrow>
          (case b of None \<Rightarrow> (db, Some AccBody)
           | Some q \<Rightarrow> if cq_name q = [] then (db, Some AccBody)
                       else (case create_user c e q db of (db', Inl err) \<Rightarrow> (db', Some err) | (db', Inr _) \<Rightarrow> (db', None))))"

text \<open>A run of requests.\<close>

inductive acc_run :: "crypt \<Rightarrow> duration \<Rightarrow> (acc_op \<Rightarrow> bool) \<Rightarrow> acc_db \<Rightarrow> acc_db \<Rightarrow> bool" for c ttl allowed where
  acc_stay: "acc_run c ttl allowed db db"
| acc_step: "acc_run c ttl allowed db db1 \<Longrightarrow> allowed op \<Longrightarrow> acc_handle c ttl e op db1 = (db2, r) \<Longrightarrow> acc_run c ttl allowed db db2"

end
