(* ===== verification/Account_Safety.thy ===== *)
theory Account_Safety
  imports Accounts
begin

text \<open>
  What accounts and sign-in guarantee: who gets a session key, what self-service requests can change, how pages of
  the user list fit together; and where the guarantees end: a suspended account keeps its sessions, and a sign-up
  enters a team that takes no join requests.
\<close>

section \<open>Lookups\<close>

lemma find_row_of: "find (\<lambda>x. key x = k) t = row_of key k t"
  by (induction t) auto

lemma find_user_by_id_row:
  "find_user_by_id ok i db = Inr u \<longleftrightarrow> ok AFindId \<and> row_of us_id i (ab_users db) = Some u"
  by (simp add: find_user_by_id_def first_user_def find_row_of split: option.split)

lemma find_user_by_username_row:
  "find_user_by_username ok n db = Inr u \<longleftrightarrow> ok AFindName \<and> row_of us_name n (ab_users db) = Some u"
  by (simp add: find_user_by_username_def first_user_def find_row_of split: option.split)

lemma upd_account_tables [simp]:
  "ab_users (upd_account i f db) = upd_row us_id i f (ab_users db)" "ab_sessions (upd_account i f db) = ab_sessions db"
  "ab_team (upd_account i f db) = ab_team db"
  by (simp_all add: upd_account_def)

section \<open>Who gets a session\<close>

lemma sessions_kept:
  "ab_sessions (fst (update_ssh_key ok i k db)) = ab_sessions db" "ab_sessions (fst (update_password ok i h db)) = ab_sessions db"
  "ab_sessions (fst (insert_user b u db)) = ab_sessions db" "ab_sessions (fst (signup_join_request ok i g db)) = ab_sessions db"
  "ab_sessions (sync_keys i db) = ab_sessions db" "ab_sessions (fst (set_user_status ok i st db)) = ab_sessions db"
  by (simp_all add: update_ssh_key_def update_password_def insert_user_def signup_join_request_def sync_keys_def
      set_user_status_def Let_def split: prod.split option.split)

lemma sessions_after:
  "update_ssh_key ok i k db = (d, b) \<Longrightarrow> ab_sessions d = ab_sessions db"
  "update_password ok i h db = (d, b) \<Longrightarrow> ab_sessions d = ab_sessions db"
  "insert_user x u db = (d, y) \<Longrightarrow> ab_sessions d = ab_sessions db"
  "signup_join_request ok i g db = (d, b) \<Longrightarrow> ab_sessions d = ab_sessions db"
  "set_user_status ok i st db = (d, b) \<Longrightarrow> ab_sessions d = ab_sessions db"
  using sessions_kept(1) [of ok i k db] sessions_kept(2) [of ok i h db] sessions_kept(3) [of x u db] sessions_kept(4) [of ok i g db]
    sessions_kept(6) [of ok i st db] by simp_all

lemma signup_sessions: "signup c e q db = (d, r) \<Longrightarrow> ab_sessions d = ab_sessions db"
  by (auto simp: signup_def split: sum.splits option.splits if_splits prod.splits dest!: sessions_after)

lemma set_key_sessions: "set_ssh_key c e i k db = (d, r) \<Longrightarrow> ab_sessions d = ab_sessions db"
  by (auto simp: set_ssh_key_def sessions_kept split: sum.splits prod.splits bool.splits dest!: sessions_after)

lemma generate_sessions: "generate_ssh_key e i cm db = (d, r) \<Longrightarrow> ab_sessions d = ab_sessions db"
  by (auto simp: generate_ssh_key_def sessions_kept split: option.splits prod.splits bool.splits dest!: sessions_after)

lemma change_sessions: "change_password c e i cur nxt db = (d, r) \<Longrightarrow> ab_sessions d = ab_sessions db"
  by (auto simp: change_password_def split: sum.splits option.splits if_splits prod.splits dest!: sessions_after)

lemma create_sessions: "create_user c e q db = (d, r) \<Longrightarrow> ab_sessions d = ab_sessions db"
  by (auto simp: create_user_def split: option.splits if_splits prod.splits dest!: sessions_after)

lemma login_sessions:
  assumes "login_user c ttl e n p db = (db', r)" "s \<in> set (ab_sessions db')" "s \<notin> set (ab_sessions db)"
  shows "\<exists>u. row_of us_name n (ab_users db) = Some u \<and> us_status u = ''approved'' \<and> pw_match c (us_hash u) p \<and>
    s = \<lparr>as_key = ae_token e, as_user = us_id u, as_created = ae_now e, as_expires = ae_now e + ttl\<rparr> \<and>
    row_of as_key (ae_token e) (ab_sessions db) = None"
  using assms
  by (auto simp: login_user_def issue_session_def insert_session_def login_status_def find_user_by_username_row
      split: sum.splits option.splits if_splits prod.splits bool.splits)

text \<open>C6: a session key exists only for who signed in: whenever a request leaves a new session, that request was a
  login with the name of an approved account and a password that matches its hash, and the session is that
  account's, from now for the configured time.\<close>

theorem sessions_issued_by_login:
  assumes "acc_handle c ttl e op db = (db', r)" "s \<in> set (ab_sessions db')" "s \<notin> set (ab_sessions db)"
  shows "\<exists>n p u. op = Login (Some (n, p)) \<and> row_of us_name n (ab_users db) = Some u \<and> us_status u = ''approved'' \<and>
    pw_match c (us_hash u) p \<and>
    s = \<lparr>as_key = ae_token e, as_user = us_id u, as_created = ae_now e, as_expires = ae_now e + ttl\<rparr>"
proof -
  have new: "ab_sessions db' \<noteq> ab_sessions db" using assms(2,3) by auto
  show ?thesis
  proof (cases op)
    case (Login b)
    obtain n p where b: "b = Some (n, p)" using assms(1) new Login by (cases b) (auto simp: acc_handle_def)
    obtain d x where l: "login_user c ttl e n p db = (d, x)" by fastforce
    have "d = db'" using assms(1) new Login b l by (auto simp: acc_handle_def split: if_splits sum.splits)
    then show ?thesis using login_sessions [OF l, of s] assms(2,3) Login b by auto
  next
    case (Logout h)
    then show ?thesis using assms by (auto simp: acc_handle_def delete_auth_session_def split: if_splits)
  next
    case (Signup b)
    then show ?thesis using assms(1) new by (auto simp: acc_handle_def split: option.splits if_splits dest: signup_sessions)
  next
    case (SetKey h t b)
    then show ?thesis using assms(1) new by (auto simp: acc_handle_def as_user_of_def split: option.splits dest: set_key_sessions)
  next
    case (GenerateKey h t)
    then show ?thesis using assms(1) new
      by (auto simp: acc_handle_def as_user_of_def split: option.splits prod.splits sum.splits dest: generate_sessions)
  next
    case (ChangePassword h t b)
    then show ?thesis using assms(1) new
      by (auto simp: acc_handle_def as_user_of_def split: option.splits dest: change_sessions)
  next
    case (SetUserStatus i b)
    then show ?thesis using assms(1) new
      by (auto simp: acc_handle_def split: option.splits if_splits prod.splits dest: sessions_after)
  next
    case (CreateUser b)
    then show ?thesis using assms(1) new
      by (auto simp: acc_handle_def split: option.splits if_splits prod.splits sum.splits dest: create_sessions)
  qed
qed

section \<open>What self-service can change\<close>

definition standing :: "user_row \<Rightarrow> int \<times> string \<times> string \<times> string \<times> int option" where
  "standing u = (us_id u, us_name u, us_role u, us_status u, us_signup u)"

definition newcomer :: "user_row \<Rightarrow> bool" where
  "newcomer u \<longleftrightarrow> us_role u = ''member'' \<and> us_status u = ''pending''"

text \<open>Rows keep their standing, new ones come behind them as pending members, and memberships stay.\<close>

definition only_newcomers :: "acc_db \<Rightarrow> acc_db \<Rightarrow> bool" where
  "only_newcomers db db' \<longleftrightarrow>
     (\<exists>new. map standing (ab_users db') = map standing (ab_users db) @ map standing new \<and> list_all newcomer new) \<and>
     gd_members (ab_team db') = gd_members (ab_team db)"

lemma newcomers_refl [simp]: "only_newcomers db db"
  by (auto simp: only_newcomers_def intro: exI [of _ "[]"])

lemma newcomers_trans: "only_newcomers a b \<Longrightarrow> only_newcomers b c \<Longrightarrow> only_newcomers a c"
proof -
  assume ab: "only_newcomers a b" and bc: "only_newcomers b c"
  obtain x where x: "map standing (ab_users b) = map standing (ab_users a) @ map standing x" "list_all newcomer x"
    using ab unfolding only_newcomers_def by blast
  obtain y where y: "map standing (ab_users c) = map standing (ab_users b) @ map standing y" "list_all newcomer y"
    using bc unfolding only_newcomers_def by blast
  have "map standing (ab_users c) = map standing (ab_users a) @ map standing (x @ y)" "list_all newcomer (x @ y)" using x y by simp_all
  then show ?thesis using ab bc unfolding only_newcomers_def by metis
qed

lemma newcomers_same:
  "map standing (ab_users db') = map standing (ab_users db) \<Longrightarrow> ab_team db' = ab_team db \<Longrightarrow> only_newcomers db db'"
  by (auto simp: only_newcomers_def intro: exI [of _ "[]"])

lemma standing_upd: "(\<And>u. standing (f u) = standing u) \<Longrightarrow> map standing (upd_row us_id i f t) = map standing t"
  by (induction t) auto

lemma newcomers_steps:
  "update_ssh_key ok i k db = (d, b) \<Longrightarrow> only_newcomers db d"
  "update_password ok i h db = (d, b) \<Longrightarrow> only_newcomers db d"
  "insert_user x (new_pending_user now q h) db = (d, y) \<Longrightarrow> only_newcomers db d"
  "signup_join_request ok i g db = (d, b) \<Longrightarrow> only_newcomers db d"
  "insert_session ok s db = (d, b) \<Longrightarrow> only_newcomers db d"
proof -
  show "only_newcomers db d" if "update_ssh_key ok i k db = (d, b)"
    using that by (intro newcomers_same) (auto simp: update_ssh_key_def standing_def standing_upd split: if_splits)
  show "only_newcomers db d" if "update_password ok i h db = (d, b)"
    using that by (intro newcomers_same) (auto simp: update_password_def standing_def standing_upd split: if_splits)
  show "only_newcomers db d" if "insert_user x (new_pending_user now q h) db = (d, y)"
  proof (cases "d = db")
    case False
    let ?u = "new_pending_user now q h\<lparr>us_id := ab_next db\<rparr>"
    have "ab_users d = ab_users db @ [?u]" "ab_team d = ab_team db" using that False by (auto simp: insert_user_def split: if_splits)
    then show ?thesis by (auto simp: only_newcomers_def newcomer_def new_pending_user_def intro!: exI [of _ "[?u]"])
  qed simp
  show "only_newcomers db d" if "signup_join_request ok i g db = (d, b)"
    using that by (auto simp: only_newcomers_def signup_join_request_def create_join_request_def Let_def split: if_splits intro: exI [of _ "[]"])
  show "only_newcomers db d" if "insert_session ok s db = (d, b)"
    using that by (intro newcomers_same) (auto simp: insert_session_def split: if_splits)
qed

lemma newcomers_sync [simp]: "only_newcomers db (sync_keys i d) \<longleftrightarrow> only_newcomers db d"
  by (simp add: only_newcomers_def sync_keys_def)

lemma newcomers_signup: "signup c e q db = (d, r) \<Longrightarrow> only_newcomers db d"
  by (auto simp: signup_def split: sum.splits option.splits if_splits prod.splits intro: newcomers_trans dest!: newcomers_steps)

lemma newcomers_op:
  assumes "acc_handle c ttl e op db = (d, r)" "self_service op"
  shows "only_newcomers db d"
proof (cases op)
  case (Login b)
  then show ?thesis using assms(1)
    by (auto simp: acc_handle_def login_user_def issue_session_def split: option.splits if_splits prod.splits sum.splits bool.splits
        dest: newcomers_steps)
next
  case (Signup b)
  then show ?thesis using assms(1) by (auto simp: acc_handle_def split: option.splits if_splits dest: newcomers_signup)
next
  case (Logout h)
  then show ?thesis using assms(1) by (intro newcomers_same) (auto simp: acc_handle_def delete_auth_session_def)
next
  case (SetKey h t b)
  then show ?thesis using assms(1)
    by (auto simp: acc_handle_def as_user_of_def set_ssh_key_def split: option.splits sum.splits prod.splits bool.splits
        dest!: newcomers_steps)
next
  case (GenerateKey h t)
  then show ?thesis using assms(1)
    by (auto simp: acc_handle_def as_user_of_def generate_ssh_key_def split: option.splits sum.splits prod.splits bool.splits
        dest!: newcomers_steps)
next
  case (ChangePassword h t b)
  then show ?thesis using assms(1)
    by (auto simp: acc_handle_def as_user_of_def change_password_def split: option.splits sum.splits prod.splits if_splits
        dest!: newcomers_steps)
qed (use assms(2) in \<open>simp_all add: self_service_def\<close>)

text \<open>C5: whatever self-service requests are sent, in any order and with any failures, every existing account keeps
  its id, name, role, status and chosen team, every new account is a pending member, and no membership changes.\<close>

theorem self_service_grants_nothing:
  assumes "acc_run c ttl self_service db db'"
  shows "\<exists>new. map standing (ab_users db') = map standing (ab_users db) @ map standing new \<and> list_all newcomer new \<and>
    gd_members (ab_team db') = gd_members (ab_team db)"
proof -
  have "only_newcomers db db'" using assms
  proof induction
    case (acc_step db db1 op e db2 r)
    then show ?case using newcomers_op newcomers_trans by blast
  qed simp
  then show ?thesis unfolding only_newcomers_def by blast
qed

section \<open>Where the guarantees end\<close>

lemma row_by_name:
  assumes "row_of us_name n t = Some u" "us_id u = i" "\<And>v. us_name (f v) = us_name v"
  shows "row_of us_name n (upd_row us_id i f t) = Some (f u)"
  using assms(1,2) by (induction t) (auto simp: assms(3) split: if_splits)

lemma find_session_row:
  assumes "row_of as_key k (ab_sessions db) = Some s" "now < as_expires s" "ok AFindSession"
  shows "find_session ok now k db = Inr s"
proof -
  have "find (\<lambda>s. as_key s = k \<and> now < as_expires s) t = Some s" if "row_of as_key k t = Some s" for t
    using that assms(2) by (induction t) (auto split: if_splits)
  then show ?thesis using assms by (simp add: find_session_def)
qed

text \<open>C35: suspending an account ends none of its sessions: until it expires its session key authenticates the same
  caller as before, with an administrator's rights if it had them; only new logins are refused.\<close>

theorem suspended_account_stays_in:
  assumes "row_of as_key k (ab_sessions db) = Some s" "row_of us_id (as_user s) (ab_users db) = Some u"
    and "row_of us_name (us_name u) (ab_users db) = Some u" "us_name u \<noteq> []" "p \<noteq> []" "in_int64 (us_id u)"
    and "\<And>x. ae_ok e x" "\<And>x. ae_ok e2 x" "ae_now e2 < as_expires s"
  shows "\<exists>db'. acc_handle c ttl e (SetUserStatus (dec (us_id u)) (Some ''suspended'')) db = (db', None) \<and>
    authenticate e2 k db' = Inr (u\<lparr>us_status := ''suspended''\<rparr>) \<and>
    caller_of (u\<lparr>us_status := ''suspended''\<rparr>) = caller_of u \<and>
    acc_handle c ttl e2 (Login (Some (us_name u, p))) db' = (db', Some Suspended)"
proof -
  let ?f = "\<lambda>u. u\<lparr>us_status := ''suspended''\<rparr>"
  let ?db = "upd_account (us_id u) ?f db"
  have i: "us_id u = as_user s" using row_of_Some [OF assms(2)] by simp
  have 1: "acc_handle c ttl e (SetUserStatus (dec (us_id u)) (Some ''suspended'')) db = (?db, None)"
    using assms(6,7) by (simp add: acc_handle_def set_user_status_def parse_id_dec)
  have f: "find_session (ae_ok e2) (ae_now e2) k ?db = Inr s"
    using assms(1,8,9) by (intro find_session_row) simp_all
  have "row_of us_id (as_user s) (ab_users ?db) = Some (?f u)" using assms(2) i by (simp add: row_of_upd_row)
  then have 2: "authenticate e2 k ?db = Inr (?f u)" using f assms(8) by (simp add: authenticate_def find_user_by_id_row)
  have "row_of us_name (us_name u) (ab_users ?db) = Some (?f u)"
    unfolding upd_account_tables by (rule row_by_name [OF assms(3)]) simp_all
  then have n: "find_user_by_username (ae_ok e2) (us_name u) ?db = Inr (?f u)" using assms(8) by (simp add: find_user_by_username_row)
  have 3: "acc_handle c ttl e2 (Login (Some (us_name u, p))) ?db = (?db, Some Suspended)"
    using assms(4,5) by (simp add: acc_handle_def login_user_def n login_status_def)
  show ?thesis using 1 2 3 by (auto simp: caller_of_def)
qed

text \<open>C36: signing up with a team and being approved makes a member of any team, one that takes no join requests
  (an organisation's default team is one) or does not exist: the join request the team service would refuse is not
  even asked.\<close>

theorem signup_enters_closed_team:
  assumes "get_accepts_join (\<lambda>_. True) g (ab_team db) = Some False" "0 < g" "in_int64 (ab_next db)"
    and "sg_name q \<noteq> []" "8 \<le> length (sg_password q)" "sg_email q \<noteq> []" "sg_last q \<noteq> []" "sg_group q = Some g"
    and "row_of us_name (sg_name q) (ab_users db) = None" "pw_hash c (ae_salt e) (sg_password q) = Some h" "\<And>x. ae_ok e x"
    and "row_of us_id (ab_next db) (ab_users db) = None" "row_of me_key (g, ab_next db) (gd_members (ab_team db)) = None"
  shows "\<exists>db1 db2. request_join (\<lambda>_. True) (ab_next db) g (ab_team db) = (ab_team db, Some JoinClosed) \<and>
    acc_handle c ttl e (Signup (Some q)) db = (db1, None) \<and>
    acc_handle c ttl e (SetUserStatus (dec (ab_next db)) (Some ''approved'')) db1 = (db2, None) \<and>
    role_in_group (\<lambda>_. True) (ab_team db2) (ab_next db) g = Some ''member''"
proof -
  let ?i = "ab_next db"
  let ?u = "new_pending_user (ae_now e) q h\<lparr>us_id := ?i\<rparr>"
  let ?t = "fst (create_join_request (\<lambda>_. True) ?i g (ab_team db))"
  let ?db1 = "db\<lparr>ab_users := ab_users db @ [?u], ab_next := ?i + 1, ab_team := ?t\<rparr>"
  have free: "find_user_by_username (ae_ok e) (sg_name q) db = Inl AccNotFound"
    using assms(9,11) by (simp add: find_user_by_username_def first_user_def find_row_of)
  have uniq: "\<not> (\<exists>v \<in> set (ab_users db). us_name v = sg_name q)" using assms(9) unfolding row_of_None by (metis image_eqI)
  have ins: "insert_user True (new_pending_user (ae_now e) q h) db =
      (db\<lparr>ab_users := ab_users db @ [?u], ab_next := ?i + 1\<rparr>, Some ?i)"
    using assms(11) uniq by (simp add: insert_user_def new_pending_user_def)
  have up: "acc_handle c ttl e (Signup (Some q)) db = (?db1, None)"
    using assms(4-8,10,11) free
    by (auto simp: acc_handle_def signup_def min_password_len_def ins signup_join_request_def create_join_request_def Let_def)
  have row: "row_of us_id ?i (ab_users (upd_account ?i (\<lambda>u. u\<lparr>us_status := ''approved''\<rparr>) ?db1)) = Some (?u\<lparr>us_status := ''approved''\<rparr>)"
    using assms(12) by (simp add: row_of_upd_row row_of_append)
  have none: "row_of me_key (g, ?i) (gd_members ?t) = None" using assms(13) by (simp add: create_join_request_def)
  obtain db2 where st: "set_user_status (ae_ok e) ?i ''approved'' ?db1 = (db2, True)"
    and mem: "gd_members (ab_team db2) = gd_members (put_member g ?i ''member'' ''active'' (\<lambda>m. m\<lparr>me_status := ''active''\<rparr>) ?t)"
    using assms(2,8,11) row by (simp add: set_user_status_def Let_def new_pending_user_def)
  have "acc_handle c ttl e (SetUserStatus (dec ?i) (Some ''approved'')) ?db1 = (db2, None)"
    using st assms(3) by (simp add: acc_handle_def parse_id_dec)
  moreover have "role_in_group (\<lambda>_. True) (ab_team db2) ?i g = Some ''member''"
    using none by (simp add: role_in_group_def mem put_member_def row_of_append me_key_def is_active_def)
  moreover have "request_join (\<lambda>_. True) ?i g (ab_team db) = (ab_team db, Some JoinClosed)"
    using assms(1) by (simp add: request_join_def)
  ultimately show ?thesis using up by blast
qed

section \<open>Pages\<close>

lemma pages_concat: "concat (map (\<lambda>p. take n (drop (p * n) xs)) [0..<k]) = take (k * n) xs"
proof (induction k)
  case (Suc k)
  have "take (Suc k * n) xs = take (k * n) xs @ take n (drop (k * n) xs)"
    using take_add [of "k * n" n xs] by (simp add: add.commute)
  then show ?case using Suc by simp
qed simp

lemma page_strings:
  assumes "1 \<le> n" "n \<le> 200"
  shows "page_size (dec (int n)) = int n"
  using assms parse_int64_dec [of "int n"]
  by (simp add: page_size_def atoi_default_def default_page_size_def max_page_size_def in_int64_def dec_def)

lemma page_number: "in_int64 (int p + 1) \<Longrightarrow> page_of (dec (int p + 1)) = int p + 1"
  using parse_int64_dec [of "int p + 1"] by (simp add: page_of_def atoi_default_def dec_def)

text \<open>whatever the scope and the search, the pages of the list put behind one another are the whole list,
  each user once and in order of ids, as soon as there are pages enough for the total that every page reports.\<close>

theorem pages_cover_list:
  assumes "1 \<le> n" "n \<le> 200" "in_int64 (int k)"
    and "length (fst (list_users like oname ((in_scope s (query_filter q))\<lparr>lf_limit := 0\<rparr>) db)) \<le> k * n"
  shows "concat (map (\<lambda>p. fst (list_scoped like oname s (q\<lparr>lq_page := dec (int p + 1), lq_size := dec (int n)\<rparr>) db)) [0..<k]) =
      fst (list_users like oname ((in_scope s (query_filter q))\<lparr>lf_limit := 0\<rparr>) db) \<and>
    snd (list_scoped like oname s q db) = length (fst (list_users like oname ((in_scope s (query_filter q))\<lparr>lf_limit := 0\<rparr>) db))"
proof -
  define all where "all = fst (list_users like oname ((in_scope s (query_filter q))\<lparr>lf_limit := 0\<rparr>) db)"
  have same: "matches_filter like oname (in_scope s (query_filter (q\<lparr>lq_page := a, lq_size := b\<rparr>))) =
      matches_filter like oname ((in_scope s (query_filter q))\<lparr>lf_limit := 0\<rparr>)" for a b
    by (simp add: fun_eq_iff matches_filter_def in_scope_def query_filter_def split: level.split)
  have same': "matches_filter like oname (in_scope s (query_filter q)) =
      matches_filter like oname ((in_scope s (query_filter q))\<lparr>lf_limit := 0\<rparr>)"
    by (simp add: fun_eq_iff matches_filter_def in_scope_def query_filter_def split: level.split)
  have all: "all = filter (matches_filter like oname ((in_scope s (query_filter q))\<lparr>lf_limit := 0\<rparr>))
      (map (summary_of (ab_team db)) (sort_key us_id (ab_users db)))"
    by (simp add: all_def list_users_def Let_def)
  have page: "fst (list_scoped like oname s (q\<lparr>lq_page := dec (int p + 1), lq_size := dec (int n)\<rparr>) db) = take n (drop (p * n) all)"
    if "p < k" for p
  proof -
    have i: "in_int64 (int p + 1)" using that assms(3) by (simp add: in_int64_def)
    have l: "lf_limit (in_scope s (query_filter (q\<lparr>lq_page := dec (int p + 1), lq_size := dec (int n)\<rparr>))) = int n"
      "lf_offset (in_scope s (query_filter (q\<lparr>lq_page := dec (int p + 1), lq_size := dec (int n)\<rparr>))) = int p * int n"
      using page_strings [OF assms(1,2)] page_number [OF i] by (simp_all add: in_scope_def query_filter_def split: level.split)
    have "nat (int p * int n) = p * n" by (simp add: nat_mult_distrib)
    then show ?thesis using assms(1) unfolding list_scoped_def list_users_def l same all [symmetric] Let_def by simp
  qed
  have "map (\<lambda>p. fst (list_scoped like oname s (q\<lparr>lq_page := dec (int p + 1), lq_size := dec (int n)\<rparr>) db)) [0..<k] =
      map (\<lambda>p. take n (drop (p * n) all)) [0..<k]"
    using page by simp
  then have 1: "concat (map (\<lambda>p. fst (list_scoped like oname s (q\<lparr>lq_page := dec (int p + 1), lq_size := dec (int n)\<rparr>) db)) [0..<k]) = all"
    using assms(4) by (simp only: pages_concat) (simp add: all_def)
  have 2: "snd (list_scoped like oname s q db) = length all"
    unfolding list_scoped_def list_users_def same' all [symmetric] Let_def by simp
  show ?thesis using 1 2 unfolding all_def by blast
qed

lemma in_page_filtered: "x \<in> set (if b then take n (drop m (filter P xs)) else filter P xs) \<Longrightarrow> P x"
  by (auto split: if_splits dest!: in_set_takeD in_set_dropD)

text \<open>A scoped list shows only users whose representative membership is in the caller's organisation or team.\<close>

theorem scoped_list_confined:
  assumes "x \<in> set (fst (list_scoped like oname s q db))"
  shows "sc_level s = OrgLevel \<Longrightarrow> 0 < sc_org s \<Longrightarrow> \<exists>g. sm_group x = Some g \<and> gr_org g = sc_org s"
    and "sc_level s = GroupLevel \<Longrightarrow> 0 < sc_group s \<Longrightarrow> \<exists>g. sm_group x = Some g \<and> gr_id g = sc_group s"
proof -
  have "matches_filter like oname (in_scope s (query_filter q)) x"
    using assms in_page_filtered unfolding list_scoped_def list_users_def Let_def fst_conv by fast
  then show "sc_level s = OrgLevel \<Longrightarrow> 0 < sc_org s \<Longrightarrow> \<exists>g. sm_group x = Some g \<and> gr_org g = sc_org s"
    and "sc_level s = GroupLevel \<Longrightarrow> 0 < sc_group s \<Longrightarrow> \<exists>g. sm_group x = Some g \<and> gr_id g = sc_group s"
    by (simp_all add: matches_filter_def in_scope_def query_filter_def Let_def)
qed

section \<open>Keys\<close>

text \<open>A stored key is one line if what the parser returns for one line is, and so ends up as one entry of
  \<open>authorized_keys\<close>; a generated one is only when the user name, which sign-up does not check, has no line break.\<close>

definition one_line :: "crypt \<Rightarrow> bool" where
  "one_line c \<longleftrightarrow> (\<forall>s key cm. parse_key c s = Some (key, cm) \<longrightarrow> (\<forall>x \<in> set s. \<not> is_newline x) \<longrightarrow>
     (\<forall>x \<in> set (trim_space key) \<union> set cm. \<not> is_newline x))"

lemma trim_space_set: "set (trim_space s) \<subseteq> set s"
  unfolding trim_space_def set_rev by (metis (no_types, lifting) set_dropWhileD set_rev subsetI)

theorem stored_key_is_one_line:
  assumes "one_line c" "normalize_public_key c raw = Inr k"
  shows "\<forall>x \<in> set k. \<not> is_newline x"
proof (cases "trim_space raw = []")
  case False
  let ?s = "if \<exists>x \<in> set (trim_space raw). is_newline x then trim_space (takeWhile (\<lambda>x. \<not> is_newline x) (trim_space raw)) else trim_space raw"
  have s: "\<forall>x \<in> set ?s. \<not> is_newline x"
    using trim_space_set [of "takeWhile (\<lambda>x. \<not> is_newline x) (trim_space raw)"] by (auto dest: set_takeWhileD)
  obtain key cm where k: "parse_key c ?s = Some (key, cm)" "k = trim_space key @ (if cm \<noteq> [] then '' '' @ cm else [])"
    using assms(2) False by (auto simp: normalize_public_key_def Let_def split: option.splits if_splits)
  have "\<forall>x \<in> set (trim_space key) \<union> set cm. \<not> is_newline x" using assms(1) k(1) s unfolding one_line_def by blast
  then show ?thesis using k(2) by (auto simp: is_newline_def)
qed (use assms(2) in \<open>simp add: normalize_public_key_def\<close>)

section \<open>Witnesses\<close>

definition plain_crypt :: crypt where
  "plain_crypt = \<lparr>pw_hash = (\<lambda>_ p. if length p \<le> 72 then Some p else None), pw_match = (\<lambda>h p. h = p), parse_key = (\<lambda>s. Some (s, []))\<rparr>"

definition acc_env0 :: "time \<Rightarrow> acc_env" where
  "acc_env0 t = \<lparr>ae_ok = (\<lambda>_. True), ae_now = t, ae_salt = [], ae_token = ''tok'', ae_pair = None\<rparr>"

definition root_user :: user_row where
  "root_user = blank_user\<lparr>us_id := 1, us_name := ''root'', us_hash := ''longpassword'', us_role := ''admin'', us_status := ''approved''\<rparr>"

definition team0 :: group_db where
  "team0 = \<lparr>gd_orgs = [1], gd_groups = [\<lparr>gr_id = 5, gr_org = 1, gr_name = ''general'', gr_display = ''general'', gr_accepts = False,
     gr_status = ''active''\<rparr>], gd_members = [], gd_requests = [], gd_users = [], gd_next_group = 6, gd_next_member = 1, gd_next_request = 1\<rparr>"

definition acc_db0 :: acc_db where
  "acc_db0 = \<lparr>ab_users = [root_user], ab_sessions = [\<lparr>as_key = ''k'', as_user = 1, as_created = 0, as_expires = 100\<rparr>],
     ab_team = team0, ab_next = 2, ab_synced = []\<rparr>"

definition signup0 :: signup_req where
  "signup0 = \<lparr>sg_name = ''eve'', sg_password = ''password'', sg_email = ''e'', sg_first = [], sg_last = ''Eve'', sg_first_en = [],
     sg_last_en = [], sg_sponsor = [], sg_group = Some 5, sg_terms = True\<rparr>"

lemmas acc_samples = plain_crypt_def acc_env0_def root_user_def blank_user_def team0_def acc_db0_def signup0_def

theorem sessions_issued_by_login_witness:
  "\<exists>db'. acc_handle plain_crypt 50 (acc_env0 7) (Login (Some (''root'', ''longpassword''))) acc_db0 = (db', None) \<and>
    (\<exists>n p. Login (Some (''root'', ''longpassword'')) = Login (Some (n, p)) \<and> pw_match plain_crypt (us_hash root_user) p)"
proof -
  let ?s = "\<lparr>as_key = ''tok'', as_user = 1, as_created = 7, as_expires = 57\<rparr>"
  have h: "acc_handle plain_crypt 50 (acc_env0 7) (Login (Some (''root'', ''longpassword''))) acc_db0 =
      (acc_db0\<lparr>ab_sessions := ab_sessions acc_db0 @ [?s]\<rparr>, None)"
    by (simp add: acc_handle_def login_user_def find_user_by_username_def first_user_def login_status_def issue_session_def
        insert_session_def acc_samples)
  have n: "?s \<in> set (ab_sessions (acc_db0\<lparr>ab_sessions := ab_sessions acc_db0 @ [?s]\<rparr>))" "?s \<notin> set (ab_sessions acc_db0)"
    by (simp_all add: acc_db0_def)
  have r: "row_of us_name ''root'' (ab_users acc_db0) = Some root_user" by (simp add: acc_db0_def root_user_def)
  show ?thesis using sessions_issued_by_login [OF h n] h r by auto
qed

theorem self_service_grants_nothing_witness:
  "\<exists>db'. acc_handle plain_crypt 50 (acc_env0 7) (Signup (Some signup0)) acc_db0 = (db', None) \<and>
    (\<exists>new. map standing (ab_users db') = map standing (ab_users acc_db0) @ map standing new \<and> list_all newcomer new)"
proof -
  obtain db' r where h: "acc_handle plain_crypt 50 (acc_env0 7) (Signup (Some signup0)) acc_db0 = (db', r)" by fastforce
  then have "acc_run plain_crypt 50 self_service acc_db0 db'"
    by (intro acc_step [OF acc_stay _ h]) (simp add: self_service_def)
  moreover have "r = None"
    using h by (auto simp: acc_handle_def signup_def find_user_by_username_def first_user_def insert_user_def new_pending_user_def
        signup_join_request_def create_join_request_def min_password_len_def acc_samples)
  ultimately show ?thesis using h self_service_grants_nothing by blast
qed

theorem suspended_account_stays_in_witness:
  "\<exists>db'. acc_handle plain_crypt 50 (acc_env0 7) (SetUserStatus (dec 1) (Some ''suspended'')) acc_db0 = (db', None) \<and>
    authenticate (acc_env0 99) ''k'' db' = Inr (root_user\<lparr>us_status := ''suspended''\<rparr>) \<and>
    c_admin (caller_of (root_user\<lparr>us_status := ''suspended''\<rparr>))"
proof -
  have h: "row_of as_key ''k'' (ab_sessions acc_db0) = Some \<lparr>as_key = ''k'', as_user = 1, as_created = 0, as_expires = 100\<rparr>"
    "row_of us_id (as_user \<lparr>as_key = ''k'', as_user = 1, as_created = 0, as_expires = 100\<rparr>) (ab_users acc_db0) = Some root_user"
    "row_of us_name (us_name root_user) (ab_users acc_db0) = Some root_user" "us_name root_user \<noteq> []" "(''p'' :: string) \<noteq> []"
    "in_int64 (us_id root_user)" "\<And>x. ae_ok (acc_env0 7) x" "\<And>x. ae_ok (acc_env0 99) x"
    "ae_now (acc_env0 99) < as_expires \<lparr>as_key = ''k'', as_user = 1, as_created = 0, as_expires = 100\<rparr>"
    by (simp_all add: acc_samples in_int64_def)
  have i: "us_id root_user = 1" "c_admin (caller_of root_user)" by (simp_all add: root_user_def caller_of_def)
  show ?thesis using suspended_account_stays_in [OF h, of plain_crypt 50] i by auto
qed

theorem signup_enters_closed_team_witness:
  "\<exists>db1 db2. request_join (\<lambda>_. True) 2 5 team0 = (team0, Some JoinClosed) \<and>
    acc_handle plain_crypt 50 (acc_env0 7) (Signup (Some signup0)) acc_db0 = (db1, None) \<and>
    acc_handle plain_crypt 50 (acc_env0 7) (SetUserStatus (dec 2) (Some ''approved'')) db1 = (db2, None) \<and>
    role_in_group (\<lambda>_. True) (ab_team db2) 2 5 = Some ''member''"
proof -
  have h: "get_accepts_join (\<lambda>_. True) 5 (ab_team acc_db0) = Some False" "(0::int) < 5" "in_int64 (ab_next acc_db0)"
    "sg_name signup0 \<noteq> []" "8 \<le> length (sg_password signup0)" "sg_email signup0 \<noteq> []" "sg_last signup0 \<noteq> []" "sg_group signup0 = Some 5"
    "row_of us_name (sg_name signup0) (ab_users acc_db0) = None"
    "pw_hash plain_crypt (ae_salt (acc_env0 7)) (sg_password signup0) = Some ''password''" "\<And>x. ae_ok (acc_env0 7) x"
    "row_of us_id (ab_next acc_db0) (ab_users acc_db0) = None" "row_of me_key (5, ab_next acc_db0) (gd_members (ab_team acc_db0)) = None"
    by (simp_all add: acc_samples get_accepts_join_def in_int64_def)
  have i: "ab_next acc_db0 = 2" "ab_team acc_db0 = team0" by (simp_all add: acc_db0_def)
  show ?thesis using signup_enters_closed_team [OF h, of 50] unfolding i by blast
qed

definition query0 :: list_query where
  "query0 = \<lparr>lq_q = [], lq_status = [], lq_group = [], lq_org = [], lq_page = ''1'', lq_size = []\<rparr>"

theorem pages_cover_list_witness:
  "\<exists>all. fst (list_scoped (\<lambda>_ _. True) (\<lambda>_. []) \<lparr>sc_level = Platform, sc_org = 0, sc_group = 0\<rparr>
      (query0\<lparr>lq_page := dec 1, lq_size := dec 3\<rparr>) acc_db0) = all \<and> length all = 1"
proof -
  let ?sc = "\<lparr>sc_level = Platform, sc_org = 0, sc_group = 0\<rparr>"
  have l: "length (fst (list_users (\<lambda>_ _. True) (\<lambda>_. []) ((in_scope ?sc (query_filter query0))\<lparr>lf_limit := 0\<rparr>) acc_db0)) = 1"
    by (simp add: list_users_def in_scope_def query_filter_def query0_def matches_filter_def acc_db0_def trim_space_def)
  have h: "(1::nat) \<le> 3" "(3::nat) \<le> 200" "in_int64 (int 1)"
    "length (fst (list_users (\<lambda>_ _. True) (\<lambda>_. []) ((in_scope ?sc (query_filter query0))\<lparr>lf_limit := 0\<rparr>) acc_db0)) \<le> 1 * 3"
    using l by (simp_all add: in_int64_def)
  show ?thesis using pages_cover_list [OF h] l by simp
qed

end
