(* ===== verification/Physical_Nodes.thy ===== *)
theory Physical_Nodes
  imports Node_Lease K8s_Pod
begin

text \<open>
  Node settings and physical nodes (\<open>internal/node\<close>): the overlay table \<open>nodes\<close>, what a change of settings does
  to the labels of a node and to the device plugin's profiles (\<open>internal/k8s/node_admin.go\<close>, \<open>deviceplugin.go\<close>),
  the warning about sessions a change of the share mode strands, the node lists of administrators and users, and
  the leases a node agent is told, with everything it has to mount. Metrics are an argument; who leases a node is
  read off the table of \<open>Node_Lease\<close>.
\<close>

section \<open>Settings\<close>

record node_cfg =
  nc_name :: string
  nc_mode :: string
  nc_split :: int
  nc_quota :: int
  nc_ssh :: bool
  nc_lease :: bool
  nc_scratch :: bool

record cfg_req =
  nq_mode :: "string option"
  nq_split :: "int option"
  nq_ssh :: "bool option"
  nq_lease :: "bool option"
  nq_scratch :: "bool option"
  nq_quota :: "int option"

text \<open>The cluster: the nodes with their labels, and the device plugin's profiles (key and number of slots).\<close>

record node_world =
  nw_cfgs :: "node_cfg list"
  nw_labels :: "string \<Rightarrow> string \<Rightarrow> string option"
  nw_profiles :: "string \<Rightarrow> int option"

datatype ncall = NConfigs | NUpsert | NUpdate | NLabel string string | NProfile | NSessions | NRunning

type_synonym node_oracle = "ncall \<Rightarrow> bool"

record node_svc =
  ns_plugin :: "(string \<times> string) option"
  ns_physical_label :: string
  ns_scratch_root :: string
  ns_home_root :: string
  ns_uid_base :: int
  ns_nfs_server :: string
  ns_nfs_path :: string

definition node_configs :: "node_oracle \<Rightarrow> node_world \<Rightarrow> (string \<Rightarrow> node_cfg option) option" where
  "node_configs ok w = (if ok NConfigs then Some (\<lambda>n. row_of nc_name n (nw_cfgs w)) else None)"

text \<open>Go reads a name that is not in the map as the zero value.\<close>

definition zero_cfg :: node_cfg where
  "zero_cfg = \<lparr>nc_name = [], nc_mode = [], nc_split = 0, nc_quota = 0, nc_ssh = False, nc_lease = False, nc_scratch = False\<rparr>"

definition config_of :: "node_oracle \<Rightarrow> node_world \<Rightarrow> string \<Rightarrow> node_cfg" where
  "config_of ok w n = (case node_configs ok w of None \<Rightarrow> zero_cfg | Some m \<Rightarrow> (case m n of None \<Rightarrow> zero_cfg | Some c \<Rightarrow> c))"

text \<open>\<open>INSERT IGNORE\<close> with the column defaults of the migrations, then an update of the fields given.\<close>

definition default_cfg :: "string \<Rightarrow> node_cfg" where
  "default_cfg n = \<lparr>nc_name = n, nc_mode = ''exclusive'', nc_split = 10, nc_quota = 0, nc_ssh = False, nc_lease = False, nc_scratch = False\<rparr>"

definition with_fields :: "cfg_req \<Rightarrow> node_cfg \<Rightarrow> node_cfg" where
  "with_fields q c = c\<lparr>nc_mode := (case nq_mode q of None \<Rightarrow> nc_mode c | Some m \<Rightarrow> m),
     nc_split := (case nq_split q of None \<Rightarrow> nc_split c | Some n \<Rightarrow> n),
     nc_quota := (case nq_quota q of None \<Rightarrow> nc_quota c | Some n \<Rightarrow> n),
     nc_ssh := (case nq_ssh q of None \<Rightarrow> nc_ssh c | Some b \<Rightarrow> b),
     nc_lease := (case nq_lease q of None \<Rightarrow> nc_lease c | Some b \<Rightarrow> b),
     nc_scratch := (case nq_scratch q of None \<Rightarrow> nc_scratch c | Some b \<Rightarrow> b)\<rparr>"

definition upsert_config :: "node_oracle \<Rightarrow> string \<Rightarrow> cfg_req \<Rightarrow> node_world \<Rightarrow> node_world \<times> bool" where
  "upsert_config ok n q w =
     (if \<not> ok NUpsert then (w, False)
      else (let w1 = w\<lparr>nw_cfgs := insert_ignore nc_name (default_cfg n) (nw_cfgs w)\<rparr>
            in if q = \<lparr>nq_mode = None, nq_split = None, nq_ssh = None, nq_lease = None, nq_scratch = None, nq_quota = None\<rparr> then (w1, True)
               else if \<not> ok NUpdate then (w1, False)
               else (w1\<lparr>nw_cfgs := upd_row nc_name n (with_fields q) (nw_cfgs w1)\<rparr>, True)))"

definition set_node_label :: "node_oracle \<Rightarrow> string \<Rightarrow> string \<Rightarrow> string \<Rightarrow> node_world \<Rightarrow> node_world" where
  "set_node_label ok n k v w =
     (if ok (NLabel n k)
      then w\<lparr>nw_labels := (nw_labels w)(n := (nw_labels w n)(k := (if v = [] then None else Some v)))\<rparr>
      else w)"

definition plugin_label :: string where
  "plugin_label = ''nvidia.com/device-plugin.config''"

definition scratch_label :: string where
  "scratch_label = ''giosk.io/scratch''"

definition time_slicing_key :: "int \<Rightarrow> string" where
  "time_slicing_key n = ''giosk-ts-'' @ dec n"

definition ensure_time_slicing_key :: "node_oracle \<Rightarrow> int \<Rightarrow> node_world \<Rightarrow> node_world \<times> string option" where
  "ensure_time_slicing_key ok n w =
     (if ok NProfile then (w\<lparr>nw_profiles := (nw_profiles w)(time_slicing_key n \<mapsto> n)\<rparr>, Some (time_slicing_key n)) else (w, None))"

text \<open>The number of slots of a request that names none is that of the table as it stands.\<close>

definition slots_for :: "node_oracle \<Rightarrow> string \<Rightarrow> int option \<Rightarrow> node_world \<Rightarrow> int" where
  "slots_for ok n split w = max 2 (case split of Some k \<Rightarrow> k | None \<Rightarrow> nc_split (config_of ok w n))"

definition apply_device_plugin :: "node_svc \<Rightarrow> node_oracle \<Rightarrow> string \<Rightarrow> string \<Rightarrow> int option \<Rightarrow> node_world \<Rightarrow> node_world" where
  "apply_device_plugin sv ok n mode split w =
     (case ns_plugin sv of None \<Rightarrow> w
      | Some (cns, cname) \<Rightarrow>
          if cns = [] \<or> cname = [] then w
          else if mode \<noteq> ''timeslicing'' then set_node_label ok n plugin_label [] w
          else (case ensure_time_slicing_key ok (slots_for ok n split w) w of
                  (w1, None) \<Rightarrow> w1
                | (w1, Some key) \<Rightarrow> set_node_label ok n plugin_label key w1))"

definition flag_label :: "bool \<Rightarrow> string" where
  "flag_label b = (if b then ''true'' else [])"

definition set_config :: "node_svc \<Rightarrow> node_oracle \<Rightarrow> string \<Rightarrow> cfg_req \<Rightarrow> node_world \<Rightarrow> node_world \<times> bool" where
  "set_config sv ok n q w =
     (let w1 = (case nq_mode q of None \<Rightarrow> w
                | Some m \<Rightarrow> apply_device_plugin sv ok n m (nq_split q) (set_node_label ok n share_mode_label m w));
          w2 = (case nq_lease q of None \<Rightarrow> w1
                | Some b \<Rightarrow> set_node_label ok n (or_default (ns_physical_label sv) ''giosk.io/physical'') (flag_label b) w1);
          w3 = (case nq_scratch q of None \<Rightarrow> w2 | Some b \<Rightarrow> set_node_label ok n scratch_label (flag_label b) w2)
      in upsert_config ok n q w3)"

section \<open>Sessions a change of the mode strands\<close>

record node_session =
  nn_instance :: string
  nn_name :: string
  nn_gpu :: string
  nn_phase :: string
  nn_node :: string
  nn_env :: string

definition sessions_on_node :: "node_oracle \<Rightarrow> string \<Rightarrow> node_session list \<Rightarrow> node_session list" where
  "sessions_on_node ok n ss =
     (if ok NSessions then filter (\<lambda>s. nn_node s = n \<and> nn_phase s \<noteq> ''deleted'' \<and> nn_env s \<noteq> ''ssh'') ss else [])"

definition mode_breaks :: "string \<Rightarrow> string \<Rightarrow> bool" where
  "mode_breaks mode gpu =
     (if mode = ''hami'' \<or> mode = ''timeslicing'' then gpu = ''exclusive'' \<or> gpu = ''mig'' else gpu = ''shared'')"

definition mode_impact :: "node_oracle \<Rightarrow> string \<Rightarrow> string \<Rightarrow> node_session list \<Rightarrow> nat \<times> node_session list" where
  "mode_impact ok n mode ss =
     (let hit = filter (\<lambda>s. mode_breaks mode (nn_gpu s)) (sessions_on_node ok n ss) in (length hit, hit))"

section \<open>Node lists\<close>

definition running_on_node :: "node_oracle \<Rightarrow> node_session list \<Rightarrow> string \<Rightarrow> int" where
  "running_on_node ok ss n =
     (if ok NRunning then int (length (filter (\<lambda>s. nn_phase s = ''running'' \<and> nn_node s = n \<and> n \<noteq> []) ss)) else 0)"

text \<open>The newest lease of a node that is active and not expired, and its user's name.\<close>

definition active_lease_username :: "(int \<Rightarrow> string option) \<Rightarrow> time \<Rightarrow> string \<Rightarrow> lease_db \<Rightarrow> string" where
  "active_lease_username names now n db =
     (case filter (\<lambda>l. active_on now n l \<and> names (l_user l) \<noteq> None) (rev (leases db)) of
        [] \<Rightarrow> [] | l # _ \<Rightarrow> (case names (l_user l) of None \<Rightarrow> [] | Some u \<Rightarrow> u))"

record node_metric =
  mt_util :: int
  mt_temp :: int
  mt_vram_used :: int
  mt_vram_total :: int
  mt_cpu :: int
  mt_mem :: int

record node_view =
  vw_node :: live_node
  vw_mode :: string
  vw_split :: int
  vw_ssh :: bool
  vw_sessions :: int
  vw_quota :: int
  vw_lease :: bool
  vw_scratch :: bool
  vw_hami :: bool
  vw_metric :: node_metric
  vw_leased_to :: string

definition merge_view :: "string \<Rightarrow> live_node \<Rightarrow> node_cfg \<Rightarrow> int \<Rightarrow> node_metric \<Rightarrow> node_view" where
  "merge_view leased n c cnt m =
     (let mode = or_default (nc_mode c) ''exclusive''
      in \<lparr>vw_node = n, vw_mode = mode, vw_split = (if nc_split c = 0 then 10 else nc_split c), vw_ssh = nc_ssh c,
          vw_sessions = cnt, vw_quota = nc_quota c, vw_lease = nc_lease c, vw_scratch = nc_scratch c,
          vw_hami = (mode = ''hami'' \<or> mode = ''fractional''), vw_metric = m, vw_leased_to = leased\<rparr>)"

definition list_nodes ::
  "node_oracle \<Rightarrow> (int \<Rightarrow> string option) \<Rightarrow> time \<Rightarrow> (string \<Rightarrow> node_metric) \<Rightarrow> live_node list option \<Rightarrow> node_session list \<Rightarrow> lease_db \<Rightarrow>
   node_world \<Rightarrow> node_view list option" where
  "list_nodes ok names now met live ss db w =
     (case (live, node_configs ok w) of
        (Some ns, Some _) \<Rightarrow>
          Some (map (\<lambda>n. merge_view (active_lease_username names now (ln_name n) db) n (config_of ok w (ln_name n))
                      (running_on_node ok ss (ln_name n)) (met (ln_name n))) ns)
      | _ \<Rightarrow> None)"

record user_node =
  un_node :: string
  un_gpu :: string
  un_available :: bool
  un_total :: int
  un_free :: int
  un_quota :: int

text \<open>\<open>cross\<close> is the multiplication sign of the label.\<close>

definition gpu_label :: "string \<Rightarrow> string \<Rightarrow> int \<Rightarrow> string" where
  "gpu_label cross t n = (if t = [] then ''GPU '' else t @ '' '') @ cross @ dec n"

definition merge_user_node :: "string \<Rightarrow> string \<Rightarrow> live_node \<Rightarrow> node_cfg \<Rightarrow> int \<Rightarrow> user_node" where
  "merge_user_node cross leased n c used =
     (let cap = atoi_safe (ln_gpu_capacity n)
      in \<lparr>un_node = ln_name n, un_gpu = gpu_label cross (ln_gpu_type n) cap,
          un_available = (ln_ready n \<and> \<not> ln_cordoned n \<and> leased = []), un_total = cap,
          un_free = (if cap - used < 0 then 0 else cap - used), un_quota = nc_quota c\<rparr>)"

definition physical_nodes ::
  "node_oracle \<Rightarrow> (int \<Rightarrow> string option) \<Rightarrow> time \<Rightarrow> string \<Rightarrow> live_node list option \<Rightarrow> node_session list \<Rightarrow> lease_db \<Rightarrow> node_world \<Rightarrow>
   user_node list option" where
  "physical_nodes ok names now cross live ss db w =
     (case live of None \<Rightarrow> None
      | Some ns \<Rightarrow>
          Some (map (\<lambda>n. merge_user_node cross (active_lease_username names now (ln_name n) db) n (config_of ok w (ln_name n))
                      (running_on_node ok ss (ln_name n))) (filter ln_physical ns)))"

section \<open>What an agent is told\<close>

record nfs_mount =
  vm_server :: string
  vm_path :: string
  vm_target :: string
  vm_ro :: bool

record agent_lease =
  al_id :: int
  al_user :: string
  al_uid :: int
  al_key :: string
  al_server :: string
  al_path :: string
  al_home :: string
  al_volumes :: "nfs_mount list"
  al_scratch :: string

text \<open>Volumes and datasets attached to sessions, with the coordinates of their claims.\<close>

record attached_volume =
  av_instance :: string
  av_pvc :: string
  av_ns :: string
  av_path :: string
  av_perm :: string

record attached_dataset =
  at_instance :: string
  at_name :: string
  at_pvc :: string
  at_ns :: string

record attachments =
  att_volumes :: "attached_volume list"
  att_datasets :: "attached_dataset list"

definition ensure_leading_slash :: "string \<Rightarrow> string" where
  "ensure_leading_slash p = (if p = [] then ''/data'' else if hd p \<noteq> CHR ''/'' then CHR ''/'' # p else p)"

definition ds_mount_name :: "string \<Rightarrow> string" where
  "ds_mount_name n =
     (let out = map (\<lambda>c. if c = CHR ''/'' \<or> c = CHR '' '' \<or> c = CHR 0x5C then CHR ''-'' else c) n
      in if out = [] then ''dataset'' else out)"

text \<open>A claim that is not backed by NFS cannot be mounted and is left out.\<close>

definition lease_volumes :: "(string \<Rightarrow> string \<Rightarrow> (string \<times> string) option) \<Rightarrow> attachments \<Rightarrow> string \<Rightarrow> string \<Rightarrow> nfs_mount list" where
  "lease_volumes nfs att i home = List.map_filter (\<lambda>v.
     case nfs (av_ns v) (av_pvc v) of None \<Rightarrow> None
     | Some (srv, path) \<Rightarrow> Some \<lparr>vm_server = srv, vm_path = path, vm_target = home @ ensure_leading_slash (av_path v), vm_ro = (av_perm v = ''ro'')\<rparr>)
     (filter (\<lambda>v. av_instance v = i \<and> av_pvc v \<noteq> []) (att_volumes att))"

definition lease_datasets :: "(string \<Rightarrow> string \<Rightarrow> (string \<times> string) option) \<Rightarrow> attachments \<Rightarrow> string \<Rightarrow> string \<Rightarrow> nfs_mount list" where
  "lease_datasets nfs att i home = List.map_filter (\<lambda>d.
     case nfs (at_ns d) (at_pvc d) of None \<Rightarrow> None
     | Some (srv, path) \<Rightarrow> Some \<lparr>vm_server = srv, vm_path = path, vm_target = home @ ''/datasets/slow/'' @ ds_mount_name (at_name d), vm_ro = True\<rparr>)
     (filter (\<lambda>d. at_instance d = i \<and> at_pvc d \<noteq> []) (att_datasets att))"

definition agent_lease_of ::
  "node_svc \<Rightarrow> (string \<Rightarrow> string \<Rightarrow> (string \<times> string) option) \<Rightarrow> attachments \<Rightarrow> bool \<Rightarrow> (int \<Rightarrow> (string \<times> string) option) \<Rightarrow> lease \<Rightarrow> agent_lease option" where
  "agent_lease_of sv nfs att scratch users l =
     (case users (l_user l) of None \<Rightarrow> None
      | Some (name, key) \<Rightarrow>
          (let home = or_default (ns_home_root sv) ''/home/giosk'' @ ''/'' @ name
           in Some \<lparr>al_id = l_id l, al_user = name, al_uid = ns_uid_base sv + l_user l, al_key = key, al_server = ns_nfs_server sv,
                al_path = ns_nfs_path sv, al_home = home,
                al_volumes = lease_volumes nfs att (l_instance l) home @ lease_datasets nfs att (l_instance l) home,
                al_scratch = (if scratch then ns_scratch_root sv @ ''/'' @ name else [])\<rparr>))"

definition agent_leases ::
  "node_svc \<Rightarrow> node_oracle \<Rightarrow> (string \<Rightarrow> string \<Rightarrow> (string \<times> string) option) \<Rightarrow> attachments \<Rightarrow> (int \<Rightarrow> (string \<times> string) option) \<Rightarrow> time \<Rightarrow> string \<Rightarrow>
   lease_db \<Rightarrow> node_world \<Rightarrow> agent_lease list" where
  "agent_leases sv ok nfs att users now n db w =
     List.map_filter (agent_lease_of sv nfs att (ns_scratch_root sv \<noteq> [] \<and> nc_scratch (config_of ok w n)) users)
       (filter (active_on now n) (leases db))"

section \<open>Settings reach the node\<close>

lemma set_node_label_simps [simp]:
  "nw_cfgs (set_node_label ok n k v w) = nw_cfgs w" "nw_profiles (set_node_label ok n k v w) = nw_profiles w"
  by (simp_all add: set_node_label_def)

lemma label_after:
  "ok (NLabel n k) \<Longrightarrow> nw_labels (set_node_label ok n k v w) m j = (if m = n \<and> j = k then (if v = [] then None else Some v) else nw_labels w m j)"
  by (simp add: set_node_label_def)

lemma label_names [simp]: "plugin_label \<noteq> share_mode_label" "scratch_label \<noteq> share_mode_label" "scratch_label \<noteq> plugin_label"
    "share_mode_label \<noteq> plugin_label" "share_mode_label \<noteq> scratch_label" "plugin_label \<noteq> scratch_label"
  by (simp_all add: plugin_label_def scratch_label_def share_mode_label_def)

lemma upsert_row:
  assumes "ok NUpsert" "ok NUpdate" "nq_mode q \<noteq> None"
  shows "snd (upsert_config ok n q w) \<and> nw_labels (fst (upsert_config ok n q w)) = nw_labels w \<and>
    nw_profiles (fst (upsert_config ok n q w)) = nw_profiles w \<and>
    row_of nc_name n (nw_cfgs (fst (upsert_config ok n q w))) =
      Some (with_fields q (case row_of nc_name n (nw_cfgs w) of None \<Rightarrow> default_cfg n | Some c \<Rightarrow> c))"
  using assms
  by (auto simp: upsert_config_def Let_def row_of_upd_row row_of_insert_ignore with_fields_def default_cfg_def split: option.split)

text \<open>C33: where the configuration of the device plugin is managed and every call succeeds, a change of the share mode
  that names the number of slots reaches the table, the label the scheduler places sessions by and the device
  plugin: the table has that mode and that number, the label that mode, and the plugin advertises that many slots,
  but never fewer than two, for time slicing, and is back at its default profile for every other mode.\<close>

theorem config_reaches_node:
  assumes "\<And>c. ok c" "ns_plugin sv = Some (cns, cname)" "cns \<noteq> []" "cname \<noteq> []" "nq_mode q = Some m" "m \<noteq> []" "nq_split q = Some k"
    and "or_default (ns_physical_label sv) ''giosk.io/physical'' \<notin> {share_mode_label, plugin_label, scratch_label}"
    and "set_config sv ok n q w = (w', r)"
  shows "r \<and> (\<exists>c. row_of nc_name n (nw_cfgs w') = Some c \<and> nc_mode c = m \<and> nc_split c = k) \<and>
    nw_labels w' n share_mode_label = Some m \<and>
    (if m = ''timeslicing''
     then nw_labels w' n plugin_label = Some (time_slicing_key (max 2 k)) \<and> nw_profiles w' (time_slicing_key (max 2 k)) = Some (max 2 k)
     else nw_labels w' n plugin_label = None)"
proof -
  let ?ph = "or_default (ns_physical_label sv) ''giosk.io/physical''"
  define w1 where "w1 = apply_device_plugin sv ok n m (nq_split q) (set_node_label ok n share_mode_label m w)"
  define w2 where "w2 = (case nq_lease q of None \<Rightarrow> w1 | Some b \<Rightarrow> set_node_label ok n ?ph (flag_label b) w1)"
  define w3 where "w3 = (case nq_scratch q of None \<Rightarrow> w2 | Some b \<Rightarrow> set_node_label ok n scratch_label (flag_label b) w2)"
  have w': "upsert_config ok n q w3 = (w', r)" using assms(5,9) unfolding w3_def w2_def w1_def by (simp add: set_config_def Let_def)
  have ph: "?ph \<noteq> share_mode_label" "?ph \<noteq> plugin_label" using assms(8) by auto
  have l1: "nw_labels w1 n share_mode_label = Some m"
    using assms(1-4,6) by (simp add: w1_def apply_device_plugin_def label_after ensure_time_slicing_key_def)
  have p1: "if m = ''timeslicing''
     then nw_labels w1 n plugin_label = Some (time_slicing_key (max 2 k)) \<and> nw_profiles w1 (time_slicing_key (max 2 k)) = Some (max 2 k)
     else nw_labels w1 n plugin_label = None"
    using assms(1-4,7) by (simp add: w1_def apply_device_plugin_def label_after ensure_time_slicing_key_def slots_for_def time_slicing_key_def)
  have same: "nw_labels w3 n share_mode_label = nw_labels w1 n share_mode_label" "nw_labels w3 n plugin_label = nw_labels w1 n plugin_label"
    "nw_profiles w3 = nw_profiles w1"
    using assms(1) ph ph [symmetric] by (simp_all add: w3_def w2_def label_after split: option.split)
  have u: "snd (upsert_config ok n q w3) \<and> nw_labels (fst (upsert_config ok n q w3)) = nw_labels w3 \<and>
    nw_profiles (fst (upsert_config ok n q w3)) = nw_profiles w3 \<and>
    row_of nc_name n (nw_cfgs (fst (upsert_config ok n q w3))) =
      Some (with_fields q (case row_of nc_name n (nw_cfgs w3) of None \<Rightarrow> default_cfg n | Some c \<Rightarrow> c))"
    by (rule upsert_row) (simp_all add: assms(1,5))
  show ?thesis using u l1 p1 same assms(5,7) unfolding w' by (simp add: with_fields_def)
qed

text \<open>Two requests that leave them apart: the first time-slicing setting of a node without a number of slots, and a
  later change of the number alone.\<close>

theorem slot_count_diverges:
  assumes "\<And>c. ok c" "ns_plugin sv = Some (cns, cname)" "cns \<noteq> []" "cname \<noteq> []" "row_of nc_name n (nw_cfgs w) = None"
    and "q = \<lparr>nq_mode = Some ''timeslicing'', nq_split = None, nq_ssh = None, nq_lease = None, nq_scratch = None, nq_quota = None\<rparr>"
    and "set_config sv ok n q w = (w1, r1)" "set_config sv ok n (q\<lparr>nq_mode := None, nq_split := Some 8\<rparr>) w1 = (w2, r2)"
  shows "map_option nc_split (row_of nc_name n (nw_cfgs w1)) = Some 10 \<and> nw_profiles w1 (the (nw_labels w1 n plugin_label)) = Some 2 \<and>
    map_option nc_split (row_of nc_name n (nw_cfgs w2)) = Some 8 \<and> nw_profiles w2 (the (nw_labels w2 n plugin_label)) = Some 2"
proof -
  let ?w = "apply_device_plugin sv ok n ''timeslicing'' None (set_node_label ok n share_mode_label ''timeslicing'' w)"
  have c: "nw_cfgs ?w = nw_cfgs w" "nw_profiles ?w (the (nw_labels ?w n plugin_label)) = Some 2"
    using assms(1-5) by (simp_all add: apply_device_plugin_def ensure_time_slicing_key_def label_after slots_for_def config_of_def
        node_configs_def zero_cfg_def time_slicing_key_def)
  have u: "upsert_config ok n q ?w = (w1, r1)" using assms(6,7) by (simp add: set_config_def Let_def)
  have 1: "map_option nc_split (row_of nc_name n (nw_cfgs w1)) = Some 10" "nw_labels w1 = nw_labels ?w" "nw_profiles w1 = nw_profiles ?w"
    using upsert_row [of ok q n ?w] assms(1,5,6) c(1) unfolding u by (simp_all add: with_fields_def default_cfg_def)
  have u2: "upsert_config ok n (q\<lparr>nq_mode := None, nq_split := Some 8\<rparr>) w1 = (w2, r2)"
    using assms(6,8) by (simp add: set_config_def Let_def)
  then have 2: "map_option nc_split (row_of nc_name n (nw_cfgs w2)) = Some 8" "nw_labels w2 = nw_labels w1" "nw_profiles w2 = nw_profiles w1"
    using assms(1,6) 1(1) by (auto simp: upsert_config_def Let_def row_of_upd_row row_of_insert_ignore with_fields_def split: option.splits)
  show ?thesis using 1 2 c(2) by simp
qed

text \<open>C34: the sessions a change of the share mode would strand are those whose pods the new label keeps off the
  node; the warning lists none but these, and misses exactly the time-slice sessions when time slicing ends and the
  shared ones when it begins.\<close>

theorem mode_impact_misses:
  assumes "ok NSessions" "mode \<in> {''exclusive'', ''hami'', ''timeslicing''}"
    and "\<forall>s \<in> set ss. nn_gpu s \<in> {''cpu'', ''shared'', ''exclusive'', ''timeslice''}"
  shows "{s \<in> set (sessions_on_node ok n ss). \<not> share_mode_allows (nn_gpu s) mode} =
    set (snd (mode_impact ok n mode ss)) \<union>
    {s \<in> set (sessions_on_node ok n ss). nn_gpu s = ''timeslice'' \<and> mode \<noteq> ''timeslicing'' \<or> nn_gpu s = ''shared'' \<and> mode = ''timeslicing''}"
proof -
  have "\<not> share_mode_allows g mode \<longleftrightarrow>
      mode_breaks mode g \<or> g = ''timeslice'' \<and> mode \<noteq> ''timeslicing'' \<or> g = ''shared'' \<and> mode = ''timeslicing''"
    if "g \<in> {''cpu'', ''shared'', ''exclusive'', ''timeslice''}" for g
    using that assms(2) by (elim insertE) (simp_all add: share_mode_allows_def mode_breaks_def)
  moreover have "set (sessions_on_node ok n ss) \<subseteq> set ss" by (auto simp: sessions_on_node_def)
  ultimately show ?thesis using assms(3) by (auto simp: mode_impact_def Let_def)
qed

text \<open>A user sees a node as available only if it is ready, not cordoned, and leased to nobody.\<close>

theorem offered_nodes_are_free:
  assumes "physical_nodes ok names now cross live ss db w = Some us" "u \<in> set us" "un_available u" "\<And>l. l \<in> set (leases db) \<Longrightarrow> names (l_user l) \<noteq> None \<and> names (l_user l) \<noteq> Some []"
  shows "\<not> active_lease_user now (un_node u) db"
proof
  assume "active_lease_user now (un_node u) db"
  then obtain l where l: "l \<in> set (leases db)" "active_on now (un_node u) l" by (auto simp: active_lease_user_def list_ex_iff)
  let ?ls = "filter (\<lambda>l. active_on now (un_node u) l \<and> names (l_user l) \<noteq> None) (rev (leases db))"
  have "l \<in> set ?ls" using l assms(4) by auto
  then have "?ls \<noteq> []" by (metis list.set(1) empty_iff)
  then obtain x xs where x: "?ls = x # xs" by (meson list.exhaust)
  then have "x \<in> set ?ls" by simp
  then have "x \<in> set (leases db)" by simp
  then have "active_lease_username names now (un_node u) db \<noteq> []" using assms(4) [of x] x by (auto simp: active_lease_username_def)
  moreover have "active_lease_username names now (un_node u) db = []"
    using assms(1-3) by (auto simp: physical_nodes_def merge_user_node_def Let_def split: option.splits)
  ultimately show False by simp
qed

section \<open>Witnesses\<close>

definition node_svc0 :: node_svc where
  "node_svc0 = \<lparr>ns_plugin = Some (''gpu-operator'', ''time-slicing-config''), ns_physical_label = [], ns_scratch_root = ''/scratch'',
     ns_home_root = [], ns_uid_base = 100000, ns_nfs_server = ''nfs'', ns_nfs_path = ''/srv/home''\<rparr>"

definition node_world0 :: node_world where
  "node_world0 = \<lparr>nw_cfgs = [], nw_labels = (\<lambda>_ _. None), nw_profiles = Map.empty\<rparr>"

definition cfg_req0 :: cfg_req where
  "cfg_req0 = \<lparr>nq_mode = Some ''timeslicing'', nq_split = Some 4, nq_ssh = None, nq_lease = Some True, nq_scratch = None, nq_quota = None\<rparr>"

definition node_session0 :: "string \<Rightarrow> string \<Rightarrow> node_session" where
  "node_session0 i g = \<lparr>nn_instance = i, nn_name = i, nn_gpu = g, nn_phase = ''stopped'', nn_node = ''n1'', nn_env = ''container''\<rparr>"

theorem config_reaches_node_witness:
  "nw_labels (fst (set_config node_svc0 (\<lambda>_. True) ''n1'' cfg_req0 node_world0)) ''n1'' plugin_label = Some (time_slicing_key 4)"
proof -
  obtain w' r where h: "set_config node_svc0 (\<lambda>_. True) ''n1'' cfg_req0 node_world0 = (w', r)" by fastforce
  have p: "or_default (ns_physical_label node_svc0) ''giosk.io/physical'' \<notin> {share_mode_label, plugin_label, scratch_label}"
    by (simp add: node_svc0_def or_default_def share_mode_label_def plugin_label_def scratch_label_def)
  show ?thesis
    using config_reaches_node [of "\<lambda>_. True" node_svc0 "''gpu-operator''" "''time-slicing-config''" cfg_req0 "''timeslicing''" 4, OF _ _ _ _ _ _ _ p h] h
    by (simp add: node_svc0_def cfg_req0_def)
qed

theorem mode_impact_misses_witness:
  "node_session0 ''b'' ''timeslice'' \<in> {s \<in> set (sessions_on_node (\<lambda>_. True) ''n1'' [node_session0 ''a'' ''shared'', node_session0 ''b'' ''timeslice'']).
     \<not> share_mode_allows (nn_gpu s) ''exclusive''} \<and>
   node_session0 ''b'' ''timeslice'' \<notin> set (snd (mode_impact (\<lambda>_. True) ''n1'' ''exclusive'' [node_session0 ''a'' ''shared'', node_session0 ''b'' ''timeslice'']))"
proof -
  let ?ss = "[node_session0 ''a'' ''shared'', node_session0 ''b'' ''timeslice'']"
  have h: "\<forall>s \<in> set ?ss. nn_gpu s \<in> {''cpu'', ''shared'', ''exclusive'', ''timeslice''}" by (simp add: node_session0_def)
  have "node_session0 ''b'' ''timeslice'' \<in> set (sessions_on_node (\<lambda>_. True) ''n1'' ?ss)" by (simp add: sessions_on_node_def node_session0_def)
  moreover have "node_session0 ''b'' ''timeslice'' \<notin> set (snd (mode_impact (\<lambda>_. True) ''n1'' ''exclusive'' ?ss))"
    by (simp add: mode_impact_def Let_def mode_breaks_def sessions_on_node_def node_session0_def)
  ultimately show ?thesis
    using mode_impact_misses [of "\<lambda>_. True" "''exclusive''" ?ss "''n1''"] h by (auto simp: node_session0_def)
qed

end
