(* ===== verification/Node_Agent.thy ===== *)
theory Node_Agent
  imports Physical_Nodes
begin

text \<open>
  The agent on a physical node (\<open>internal/nodeagent\<close>): it asks the API for the leases of its node and brings the
  host in line, with \<open>ShellExecutor\<close> as executor. The host is its accounts (with user id and home), the contents of
  the \<open>authorized_keys\<close> files, the mounts, the owners given to the users' NFS directories, the directories made on
  the NFS servers and the scratch directories; a command may fail (\<open>ga_ok\<close>). What the agent has applied lives in its
  memory only. Go's order of map iteration is an argument, and so is the directory \<open>mktemp -d\<close> makes. Mounts are
  recorded as the kernel lists them, under their resolved path; symbolic links on the host are not modelled.
\<close>

section \<open>The host\<close>

record host =
  ho_accounts :: "string \<Rightarrow> (int \<times> string) option"
  ho_keys :: "string \<Rightarrow> string option"
  ho_mounts :: "nfs_mount list"
  ho_scratch :: "string \<Rightarrow> string option"
  ho_owner :: "string \<Rightarrow> int option"
  ho_served :: "(string \<times> string) list"

datatype command = CMkdir | CUseradd string | CKeys string | CMktemp | CMountExport | CServerMkdir | CUmountExport |
  CMount string | CChown string | CScratch string | CUmount string | CUserdel string

record executor =
  ex_home :: string
  ex_gateway_key :: string
  ex_tmpdir :: "host \<Rightarrow> string"

record agent_env =
  ga_ok :: "command \<Rightarrow> bool"
  ga_leases :: "agent_lease list option"
  ga_order :: "(int \<times> string) list \<Rightarrow> (int \<times> string) list"

section \<open>Provisioning\<close>

fun join_lines :: "string list \<Rightarrow> string" where
  "join_lines [] = []"
| "join_lines [x] = x"
| "join_lines (x # xs) = x @ [CHR 0x0A] @ join_lines xs"

definition join_keys :: "string list \<Rightarrow> string" where
  "join_keys ks = join_lines (filter (\<lambda>k. k \<noteq> []) (map trim_space ks))"

definition lease_home :: "executor \<Rightarrow> agent_lease \<Rightarrow> string" where
  "lease_home x l = (if al_home l = [] then ex_home x @ ''/'' @ al_user l else al_home l)"

text \<open>\<open>id\<close> finds any account of that name, the agent's or not; \<open>useradd -u\<close> refuses a user id in use.\<close>

definition ensure_account :: "(command \<Rightarrow> bool) \<Rightarrow> string \<Rightarrow> agent_lease \<Rightarrow> host \<Rightarrow> host \<times> bool" where
  "ensure_account ok home l h =
     (case ho_accounts h (al_user l) of Some _ \<Rightarrow> (h, True)
      | None \<Rightarrow>
          if \<not> ok CMkdir \<or> \<not> ok (CUseradd (al_user l)) \<or> (\<exists>a d. ho_accounts h a = Some (al_uid l, d)) then (h, False)
          else (h\<lparr>ho_accounts := (ho_accounts h)(al_user l \<mapsto> (al_uid l, home))\<rparr>, True))"

definition keys_file :: "string \<Rightarrow> string" where
  "keys_file home = home @ ''/.ssh/authorized_keys''"

definition write_keys :: "(command \<Rightarrow> bool) \<Rightarrow> string \<Rightarrow> string \<Rightarrow> host \<Rightarrow> host" where
  "write_keys ok home ks h =
     (if ks \<noteq> [] \<and> ok (CKeys home) then h\<lparr>ho_keys := (ho_keys h)(keys_file home \<mapsto> ks @ [CHR 0x0A])\<rparr> else h)"

text \<open>A path resolved: empty segments and dots fall away, two dots go up.\<close>

fun segments_from :: "string \<Rightarrow> string \<Rightarrow> string list" where
  "segments_from acc [] = (if acc = [] then [] else [acc])"
| "segments_from acc (c # cs) =
     (if c = CHR ''/'' then (if acc = [] then [] else [acc]) @ segments_from [] cs else segments_from (acc @ [c]) cs)"

definition segments :: "string \<Rightarrow> string list" where
  "segments s = segments_from [] s"

fun walk :: "string list \<Rightarrow> string list \<Rightarrow> string list" where
  "walk st [] = st"
| "walk st (x # xs) = walk (if x = ''.'' then st else if x = ''..'' then butlast st else st @ [x]) xs"

definition slashed :: "string list \<Rightarrow> string" where
  "slashed xs = concat (map (\<lambda>x. CHR ''/'' # x) xs)"

definition real_path :: "string \<Rightarrow> string" where
  "real_path s = slashed (walk [] (segments s))"

text \<open>\<open>mkdir -p T; mountpoint -q T || mount\<close>.\<close>

definition mounts_ok :: "(command \<Rightarrow> bool) \<Rightarrow> nfs_mount \<Rightarrow> host \<Rightarrow> bool" where
  "mounts_ok ok m h \<longleftrightarrow> (\<exists>x \<in> set (ho_mounts h). vm_target x = real_path (vm_target m)) \<or> ok (CMount (vm_target m))"

definition mount_once :: "(command \<Rightarrow> bool) \<Rightarrow> nfs_mount \<Rightarrow> host \<Rightarrow> host" where
  "mount_once ok m h =
     (if (\<exists>x \<in> set (ho_mounts h). vm_target x = real_path (vm_target m)) \<or> \<not> ok (CMount (vm_target m)) then h
      else h\<lparr>ho_mounts := ho_mounts h @ [m\<lparr>vm_target := real_path (vm_target m)\<rparr>]\<rparr>)"

definition trim_slashes :: "string \<Rightarrow> string" where
  "trim_slashes s = rev (dropWhile (\<lambda>c. c = CHR ''/'') (rev s))"

definition nfs_home :: "string \<Rightarrow> agent_lease \<Rightarrow> nfs_mount" where
  "nfs_home home l = \<lparr>vm_server = al_server l, vm_path = trim_slashes (al_path l) @ ''/'' @ al_user l, vm_target = home @ ''/nfs'', vm_ro = False\<rparr>"

text \<open>The user's directory is made on the server through the parent export, mounted at a temporary directory for as
  long as it takes: the mount is undone last, so it stays when making the directory or undoing the mount fails.\<close>

definition parent_export :: "executor \<Rightarrow> agent_lease \<Rightarrow> host \<Rightarrow> nfs_mount" where
  "parent_export x l h = \<lparr>vm_server = al_server l, vm_path = trim_slashes (al_path l), vm_target = ex_tmpdir x h, vm_ro = False\<rparr>"

definition make_served_dir :: "executor \<Rightarrow> (command \<Rightarrow> bool) \<Rightarrow> agent_lease \<Rightarrow> host \<Rightarrow> host" where
  "make_served_dir x ok l h =
     (if \<not> ok CMktemp \<or> \<not> ok CMountExport then h
      else (let h1 = h\<lparr>ho_mounts := ho_mounts h @ [parent_export x l h]\<rparr>
            in if \<not> ok CServerMkdir then h1
               else (let h2 = h1\<lparr>ho_served := ho_served h1 @ [(al_server l, trim_slashes (al_path l) @ ''/'' @ al_user l)]\<rparr>
                     in if ok CUmountExport then h2\<lparr>ho_mounts := butlast (ho_mounts h2)\<rparr> else h2)))"

definition ensure_nfs_home :: "executor \<Rightarrow> (command \<Rightarrow> bool) \<Rightarrow> string \<Rightarrow> agent_lease \<Rightarrow> host \<Rightarrow> host" where
  "ensure_nfs_home x ok home l h =
     (let m = nfs_home home l; h1 = make_served_dir x ok l h; h2 = mount_once ok m h1
      in if mounts_ok ok m h1 \<and> ok (CChown (vm_target m)) then h2\<lparr>ho_owner := (ho_owner h2)(vm_target m \<mapsto> al_uid l)\<rparr> else h2)"

definition provision_lease :: "executor \<Rightarrow> (command \<Rightarrow> bool) \<Rightarrow> agent_lease \<Rightarrow> host \<Rightarrow> host \<times> bool" where
  "provision_lease x ok l h =
     (let home = lease_home x l
      in case ensure_account ok home l h of (h1, False) \<Rightarrow> (h1, False)
         | (h1, True) \<Rightarrow>
             (let h2 = write_keys ok home (join_keys [al_key l, ex_gateway_key x]) h1;
                  h3 = (if al_server l \<noteq> [] \<and> al_path l \<noteq> [] then ensure_nfs_home x ok home l h2 else h2);
                  h4 = fold (mount_once ok) (al_volumes l) h3
              in (if al_scratch l \<noteq> [] \<and> ok (CScratch (al_scratch l))
                  then h4\<lparr>ho_scratch := (ho_scratch h4)(al_scratch l \<mapsto> al_user l)\<rparr> else h4, True)))"

text \<open>\<open>mount | awk '{print $3}' | grep '^<home>/'\<close>: targets with a space are cut at it, and a dot of the pattern
  matches any character.\<close>

fun grep_prefix :: "string \<Rightarrow> string \<Rightarrow> bool" where
  "grep_prefix [] s \<longleftrightarrow> True"
| "grep_prefix (p # ps) [] \<longleftrightarrow> False"
| "grep_prefix (p # ps) (c # cs) \<longleftrightarrow> (p = CHR ''.'' \<or> p = c) \<and> grep_prefix ps cs"

definition unmounts :: "executor \<Rightarrow> (command \<Rightarrow> bool) \<Rightarrow> string \<Rightarrow> nfs_mount \<Rightarrow> bool" where
  "unmounts x ok u m \<longleftrightarrow>
     (\<forall>c \<in> set (vm_target m). \<not> is_space c) \<and> grep_prefix (ex_home x @ ''/'' @ u @ ''/'') (vm_target m) \<and> ok (CUmount (vm_target m))"

text \<open>Failures are logged and forgotten: \<open>Deprovision\<close> always succeeds. The home stays.\<close>

definition deprovision :: "executor \<Rightarrow> (command \<Rightarrow> bool) \<Rightarrow> string \<Rightarrow> host \<Rightarrow> host \<times> bool" where
  "deprovision x ok u h =
     (let h1 = h\<lparr>ho_mounts := filter (\<lambda>m. \<not> unmounts x ok u m) (ho_mounts h)\<rparr>
      in (if ok (CUserdel u) then h1\<lparr>ho_accounts := (ho_accounts h1)(u := None)\<rparr> else h1, True))"

section \<open>The reconciler\<close>

record agent =
  ag_applied :: "(int \<times> string) list"
  ag_host :: host

definition apply_lease :: "executor \<Rightarrow> (command \<Rightarrow> bool) \<Rightarrow> agent_lease \<Rightarrow> agent \<Rightarrow> agent" where
  "apply_lease x ok l a =
     (if al_id l \<in> fst ` set (ag_applied a) then a
      else case provision_lease x ok l (ag_host a) of
             (h, False) \<Rightarrow> a\<lparr>ag_host := h\<rparr>
           | (h, True) \<Rightarrow> a\<lparr>ag_host := h, ag_applied := ag_applied a @ [(al_id l, al_user l)]\<rparr>)"

definition drop_lease :: "executor \<Rightarrow> (command \<Rightarrow> bool) \<Rightarrow> int \<times> string \<Rightarrow> agent \<Rightarrow> agent" where
  "drop_lease x ok p a =
     (case deprovision x ok (snd p) (ag_host a) of
        (h, True) \<Rightarrow> a\<lparr>ag_host := h, ag_applied := filter (\<lambda>q. fst q \<noteq> fst p) (ag_applied a)\<rparr>
      | (h, False) \<Rightarrow> a\<lparr>ag_host := h\<rparr>)"

definition deprovision_stale :: "executor \<Rightarrow> agent_env \<Rightarrow> int set \<Rightarrow> agent \<Rightarrow> agent" where
  "deprovision_stale x e seen a = fold (drop_lease x (ga_ok e)) (filter (\<lambda>p. fst p \<notin> seen) (ga_order e (ag_applied a))) a"

definition agent_tick :: "executor \<Rightarrow> agent_env \<Rightarrow> agent \<Rightarrow> agent" where
  "agent_tick x e a =
     (case ga_leases e of None \<Rightarrow> a
      | Some ls \<Rightarrow> deprovision_stale x e (al_id ` set ls) (fold (apply_lease x (ga_ok e)) ls a))"

text \<open>An agent that starts knows nothing.\<close>

definition new_agent :: "host \<Rightarrow> agent" where
  "new_agent h = \<lparr>ag_applied = [], ag_host = h\<rparr>"

section \<open>Resolved paths\<close>

text \<open>A path lies within a directory when it is the directory or goes on below it.\<close>

definition path_within :: "string \<Rightarrow> string \<Rightarrow> bool" where
  "path_within d p \<longleftrightarrow> p = d \<or> (\<exists>x. p = d @ CHR ''/'' # x)"

lemma segments_from_join: "segments_from acc (a @ CHR ''/'' # b) = segments_from acc a @ segments_from [] b"
  by (induction acc a rule: segments_from.induct) simp_all

lemma segments_join: "segments (a @ CHR ''/'' # b) = segments a @ segments b"
  by (simp add: segments_def segments_from_join)

lemma segments_slash [simp]: "segments (CHR ''/'' # s) = segments s"
  by (simp add: segments_def)

lemma segments_from_plain: "CHR ''/'' \<notin> set s \<Longrightarrow> segments_from acc s = (if acc @ s = [] then [] else [acc @ s])"
  by (induction acc s rule: segments_from.induct) auto

lemma segments_plain: "CHR ''/'' \<notin> set s \<Longrightarrow> segments s = (if s = [] then [] else [s])"
  by (simp add: segments_def segments_from_plain)

lemma walk_append: "walk st (xs @ ys) = walk (walk st xs) ys"
  by (induction st xs rule: walk.induct) simp_all

lemma walk_down: "''..'' \<notin> set xs \<Longrightarrow> walk st xs = st @ filter (\<lambda>x. x \<noteq> ''.'') xs"
  by (induction st xs rule: walk.induct) auto

lemma slashed_append: "slashed (xs @ ys) = slashed xs @ slashed ys"
  by (simp add: slashed_def)

lemma within_slashed: "path_within (slashed ws) (slashed (ws @ xs))"
  by (cases xs) (simp_all add: path_within_def slashed_def)

lemma real_path_below:
  assumes "real_path d = d"
  shows "real_path (d @ CHR ''/'' # p) = slashed (walk (walk [] (segments d)) (segments p))"
    "slashed (walk [] (segments d)) = d"
  using assms by (simp_all add: real_path_def segments_join walk_append)

text \<open>Without two dots a path below a resolved directory stays within it.\<close>

lemma real_path_within:
  assumes "real_path d = d" "''..'' \<notin> set (segments p)"
  shows "path_within d (real_path (d @ CHR ''/'' # p))"
  using within_slashed [of "walk [] (segments d)"] unfolding real_path_below [OF assms(1)] walk_down [OF assms(2)] by simp

lemma real_path_step:
  assumes "real_path d = d" "CHR ''/'' \<notin> set x" "x \<notin> {[], ''.'', ''..''}"
  shows "real_path (d @ CHR ''/'' # x) = d @ CHR ''/'' # x"
proof -
  have "segments x = [x]" using assms(2,3) by (simp add: segments_plain)
  then show ?thesis using assms(3) real_path_below(2) [OF assms(1)]
    unfolding real_path_below(1) [OF assms(1)] by (simp add: slashed_append) (simp add: slashed_def)
qed

lemma real_path_dataset:
  assumes "real_path d = d"
  shows "path_within d (real_path (d @ ''/datasets/slow/'' @ ds_mount_name n))"
proof -
  let ?x = "ds_mount_name n" and ?ws = "walk [] (segments d)"
  have x: "CHR ''/'' \<notin> set ?x" by (auto simp: ds_mount_name_def Let_def)
  have "segments (''datasets/slow'' @ CHR ''/'' # ?x) = [''datasets'', ''slow''] @ segments ?x"
    unfolding segments_join by (simp add: segments_def)
  then have "walk ?ws (segments (''datasets/slow'' @ CHR ''/'' # ?x)) = walk (?ws @ [''datasets'', ''slow'']) (segments ?x)"
    by (simp add: walk_append)
  moreover have "\<exists>xs. walk (?ws @ [''datasets'', ''slow'']) (segments ?x) = ?ws @ xs"
    using segments_plain [OF x] by (auto simp: butlast_append)
  ultimately obtain xs where w: "walk ?ws (segments (''datasets/slow'' @ CHR ''/'' # ?x)) = ?ws @ xs" by auto
  have "real_path (d @ ''/datasets/slow/'' @ ?x) = slashed (?ws @ xs)"
    using real_path_below(1) [OF assms, of "''datasets/slow'' @ CHR ''/'' # ?x"] unfolding w by simp
  then show ?thesis using within_slashed [of ?ws xs] real_path_below(2) [OF assms] by simp
qed

lemma real_path_volume:
  assumes "real_path d = d" "''..'' \<notin> set (segments p)"
  shows "path_within d (real_path (d @ ensure_leading_slash p))"
proof -
  have "\<exists>q. ensure_leading_slash p = CHR ''/'' # q \<and> ''..'' \<notin> set (segments q)"
  proof (cases p)
    case Nil
    then show ?thesis by (intro exI [of _ "''data''"]) (simp add: ensure_leading_slash_def segments_plain)
  next
    case (Cons c cs)
    then show ?thesis
      using assms(2) by (intro exI [of _ "if c = CHR ''/'' then cs else c # cs"]) (auto simp: ensure_leading_slash_def)
  qed
  then obtain q where "ensure_leading_slash p = CHR ''/'' # q" "''..'' \<notin> set (segments q)" by blast
  then show ?thesis using real_path_within [OF assms(1), of q] by simp
qed

section \<open>What a lease mounts\<close>

lemma mount_once_mounts:
  "set (ho_mounts (mount_once ok m h)) \<subseteq> insert (m\<lparr>vm_target := real_path (vm_target m)\<rparr>) (set (ho_mounts h))"
  by (auto simp: mount_once_def)

lemma mount_all_mounts:
  "set (ho_mounts (fold (mount_once ok) ms h)) \<subseteq> (\<lambda>m. m\<lparr>vm_target := real_path (vm_target m)\<rparr>) ` set ms \<union> set (ho_mounts h)"
proof (induction ms arbitrary: h)
  case (Cons m ms)
  show ?case using Cons.IH [of "mount_once ok m h"] mount_once_mounts [of ok m h] by auto
qed simp

lemma account_frame [simp]:
  "ho_mounts (fst (ensure_account ok home l h)) = ho_mounts h" "ho_mounts (write_keys ok home ks h) = ho_mounts h"
  by (simp_all add: ensure_account_def write_keys_def split: option.split)

text \<open>What may stay mounted of the parent export.\<close>

definition left_mounted :: "executor \<Rightarrow> (command \<Rightarrow> bool) \<Rightarrow> agent_lease \<Rightarrow> nfs_mount \<Rightarrow> bool" where
  "left_mounted x ok l m \<longleftrightarrow> \<not> (ok CServerMkdir \<and> ok CUmountExport) \<and> (\<exists>h. m = parent_export x l h)"

lemma make_served_mounts:
  assumes "m \<in> set (ho_mounts (make_served_dir x ok l h))"
  shows "left_mounted x ok l m \<or> m \<in> set (ho_mounts h)"
  using assms by (auto simp: make_served_dir_def left_mounted_def Let_def split: if_splits)

lemma nfs_home_mounts:
  assumes "m \<in> set (ho_mounts (ensure_nfs_home x ok home l h))"
  shows "m = (nfs_home home l)\<lparr>vm_target := real_path (home @ ''/nfs'')\<rparr> \<or> left_mounted x ok l m \<or> m \<in> set (ho_mounts h)"
proof -
  have "m \<in> set (ho_mounts (mount_once ok (nfs_home home l) (make_served_dir x ok l h)))"
    using assms by (simp add: ensure_nfs_home_def Let_def split: if_splits)
  then show ?thesis
    using mount_once_mounts [of ok "nfs_home home l" "make_served_dir x ok l h"] make_served_mounts [of m x ok l h]
    by (auto simp: nfs_home_def)
qed

lemma provision_mounts:
  assumes "m \<in> set (ho_mounts (fst (provision_lease x ok l h)))"
  shows "m = (nfs_home (lease_home x l) l)\<lparr>vm_target := real_path (lease_home x l @ ''/nfs'')\<rparr> \<or> left_mounted x ok l m \<or>
    m \<in> (\<lambda>m. m\<lparr>vm_target := real_path (vm_target m)\<rparr>) ` set (al_volumes l) \<or> m \<in> set (ho_mounts h)"
proof -
  let ?home = "lease_home x l"
  obtain h1 b where a: "ensure_account ok ?home l h = (h1, b)" by fastforce
  have h1: "ho_mounts h1 = ho_mounts h" using account_frame(1) [of ok ?home l h] a by simp
  let ?h2 = "write_keys ok ?home (join_keys [al_key l, ex_gateway_key x]) h1"
  let ?h3 = "if al_server l \<noteq> [] \<and> al_path l \<noteq> [] then ensure_nfs_home x ok ?home l ?h2 else ?h2"
  show ?thesis
  proof (cases b)
    case False
    then show ?thesis using assms h1 by (simp add: provision_lease_def Let_def a)
  next
    case True
    then have "m \<in> set (ho_mounts (fold (mount_once ok) (al_volumes l) ?h3))"
      using assms by (auto simp: provision_lease_def Let_def a split: if_splits)
    then have "m \<in> (\<lambda>m. m\<lparr>vm_target := real_path (vm_target m)\<rparr>) ` set (al_volumes l) \<or> m \<in> set (ho_mounts ?h3)"
      using mount_all_mounts [of ok "al_volumes l" ?h3] by blast
    then show ?thesis using nfs_home_mounts [of m x ok ?home l ?h2] h1 by (auto split: if_splits)
  qed
qed


section \<open>Applying and dropping\<close>

lemma provision_accounts:
  "ho_accounts (fst (provision_lease x ok l h)) = ho_accounts (fst (ensure_account ok (lease_home x l) l h))"
  "snd (provision_lease x ok l h) = snd (ensure_account ok (lease_home x l) l h)"
proof -
  have m: "ho_accounts (mount_once ok m h) = ho_accounts h" for m h by (simp add: mount_once_def)
  have f: "ho_accounts (fold (mount_once ok) ms h) = ho_accounts h" for ms h by (induction ms arbitrary: h) (simp_all add: m)
  have n: "ho_accounts (ensure_nfs_home x ok home l h) = ho_accounts h" for home h
    by (simp add: ensure_nfs_home_def make_served_dir_def m Let_def)
  have k: "ho_accounts (write_keys ok home ks h) = ho_accounts h" for home ks h by (simp add: write_keys_def)
  show "ho_accounts (fst (provision_lease x ok l h)) = ho_accounts (fst (ensure_account ok (lease_home x l) l h))"
    by (simp add: provision_lease_def Let_def f m n k split: prod.split bool.split)
  show "snd (provision_lease x ok l h) = snd (ensure_account ok (lease_home x l) l h)"
    by (simp add: provision_lease_def Let_def split: prod.split bool.split)
qed

lemma apply_lease_eq:
  "ag_applied (apply_lease x ok l a) =
     (if al_id l \<notin> fst ` set (ag_applied a) \<and> snd (ensure_account ok (lease_home x l) l (ag_host a))
      then ag_applied a @ [(al_id l, al_user l)] else ag_applied a)"
  "ho_accounts (ag_host (apply_lease x ok l a)) =
     (if al_id l \<in> fst ` set (ag_applied a) then ho_accounts (ag_host a)
      else ho_accounts (fst (ensure_account ok (lease_home x l) l (ag_host a))))"
  using provision_accounts [of x ok l "ag_host a"] by (auto simp: apply_lease_def split: prod.split bool.split)

lemma drop_lease_eq [simp]:
  "ag_applied (drop_lease x ok p a) = filter (\<lambda>q. fst q \<noteq> fst p) (ag_applied a)"
  "ho_accounts (ag_host (drop_lease x ok p a)) =
     (if ok (CUserdel (snd p)) then (ho_accounts (ag_host a))(snd p := None) else ho_accounts (ag_host a))"
  by (simp_all add: drop_lease_def deprovision_def Let_def)

lemma drop_all:
  "ag_applied (fold (drop_lease x ok) ps a) = filter (\<lambda>q. fst q \<notin> fst ` set ps) (ag_applied a)"
  "ho_accounts (ag_host (fold (drop_lease x ok) ps a)) =
     (\<lambda>u. if u \<in> snd ` set ps \<and> ok (CUserdel u) then None else ho_accounts (ag_host a) u)"
  by (induction ps arbitrary: a) (auto simp: fun_eq_iff intro: filter_cong)

definition fair_order :: "agent_env \<Rightarrow> bool" where
  "fair_order e \<longleftrightarrow> (\<forall>ps. set (ga_order e ps) = set ps)"

lemma tick_parts:
  fixes x a
  assumes "ga_leases e = Some ls" "fair_order e"
  defines "a1 \<equiv> fold (apply_lease x (ga_ok e)) ls a"
  shows "ag_applied (agent_tick x e a) = filter (\<lambda>q. fst q \<in> al_id ` set ls) (ag_applied a1)"
    and "ho_accounts (ag_host (agent_tick x e a)) =
      (\<lambda>u. if (\<exists>i. (i, u) \<in> set (ag_applied a1) \<and> i \<notin> al_id ` set ls) \<and> ga_ok e (CUserdel u) then None
           else ho_accounts (ag_host a1) u)"
proof -
  have o: "set (ga_order e (ag_applied a1)) = set (ag_applied a1)" using assms(2) by (simp add: fair_order_def)
  have t: "agent_tick x e a = deprovision_stale x e (al_id ` set ls) a1" using assms(1) by (simp add: agent_tick_def a1_def)
  show "ag_applied (agent_tick x e a) = filter (\<lambda>q. fst q \<in> al_id ` set ls) (ag_applied a1)"
    unfolding t deprovision_stale_def drop_all by (rule filter_cong) (auto simp: o image_iff)
  show "ho_accounts (ag_host (agent_tick x e a)) =
      (\<lambda>u. if (\<exists>i. (i, u) \<in> set (ag_applied a1) \<and> i \<notin> al_id ` set ls) \<and> ga_ok e (CUserdel u) then None
           else ho_accounts (ag_host a1) u)"
    unfolding t deprovision_stale_def drop_all by (rule ext) (force simp: o image_iff)
qed

section \<open>Convergence\<close>

definition uids_fit :: "agent_lease list \<Rightarrow> host \<Rightarrow> bool" where
  "uids_fit ls h \<longleftrightarrow> (\<forall>l \<in> set ls. \<forall>u d. ho_accounts h u = Some (al_uid l, d) \<longrightarrow> u = al_user l)"

lemma ensure_account_calm:
  assumes "\<And>c. ok c" "\<forall>u d. ho_accounts h u = Some (al_uid l, d) \<longrightarrow> u = al_user l"
  shows "snd (ensure_account ok home l h)"
    and "ho_accounts (fst (ensure_account ok home l h)) =
      (case ho_accounts h (al_user l) of Some _ \<Rightarrow> ho_accounts h | None \<Rightarrow> (ho_accounts h)(al_user l \<mapsto> (al_uid l, home)))"
  using assms by (auto simp: ensure_account_def split: option.split)

lemma apply_all:
  assumes ok: "\<And>c. ok c" and sub: "set xs \<subseteq> set ls"
    and inj: "\<forall>k \<in> set ls. \<forall>l \<in> set ls. al_uid k = al_uid l \<longrightarrow> al_user k = al_user l"
    and fit: "uids_fit ls (ag_host a)"
    and old: "\<forall>l \<in> set ls. \<forall>u. (al_id l, u) \<in> set (ag_applied a) \<longrightarrow> u = al_user l \<and> ho_accounts (ag_host a) u \<noteq> None"
    and ids: "\<forall>k \<in> set ls. \<forall>l \<in> set ls. al_id k = al_id l \<longrightarrow> k = l"
  shows "uids_fit ls (ag_host (fold (apply_lease x ok) xs a)) \<and>
    set (ag_applied (fold (apply_lease x ok) xs a)) = set (ag_applied a) \<union> (\<lambda>l. (al_id l, al_user l)) ` set xs \<and>
    (\<forall>l \<in> set xs. ho_accounts (ag_host (fold (apply_lease x ok) xs a)) (al_user l) \<noteq> None) \<and>
    (\<forall>u. ho_accounts (ag_host a) u \<noteq> None \<longrightarrow> ho_accounts (ag_host (fold (apply_lease x ok) xs a)) u \<noteq> None)"
  using sub fit old
proof (induction xs arbitrary: a)
  case (Cons l xs)
  have l: "l \<in> set ls" using Cons.prems(1) by simp
  have u: "\<forall>u d. ho_accounts (ag_host a) u = Some (al_uid l, d) \<longrightarrow> u = al_user l" using Cons.prems(2) l by (simp add: uids_fit_def)
  let ?a = "apply_lease x ok l a"
  note e = ensure_account_calm [where home = "lease_home x l", OF ok u]
  have acc: "ho_accounts (ag_host ?a) v =
      (if v = al_user l \<and> ho_accounts (ag_host a) v = None \<and> al_id l \<notin> fst ` set (ag_applied a) then Some (al_uid l, lease_home x l)
       else ho_accounts (ag_host a) v)" for v
    using e(2) by (auto simp: apply_lease_eq split: option.split)
  have app: "set (ag_applied ?a) = insert (al_id l, al_user l) (set (ag_applied a))"
    using e(1) Cons.prems(3) l by (auto simp: apply_lease_eq)
  have has: "ho_accounts (ag_host ?a) (al_user l) \<noteq> None"
  proof (cases "al_id l \<in> fst ` set (ag_applied a)")
    case True
    then obtain v where "(al_id l, v) \<in> set (ag_applied a)" by auto
    then have "ho_accounts (ag_host a) (al_user l) \<noteq> None" using Cons.prems(3) l by blast
    then show ?thesis unfolding acc by simp
  next
    case False
    then show ?thesis unfolding acc by simp
  qed
  have fit': "uids_fit ls (ag_host ?a)"
    unfolding uids_fit_def
  proof (intro ballI allI impI)
    fix k v d assume k: "k \<in> set ls" "ho_accounts (ag_host ?a) v = Some (al_uid k, d)"
    show "v = al_user k"
    proof (cases "ho_accounts (ag_host a) v = Some (al_uid k, d)")
      case True
      then show ?thesis using Cons.prems(2) k(1) unfolding uids_fit_def by blast
    next
      case False
      then have "v = al_user l" "al_uid k = al_uid l" using k(2) unfolding acc by (simp_all split: if_splits)
      then show ?thesis using inj k(1) l by metis
    qed
  qed
  have old': "\<forall>k \<in> set ls. \<forall>u. (al_id k, u) \<in> set (ag_applied ?a) \<longrightarrow> u = al_user k \<and> ho_accounts (ag_host ?a) u \<noteq> None"
  proof (intro ballI allI impI)
    fix k v assume k: "k \<in> set ls" "(al_id k, v) \<in> set (ag_applied ?a)"
    then consider "al_id k = al_id l" "v = al_user l" | "(al_id k, v) \<in> set (ag_applied a)" using app by auto
    then show "v = al_user k \<and> ho_accounts (ag_host ?a) v \<noteq> None"
    proof cases
      case 1
      then have "k = l" using ids k(1) l by blast
      then show ?thesis using 1 has by simp
    next
      case 2
      then show ?thesis using Cons.prems(3) k(1) by (auto simp: acc)
    qed
  qed
  have mono: "\<forall>v. ho_accounts (ag_host a) v \<noteq> None \<longrightarrow> ho_accounts (ag_host ?a) v \<noteq> None" by (simp add: acc)
  note IH = Cons.IH [OF _ fit' old']
  show ?case using IH Cons.prems(1) app has mono by auto
qed simp

text \<open>C31: one tick brings the node in line with the leases it is told, when every command succeeds, no user id of
  theirs is taken by another account or shared by two users, the identifiers of the leases are distinct, what is
  applied of them has its account, and no user of a lease that is gone has a new one: exactly these leases are
  applied, each of their users has an account, and whoever had one for a lease that is gone has none.\<close>

theorem agent_converges:
  assumes "ga_leases e = Some ls" "fair_order e" "\<And>c. ga_ok e c" "uids_fit ls (ag_host a)"
    and "\<forall>k \<in> set ls. \<forall>l \<in> set ls. al_uid k = al_uid l \<longrightarrow> al_user k = al_user l"
    and "\<forall>k \<in> set ls. \<forall>l \<in> set ls. al_id k = al_id l \<longrightarrow> k = l"
    and "\<forall>l \<in> set ls. \<forall>u. (al_id l, u) \<in> set (ag_applied a) \<longrightarrow> u = al_user l \<and> ho_accounts (ag_host a) u \<noteq> None"
    and "\<forall>p \<in> set (ag_applied a). fst p \<notin> al_id ` set ls \<longrightarrow> snd p \<notin> al_user ` set ls"
  shows "set (ag_applied (agent_tick x e a)) = (\<lambda>l. (al_id l, al_user l)) ` set ls \<and>
    (\<forall>l \<in> set ls. ho_accounts (ag_host (agent_tick x e a)) (al_user l) \<noteq> None) \<and>
    (\<forall>p \<in> set (ag_applied a). fst p \<notin> al_id ` set ls \<longrightarrow> ho_accounts (ag_host (agent_tick x e a)) (snd p) = None)"
proof -
  define a1 where "a1 = fold (apply_lease x (ga_ok e)) ls a"
  have all: "set (ag_applied a1) = set (ag_applied a) \<union> (\<lambda>l. (al_id l, al_user l)) ` set ls"
    "\<forall>l \<in> set ls. ho_accounts (ag_host a1) (al_user l) \<noteq> None"
    using apply_all [OF assms(3) subset_refl assms(5,4,7,6), of x] unfolding a1_def by simp_all
  note t = tick_parts [OF assms(1,2), of x a, folded a1_def]
  have 1: "set (ag_applied (agent_tick x e a)) = (\<lambda>l. (al_id l, al_user l)) ` set ls"
    unfolding t(1) using all(1) assms(7) by auto
  have 2: "ho_accounts (ag_host (agent_tick x e a)) (al_user l) \<noteq> None" if "l \<in> set ls" for l
    unfolding t(2) using all that assms(8) by force
  have 3: "ho_accounts (ag_host (agent_tick x e a)) (snd p) = None" if "p \<in> set (ag_applied a)" "fst p \<notin> al_id ` set ls" for p
    unfolding t(2) using all(1) that assms(3) by (cases p) auto
  show ?thesis using 1 2 3 by blast
qed

section \<open>Accounts lost and left behind\<close>

text \<open>C32: when a user's lease ends and a new one of the same user begins between two ticks, the agent first keeps the
  account for the new lease and then deletes it for the old one; as the new lease counts as applied, no later tick
  brings it back while the lease lasts.\<close>

theorem relet_account_deleted:
  assumes "ag_applied a = [(i, al_user l)]" "al_id l \<noteq> i" "ho_accounts (ag_host a) (al_user l) = Some acc"
    and "ga_leases e = Some [l]" "fair_order e" "\<And>c. ga_ok e c"
  shows "ag_applied ((agent_tick x e ^^ Suc n) a) = [(al_id l, al_user l)] \<and>
    ho_accounts (ag_host ((agent_tick x e ^^ Suc n) a)) (al_user l) = None"
proof (induction n)
  case 0
  let ?a1 = "apply_lease x (ga_ok e) l a"
  have a1: "ag_applied ?a1 = [(i, al_user l), (al_id l, al_user l)]"
    using assms(1-3) by (simp add: apply_lease_eq ensure_account_def)
  show ?case using tick_parts [OF assms(4,5), of x a] a1 assms(2,6) by auto
next
  case (Suc n)
  let ?b = "(agent_tick x e ^^ Suc n) a"
  have b: "apply_lease x (ga_ok e) l ?b = ?b" using Suc by (simp add: apply_lease_def del: funpow.simps)
  have "(agent_tick x e ^^ Suc (Suc n)) a = agent_tick x e ?b" by simp
  then show ?case using tick_parts [OF assms(4,5), of x ?b] b Suc by (simp del: funpow.simps)
qed

text \<open>CX: an account of the host itself whose name a user has is taken for the user's when he leases the node, and
  deleted when the lease ends.\<close>

theorem host_account_deleted:
  assumes "ho_accounts h (al_user l) = Some acc" "ga_leases e1 = Some [l]" "ga_leases e2 = Some []" "fair_order e1" "fair_order e2"
    and "\<And>c. ga_ok e1 c" "\<And>c. ga_ok e2 c"
  shows "ho_accounts (ag_host (agent_tick x e1 (new_agent h))) (al_user l) = Some acc \<and>
    ho_accounts (ag_host (agent_tick x e2 (agent_tick x e1 (new_agent h)))) (al_user l) = None"
proof -
  let ?a = "apply_lease x (ga_ok e1) l (new_agent h)"
  have a: "ag_applied ?a = [(al_id l, al_user l)]" "ho_accounts (ag_host ?a) (al_user l) = Some acc"
    using assms(1) by (simp_all add: apply_lease_eq new_agent_def ensure_account_def)
  have 1: "ag_applied (agent_tick x e1 (new_agent h)) = [(al_id l, al_user l)]"
    "ho_accounts (ag_host (agent_tick x e1 (new_agent h))) (al_user l) = Some acc"
    using tick_parts [OF assms(2,4), of x "new_agent h"] a by simp_all
  show ?thesis using tick_parts [OF assms(3,5), of x "agent_tick x e1 (new_agent h)"] 1 assms(7) by auto
qed

lemma unknown_account_kept:
  assumes "u \<notin> snd ` set (ag_applied a)" "\<forall>ls. ga_leases e = Some ls \<longrightarrow> u \<notin> al_user ` set ls" "fair_order e"
  shows "u \<notin> snd ` set (ag_applied (agent_tick x e a)) \<and> ho_accounts (ag_host (agent_tick x e a)) u = ho_accounts (ag_host a) u"
proof (cases "ga_leases e")
  case (Some ls)
  have f: "u \<notin> snd ` set (ag_applied (fold (apply_lease x (ga_ok e)) xs b)) \<and>
      ho_accounts (ag_host (fold (apply_lease x (ga_ok e)) xs b)) u = ho_accounts (ag_host b) u"
    if "u \<notin> al_user ` set xs" "u \<notin> snd ` set (ag_applied b)" for xs b
    using that
  proof (induction xs arbitrary: b)
    case (Cons l xs)
    have "u \<notin> snd ` set (ag_applied (apply_lease x (ga_ok e) l b))" "ho_accounts (ag_host (apply_lease x (ga_ok e) l b)) u = ho_accounts (ag_host b) u"
      using Cons.prems by (auto simp: apply_lease_eq ensure_account_def split: option.split)
    then show ?case using Cons.IH [of "apply_lease x (ga_ok e) l b"] Cons.prems(1) by simp
  qed simp
  have "u \<notin> al_user ` set ls" using assms(2) Some by blast
  then show ?thesis using f [of ls a] assms(1) tick_parts [OF Some assms(3), of x a] by force
qed (use assms(1) in \<open>simp add: agent_tick_def\<close>)

text \<open>C18: a deletion that fails once is forgotten (\<open>userdel\<close> refuses while the user has a process running), and a
  restarted agent has forgotten every account: the account then outlives its lease, whatever later ticks do, as long
  as the user leases this node no more.\<close>

theorem forgotten_account_stays:
  assumes "ag_applied a = [(i, u)]" "ho_accounts (ag_host a) u = Some acc" "ga_leases e = Some []" "\<not> ga_ok e (CUserdel u)" "fair_order e"
    and "\<forall>e \<in> set es. fair_order e \<and> (\<forall>ls. ga_leases e = Some ls \<longrightarrow> u \<notin> al_user ` set ls)"
  shows "ho_accounts (ag_host (fold (agent_tick x) es (agent_tick x e a))) u = Some acc \<and>
    ho_accounts (ag_host (fold (agent_tick x) es (new_agent (ag_host a)))) u = Some acc"
proof -
  have keep: "ho_accounts (ag_host (fold (agent_tick x) es b)) u = ho_accounts (ag_host b) u" if "u \<notin> snd ` set (ag_applied b)" for b
    using assms(6) that
  proof (induction es arbitrary: b)
    case (Cons e es)
    have "u \<notin> snd ` set (ag_applied (agent_tick x e b)) \<and> ho_accounts (ag_host (agent_tick x e b)) u = ho_accounts (ag_host b) u"
      using Cons.prems by (intro unknown_account_kept) auto
    then show ?case using Cons.IH [of "agent_tick x e b"] Cons.prems(1) by simp
  qed simp
  have "ag_applied (agent_tick x e a) = []" "ho_accounts (ag_host (agent_tick x e a)) u = Some acc"
    using tick_parts [OF assms(3,5), of x a] assms(1,2,4) by simp_all
  then show ?thesis using keep [of "agent_tick x e a"] keep [of "new_agent (ag_host a)"] assms(2) by (simp add: new_agent_def)
qed

section \<open>Witnesses\<close>

definition host0 :: host where
  "host0 = \<lparr>ho_accounts = [''ubuntu'' \<mapsto> (1000, ''/home/ubuntu'')], ho_keys = Map.empty, ho_mounts = [], ho_scratch = Map.empty,
     ho_owner = Map.empty, ho_served = []\<rparr>"

definition executor0 :: executor where
  "executor0 = \<lparr>ex_home = ''/home/giosk'', ex_gateway_key = ''gw'', ex_tmpdir = (\<lambda>_. ''/tmp/tmp.1'')\<rparr>"

definition calm_env :: "agent_lease list \<Rightarrow> agent_env" where
  "calm_env ls = \<lparr>ga_ok = (\<lambda>_. True), ga_leases = Some ls, ga_order = id\<rparr>"

definition agent_lease0 :: "int \<Rightarrow> string \<Rightarrow> agent_lease" where
  "agent_lease0 i u = \<lparr>al_id = i, al_user = u, al_uid = 100007, al_key = ''k'', al_server = ''nfs'', al_path = ''/srv/home'', al_home = [],
     al_volumes = [], al_scratch = []\<rparr>"

lemmas agent_samples = host0_def executor0_def calm_env_def agent_lease0_def

lemma calm_env_fair [simp]: "fair_order (calm_env ls)" "ga_ok (calm_env ls) c" "ga_leases (calm_env ls) = Some ls"
  by (simp_all add: fair_order_def calm_env_def)

definition lease0 :: lease where
  "lease0 = session_lease ''n1'' 7 ''ses_1'' 0"

definition attachments0 :: attachments where
  "attachments0 = \<lparr>att_volumes = [\<lparr>av_instance = ''ses_1'', av_pvc = ''v'', av_ns = ''ns'', av_path = ''data'', av_perm = ''ro''\<rparr>], att_datasets = []\<rparr>"

text \<open>Where two dots lead.\<close>

lemma dots_leave_the_home: "real_path (''/home/giosk/ann'' @ ensure_leading_slash ''../../../etc'') = ''/etc''"
  by code_simp


theorem agent_converges_witness:
  "set (ag_applied (agent_tick executor0 (calm_env [agent_lease0 1 ''ann'']) (new_agent host0))) = {(1, ''ann'')}"
proof -
  have h: "uids_fit [agent_lease0 1 ''ann''] (ag_host (new_agent host0))" by (simp add: uids_fit_def new_agent_def agent_samples)
  show ?thesis
    using agent_converges [of "calm_env [agent_lease0 1 ''ann'']" "[agent_lease0 1 ''ann'']" "new_agent host0" executor0, OF calm_env_fair(3,1,2) h]
    by (simp add: new_agent_def agent_lease0_def)
qed

theorem relet_account_deleted_witness:
  "ho_accounts (ag_host ((agent_tick executor0 (calm_env [agent_lease0 2 ''ubuntu'']) ^^ Suc 5) \<lparr>ag_applied = [(1, ''ubuntu'')], ag_host = host0\<rparr>)) ''ubuntu'' = None"
proof -
  let ?a = "\<lparr>ag_applied = [(1, ''ubuntu'')], ag_host = host0\<rparr>"
  let ?l = "agent_lease0 2 ''ubuntu''"
  have h: "ag_applied ?a = [(1, al_user ?l)]" "al_id ?l \<noteq> 1" "ho_accounts (ag_host ?a) (al_user ?l) = Some (1000, ''/home/ubuntu'')"
    by (simp_all add: agent_samples)
  have "al_user ?l = ''ubuntu''" by (simp add: agent_lease0_def)
  then show ?thesis using relet_account_deleted [where n = 5 and x = executor0, OF h calm_env_fair(3,1,2)] by metis
qed

theorem host_account_deleted_witness:
  "ho_accounts (ag_host (agent_tick executor0 (calm_env []) (agent_tick executor0 (calm_env [agent_lease0 1 ''ubuntu'']) (new_agent host0)))) ''ubuntu'' = None"
proof -
  have h: "ho_accounts host0 (al_user (agent_lease0 1 ''ubuntu'')) = Some (1000, ''/home/ubuntu'')" by (simp add: agent_samples)
  have "al_user (agent_lease0 1 ''ubuntu'') = ''ubuntu''" by (simp add: agent_lease0_def)
  then show ?thesis using host_account_deleted [OF h calm_env_fair(3,3,1,1,2,2), of executor0] by simp
qed

theorem forgotten_account_stays_witness:
  "ho_accounts (ag_host (fold (agent_tick executor0) [calm_env [], calm_env []]
     (agent_tick executor0 (calm_env []\<lparr>ga_ok := (\<lambda>c. c \<noteq> CUserdel ''ubuntu'')\<rparr>) \<lparr>ag_applied = [(1, ''ubuntu'')], ag_host = host0\<rparr>))) ''ubuntu'' =
   Some (1000, ''/home/ubuntu'')"
proof -
  let ?e = "calm_env []\<lparr>ga_ok := (\<lambda>c. c \<noteq> CUserdel ''ubuntu'')\<rparr>"
  let ?a = "\<lparr>ag_applied = [(1::int, ''ubuntu'')], ag_host = host0\<rparr>"
  have h: "ag_applied ?a = [(1, ''ubuntu'')]" "ho_accounts (ag_host ?a) ''ubuntu'' = Some (1000, ''/home/ubuntu'')" "ga_leases ?e = Some []"
    "\<not> ga_ok ?e (CUserdel ''ubuntu'')" "fair_order ?e"
    "\<forall>e \<in> set [calm_env [], calm_env []]. fair_order e \<and> (\<forall>ls. ga_leases e = Some ls \<longrightarrow> ''ubuntu'' \<notin> al_user ` set ls)"
    by (simp_all add: host0_def fair_order_def) (simp_all add: calm_env_def)
  show ?thesis using forgotten_account_stays [OF h, of executor0] by blast
qed

end
