(* ===== verification/Spec2Isabelle.thy ===== *)
theory Spec2Isabelle
  imports Authz Policy Topup Session_Races Session_Accounts Session_Access Volumes Teams Settings Datasets Session_Usage Image_Pipeline Account_Safety Node_Agent
begin

text \<open>
  A verification development for giosk, a platform that lets the members of an organisation run sessions on a
  shared Kubernetes cluster with GPUs and on physical nodes (\<open>src/backend\<close>, Go). The program is four
  executables: the API server (\<open>cmd/api\<close>: one service per package of \<open>internal\<close>, over one SQL database and one
  cluster, with background loops), the access gateway (\<open>cmd/gateway\<close>), the agent of a physical node
  (\<open>cmd/node-agent\<close>) and the storage driver (\<open>cmd/csi\<close>). The first three are modelled here. This theory imports
  all others; each opens with the packages it models.

  How the parts interact. A request passes the authorisation guards and reaches a service; the service
  reads and writes tables, and calls other services through small Go interfaces: sessions draw credit through
  \<open>charger\<close> (provided by the wallet service), lease nodes through \<open>NodeLeaser\<close> (the node service), and ask for limits,
  volumes, datasets, images and capacity; the wallet service draws on organisation pools through \<open>Pool\<close>. Loops run
  beside the requests: billing, refilling, reaping, reconciling with the cluster, alerting. The gateway trusts the
  links the session service signs; the agent polls the leases the node service grants.

  From the code to the model. A struct is a record with prefixed fields, an enumeration a datatype or the
  string the code stores; a table is the list of its rows in the order of their ids (\<open>Giosk_Prelude\<close>, section on
  tables); a method is a function from the state it changes to the new state and its result, error values as in
  the code. Every SQL statement, cluster call and command of a host may fail: an oracle (\<open>ok\<close>, \<open>en_db\<close>, \<open>en_k8s\<close>,
  \<open>de_ok\<close>, \<open>ga_ok\<close> and the like) says which do, and a theorem that needs one to succeed says so. Go's order of map
  iteration is an argument where it can matter. Each call, and each tick of a loop, happens at one instant, given as
  an argument; interleavings are sequences of calls (\<open>inductive\<close> step and reachability relations).

  The theories, in order of dependence:

    \<^item> \<open>Giosk_Prelude\<close>: truncating division, \<open>float64\<close> rounding and \<open>int(...)\<close> of a float, decimal numbers as
      \<open>strconv\<close> reads and prints them, strings, tables with their lemmas.
    \<^item> \<open>Authz\<close> (\<open>internal/authz\<close>): every middleware as a verdict; guards confine managers to their scopes.
    \<^item> \<open>Policy\<close> (\<open>internal/policy\<close>): limits per level and their resolution, equal to a reference fold.
    \<^item> \<open>Credit_Store\<close>, \<open>Org\<close>, \<open>Wallet_Ledger\<close>, \<open>Wallet_Refill\<close>, \<open>Wallet_Service\<close>, \<open>Topup\<close> (\<open>internal/org\<close>,
      \<open>internal/wallet\<close>, \<open>internal/topup\<close>, \<open>cmd/api/crediter.go\<close>): pools, wallets and ledgers with every operation.
      \<open>Refill_Spec\<close> shows the three nested loops of the refill job equal to a specification per pool; \<open>Wallet_Books\<close>
      makes all operations steps of one relation and shows the books an invariant.
    \<^item> \<open>Session_Model\<close>, \<open>Availability\<close>, \<open>Session_Spec\<close>, \<open>Session_Mounts\<close>, \<open>K8s_Pod\<close>, \<open>K8s_Net\<close>, \<open>Node_Lease\<close>
      (\<open>internal/session\<close>, \<open>internal/resource\<close>, \<open>internal/k8s\<close>, \<open>internal/node\<close>): the session rows, counting free GPUs and
      the admission gate, what a session is and costs, what it may mount, its pod and network, leases of nodes.
    \<^item> \<open>Session_Billing\<close>, \<open>Session_Provision\<close>, \<open>Session_Lifecycle\<close>, \<open>Session_Reapers\<close> (\<open>internal/session\<close>): the world of
      the session service (tables, wallets, leases, pods, services, claims, policies, audit), the biller, making
      what a session needs, every user and administrator operation, and the loops that stop and delete.
      \<open>Session_Races\<close> and \<open>Session_Accounts\<close> put them together: starts against starts, deletions against what
      other members use, the biller on the wallet service as one reading of an abstract meter.
    \<^item> \<open>Gateway\<close>, \<open>Session_Access\<close> (\<open>internal/gateway\<close>, \<open>internal/session\<close>): tokens and their single use, the two
      proxies, and the links and commands a user is given, followed from request to forwarded connection.
    \<^item> \<open>Volumes\<close>, \<open>Teams\<close>, \<open>Settings\<close>, \<open>Datasets\<close>, \<open>Notify\<close> (\<open>internal/volume\<close>, \<open>internal/group\<close>,
      \<open>internal/systemconfig\<close>, \<open>internal/dataset\<close>, \<open>internal/notify\<close>): each with its tables, handlers and loops.
    \<^item> \<open>Session_Usage\<close> (\<open>internal/session/usage.go\<close>, \<open>history.go\<close>), \<open>Images\<close> and \<open>Image_Pipeline\<close> (\<open>internal/image\<close>,
      \<open>internal/k8s/build.go\<close>), \<open>Accounts\<close> and \<open>Account_Safety\<close> (\<open>internal/auth\<close>), \<open>Physical_Nodes\<close> and \<open>Node_Agent\<close>
      (\<open>internal/node\<close>, \<open>internal/k8s/deviceplugin.go\<close>, \<open>internal/nodeagent\<close>).

  Interfaces. Where one component relies on another, a locale states what it relies on, the client's lemmas are
  proved in it, and it is interpreted on the provider's definitions: \<open>credit_pool\<close> (\<open>Credit_Store\<close>; \<open>op\<close> in \<open>Org\<close>),
  \<open>charging\<close> (\<open>Credit_Store\<close>; \<open>wc\<close> in \<open>Wallet_Service\<close>; used by sessions and volumes) with its extension
  \<open>reliable_charging\<close> (\<open>wx\<close> in \<open>Session_Accounts\<close>), \<open>leasing\<close> (\<open>nl\<close> in \<open>Node_Lease\<close>), \<open>membership_reader\<close> (\<open>gm\<close> in
  \<open>Teams\<close>, used by the guards).

  What the lemma groups show. Invariants over all runs: books of the credit system, one exclusive lease per node,
  tables of teams, names of datasets, charges equal to recorded totals for sessions, homes and volumes. Safety: what
  pods and physical nodes mount, who may change memberships, who gets a session key, what a link opens and how
  often, what the reapers spare, starting a session once. Refinement and equivalence: the refill job, the biller,
  the placement check against the affinity of the pod, the metric cache of the alert engine. Outcomes and errors:
  failed creations, settled datasets, images at the end of the pipeline, converging agents. Round trips and bounds:
  saved settings, printed integers, histories, port names. And where the code falls short, theorems that say how: two
  people can empty the dataset mount between them, a suspended account stays signed in, sign-up enters closed teams,
  a rebuilt image stays signed, an agent deletes the account of a live lease.

  Numbers, bounds and fuel. Counters and durations are unbounded integers where the code's stay far below the
  machine's bounds, and words where they may not: \<open>Settings.itoa\<close> works on 64-bit words, and the storage charge is
  compared with its 64-bit computation (\<open>Session_Accounts.storage_due_exact\<close>). Floats are rationals rounded as
  \<open>float64\<close>; NaN and infinities are not represented, and a float out of the range of an integer is not converted. Loops
  recurse over their lists. Only the loop of \<open>itoa\<close> is a partial function, total on every word. Four rounds are
  enough for the image pipeline because an image passes four states: building, scanning, waiting for the key, signing.
  The expiry of a permanent lease is a century of 36525 days, where the code adds a hundred calendar years.

  What is not modelled, and why. The storage driver (\<open>internal/csi\<close>); read-only listings for screens, dashboards and
  reports; HTTP decoding, routing and wiring; client-go, GORM, gin and the metrics client, whose answers are the
  environment of the models that ask. Cryptography and codecs (AES-GCM, SHA-256, JSON, bcrypt, the SSH key parser) are
  parameters with their documented behaviour as hypotheses. Smaller omissions: setting a user's SSH key in the session
  service, image pull and restart policies, terminating pods, the details of the persistent volumes behind shared
  claims, labels, tolerations and volumes of jobs, all but the tail of job logs, the remote size of a dataset,
  file modes and symbolic links on a host. The audit log is always written. An alert engine that
  restarts forgets its cooldowns, so the cooldown holds for one engine's life. Names are compared exactly, whatever
  collation the database uses; text is ASCII; page numbers are unbounded.
\<close>

end
